(* ===== verification/Prelude.thy ===== *)
theory Prelude
  imports Main "HOL-Library.Finite_Map" "HOL-Library.List_Lexorder" "HOL-Library.Char_ord"
begin

text \<open>
  Shared vocabulary of the development.

  \<^item> Fallible code returns a value of the sum type \<open>'e + 'a\<close>: \<open>Inl\<close> is an early \<open>return err\<close>,
    \<open>Inr\<close> the normal result. \<open>rbind\<close> sequences two fallible steps, \<open>foldM\<close> is a Go \<open>for\<close> loop
    over a slice whose body may return an error.
  \<^item> A Go map keyed by strings is an \<open>fmap\<close>; a nil map and an empty map are the same value, as
    every read of the modelled code treats them alike. \<open>skeys\<close> enumerates a map in ascending key
    order, which is the order in which every loop over a map is modelled (Go leaves it open).
  \<^item> Strings are byte strings; the order of \<open>List_Lexorder\<close> and \<open>Char_ord\<close> is Go's bytewise order.
  \<^item> \<open>idx_add\<close> and \<open>idx_del\<close> are the posting-list updates that all index maps of the graph share.
\<close>

named_theorems index_simps "how index operations change the relation an index represents"
named_theorems frame_simps "fields of a state an operation leaves alone"

section \<open>Results and loops with early return\<close>

definition rbind :: "'e + 'a \<Rightarrow> ('a \<Rightarrow> 'e + 'b) \<Rightarrow> 'e + 'b" where
  "rbind m f = (case m of Inl e \<Rightarrow> Inl e | Inr x \<Rightarrow> f x)"

lemma rbind_simps [simp]:
  "rbind (Inl e) f = Inl e"
  "rbind (Inr x) f = f x"
  by (simp_all add: rbind_def)

lemma rbind_eq_Inr [simp]: "rbind m f = Inr y \<longleftrightarrow> (\<exists>x. m = Inr x \<and> f x = Inr y)"
  by (cases m) auto

lemma rbind_eq_Inl: "rbind m f = Inl e \<longleftrightarrow> m = Inl e \<or> (\<exists>x. m = Inr x \<and> f x = Inl e)"
  by (cases m) auto

lemma rbind_cong [fundef_cong]:
  "m = m' \<Longrightarrow> (\<And>x. m' = Inr x \<Longrightarrow> f x = f' x) \<Longrightarrow> rbind m f = rbind m' f'"
  by (cases m') auto

primrec foldM :: "('s \<Rightarrow> 'a \<Rightarrow> 'e + 's) \<Rightarrow> 's \<Rightarrow> 'a list \<Rightarrow> 'e + 's" where
  "foldM f s [] = Inr s"
| "foldM f s (x # xs) = rbind (f s x) (\<lambda>s'. foldM f s' xs)"

lemma foldM_append: "foldM f s (xs @ ys) = rbind (foldM f s xs) (\<lambda>s'. foldM f s' ys)"
  by (induction xs arbitrary: s) (auto simp: rbind_def split: sum.splits)

text \<open>The loop rule: an invariant of every successful step is an invariant of the loop.\<close>

lemma foldM_invariant:
  assumes "foldM f s xs = Inr s'" and "I s"
    and "\<And>t x t'. x \<in> set xs \<Longrightarrow> I t \<Longrightarrow> f t x = Inr t' \<Longrightarrow> I t'"
  shows "I s'"
  using assms
proof (induction xs arbitrary: s)
  case Nil
  then show ?case by simp
next
  case (Cons x xs)
  from Cons.prems(1) obtain t where t: "f s x = Inr t" "foldM f t xs = Inr s'"
    by auto
  have "I t" using Cons.prems(2,3) t(1) by (metis list.set_intros(1))
  with t(2) show ?case
    using Cons.IH [of t] Cons.prems(3) by (meson list.set_intros(2))
qed

text \<open>The same with the set of elements already processed.\<close>

lemma foldM_processed:
  assumes "foldM f s xs = Inr s'" and "P {} s"
    and "\<And>ks t x t'. x \<in> set xs \<Longrightarrow> ks \<subseteq> set xs \<Longrightarrow> P ks t \<Longrightarrow> f t x = Inr t' \<Longrightarrow> P (insert x ks) t'"
  shows "P (set xs) s'"
proof -
  have "foldM f s ys = Inr s' \<Longrightarrow> P ks s \<Longrightarrow> ks \<union> set ys = set xs \<Longrightarrow> P (set xs) s'" for ys ks s
  proof (induction ys arbitrary: s ks)
    case Nil
    then show ?case by simp
  next
    case (Cons y ys)
    then obtain t where "f s y = Inr t" "foldM f t ys = Inr s'" by auto
    moreover have "y \<in> set xs" "ks \<subseteq> set xs" "insert y ks \<union> set ys = set xs" using Cons.prems by auto
    ultimately show ?case using Cons.IH assms(3) Cons.prems(2) by blast
  qed
  with assms(1,2) show ?thesis by simp
qed

lemma foldM_processed_distinct:
  assumes "foldM f s xs = Inr s'" and "distinct xs" and "P {} s"
    and "\<And>ks t x t'. x \<in> set xs \<Longrightarrow> x \<notin> ks \<Longrightarrow> P ks t \<Longrightarrow> f t x = Inr t' \<Longrightarrow> P (insert x ks) t'"
  shows "P (set xs) s'"
proof -
  have "foldM f s ys = Inr s' \<Longrightarrow> distinct ys \<Longrightarrow> set ys \<inter> ks = {} \<Longrightarrow> P ks s \<Longrightarrow> set ys \<subseteq> set xs \<Longrightarrow> P (ks \<union> set ys) s'" for ys ks s
  proof (induction ys arbitrary: s ks)
    case Nil
    then show ?case by simp
  next
    case (Cons y ys)
    then obtain t where t: "f s y = Inr t" "foldM f t ys = Inr s'" by auto
    with Cons.prems assms(4) [of y ks s t] have "P (insert y ks \<union> set ys) s'"
      by (intro Cons.IH [OF t(2)]) auto
    then show ?case by simp
  qed
  from this [of s xs "{}"] assms(1-3) show ?thesis by simp
qed

text \<open>A loop without errors over distinct elements.\<close>

lemma fold_processed:
  assumes "distinct xs" and "P {} s"
    and "\<And>ks t x. x \<in> set xs \<Longrightarrow> x \<notin> ks \<Longrightarrow> P ks t \<Longrightarrow> P (insert x ks) (f x t)"
  shows "P (set xs) (fold f xs s)"
proof -
  have "distinct ys \<Longrightarrow> set ys \<inter> ks = {} \<Longrightarrow> set ys \<subseteq> set xs \<Longrightarrow> P ks s \<Longrightarrow> P (ks \<union> set ys) (fold f ys s)" for ys ks s
  proof (induction ys arbitrary: s ks)
    case Nil
    then show ?case by simp
  next
    case (Cons y ys)
    then have "P (insert y ks \<union> set ys) (fold f ys (f y s))"
      using assms(3) by (intro Cons.IH) auto
    then show ?case by simp
  qed
  from this [of xs "{}" s] assms(1,2) show ?thesis by simp
qed

text \<open>A loop whose every step succeeds from an invariant state succeeds.\<close>

lemma foldM_succeeds:
  assumes "I s" and "\<And>t x. x \<in> set xs \<Longrightarrow> I t \<Longrightarrow> \<exists>t'. f t x = Inr t' \<and> I t'"
  shows "\<exists>s'. foldM f s xs = Inr s' \<and> I s'"
  using assms
proof (induction xs arbitrary: s)
  case Nil
  then show ?case by simp
next
  case (Cons x xs)
  then obtain t where "f s x = Inr t" "I t" by (meson list.set_intros(1))
  moreover from this Cons obtain s' where "foldM f t xs = Inr s'" "I s'"
    by (meson list.set_intros(2))
  ultimately show ?case by auto
qed

text \<open>A loop that only checks: it succeeds exactly when every element passes.\<close>

definition checkM :: "('a \<Rightarrow> 'e + unit) \<Rightarrow> 'a list \<Rightarrow> 'e + unit" where
  "checkM f xs = foldM (\<lambda>_ x. f x) () xs"

lemma checkM_simps [simp]:
  "checkM f [] = Inr ()"
  "checkM f (x # xs) = rbind (f x) (\<lambda>_. checkM f xs)"
  by (simp_all add: checkM_def)

lemma checkM_eq_Inr: "checkM f xs = Inr u \<longleftrightarrow> (\<forall>x \<in> set xs. f x = Inr ())"
  by (induction xs) auto

section \<open>Finite maps\<close>

abbreviation mget :: "('k, 'v) fmap \<Rightarrow> 'k \<Rightarrow> 'v option" where
  "mget \<equiv> fmlookup"

definition skeys :: "('k :: linorder, 'v) fmap \<Rightarrow> 'k list" where
  "skeys m = sorted_list_of_fset (fmdom m)"

definition entries :: "('k :: linorder, 'v) fmap \<Rightarrow> ('k \<times> 'v) list" where
  "entries m = map (\<lambda>k. (k, the (mget m k))) (skeys m)"

definition mget_or :: "'v \<Rightarrow> ('k, 'v) fmap \<Rightarrow> 'k \<Rightarrow> 'v" where
  "mget_or d m k = (case mget m k of None \<Rightarrow> d | Some v \<Rightarrow> v)"

definition mempty :: "('k, 'v) fmap \<Rightarrow> bool" where
  "mempty m \<longleftrightarrow> fmdom m = {||}"

lemma set_skeys [simp]: "set (skeys m) = fmdom' m"
  by (simp add: skeys_def fmdom'_alt_def sorted_list_of_fset.rep_eq)

lemma sorted_skeys [simp]: "sorted (skeys m)"
  by (simp add: skeys_def sorted_list_of_fset.rep_eq)

lemma distinct_skeys [simp]: "distinct (skeys m)"
  by (simp add: skeys_def sorted_list_of_fset.rep_eq)

lemma set_entries [simp]: "(k, v) \<in> set (entries m) \<longleftrightarrow> mget m k = Some v"
  by (force simp: entries_def image_iff fmlookup_dom'_iff)

lemma set_map_snd_entries: "set (map snd (entries m)) = {v. \<exists>k. mget m k = Some v}"
proof (intro set_eqI iffI)
  fix v assume "v \<in> set (map snd (entries m))"
  then obtain k where "(k, v) \<in> set (entries m)" by auto
  then show "v \<in> {v. \<exists>k. mget m k = Some v}" by auto
next
  fix v assume "v \<in> {v. \<exists>k. mget m k = Some v}"
  then obtain k where "(k, v) \<in> set (entries m)" by auto
  from imageI [OF this, of snd] show "v \<in> set (map snd (entries m))" by simp
qed

lemma map_fst_entries [simp]: "map fst (entries m) = skeys m"
  by (simp add: entries_def comp_def)

lemma fst_set_entries [simp]: "fst ` set (entries m) = fmdom' m"
  by (metis map_fst_entries set_map set_skeys)

lemma distinct_entries [simp]: "distinct (entries m)"
  by (metis distinct_map distinct_skeys map_fst_entries)

lemma skeys_empty [simp]: "skeys fmempty = []"
  by (simp add: skeys_def sorted_list_of_fset.rep_eq)

lemma entries_empty [simp]: "entries fmempty = []"
  by (simp add: entries_def)

lemma mempty_iff: "mempty m \<longleftrightarrow> m = fmempty"
  by (auto simp: mempty_def intro: fmap_ext) (metis fmdom_notD fmempty_lookup fempty_iff fmap_ext)

lemma fmupd_nonempty: "fmupd k v m \<noteq> fmempty"
  by (metis fmempty_lookup fmupd_lookup option.distinct(1))

lemma mget_or_upd [simp]: "mget_or d (fmupd k v m) x = (if x = k then v else mget_or d m x)"
  by (simp add: mget_or_def)

lemma mget_or_drop [simp]: "mget_or d (fmdrop k m) x = (if x = k then d else mget_or d m x)"
  by (simp add: mget_or_def)

text \<open>A loop over the entries of a map that writes each of them into another map.\<close>

definition put_all :: "('k :: linorder, 'v) fmap \<Rightarrow> ('k, 'v) fmap \<Rightarrow> ('k, 'v) fmap" where
  "put_all src dst = fold (\<lambda>(k, v) m. fmupd k v m) (entries src) dst"

lemma fold_upd_lookup:
  "distinct (map fst kvs) \<Longrightarrow>
   mget (fold (\<lambda>(k, v) m. fmupd k v m) kvs m) x =
     (case map_of kvs x of None \<Rightarrow> mget m x | Some v \<Rightarrow> Some v)"
proof (induction kvs arbitrary: m)
  case Nil
  then show ?case by simp
next
  case (Cons kv kvs)
  obtain k v where kv: "kv = (k, v)" by (cases kv)
  from Cons.prems have "map_of kvs k = None" by (simp add: kv map_of_eq_None_iff)
  then show ?case
    using Cons by (auto simp: kv split: option.splits)
qed

lemma map_of_entries [simp]: "map_of (entries m) k = mget m k"
proof (cases "mget m k")
  case None
  then have "k \<notin> fst ` set (entries m)" by (simp add: fmlookup_dom'_iff)
  then show ?thesis using None by (simp add: map_of_eq_None_iff)
next
  case (Some v)
  then show ?thesis by (simp add: map_of_is_SomeI)
qed

lemma put_all_lookup [simp]:
  "mget (put_all src dst) k = (case mget src k of None \<Rightarrow> mget dst k | Some v \<Rightarrow> Some v)"
  by (simp add: put_all_def fold_upd_lookup)

section \<open>Posting lists: maps from a key to a set of identifiers\<close>

type_synonym ('k, 'i) postings = "('k, 'i set) fmap"

definition bucket :: "('k, 'i) postings \<Rightarrow> 'k \<Rightarrow> 'i set" where
  "bucket m k = mget_or {} m k"

definition idx_add :: "'k \<Rightarrow> 'i \<Rightarrow> ('k, 'i) postings \<Rightarrow> ('k, 'i) postings" where
  "idx_add k i m = fmupd k (insert i (bucket m k)) m"

definition idx_del :: "'k \<Rightarrow> 'i \<Rightarrow> ('k, 'i) postings \<Rightarrow> ('k, 'i) postings" where
  "idx_del k i m =
     (case mget m k of
        None \<Rightarrow> m
      | Some s \<Rightarrow> (let s' = s - {i} in if s' = {} then fmdrop k m else fmupd k s' m))"

text \<open>
  The contract of a posting index towards the graph: after adding or deleting one pair the index
  represents exactly the changed set of pairs. The relation an index represents determines it.
\<close>

locale posting_index =
  fixes add :: "'k \<Rightarrow> 'i \<Rightarrow> 'm \<Rightarrow> 'm"
    and del :: "'k \<Rightarrow> 'i \<Rightarrow> 'm \<Rightarrow> 'm"
    and represents :: "'m \<Rightarrow> ('k \<times> 'i) set \<Rightarrow> bool"
  assumes represents_add: "represents m R \<Longrightarrow> represents (add k i m) (insert (k, i) R)"
    and represents_del: "represents m R \<Longrightarrow> represents (del k i m) (R - {(k, i)})"
    and represents_unique: "represents m R \<Longrightarrow> represents m' R \<Longrightarrow> m = m'"
begin

lemma represents_add_keys:
  "represents m R \<Longrightarrow> represents (fold (\<lambda>k. add k i) ks m) (R \<union> {(k, i) | k. k \<in> set ks})"
proof (induction ks arbitrary: m R)
  case Nil
  then show ?case by simp
next
  case (Cons k ks)
  have eq: "insert (k, i) R \<union> {(k', i) | k'. k' \<in> set ks} = R \<union> {(k', i) | k'. k' \<in> set (k # ks)}"
    by auto
  show ?case
    using Cons.IH [OF represents_add [OF Cons.prems, of k i]] unfolding eq by simp
qed

lemma represents_del_keys:
  "represents m R \<Longrightarrow> represents (fold (\<lambda>k. del k i) ks m) (R - {(k, i) | k. k \<in> set ks})"
proof (induction ks arbitrary: m R)
  case Nil
  then show ?case by simp
next
  case (Cons k ks)
  have eq: "R - {(k, i)} - {(k', i) | k'. k' \<in> set ks} = R - {(k', i) | k'. k' \<in> set (k # ks)}"
    by auto
  show ?case
    using Cons.IH [OF represents_del [OF Cons.prems, of k i]] unfolding eq by simp
qed

end

definition is_index :: "('k, 'i) postings \<Rightarrow> ('k \<times> 'i) set \<Rightarrow> bool" where
  "is_index m R \<longleftrightarrow> (\<forall>k. mget m k = (let s = {i. (k, i) \<in> R} in if s = {} then None else Some s))"

lemma is_index_bucket: "is_index m R \<Longrightarrow> bucket m k = {i. (k, i) \<in> R}"
  by (auto simp: is_index_def bucket_def mget_or_def Let_def split: option.splits if_splits)

lemma is_index_empty [simp]: "is_index fmempty {}"
  by (simp add: is_index_def)

interpretation pidx: posting_index idx_add idx_del is_index
proof
  fix m :: "('k, 'i) postings" and R k i
  assume m: "is_index m R"
  have "{j. (k', j) \<in> insert (k, i) R} =
        (if k' = k then insert i {j. (k, j) \<in> R} else {j. (k', j) \<in> R})" for k'
    by auto
  with m show "is_index (idx_add k i m) (insert (k, i) R)"
    using is_index_bucket [OF m, of k] by (simp add: is_index_def idx_add_def)
  have "{j. (k', j) \<in> R - {(k, i)}} =
        (if k' = k then {j. (k, j) \<in> R} - {i} else {j. (k', j) \<in> R})" for k'
    by auto
  with m show "is_index (idx_del k i m) (R - {(k, i)})"
    by (auto simp: is_index_def idx_del_def Let_def split: option.splits)
next
  fix m m' :: "('k, 'i) postings" and R
  assume "is_index m R" and "is_index m' R"
  then show "m = m'" by (intro fmap_ext) (simp add: is_index_def)
qed

section \<open>The relation a keyed collection induces\<close>

text \<open>
  \<open>rel_of f m\<close> pairs every key of \<open>f v\<close> with the identifier of \<open>v\<close>: the reference meaning of an
  index over the collection \<open>m\<close>.
\<close>

definition rel_of :: "('v \<Rightarrow> 'k set) \<Rightarrow> ('i, 'v) fmap \<Rightarrow> ('k \<times> 'i) set" where
  "rel_of f m = {(k, i). \<exists>v. mget m i = Some v \<and> k \<in> f v}"

lemma rel_of_iff [simp]: "(k, i) \<in> rel_of f m \<longleftrightarrow> (\<exists>v. mget m i = Some v \<and> k \<in> f v)"
  by (simp add: rel_of_def)

lemma rel_of_empty [simp]: "rel_of f fmempty = {}"
  by (auto simp: rel_of_def)

lemma rel_of_drop [index_simps]:
  "mget m i = Some v \<Longrightarrow> rel_of f (fmdrop i m) = rel_of f m - {(k, i) | k. k \<in> f v}"
  by (auto simp: rel_of_def split: if_splits)

lemma rel_of_drop_absent [index_simps]: "mget m i = None \<Longrightarrow> rel_of f (fmdrop i m) = rel_of f m"
  by (auto simp: rel_of_def)

lemma rel_of_upd_absent [index_simps]:
  "mget m i = None \<Longrightarrow> rel_of f (fmupd i v m) = rel_of f m \<union> {(k, i) | k. k \<in> f v}"
  by (auto simp: rel_of_def split: if_splits)

lemma rel_of_upd [index_simps]:
  "rel_of f (fmupd i v m) = rel_of f (fmdrop i m) \<union> {(k, i) | k. k \<in> f v}"
  by (auto simp: rel_of_def split: if_splits)

end
