(* ===== verification/GoStd.thy ===== *)
theory GoStd
  imports Prelude Complex_Main "HOL-Library.Word"
begin

text \<open>
  The parts of Go and of its standard library that the modelled packages use: whitespace trimming
  and UTF-8 validity of byte strings (\<open>strings\<close>, \<open>unicode/utf8\<close>), decimal printing of integers
  (\<open>strconv.Itoa\<close>), IEEE-754 double values with their comparisons and shortest decimal printing
  (\<open>float64\<close>, \<open>strconv.FormatFloat\<close>), and SHA-256 with hexadecimal printing (\<open>crypto/sha256\<close>,
  \<open>encoding/hex\<close>). A finite \<open>float64\<close> is its exact rational value, or the negative zero, which
  compares equal to zero and prints differently.
\<close>

unbundle bit_operations_syntax

section \<open>Byte strings\<close>

abbreviation byte :: "nat \<Rightarrow> char" where
  "byte \<equiv> char_of"

abbreviation nul :: char where
  "nul \<equiv> CHR 0x00"

text \<open>The encodings of the runes with the Unicode property White\_Space (\<open>unicode.IsSpace\<close>).\<close>

definition space_runes :: "string list" where
  "space_runes =
     [[CHR 0x09], [CHR 0x0A], [CHR 0x0B], [CHR 0x0C], [CHR 0x0D], [CHR 0x20], [CHR 0xC2, CHR 0x85],
      [CHR 0xC2, CHR 0xA0], [CHR 0xE1, CHR 0x9A, CHR 0x80], [CHR 0xE2, CHR 0x80, CHR 0x80],
      [CHR 0xE2, CHR 0x80, CHR 0x81], [CHR 0xE2, CHR 0x80, CHR 0x82],
      [CHR 0xE2, CHR 0x80, CHR 0x83], [CHR 0xE2, CHR 0x80, CHR 0x84],
      [CHR 0xE2, CHR 0x80, CHR 0x85], [CHR 0xE2, CHR 0x80, CHR 0x86],
      [CHR 0xE2, CHR 0x80, CHR 0x87], [CHR 0xE2, CHR 0x80, CHR 0x88],
      [CHR 0xE2, CHR 0x80, CHR 0x89], [CHR 0xE2, CHR 0x80, CHR 0x8A],
      [CHR 0xE2, CHR 0x80, CHR 0xA8], [CHR 0xE2, CHR 0x80, CHR 0xA9],
      [CHR 0xE2, CHR 0x80, CHR 0xAF], [CHR 0xE2, CHR 0x81, CHR 0x9F],
      [CHR 0xE3, CHR 0x80, CHR 0x80]]"

definition is_prefix :: "'a list \<Rightarrow> 'a list \<Rightarrow> bool" where
  "is_prefix p s \<longleftrightarrow> take (length p) s = p"

text \<open>Strip one leading rune of the given set, if there is one.\<close>

definition strip_one :: "string list \<Rightarrow> string \<Rightarrow> string option" where
  "strip_one runes s =
     (case find (\<lambda>r. is_prefix r s) runes of None \<Rightarrow> None | Some r \<Rightarrow> Some (drop (length r) s))"

lemma strip_one_shorter: "strip_one runes s = Some t \<Longrightarrow> [] \<notin> set runes \<Longrightarrow> length t < length s"
  by (auto simp: strip_one_def is_prefix_def find_Some_iff split: option.splits)
     (metis (no_types, lifting) diff_less length_greater_0_conv nth_mem take_eq_Nil)

function trim_left :: "string list \<Rightarrow> string \<Rightarrow> string" where
  "trim_left runes s =
     (case strip_one runes s of
        None \<Rightarrow> s
      | Some t \<Rightarrow> if length t < length s then trim_left runes t else s)"
  by pat_completeness auto
termination
  by (relation "measure (\<lambda>(runes, s). length s)") auto

declare trim_left.simps [simp del]

definition TrimSpace :: "string \<Rightarrow> string" where
  "TrimSpace s = rev (trim_left (map rev space_runes) (rev (trim_left space_runes s)))"

lemma trim_left_stop: "[] \<notin> set runes \<Longrightarrow> strip_one runes (trim_left runes s) = None"
proof (induction runes s rule: trim_left.induct)
  case (1 runes s)
  show ?case
  proof (cases "strip_one runes s")
    case None
    then show ?thesis by (simp add: trim_left.simps [of runes s])
  next
    case (Some t)
    with "1.prems" have "length t < length s" by (simp add: strip_one_shorter)
    with Some "1" show ?thesis by (simp add: trim_left.simps [of runes s])
  qed
qed

lemma trim_left_suffix: "\<exists>p. s = p @ trim_left runes s"
proof (induction runes s rule: trim_left.induct)
  case (1 runes s)
  show ?case
  proof (cases "strip_one runes s")
    case None
    then show ?thesis by (simp add: trim_left.simps [of runes s])
  next
    case (Some t)
    then obtain n where t: "t = drop n s" by (auto simp: strip_one_def split: option.splits)
    show ?thesis
    proof (cases "length t < length s")
      case True
      with Some "1" obtain p where "t = p @ trim_left runes t" by blast
      then have "s = (take n s @ p) @ trim_left runes t" using t by (metis append.assoc append_take_drop_id)
      then show ?thesis using Some True by (metis (mono_tags, lifting) option.simps(5) trim_left.simps)
    next
      case False
      with Some show ?thesis by (simp add: trim_left.simps [of runes s])
    qed
  qed
qed

lemma trim_left_id: "strip_one runes s = None \<Longrightarrow> trim_left runes s = s"
  by (simp add: trim_left.simps [of runes s])

lemma strip_one_prefix: "strip_one runes (s @ t) = None \<Longrightarrow> strip_one runes s = None"
  by (auto simp: strip_one_def is_prefix_def find_None_iff split: option.splits)

lemma space_runes_nonempty [simp]: "[] \<notin> set space_runes"
  by (simp add: space_runes_def)

lemma rev_space_runes_nonempty [simp]: "[] \<notin> rev ` set space_runes"
  using space_runes_nonempty by (metis imageE rev_is_Nil_conv)

text \<open>Trimming twice is trimming once: no leading or trailing space is left.\<close>

lemma TrimSpace_idem [simp]: "TrimSpace (TrimSpace s) = TrimSpace s"
proof -
  let ?l = "trim_left space_runes s"
  let ?r = "trim_left (map rev space_runes) (rev ?l)"
  obtain p where "rev ?l = p @ ?r" using trim_left_suffix by blast
  then have "?l = rev ?r @ rev p" by (metis rev_append rev_rev_ident)
  then have "strip_one space_runes (rev ?r) = None"
    using trim_left_stop [of space_runes s] strip_one_prefix by (metis space_runes_nonempty)
  then have "trim_left space_runes (rev ?r) = rev ?r" by (rule trim_left_id)
  moreover have "trim_left (map rev space_runes) ?r = ?r"
    by (intro trim_left_id trim_left_stop) simp
  ultimately show ?thesis by (simp add: TrimSpace_def)
qed

lemma TrimSpace_Nil [simp]: "TrimSpace [] = []"
  using trim_left_suffix [of "[]"] by (simp add: TrimSpace_def)

definition HasSuffix :: "string \<Rightarrow> string \<Rightarrow> bool" where
  "HasSuffix s suf \<longleftrightarrow> is_prefix (rev suf) (rev s)"

definition TrimSuffix :: "string \<Rightarrow> string \<Rightarrow> string" where
  "TrimSuffix s suf = (if HasSuffix s suf then take (length s - length suf) s else s)"

definition digit :: "int \<Rightarrow> char" where
  "digit d = byte (48 + nat d)"

function digits_of :: "int \<Rightarrow> string" where
  "digits_of n = (if n < 10 then [digit n] else digits_of (n div 10) @ [digit (n mod 10)])"
  by pat_completeness auto
termination
  by (relation "measure nat") auto

declare digits_of.simps [simp del]

definition Itoa :: "int \<Rightarrow> string" where
  "Itoa i = (if i < 0 then ''-'' @ digits_of (- i) else digits_of i)"

primrec join :: "string \<Rightarrow> string list \<Rightarrow> string" where
  "join sep [] = []"
| "join sep (s # ss) = (if ss = [] then s else s @ sep @ join sep ss)"

subsection \<open>UTF-8\<close>

text \<open>
  \<open>starts_in rs s\<close>: the first bytes of \<open>s\<close> lie in the ranges \<open>rs\<close>. \<open>utf8_len\<close> is the length of
  the valid UTF-8 sequence at the head of a string, 0 if there is none.
\<close>

primrec starts_in :: "(int \<times> int) list \<Rightarrow> string \<Rightarrow> bool" where
  "starts_in [] s = True"
| "starts_in (r # rs) s =
     (case s of [] \<Rightarrow> False | c # t \<Rightarrow> fst r \<le> of_char c \<and> of_char c \<le> snd r \<and> starts_in rs t)"

definition utf8_forms :: "(int \<times> int) list list" where
  "utf8_forms =
     [[(0, 127)], [(194, 223), (128, 191)],
      [(224, 224), (160, 191), (128, 191)], [(225, 236), (128, 191), (128, 191)],
      [(237, 237), (128, 159), (128, 191)], [(238, 239), (128, 191), (128, 191)],
      [(240, 240), (144, 191), (128, 191), (128, 191)],
      [(241, 243), (128, 191), (128, 191), (128, 191)],
      [(244, 244), (128, 143), (128, 191), (128, 191)]]"

definition utf8_len :: "string \<Rightarrow> nat" where
  "utf8_len s = (case find (\<lambda>f. starts_in f s) utf8_forms of None \<Rightarrow> 0 | Some f \<Rightarrow> length f)"

text \<open>
  \<open>utf8_coerce\<close> replaces every byte that starts no valid sequence by U+FFFD, as \<open>encoding/json\<close>
  does when it writes a string.
\<close>

function utf8_coerce :: "string \<Rightarrow> string" where
  "utf8_coerce s =
     (if s = [] then []
      else if utf8_len s = 0 then [CHR 0xEF, CHR 0xBF, CHR 0xBD] @ utf8_coerce (drop 1 s)
      else take (utf8_len s) s @ utf8_coerce (drop (utf8_len s) s))"
  by pat_completeness auto
termination
  by (relation "measure length") auto

declare utf8_coerce.simps [simp del]

definition ValidString :: "string \<Rightarrow> bool" where
  "ValidString s \<longleftrightarrow> utf8_coerce s = s"

lemma starts_in_length: "starts_in f s \<Longrightarrow> length f \<le> length s"
  by (induction f arbitrary: s) (auto split: list.splits)

lemma starts_in_take: "starts_in f s \<Longrightarrow> starts_in f (take (length f) s @ t)"
  by (induction f arbitrary: s) (auto split: list.splits)

lemma utf8_forms_disjoint:
  "\<forall>f \<in> set utf8_forms. \<forall>g \<in> set utf8_forms.
     f = g \<or> snd (hd f) < fst (hd g) \<or> snd (hd g) < fst (hd f)"
  "\<forall>f \<in> set utf8_forms. f \<noteq> []"
  by code_simp+

lemma utf8_forms_unique:
  assumes "f \<in> set utf8_forms" "g \<in> set utf8_forms" "starts_in f s" "starts_in g s"
  shows "f = g"
proof -
  obtain a f' b g' where f: "f = a # f'" and g: "g = b # g'"
    using assms(1,2) utf8_forms_disjoint(2) by (metis neq_Nil_conv)
  from assms(3,4) have "fst a \<le> snd b" "fst b \<le> snd a"
    by (auto simp: f g split: list.splits)
  then show ?thesis using utf8_forms_disjoint(1) assms(1,2) by (fastforce simp: f g)
qed

lemma utf8_len_form: "f \<in> set utf8_forms \<Longrightarrow> starts_in f s \<Longrightarrow> utf8_len s = length f"
proof (cases "find (\<lambda>f. starts_in f s) utf8_forms")
  case None
  assume "f \<in> set utf8_forms" "starts_in f s"
  with None show ?thesis by (auto simp: find_None_iff)
next
  case (Some g)
  assume f: "f \<in> set utf8_forms" "starts_in f s"
  from Some have "g \<in> set utf8_forms" "starts_in g s" by (auto simp: find_Some_iff)
  with f have "g = f" using utf8_forms_unique by blast
  with Some show ?thesis by (simp add: utf8_len_def)
qed

lemma utf8_len_cases:
  obtains "utf8_len s = 0" | f where "f \<in> set utf8_forms" "starts_in f s" "utf8_len s = length f"
proof (cases "find (\<lambda>f. starts_in f s) utf8_forms")
  case None
  then show thesis using that(1) by (simp add: utf8_len_def)
next
  case (Some f)
  then have "f \<in> set utf8_forms" "starts_in f s" by (auto simp: find_Some_iff)
  then show thesis using that(2) utf8_len_form by blast
qed

lemma utf8_len_bound: "utf8_len s \<le> length s"
  by (cases s rule: utf8_len_cases) (auto dest: starts_in_length)

lemma utf8_len_prefix: "0 < utf8_len s \<Longrightarrow> utf8_len (take (utf8_len s) s @ t) = utf8_len s"
  by (cases s rule: utf8_len_cases) (use utf8_len_form starts_in_take in auto)

lemma utf8_len_replacement: "utf8_len ([CHR 0xEF, CHR 0xBF, CHR 0xBD] @ t) = 3"
  by (simp add: utf8_len_def utf8_forms_def)

lemma utf8_coerce_Nil [simp]: "utf8_coerce [] = []"
  by (simp add: utf8_coerce.simps)

lemma utf8_coerce_idem [simp]: "utf8_coerce (utf8_coerce s) = utf8_coerce s"
proof (induction s rule: utf8_coerce.induct)
  case (1 s)
  show ?case
  proof (cases "s = [] \<or> utf8_len s = 0")
    case True
    let ?fffd = "[CHR 0xEF, CHR 0xBF, CHR 0xBD]"
    have "utf8_coerce (?fffd @ t) = ?fffd @ utf8_coerce t" for t
      using utf8_len_replacement [of t] utf8_coerce.simps [of "?fffd @ t"] by simp
    with True "1" show ?thesis by (auto simp: utf8_coerce.simps [of s])
  next
    case False
    let ?n = "utf8_len s"
    have take: "length (take ?n s) = ?n" using utf8_len_bound [of s] by simp
    from False have l: "utf8_len (take ?n s @ t) = ?n" for t by (simp add: utf8_len_prefix)
    have "utf8_coerce (take ?n s @ t) = take ?n s @ utf8_coerce t" for t
      using l [of t] take False utf8_coerce.simps [of "take ?n s @ t"] by auto
    with False "1" show ?thesis by (simp add: utf8_coerce.simps [of s])
  qed
qed

lemma ValidString_coerce [simp]: "ValidString (utf8_coerce s)"
  by (simp add: ValidString_def)

lemma ValidString_id: "ValidString s \<Longrightarrow> utf8_coerce s = s"
  by (simp add: ValidString_def)

section \<open>IEEE-754 doubles\<close>

datatype float64 = NaN | PosInf | NegInf | NegZero | Fin rat

text \<open>Adding zero to a number: it only changes the negative zero.\<close>

definition plus_zero :: "float64 \<Rightarrow> float64" where
  "plus_zero x = (if x = NegZero then Fin 0 else x)"

fun fless :: "float64 \<Rightarrow> float64 \<Rightarrow> bool" where
  "fless (Fin x) (Fin y) \<longleftrightarrow> x < y"
| "fless (Fin x) PosInf \<longleftrightarrow> True"
| "fless (Fin x) NegZero \<longleftrightarrow> x < 0"
| "fless NegZero (Fin y) \<longleftrightarrow> 0 < y"
| "fless NegZero PosInf \<longleftrightarrow> True"
| "fless NegInf NegZero \<longleftrightarrow> True"
| "fless NegInf (Fin y) \<longleftrightarrow> True"
| "fless NegInf PosInf \<longleftrightarrow> True"
| "fless _ _ \<longleftrightarrow> False"

definition feq :: "float64 \<Rightarrow> float64 \<Rightarrow> bool" where
  "feq x y \<longleftrightarrow> x \<noteq> NaN \<and> y \<noteq> NaN \<and> plus_zero x = plus_zero y"

definition fle :: "float64 \<Rightarrow> float64 \<Rightarrow> bool" where
  "fle x y \<longleftrightarrow> fless x y \<or> feq x y"

lemma fless_irrefl [simp]: "\<not> fless x x"
  by (cases x) auto

lemma fless_trans: "fless x y \<Longrightarrow> fless y z \<Longrightarrow> fless x z"
  by (cases x; cases y; cases z) auto

lemma fless_asym: "fless x y \<Longrightarrow> \<not> fless y x"
  by (meson fless_irrefl fless_trans)

lemma fless_total: "x \<noteq> NaN \<Longrightarrow> y \<noteq> NaN \<Longrightarrow> fless x y \<or> feq x y \<or> fless y x"
  by (cases x; cases y) (auto simp: feq_def plus_zero_def)

lemma feq_sym: "feq x y \<longleftrightarrow> feq y x"
  by (auto simp: feq_def)

lemma fle_fless: "fle x y \<Longrightarrow> \<not> fless y x"
  by (cases x; cases y) (auto simp: fle_def feq_def plus_zero_def split: if_splits)

lemma feq_fless: "feq x y \<Longrightarrow> fless x z \<longleftrightarrow> fless y z" "feq x y \<Longrightarrow> fless z x \<longleftrightarrow> fless z y"
  by (cases x; cases y; cases z; simp add: feq_def plus_zero_def split: if_splits)+

lemma fless_NaN [simp]: "\<not> fless NaN x" "\<not> fless x NaN"
  by (cases x; simp)+

lemma fle_refl: "x \<noteq> NaN \<Longrightarrow> fle x x"
  by (simp add: fle_def feq_def)

lemma fle_not_fless: "x \<noteq> NaN \<Longrightarrow> y \<noteq> NaN \<Longrightarrow> fle x y \<longleftrightarrow> \<not> fless y x"
  by (cases x; cases y) (auto simp: fle_def feq_def plus_zero_def)

text \<open>Rounding an integer to the nearest double (ties to even), as the conversion \<open>float64(n)\<close>.\<close>

function bit_length :: "int \<Rightarrow> int" where
  "bit_length n = (if n \<le> 0 then 0 else 1 + bit_length (n div 2))"
  by pat_completeness auto
termination
  by (relation "measure nat") auto

declare bit_length.simps [simp del]

definition round_half_even :: "int \<Rightarrow> int \<Rightarrow> int" where
  "round_half_even n d =
     (let q = n div d; r = n mod d
      in if 2 * r < d then q else if d < 2 * r then q + 1 else if even q then q else q + 1)"

definition round53 :: "int \<Rightarrow> int" where
  "round53 n = (let s = nat (bit_length n - 53) in round_half_even n (2 ^ s) * 2 ^ s)"

definition float64_of_int :: "int \<Rightarrow> float64" where
  "float64_of_int i =
     Fin (of_int (if i < 0 then - round53 (- i) else round53 i))"

subsection \<open>Shortest decimal printing\<close>

definition pow2 :: "int \<Rightarrow> rat" where
  "pow2 e = (if e < 0 then 1 / 2 ^ nat (- e) else 2 ^ nat e)"

definition pow10 :: "int \<Rightarrow> rat" where
  "pow10 e = (if e < 0 then 1 / 10 ^ nat (- e) else 10 ^ nat e)"

definition floor_log2 :: "rat \<Rightarrow> int" where
  "floor_log2 x =
     (let (n, d) = quotient_of x; e = bit_length n - bit_length d
      in if x < pow2 e then e - 1 else e)"

definition floor_log10 :: "rat \<Rightarrow> int" where
  "floor_log10 x =
     (let (n, d) = quotient_of x; e = int (length (digits_of n)) - int (length (digits_of d))
      in if x < pow10 e then e - 1 else e)"

text \<open>
  Whether the decimal value \<open>c\<close> reads back as the positive double \<open>v\<close>: it lies within half a unit
  in the last place, the end points counting when the significand is even.
\<close>

definition reads_back :: "rat \<Rightarrow> rat \<Rightarrow> bool" where
  "reads_back v c =
     (let q = max (floor_log2 v - 52) (- 1074); m = v / pow2 q;
          up = pow2 q / 2;
          down = (if m = 2 ^ 52 \<and> - 1074 < q then pow2 q / 4 else pow2 q / 2);
          ev = (fst (quotient_of m) mod 2 = 0)
      in if ev then v - down \<le> c \<and> c \<le> v + up else v - down < c \<and> c < v + up)"

text \<open>The digits and the decimal point position of the shortest decimal that reads back as \<open>v\<close>.\<close>

function shortest :: "rat \<Rightarrow> nat \<Rightarrow> int \<times> int" where
  "shortest v k =
     (let p = floor_log10 v + 1; s = pow10 (p - int k); lo = \<lfloor>v / s\<rfloor>; hi = lo + 1;
          okl = reads_back v (of_int lo * s); okh = reads_back v (of_int hi * s)
      in if 17 \<le> k then (lo, p - int k)
         else if okl \<and> (\<not> okh \<or> 2 * (v - of_int lo * s) \<le> s) then (lo, p - int k)
         else if okh then (hi, p - int k)
         else shortest v (Suc k))"
  by pat_completeness auto
termination
  by (relation "measure (\<lambda>(v, k). 17 - k)") auto

declare shortest.simps [simp del]

text \<open>Digits without trailing zeros, and the position of the decimal point (\<open>decimalSlice\<close>).\<close>

definition decimal_of :: "rat \<Rightarrow> string \<times> int" where
  "decimal_of v =
     (let (m, e) = shortest v 1; ds = digits_of m;
          zeros = length (takeWhile (\<lambda>c. c = CHR ''0'') (rev ds))
      in (take (length ds - zeros) ds, int (length ds) + e))"

definition fmt_exp :: "string \<Rightarrow> int \<Rightarrow> nat \<Rightarrow> string" where
  "fmt_exp ds dp width =
     (let x = dp - 1; ed = digits_of \<bar>x\<bar>
      in take 1 ds @ (if length ds \<le> 1 then [] else ''.'' @ drop 1 ds) @ ''e'' @
         (if x < 0 then ''-'' else ''+'') @ replicate (width - length ed) (CHR ''0'') @ ed)"

definition fmt_fixed :: "string \<Rightarrow> int \<Rightarrow> string" where
  "fmt_fixed ds dp =
     (let n = int (length ds)
      in (if dp \<le> 0 then ''0''
          else take (nat dp) ds @ replicate (nat (dp - n)) (CHR ''0'')) @
         (if n \<le> dp then []
          else ''.'' @ replicate (nat (- dp)) (CHR ''0'') @ drop (nat dp) ds))"

text \<open>\<open>fmt.Sprintf("%g", v)\<close>.\<close>

definition fmt_g :: "float64 \<Rightarrow> string" where
  "fmt_g f =
     (case f of
        NaN \<Rightarrow> ''NaN'' | PosInf \<Rightarrow> ''+Inf'' | NegInf \<Rightarrow> ''-Inf'' | NegZero \<Rightarrow> ''-0''
      | Fin v \<Rightarrow>
          if v = 0 then ''0''
          else (let (ds, dp) = decimal_of \<bar>v\<bar>
                in (if v < 0 then ''-'' else []) @
                   (if dp - 1 < - 4 \<or> 6 \<le> dp - 1 then fmt_exp ds dp 2 else fmt_fixed ds dp)))"

text \<open>The number format of \<open>encoding/json\<close>; infinities and NaN are unsupported values.\<close>

definition fmt_json :: "float64 \<Rightarrow> string option" where
  "fmt_json f =
     (case f of
        NegZero \<Rightarrow> Some ''-0''
      | Fin v \<Rightarrow>
          if v = 0 then Some ''0''
          else (let (ds, dp) = decimal_of \<bar>v\<bar>; w = (if dp - 1 < 0 then 1 else 2)
                in Some ((if v < 0 then ''-'' else []) @
                   (if \<bar>v\<bar> < pow10 (- 6) \<or> pow10 21 \<le> \<bar>v\<bar> then fmt_exp ds dp w else fmt_fixed ds dp)))
      | _ \<Rightarrow> None)"

subsection \<open>Parsing\<close>

text \<open>
  \<open>strconv.ParseFloat(s, 64)\<close> on the decimal syntax and the special values; \<open>None\<close> is a syntax error
  or a value out of range. Hexadecimal floats and digit separators, which no printed number has, count
  as syntax errors.
\<close>

definition is_digit :: "char \<Rightarrow> bool" where
  "is_digit c \<longleftrightarrow> CHR ''0'' \<le> c \<and> c \<le> CHR ''9''"

definition digits_value :: "string \<Rightarrow> int" where
  "digits_value ds = fold (\<lambda>c acc. 10 * acc + (of_char c - 48)) ds 0"

definition ascii_lower :: "char \<Rightarrow> char" where
  "ascii_lower c = (if CHR ''A'' \<le> c \<and> c \<le> CHR ''Z'' then byte (of_char c + 32) else c)"

definition round_float64 :: "bool \<Rightarrow> rat \<Rightarrow> float64 option" where
  "round_float64 neg x =
     (let q = max (floor_log2 x - 52) (- 1074);
          (n, d) = quotient_of (x / pow2 q);
          v = (if x = 0 then 0 else of_int (round_half_even n d) * pow2 q)
      in if pow2 1024 \<le> v then None
         else if v = 0 \<and> neg then Some NegZero
         else Some (Fin (if neg then - v else v)))"

definition parse_exponent :: "string \<Rightarrow> int option" where
  "parse_exponent s =
     (case s of
        [] \<Rightarrow> Some 0
      | c # r \<Rightarrow>
          if ascii_lower c \<noteq> CHR ''e'' then None
          else
            let neg = (take 1 r = ''-''); ds = (if take 1 r = ''-'' \<or> take 1 r = ''+'' then drop 1 r else r)
            in if ds = [] \<or> \<not> list_all is_digit ds then None
               else Some (if neg then - digits_value ds else digits_value ds))"

definition ParseFloat :: "string \<Rightarrow> float64 option" where
  "ParseFloat s =
     (let signed = (take 1 s = ''-'' \<or> take 1 s = ''+''); neg = (take 1 s = ''-'');
          r = (if signed then drop 1 s else s); l = map ascii_lower r in
      if l = ''inf'' \<or> l = ''infinity'' then Some (if neg then NegInf else PosInf)
      else if \<not> signed \<and> l = ''nan'' then Some NaN
      else
        let ip = takeWhile is_digit r; r1 = dropWhile is_digit r;
            fp = (if take 1 r1 = ''.'' then takeWhile is_digit (drop 1 r1) else []);
            r2 = (if take 1 r1 = ''.'' then dropWhile is_digit (drop 1 r1) else r1)
        in if ip = [] \<and> fp = [] then None
           else case parse_exponent r2 of
                  None \<Rightarrow> None
                | Some e \<Rightarrow>
                    let x = of_int (digits_value (ip @ fp)) * pow10 (e - int (length fp))
                    in round_float64 neg x)"

section \<open>Trimming printable text\<close>

text \<open>Text of printable ASCII characters is not changed by trimming.\<close>

definition printable :: "char \<Rightarrow> bool" where
  "printable c \<longleftrightarrow> 32 < (of_char c :: nat) \<and> (of_char c :: nat) < 127"

lemma space_runes_not_printable: "r \<in> set space_runes \<Longrightarrow> \<exists>c \<in> set r. \<not> printable c"
  unfolding space_runes_def printable_def by auto

lemma strip_one_printable:
  assumes "\<And>c. c \<in> set s \<Longrightarrow> printable c" and "\<And>r. r \<in> set runes \<Longrightarrow> \<exists>c \<in> set r. \<not> printable c"
  shows "strip_one runes s = None"
proof -
  have "\<not> is_prefix r s" if "r \<in> set runes" for r
    using assms(1) assms(2) [OF that] by (metis is_prefix_def in_set_takeD)
  then have "find (\<lambda>r. is_prefix r s) runes = None" by (simp add: find_None_iff)
  then show ?thesis by (simp add: strip_one_def)
qed

lemma TrimSpace_printable:
  assumes "\<And>c. c \<in> set s \<Longrightarrow> printable c"
  shows "TrimSpace s = s"
proof -
  have "strip_one space_runes s = None" using assms by (rule strip_one_printable) (auto dest: space_runes_not_printable)
  moreover have "strip_one (map rev space_runes) (rev s) = None"
    using assms by (intro strip_one_printable) (auto dest: space_runes_not_printable)
  ultimately show ?thesis by (simp add: TrimSpace_def trim_left_id)
qed

end
