(* ===== verification/Sha256.thy ===== *)
theory Sha256
  imports GoStd
begin

text \<open>
  SHA-256 (FIPS 180-4) over byte strings and its hexadecimal printing: what the graph package uses
  of \<open>crypto/sha256\<close> and \<open>encoding/hex\<close>. A digest is a 256-bit word, the big-endian value of
  Go's \<open>[32]byte\<close>, so that the bytewise exclusive or of two digests is \<open>XOR\<close> on words.
\<close>

type_synonym digest = "256 word"

text \<open>The constants of the standard, eight 32-bit words to a row.\<close>

definition words32 :: "int \<Rightarrow> 32 word list" where
  "words32 row = map (\<lambda>i. word_of_int (row div 2 ^ (32 * i))) (rev [0..<8])"

definition sha_k :: "32 word list" where
  "sha_k = concat (map words32
    [0x428a2f9871374491b5c0fbcfe9b5dba53956c25b59f111f1923f82a4ab1c5ed5,
     0xd807aa9812835b01243185be550c7dc372be5d7480deb1fe9bdc06a7c19bf174,
     0xe49b69c1efbe47860fc19dc6240ca1cc2de92c6f4a7484aa5cb0a9dc76f988da,
     0x983e5152a831c66db00327c8bf597fc7c6e00bf3d5a7914706ca635114292967,
     0x27b70a852e1b21384d2c6dfc53380d13650a7354766a0abb81c2c92e92722c85,
     0xa2bfe8a1a81a664bc24b8b70c76c51a3d192e819d6990624f40e3585106aa070,
     0x19a4c1161e376c082748774c34b0bcb5391c0cb34ed8aa4a5b9cca4f682e6ff3,
     0x748f82ee78a5636f84c878148cc7020890befffaa4506cebbef9a3f7c67178f2])"

definition sha_h0 :: "32 word list" where
  "sha_h0 = words32 0x6a09e667bb67ae853c6ef372a54ff53a510e527f9b05688c1f83d9ab5be0cd19"

definition rotr :: "nat \<Rightarrow> 32 word \<Rightarrow> 32 word" where
  "rotr n w = drop_bit n w OR push_bit (32 - n) w"

definition big_endian :: "nat \<Rightarrow> int \<Rightarrow> int list" where
  "big_endian n v = map (\<lambda>i. (v div 256 ^ i) mod 256) (rev [0..<n])"

definition sha_pad :: "int list \<Rightarrow> int list" where
  "sha_pad m =
     m @ [128] @ replicate (nat ((55 - int (length m)) mod 64)) 0 @
     big_endian 8 (8 * int (length m))"

fun sha_words :: "int list \<Rightarrow> 32 word list" where
  "sha_words (a # b # c # d # r) = word_of_int (((a * 256 + b) * 256 + c) * 256 + d) # sha_words r"
| "sha_words _ = []"

text \<open>The message schedule, newest word first.\<close>

primrec sha_schedule :: "nat \<Rightarrow> 32 word list \<Rightarrow> 32 word list" where
  "sha_schedule 0 w = w"
| "sha_schedule (Suc n) w =
     (let x = w ! 14; y = w ! 1;
          s0 = rotr 7 x XOR rotr 18 x XOR drop_bit 3 x;
          s1 = rotr 17 y XOR rotr 19 y XOR drop_bit 10 y
      in sha_schedule n ((w ! 15 + s0 + w ! 6 + s1) # w))"

fun sha_round :: "32 word list \<Rightarrow> 32 word \<times> 32 word \<Rightarrow> 32 word list" where
  "sha_round [a, b, c, d, e, f, g, h] (k, w) =
     (let s1 = rotr 6 e XOR rotr 11 e XOR rotr 25 e;
          ch = (e AND f) XOR (NOT e AND g);
          t1 = h + s1 + ch + k + w;
          s0 = rotr 2 a XOR rotr 13 a XOR rotr 22 a;
          maj = (a AND b) XOR (a AND c) XOR (b AND c)
      in [t1 + (s0 + maj), a, b, c, d + t1, e, f, g])"
| "sha_round s _ = s"

definition sha_block :: "32 word list \<Rightarrow> 32 word list \<Rightarrow> 32 word list" where
  "sha_block h w =
     map2 (+) h (fold (\<lambda>kw s. sha_round s kw) (zip sha_k (rev (sha_schedule 48 (rev w)))) h)"

function sha_blocks :: "32 word list \<Rightarrow> 32 word list \<Rightarrow> 32 word list" where
  "sha_blocks h w = (if length w < 16 then h else sha_blocks (sha_block h (take 16 w)) (drop 16 w))"
  by pat_completeness auto
termination
  by (relation "measure (\<lambda>(h, w). length w)") auto

declare sha_blocks.simps [simp del]

definition sha256 :: "string \<Rightarrow> digest" where
  "sha256 s =
     word_of_int (fold (\<lambda>w acc. acc * 2 ^ 32 + uint w)
       (sha_blocks sha_h0 (sha_words (sha_pad (map (\<lambda>c. int (of_char c)) s)))) 0)"

definition hex_digit :: "int \<Rightarrow> char" where
  "hex_digit d = byte (if d < 10 then 48 + nat d else 87 + nat d)"

definition hex_of :: "nat \<Rightarrow> int \<Rightarrow> string" where
  "hex_of n v = map (\<lambda>i. hex_digit ((v div 16 ^ i) mod 16)) (rev [0..<n])"

definition hex_digest :: "digest \<Rightarrow> string" where
  "hex_digest d = hex_of 64 (uint d)"

lemma length_hex_digest [simp]: "length (hex_digest d) = 64"
  by (simp add: hex_digest_def hex_of_def)

lemma hex_digest_printable: "c \<in> set (hex_digest d) \<Longrightarrow> printable c"
proof -
  assume "c \<in> set (hex_digest d)"
  then obtain i where "c = hex_digit ((uint d div 16 ^ i) mod 16)" by (auto simp: hex_digest_def hex_of_def)
  moreover have "0 \<le> (uint d div 16 ^ i) mod 16" "(uint d div 16 ^ i) mod 16 < 16" by simp_all
  ultimately show ?thesis by (auto simp: hex_digit_def printable_def of_char_of)
qed

end
