(* ===== verification/Types.thy ===== *)
theory Types
  imports Sha256
begin

text \<open>
  The data model of package \<open>graph\<close> (\<open>internal/graph/types.go\<close>): property values, schema records,
  entities and edges with their provenance, mutation requests, commits and reports.

  \<open>any\<close> has one constructor per dynamic type that the type switches of the package tell apart:
  the types \<open>encoding/json\<close> produces, Go's integer kinds, the named map type \<open>Fields\<close>, and the
  typed slices; a nil map or slice inside an interface is \<open>None\<close>. \<open>float32\<close> and \<open>json.Number\<close>
  have no constructor: no code of the repository stores the former in a field and no decoder of it
  enables the latter. Times are nanoseconds since Go's zero time, so \<open>IsZero\<close> is \<open>= 0\<close>.
  A pointer field is an \<open>option\<close>; nil maps and slices of the records are the empty map and list.
\<close>

datatype int_kind =
  KInt | KInt8 | KInt16 | KInt32 | KInt64 | KUint | KUint8 | KUint16 | KUint32 | KUint64

datatype any =
    VNil
  | VBool bool
  | VString string
  | VFloat float64
  | VInt int_kind int
  | VFields "(string, any) fmap option"
  | VMap "(string, any) fmap option"
  | VSlice "any list option"
  | VStrings "string list option"
  | VInts "int list option"
  | VInt64s "int list option"
  | VFloats "float64 list option"
  | VBools "bool list option"

type_synonym Fields = "(string, any) fmap"
type_synonym time = int

section \<open>Schema\<close>

record FieldSpec =
  spec_Type :: string
  spec_MergeStrategy :: string
  spec_Required :: bool
  spec_Indexed :: bool
  spec_Unique :: bool
  spec_Enum :: "any list"
  spec_Default :: any

definition zero_FieldSpec :: FieldSpec where
  "zero_FieldSpec =
     \<lparr>spec_Type = [], spec_MergeStrategy = [], spec_Required = False, spec_Indexed = False,
      spec_Unique = False, spec_Enum = [], spec_Default = VNil\<rparr>"

record IdentityKey =
  ik_Name :: string
  ik_Fields :: "string list"
  ik_ConfidenceThreshold :: float64
  ik_Strategy :: string

record CIType =
  ct_Name :: string
  ct_DisplayName :: string
  ct_Extends :: "string list"
  ct_Fields :: "(string, FieldSpec) fmap"
  ct_IdentityKeys :: "IdentityKey list"

record RelationType =
  rt_Name :: string
  rt_DisplayName :: string
  rt_ReverseName :: string
  rt_FromKind :: string
  rt_ToKind :: string
  rt_FromKinds :: "string list"
  rt_ToKinds :: "string list"
  rt_Directed :: bool
  rt_Cardinality :: string
  rt_ImpactDirection :: string
  rt_AllowCrossKind :: bool
  rt_Standard :: bool

definition ManyToMany :: string where "ManyToMany = ''many_to_many''"
definition OneToMany :: string where "OneToMany = ''one_to_many''"
definition ManyToOne :: string where "ManyToOne = ''many_to_one''"
definition OneToOne :: string where "OneToOne = ''one_to_one''"

section \<open>Source policies\<close>

record SourcePolicyItem =
  spi_Name :: string
  spi_Priority :: int
  spi_Description :: string

record FieldAliasRule =
  far_Source :: string
  far_Kind :: string
  far_Aliases :: "(string, string) fmap"

record FieldPriorityRule =
  fpr_Source :: string
  fpr_Kind :: string
  fpr_Fields :: "(string, int) fmap"

record SourcePolicy =
  sp_DefaultPriority :: int
  sp_Sources :: "SourcePolicyItem list"
  sp_FieldAliases :: "FieldAliasRule list"
  sp_FieldPriorities :: "FieldPriorityRule list"

section \<open>Entities and edges\<close>

record FieldSource =
  src_Source :: string
  src_Priority :: int
  src_Confidence :: float64
  src_Version :: int
  src_UpdatedAt :: time

record EntitySource =
  es_Source :: string
  es_ExternalID :: string
  es_Confidence :: float64
  es_Priority :: int
  es_ObservedAt :: time
  es_Stale :: bool
  es_StaleAt :: time

record EdgeSource =
  eds_Source :: string
  eds_ExternalID :: string
  eds_EdgeID :: string
  eds_Confidence :: float64
  eds_Priority :: int
  eds_ObservedAt :: time

record FieldConflict =
  fc_ResourceType :: string
  fc_EntityID :: string
  fc_EdgeID :: string
  fc_CanonicalID :: string
  fc_IncomingID :: string
  fc_Field :: string
  fc_AliasField :: string
  fc_ExistingSource :: string
  fc_ExistingPriority :: int
  fc_IncomingSource :: string
  fc_IncomingPriority :: int
  fc_ExistingValue :: any
  fc_IncomingValue :: any
  fc_Message :: string

definition zero_FieldConflict :: FieldConflict where
  "zero_FieldConflict =
     \<lparr>fc_ResourceType = [], fc_EntityID = [], fc_EdgeID = [], fc_CanonicalID = [],
      fc_IncomingID = [], fc_Field = [], fc_AliasField = [], fc_ExistingSource = [],
      fc_ExistingPriority = 0, fc_IncomingSource = [], fc_IncomingPriority = 0,
      fc_ExistingValue = VNil, fc_IncomingValue = VNil, fc_Message = []\<rparr>"

record Entity =
  ent_ID :: string
  ent_Kind :: string
  ent_Fields :: Fields
  ent_FieldWriteModes :: "(string, string) fmap"
  ent_FieldSources :: "(string, FieldSource) fmap"
  ent_FieldConflicts :: "FieldConflict list"
  ent_ExistenceSource :: "FieldSource option"
  ent_Source :: string
  ent_ExternalID :: string
  ent_Identity :: Fields
  ent_Confidence :: float64
  ent_SourceRank :: int
  ent_Sources :: "EntitySource list"
  ent_MergedFrom :: "string list"
  ent_SplitFrom :: string
  ent_Version :: int
  ent_CreatedAt :: time
  ent_UpdatedAt :: time

definition zero_Entity :: Entity where
  "zero_Entity =
     \<lparr>ent_ID = [], ent_Kind = [], ent_Fields = fmempty, ent_FieldWriteModes = fmempty,
      ent_FieldSources = fmempty, ent_FieldConflicts = [], ent_ExistenceSource = None,
      ent_Source = [], ent_ExternalID = [], ent_Identity = fmempty, ent_Confidence = Fin 0,
      ent_SourceRank = 0, ent_Sources = [], ent_MergedFrom = [], ent_SplitFrom = [],
      ent_Version = 0, ent_CreatedAt = 0, ent_UpdatedAt = 0\<rparr>"

record Edge =
  edge_ID :: string
  edge_Type :: string
  edge_From :: string
  edge_To :: string
  edge_Fields :: Fields
  edge_FieldSources :: "(string, FieldSource) fmap"
  edge_Source :: string
  edge_ExternalID :: string
  edge_Confidence :: float64
  edge_SourceRank :: int
  edge_Sources :: "EdgeSource list"
  edge_ExistenceSource :: "FieldSource option"
  edge_Version :: int
  edge_CreatedAt :: time
  edge_UpdatedAt :: time

definition zero_Edge :: Edge where
  "zero_Edge =
     \<lparr>edge_ID = [], edge_Type = [], edge_From = [], edge_To = [], edge_Fields = fmempty,
      edge_FieldSources = fmempty, edge_Source = [], edge_ExternalID = [],
      edge_Confidence = Fin 0, edge_SourceRank = 0, edge_Sources = [],
      edge_ExistenceSource = None, edge_Version = 0, edge_CreatedAt = 0, edge_UpdatedAt = 0\<rparr>"

section \<open>Requests, commits and reports\<close>

record EdgeDeleteRequest =
  edr_ID :: string
  edr_Type :: string
  edr_From :: string
  edr_To :: string
  edr_Source :: string
  edr_SourceRank :: int
  edr_Confidence :: float64
  edr_Reason :: string

record EntityDeleteRequest =
  endr_ID :: string
  endr_Kind :: string
  endr_Source :: string
  endr_ExternalID :: string
  endr_SourceRank :: int
  endr_Confidence :: float64
  endr_Reason :: string

record SourceStaleRequest =
  ssr_Source :: string
  ssr_Kind :: string
  ssr_ObservedExternalIDs :: "string list"
  ssr_Action :: string
  ssr_SourceRank :: int
  ssr_Confidence :: float64
  ssr_Reason :: string

record MergeRequest =
  mr_TargetID :: string
  mr_SourceIDs :: "string list"

record SplitRequest =
  sr_SourceID :: string
  sr_Entities :: "Entity list"

record Mutations =
  mu_UpsertCITypes :: "CIType list"
  mu_DeleteCITypes :: "string list"
  mu_UpsertRelationTypes :: "RelationType list"
  mu_DeleteRelationTypes :: "string list"
  mu_UpsertEntities :: "Entity list"
  mu_DeleteEntities :: "string list"
  mu_DeleteEntityRequests :: "EntityDeleteRequest list"
  mu_MarkSourceStale :: "SourceStaleRequest list"
  mu_UpsertEdges :: "Edge list"
  mu_DeleteEdges :: "string list"
  mu_DeleteEdgeRequests :: "EdgeDeleteRequest list"
  mu_MergeEntities :: "MergeRequest list"
  mu_SplitEntities :: "SplitRequest list"

definition zero_Mutations :: Mutations where
  "zero_Mutations =
     \<lparr>mu_UpsertCITypes = [], mu_DeleteCITypes = [], mu_UpsertRelationTypes = [],
      mu_DeleteRelationTypes = [], mu_UpsertEntities = [], mu_DeleteEntities = [],
      mu_DeleteEntityRequests = [], mu_MarkSourceStale = [], mu_UpsertEdges = [],
      mu_DeleteEdges = [], mu_DeleteEdgeRequests = [], mu_MergeEntities = [],
      mu_SplitEntities = []\<rparr>"

record Commit =
  co_IdentityEncoding :: int
  co_LayoutVersion :: int
  co_ID :: string
  co_TenantID :: string
  co_Version :: int
  co_CreatedAt :: time
  co_Mutations :: Mutations

record EntityCanonicalization =
  ec_CanonicalID :: string
  ec_IncomingID :: string
  ec_Kind :: string
  ec_Source :: string
  ec_ExternalID :: string

record EdgeCanonicalization =
  edc_CanonicalID :: string
  edc_IncomingID :: string
  edc_Type :: string
  edc_From :: string
  edc_To :: string

record ApplyOptions =
  ao_SourcePolicy :: "SourcePolicy option"

record ApplyReport =
  ar_Suppressed :: "FieldConflict list"
  ar_CanonicalEntities :: "EntityCanonicalization list"
  ar_CanonicalEdges :: "EdgeCanonicalization list"
  ar_AffectedEntityIDs :: "string list"
  ar_AffectedEdgeIDs :: "string list"
  ar_Changed :: bool
  ar_ContentFingerprint :: string

definition zero_ApplyReport :: ApplyReport where
  "zero_ApplyReport =
     \<lparr>ar_Suppressed = [], ar_CanonicalEntities = [], ar_CanonicalEdges = [],
      ar_AffectedEntityIDs = [], ar_AffectedEdgeIDs = [], ar_Changed = False,
      ar_ContentFingerprint = []\<rparr>"

section \<open>Errors\<close>

text \<open>One constructor per error message of the package, grouped by the file that raises it, with
  the message's arguments.\<close>

datatype value_error =
    FieldNameRequired
  | JSONUnsupportedValue
  | JSONTooDeep
  | FieldWriteModeNameRequired
  | FieldWriteModeMarked string
  | FieldWriteModeUnsupported string string
  | FieldOverrideMarkerInvalid string
  | LabelEmpty
  | LabelsNotStrings
  | LabelsConflict

datatype entity_error =
    EntityRequiresKind string
  | EntityIdentityRequired
  | EntityFields string value_error
  | EntityIdentityKeys string value_error
  | EntityConfidence string
  | ConflictingIdentityOwners string string string string string
  | EntityIDRequired
  | DuplicateIdentity string string string
  | IncomingIDExists string string
  | KindChange string string string
  | UniqueFieldViolated string string string

datatype edge_error =
    EdgeRequiresType
  | EdgeRequiresEndpoints string
  | EdgeFields string value_error
  | EdgeConfidence string
  | EdgeMissingRelationType string string
  | EdgeMissingFrom string string
  | EdgeMissingTo string string
  | EdgeFromKind string string string
  | EdgeToKind string string string
  | CardinalityViolated string string string

datatype spec_error =
    SpecEmptyFieldName string string
  | SpecUnsupportedType string string string string
  | SpecUnsupportedMergeStrategy string string string string
  | SpecAppendUniqueNeedsArray string string string
  | SpecDefaultMismatch string string string string
  | SpecEnumMismatch string string string string

datatype schema_error =
    CITypeNameRequired
  | CITypeEmptyExtends string
  | SpecError spec_error
  | IdentityKeyStrategy string string string
  | IdentityKeyNeedsFields string string
  | IdentityKeyEmptyField string string
  | CITypeMissingParent string string
  | CITypeCycle string
  | CITypeIdentityShared string string string string
  | DeleteCITypeNameRequired
  | DeleteCITypeInUse string
  | MissingRequiredField string string string
  | FieldTypeMismatch string string string
  | FieldNotInEnum string string

datatype property_error =
    PropertyMissingRequired string string
  | PropertyTypeMismatch string string string
  | PropertyNotInEnum string string
  | PropertyUndeclared string string

datatype relation_error =
    RelationTypeNameRequired
  | RelationTypeNeedsKinds string
  | RelationTypeImpactDirection string string
  | RelationTypeCardinality string string
  | DeleteRelationTypeNameRequired

datatype delete_error =
    DeleteEdgeIDRequired
  | DeleteEdgeRelationIdentity
  | DeleteEdgeTargetRequired
  | EdgeReferenceAmbiguous string
  | DeleteEntityIDRequired
  | DeleteEntitySourceIdentity
  | DeleteEntityTargetRequired
  | StaleSourceRequired
  | StaleActionUnsupported string

datatype merge_error =
    MergeTargetNotFound string
  | MergeSourceNotFound string
  | MergeKindMismatch string string string string
  | MergeEdgeLost string string
  | SplitSourceRequired
  | SplitSourceNotFound string
  | SplitReusesSource string
  | SplitReplacementExists string

datatype policy_error =
    PolicySourceNameRequired
  | PolicySourceDuplicate string
  | PolicyAliasSourceRequired
  | PolicyAliasFieldsRequired
  | PolicyAliasDuplicate string string string
  | PolicyPrioritySourceRequired
  | PolicyPriorityFieldRequired
  | PolicyPriorityDuplicate string string string

datatype error =
    ValueError value_error
  | EntityError entity_error
  | EdgeError edge_error
  | SchemaError schema_error
  | PropertyError property_error
  | RelationError relation_error
  | DeleteError delete_error
  | MergeError merge_error
  | PolicyError policy_error
  | UnsupportedIdentityEncoding int
  | VersionNotGreater int int
  | BatchOptionsLength nat nat
  | BatchRequiresIsolation nat "error option"

end
