(* ===== verification/Values.thy ===== *)
theory Values
  imports Types
begin

text \<open>
  Property values: scalar index keys, type and enum checks (\<open>fields.go\<close>), and the normalisation of
  incoming field maps (\<open>fields_normalize.go\<close>) with its fast path and its JSON round trip.
\<close>

section \<open>Scalar keys and value checks\<close>

definition numericIndexKey :: "float64 \<Rightarrow> string" where
  "numericIndexKey value = (if feq value (Fin 0) then ''n:0'' else ''n:'' @ fmt_g value)"

fun ScalarIndexKey :: "any \<Rightarrow> string option" where
  "ScalarIndexKey VNil = Some ''null''"
| "ScalarIndexKey (VString v) = Some (''s:'' @ v)"
| "ScalarIndexKey (VBool v) = Some (if v then ''b:true'' else ''b:false'')"
| "ScalarIndexKey (VFloat v) = Some (numericIndexKey v)"
| "ScalarIndexKey (VInt k v) =
     (if k \<in> {KInt, KInt64, KInt32} then Some (numericIndexKey (float64_of_int v)) else None)"
| "ScalarIndexKey _ = None"

definition validFieldType :: "string \<Rightarrow> bool" where
  "validFieldType t \<longleftrightarrow> t \<in> {''any'', ''string'', ''number'', ''bool'', ''object'', ''array''}"

definition valueMatchesType :: "any \<Rightarrow> string \<Rightarrow> bool" where
  "valueMatchesType value t =
     (if t = [] \<or> t = ''any'' then True
      else if t = ''string'' then (case value of VString _ \<Rightarrow> True | _ \<Rightarrow> False)
      else if t = ''number'' then
        (case value of VFloat _ \<Rightarrow> True | VInt k _ \<Rightarrow> k \<in> {KInt, KInt64} | _ \<Rightarrow> False)
      else if t = ''bool'' then (case value of VBool _ \<Rightarrow> True | _ \<Rightarrow> False)
      else if t = ''object'' then (case value of VMap _ \<Rightarrow> True | VFields _ \<Rightarrow> True | _ \<Rightarrow> False)
      else if t = ''array'' then (case value of VSlice _ \<Rightarrow> True | _ \<Rightarrow> False)
      else False)"

text \<open>
  \<open>reflect.DeepEqual\<close> compares types, structure and scalars with \<open>==\<close>: the two zeros are equal, and a value that holds
  a NaN equals none. \<open>plus_zeros\<close> replaces the negative zeros of a value.
\<close>

primrec plus_zeros :: "any \<Rightarrow> any" where
  "plus_zeros VNil = VNil"
| "plus_zeros (VBool b) = VBool b"
| "plus_zeros (VString s) = VString s"
| "plus_zeros (VFloat f) = VFloat (plus_zero f)"
| "plus_zeros (VInt k n) = VInt k n"
| "plus_zeros (VFields m) = VFields (map_option (fmmap plus_zeros) m)"
| "plus_zeros (VMap m) = VMap (map_option (fmmap plus_zeros) m)"
| "plus_zeros (VSlice xs) = VSlice (map_option (map plus_zeros) xs)"
| "plus_zeros (VStrings xs) = VStrings xs"
| "plus_zeros (VInts xs) = VInts xs"
| "plus_zeros (VInt64s xs) = VInt64s xs"
| "plus_zeros (VFloats xs) = VFloats (map_option (map plus_zero) xs)"
| "plus_zeros (VBools xs) = VBools xs"

primrec has_NaN :: "any \<Rightarrow> bool" where
  "has_NaN VNil \<longleftrightarrow> False"
| "has_NaN (VBool b) \<longleftrightarrow> False"
| "has_NaN (VString s) \<longleftrightarrow> False"
| "has_NaN (VFloat f) \<longleftrightarrow> f = NaN"
| "has_NaN (VInt k n) \<longleftrightarrow> False"
| "has_NaN (VFields m) \<longleftrightarrow> (case map_option (fmmap has_NaN) m of None \<Rightarrow> False | Some bs \<Rightarrow> True \<in> fset (fmran bs))"
| "has_NaN (VMap m) \<longleftrightarrow> (case map_option (fmmap has_NaN) m of None \<Rightarrow> False | Some bs \<Rightarrow> True \<in> fset (fmran bs))"
| "has_NaN (VSlice xs) \<longleftrightarrow> (case map_option (map has_NaN) xs of None \<Rightarrow> False | Some bs \<Rightarrow> True \<in> set bs)"
| "has_NaN (VStrings xs) \<longleftrightarrow> False"
| "has_NaN (VInts xs) \<longleftrightarrow> False"
| "has_NaN (VInt64s xs) \<longleftrightarrow> False"
| "has_NaN (VFloats xs) \<longleftrightarrow> (case xs of None \<Rightarrow> False | Some fs \<Rightarrow> NaN \<in> set fs)"
| "has_NaN (VBools xs) \<longleftrightarrow> False"

definition DeepEqual :: "any \<Rightarrow> any \<Rightarrow> bool" where
  "DeepEqual v w \<longleftrightarrow> \<not> has_NaN v \<and> \<not> has_NaN w \<and> plus_zeros v = plus_zeros w"

lemma DeepEqual_refl: "\<not> has_NaN v \<Longrightarrow> DeepEqual v v"
  by (simp add: DeepEqual_def)

lemma DeepEqual_sym: "DeepEqual v w \<longleftrightarrow> DeepEqual w v"
  by (auto simp: DeepEqual_def)

lemma DeepEqual_trans: "DeepEqual u v \<Longrightarrow> DeepEqual v w \<Longrightarrow> DeepEqual u w"
  by (simp add: DeepEqual_def)

definition fieldValuesEqual :: "any \<Rightarrow> any \<Rightarrow> bool" where
  "fieldValuesEqual left right =
     (case (ScalarIndexKey left, ScalarIndexKey right) of
        (Some l, Some r) \<Rightarrow> l = r
      | _ \<Rightarrow> DeepEqual left right)"

definition valueInEnum :: "any \<Rightarrow> any list \<Rightarrow> bool" where
  "valueInEnum value enum \<longleftrightarrow> list_ex (\<lambda>allowed. fieldValuesEqual value allowed) enum"

definition isEmptyFieldValue :: "any \<Rightarrow> bool" where
  "isEmptyFieldValue value = (case value of VNil \<Rightarrow> True | VString text \<Rightarrow> text = [] | _ \<Rightarrow> False)"

lemma fieldValuesEqual_refl: "\<not> has_NaN v \<Longrightarrow> fieldValuesEqual v v"
  by (simp add: fieldValuesEqual_def DeepEqual_refl split: option.splits)

lemma fieldValuesEqual_sym: "fieldValuesEqual v w \<longleftrightarrow> fieldValuesEqual w v"
  by (auto simp: fieldValuesEqual_def DeepEqual_sym split: option.splits)

section \<open>Normalisation of field maps\<close>

definition fastFieldNormalizeMaxDepth :: nat where
  "fastFieldNormalizeMaxDepth = 64"

definition all_ok :: "('k, 'v option) fmap \<Rightarrow> ('k, 'v) fmap option" where
  "all_ok m = (if \<forall>v \<in> fset (fmran m). v \<noteq> None then Some (fmmap the m) else None)"

definition all_ok_list :: "'v option list \<Rightarrow> 'v list option" where
  "all_ok_list xs = (if \<forall>v \<in> set xs. v \<noteq> None then Some (map the xs) else None)"

definition normalizeIntegerSlice :: "int list \<Rightarrow> any list" where
  "normalizeIntegerSlice values = map (\<lambda>v. VFloat (float64_of_int v)) values"

definition is_finite :: "float64 \<Rightarrow> bool" where
  "is_finite f = (case f of NegZero \<Rightarrow> True | Fin _ \<Rightarrow> True | _ \<Rightarrow> False)"

text \<open>
  The recursive calls on the members of an object or array are made by \<open>fmmap\<close> and \<open>map\<close>;
  \<open>normalizeJSONObjectFast\<close> and \<open>normalizeJSONArrayFast\<close> get each member as the function of the
  depth at which it is normalised.
\<close>

definition normalizeJSONObjectFast ::
  "(string, nat \<Rightarrow> any option) fmap \<Rightarrow> nat \<Rightarrow> (string, any) fmap option" where
  "normalizeJSONObjectFast values depth =
     (if \<forall>key \<in> fset (fmdom values). ValidString key
      then all_ok (fmmap (\<lambda>normalize. normalize depth) values) else None)"

definition normalizeJSONArrayFast :: "(nat \<Rightarrow> any option) list \<Rightarrow> nat \<Rightarrow> any list option" where
  "normalizeJSONArrayFast values depth = all_ok_list (map (\<lambda>normalize. normalize depth) values)"

primrec normalizeJSONValueFast :: "any \<Rightarrow> nat \<Rightarrow> any option" where
  "normalizeJSONValueFast VNil d = (if d > fastFieldNormalizeMaxDepth then None else Some VNil)"
| "normalizeJSONValueFast (VBool b) d =
     (if d > fastFieldNormalizeMaxDepth then None else Some (VBool b))"
| "normalizeJSONValueFast (VString s) d =
     (if d > fastFieldNormalizeMaxDepth then None
      else if ValidString s then Some (VString s) else None)"
| "normalizeJSONValueFast (VFloat f) d =
     (if d > fastFieldNormalizeMaxDepth then None else if is_finite f then Some (VFloat f) else None)"
| "normalizeJSONValueFast (VInt k n) d =
     (if d > fastFieldNormalizeMaxDepth then None else Some (VFloat (float64_of_int n)))"
| "normalizeJSONValueFast (VFields m) d =
     (if d > fastFieldNormalizeMaxDepth then None
      else case map_option (fmmap normalizeJSONValueFast) m of
             None \<Rightarrow> Some VNil
           | Some fs \<Rightarrow> map_option (\<lambda>o'. VMap (Some o')) (normalizeJSONObjectFast fs (d + 1)))"
| "normalizeJSONValueFast (VMap m) d =
     (if d > fastFieldNormalizeMaxDepth then None
      else case map_option (fmmap normalizeJSONValueFast) m of
             None \<Rightarrow> Some VNil
           | Some fs \<Rightarrow> map_option (\<lambda>o'. VMap (Some o')) (normalizeJSONObjectFast fs (d + 1)))"
| "normalizeJSONValueFast (VSlice xs) d =
     (if d > fastFieldNormalizeMaxDepth then None
      else case map_option (map normalizeJSONValueFast) xs of
             None \<Rightarrow> Some VNil
           | Some fs \<Rightarrow> map_option (\<lambda>ys. VSlice (Some ys)) (normalizeJSONArrayFast fs (d + 1)))"
| "normalizeJSONValueFast (VStrings xs) d =
     (if d > fastFieldNormalizeMaxDepth then None
      else case xs of
             None \<Rightarrow> Some VNil
           | Some ss \<Rightarrow> if \<forall>s \<in> set ss. ValidString s then Some (VSlice (Some (map VString ss))) else None)"
| "normalizeJSONValueFast (VInts xs) d =
     (if d > fastFieldNormalizeMaxDepth then None
      else case xs of None \<Rightarrow> Some VNil | Some ns \<Rightarrow> Some (VSlice (Some (normalizeIntegerSlice ns))))"
| "normalizeJSONValueFast (VInt64s xs) d =
     (if d > fastFieldNormalizeMaxDepth then None
      else case xs of None \<Rightarrow> Some VNil | Some ns \<Rightarrow> Some (VSlice (Some (normalizeIntegerSlice ns))))"
| "normalizeJSONValueFast (VFloats xs) d =
     (if d > fastFieldNormalizeMaxDepth then None
      else case xs of
             None \<Rightarrow> Some VNil
           | Some fs \<Rightarrow> if \<forall>f \<in> set fs. is_finite f then Some (VSlice (Some (map VFloat fs))) else None)"
| "normalizeJSONValueFast (VBools xs) d =
     (if d > fastFieldNormalizeMaxDepth then None
      else case xs of None \<Rightarrow> Some VNil | Some bs \<Rightarrow> Some (VSlice (Some (map VBool bs))))"

text \<open>
  \<open>json.Marshal\<close> followed by \<open>json.Unmarshal\<close> into an interface value: strings and keys become
  valid UTF-8, integers become doubles, maps lose their named type, nil maps and slices become nil,
  and a NaN or an infinity is refused. Keys are written in ascending order, and the decoder keeps
  the last of two keys that became equal. The decoder refuses more than 10000 nested values.
\<close>

definition coerce_keys :: "(string, any) fmap \<Rightarrow> (string, any) fmap" where
  "coerce_keys m = fold (\<lambda>(k, v) acc. fmupd (utf8_coerce k) v acc) (entries m) fmempty"

primrec json_roundtrip :: "any \<Rightarrow> any option" where
  "json_roundtrip VNil = Some VNil"
| "json_roundtrip (VBool b) = Some (VBool b)"
| "json_roundtrip (VString s) = Some (VString (utf8_coerce s))"
| "json_roundtrip (VFloat f) = (if is_finite f then Some (VFloat f) else None)"
| "json_roundtrip (VInt k n) = Some (VFloat (float64_of_int n))"
| "json_roundtrip (VFields m) =
     (case map_option (fmmap json_roundtrip) m of
        None \<Rightarrow> Some VNil
      | Some os \<Rightarrow> map_option (\<lambda>o'. VMap (Some (coerce_keys o'))) (all_ok os))"
| "json_roundtrip (VMap m) =
     (case map_option (fmmap json_roundtrip) m of
        None \<Rightarrow> Some VNil
      | Some os \<Rightarrow> map_option (\<lambda>o'. VMap (Some (coerce_keys o'))) (all_ok os))"
| "json_roundtrip (VSlice xs) =
     (case map_option (map json_roundtrip) xs of
        None \<Rightarrow> Some VNil
      | Some os \<Rightarrow> map_option (\<lambda>ys. VSlice (Some ys)) (all_ok_list os))"
| "json_roundtrip (VStrings xs) =
     Some (case xs of None \<Rightarrow> VNil | Some ss \<Rightarrow> VSlice (Some (map (\<lambda>s. VString (utf8_coerce s)) ss)))"
| "json_roundtrip (VInts xs) =
     Some (case xs of None \<Rightarrow> VNil | Some ns \<Rightarrow> VSlice (Some (normalizeIntegerSlice ns)))"
| "json_roundtrip (VInt64s xs) =
     Some (case xs of None \<Rightarrow> VNil | Some ns \<Rightarrow> VSlice (Some (normalizeIntegerSlice ns)))"
| "json_roundtrip (VFloats xs) =
     (case xs of
        None \<Rightarrow> Some VNil
      | Some fs \<Rightarrow> if \<forall>f \<in> set fs. is_finite f then Some (VSlice (Some (map VFloat fs))) else None)"
| "json_roundtrip (VBools xs) =
     Some (case xs of None \<Rightarrow> VNil | Some bs \<Rightarrow> VSlice (Some (map VBool bs)))"

primrec json_depth :: "any \<Rightarrow> nat" where
  "json_depth VNil = 0"
| "json_depth (VBool b) = 0"
| "json_depth (VString s) = 0"
| "json_depth (VFloat f) = 0"
| "json_depth (VInt k n) = 0"
| "json_depth (VFields m) =
     (case map_option (fmmap json_depth) m of
        None \<Rightarrow> 0 | Some ds \<Rightarrow> Suc (Max (insert 0 (fset (fmran ds)))))"
| "json_depth (VMap m) =
     (case map_option (fmmap json_depth) m of
        None \<Rightarrow> 0 | Some ds \<Rightarrow> Suc (Max (insert 0 (fset (fmran ds)))))"
| "json_depth (VSlice xs) =
     (case map_option (map json_depth) xs of
        None \<Rightarrow> 0 | Some ds \<Rightarrow> Suc (Max (insert 0 (set ds))))"
| "json_depth (VStrings xs) = (case xs of None \<Rightarrow> 0 | Some _ \<Rightarrow> 1)"
| "json_depth (VInts xs) = (case xs of None \<Rightarrow> 0 | Some _ \<Rightarrow> 1)"
| "json_depth (VInt64s xs) = (case xs of None \<Rightarrow> 0 | Some _ \<Rightarrow> 1)"
| "json_depth (VFloats xs) = (case xs of None \<Rightarrow> 0 | Some _ \<Rightarrow> 1)"
| "json_depth (VBools xs) = (case xs of None \<Rightarrow> 0 | Some _ \<Rightarrow> 1)"

definition json_max_depth :: nat where
  "json_max_depth = 10000"

definition validateNormalizedFields :: "Fields \<Rightarrow> value_error + Fields" where
  "validateNormalizedFields flds =
     (if \<forall>field \<in> fset (fmdom flds). TrimSpace field \<noteq> [] then Inr flds
      else Inl FieldNameRequired)"

definition normalizeFieldsWithJSON :: "Fields \<Rightarrow> value_error + Fields" where
  "normalizeFieldsWithJSON flds =
     (case json_roundtrip (VFields (Some flds)) of
        Some (VMap (Some decoded)) \<Rightarrow>
          if json_depth (VFields (Some flds)) > json_max_depth then Inl JSONTooDeep
          else validateNormalizedFields decoded
      | _ \<Rightarrow> Inl JSONUnsupportedValue)"

definition normalizeFields :: "Fields \<Rightarrow> value_error + Fields" where
  "normalizeFields flds =
     (case normalizeJSONObjectFast (fmmap normalizeJSONValueFast flds) 0 of
        Some decoded \<Rightarrow> validateNormalizedFields decoded
      | None \<Rightarrow> normalizeFieldsWithJSON flds)"

section \<open>Normal form\<close>

text \<open>What a normalised field holds: the types a JSON decoder produces, valid UTF-8, no NaN.\<close>

primrec json_normal :: "any \<Rightarrow> bool" where
  "json_normal VNil = True"
| "json_normal (VBool b) = True"
| "json_normal (VString s) = ValidString s"
| "json_normal (VFloat f) = is_finite f"
| "json_normal (VInt k n) = False"
| "json_normal (VFields m) = False"
| "json_normal (VMap m) =
     (case map_option (fmmap json_normal) m of
        None \<Rightarrow> False
      | Some bs \<Rightarrow> (\<forall>k \<in> fset (fmdom bs). ValidString k) \<and> (\<forall>b \<in> fset (fmran bs). b))"
| "json_normal (VSlice xs) =
     (case map_option (map json_normal) xs of None \<Rightarrow> False | Some bs \<Rightarrow> (\<forall>b \<in> set bs. b))"
| "json_normal (VStrings xs) = False"
| "json_normal (VInts xs) = False"
| "json_normal (VInt64s xs) = False"
| "json_normal (VFloats xs) = False"
| "json_normal (VBools xs) = False"

definition normal_fields :: "Fields \<Rightarrow> bool" where
  "normal_fields flds \<longleftrightarrow> json_normal (VMap (Some flds))"

lemma json_normal_VMap [simp]:
  "json_normal (VMap m) \<longleftrightarrow>
     (\<exists>m'. m = Some m' \<and> (\<forall>k v. mget m' k = Some v \<longrightarrow> ValidString k \<and> json_normal v))"
  by (auto simp: fmlookup_dom_iff fmlookup_ran_iff split: option.splits)

lemma json_normal_VSlice [simp]:
  "json_normal (VSlice xs) \<longleftrightarrow> (\<exists>xs'. xs = Some xs' \<and> (\<forall>v \<in> set xs'. json_normal v))"
  by (auto split: option.splits)

declare json_normal.simps(7,8) [simp del]

lemma normal_fields_iff: "normal_fields m \<longleftrightarrow> (\<forall>k v. mget m k = Some v \<longrightarrow> ValidString k \<and> json_normal v)"
  by (simp add: normal_fields_def)

lemma all_ok_Some: "all_ok m = Some m' \<longleftrightarrow> (\<forall>k. mget m k = map_option Some (mget m' k))"
proof
  assume "all_ok m = Some m'"
  then have "\<forall>v \<in> fset (fmran m). v \<noteq> None" "m' = fmmap the m" by (auto simp: all_ok_def split: if_splits)
  then show "\<forall>k. mget m k = map_option Some (mget m' k)"
    by (metis fmlookup_map fmran'I fmran'_alt_def option.collapse option.map(1,2))
next
  assume *: "\<forall>k. mget m k = map_option Some (mget m' k)"
  then have "v \<noteq> None" if "v \<in> fset (fmran m)" for v using that by (auto simp: fmlookup_ran_iff)
  moreover have "fmmap the m = m'" using * by (intro fmap_ext) (simp add: option.map_comp comp_def option.map_ident)
  ultimately show "all_ok m = Some m'" by (simp add: all_ok_def)
qed

lemma all_ok_list_Some: "all_ok_list xs = Some ys \<longleftrightarrow> xs = map Some ys"
  by (auto simp: all_ok_list_def intro!: nth_equalityI)

lemma coerce_keys_lookup_SomeD:
  "mget (coerce_keys m) k = Some v \<Longrightarrow> \<exists>k'. k = utf8_coerce k' \<and> mget m k' = Some v"
proof -
  have "mget (fold (\<lambda>(k, v) acc. fmupd (utf8_coerce k) v acc) kvs acc) k = Some v \<Longrightarrow>
        mget acc k = Some v \<or> (\<exists>k'. k = utf8_coerce k' \<and> (k', v) \<in> set kvs)" for kvs acc
    by (induction kvs arbitrary: acc) (force split: if_splits)+
  from this [of "entries m" fmempty] show "mget (coerce_keys m) k = Some v \<Longrightarrow> ?thesis"
    by (auto simp: coerce_keys_def)
qed

lemma coerce_keys_valid:
  assumes "\<forall>k v. mget m k = Some v \<longrightarrow> ValidString k"
  shows "coerce_keys m = m"
proof -
  have "fold (\<lambda>(k, v) acc. fmupd (utf8_coerce k) v acc) (entries m) fmempty =
        fold (\<lambda>(k, v) acc. fmupd k v acc) (entries m) fmempty"
    using assms by (intro fold_cong refl) (auto simp: ValidString_id)
  also have "\<dots> = m"
    by (rule fmap_ext) (simp add: fold_upd_lookup split: option.splits)
  finally show ?thesis by (simp add: coerce_keys_def)
qed

lemma normalizeJSONObjectFast_SomeD:
  assumes "normalizeJSONObjectFast (fmmap f m) d = Some m'" and "mget m' k = Some w"
  shows "ValidString k \<and> (\<exists>v. mget m k = Some v \<and> f v d = Some w)"
proof -
  from assms(1) have "mget (fmmap (\<lambda>g. g d) (fmmap f m)) k = map_option Some (mget m' k)"
    and "\<forall>k. k |\<in>| fmdom m \<longrightarrow> ValidString k"
    by (auto simp: normalizeJSONObjectFast_def all_ok_Some split: if_splits)
  with assms(2) show ?thesis by (auto simp: option.map_comp) (metis fmdomI)
qed

lemma map_SomeD: "map f xs = map Some ys \<Longrightarrow> y \<in> set ys \<Longrightarrow> \<exists>x \<in> set xs. f x = Some y"
  by (induction xs arbitrary: ys) (auto simp: Cons_eq_map_conv)

lemma map_Some_id: "map f xs = map Some ys \<Longrightarrow> (\<And>x y. x \<in> set xs \<Longrightarrow> f x = Some y \<Longrightarrow> y = x) \<Longrightarrow> ys = xs"
  by (induction xs arbitrary: ys) (auto simp: Cons_eq_map_conv)

lemma normalizeJSONArrayFast_SomeD:
  "normalizeJSONArrayFast (map f xs) d = Some ys \<Longrightarrow> w \<in> set ys \<Longrightarrow> \<exists>v \<in> set xs. f v d = Some w"
  unfolding normalizeJSONArrayFast_def all_ok_list_Some by (drule (1) map_SomeD) auto

lemma all_ok_fmmapD: "all_ok (fmmap f m) = Some z \<Longrightarrow> mget z k = Some w \<Longrightarrow> \<exists>v. mget m k = Some v \<and> f v = Some w"
  by (drule spec [of _ k, OF iffD1 [OF all_ok_Some]]) auto

lemma normalizeObject_normal:
  assumes "normalizeJSONObjectFast (fmmap normalizeJSONValueFast m) d = Some z"
    and "\<And>v w. v \<in> fmran' m \<Longrightarrow> normalizeJSONValueFast v d = Some w \<Longrightarrow> json_normal w"
  shows "normal_fields z"
  unfolding normal_fields_iff using normalizeJSONObjectFast_SomeD [OF assms(1)] assms(2)
  by (meson fmran'I)

lemma roundtripObject_normal:
  assumes "all_ok (fmmap json_roundtrip m) = Some z"
    and "\<And>v w. v \<in> fmran' m \<Longrightarrow> json_roundtrip v = Some w \<Longrightarrow> json_normal w"
  shows "normal_fields (coerce_keys z)"
  unfolding normal_fields_iff
  using coerce_keys_lookup_SomeD [of z] all_ok_fmmapD [OF assms(1)] assms(2)
  by (metis ValidString_coerce fmran'I)

lemma normalizeFast_normal: "normalizeJSONValueFast v d = Some w \<Longrightarrow> json_normal w"
proof (induction v arbitrary: d w)
  case (VFields m)
  then show ?case
    by (cases m) (auto simp: normal_fields_def [symmetric] simp del: json_normal_VMap
        split: if_splits intro!: normalizeObject_normal)
next
  case (VMap m)
  then show ?case
    by (cases m) (auto simp: normal_fields_def [symmetric] simp del: json_normal_VMap
        split: if_splits intro!: normalizeObject_normal)
next
  case (VSlice xs)
  then show ?case
    by (cases xs) (auto split: if_splits, blast dest: normalizeJSONArrayFast_SomeD)
qed (auto simp: normalizeIntegerSlice_def is_finite_def float64_of_int_def split: option.splits if_splits)

lemma json_roundtrip_normal: "json_roundtrip v = Some w \<Longrightarrow> json_normal w"
proof (induction v arbitrary: w)
  case (VFields m)
  then show ?case
    by (cases m) (auto simp: normal_fields_def [symmetric] simp del: json_normal_VMap
        intro!: roundtripObject_normal)
next
  case (VMap m)
  then show ?case
    by (cases m) (auto simp: normal_fields_def [symmetric] simp del: json_normal_VMap
        intro!: roundtripObject_normal)
next
  case (VSlice xs)
  then show ?case
    by (cases xs) (auto simp: all_ok_list_Some, blast dest: map_SomeD)
qed (auto simp: normalizeIntegerSlice_def is_finite_def float64_of_int_def split: option.splits if_splits)

text \<open>On normal values the fast path and the round trip change nothing.\<close>

lemma all_ok_id: "(\<And>k v. mget m k = Some v \<Longrightarrow> f v = Some v) \<Longrightarrow> all_ok (fmmap f m) = Some m"
  by (auto simp: all_ok_Some intro: map_option_cong)

lemma json_roundtrip_id: "json_normal v \<Longrightarrow> json_roundtrip v = Some v"
proof (induction v)
  case (VMap m)
  then obtain m' where m: "m = Some m'" and n: "\<forall>k v. mget m' k = Some v \<longrightarrow> ValidString k \<and> json_normal v"
    by auto
  have "all_ok (fmmap json_roundtrip m') = Some m'"
    using VMap.IH n by (intro all_ok_id) (auto simp: m intro: fmran'I)
  moreover have "coerce_keys m' = m'" using n by (simp add: coerce_keys_valid)
  ultimately show ?case by (simp add: m)
next
  case (VSlice xs)
  then show ?case by (auto simp: all_ok_list_Some)
qed (auto simp: ValidString_id)

lemma normalizeFast_id: "json_normal v \<Longrightarrow> normalizeJSONValueFast v d = Some w \<Longrightarrow> w = v"
proof (induction v arbitrary: d w)
  case (VMap m)
  then obtain m' where m: "m = Some m'" and n: "\<forall>k v. mget m' k = Some v \<longrightarrow> ValidString k \<and> json_normal v"
    by auto
  from VMap.prems m obtain z where w: "w = VMap (Some z)"
    and z: "normalizeJSONObjectFast (fmmap normalizeJSONValueFast m') (Suc d) = Some z"
    by (auto split: if_splits)
  have "mget z k = mget m' k" for k
  proof (cases "mget m' k")
    case None
    then show ?thesis using normalizeJSONObjectFast_SomeD [OF z, of k] by (cases "mget z k") auto
  next
    case (Some v)
    from z have "map_option (\<lambda>v. normalizeJSONValueFast v (Suc d)) (mget m' k) = map_option Some (mget z k)"
      by (auto simp: normalizeJSONObjectFast_def all_ok_Some option.map_comp comp_def split: if_splits)
    with Some obtain u where "mget z k = Some u" "normalizeJSONValueFast v (Suc d) = Some u"
      by (cases "mget z k") auto
    with VMap.IH [of m' v "Suc d" u] n Some show ?thesis by (auto simp: m intro: fmran'I)
  qed
  then show ?case by (simp add: w m fmap_ext)
next
  case (VSlice xs)
  then show ?case
    by (auto simp: normalizeJSONArrayFast_def all_ok_list_Some split: if_splits option.splits)
       (auto dest!: map_Some_id)
qed (auto split: if_splits)


text \<open>Decoding never nests deeper than what was encoded.\<close>

lemma Max_ran_le:
  fixes f g :: "'v \<Rightarrow> nat"
  assumes "\<And>k w. mget z k = Some w \<Longrightarrow> \<exists>k' v. mget m k' = Some v \<and> g w \<le> f v"
  shows "Max (insert 0 (fset (fmran (fmmap g z)))) \<le> Max (insert 0 (fset (fmran (fmmap f m))))"
proof (rule Max.boundedI)
  fix n assume "n \<in> insert 0 (fset (fmran (fmmap g z)))"
  then consider "n = 0" | k w where "mget z k = Some w" "n = g w" by (auto simp: fmlookup_ran_iff)
  then show "n \<le> Max (insert 0 (fset (fmran (fmmap f m))))"
  proof cases
    case 2
    then obtain k' v where "mget m k' = Some v" "g w \<le> f v" using assms by blast
    moreover from this have "f v \<in> fset (fmran (fmmap f m))" by (auto simp: fmlookup_ran_iff intro!: exI [of _ k'])
    ultimately show ?thesis using 2 by (meson Max_ge finite_fset finite_insert insertCI le_trans)
  qed simp
qed auto

lemma roundtripObject_depth:
  assumes "all_ok (fmmap json_roundtrip m) = Some z"
    and "\<And>v w. v \<in> fmran' m \<Longrightarrow> json_roundtrip v = Some w \<Longrightarrow> json_depth w \<le> json_depth v"
  shows "json_depth (VMap (Some (coerce_keys z))) \<le> json_depth (VMap (Some m))"
proof -
  have "\<exists>k' v. mget m k' = Some v \<and> json_depth w \<le> json_depth v"
    if "mget (coerce_keys z) k = Some w" for k w
    using that coerce_keys_lookup_SomeD all_ok_fmmapD [OF assms(1)] assms(2) by (metis fmran'I)
  from Max_ran_le [of "coerce_keys z" m json_depth json_depth, OF this]
  show ?thesis by simp
qed

lemma Max_insert_zeros [simp]: "finite A \<Longrightarrow> Max (insert 0 ((\<lambda>_. 0) ` A)) = (0 :: nat)"
  by (cases "A = {}") auto

lemma json_roundtrip_depth: "json_roundtrip v = Some w \<Longrightarrow> json_depth w \<le> json_depth v"
proof (induction v arbitrary: w)
  case (VFields m)
  then show ?case
  proof (cases m)
    case (Some m')
    with VFields obtain z where "w = VMap (Some (coerce_keys z))" "all_ok (fmmap json_roundtrip m') = Some z" by auto
    with roundtripObject_depth VFields.IH Some show ?thesis by auto
  qed simp
next
  case (VMap m)
  then show ?case
  proof (cases m)
    case (Some m')
    with VMap obtain z where "w = VMap (Some (coerce_keys z))" "all_ok (fmmap json_roundtrip m') = Some z" by auto
    with roundtripObject_depth VMap.IH Some show ?thesis by auto
  qed simp
next
  case (VSlice xs)
  show ?case
  proof (cases xs)
    case (Some xs')
    with VSlice.prems obtain ys where w: "w = VSlice (Some ys)" and ys: "map json_roundtrip xs' = map Some ys"
      by (auto simp: all_ok_list_Some)
    have "Max (insert 0 (json_depth ` set ys)) \<le> Max (insert 0 (json_depth ` set xs'))"
    proof (rule Max.boundedI)
      fix n assume "n \<in> insert 0 (json_depth ` set ys)"
      then consider "n = 0" | y where "y \<in> set ys" "n = json_depth y" by auto
      then show "n \<le> Max (insert 0 (json_depth ` set xs'))"
      proof cases
        case 2
        then obtain x where "x \<in> set xs'" "json_roundtrip x = Some y" using map_SomeD [OF ys] by blast
        then have "json_depth y \<le> json_depth x" "json_depth x \<in> insert 0 (json_depth ` set xs')"
          using VSlice.IH Some by auto
        then show ?thesis using 2 by (meson Max_ge finite_imageI finite_insert finite_set le_trans)
      qed simp
    qed auto
    then show ?thesis by (simp add: w Some)
  qed (use VSlice.prems in auto)
qed (auto simp: normalizeIntegerSlice_def image_image split: option.splits if_splits)


text \<open>What the fast path accepts is far below the decoder's nesting limit.\<close>

lemma Max_insert_0_le: "finite A \<Longrightarrow> (\<And>n. n \<in> A \<Longrightarrow> n \<le> b) \<Longrightarrow> Max (insert 0 A) \<le> (b :: nat)"
  by (cases "A = {}") auto

lemma normalizeObject_depth:
  assumes "normalizeJSONObjectFast (fmmap normalizeJSONValueFast m) d = Some z"
    and "\<And>v w. v \<in> fmran' m \<Longrightarrow> normalizeJSONValueFast v d = Some w \<Longrightarrow> json_depth w \<le> b"
  shows "json_depth (VMap (Some z)) \<le> Suc b"
proof -
  have "json_depth w \<le> b" if "mget z k = Some w" for k w
    using that normalizeJSONObjectFast_SomeD [OF assms(1)] assms(2) by (meson fmran'I)
  then have "Max (insert 0 (fset (fmran (fmmap json_depth z)))) \<le> b"
    by (intro Max_insert_0_le) (auto simp: fmlookup_ran_iff)
  then show ?thesis by simp
qed

lemma normalizeObject_depth_le:
  assumes "normalizeJSONObjectFast (fmmap normalizeJSONValueFast m) (Suc d) = Some z"
    and "\<not> b < d"
    and "\<And>v w. v \<in> fmran' m \<Longrightarrow> normalizeJSONValueFast v (Suc d) = Some w \<Longrightarrow> json_depth w \<le> Suc b - Suc d"
  shows "json_depth (VMap (Some z)) \<le> Suc b - d"
  using normalizeObject_depth [of m "Suc d" z "b - d"] assms by (simp add: Suc_diff_le)

lemma normalizeFast_depth: "normalizeJSONValueFast v d = Some w \<Longrightarrow> json_depth w \<le> Suc fastFieldNormalizeMaxDepth - d"
proof (induction v arbitrary: d w)
  case (VFields m)
  then show ?case
    by (cases m) (auto simp del: json_depth.simps(7) split: if_splits intro!: normalizeObject_depth_le)
next
  case (VMap m)
  then show ?case
    by (cases m) (auto simp del: json_depth.simps(7) split: if_splits intro!: normalizeObject_depth_le)
next
  case (VSlice xs)
  show ?case
  proof (cases xs)
    case (Some xs')
    with VSlice.prems obtain ys where w: "w = VSlice (Some ys)" and d: "\<not> d > fastFieldNormalizeMaxDepth"
      and ys: "normalizeJSONArrayFast (map normalizeJSONValueFast xs') (d + 1) = Some ys"
      by (auto split: if_splits)
    have "json_depth y \<le> fastFieldNormalizeMaxDepth - d" if "y \<in> set ys" for y
    proof -
      from normalizeJSONArrayFast_SomeD [OF ys that] obtain x where
        x: "x \<in> set xs'" "normalizeJSONValueFast x (d + 1) = Some y" by blast
      with VSlice.IH [of xs' x "d + 1" y] Some show ?thesis by simp
    qed
    then have "Max (insert 0 (json_depth ` set ys)) \<le> fastFieldNormalizeMaxDepth - d"
      by (intro Max_insert_0_le) auto
    with d have "Suc (Max (insert 0 (json_depth ` set ys))) \<le> Suc fastFieldNormalizeMaxDepth - d"
      by (simp only: Suc_diff_le not_less Suc_le_mono)
    then show ?thesis by (simp add: w)
  qed (use VSlice.prems in \<open>auto split: if_splits\<close>)
qed (auto simp: normalizeIntegerSlice_def image_image split: option.splits if_splits)

section \<open>Properties\<close>

lemma validateNormalizedFields_Inr:
  "validateNormalizedFields f = Inr f' \<longleftrightarrow> f' = f \<and> (\<forall>k \<in> fset (fmdom f). TrimSpace k \<noteq> [])"
  by (auto simp: validateNormalizedFields_def)

lemma json_roundtrip_VFields_Some:
  "json_roundtrip (VFields (Some f)) = Some w \<longleftrightarrow>
     (\<exists>z. all_ok (fmmap json_roundtrip f) = Some z \<and> w = VMap (Some (coerce_keys z)))"
  by auto

lemma normalizeFieldsWithJSON_Inr:
  "normalizeFieldsWithJSON f = Inr f' \<longleftrightarrow>
     json_roundtrip (VFields (Some f)) = Some (VMap (Some f')) \<and>
     json_depth (VFields (Some f)) \<le> json_max_depth \<and> (\<forall>k \<in> fset (fmdom f'). TrimSpace k \<noteq> [])"
  by (auto simp: normalizeFieldsWithJSON_def validateNormalizedFields_Inr simp del: json_depth.simps
      json_roundtrip.simps split: option.splits any.splits)

lemma json_depth_VFields: "json_depth (VFields m) = json_depth (VMap m)"
  by simp

lemma normalizeFields_normalD:
  assumes "normalizeFields f = Inr f'"
  shows "normal_fields f' \<and> json_depth (VMap (Some f')) \<le> json_max_depth \<and>
         (\<forall>k \<in> fset (fmdom f'). TrimSpace k \<noteq> [])"
proof (cases "normalizeJSONObjectFast (fmmap normalizeJSONValueFast f) 0")
  case None
  with assms have "normalizeFieldsWithJSON f = Inr f'" by (simp add: normalizeFields_def)
  then show ?thesis
    using json_roundtrip_normal [of "VFields (Some f)" "VMap (Some f')"]
      json_roundtrip_depth [of "VFields (Some f)" "VMap (Some f')"]
    unfolding normalizeFieldsWithJSON_Inr normal_fields_def by linarith
next
  case (Some z)
  with assms have "z = f'" "\<forall>k \<in> fset (fmdom f'). TrimSpace k \<noteq> []"
    by (auto simp: normalizeFields_def validateNormalizedFields_Inr)
  moreover have "json_depth (VMap (Some z)) \<le> Suc (Suc fastFieldNormalizeMaxDepth)"
    by (rule normalizeObject_depth [OF Some]) (use normalizeFast_depth [of _ 0] in simp)
  then have "json_depth (VMap (Some z)) \<le> json_max_depth"
    unfolding fastFieldNormalizeMaxDepth_def json_max_depth_def by linarith
  ultimately show ?thesis using normalizeObject_normal [OF Some] normalizeFast_normal by blast
qed

lemma normalizeObject_id:
  assumes "normal_fields m" and "normalizeJSONObjectFast (fmmap normalizeJSONValueFast m) d = Some z"
  shows "z = m"
proof (rule fmap_ext)
  fix k
  have "map_option (\<lambda>v. normalizeJSONValueFast v d) (mget m k) = map_option Some (mget z k)"
    using assms(2)
    by (auto simp: normalizeJSONObjectFast_def all_ok_Some option.map_comp comp_def split: if_splits)
  then show "mget z k = mget m k"
    using assms(1) normalizeFast_id unfolding normal_fields_iff
    by (cases "mget z k"; cases "mget m k") auto
qed

lemma normalizeFields_id:
  assumes "normal_fields f" and "json_depth (VMap (Some f)) \<le> json_max_depth"
    and "\<forall>k \<in> fset (fmdom f). TrimSpace k \<noteq> []"
  shows "normalizeFields f = Inr f"
proof -
  have "json_roundtrip (VFields (Some f)) = Some (VMap (Some f))"
    using json_roundtrip_id [of "VMap (Some f)"] assms(1) unfolding normal_fields_def by simp
  then show ?thesis
    using normalizeObject_id [of f 0] assms unfolding normalizeFields_def
    by (auto simp: validateNormalizedFields_Inr normalizeFieldsWithJSON_Inr json_depth_VFields
        simp del: json_depth.simps json_roundtrip.simps split: option.splits)
qed

text \<open>C17. A field map that \<open>normalizeFields\<close> accepts is in JSON normal form (only the types a JSON
  decoder produces, valid UTF-8 keys and strings, finite numbers), has no blank field name, and
  normalising it again changes nothing, whichever of the fast path and the JSON round trip was
  taken the first time.\<close>

theorem normalizeFields_normal:
  assumes "normalizeFields f = Inr f'"
  shows "normal_fields f' \<and> normalizeFields f' = Inr f' \<and> (\<forall>k \<in> fset (fmdom f'). TrimSpace k \<noteq> [])"
  using normalizeFields_normalD [OF assms] normalizeFields_id by blast

theorem normalizeFields_normal_witness:
  "normalizeFields (fmap_of_list [(''ports'', VInts (Some [80, 443]))]) =
     Inr (fmap_of_list [(''ports'', VSlice (Some [VFloat (Fin 80), VFloat (Fin 443)]))]) \<and>
   normalizeFields (fmap_of_list [(''ports'', VSlice (Some [VFloat (Fin 80), VFloat (Fin 443)]))]) =
     Inr (fmap_of_list [(''ports'', VSlice (Some [VFloat (Fin 80), VFloat (Fin 443)]))])"
proof -
  have "normalizeFields (fmap_of_list [(''ports'', VInts (Some [80, 443]))]) =
     Inr (fmap_of_list [(''ports'', VSlice (Some [VFloat (Fin 80), VFloat (Fin 443)]))])"
    by code_simp
  with normalizeFields_normal [OF this] show ?thesis by simp
qed

end
