(* ===== verification/FieldWrite.thy ===== *)
theory FieldWrite
  imports Values
begin

text \<open>
  How a request writes entity fields (\<open>entity_field_write.go\<close>): the override marker \<open>field!\<close>, the
  per-field write modes, and the conflicts inside one payload; the labels kept in a reserved field
  (\<open>entity_labels.go\<close>); and the collector of distinct strings (\<open>unique_strings.go\<close>).
  Multi-valued Go results are tuples. \<open>delete(m, k)\<close> is \<open>fmdrop k m\<close>, \<open>m[k]\<close> of a map of strings
  is \<open>mget_or [] m k\<close>.
\<close>

definition FieldMergeReplace :: string where
  "FieldMergeReplace = ''replace''"

definition FieldMergeAppendUnique :: string where
  "FieldMergeAppendUnique = ''append_unique''"

fun firstNonEmptyString :: "string list \<Rightarrow> string" where
  "firstNonEmptyString [] = []"
| "firstNonEmptyString (value # values) = (if value \<noteq> [] then value else firstNonEmptyString values)"

section \<open>Field writes\<close>

definition writeMode_step :: "(string, string) fmap \<Rightarrow> string \<times> string \<Rightarrow> value_error + (string, string) fmap" where
  "writeMode_step out = (\<lambda>(rawField, rawMode).
     let field = TrimSpace rawField; mode = TrimSpace rawMode in
     if field = [] then Inl FieldWriteModeNameRequired
     else if HasSuffix field ''!'' then Inl (FieldWriteModeMarked field)
     else if mode = [] then Inr out
     else if mode \<noteq> FieldMergeReplace then Inl (FieldWriteModeUnsupported mode field)
     else Inr (fmupd field mode out))"

definition normalizeFieldWriteModes :: "(string, string) fmap \<Rightarrow> value_error + (string, string) fmap" where
  "normalizeFieldWriteModes values = foldM writeMode_step fmempty (entries values)"

definition parseFieldOverrideMarker :: "string \<Rightarrow> value_error + string \<times> bool" where
  "parseFieldOverrideMarker rawField =
     (if \<not> HasSuffix rawField ''!'' then
        (if TrimSpace rawField = [] then Inl FieldNameRequired else Inr (rawField, False))
      else
        let field = TrimSuffix rawField ''!'' in
        if TrimSpace field = [] \<or> HasSuffix field ''!'' then Inl (FieldOverrideMarkerInvalid rawField)
        else Inr (field, True))"

definition samePayloadFieldConflict :: "Entity \<Rightarrow> string \<Rightarrow> string \<Rightarrow> any \<Rightarrow> any \<Rightarrow> FieldConflict" where
  "samePayloadFieldConflict entity field ignoredField winner loser =
     zero_FieldConflict
       \<lparr>fc_ResourceType := ''entity'',
        fc_EntityID := ent_ID entity,
        fc_IncomingID := firstNonEmptyString [ent_ExternalID entity, ent_ID entity],
        fc_Field := field,
        fc_AliasField := ignoredField,
        fc_ExistingSource := ent_Source entity,
        fc_ExistingPriority := ent_SourceRank entity,
        fc_IncomingSource := ent_Source entity,
        fc_IncomingPriority := ent_SourceRank entity,
        fc_ExistingValue := winner,
        fc_IncomingValue := loser,
        fc_Message := ''incoming field value was ignored because override marker field is present''\<rparr>"

definition sortedFieldKeys :: "Fields \<Rightarrow> string list" where
  "sortedFieldKeys flds = skeys flds"

definition trimFieldWriteModesToFields :: "(string, string) fmap \<Rightarrow> Fields \<Rightarrow> (string, string) fmap" where
  "trimFieldWriteModesToFields modes flds =
     fmfilter (\<lambda>field. mget flds field \<noteq> None \<and> mget_or [] modes field \<noteq> []) modes"

text \<open>The variables of the loop over the raw field names.\<close>

record field_writes =
  fw_out :: Fields
  fw_modes :: "(string, string) fmap"
  fw_marked :: "string set"
  fw_conflicts :: "FieldConflict list"

definition fieldWrite_step ::
  "Entity \<Rightarrow> Fields \<Rightarrow> field_writes \<Rightarrow> string \<Rightarrow> value_error + field_writes" where
  "fieldWrite_step entity flds st rawField =
     rbind (parseFieldOverrideMarker rawField) (\<lambda>(field, override).
       let value = mget_or VNil flds rawField in
       case mget (fw_out st) field of
         None \<Rightarrow>
           let st' = st\<lparr>fw_out := fmupd field value (fw_out st)\<rparr> in
           Inr (if override
                then st'\<lparr>fw_modes := fmupd field FieldMergeReplace (fw_modes st),
                         fw_marked := insert field (fw_marked st)\<rparr>
                else st')
       | Some current \<Rightarrow>
           if override \<or> field \<in> fw_marked st then
             let winner = (if override then value else current);
                 loser = (if override then current else value);
                 loserField = (if override then field else rawField);
                 st' = (if override
                        then st\<lparr>fw_out := fmupd field value (fw_out st),
                                fw_modes := fmupd field FieldMergeReplace (fw_modes st),
                                fw_marked := insert field (fw_marked st)\<rparr>
                        else st)
             in Inr (if \<not> fieldValuesEqual winner loser
                     then st'\<lparr>fw_conflicts := fw_conflicts st @
                                [samePayloadFieldConflict entity field loserField winner loser]\<rparr>
                     else st')
           else Inr st)"

definition normalizeEntityFieldWrites ::
  "Entity \<Rightarrow> value_error + Fields \<times> (string, string) fmap \<times> FieldConflict list" where
  "normalizeEntityFieldWrites entity =
     rbind (normalizeFields (ent_Fields entity)) (\<lambda>flds.
     rbind (normalizeFieldWriteModes (ent_FieldWriteModes entity)) (\<lambda>modes.
     rbind (foldM (fieldWrite_step entity flds)
              \<lparr>fw_out = fmempty, fw_modes = modes, fw_marked = {}, fw_conflicts = []\<rparr>
              (sortedFieldKeys flds)) (\<lambda>st.
     Inr (fw_out st, trimFieldWriteModesToFields (fw_modes st) (fw_out st), fw_conflicts st))))"

definition prepareEntityFieldWrites :: "Entity \<Rightarrow> value_error + Entity" where
  "prepareEntityFieldWrites entity =
     rbind (normalizeEntityFieldWrites entity) (\<lambda>(flds, modes, conflicts).
     Inr (entity\<lparr>ent_Fields := flds, ent_FieldWriteModes := modes, ent_FieldConflicts := conflicts\<rparr>))"

primrec mapM :: "('a \<Rightarrow> 'e + 'b) \<Rightarrow> 'a list \<Rightarrow> 'e + 'b list" where
  "mapM f [] = Inr []"
| "mapM f (x # xs) = rbind (f x) (\<lambda>y. rbind (mapM f xs) (\<lambda>ys. Inr (y # ys)))"

definition PrepareEntityFieldWrites :: "Mutations \<Rightarrow> value_error + Mutations" where
  "PrepareEntityFieldWrites mutations =
     rbind (mapM prepareEntityFieldWrites (mu_UpsertEntities mutations)) (\<lambda>upserts.
     rbind (mapM (\<lambda>split. rbind (mapM prepareEntityFieldWrites (sr_Entities split))
                           (\<lambda>es. Inr (split\<lparr>sr_Entities := es\<rparr>)))
              (mu_SplitEntities mutations)) (\<lambda>splits.
     Inr (mutations\<lparr>mu_UpsertEntities := upserts, mu_SplitEntities := splits\<rparr>)))"

definition entityFieldConflictsForTarget :: "Entity \<Rightarrow> string \<Rightarrow> FieldConflict list" where
  "entityFieldConflictsForTarget entity targetID =
     map (\<lambda>conflict.
            conflict\<lparr>fc_EntityID := targetID,
                     fc_IncomingID :=
                       (if fc_IncomingID conflict = []
                        then firstNonEmptyString [ent_ExternalID entity, ent_ID entity]
                        else fc_IncomingID conflict)\<rparr>)
       (ent_FieldConflicts entity)"

definition clearEntityWriteMetadata :: "Entity \<Rightarrow> Entity" where
  "clearEntityWriteMetadata entity = entity\<lparr>ent_FieldWriteModes := fmempty, ent_FieldConflicts := []\<rparr>"

section \<open>Labels\<close>

definition ReservedLabelsField :: string where
  "ReservedLabelsField = ''__graphdb_labels''"

definition label_step :: "string list \<Rightarrow> string \<Rightarrow> value_error + string list" where
  "label_step normalized rawLabel =
     (let label = TrimSpace rawLabel in
      if label = [] then Inl LabelEmpty
      else if label \<in> set normalized then Inr normalized
      else Inr (normalized @ [label]))"

definition normalizeLabels :: "string list \<Rightarrow> value_error + string list" where
  "normalizeLabels labels =
     rbind (foldM label_step [] labels) (\<lambda>normalized. Inr (sort normalized))"

definition labelsValue :: "string list \<Rightarrow> any" where
  "labelsValue labels = VSlice (Some (map VString labels))"

definition as_string :: "any \<Rightarrow> string option" where
  "as_string v = (case v of VString s \<Rightarrow> Some s | _ \<Rightarrow> None)"

definition labelsFromValue :: "any \<Rightarrow> string list option" where
  "labelsFromValue value =
     (let normalized = (\<lambda>labels. case normalizeLabels labels of Inl _ \<Rightarrow> None | Inr ls \<Rightarrow> Some ls) in
      case value of
        VStrings typed \<Rightarrow> normalized (case typed of None \<Rightarrow> [] | Some ls \<Rightarrow> ls)
      | VSlice typed \<Rightarrow>
          Option.bind (all_ok_list (map as_string (case typed of None \<Rightarrow> [] | Some xs \<Rightarrow> xs))) normalized
      | _ \<Rightarrow> None)"

definition EntityLabels :: "Entity \<Rightarrow> string list" where
  "EntityLabels entity =
     (case labelsFromValue (mget_or VNil (ent_Fields entity) ReservedLabelsField) of
        None \<Rightarrow> [] | Some labels \<Rightarrow> labels)"

definition SetEntityLabels :: "Entity \<Rightarrow> string list \<Rightarrow> value_error + Entity" where
  "SetEntityLabels entity labels =
     rbind (normalizeLabels labels) (\<lambda>normalized.
     Inr (entity\<lparr>ent_Fields := fmupd ReservedLabelsField (labelsValue normalized) (ent_Fields entity)\<rparr>))"

text \<open>
  \<open>UnmarshalJSON\<close> after the decoder has filled the entity: \<open>wire_labels\<close> is the raw member \<open>labels\<close>,
  \<open>None\<close> when absent, \<open>Some None\<close> when it is no array of strings.
\<close>

definition entityUnmarshalLabels :: "Entity \<Rightarrow> string list option option \<Rightarrow> value_error + Entity" where
  "entityUnmarshalLabels entity wire_labels =
     (let stored = labelsFromValue (mget_or VNil (ent_Fields entity) ReservedLabelsField) in
      case wire_labels of
        None \<Rightarrow>
          Inr (case stored of
                 None \<Rightarrow> entity
               | Some ls \<Rightarrow> entity\<lparr>ent_Fields := fmupd ReservedLabelsField (labelsValue ls) (ent_Fields entity)\<rparr>)
      | Some None \<Rightarrow> Inl LabelsNotStrings
      | Some (Some labels) \<Rightarrow>
          rbind (normalizeLabels labels) (\<lambda>normalized.
          if mget (ent_Fields entity) ReservedLabelsField \<noteq> None \<and> stored \<noteq> Some normalized
          then Inl LabelsConflict
          else SetEntityLabels entity normalized))"

section \<open>Collecting distinct strings\<close>

definition unique_add :: "string list \<Rightarrow> string list \<Rightarrow> string list" where
  "unique_add values new =
     fold (\<lambda>value acc. if value = [] \<or> value \<in> set acc then acc else acc @ [value]) new values"

section \<open>Lemmas\<close>

lemma HasSuffix_iff: "HasSuffix s suf \<longleftrightarrow> (\<exists>p. s = p @ suf)"
proof
  assume "HasSuffix s suf"
  then have "rev s = rev suf @ drop (length suf) (rev s)"
    by (metis HasSuffix_def append_take_drop_id is_prefix_def length_rev)
  then show "\<exists>p. s = p @ suf" by (metis rev_append rev_rev_ident)
qed (auto simp: HasSuffix_def is_prefix_def)

lemma TrimSuffix_append [simp]: "TrimSuffix (p @ suf) suf = p"
  by (simp add: TrimSuffix_def HasSuffix_iff)

lemma parseFieldOverrideMarker_Inr:
  "parseFieldOverrideMarker raw = Inr (f, b) \<longleftrightarrow>
     \<not> HasSuffix f ''!'' \<and> TrimSpace f \<noteq> [] \<and> raw = (if b then f @ ''!'' else f)"
  by (auto simp: parseFieldOverrideMarker_def Let_def HasSuffix_iff split: if_splits)

text \<open>The effect of the loop over any set of raw names that all parse.\<close>

definition written :: "Fields \<Rightarrow> string set \<Rightarrow> (string, string) fmap \<Rightarrow> field_writes \<Rightarrow> bool" where
  "written flds ks modes st \<longleftrightarrow>
     (\<forall>f. mget (fw_out st) f =
            (if f @ ''!'' \<in> ks then mget flds (f @ ''!'')
             else if f \<in> ks \<and> \<not> HasSuffix f ''!'' then mget flds f else None)) \<and>
     fw_marked st = {f. f @ ''!'' \<in> ks} \<and> (\<forall>f. f @ ''!'' \<in> ks \<longrightarrow> \<not> HasSuffix f ''!'' \<and> TrimSpace f \<noteq> []) \<and>
     (\<forall>f. mget (fw_modes st) f = (if f @ ''!'' \<in> ks then Some FieldMergeReplace else mget modes f))"

lemma fieldWrite_step_effect:
  assumes "fieldWrite_step entity flds st raw = Inr st'" and "mget flds raw = Some v"
  obtains f b where "parseFieldOverrideMarker raw = Inr (f, b)"
    and "fw_out st' = (if b \<or> mget (fw_out st) f = None then fmupd f v (fw_out st) else fw_out st)"
    and "fw_modes st' = (if b then fmupd f FieldMergeReplace (fw_modes st) else fw_modes st)"
    and "fw_marked st' = (if b then insert f (fw_marked st) else fw_marked st)"
proof -
  obtain f b where p: "parseFieldOverrideMarker raw = Inr (f, b)"
    using assms(1) by (auto simp: fieldWrite_step_def)
  have v: "mget_or VNil flds raw = v" using assms(2) by (simp add: mget_or_def)
  note step = assms(1) [unfolded fieldWrite_step_def p rbind_simps prod.case v Let_def]
  show thesis
    by (rule that [OF p]; use step in \<open>cases "mget (fw_out st) f"; cases b; force split: if_splits\<close>)
qed

lemma fieldWrite_step_written:
  assumes "fieldWrite_step entity flds st raw = Inr st'" and "written flds ks modes st"
    and "mget flds raw = Some v" and "ks \<subseteq> fmdom' flds"
  shows "written flds (insert raw ks) modes st'"
proof -
  from assms(1,3) obtain f b where p: "parseFieldOverrideMarker raw = Inr (f, b)"
    and st': "fw_out st' = (if b \<or> mget (fw_out st) f = None then fmupd f v (fw_out st) else fw_out st)"
      "fw_modes st' = (if b then fmupd f FieldMergeReplace (fw_modes st) else fw_modes st)"
      "fw_marked st' = (if b then insert f (fw_marked st) else fw_marked st)"
    by (rule fieldWrite_step_effect)
  from p have f: "\<not> HasSuffix f ''!''" "TrimSpace f \<noteq> []" and raw: "raw = (if b then f @ ''!'' else f)"
    by (auto simp: parseFieldOverrideMarker_Inr)
  have bang: "g @ ''!'' \<noteq> f" for g using f(1) by (auto simp: HasSuffix_iff)
  have dom: "mget flds g \<noteq> None" if "g \<in> ks" for g using that assms(4) by (auto simp: fmlookup_dom'_iff)
  show ?thesis
    using assms(2,3) bang unfolding written_def st' raw
    by (cases b) (auto simp: f HasSuffix_iff dom split: if_splits)
qed

lemma normalizeEntityFieldWrites_lookup:
  assumes "normalizeEntityFieldWrites entity = Inr (out, modes, conflicts)"
    and "normalizeFields (ent_Fields entity) = Inr flds"
    and "normalizeFieldWriteModes (ent_FieldWriteModes entity) = Inr requested"
  shows "mget out f =
           (case mget flds (f @ ''!'') of
              Some v \<Rightarrow> Some v
            | None \<Rightarrow> if HasSuffix f ''!'' then None else mget flds f) \<and>
         mget modes f =
           (if mget flds (f @ ''!'') \<noteq> None then Some FieldMergeReplace
            else if mget out f \<noteq> None \<and> mget_or [] requested f \<noteq> [] then mget requested f else None) \<and>
         (HasSuffix f ''!'' \<or> TrimSpace f = [] \<longrightarrow> mget out f = None)"
proof -
  define st0 where "st0 = \<lparr>fw_out = fmempty, fw_modes = requested, fw_marked = {}, fw_conflicts = []\<rparr>"
  obtain st where loop: "foldM (fieldWrite_step entity flds) st0 (sortedFieldKeys flds) = Inr st"
    and out: "out = fw_out st" and modes: "modes = trimFieldWriteModesToFields (fw_modes st) (fw_out st)"
    using assms by (auto simp: normalizeEntityFieldWrites_def st0_def)
  have "written flds (set (sortedFieldKeys flds)) requested st"
  proof (rule foldM_processed [OF loop])
    show "written flds {} requested st0" by (simp add: written_def st0_def)
  next
    fix ks t x t'
    assume "x \<in> set (sortedFieldKeys flds)" "ks \<subseteq> set (sortedFieldKeys flds)"
      "written flds ks requested t" "fieldWrite_step entity flds t x = Inr t'"
    then show "written flds (insert x ks) requested t'"
      by (auto simp: sortedFieldKeys_def fmlookup_dom'_iff intro!: fieldWrite_step_written)
  qed
  then have w: "written flds (fmdom' flds) requested st" by (simp add: sortedFieldKeys_def)
  have dom: "g \<in> fmdom' flds \<longleftrightarrow> mget flds g \<noteq> None" for g by (auto simp: fmlookup_dom'_iff)
  have lookup: "mget out f = (case mget flds (f @ ''!'') of Some v \<Rightarrow> Some v
            | None \<Rightarrow> if HasSuffix f ''!'' then None else mget flds f)"
    using w unfolding written_def dom out by (auto split: option.splits)
  moreover have "mget flds (f @ ''!'') = None" if "HasSuffix f ''!'' \<or> TrimSpace f = []"
    using w that unfolding written_def dom by blast
  moreover have "mget flds f = None" if "TrimSpace f = []"
    using normalizeFields_normalD [OF assms(2)] that by (cases "mget flds f") (auto simp: fmlookup_dom_iff)
  moreover have "FieldMergeReplace \<noteq> []" by (simp add: FieldMergeReplace_def)
  then have "mget modes f =
           (if mget flds (f @ ''!'') \<noteq> None then Some FieldMergeReplace
            else if mget out f \<noteq> None \<and> mget_or [] requested f \<noteq> [] then mget requested f else None)"
    using w lookup unfolding written_def dom modes trimFieldWriteModesToFields_def out [symmetric]
    by (auto simp: mget_or_def split: option.splits)
  ultimately show ?thesis by auto
qed

text \<open>C18. What a payload writes: the value marked \<open>field!\<close> wins over the plain \<open>field\<close>, no marker
  survives in a field name, no name is blank, and a field is written in replace mode exactly when it was marked or
  the request named it in its write modes.\<close>

theorem normalizeEntityFieldWrites_effect:
  assumes "normalizeEntityFieldWrites entity = Inr (out, modes, conflicts)"
    and "normalizeFields (ent_Fields entity) = Inr flds"
    and "normalizeFieldWriteModes (ent_FieldWriteModes entity) = Inr requested"
  shows "mget out f =
           (case mget flds (f @ ''!'') of
              Some v \<Rightarrow> Some v
            | None \<Rightarrow> if HasSuffix f ''!'' then None else mget flds f) \<and>
         mget modes f =
           (if mget flds (f @ ''!'') \<noteq> None then Some FieldMergeReplace
            else if mget out f \<noteq> None \<and> mget_or [] requested f \<noteq> [] then mget requested f else None) \<and>
         (HasSuffix f ''!'' \<or> TrimSpace f = [] \<longrightarrow> mget out f = None)"
  using assms by (rule normalizeEntityFieldWrites_lookup)

theorem normalizeEntityFieldWrites_effect_witness:
  "\<exists>out modes conflicts.
     normalizeEntityFieldWrites
       (zero_Entity\<lparr>ent_Fields := fmap_of_list [(''os'', VString ''linux''), (''os!'', VString ''bsd'')]\<rparr>) =
       Inr (out, modes, conflicts) \<and>
     mget out ''os'' = Some (VString ''bsd'') \<and> mget modes ''os'' = Some FieldMergeReplace"
proof -
  let ?flds = "fmap_of_list [(''os'', VString ''linux''), (''os!'', VString ''bsd'')]"
  let ?e = "zero_Entity\<lparr>ent_Fields := ?flds\<rparr>"
  have n: "normalizeFields (ent_Fields ?e) = Inr ?flds" by code_simp
  have m: "normalizeFieldWriteModes (ent_FieldWriteModes ?e) = Inr fmempty" by code_simp
  have "\<not> isl (normalizeEntityFieldWrites ?e)" by code_simp
  then obtain out modes conflicts where r: "normalizeEntityFieldWrites ?e = Inr (out, modes, conflicts)"
    by (cases "normalizeEntityFieldWrites ?e") auto
  from normalizeEntityFieldWrites_effect [OF r n m, of "''os''"] r show ?thesis by simp
qed

section \<open>Labels are kept canonical\<close>

definition trimmed :: "string \<Rightarrow> bool" where
  "trimmed s \<longleftrightarrow> TrimSpace s = s \<and> s \<noteq> []"

lemma trimmed_TrimSpace [simp]: "trimmed (TrimSpace s) \<longleftrightarrow> TrimSpace s \<noteq> []"
  by (simp add: trimmed_def)

definition canonical_labels :: "string list \<Rightarrow> bool" where
  "canonical_labels ls \<longleftrightarrow> sorted ls \<and> distinct ls \<and> (\<forall>l \<in> set ls. trimmed l)"

lemma label_step_Inr:
  "label_step acc l = Inr r \<longleftrightarrow>
     TrimSpace l \<noteq> [] \<and> r = (if TrimSpace l \<in> set acc then acc else acc @ [TrimSpace l])"
  by (auto simp: label_step_def Let_def)

lemma label_loop:
  "foldM label_step acc ls = Inr r \<Longrightarrow> distinct acc \<Longrightarrow> \<forall>l \<in> set acc. trimmed l \<Longrightarrow>
   distinct r \<and> set r = set acc \<union> TrimSpace ` set ls \<and> (\<forall>l \<in> set r. trimmed l)"
proof (induction ls arbitrary: acc)
  case (Cons l ls)
  let ?acc = "if TrimSpace l \<in> set acc then acc else acc @ [TrimSpace l]"
  from Cons.prems(1) have "foldM label_step ?acc ls = Inr r" "TrimSpace l \<noteq> []"
    by (auto simp: label_step_Inr simp del: if_split)
  moreover from this Cons.prems have "distinct ?acc" "\<forall>l \<in> set ?acc. trimmed l" by auto
  ultimately have "distinct r \<and> set r = set ?acc \<union> TrimSpace ` set ls \<and> (\<forall>l \<in> set r. trimmed l)"
    by (intro Cons.IH)
  moreover have "set ?acc = insert (TrimSpace l) (set acc)" by auto
  ultimately show ?case by simp
qed simp

lemma label_loop_id:
  "distinct (acc @ ls) \<Longrightarrow> \<forall>l \<in> set ls. trimmed l \<Longrightarrow> foldM label_step acc ls = Inr (acc @ ls)"
  by (induction ls arbitrary: acc) (simp_all add: label_step_def Let_def trimmed_def)

lemma normalizeLabels_canonical:
  "normalizeLabels ls = Inr r \<Longrightarrow> canonical_labels r \<and> set r = TrimSpace ` set ls"
proof -
  assume "normalizeLabels ls = Inr r"
  then obtain n where "foldM label_step [] ls = Inr n" "r = sort n" by (auto simp: normalizeLabels_def)
  with label_loop [of "[]" ls n] show ?thesis by (simp add: canonical_labels_def)
qed

lemma normalizeLabels_id: "canonical_labels ls \<Longrightarrow> normalizeLabels ls = Inr ls"
  using label_loop_id [of "[]" ls] by (simp add: normalizeLabels_def canonical_labels_def sorted_sort_id)

lemma labelsFromValue_labelsValue: "canonical_labels ls \<Longrightarrow> labelsFromValue (labelsValue ls) = Some ls"
proof -
  assume "canonical_labels ls"
  moreover have "all_ok_list (map (as_string \<circ> VString) ls) = Some ls"
    by (simp add: all_ok_list_Some as_string_def)
  ultimately show ?thesis by (simp add: labelsFromValue_def labelsValue_def normalizeLabels_id)
qed

text \<open>C21. Labels round-trip: what \<open>SetEntityLabels\<close> stores is what \<open>EntityLabels\<close> reads, namely the
  trimmed labels in ascending order without duplicates; the wire form agrees with the stored one;
  and no other field is touched.\<close>

theorem SetEntityLabels_roundtrip:
  assumes "SetEntityLabels entity labels = Inr entity'"
  shows "EntityLabels entity' = sorted_list_of_set (TrimSpace ` set labels) \<and>
         entityUnmarshalLabels entity' (Some (Some labels)) = Inr entity' \<and>
         entityUnmarshalLabels entity' None = Inr entity' \<and>
         (\<forall>f. f \<noteq> ReservedLabelsField \<longrightarrow> mget (ent_Fields entity') f = mget (ent_Fields entity) f)"
proof -
  from assms obtain r where r: "normalizeLabels labels = Inr r"
    and e': "entity' = entity\<lparr>ent_Fields := fmupd ReservedLabelsField (labelsValue r) (ent_Fields entity)\<rparr>"
    by (auto simp: SetEntityLabels_def)
  from normalizeLabels_canonical [OF r] have c: "canonical_labels r" and "set r = TrimSpace ` set labels" by auto
  then have "r = sorted_list_of_set (TrimSpace ` set labels)"
    by (metis canonical_labels_def sorted_list_of_set.idem_if_sorted_distinct)
  with labelsFromValue_labelsValue [OF c] r normalizeLabels_id [OF c] show ?thesis
    by (auto simp: e' EntityLabels_def entityUnmarshalLabels_def SetEntityLabels_def Let_def)
qed

theorem SetEntityLabels_roundtrip_witness:
  "EntityLabels (zero_Entity\<lparr>ent_Fields := fmap_of_list
      [(ReservedLabelsField, VSlice (Some [VString ''db'', VString ''prod'']))]\<rparr>) =
   sorted_list_of_set (TrimSpace ` set ['' prod'', ''db'', ''prod''])"
proof -
  have "SetEntityLabels zero_Entity ['' prod'', ''db'', ''prod''] =
    Inr (zero_Entity\<lparr>ent_Fields := fmap_of_list
      [(ReservedLabelsField, VSlice (Some [VString ''db'', VString ''prod'']))]\<rparr>)"
    by code_simp
  from SetEntityLabels_roundtrip [OF this] show ?thesis by blast
qed

section \<open>Preparing a prepared entity\<close>

lemma starts_in_ascii:
  "\<forall>r \<in> set rs. 128 \<le> fst r \<Longrightarrow> starts_in rs (s @ ''!'') \<longleftrightarrow> starts_in rs s"
proof (induction rs arbitrary: s)
  case (Cons r rs)
  then show ?case by (cases s) auto
qed simp

lemma utf8_forms_continuation: "\<forall>f \<in> set utf8_forms. \<forall>r \<in> set (tl f). 128 \<le> fst r"
  by code_simp

lemma starts_in_form_ascii:
  assumes "f \<in> set utf8_forms" and "s \<noteq> []"
  shows "starts_in f (s @ ''!'') \<longleftrightarrow> starts_in f s"
proof -
  obtain r rs where f: "f = r # rs" using utf8_forms_disjoint(2) assms(1) by (metis neq_Nil_conv)
  then have "\<forall>r \<in> set rs. 128 \<le> fst r" using utf8_forms_continuation assms(1) by force
  with starts_in_ascii [of rs] assms(2) show ?thesis by (cases s) (auto simp: f)
qed

lemma utf8_len_ascii: "s \<noteq> [] \<Longrightarrow> utf8_len (s @ ''!'') = utf8_len s"
  using find_cong [OF refl, of utf8_forms "\<lambda>f. starts_in f (s @ ''!'')" "\<lambda>f. starts_in f s"] starts_in_form_ascii
  by (simp add: utf8_len_def)

lemma utf8_coerce_ascii: "utf8_coerce (s @ ''!'') = utf8_coerce s @ ''!''"
proof (induction s rule: utf8_coerce.induct)
  case (1 s)
  show ?case
  proof (cases "s = []")
    case True
    moreover have "utf8_coerce ''!'' = ''!''" by code_simp
    ultimately show ?thesis by simp
  next
    case False
    then have "Suc 0 - length s = 0" by (cases s) auto
    with False show ?thesis
      using 1 utf8_len_bound [of s] by (simp add: utf8_coerce.simps [of "s @ ''!''"] utf8_coerce.simps [of s] utf8_len_ascii)
  qed
qed

lemma ValidString_ascii [simp]: "ValidString (s @ ''!'') \<longleftrightarrow> ValidString s"
  by (simp add: ValidString_def utf8_coerce_ascii)

lemma normal_fields_sub:
  assumes "normal_fields m" and "json_depth (VMap (Some m)) \<le> d"
    and "\<And>k v. mget z k = Some v \<Longrightarrow> ValidString k \<and> (\<exists>k'. mget m k' = Some v)"
  shows "normal_fields z \<and> json_depth (VMap (Some z)) \<le> d"
proof
  show "normal_fields z" using assms(1,3) unfolding normal_fields_iff by blast
  have "Max (insert 0 (fset (fmran (fmmap json_depth z)))) \<le> Max (insert 0 (fset (fmran (fmmap json_depth m))))"
    using assms(3) by (intro Max_ran_le) blast
  with assms(2) show "json_depth (VMap (Some z)) \<le> d"
    by (simp only: json_depth.simps option.map option.case)
qed

lemma written_unmarked:
  assumes "\<And>k. k \<in> set ks \<Longrightarrow> TrimSpace k \<noteq> [] \<and> \<not> HasSuffix k ''!''" and "distinct ks"
    and "\<And>k. k \<in> set ks \<Longrightarrow> mget (fw_out st) k = None"
  shows "foldM (fieldWrite_step entity flds) st ks =
         Inr (st\<lparr>fw_out := fold (\<lambda>k. fmupd k (mget_or VNil flds k)) ks (fw_out st)\<rparr>)"
  using assms
proof (induction ks arbitrary: st)
  case (Cons k ks)
  then have "fieldWrite_step entity flds st k = Inr (st\<lparr>fw_out := fmupd k (mget_or VNil flds k) (fw_out st)\<rparr>)"
    by (simp add: fieldWrite_step_def parseFieldOverrideMarker_def)
  moreover have "mget (fmupd k (mget_or VNil flds k) (fw_out st)) k' = None" if "k' \<in> set ks" for k'
    using Cons.prems that by auto
  ultimately show ?case using Cons by simp
qed simp

lemma fold_upd_all: "fold (\<lambda>k. fmupd k (mget_or VNil flds k)) (skeys flds) fmempty = flds"
proof (rule fmap_ext)
  fix x
  have "mget (fold (\<lambda>k. fmupd k (mget_or VNil flds k)) ks m) x =
        (if x \<in> set ks then Some (mget_or VNil flds x) else mget m x)" for ks m
    by (induction ks arbitrary: m) auto
  then show "mget (fold (\<lambda>k. fmupd k (mget_or VNil flds k)) (skeys flds) fmempty) x = mget flds x"
    by (cases "mget flds x") (auto simp: fmlookup_dom'_iff mget_or_def)
qed

lemma writeModes_id:
  assumes "\<And>k m. mget modes k = Some m \<Longrightarrow> TrimSpace k = k \<and> k \<noteq> [] \<and> \<not> HasSuffix k ''!'' \<and> m = FieldMergeReplace"
  shows "normalizeFieldWriteModes modes = Inr modes"
proof -
  have "TrimSpace FieldMergeReplace = FieldMergeReplace" by code_simp
  then have step: "writeMode_step out kv = Inr (fmupd (fst kv) (snd kv) out)" if "kv \<in> set (entries modes)" for out kv
    using assms that by (cases kv) (auto simp: writeMode_step_def Let_def FieldMergeReplace_def)
  have "set kvs \<subseteq> set (entries modes) \<Longrightarrow>
        foldM writeMode_step out kvs = Inr (fold (\<lambda>(k, v) m. fmupd k v m) kvs out)" for out kvs
    by (induction kvs arbitrary: out) (auto simp: step)
  from this [of "entries modes" fmempty] have
    "normalizeFieldWriteModes modes = Inr (put_all modes fmempty)"
    by (simp add: normalizeFieldWriteModes_def put_all_def)
  also have "put_all modes fmempty = modes" by (rule fmap_ext) (simp split: option.splits)
  finally show ?thesis .
qed

lemma normalizeFieldWriteModes_replace:
  assumes "normalizeFieldWriteModes values = Inr modes" and "mget modes f = Some m"
  shows "m = FieldMergeReplace"
proof -
  have "\<forall>f m. mget modes f = Some m \<longrightarrow> m = FieldMergeReplace"
  proof (rule foldM_invariant [where I = "\<lambda>ms. \<forall>f m. mget ms f = Some m \<longrightarrow> m = FieldMergeReplace"])
    show "foldM writeMode_step fmempty (entries values) = Inr modes"
      using assms(1) by (simp add: normalizeFieldWriteModes_def)
  qed (auto simp: writeMode_step_def Let_def split: if_splits)
  with assms(2) show ?thesis by blast
qed

text \<open>C19. Preparing an entity a second time changes neither its fields nor its write modes, provided the names of the
  prepared fields are trimmed (\<open>normalizeFieldWriteModes\<close> trims the names of the recorded modes), but it forgets
  the conflicts of the first time: a payload that reaches \<open>normalizeEntity\<close> after
  \<open>PrepareEntityFieldWrites\<close> reports none of its suppressed values.\<close>

theorem prepareEntityFieldWrites_twice:
  assumes "prepareEntityFieldWrites entity = Inr entity'"
    and "\<And>f. f \<in> fset (fmdom (ent_Fields entity')) \<Longrightarrow> TrimSpace f = f"
  shows "prepareEntityFieldWrites entity' = Inr (entity'\<lparr>ent_FieldConflicts := []\<rparr>)"
proof -
  from assms(1) obtain out modes cs where w: "normalizeEntityFieldWrites entity = Inr (out, modes, cs)"
    and e': "ent_Fields entity' = out" "ent_FieldWriteModes entity' = modes"
    by (auto simp: prepareEntityFieldWrites_def)
  then obtain flds requested where n: "normalizeFields (ent_Fields entity) = Inr flds"
    and r: "normalizeFieldWriteModes (ent_FieldWriteModes entity) = Inr requested"
    by (auto simp: normalizeEntityFieldWrites_def)
  note lookup = normalizeEntityFieldWrites_lookup [OF w n r]
  note normal = normalizeFields_normalD [OF n]
  have src: "\<not> HasSuffix k ''!'' \<and> ValidString k \<and> (\<exists>k'. mget flds k' = Some v)" if "mget out k = Some v" for k v
    using that lookup [of k] normal unfolding normal_fields_iff
    by (auto split: option.splits if_splits) (metis ValidString_ascii)
  have names: "TrimSpace k = k \<and> k \<noteq> []" if "mget out k = Some v" for k v
  proof -
    have "TrimSpace k = k" using that assms(2) e' fmdomI by metis
    moreover have "k \<noteq> []" using that lookup [of "[]"] by auto
    ultimately show ?thesis by simp
  qed
  have out: "normalizeFields out = Inr out" 
    using normal_fields_sub [of flds json_max_depth out] normal src names
    by (intro normalizeFields_id) (auto simp: fmlookup_dom_iff)
  have m: "(\<exists>v. mget out k = Some v) \<and> m = FieldMergeReplace" if "mget modes k = Some m" for k m
    using lookup [of k] that normalizeFieldWriteModes_replace [OF r] by (auto split: if_splits option.splits)
  then have modes: "normalizeFieldWriteModes modes = Inr modes"
    using names src by (intro writeModes_id) blast
  have trim: "trimFieldWriteModesToFields modes out = modes"
    using m by (intro fmap_ext) (fastforce simp: trimFieldWriteModesToFields_def mget_or_def FieldMergeReplace_def
        split: option.splits)
  let ?st0 = "\<lparr>fw_out = fmempty, fw_modes = modes, fw_marked = {}, fw_conflicts = []\<rparr>"
  have "TrimSpace k \<noteq> [] \<and> \<not> HasSuffix k ''!''" if "k \<in> set (skeys out)" for k
    using that names src by (auto simp: fmlookup_dom'_iff)
  then have "foldM (fieldWrite_step entity' out) ?st0 (skeys out) = Inr (?st0\<lparr>fw_out := out\<rparr>)"
    using written_unmarked [of "skeys out" ?st0 entity' out] by (simp add: fold_upd_all)
  then have "normalizeEntityFieldWrites entity' = Inr (out, modes, [])"
    by (simp add: normalizeEntityFieldWrites_def e' out modes sortedFieldKeys_def trim)
  then show ?thesis using e' by (simp add: prepareEntityFieldWrites_def)
qed

theorem prepareEntityFieldWrites_twice_witness:
  "\<exists>entity'. prepareEntityFieldWrites
     (zero_Entity\<lparr>ent_Fields := fmap_of_list [(''os'', VString ''linux''), (''os!'', VString ''bsd'')]\<rparr>) = Inr entity' \<and>
     length (ent_FieldConflicts entity') = 1 \<and>
     map_sum id ent_FieldConflicts (prepareEntityFieldWrites entity') = Inr []"
proof -
  let ?r = "prepareEntityFieldWrites
     (zero_Entity\<lparr>ent_Fields := fmap_of_list [(''os'', VString ''linux''), (''os!'', VString ''bsd'')]\<rparr>)"
  have "case ?r of Inl _ \<Rightarrow> False
        | Inr e \<Rightarrow> length (ent_FieldConflicts e) = 1 \<and> (\<forall>f \<in> fset (fmdom (ent_Fields e)). TrimSpace f = f)"
    by code_simp
  then obtain e where e: "?r = Inr e" "length (ent_FieldConflicts e) = 1"
    "\<And>f. f \<in> fset (fmdom (ent_Fields e)) \<Longrightarrow> TrimSpace f = f" by (cases ?r) auto
  from prepareEntityFieldWrites_twice [OF e(1) e(3)] e(1,2) show ?thesis by (intro exI [of _ e]) simp
qed

end
