(* ===== verification/SourcePolicy.thy ===== *)
theory SourcePolicy
  imports FieldWrite "HOL-Library.Product_Lexorder"
begin

text \<open>
  Tenant source policies (\<open>source_policy.go\<close>, \<open>source_policy_alias.go\<close>,
  \<open>source_policy_priority.go\<close>): normalisation of a policy, the priority of a source, the renaming of
  alias fields to canonical ones with the conflicts it suppresses, per-field priorities, and
  \<open>ApplySourcePolicy\<close>, which rewrites a whole mutation batch. \<open>sort.SliceStable\<close> is \<open>sort_key\<close>.
\<close>

section \<open>Normalising a policy\<close>

definition policyItem_step ::
  "string set \<times> SourcePolicyItem list \<Rightarrow> SourcePolicyItem \<Rightarrow> policy_error + string set \<times> SourcePolicyItem list" where
  "policyItem_step = (\<lambda>(seen, items) rawItem.
     let item = rawItem\<lparr>spi_Name := TrimSpace (spi_Name rawItem)\<rparr> in
     if spi_Name item = [] then Inl PolicySourceNameRequired
     else if spi_Name item \<in> seen then Inl (PolicySourceDuplicate (spi_Name item))
     else Inr (insert (spi_Name item) seen, items @ [item]))"

definition ruleKey :: "string \<Rightarrow> string \<Rightarrow> string \<Rightarrow> string" where
  "ruleKey source kind field = source @ [nul] @ kind @ [nul] @ field"

definition aliasEntry_step ::
  "string \<Rightarrow> string \<Rightarrow> string set \<times> (string, string) fmap \<Rightarrow> string \<times> string
     \<Rightarrow> policy_error + string set \<times> (string, string) fmap" where
  "aliasEntry_step source kind = (\<lambda>(seen, aliases) (rawAlias, rawCanonical).
     let alias = TrimSpace rawAlias; canonical = TrimSpace rawCanonical;
         key = ruleKey source kind alias in
     if alias = [] \<or> canonical = [] then Inl PolicyAliasFieldsRequired
     else if alias = canonical then Inr (seen, aliases)
     else if key \<in> seen then Inl (PolicyAliasDuplicate alias source kind)
     else Inr (insert key seen, fmupd alias canonical aliases))"

definition aliasRule_step ::
  "string set \<times> FieldAliasRule list \<Rightarrow> FieldAliasRule \<Rightarrow> policy_error + string set \<times> FieldAliasRule list" where
  "aliasRule_step = (\<lambda>(seen, out) rule.
     let source = TrimSpace (far_Source rule); kind = TrimSpace (far_Kind rule) in
     if source = [] then Inl PolicyAliasSourceRequired
     else rbind (foldM (aliasEntry_step source kind) (seen, fmempty) (entries (far_Aliases rule)))
       (\<lambda>(seen', aliases).
          Inr (seen', if mempty aliases then out
                      else out @ [\<lparr>far_Source = source, far_Kind = kind, far_Aliases = aliases\<rparr>])))"

definition normalizeFieldAliasRules :: "FieldAliasRule list \<Rightarrow> policy_error + FieldAliasRule list" where
  "normalizeFieldAliasRules rules =
     rbind (foldM aliasRule_step ({}, []) rules) (\<lambda>(seen, out).
     Inr (sort_key (\<lambda>rule. (far_Source rule, far_Kind rule)) out))"

definition priorityEntry_step ::
  "string \<Rightarrow> string \<Rightarrow> string set \<times> (string, int) fmap \<Rightarrow> string \<times> int
     \<Rightarrow> policy_error + string set \<times> (string, int) fmap" where
  "priorityEntry_step source kind = (\<lambda>(seen, flds) (rawField, priority).
     let field = TrimSpace rawField; key = ruleKey source kind field in
     if field = [] then Inl PolicyPriorityFieldRequired
     else if key \<in> seen then Inl (PolicyPriorityDuplicate field source kind)
     else Inr (insert key seen, fmupd field priority flds))"

definition priorityRule_step ::
  "string set \<times> FieldPriorityRule list \<Rightarrow> FieldPriorityRule \<Rightarrow> policy_error + string set \<times> FieldPriorityRule list" where
  "priorityRule_step = (\<lambda>(seen, out) rule.
     let source = TrimSpace (fpr_Source rule); kind = TrimSpace (fpr_Kind rule) in
     if source = [] then Inl PolicyPrioritySourceRequired
     else rbind (foldM (priorityEntry_step source kind) (seen, fmempty) (entries (fpr_Fields rule)))
       (\<lambda>(seen', flds).
          Inr (seen', if mempty flds then out
                      else out @ [\<lparr>fpr_Source = source, fpr_Kind = kind, fpr_Fields = flds\<rparr>])))"

definition normalizeFieldPriorityRules :: "FieldPriorityRule list \<Rightarrow> policy_error + FieldPriorityRule list" where
  "normalizeFieldPriorityRules rules =
     rbind (foldM priorityRule_step ({}, []) rules) (\<lambda>(seen, out).
     Inr (sort_key (\<lambda>rule. (fpr_Source rule, fpr_Kind rule)) out))"

definition NormalizeSourcePolicy :: "SourcePolicy \<Rightarrow> policy_error + SourcePolicy" where
  "NormalizeSourcePolicy policy =
     rbind (foldM policyItem_step ({}, []) (sp_Sources policy)) (\<lambda>(seen, items).
     rbind (normalizeFieldAliasRules (sp_FieldAliases policy)) (\<lambda>aliasRules.
     rbind (normalizeFieldPriorityRules (sp_FieldPriorities policy)) (\<lambda>priorityRules.
     Inr (policy\<lparr>sp_Sources := items, sp_FieldAliases := aliasRules,
                 sp_FieldPriorities := priorityRules\<rparr>))))"

section \<open>Priorities\<close>

definition PriorityFor :: "SourcePolicy \<Rightarrow> string \<Rightarrow> int \<Rightarrow> int" where
  "PriorityFor p source fallback =
     (case find (\<lambda>item. spi_Name item = TrimSpace source) (sp_Sources p) of
        Some item \<Rightarrow> spi_Priority item
      | None \<Rightarrow> sp_DefaultPriority p)"

definition applyPolicyToEntity :: "SourcePolicy \<Rightarrow> Entity \<Rightarrow> Entity" where
  "applyPolicyToEntity policy entity =
     (let source = TrimSpace (ent_Source entity) in
      entity\<lparr>ent_Source := source,
             ent_SourceRank := PriorityFor policy source (ent_SourceRank entity),
             ent_Sources :=
               map (\<lambda>s. s\<lparr>es_Source := TrimSpace (es_Source s),
                          es_Priority := PriorityFor policy (TrimSpace (es_Source s)) (es_Priority s)\<rparr>)
                 (ent_Sources entity)\<rparr>)"

definition applyPolicyToEdge :: "SourcePolicy \<Rightarrow> Edge \<Rightarrow> Edge" where
  "applyPolicyToEdge policy edge =
     (let source = TrimSpace (edge_Source edge) in
      edge\<lparr>edge_Source := source,
           edge_SourceRank := PriorityFor policy source (edge_SourceRank edge),
           edge_Sources :=
             map (\<lambda>s. s\<lparr>eds_Source := TrimSpace (eds_Source s),
                        eds_Priority := PriorityFor policy (TrimSpace (eds_Source s)) (eds_Priority s)\<rparr>)
               (edge_Sources edge)\<rparr>)"

definition applyPolicyToEdgeDelete :: "SourcePolicy \<Rightarrow> EdgeDeleteRequest \<Rightarrow> EdgeDeleteRequest" where
  "applyPolicyToEdgeDelete policy request =
     (let source = TrimSpace (edr_Source request) in
      request\<lparr>edr_Source := source,
              edr_SourceRank := PriorityFor policy source (edr_SourceRank request)\<rparr>)"

definition applyPolicyToEntityDelete :: "SourcePolicy \<Rightarrow> EntityDeleteRequest \<Rightarrow> EntityDeleteRequest" where
  "applyPolicyToEntityDelete policy request =
     (let source = TrimSpace (endr_Source request) in
      request\<lparr>endr_Source := source,
              endr_SourceRank := PriorityFor policy source (endr_SourceRank request)\<rparr>)"

definition applyPolicyToSourceStale :: "SourcePolicy \<Rightarrow> SourceStaleRequest \<Rightarrow> SourceStaleRequest" where
  "applyPolicyToSourceStale policy request =
     (let source = TrimSpace (ssr_Source request) in
      request\<lparr>ssr_Source := source,
              ssr_SourceRank := PriorityFor policy source (ssr_SourceRank request)\<rparr>)"

text \<open>The first rule of a list for a source and kind that names the field.\<close>

definition rulePriority :: "FieldPriorityRule list \<Rightarrow> string \<Rightarrow> string \<Rightarrow> string \<Rightarrow> int option" where
  "rulePriority rules source kind field =
     Option.bind
       (find (\<lambda>rule. fpr_Source rule = source \<and> fpr_Kind rule = kind \<and> mget (fpr_Fields rule) field \<noteq> None) rules)
       (\<lambda>rule. mget (fpr_Fields rule) field)"

definition fieldPriorityForEntity :: "SourcePolicy \<Rightarrow> string \<Rightarrow> string \<Rightarrow> string \<Rightarrow> int option" where
  "fieldPriorityForEntity policy rawSource rawKind rawField =
     (let source = TrimSpace rawSource; kind = TrimSpace rawKind; field = TrimSpace rawField in
      if source = [] \<or> field = [] then None
      else case (if kind \<noteq> [] then rulePriority (sp_FieldPriorities policy) source kind field else None) of
             Some priority \<Rightarrow> Some priority
           | None \<Rightarrow> rulePriority (sp_FieldPriorities policy) source [] field)"

definition applyFieldPrioritiesToEntity :: "SourcePolicy \<Rightarrow> Entity \<Rightarrow> Entity" where
  "applyFieldPrioritiesToEntity policy entity =
     (if ent_Source entity = [] \<or> mempty (ent_Fields entity) \<or> sp_FieldPriorities policy = [] then entity
      else fold (\<lambda>field entity'.
             case fieldPriorityForEntity policy (ent_Source entity') (ent_Kind entity') field of
               None \<Rightarrow> entity'
             | Some priority \<Rightarrow>
                 entity'\<lparr>ent_FieldSources :=
                   fmupd field \<lparr>src_Source = ent_Source entity', src_Priority = priority,
                                src_Confidence = ent_Confidence entity', src_Version = 0, src_UpdatedAt = 0\<rparr>
                     (ent_FieldSources entity')\<rparr>)
           (skeys (ent_Fields entity)) entity)"

section \<open>Field aliases\<close>

record fieldAliasValue =
  fav_Alias :: string
  fav_Value :: any
  fav_Mode :: string

definition aliasesForEntity :: "SourcePolicy \<Rightarrow> string \<Rightarrow> string \<Rightarrow> (string, string) fmap" where
  "aliasesForEntity policy rawSource rawKind =
     (let source = TrimSpace rawSource; kind = TrimSpace rawKind;
          apply_rules = (\<lambda>k out.
            fold (\<lambda>rule out. if far_Source rule = source \<and> far_Kind rule = k
                            then put_all (far_Aliases rule) out else out)
              (sp_FieldAliases policy) out);
          out = apply_rules [] fmempty
      in if kind = [] then out else apply_rules kind out)"

definition aliasFieldConflict ::
  "Entity \<Rightarrow> string \<Rightarrow> string \<Rightarrow> any \<Rightarrow> any \<Rightarrow> string \<Rightarrow> FieldConflict" where
  "aliasFieldConflict entity canonical alias existing incoming message =
     zero_FieldConflict
       \<lparr>fc_ResourceType := ''entity'',
        fc_EntityID := ent_ID entity,
        fc_IncomingID := firstNonEmptyString [ent_ExternalID entity, ent_ID entity],
        fc_Field := canonical,
        fc_AliasField := alias,
        fc_ExistingSource := ent_Source entity,
        fc_ExistingPriority := ent_SourceRank entity,
        fc_IncomingSource := ent_Source entity,
        fc_IncomingPriority := ent_SourceRank entity,
        fc_ExistingValue := existing,
        fc_IncomingValue := incoming,
        fc_Message := message\<rparr>"

definition moveAliasFieldSource ::
  "(string, FieldSource) fmap \<Rightarrow> string \<Rightarrow> string \<Rightarrow> (string, FieldSource) fmap" where
  "moveAliasFieldSource values alias canonical =
     (if mget values canonical \<noteq> None then fmdrop alias values
      else case mget values alias of
             None \<Rightarrow> values
           | Some source \<Rightarrow> fmdrop alias (fmupd canonical source values))"

definition moveAliasFieldMode :: "(string, string) fmap \<Rightarrow> string \<Rightarrow> string \<Rightarrow> (string, string) fmap" where
  "moveAliasFieldMode values alias canonical =
     (case mget values alias of
        None \<Rightarrow> values
      | Some mode \<Rightarrow> fmdrop alias (fmupd canonical mode values))"

definition firstMarkedAlias :: "fieldAliasValue list \<Rightarrow> fieldAliasValue option" where
  "firstMarkedAlias values = find (\<lambda>value. fav_Mode value = FieldMergeReplace) values"

definition remapFieldConflicts :: "FieldConflict list \<Rightarrow> (string, string) fmap \<Rightarrow> FieldConflict list" where
  "remapFieldConflicts conflicts aliases =
     map (\<lambda>conflict. case mget aliases (fc_Field conflict) of
                       None \<Rightarrow> conflict
                     | Some canonical \<Rightarrow> conflict\<lparr>fc_Field := canonical\<rparr>) conflicts"

definition alias_value :: "Entity \<Rightarrow> string \<Rightarrow> any \<Rightarrow> fieldAliasValue" where
  "alias_value entity alias value =
     \<lparr>fav_Alias = alias, fav_Value = value,
      fav_Mode = mget_or [] (ent_FieldWriteModes entity) alias\<rparr>"

definition aliasGroups_add ::
  "Entity \<Rightarrow> string \<times> string \<Rightarrow> (string, fieldAliasValue list) fmap \<Rightarrow> (string, fieldAliasValue list) fmap" where
  "aliasGroups_add entity = (\<lambda>(alias, canonical) groups.
     case mget (ent_Fields entity) alias of
       None \<Rightarrow> groups
     | Some value \<Rightarrow> fmupd canonical (mget_or [] groups canonical @ [alias_value entity alias value]) groups)"

definition aliasGroups :: "Entity \<Rightarrow> (string, string) fmap \<Rightarrow> (string, fieldAliasValue list) fmap" where
  "aliasGroups entity aliases = fold (aliasGroups_add entity) (entries aliases) fmempty"

text \<open>The working copies of \<open>applyFieldAliasesToEntity\<close>.\<close>

record alias_state =
  al_fields :: Fields
  al_sources :: "(string, FieldSource) fmap"
  al_modes :: "(string, string) fmap"
  al_conflicts :: "FieldConflict list"

definition dropAlias ::
  "Entity \<Rightarrow> string \<Rightarrow> any \<Rightarrow> string \<Rightarrow> fieldAliasValue \<Rightarrow> alias_state \<Rightarrow> alias_state" where
  "dropAlias entity canonical winner message incoming st =
     st\<lparr>al_fields := fmdrop (fav_Alias incoming) (al_fields st),
        al_sources := fmdrop (fav_Alias incoming) (al_sources st),
        al_modes := fmdrop (fav_Alias incoming) (al_modes st),
        al_conflicts := al_conflicts st @
          (if \<not> DeepEqual winner (fav_Value incoming)
           then [aliasFieldConflict entity canonical (fav_Alias incoming) winner (fav_Value incoming) message]
           else [])\<rparr>"

definition aliasGroup_step ::
  "Entity \<Rightarrow> (string, fieldAliasValue list) fmap \<Rightarrow> string \<Rightarrow> alias_state \<Rightarrow> alias_state" where
  "aliasGroup_step entity groups canonical st =
     (let values = sort_key fav_Alias (mget_or [] groups canonical) in
      case mget (al_fields st) canonical of
        Some canonicalValue \<Rightarrow>
          (case firstMarkedAlias values of
             Some marked \<Rightarrow>
               let st1 = st
                     \<lparr>al_fields := fmupd canonical (fav_Value marked) (fmdrop (fav_Alias marked) (al_fields st)),
                      al_sources := moveAliasFieldSource (al_sources st) (fav_Alias marked) canonical,
                      al_modes := moveAliasFieldMode (al_modes st) (fav_Alias marked) canonical,
                      al_conflicts := al_conflicts st @
                        (if \<not> DeepEqual canonicalValue (fav_Value marked)
                         then [aliasFieldConflict entity canonical canonical (fav_Value marked) canonicalValue
                                 ''incoming canonical field value was ignored because override alias field is present'']
                         else [])\<rparr>
               in fold (dropAlias entity canonical (fav_Value marked)
                          ''incoming alias field value was ignored because another override alias mapped to the same canonical field'')
                    (filter (\<lambda>incoming. fav_Alias incoming \<noteq> fav_Alias marked) values) st1
           | None \<Rightarrow>
               fold (dropAlias entity canonical canonicalValue
                       ''incoming alias field value was ignored because canonical field is present'')
                 values st)
      | None \<Rightarrow>
          (case values of
             [] \<Rightarrow> st
           | chosen # rest \<Rightarrow>
               let st1 = st
                     \<lparr>al_fields := fmdrop (fav_Alias chosen) (fmupd canonical (fav_Value chosen) (al_fields st)),
                      al_sources := moveAliasFieldSource (al_sources st) (fav_Alias chosen) canonical,
                      al_modes := moveAliasFieldMode (al_modes st) (fav_Alias chosen) canonical\<rparr>
               in fold (dropAlias entity canonical (fav_Value chosen)
                          ''incoming alias field value was ignored because another alias mapped to the same canonical field'')
                    rest st1))"

definition applyFieldAliasesToEntity :: "SourcePolicy \<Rightarrow> Entity \<Rightarrow> Entity \<times> FieldConflict list" where
  "applyFieldAliasesToEntity policy entity =
     (let aliases = aliasesForEntity policy (ent_Source entity) (ent_Kind entity);
          groups = aliasGroups entity aliases in
      if ent_Source entity = [] \<or> mempty (ent_Fields entity) \<or> sp_FieldAliases policy = [] \<or>
         mempty aliases \<or> mempty groups
      then (entity, [])
      else
        let st = fold (aliasGroup_step entity groups) (skeys groups)
                   \<lparr>al_fields = ent_Fields entity, al_sources = ent_FieldSources entity,
                    al_modes = ent_FieldWriteModes entity, al_conflicts = []\<rparr>
        in (entity\<lparr>ent_Fields := al_fields st,
                   ent_FieldConflicts := remapFieldConflicts (ent_FieldConflicts entity) aliases,
                   ent_FieldSources := al_sources st,
                   ent_FieldWriteModes := trimFieldWriteModesToFields (al_modes st) (al_fields st)\<rparr>,
            al_conflicts st))"

section \<open>Applying a policy to a batch\<close>

definition policyEntity :: "SourcePolicy \<Rightarrow> Entity \<Rightarrow> Entity \<times> FieldConflict list" where
  "policyEntity policy entity =
     (let (entity', conflicts) =
            applyFieldAliasesToEntity policy (applyPolicyToEntity policy (entity\<lparr>ent_FieldSources := fmempty\<rparr>))
      in (applyFieldPrioritiesToEntity policy entity', conflicts))"

definition ApplySourcePolicy :: "Mutations \<Rightarrow> SourcePolicy \<Rightarrow> error + Mutations \<times> ApplyReport" where
  "ApplySourcePolicy mutations rawPolicy =
     (if mu_UpsertEntities mutations = [] \<and> mu_SplitEntities mutations = [] \<and>
         mu_UpsertEdges mutations = [] \<and> mu_DeleteEdgeRequests mutations = [] \<and>
         mu_DeleteEntityRequests mutations = [] \<and> mu_MarkSourceStale mutations = []
      then Inr (mutations, zero_ApplyReport)
      else
        rbind (map_sum ValueError id (PrepareEntityFieldWrites mutations)) (\<lambda>prepared.
        rbind (map_sum PolicyError id (NormalizeSourcePolicy rawPolicy)) (\<lambda>policy.
        let upserts = map (policyEntity policy) (mu_UpsertEntities prepared);
            splits = map (\<lambda>split. map (policyEntity policy) (sr_Entities split)) (mu_SplitEntities prepared)
        in Inr (prepared
                  \<lparr>mu_UpsertEntities := map fst upserts,
                   mu_SplitEntities :=
                     map2 (\<lambda>split es. split\<lparr>sr_Entities := map fst es\<rparr>) (mu_SplitEntities prepared) splits,
                   mu_DeleteEntityRequests :=
                     map (applyPolicyToEntityDelete policy) (mu_DeleteEntityRequests prepared),
                   mu_MarkSourceStale := map (applyPolicyToSourceStale policy) (mu_MarkSourceStale prepared),
                   mu_UpsertEdges := map (applyPolicyToEdge policy) (mu_UpsertEdges prepared),
                   mu_DeleteEdgeRequests :=
                     map (applyPolicyToEdgeDelete policy) (mu_DeleteEdgeRequests prepared)\<rparr>,
                zero_ApplyReport
                  \<lparr>ar_Suppressed := concat (map snd upserts) @ concat (map (concat \<circ> map snd) splits)\<rparr>))))"

section \<open>Aliases lose no value silently\<close>

lemma aliasGroups_fold:
  "set (mget_or [] (fold (aliasGroups_add entity) kvs g) c) =
   set (mget_or [] g c) \<union> {alias_value entity a v | a v. (a, c) \<in> set kvs \<and> mget (ent_Fields entity) a = Some v}"
proof (induction kvs arbitrary: g)
  case (Cons kv kvs)
  obtain a c' where kv: "kv = (a, c')" by (cases kv)
  have "set (mget_or [] (aliasGroups_add entity (a, c') g) c) =
        set (mget_or [] g c) \<union> {alias_value entity a v | v. c' = c \<and> mget (ent_Fields entity) a = Some v}"
    by (auto simp: aliasGroups_add_def split: option.splits if_splits)
  then show ?case unfolding fold_simps kv Cons by auto
qed simp

lemma aliasGroups_set:
  "set (mget_or [] (aliasGroups entity aliases) c) =
     {alias_value entity a v | a v. mget aliases a = Some c \<and> mget (ent_Fields entity) a = Some v}"
  unfolding aliasGroups_def aliasGroups_fold set_entries by (simp add: mget_or_def)

lemma aliasGroups_dom:
  "mget (aliasGroups entity aliases) c \<noteq> None \<longleftrightarrow> mget_or [] (aliasGroups entity aliases) c \<noteq> []"
proof -
  have "mget g c \<noteq> Some [] \<Longrightarrow> mget (fold (aliasGroups_add entity) kvs g) c \<noteq> Some []" for kvs g
  proof (induction kvs arbitrary: g)
    case (Cons kv kvs)
    then have "mget (aliasGroups_add entity kv g) c \<noteq> Some []"
      by (auto simp: aliasGroups_add_def split: option.splits prod.splits)
    then show ?case using Cons.IH by simp
  qed simp
  from this [of fmempty "entries aliases"] show ?thesis
    by (auto simp: aliasGroups_def mget_or_def split: option.splits)
qed

lemma fold_dropAlias_fields:
  "mget (al_fields (fold (dropAlias entity c w msg) vs st)) f =
     (if f \<in> fav_Alias ` set vs then None else mget (al_fields st) f)"
  by (induction vs arbitrary: st) (auto simp: dropAlias_def)

lemma aliasFieldConflict_simps [simp]:
  "fc_Field (aliasFieldConflict entity c a w v msg) = c"
  "fc_AliasField (aliasFieldConflict entity c a w v msg) = a"
  "fc_ExistingValue (aliasFieldConflict entity c a w v msg) = w"
  "fc_IncomingValue (aliasFieldConflict entity c a w v msg) = v"
  by (simp_all add: aliasFieldConflict_def)

definition reported :: "FieldConflict list \<Rightarrow> string \<Rightarrow> string \<Rightarrow> any \<Rightarrow> any \<Rightarrow> bool" where
  "reported cs c a w v \<longleftrightarrow>
     (\<exists>k \<in> set cs. fc_Field k = c \<and> fc_AliasField k = a \<and> fc_ExistingValue k = w \<and> fc_IncomingValue k = v)"

lemma reported_append [simp]: "reported (cs @ ds) c a w v \<longleftrightarrow> reported cs c a w v \<or> reported ds c a w v"
  by (auto simp: reported_def)

lemma reported_single [simp]:
  "reported [aliasFieldConflict entity c a w v msg] c' a' w' v' \<longleftrightarrow> c' = c \<and> a' = a \<and> w' = w \<and> v' = v"
  by (auto simp: reported_def)

lemma reported_Nil [simp]: "\<not> reported [] c a w v"
  by (simp add: reported_def)

lemma fold_dropAlias_reported:
  "reported (al_conflicts (fold (dropAlias entity c w msg) vs st)) c' a w' v \<longleftrightarrow>
     reported (al_conflicts st) c' a w' v \<or>
     c' = c \<and> w' = w \<and> \<not> DeepEqual w v \<and> (\<exists>x \<in> set vs. fav_Alias x = a \<and> fav_Value x = v)"
  by (induction vs arbitrary: st) (auto simp: dropAlias_def)

text \<open>A value that need not be reported: it is the winner or deeply equal to it.\<close>

definition agrees :: "any \<Rightarrow> any \<Rightarrow> bool" where
  "agrees w v \<longleftrightarrow> v = w \<or> DeepEqual v w"

lemma agrees_refl [simp]: "agrees w w"
  by (simp add: agrees_def)

lemma agrees_equal: "DeepEqual w v \<Longrightarrow> agrees w v" "DeepEqual v w \<Longrightarrow> agrees w v"
  by (simp_all add: agrees_def DeepEqual_sym [of w v])

text \<open>The effect of one group with alias values \<open>vs\<close>: \<open>w\<close> wins the canonical field \<open>c\<close>.\<close>

definition alias_effect ::
  "fieldAliasValue list \<Rightarrow> string \<Rightarrow> alias_state \<Rightarrow> alias_state \<Rightarrow> any \<Rightarrow> bool" where
  "alias_effect vs c st st' w \<longleftrightarrow>
     (\<forall>f. mget (al_fields st') f =
            (if f \<in> fav_Alias ` set vs then None else if f = c then Some w else mget (al_fields st) f)) \<and>
     (\<forall>c' a w' v. reported (al_conflicts st) c' a w' v \<longrightarrow> reported (al_conflicts st') c' a w' v) \<and>
     (\<forall>x \<in> set vs. agrees w (fav_Value x) \<or> reported (al_conflicts st') c (fav_Alias x) w (fav_Value x)) \<and>
     (\<forall>v. mget (al_fields st) c = Some v \<longrightarrow>
        agrees w v \<or> reported (al_conflicts st') c c w v \<and> (\<exists>x \<in> set vs. fav_Mode x = FieldMergeReplace))"

lemma aliasGroup_step_effect:
  assumes "\<And>x. x \<in> set (mget_or [] groups c) \<Longrightarrow> fav_Alias x \<noteq> c" and "mget_or [] groups c \<noteq> []"
    and "\<And>x y. x \<in> set (mget_or [] groups c) \<Longrightarrow> y \<in> set (mget_or [] groups c) \<Longrightarrow>
           fav_Alias x = fav_Alias y \<Longrightarrow> x = y"
  shows "\<exists>w. alias_effect (mget_or [] groups c) c st (aliasGroup_step entity groups c st) w"
proof -
  define vs where "vs = sort_key fav_Alias (mget_or [] groups c)"
  have set_vs: "set (mget_or [] groups c) = set vs" by (simp add: vs_def)
  note defs = alias_effect_def aliasGroup_step_def vs_def [symmetric] Let_def fold_dropAlias_fields fold_dropAlias_reported
  show ?thesis
  proof (cases "mget (al_fields st) c")
    case None
    moreover from assms(2) obtain x xs where vs: "vs = x # xs"
      by (metis neq_Nil_conv set_empty2 set_vs)
    ultimately show ?thesis
      using assms(1) by (intro exI [of _ "fav_Value x"]) (auto simp: defs vs set_vs dest: agrees_equal)
  next
    case (Some v)
    show ?thesis
    proof (cases "firstMarkedAlias vs")
      case None
      with Some assms(1) show ?thesis by (intro exI [of _ v]) (auto simp: defs set_vs dest: agrees_equal)
    next
      case (Some m)
      then have m: "m \<in> set vs" "fav_Mode m = FieldMergeReplace"
        by (auto simp: firstMarkedAlias_def find_Some_iff)
      have other: "\<exists>y\<in>set vs. fav_Alias y \<noteq> fav_Alias m \<and> fav_Alias y = fav_Alias x \<and> fav_Value y = fav_Value x"
        if "x \<in> set vs" "\<not> agrees (fav_Value m) (fav_Value x)" for x
        using that m assms(3) [of x m] by (metis agrees_refl set_vs)
      with \<open>mget (al_fields st) c = Some v\<close> Some assms(1) m show ?thesis
        by (intro exI [of _ "fav_Value m"]) (auto simp: defs set_vs dest: agrees_equal)
    qed
  qed
qed

text \<open>What is true after the alias groups of the canonical fields \<open>G\<close> have been handled.\<close>

definition aliases_done ::
  "Entity \<Rightarrow> (string, string) fmap \<Rightarrow> string set \<Rightarrow> alias_state \<Rightarrow> bool" where
  "aliases_done entity aliases G st \<longleftrightarrow>
     (\<forall>a c v. mget aliases a = Some c \<longrightarrow> mget (ent_Fields entity) a = Some v \<longrightarrow> c \<in> G \<longrightarrow>
        mget (al_fields st) a = None \<and>
        (\<exists>w. mget (al_fields st) c = Some w \<and> (agrees w v \<or> reported (al_conflicts st) c a w v))) \<and>
     (\<forall>c v. mget (ent_Fields entity) c = Some v \<longrightarrow> mget aliases c = None \<longrightarrow>
        (\<exists>w. mget (al_fields st) c = Some w \<and>
             (agrees w v \<or> reported (al_conflicts st) c c w v \<and>
                (\<exists>a. mget aliases a = Some c \<and> mget_or [] (ent_FieldWriteModes entity) a = FieldMergeReplace)))) \<and>
     (\<forall>f. f \<notin> G \<longrightarrow> (\<forall>c. mget aliases f = Some c \<longrightarrow> c \<notin> G) \<longrightarrow> mget (al_fields st) f = mget (ent_Fields entity) f)"

lemma aliasGroup_step_done:
  assumes disj: "\<And>a c. mget aliases a = Some c \<Longrightarrow> mget aliases c = None"
    and G: "c \<notin> G" and c: "mget (aliasGroups entity aliases) c \<noteq> None" and inv: "aliases_done entity aliases G st"
  shows "aliases_done entity aliases (insert c G) (aliasGroup_step entity (aliasGroups entity aliases) c st)"
proof -
  let ?g = "aliasGroups entity aliases"
  have vs: "set (mget_or [] ?g c) =
     {alias_value entity a v | a v. mget aliases a = Some c \<and> mget (ent_Fields entity) a = Some v}"
    by (rule aliasGroups_set)
  have n1: "fav_Alias x \<noteq> c" if "x \<in> set (mget_or [] ?g c)" for x
    using that disj unfolding vs by (fastforce simp: alias_value_def)
  have n2: "mget_or [] ?g c \<noteq> []" using c aliasGroups_dom by blast
  have n3: "x = y" if "x \<in> set (mget_or [] ?g c)" "y \<in> set (mget_or [] ?g c)" "fav_Alias x = fav_Alias y" for x y
    using that unfolding vs by (auto simp: alias_value_def)
  obtain w where eff: "alias_effect (mget_or [] ?g c) c st (aliasGroup_step entity ?g c st) w"
    using aliasGroup_step_effect [OF n1 n2 n3] by blast
  note fields = eff [unfolded alias_effect_def, THEN conjunct1, rule_format]
    and mono = eff [unfolded alias_effect_def, THEN conjunct2, THEN conjunct1, rule_format]
    and val = eff [unfolded alias_effect_def, THEN conjunct2, THEN conjunct2, THEN conjunct1, rule_format]
    and can = eff [unfolded alias_effect_def, THEN conjunct2, THEN conjunct2, THEN conjunct2, rule_format]
  have img: "f \<in> fav_Alias ` set (mget_or [] ?g c) \<longleftrightarrow>
      mget aliases f = Some c \<and> mget (ent_Fields entity) f \<noteq> None" for f
    unfolding vs by (force simp: alias_value_def image_iff)
  from n2 have "set (mget_or [] ?g c) \<noteq> {}" by simp
  then obtain a0 where "mget aliases a0 = Some c" unfolding vs by blast
  then have c_None: "mget aliases c = None" by (rule disj)
  have marked: "\<exists>a. mget aliases a = Some c \<and> mget_or [] (ent_FieldWriteModes entity) a = FieldMergeReplace"
    if "x \<in> set (mget_or [] ?g c)" "fav_Mode x = FieldMergeReplace" for x
    using that unfolding vs by (auto simp: alias_value_def)
  have val': "agrees w v \<or> reported (al_conflicts (aliasGroup_step entity ?g c st)) c a w v"
    if "mget aliases a = Some c" "mget (ent_Fields entity) a = Some v" for a v
    using val [of "alias_value entity a v"] that unfolding vs by (auto simp: alias_value_def)
  have same: "mget (al_fields st) c = mget (ent_Fields entity) c"
    using inv G c_None by (simp add: aliases_done_def)
  note inv' = inv [unfolded aliases_done_def]
  show ?thesis
    unfolding aliases_done_def fields img
  proof (intro conjI allI impI)
    fix a c' v
    assume a: "mget aliases a = Some c'" "mget (ent_Fields entity) a = Some v" "c' \<in> insert c G"
    show "(if mget aliases a = Some c \<and> mget (ent_Fields entity) a \<noteq> None then None
           else if a = c then Some w else mget (al_fields st) a) = None"
      using a inv' c_None by auto
    show "\<exists>w'. (if mget aliases c' = Some c \<and> mget (ent_Fields entity) c' \<noteq> None then None
                else if c' = c then Some w else mget (al_fields st) c') = Some w' \<and>
          (agrees w' v \<or> reported (al_conflicts (aliasGroup_step entity ?g c st)) c' a w' v)"
      using a disj [OF a(1)] val' inv' mono G by auto blast
  next
    fix c' v
    assume a: "mget (ent_Fields entity) c' = Some v" "mget aliases c' = None"
    show "\<exists>w'. (if mget aliases c' = Some c \<and> mget (ent_Fields entity) c' \<noteq> None then None
                else if c' = c then Some w else mget (al_fields st) c') = Some w' \<and>
          (agrees w' v \<or> reported (al_conflicts (aliasGroup_step entity ?g c st)) c' c' w' v \<and>
            (\<exists>a. mget aliases a = Some c' \<and> mget_or [] (ent_FieldWriteModes entity) a = FieldMergeReplace))"
    proof (cases "c' = c")
      case True
      with a can [of v] same marked show ?thesis by (intro exI [of _ w]) auto
    next
      case False
      with a inv' mono show ?thesis by simp blast
    qed
  next
    fix f
    assume "f \<notin> insert c G" "\<forall>c'. mget aliases f = Some c' \<longrightarrow> c' \<notin> insert c G"
    then show "(if mget aliases f = Some c \<and> mget (ent_Fields entity) f \<noteq> None then None
                else if f = c then Some w else mget (al_fields st) f) = mget (ent_Fields entity) f"
      using inv' by auto
  qed
qed

lemma aliasGroups_mempty:
  assumes "mempty (aliasGroups entity aliases)" and "mget aliases a = Some c"
  shows "mget (ent_Fields entity) a = None"
proof -
  have "set (mget_or [] (aliasGroups entity aliases) c) = {}"
    using assms(1) by (simp add: mempty_iff mget_or_def)
  then show ?thesis using assms(2) unfolding aliasGroups_set by (cases "mget (ent_Fields entity) a") auto
qed

lemma aliasesForEntity_no_rules: "sp_FieldAliases policy = [] \<Longrightarrow> aliasesForEntity policy source kind = fmempty"
  by (simp add: aliasesForEntity_def Let_def)

text \<open>C20. Alias renaming loses no value silently. For an entity that names its source, under rules in which no
  alias is itself a canonical name: every alias field of the payload disappears, its canonical field is present afterwards, and it holds the
  alias's value, or a deeply equal one, or the alias is reported as a suppressed conflict with both values; a canonical
  field given in the payload keeps its value unless an alias was marked to override it, which is
  reported; and every other field is untouched.\<close>

theorem applyFieldAliases_reported:
  assumes "applyFieldAliasesToEntity policy entity = (entity', conflicts)"
    and "ent_Source entity \<noteq> []"
    and "aliases = aliasesForEntity policy (ent_Source entity) (ent_Kind entity)"
    and "\<And>a c. mget aliases a = Some c \<Longrightarrow> mget aliases c = None"
  shows "(\<forall>a c v. mget aliases a = Some c \<longrightarrow> mget (ent_Fields entity) a = Some v \<longrightarrow>
            mget (ent_Fields entity') a = None \<and>
            (\<exists>w. mget (ent_Fields entity') c = Some w \<and> (agrees w v \<or> reported conflicts c a w v))) \<and>
         (\<forall>c v. mget (ent_Fields entity) c = Some v \<longrightarrow> mget aliases c = None \<longrightarrow>
            (\<exists>w. mget (ent_Fields entity') c = Some w \<and>
               (agrees w v \<or> reported conflicts c c w v \<and>
                  (\<exists>a. mget aliases a = Some c \<and>
                       mget_or [] (ent_FieldWriteModes entity) a = FieldMergeReplace)))) \<and>
         (\<forall>f. mget aliases f = None \<longrightarrow> (\<forall>a. mget aliases a = Some f \<longrightarrow> mget (ent_Fields entity) a = None) \<longrightarrow>
            mget (ent_Fields entity') f = mget (ent_Fields entity) f)"
proof -
  let ?g = "aliasGroups entity aliases"
  define st0 where "st0 = \<lparr>al_fields = ent_Fields entity, al_sources = ent_FieldSources entity,
                    al_modes = ent_FieldWriteModes entity, al_conflicts = []\<rparr>"
  let ?st = "fold (aliasGroup_step entity ?g) (skeys ?g) st0"
  show ?thesis
  proof (cases "mempty (ent_Fields entity) \<or> sp_FieldAliases policy = [] \<or> mempty aliases \<or> mempty ?g")
    case True
    then have none: "mget aliases a = Some c \<Longrightarrow> mget (ent_Fields entity) a = None" for a c
      using aliasGroups_mempty aliasesForEntity_no_rules by (auto simp: mempty_iff assms(3))
    from True assms(1) have "entity' = entity"
      by (auto simp: applyFieldAliasesToEntity_def Let_def assms(3) [symmetric] split: if_splits)
    then show ?thesis using none by auto
  next
    case False
    with assms(1,2) have e': "ent_Fields entity' = al_fields ?st" "conflicts = al_conflicts ?st"
      by (auto simp: applyFieldAliasesToEntity_def Let_def assms(3) [symmetric] st0_def split: if_splits)
    have inv: "aliases_done entity aliases (set (skeys ?g)) ?st"
    proof (rule fold_processed)
      show "aliases_done entity aliases {} st0" by (auto simp: aliases_done_def st0_def)
    qed (use aliasGroup_step_done assms(4) in \<open>auto simp: fmlookup_dom'_iff\<close>)
    have handled: "c \<in> set (skeys ?g)" if "mget aliases a = Some c" "mget (ent_Fields entity) a = Some v" for a c v
    proof -
      have "alias_value entity a v \<in> set (mget_or [] ?g c)" using that unfolding aliasGroups_set by blast
      then show ?thesis by (cases "mget ?g c") (auto simp: mget_or_def fmlookup_dom'_iff)
    qed
    have present: "\<exists>a v. mget aliases a = Some f \<and> mget (ent_Fields entity) a = Some v" if "f \<in> set (skeys ?g)" for f
    proof -
      from that have "mget_or [] ?g f \<noteq> []" using aliasGroups_dom by (auto simp: fmlookup_dom'_iff)
      then have "set (mget_or [] ?g f) \<noteq> {}" by simp
      then show ?thesis unfolding aliasGroups_set by blast
    qed
    show ?thesis unfolding e'
    proof (intro conjI)
      show "\<forall>f. mget aliases f = None \<longrightarrow> (\<forall>a. mget aliases a = Some f \<longrightarrow> mget (ent_Fields entity) a = None) \<longrightarrow>
              mget (al_fields ?st) f = mget (ent_Fields entity) f"
        using inv [unfolded aliases_done_def, THEN conjunct2, THEN conjunct2] present by fastforce
    qed (use inv [unfolded aliases_done_def] handled in blast)+
  qed
qed

theorem applyFieldAliases_reported_witness:
  "let policy = \<lparr>sp_DefaultPriority = 0, sp_Sources = [],
         sp_FieldAliases = [\<lparr>far_Source = ''scan'', far_Kind = [], far_Aliases = fmap_of_list [(''ip_addr'', ''ip'')]\<rparr>],
         sp_FieldPriorities = []\<rparr>;
       entity = zero_Entity\<lparr>ent_Source := ''scan'', ent_Fields := fmap_of_list [(''ip_addr'', VString ''10.0.0.1'')]\<rparr>
   in mget (ent_Fields (fst (applyFieldAliasesToEntity policy entity))) ''ip_addr'' = None"
proof -
  define policy where "policy = \<lparr>sp_DefaultPriority = 0, sp_Sources = [],
         sp_FieldAliases = [\<lparr>far_Source = ''scan'', far_Kind = [], far_Aliases = fmap_of_list [(''ip_addr'', ''ip'')]\<rparr>],
         sp_FieldPriorities = []\<rparr>"
  define entity where "entity = zero_Entity\<lparr>ent_Source := ''scan'', ent_Fields := fmap_of_list [(''ip_addr'', VString ''10.0.0.1'')]\<rparr>"
  have al: "aliasesForEntity policy (ent_Source entity) (ent_Kind entity) = fmap_of_list [(''ip_addr'', ''ip'')]"
    unfolding policy_def entity_def by code_simp
  obtain e' cs where r: "applyFieldAliasesToEntity policy entity = (e', cs)" by fastforce
  have "mget (ent_Fields e') ''ip_addr'' = None"
    by (rule applyFieldAliases_reported [OF r _ al [symmetric], THEN conjunct1, rule_format, THEN conjunct1, of _ "''ip''" "VString ''10.0.0.1''"])
       (auto simp: entity_def split: if_splits)
  with r show ?thesis unfolding Let_def policy_def entity_def by simp
qed

section \<open>Priorities of a normalised policy\<close>

lemma policyItem_loop:
  assumes "foldM policyItem_step ({}, []) items = Inr (seen, out)"
  shows "out = map (\<lambda>i. i\<lparr>spi_Name := TrimSpace (spi_Name i)\<rparr>) items \<and> distinct (map spi_Name out)"
proof -
  have "foldM policyItem_step (seen0, out0) items = Inr (seen, out) \<Longrightarrow> seen0 = spi_Name ` set out0 \<Longrightarrow>
        distinct (map spi_Name out0) \<Longrightarrow>
        out = out0 @ map (\<lambda>i. i\<lparr>spi_Name := TrimSpace (spi_Name i)\<rparr>) items \<and> distinct (map spi_Name out)" for seen0 out0
    by (induction items arbitrary: seen0 out0) (fastforce simp: policyItem_step_def Let_def split: if_splits)+
  from this [OF assms] show ?thesis by fastforce
qed

lemma find_by_name:
  "distinct (map f xs) \<Longrightarrow> x \<in> set xs \<Longrightarrow> find (\<lambda>y. f y = f x) xs = Some x"
  by (induction xs) (auto simp: rev_image_eqI)

text \<open>A normalised policy gives every listed source exactly its own priority, however the name is
  padded with white space, and every other source the default priority; the fallback rank of a
  request is never used.\<close>

theorem NormalizeSourcePolicy_priorities:
  assumes "NormalizeSourcePolicy policy = Inr policy'"
  shows "distinct (map spi_Name (sp_Sources policy')) \<and>
         (\<forall>item \<in> set (sp_Sources policy). PriorityFor policy' (spi_Name item) fallback = spi_Priority item) \<and>
         (\<forall>source. TrimSpace source \<notin> (TrimSpace \<circ> spi_Name) ` set (sp_Sources policy) \<longrightarrow>
            PriorityFor policy' source fallback = sp_DefaultPriority policy)"
proof -
  let ?trim = "\<lambda>i :: SourcePolicyItem. i\<lparr>spi_Name := TrimSpace (spi_Name i)\<rparr>"
  from assms obtain seen where "foldM policyItem_step ({}, []) (sp_Sources policy) = Inr (seen, sp_Sources policy')"
    and d: "sp_DefaultPriority policy' = sp_DefaultPriority policy"
    by (auto simp: NormalizeSourcePolicy_def)
  from policyItem_loop [OF this(1)] have out: "sp_Sources policy' = map ?trim (sp_Sources policy)"
    and dist: "distinct (map spi_Name (sp_Sources policy'))" by auto
  have "PriorityFor policy' (spi_Name item) fallback = spi_Priority item" if "item \<in> set (sp_Sources policy)" for item
    using find_by_name [OF dist, of "?trim item"] that by (simp add: PriorityFor_def out)
  moreover have "PriorityFor policy' source fallback = sp_DefaultPriority policy"
    if "TrimSpace source \<notin> (TrimSpace \<circ> spi_Name) ` set (sp_Sources policy)" for source
  proof -
    have "find (\<lambda>item. spi_Name item = TrimSpace source) (sp_Sources policy') = None"
      using that by (force simp: find_None_iff out)
    then show ?thesis by (simp add: PriorityFor_def d)
  qed
  ultimately show ?thesis using dist by blast
qed

theorem NormalizeSourcePolicy_priorities_witness:
  "\<exists>policy'. NormalizeSourcePolicy
      \<lparr>sp_DefaultPriority = 1, sp_Sources = [\<lparr>spi_Name = ''cmdb '', spi_Priority = 9, spi_Description = []\<rparr>],
       sp_FieldAliases = [], sp_FieldPriorities = []\<rparr> = Inr policy' \<and>
    PriorityFor policy' ''cmdb'' 0 = 9"
proof -
  let ?p = "\<lparr>sp_DefaultPriority = 1, sp_Sources = [\<lparr>spi_Name = ''cmdb '', spi_Priority = 9, spi_Description = []\<rparr>],
       sp_FieldAliases = [], sp_FieldPriorities = []\<rparr>"
  have "\<not> isl (NormalizeSourcePolicy ?p)" by code_simp
  then obtain p' where p': "NormalizeSourcePolicy ?p = Inr p'" by (cases "NormalizeSourcePolicy ?p") auto
  have "TrimSpace ''cmdb '' = ''cmdb''" "TrimSpace ''cmdb'' = ''cmdb''" by code_simp+
  with NormalizeSourcePolicy_priorities [OF p', of 0] p' show ?thesis by (simp add: PriorityFor_def)
qed

end
