(* ===== verification/Identity.thy ===== *)
theory Identity
  imports SourcePolicy
begin

text \<open>
  Identity of entities (\<open>identity.go\<close>, \<open>entity_canonical.go\<close>): the signatures under which an entity
  can be matched, their length-prefixed tuple encoding and the older delimiter encoding, and the
  canonical identifier derived from a source identity. The methods that consult the graph take the
  CI types and the \<open>legacyIdentity\<close> flag as arguments here.
\<close>

definition IdentityEncodingTuple :: int where
  "IdentityEncodingTuple = 1"

record identitySignature =
  sig_Value :: string
  sig_Strategy :: string

definition identityTuple :: "string list \<Rightarrow> string" where
  "identityTuple parts = concat (map (\<lambda>part. Itoa (int (length part)) @ '':'' @ part) parts)"

text \<open>The scalar keys of the fields of an identity key, \<open>None\<close> when one of them is missing or no scalar.\<close>

definition identityFieldValue :: "Entity \<Rightarrow> string \<Rightarrow> any option" where
  "identityFieldValue entity field =
     (case mget (ent_Identity entity) field of
        Some value \<Rightarrow> Some value
      | None \<Rightarrow> mget (ent_Fields entity) field)"

definition identityScalars :: "Entity \<Rightarrow> IdentityKey \<Rightarrow> (string \<times> string) list option" where
  "identityScalars entity key =
     all_ok_list (map (\<lambda>field. Option.bind (identityFieldValue entity field)
                                (\<lambda>value. map_option (Pair field) (ScalarIndexKey value))) (ik_Fields key))"

definition ciIdentitySignature :: "Entity \<Rightarrow> IdentityKey \<Rightarrow> bool \<Rightarrow> string option" where
  "ciIdentitySignature entity key legacy =
     (case identityScalars entity key of
        None \<Rightarrow> None
      | Some scalars \<Rightarrow>
          if ik_Fields key = [] then None
          else if legacy
          then Some (''rule:'' @ ik_Name key @ ''|'' @ join ''|'' (map (\<lambda>(field, scalar). field @ ''='' @ scalar) scalars))
          else Some (identityTuple ([''rule'', ik_Name key] @ concat (map (\<lambda>(field, scalar). [field, scalar]) scalars))))"

definition CIIdentitySignature :: "Entity \<Rightarrow> IdentityKey \<Rightarrow> string option" where
  "CIIdentitySignature entity key = ciIdentitySignature entity key False"

definition sourceIdentitySignature :: "bool \<Rightarrow> EntitySource \<Rightarrow> identitySignature" where
  "sourceIdentitySignature legacy source =
     \<lparr>sig_Value =
        (if legacy then ''source:'' @ es_Source source @ ''|external_id='' @ es_ExternalID source
         else identityTuple [''source'', es_Source source, es_ExternalID source]),
      sig_Strategy = ''merge''\<rparr>"

definition sourceIdentitySignatures :: "bool \<Rightarrow> EntitySource list \<Rightarrow> identitySignature list" where
  "sourceIdentitySignatures legacy sources = map (sourceIdentitySignature legacy) sources"

definition sortIdentitySignatures :: "identitySignature list \<Rightarrow> identitySignature list" where
  "sortIdentitySignatures signatures = sort_key sig_Value signatures"

definition entityConfidence :: "Entity \<Rightarrow> float64" where
  "entityConfidence entity =
     fold (\<lambda>source best. if fless best (es_Confidence source) then es_Confidence source else best)
       (ent_Sources entity) (ent_Confidence entity)"

definition keySignature :: "bool \<Rightarrow> Entity \<Rightarrow> float64 \<Rightarrow> IdentityKey \<Rightarrow> identitySignature list" where
  "keySignature legacy entity confidence key =
     (if fless (Fin 0) (ik_ConfidenceThreshold key) \<and> fless confidence (ik_ConfidenceThreshold key) then []
      else case ciIdentitySignature entity key legacy of
             None \<Rightarrow> []
           | Some value \<Rightarrow> [\<lparr>sig_Value = value, sig_Strategy = ik_Strategy key\<rparr>])"

definition ciIdentitySignatures ::
  "(string, CIType) fmap \<Rightarrow> bool \<Rightarrow> Entity \<Rightarrow> float64 \<Rightarrow> identitySignature list" where
  "ciIdentitySignatures ciTypes legacy entity confidence =
     (case mget ciTypes (ent_Kind entity) of
        None \<Rightarrow> []
      | Some ciType \<Rightarrow> concat (map (keySignature legacy entity confidence) (ct_IdentityKeys ciType)))"

definition identitySignatures :: "(string, CIType) fmap \<Rightarrow> bool \<Rightarrow> Entity \<Rightarrow> identitySignature list" where
  "identitySignatures ciTypes legacy entity =
     sortIdentitySignatures
       (ciIdentitySignatures ciTypes legacy entity (entityConfidence entity) @
        sourceIdentitySignatures legacy (ent_Sources entity))"

definition zero_EntitySource :: EntitySource where
  "zero_EntitySource =
     \<lparr>es_Source = [], es_ExternalID = [], es_Confidence = Fin 0, es_Priority = 0,
      es_ObservedAt = 0, es_Stale = False, es_StaleAt = 0\<rparr>"

definition lookupIdentitySignatures :: "(string, CIType) fmap \<Rightarrow> bool \<Rightarrow> Entity \<Rightarrow> identitySignature list" where
  "lookupIdentitySignatures ciTypes legacy entity =
     sortIdentitySignatures
       (ciIdentitySignatures ciTypes legacy entity (ent_Confidence entity) @
        (if ent_Source entity \<noteq> [] \<and> ent_ExternalID entity \<noteq> []
         then [sourceIdentitySignature legacy
                 (zero_EntitySource\<lparr>es_Source := ent_Source entity, es_ExternalID := ent_ExternalID entity\<rparr>)]
         else []) @
        sourceIdentitySignatures legacy (ent_Sources entity))"

definition legacyCommitIdentity :: "Commit \<Rightarrow> bool" where
  "legacyCommitIdentity commit \<longleftrightarrow> co_LayoutVersion commit > 0 \<and> co_IdentityEncoding commit = 0"

section \<open>Canonical identifiers\<close>

definition CanonicalEntityIDParts :: "string \<Rightarrow> string \<Rightarrow> string \<Rightarrow> string" where
  "CanonicalEntityIDParts kind source externalID =
     ''entity:'' @ take 32 (hex_digest (sha256
       (TrimSpace kind @ [nul] @ TrimSpace source @ [nul] @ TrimSpace externalID)))"

definition primarySourceIdentity :: "Entity \<Rightarrow> (string \<times> string) option" where
  "primarySourceIdentity entity =
     (if ent_Source entity \<noteq> [] \<and> ent_ExternalID entity \<noteq> []
      then Some (ent_Source entity, ent_ExternalID entity)
      else map_option (\<lambda>source. (es_Source source, es_ExternalID source))
             (find (\<lambda>source. es_Source source \<noteq> [] \<and> es_ExternalID source \<noteq> []) (ent_Sources entity)))"

definition canonicalEntityID :: "Entity \<Rightarrow> string" where
  "canonicalEntityID entity =
     (case primarySourceIdentity entity of
        None \<Rightarrow> []
      | Some (source, externalID) \<Rightarrow> CanonicalEntityIDParts (ent_Kind entity) source externalID)"

definition entityCanonicalization :: "Entity \<Rightarrow> string \<Rightarrow> string \<Rightarrow> EntityCanonicalization" where
  "entityCanonicalization entity incomingID canonicalID =
     (let (source, externalID) =
            (case primarySourceIdentity entity of None \<Rightarrow> ([], []) | Some p \<Rightarrow> p)
      in \<lparr>ec_CanonicalID = canonicalID, ec_IncomingID = incomingID, ec_Kind = ent_Kind entity,
          ec_Source = source, ec_ExternalID = externalID\<rparr>)"

section \<open>Tuple encoding is injective\<close>

definition undigits :: "string \<Rightarrow> int" where
  "undigits s = foldl (\<lambda>acc c. acc * 10 + (of_char c - 48)) 0 s"

lemma of_char_digit: "0 \<le> d \<Longrightarrow> d < 10 \<Longrightarrow> (of_char (digit d) :: int) = 48 + d"
proof -
  assume "0 \<le> d" "d < 10"
  then have "of_char (byte (48 + nat d)) = (48 + nat d) mod (256 :: nat)" by (simp add: of_char_of)
  also have "\<dots> = 48 + nat d" using \<open>d < 10\<close> by simp
  finally have "(of_char (digit d) :: nat) = 48 + nat d" by (simp add: digit_def)
  moreover have "(of_char (digit d) :: int) = int (of_char (digit d))" by (simp add: of_nat_of_char)
  ultimately show ?thesis using \<open>0 \<le> d\<close> by simp
qed

lemma undigits_digits_of: "0 \<le> n \<Longrightarrow> undigits (digits_of n) = n"
proof (induction n rule: digits_of.induct)
  case (1 n)
  show ?case
  proof (cases "n < 10")
    case True
    with "1.prems" show ?thesis by (simp add: digits_of.simps [of n] undigits_def of_char_digit)
  next
    case False
    then have "undigits (digits_of n) = undigits (digits_of (n div 10)) * 10 + (of_char (digit (n mod 10)) - 48)"
      by (simp add: digits_of.simps [of n] undigits_def)
    also have "\<dots> = n" using "1.IH" False by (simp add: of_char_digit)
    finally show ?thesis .
  qed
qed

lemma digit_not_colon: "0 \<le> d \<Longrightarrow> d < 10 \<Longrightarrow> digit d \<noteq> CHR '':''"
proof
  assume "0 \<le> d" "d < 10" "digit d = CHR '':''"
  then have "48 + d = of_char CHR '':''" using of_char_digit by metis
  with \<open>d < 10\<close> show False by simp
qed

lemma digits_of_no_colon: "0 \<le> n \<Longrightarrow> CHR '':'' \<notin> set (digits_of n)"
proof (induction n rule: digits_of.induct)
  case (1 n)
  then show ?case using digit_not_colon [of n] digit_not_colon [of "n mod 10"]
    by (cases "n < 10") (simp_all add: digits_of.simps [of n])
qed

lemma split_at_colon:
  "CHR '':'' \<notin> set a \<Longrightarrow> CHR '':'' \<notin> set b \<Longrightarrow> a @ '':'' @ x = b @ '':'' @ y \<longleftrightarrow> a = b \<and> x = y"
proof (induction a arbitrary: b)
  case Nil
  then show ?case by (cases b) auto
next
  case (Cons c a)
  then show ?case by (cases b) auto
qed

lemma netstring_inj:
  assumes "Itoa (int (length p)) @ '':'' @ p @ x = Itoa (int (length q)) @ '':'' @ q @ y"
  shows "p = q \<and> x = y"
proof -
  have "digits_of (int (length p)) = digits_of (int (length q)) \<and> p @ x = q @ y"
    using assms split_at_colon [OF digits_of_no_colon digits_of_no_colon, of "int (length p)" "int (length q)"]
    by (simp add: Itoa_def)
  then have d: "digits_of (int (length p)) = digits_of (int (length q))" and pq: "p @ x = q @ y"
    by blast+
  have "int (length p) = undigits (digits_of (int (length q)))"
    unfolding d [symmetric] by (simp add: undigits_digits_of)
  then have "length p = length q" by (simp add: undigits_digits_of)
  with pq show ?thesis by (simp add: append_eq_append_conv)
qed

lemma identityTuple_inj [simp]: "identityTuple ps = identityTuple qs \<longleftrightarrow> ps = qs"
proof (induction ps arbitrary: qs)
  case Nil
  then show ?case by (cases qs) (auto simp: identityTuple_def)
next
  case (Cons p ps)
  show ?case
  proof (cases qs)
    case Nil
    then show ?thesis by (auto simp: identityTuple_def)
  next
    case (Cons q qs')
    have cons: "identityTuple (r # rs) = Itoa (int (length r)) @ '':'' @ r @ identityTuple rs" for r rs
      by (simp add: identityTuple_def)
    have "identityTuple (p # ps) = identityTuple (q # qs') \<longleftrightarrow> p = q \<and> identityTuple ps = identityTuple qs'"
      unfolding cons using netstring_inj by blast
    then show ?thesis using Cons.IH by (simp only: Cons list.inject)
  qed
qed

lemma concat_pairs_inj:
  "concat (map (\<lambda>(f, s). [f, s]) xs) = concat (map (\<lambda>(f, s). [f, s]) ys) \<longleftrightarrow> xs = ys"
proof (induction xs arbitrary: ys)
  case Nil
  then show ?case by (cases ys) auto
next
  case (Cons x xs)
  show ?case by (cases ys) (simp_all add: case_prod_beta prod_eq_iff Cons.IH [unfolded case_prod_beta])
qed

text \<open>C13. Matching by the tuple encoding confuses nothing: two identity-key signatures are equal only when
  the key names, the fields and all scalar values agree, two source signatures only when source and
  external id agree, and a source signature never equals an identity-key signature.\<close>

theorem identity_signature_injective:
  shows "ciIdentitySignature e1 k1 False = Some v \<Longrightarrow> ciIdentitySignature e2 k2 False = Some v \<Longrightarrow>
           ik_Name k1 = ik_Name k2 \<and> identityScalars e1 k1 = identityScalars e2 k2 \<and>
           sig_Value (sourceIdentitySignature False s1) \<noteq> v \<and>
           (sig_Value (sourceIdentitySignature False s1) = sig_Value (sourceIdentitySignature False s2) \<longleftrightarrow>
              es_Source s1 = es_Source s2 \<and> es_ExternalID s1 = es_ExternalID s2)"
proof -
  assume "ciIdentitySignature e1 k1 False = Some v" "ciIdentitySignature e2 k2 False = Some v"
  then obtain xs ys where xs: "identityScalars e1 k1 = Some xs" "identityScalars e2 k2 = Some ys"
    and v: "v = identityTuple (''rule'' # ik_Name k1 # concat (map (\<lambda>(f, s). [f, s]) xs))"
      "v = identityTuple (''rule'' # ik_Name k2 # concat (map (\<lambda>(f, s). [f, s]) ys))"
    by (auto simp: ciIdentitySignature_def split: option.splits if_splits)
  from v have "ik_Name k1 = ik_Name k2" "xs = ys" by (auto simp: identityTuple_inj concat_pairs_inj)
  with xs v(1) show ?thesis by (auto simp: sourceIdentitySignature_def identityTuple_inj)
qed

theorem identity_signature_injective_witness:
  "\<exists>v. ciIdentitySignature (zero_Entity\<lparr>ent_Fields := fmap_of_list [(''ip'', VString ''a'')]\<rparr>)
         \<lparr>ik_Name = ''k'', ik_Fields = [''ip''], ik_ConfidenceThreshold = Fin 0, ik_Strategy = []\<rparr> False = Some v \<and>
       sig_Value (sourceIdentitySignature False zero_EntitySource) \<noteq> v"
proof -
  let ?e = "zero_Entity\<lparr>ent_Fields := fmap_of_list [(''ip'', VString ''a'')]\<rparr>"
  let ?k = "\<lparr>ik_Name = ''k'', ik_Fields = [''ip''], ik_ConfidenceThreshold = Fin 0, ik_Strategy = []\<rparr>"
  have "ciIdentitySignature ?e ?k False = Some ''4:rule1:k2:ip3:s:a''" by code_simp
  from identity_signature_injective [OF this this] this show ?thesis by blast
qed

text \<open>The delimiter encoding of older commits is ambiguous: two different source identities have the
  same legacy signature, and the tuple encoding tells them apart.\<close>

lemma legacy_identity_ambiguous:
  "\<exists>s1 s2. es_Source s1 \<noteq> es_Source s2 \<and> es_ExternalID s1 \<noteq> es_ExternalID s2 \<and>
     sourceIdentitySignature True s1 = sourceIdentitySignature True s2 \<and>
     sourceIdentitySignature False s1 \<noteq> sourceIdentitySignature False s2"
proof (intro exI conjI)
  let ?s1 = "zero_EntitySource\<lparr>es_Source := ''a'', es_ExternalID := ''b|external_id=c''\<rparr>"
  let ?s2 = "zero_EntitySource\<lparr>es_Source := ''a|external_id=b'', es_ExternalID := ''c''\<rparr>"
  show "es_Source ?s1 \<noteq> es_Source ?s2" "es_ExternalID ?s1 \<noteq> es_ExternalID ?s2"
    "sourceIdentitySignature True ?s1 = sourceIdentitySignature True ?s2"
    "sourceIdentitySignature False ?s1 \<noteq> sourceIdentitySignature False ?s2"
    by (simp_all add: sourceIdentitySignature_def identityTuple_inj)
qed

end
