(* ===== verification/Json.thy ===== *)
theory Json
  imports Values
begin

text \<open>
  The JSON text that \<open>encoding/json\<close> writes for field values. It hashes values for the comparison by
  \<open>reflect.DeepEqual\<close>; the lemmas at the end say how far the two agree: a value has a text if and only if a
  deeply equal one has, and two values without a negative zero that are deeply equal have the same text.
\<close>

section \<open>JSON text\<close>

text \<open>
  One step of the string encoder: the text for the head of \<open>s\<close> and the rest. Control characters,
  quotes, backslashes and the characters that are special in HTML are escaped; a byte that starts no
  valid UTF-8 sequence becomes the escape of U+FFFD, and U+2028 and U+2029 are escaped.
\<close>

definition json_u :: "int \<Rightarrow> string" where
  "json_u code = [CHR 0x5C] @ ''u'' @ hex_of 4 code"

definition json_ascii :: "char \<Rightarrow> string" where
  "json_ascii c =
     (if c = CHR 0x5C \<or> c = CHR 0x22 then [CHR 0x5C, c]
      else if c = CHR 0x08 then [CHR 0x5C] @ ''b''
      else if c = CHR 0x0C then [CHR 0x5C] @ ''f''
      else if c = CHR 0x0A then [CHR 0x5C] @ ''n''
      else if c = CHR 0x0D then [CHR 0x5C] @ ''r''
      else if c = CHR 0x09 then [CHR 0x5C] @ ''t''
      else if (of_char c :: int) < 32 \<or> c = CHR 0x3C \<or> c = CHR 0x3E \<or> c = CHR 0x26 then json_u (of_char c)
      else [c])"

function json_chars :: "string \<Rightarrow> string" where
  "json_chars s =
     (if s = [] then []
      else if utf8_len s = 0 then json_u 0xFFFD @ json_chars (drop 1 s)
      else if utf8_len s = 1 then json_ascii (hd s) @ json_chars (drop 1 s)
      else if take 3 s = [CHR 0xE2, CHR 0x80, CHR 0xA8] then json_u 0x2028 @ json_chars (drop 3 s)
      else if take 3 s = [CHR 0xE2, CHR 0x80, CHR 0xA9] then json_u 0x2029 @ json_chars (drop 3 s)
      else take (utf8_len s) s @ json_chars (drop (utf8_len s) s))"
  by pat_completeness auto
termination
  by (relation "measure length") auto

declare json_chars.simps [simp del]

definition json_string :: "string \<Rightarrow> string" where
  "json_string s = [CHR 0x22] @ json_chars s @ [CHR 0x22]"

definition json_array :: "string list \<Rightarrow> string" where
  "json_array items = ''['' @ join '','' items @ '']''"

definition json_object :: "(string \<times> string) list \<Rightarrow> string" where
  "json_object members = ''{'' @ join '','' (map (\<lambda>(name, text). json_string name @ '':'' @ text) members) @ ''}''"

definition json_bool :: "bool \<Rightarrow> string" where
  "json_bool b = (if b then ''true'' else ''false'')"

text \<open>\<open>json.Marshal\<close> of an interface value; \<open>None\<close> is an unsupported value (NaN, an infinity).\<close>

primrec json_marshal :: "any \<Rightarrow> string option" where
  "json_marshal VNil = Some ''null''"
| "json_marshal (VBool b) = Some (json_bool b)"
| "json_marshal (VString s) = Some (json_string s)"
| "json_marshal (VFloat f) = fmt_json f"
| "json_marshal (VInt k n) = Some (Itoa n)"
| "json_marshal (VFields m) =
     (case map_option (fmmap json_marshal) m of
        None \<Rightarrow> Some ''null'' | Some os \<Rightarrow> map_option (\<lambda>ts. json_object (entries ts)) (all_ok os))"
| "json_marshal (VMap m) =
     (case map_option (fmmap json_marshal) m of
        None \<Rightarrow> Some ''null'' | Some os \<Rightarrow> map_option (\<lambda>ts. json_object (entries ts)) (all_ok os))"
| "json_marshal (VSlice xs) =
     (case map_option (map json_marshal) xs of
        None \<Rightarrow> Some ''null'' | Some os \<Rightarrow> map_option json_array (all_ok_list os))"
| "json_marshal (VStrings xs) = Some (case xs of None \<Rightarrow> ''null'' | Some ss \<Rightarrow> json_array (map json_string ss))"
| "json_marshal (VInts xs) = Some (case xs of None \<Rightarrow> ''null'' | Some ns \<Rightarrow> json_array (map Itoa ns))"
| "json_marshal (VInt64s xs) = Some (case xs of None \<Rightarrow> ''null'' | Some ns \<Rightarrow> json_array (map Itoa ns))"
| "json_marshal (VFloats xs) =
     (case xs of None \<Rightarrow> Some ''null'' | Some fs \<Rightarrow> map_option json_array (all_ok_list (map fmt_json fs)))"
| "json_marshal (VBools xs) = Some (case xs of None \<Rightarrow> ''null'' | Some bs \<Rightarrow> json_array (map json_bool bs))"

section \<open>JSON text and deep equality\<close>

lemma all_ok_fmmap_None: "all_ok (fmmap f m) = None \<longleftrightarrow> (\<exists>v\<in>fmran' m. f v = None)"
  by (force simp: all_ok_def fmran'_alt_def [symmetric] fmlookup_ran'_iff)

lemma all_ok_list_None: "all_ok_list xs = None \<longleftrightarrow> None \<in> set xs"
  by (auto simp: all_ok_list_def)

lemma has_NaN_fmmap: "True |\<in>| fmran (fmmap has_NaN m) \<longleftrightarrow> (\<exists>v\<in>fmran' m. has_NaN v)"
  by (auto simp: fmlookup_ran_iff fmlookup_ran'_iff)

lemma fmran'_fmmap: "fmran' (fmmap f m) = f ` fmran' m"
  by (auto simp: fmlookup_ran'_iff image_iff)

lemma fmt_json_plus_zero: "fmt_json (plus_zero f) = None \<longleftrightarrow> fmt_json f = None"
  by (simp add: plus_zero_def fmt_json_def Let_def)

lemma fmt_json_NaN: "fmt_json NaN = None"
  by (simp add: fmt_json_def)

lemma json_marshal_plus_zeros: "json_marshal (plus_zeros v) = None \<longleftrightarrow> json_marshal v = None"
proof (induction v)
  case (VFields m)
  then show ?case by (cases m) (auto simp: all_ok_fmmap_None fmran'_fmmap)
next
  case (VMap m)
  then show ?case by (cases m) (auto simp: all_ok_fmmap_None fmran'_fmmap)
next
  case (VSlice xs)
  then show ?case
  proof (cases xs)
    case (Some vs)
    have "None \<in> (\<lambda>v. json_marshal (plus_zeros v)) ` set vs \<longleftrightarrow> None \<in> json_marshal ` set vs"
      unfolding image_iff using VSlice.IH [of vs] Some by (metis option.set_intros)
    with Some show ?thesis by (simp add: all_ok_list_None image_comp comp_def)
  qed simp
next
  case (VFloats xs)
  then show ?case
  proof (cases xs)
    case (Some fs)
    have "None \<in> (\<lambda>f. fmt_json (plus_zero f)) ` set fs \<longleftrightarrow> None \<in> fmt_json ` set fs"
      unfolding image_iff using fmt_json_plus_zero by metis
    with Some show ?thesis by (simp add: all_ok_list_None image_comp comp_def)
  qed simp
qed (simp_all add: fmt_json_plus_zero)

lemma json_marshal_NaN: "has_NaN v \<Longrightarrow> json_marshal v = None"
proof (induction v)
  case (VFields m)
  then show ?case by (cases m) (auto simp: all_ok_fmmap_None has_NaN_fmmap fmran'_alt_def)
next
  case (VMap m)
  then show ?case by (cases m) (auto simp: all_ok_fmmap_None has_NaN_fmmap fmran'_alt_def)
next
  case (VSlice xs)
  then show ?case by (cases xs) (auto simp: all_ok_list_None image_iff, metis)
next
  case (VFloats xs)
  then show ?case by (cases xs) (auto simp: all_ok_list_None image_iff fmt_json_NaN intro: bexI [of _ NaN])
qed (auto simp: fmt_json_NaN)

lemma DeepEqual_marshal: "DeepEqual v w \<Longrightarrow> json_marshal v = None \<longleftrightarrow> json_marshal w = None"
  by (metis DeepEqual_def json_marshal_plus_zeros)

text \<open>
  What the code takes for one value when it looks values up by their scalar key or JSON text first: two scalars with one
  key, or two other values that are deeply equal and have the same text.
\<close>

definition same_value :: "any \<Rightarrow> any \<Rightarrow> bool" where
  "same_value v w \<longleftrightarrow> fieldValuesEqual v w \<and> (ScalarIndexKey w = None \<longrightarrow> json_marshal v = json_marshal w)"

lemma ScalarIndexKey_plus_zeros [simp]: "ScalarIndexKey (plus_zeros v) = ScalarIndexKey v"
  by (cases v) (simp_all add: numericIndexKey_def feq_def plus_zero_def)

lemma DeepEqual_scalar: "DeepEqual v w \<Longrightarrow> ScalarIndexKey v = ScalarIndexKey w"
  by (metis DeepEqual_def ScalarIndexKey_plus_zeros)

lemma fieldValuesEqual_scalar: "ScalarIndexKey w = Some k \<Longrightarrow> fieldValuesEqual v w \<longleftrightarrow> ScalarIndexKey v = Some k"
  using DeepEqual_scalar [of v w] by (auto simp: fieldValuesEqual_def split: option.splits)

lemma fieldValuesEqual_composite: "ScalarIndexKey w = None \<Longrightarrow> fieldValuesEqual v w \<longleftrightarrow> DeepEqual v w"
  by (simp add: fieldValuesEqual_def split: option.splits)

lemma same_value_scalar: "ScalarIndexKey w = Some k \<Longrightarrow> same_value v w \<longleftrightarrow> ScalarIndexKey v = Some k"
  by (simp add: same_value_def fieldValuesEqual_scalar)

lemma same_value_composite: "ScalarIndexKey w = None \<Longrightarrow> same_value v w \<longleftrightarrow> DeepEqual v w \<and> json_marshal v = json_marshal w"
  by (simp add: same_value_def fieldValuesEqual_composite)

lemma same_value_refl: "\<not> has_NaN v \<Longrightarrow> same_value v v"
  by (simp add: same_value_def fieldValuesEqual_refl)

text \<open>Values without a negative zero: the text then tells no more than deep equality.\<close>

definition plain :: "any \<Rightarrow> bool" where
  "plain v \<longleftrightarrow> plus_zeros v = v"

lemma same_value_plain: "plain v \<Longrightarrow> plain w \<Longrightarrow> same_value v w \<longleftrightarrow> fieldValuesEqual v w"
  by (cases "ScalarIndexKey w") (auto simp: same_value_scalar same_value_composite fieldValuesEqual_scalar fieldValuesEqual_composite
      DeepEqual_def plain_def)

end
