(* ===== verification/EntityMerge.thy ===== *)
theory EntityMerge
  imports Identity Json
begin

text \<open>
  Normalisation of incoming entities (\<open>validate.go\<close>), ownership of fields and the merge of an incoming
  entity into a stored one (\<open>field_sources.go\<close>), and the merge of two stored entities
  (\<open>identity.go\<close>). Deep copies are the identity on values. Confidences are compared as in Go: every
  comparison with NaN is false.
\<close>

section \<open>Normalisation\<close>

definition clamp_confidence :: "float64 \<Rightarrow> float64" where
  "clamp_confidence c = (if fless c (Fin 0) \<or> fless (Fin 1) c then Fin 0 else c)"

definition source_key :: "EntitySource \<Rightarrow> string" where
  "source_key source = es_Source source @ [nul] @ es_ExternalID source"

definition normalizeSource_step ::
  "EntitySource \<Rightarrow> string set \<times> EntitySource list \<Rightarrow> string set \<times> EntitySource list" where
  "normalizeSource_step rawSource = (\<lambda>(seen, out).
     let source = rawSource\<lparr>es_Source := TrimSpace (es_Source rawSource),
                            es_ExternalID := TrimSpace (es_ExternalID rawSource)\<rparr> in
     if es_Source source = [] \<or> es_ExternalID source = [] then (seen, out)
     else
       let source' = source\<lparr>es_Confidence := clamp_confidence (es_Confidence source)\<rparr>;
           key = source_key source'
       in if key \<in> seen then (seen, out) else (insert key seen, out @ [source']))"

definition normalizeSources :: "Entity \<Rightarrow> EntitySource list" where
  "normalizeSources entity =
     (let sources =
        (if ent_Sources entity = [] \<and> (ent_Source entity \<noteq> [] \<or> ent_ExternalID entity \<noteq> [])
         then [zero_EntitySource\<lparr>es_Source := ent_Source entity, es_ExternalID := ent_ExternalID entity,
                                 es_Confidence := ent_Confidence entity, es_Priority := ent_SourceRank entity\<rparr>]
         else ent_Sources entity)
      in snd (fold normalizeSource_step sources ({}, [])))"

definition normalizeFieldSources :: "(string, FieldSource) fmap \<Rightarrow> (string, FieldSource) fmap" where
  "normalizeFieldSources sources =
     fold (\<lambda>(rawField, source) out.
             let field = TrimSpace rawField in
             if field = [] then out
             else fmupd field (source\<lparr>src_Source := TrimSpace (src_Source source),
                                      src_Confidence := clamp_confidence (src_Confidence source)\<rparr>) out)
       (entries sources) fmempty"

definition normalizeEntity :: "Entity \<Rightarrow> entity_error + Entity" where
  "normalizeEntity rawEntity =
     (let entity1 = rawEntity\<lparr>ent_ID := TrimSpace (ent_ID rawEntity),
                              ent_Kind := TrimSpace (ent_Kind rawEntity),
                              ent_Source := TrimSpace (ent_Source rawEntity),
                              ent_ExternalID := TrimSpace (ent_ExternalID rawEntity)\<rparr> in
      if ent_Kind entity1 = [] then Inl (EntityRequiresKind (ent_ID entity1))
      else
        let entity2 = entity1\<lparr>ent_Sources := normalizeSources entity1\<rparr> in
        if ent_ID entity2 = [] \<and> ent_Sources entity2 = [] then Inl EntityIdentityRequired
        else
          rbind (map_sum (EntityFields (ent_ID entity2)) id (prepareEntityFieldWrites entity2)) (\<lambda>entity3.
          rbind (map_sum (EntityIdentityKeys (ent_ID entity3)) id (normalizeFields (ent_Identity entity3))) (\<lambda>identity.
          let entity4 = entity3\<lparr>ent_Identity := identity\<rparr> in
          if fless (ent_Confidence entity4) (Fin 0) \<or> fless (Fin 1) (ent_Confidence entity4)
          then Inl (EntityConfidence (ent_ID entity4))
          else Inr (entity4\<lparr>ent_FieldSources := normalizeFieldSources (ent_FieldSources entity4)\<rparr>))))"

definition sanitizeIncomingEntitySources :: "Entity \<Rightarrow> Entity" where
  "sanitizeIncomingEntitySources entity =
     (if ent_Source entity = [] \<or> ent_ExternalID entity = [] then
        (if ent_Source entity = [] \<and> ent_ExternalID entity = [] \<and> length (ent_Sources entity) = 1 then
           let source = hd (ent_Sources entity) in
           entity\<lparr>ent_Source := es_Source source, ent_ExternalID := es_ExternalID source,
                  ent_Confidence := es_Confidence source, ent_SourceRank := es_Priority source\<rparr>
         else entity\<lparr>ent_Sources := []\<rparr>)
      else
        entity\<lparr>ent_Sources :=
          [zero_EntitySource\<lparr>es_Source := ent_Source entity, es_ExternalID := ent_ExternalID entity,
                             es_Confidence := ent_Confidence entity, es_Priority := ent_SourceRank entity\<rparr>]\<rparr>)"

section \<open>Ownership\<close>

definition sourceRankBetter :: "int \<Rightarrow> float64 \<Rightarrow> int \<Rightarrow> float64 \<Rightarrow> bool" where
  "sourceRankBetter incomingPriority incomingConfidence existingPriority existingConfidence =
     (if incomingPriority \<noteq> existingPriority then incomingPriority > existingPriority
      else fless existingConfidence incomingConfidence)"

definition ownerFromEntity :: "Entity \<Rightarrow> int \<Rightarrow> time \<Rightarrow> FieldSource" where
  "ownerFromEntity entity version updatedAt =
     fold (\<lambda>source best.
             if es_Priority source > src_Priority best \<or>
                es_Priority source = src_Priority best \<and> fless (src_Confidence best) (es_Confidence source)
             then best\<lparr>src_Source := es_Source source, src_Priority := es_Priority source,
                       src_Confidence := es_Confidence source\<rparr>
             else best)
       (ent_Sources entity)
       \<lparr>src_Source = ent_Source entity, src_Priority = ent_SourceRank entity,
        src_Confidence = ent_Confidence entity, src_Version = version, src_UpdatedAt = updatedAt\<rparr>"

definition writeOwnerFromEntity :: "Entity \<Rightarrow> int \<Rightarrow> time \<Rightarrow> FieldSource" where
  "writeOwnerFromEntity entity version updatedAt =
     \<lparr>src_Source = ent_Source entity, src_Priority = ent_SourceRank entity,
      src_Confidence = ent_Confidence entity, src_Version = version, src_UpdatedAt = updatedAt\<rparr>"

definition stampFieldSource :: "FieldSource \<Rightarrow> FieldSource \<Rightarrow> FieldSource" where
  "stampFieldSource source fallback =
     source\<lparr>src_Source := (if src_Source source = [] then src_Source fallback else src_Source source),
            src_Version := (if src_Version source = 0 then src_Version fallback else src_Version source),
            src_UpdatedAt := (if src_UpdatedAt source = 0 then src_UpdatedAt fallback else src_UpdatedAt source)\<rparr>"

definition fallbackWithVersion :: "FieldSource \<Rightarrow> int \<Rightarrow> time \<Rightarrow> FieldSource" where
  "fallbackWithVersion source version updatedAt =
     source\<lparr>src_Version := version, src_UpdatedAt := updatedAt\<rparr>"

definition setFieldSource :: "Entity \<Rightarrow> string \<Rightarrow> FieldSource \<Rightarrow> Entity" where
  "setFieldSource entity field source =
     entity\<lparr>ent_FieldSources := fmupd field source (ent_FieldSources entity)\<rparr>"

definition stampFieldSources :: "Entity \<Rightarrow> int \<Rightarrow> time \<Rightarrow> Entity" where
  "stampFieldSources entity version updatedAt =
     (let owner = writeOwnerFromEntity entity version updatedAt in
      fold (\<lambda>field entity'.
              setFieldSource entity' field
                (case mget (ent_FieldSources entity') field of
                   Some source \<Rightarrow> stampFieldSource source owner
                 | None \<Rightarrow> owner))
        (skeys (ent_Fields entity)) (entity\<lparr>ent_ExistenceSource := Some owner\<rparr>))"

definition backfillFieldSources :: "Entity \<Rightarrow> Entity" where
  "backfillFieldSources entity =
     (let owner = ownerFromEntity entity (ent_Version entity) (ent_UpdatedAt entity);
          entity1 = (if ent_ExistenceSource entity = None
                     then entity\<lparr>ent_ExistenceSource := Some owner\<rparr> else entity)
      in fold (\<lambda>field entity'.
                 if mget (ent_FieldSources entity') field = None
                 then setFieldSource entity' field owner else entity')
           (skeys (ent_Fields entity)) entity1)"

definition fieldSourceOrEntityOwner :: "Entity \<Rightarrow> string \<Rightarrow> FieldSource" where
  "fieldSourceOrEntityOwner entity field =
     (case mget (ent_FieldSources entity) field of
        Some source \<Rightarrow> source
      | None \<Rightarrow>
          (case ent_ExistenceSource entity of
             Some source \<Rightarrow> source
           | None \<Rightarrow> ownerFromEntity entity (ent_Version entity) (ent_UpdatedAt entity)))"

definition incomingFieldOwner :: "Entity \<Rightarrow> string \<Rightarrow> FieldSource \<Rightarrow> int \<Rightarrow> time \<Rightarrow> FieldSource" where
  "incomingFieldOwner entity field fallback version updatedAt =
     (case mget (ent_FieldSources entity) field of
        None \<Rightarrow> fallback
      | Some source \<Rightarrow> stampFieldSource source (fallbackWithVersion fallback version updatedAt))"

definition incomingCanOverwrite :: "FieldSource \<Rightarrow> FieldSource \<Rightarrow> bool" where
  "incomingCanOverwrite existing incoming =
     (if src_Priority incoming \<noteq> src_Priority existing then src_Priority incoming > src_Priority existing
      else fle (src_Confidence existing) (src_Confidence incoming))"

definition betterFieldSource :: "FieldSource \<Rightarrow> FieldSource \<Rightarrow> FieldSource" where
  "betterFieldSource existing incoming =
     (if src_Priority incoming \<noteq> src_Priority existing
      then (if src_Priority incoming > src_Priority existing then incoming else existing)
      else if fless (src_Confidence existing) (src_Confidence incoming) then incoming else existing)"

section \<open>Merging\<close>

definition effectiveMergeStrategy :: "FieldSpec \<Rightarrow> string" where
  "effectiveMergeStrategy spec = (if spec_MergeStrategy spec = [] then FieldMergeReplace else spec_MergeStrategy spec)"

definition shouldAppendUnique :: "FieldSpec \<Rightarrow> Entity \<Rightarrow> string \<Rightarrow> bool" where
  "shouldAppendUnique spec incoming field \<longleftrightarrow>
     effectiveMergeStrategy spec = FieldMergeAppendUnique \<and>
     mget_or [] (ent_FieldWriteModes incoming) field \<noteq> FieldMergeReplace"

definition arrayContainsValue :: "any list \<Rightarrow> any \<Rightarrow> bool" where
  "arrayContainsValue values value \<longleftrightarrow> list_ex (\<lambda>existing. fieldValuesEqual existing value) values"

text \<open>
  The closure \<open>remember\<close>: the keys of the remembered scalars, and the other remembered values by their JSON text.
\<close>

record remembered =
  rem_scalars :: "string set"
  rem_objects :: "(string, any list) fmap"

definition remember :: "any list \<Rightarrow> remembered \<Rightarrow> any \<Rightarrow> remembered \<times> bool" where
  "remember merged st value =
     (case ScalarIndexKey value of
        Some key \<Rightarrow> (st\<lparr>rem_scalars := insert key (rem_scalars st)\<rparr>, key \<in> rem_scalars st)
      | None \<Rightarrow>
          (case json_marshal value of
             None \<Rightarrow> (st, arrayContainsValue merged value)
           | Some key \<Rightarrow>
               let candidates = mget_or [] (rem_objects st) key in
               if list_ex (\<lambda>previous. DeepEqual previous value) candidates then (st, True)
               else (st\<lparr>rem_objects := fmupd key (candidates @ [value]) (rem_objects st)\<rparr>, False)))"

definition appendUnique_step :: "any \<Rightarrow> any list \<times> remembered \<times> bool \<Rightarrow> any list \<times> remembered \<times> bool" where
  "appendUnique_step value = (\<lambda>(merged, st, changed).
     let (st', known) = remember merged st value in
     if known then (merged, st', changed) else (merged @ [value], st', True))"

definition appendUniqueArrayField :: "any \<Rightarrow> any \<Rightarrow> (any list \<times> bool) option" where
  "appendUniqueArrayField existing incoming =
     (case (existing, incoming) of
        (VSlice existingValues, VSlice incomingValues) \<Rightarrow>
          let old = (case existingValues of None \<Rightarrow> [] | Some xs \<Rightarrow> xs);
              new = (case incomingValues of None \<Rightarrow> [] | Some xs \<Rightarrow> xs);
              st = fold (\<lambda>value st. fst (remember old st value)) old \<lparr>rem_scalars = {}, rem_objects = fmempty\<rparr>;
              (merged, st', changed) = fold appendUnique_step new (old, st, False)
          in Some (merged, changed)
      | _ \<Rightarrow> None)"

definition mergeSource :: "EntitySource \<Rightarrow> EntitySource \<Rightarrow> EntitySource" where
  "mergeSource source old =
     (let new = (if sourceRankBetter (es_Priority source) (es_Confidence source)
                      (es_Priority old) (es_Confidence old) then source
                 else if es_ObservedAt source \<noteq> 0 then old\<lparr>es_ObservedAt := es_ObservedAt source\<rparr>
                 else old)
      in if \<not> es_Stale source then new\<lparr>es_Stale := False, es_StaleAt := 0\<rparr> else new)"

definition mergeSource_step :: "EntitySource \<Rightarrow> EntitySource list \<Rightarrow> EntitySource list" where
  "mergeSource_step source out =
     (case find (\<lambda>i. source_key (out ! i) = source_key source) (rev [0..<length out]) of
        None \<Rightarrow> out @ [source]
      | Some idx \<Rightarrow> out[idx := mergeSource source (out ! idx)])"

text \<open>\<open>seen\<close> maps a key to its last position in \<open>out\<close>.\<close>

definition mergeSources :: "EntitySource list \<Rightarrow> EntitySource list \<Rightarrow> EntitySource list" where
  "mergeSources left right = fold mergeSource_step right left"

definition appendUnique :: "string list \<Rightarrow> string list \<Rightarrow> string list" where
  "appendUnique values more_values = unique_add [] (values @ more_values)"

definition firstNonEmpty :: "string \<Rightarrow> string \<Rightarrow> string" where
  "firstNonEmpty left right = (if left \<noteq> [] then left else right)"

definition maxFloat :: "float64 \<Rightarrow> float64 \<Rightarrow> float64" where
  "maxFloat left right = (if fless right left then left else right)"

definition maxInt :: "int \<Rightarrow> int \<Rightarrow> int" where
  "maxInt left right = (if left > right then left else right)"

definition bestEntitySourceRank :: "Entity \<Rightarrow> int \<times> float64" where
  "bestEntitySourceRank entity =
     fold (\<lambda>source (bestPriority, bestConfidence).
             if sourceRankBetter (es_Priority source) (es_Confidence source) bestPriority bestConfidence
             then (es_Priority source, es_Confidence source) else (bestPriority, bestConfidence))
       (ent_Sources entity) (ent_SourceRank entity, ent_Confidence entity)"

definition entityRankCanOverwrite :: "Entity \<Rightarrow> Entity \<Rightarrow> bool" where
  "entityRankCanOverwrite incoming existing =
     (let (incomingPriority, incomingConfidence) = bestEntitySourceRank incoming;
          (existingPriority, existingConfidence) = bestEntitySourceRank existing
      in if incomingPriority \<noteq> existingPriority then incomingPriority > existingPriority
         else fle existingConfidence incomingConfidence)"

text \<open>The part that the two merges share: identity keys, sources, ranks and merge history.\<close>

definition mergeIdentity :: "Entity \<Rightarrow> Entity \<Rightarrow> Fields \<Rightarrow> Fields" where
  "mergeIdentity existing incoming identity =
     fold (\<lambda>(key, value) identity'.
             if mget identity' key = None \<or> entityRankCanOverwrite incoming existing
             then fmupd key value identity' else identity')
       (entries (ent_Identity incoming)) identity"

definition mergeProvenance :: "Entity \<Rightarrow> Entity \<Rightarrow> Entity \<Rightarrow> Entity" where
  "mergeProvenance existing incoming merged =
     merged\<lparr>ent_Identity := mergeIdentity existing incoming (ent_Identity merged),
            ent_Sources := mergeSources (ent_Sources merged) (ent_Sources incoming),
            ent_Confidence := maxFloat (ent_Confidence existing) (ent_Confidence incoming),
            ent_SourceRank := maxInt (ent_SourceRank existing) (ent_SourceRank incoming),
            ent_Source := firstNonEmpty (ent_Source existing) (ent_Source incoming),
            ent_ExternalID := firstNonEmpty (ent_ExternalID existing) (ent_ExternalID incoming),
            ent_MergedFrom :=
              appendUnique
                (if ent_ID incoming \<noteq> [] \<and> ent_ID incoming \<noteq> ent_ID existing
                 then appendUnique (ent_MergedFrom merged) [ent_ID incoming] else ent_MergedFrom merged)
                (ent_MergedFrom incoming)\<rparr>"

definition put_field :: "Entity \<Rightarrow> string \<Rightarrow> any \<Rightarrow> FieldSource \<Rightarrow> Entity" where
  "put_field entity field value source =
     setFieldSource (entity\<lparr>ent_Fields := fmupd field value (ent_Fields entity)\<rparr>) field source"

definition mergeSpecs_step ::
  "Entity \<Rightarrow> Entity \<Rightarrow> (string, FieldSpec) fmap \<Rightarrow> string \<times> any \<Rightarrow> Entity \<Rightarrow> Entity" where
  "mergeSpecs_step existing incoming fieldSpecs = (\<lambda>(key, value) merged.
     let replace =
           (if mget (ent_Fields merged) key = None \<or> entityRankCanOverwrite incoming existing
            then put_field merged key value (fieldSourceOrEntityOwner incoming key) else merged)
     in if shouldAppendUnique (mget_or zero_FieldSpec fieldSpecs key) incoming key
        then (case mget (ent_Fields merged) key of
                None \<Rightarrow> replace
              | Some current \<Rightarrow>
                  (case appendUniqueArrayField current value of
                     None \<Rightarrow> replace
                   | Some (mergedValue, changed) \<Rightarrow>
                       if changed
                       then put_field merged key (VSlice (Some mergedValue))
                              (betterFieldSource (fieldSourceOrEntityOwner merged key)
                                 (fieldSourceOrEntityOwner incoming key))
                       else merged))
        else replace)"

definition mergeEntityWithSpecs :: "Entity \<Rightarrow> Entity \<Rightarrow> (string, FieldSpec) fmap \<Rightarrow> Entity" where
  "mergeEntityWithSpecs existing rawIncoming fieldSpecs =
     (let incoming = backfillFieldSources rawIncoming;
          merged = fold (mergeSpecs_step existing incoming fieldSpecs) (entries (ent_Fields incoming))
                     (backfillFieldSources existing)
      in clearEntityWriteMetadata (mergeProvenance existing incoming merged))"

definition upsertConflict ::
  "string \<Rightarrow> string \<Rightarrow> string \<Rightarrow> FieldSource \<Rightarrow> FieldSource \<Rightarrow> any \<Rightarrow> any \<Rightarrow> string \<Rightarrow> FieldConflict" where
  "upsertConflict targetID incomingID field existingOwner fieldOwner current value message =
     zero_FieldConflict
       \<lparr>fc_ResourceType := ''entity'',
        fc_EntityID := targetID,
        fc_IncomingID := incomingID,
        fc_Field := field,
        fc_ExistingSource := src_Source existingOwner,
        fc_ExistingPriority := src_Priority existingOwner,
        fc_IncomingSource := src_Source fieldOwner,
        fc_IncomingPriority := src_Priority fieldOwner,
        fc_ExistingValue := current,
        fc_IncomingValue := value,
        fc_Message := message\<rparr>"

definition mergeUpsert_step ::
  "Entity \<Rightarrow> string \<Rightarrow> (string, FieldSpec) fmap \<Rightarrow> int \<Rightarrow> time \<Rightarrow> string \<times> any
     \<Rightarrow> Entity \<times> FieldConflict list \<Rightarrow> Entity \<times> FieldConflict list" where
  "mergeUpsert_step incoming targetID fieldSpecs version updatedAt = (\<lambda>(field, value) (merged, suppressed).
     let incomingID = firstNonEmpty (ent_ExternalID incoming) (ent_ID incoming);
         fieldOwner = incomingFieldOwner incoming field (writeOwnerFromEntity incoming version updatedAt) version updatedAt;
         overwrite = (put_field merged field value fieldOwner, suppressed);
         append = shouldAppendUnique (mget_or zero_FieldSpec fieldSpecs field) incoming field
     in case mget (ent_Fields merged) field of
          None \<Rightarrow> overwrite
        | Some current \<Rightarrow>
            let existingOwner = fieldSourceOrEntityOwner merged field;
                suppress = (\<lambda>message. (merged, suppressed @
                  [upsertConflict targetID incomingID field existingOwner fieldOwner current value message]));
                by_rank =
                  (if isEmptyFieldValue value
                   then suppress ''incoming empty field value was ignored because upsert does not clear existing values''
                   else if incomingCanOverwrite existingOwner fieldOwner then overwrite
                   else if DeepEqual current value then (merged, suppressed)
                   else suppress ''incoming field value was ignored because source priority is lower'')
            in if isEmptyFieldValue current then overwrite
               else if append
               then (case appendUniqueArrayField current value of
                       None \<Rightarrow> by_rank
                     | Some (mergedValue, changed) \<Rightarrow>
                         if changed
                         then (put_field merged field (VSlice (Some mergedValue))
                                 (betterFieldSource existingOwner fieldOwner), suppressed)
                         else (merged, suppressed))
               else by_rank)"

definition mergeEntityForUpsert ::
  "Entity \<Rightarrow> Entity \<Rightarrow> string \<Rightarrow> (string, FieldSpec) fmap \<Rightarrow> int \<Rightarrow> time \<Rightarrow> Entity \<times> ApplyReport" where
  "mergeEntityForUpsert existing incoming targetID fieldSpecs version updatedAt =
     (let (merged, suppressed) =
            fold (mergeUpsert_step incoming targetID fieldSpecs version updatedAt)
              (entries (ent_Fields incoming)) (backfillFieldSources existing, [])
      in (clearEntityWriteMetadata ((mergeProvenance existing incoming merged)\<lparr>ent_ID := targetID\<rparr>),
          zero_ApplyReport\<lparr>ar_Suppressed := suppressed\<rparr>))"

section \<open>What an upsert does to each field\<close>

lemma put_field_simps [simp]:
  "ent_Fields (put_field m f v s) = fmupd f v (ent_Fields m)"
  "ent_FieldSources (put_field m f v s) = fmupd f s (ent_FieldSources m)"
  by (simp_all add: put_field_def setFieldSource_def)

lemma fieldSourceOrEntityOwner_put_other:
  "g \<noteq> f \<Longrightarrow> fieldSourceOrEntityOwner (put_field m f v s) g = fieldSourceOrEntityOwner m g"
  by (simp add: fieldSourceOrEntityOwner_def put_field_def setFieldSource_def ownerFromEntity_def split: option.splits)

text \<open>The effect of one iteration depends on the merged entity only through the field it is about.\<close>

definition same_field :: "string \<Rightarrow> Entity \<Rightarrow> Entity \<Rightarrow> bool" where
  "same_field f m m' \<longleftrightarrow>
     mget (ent_Fields m) f = mget (ent_Fields m') f \<and>
     mget (ent_FieldSources m) f = mget (ent_FieldSources m') f \<and>
     fieldSourceOrEntityOwner m f = fieldSourceOrEntityOwner m' f"

lemma same_field_refl [simp]: "same_field f m m"
  by (simp add: same_field_def)

lemma same_field_trans: "same_field f m m' \<Longrightarrow> same_field f m' m'' \<Longrightarrow> same_field f m m''"
  by (simp add: same_field_def)

lemma same_field_put: "same_field f m m' \<Longrightarrow> same_field f (put_field m f v s) (put_field m' f v s)"
  by (simp add: same_field_def fieldSourceOrEntityOwner_def)

lemma same_field_put_other: "g \<noteq> f \<Longrightarrow> same_field g (put_field m f v s) m"
  by (simp add: same_field_def fieldSourceOrEntityOwner_put_other)

definition upsert_decision ::
  "Entity \<Rightarrow> string \<Rightarrow> (string, FieldSpec) fmap \<Rightarrow> int \<Rightarrow> time \<Rightarrow> string \<Rightarrow> any \<Rightarrow> any option \<Rightarrow> FieldSource
     \<Rightarrow> (any \<times> FieldSource) option \<times> FieldConflict list" where
  "upsert_decision incoming t specs ver now f v cur own =
     (let owner = incomingFieldOwner incoming f (writeOwnerFromEntity incoming ver now) ver now;
          report = (\<lambda>old msg. [upsertConflict t (firstNonEmpty (ent_ExternalID incoming) (ent_ID incoming)) f own owner old v msg]) in
      case cur of
        None \<Rightarrow> (Some (v, owner), [])
      | Some old \<Rightarrow>
          if isEmptyFieldValue old then (Some (v, owner), [])
          else
            case (if shouldAppendUnique (mget_or zero_FieldSpec specs f) incoming f
                  then appendUniqueArrayField old v else None) of
              Some (xs, changed) \<Rightarrow> (if changed then Some (VSlice (Some xs), betterFieldSource own owner) else None, [])
            | None \<Rightarrow>
                if isEmptyFieldValue v
                then (None, report old ''incoming empty field value was ignored because upsert does not clear existing values'')
                else if incomingCanOverwrite own owner then (Some (v, owner), [])
                else if DeepEqual old v then (None, [])
                else (None, report old ''incoming field value was ignored because source priority is lower''))"

definition put_decision :: "Entity \<Rightarrow> string \<Rightarrow> (any \<times> FieldSource) option \<Rightarrow> Entity" where
  "put_decision m f d = (case d of None \<Rightarrow> m | Some (v, s) \<Rightarrow> put_field m f v s)"

lemma mergeUpsert_step_decision:
  "mergeUpsert_step incoming t specs ver now (f, v) (m, cs) =
     (let (d, new) = upsert_decision incoming t specs ver now f v (mget (ent_Fields m) f) (fieldSourceOrEntityOwner m f)
      in (put_decision m f d, cs @ new))"
proof (cases "mget (ent_Fields m) f")
  case None
  then show ?thesis by (simp add: mergeUpsert_step_def upsert_decision_def put_decision_def Let_def)
next
  case (Some old)
  then show ?thesis
    by (simp add: mergeUpsert_step_def upsert_decision_def put_decision_def Let_def split: option.split prod.split)
qed

lemma same_field_put_decision: "same_field f m m' \<Longrightarrow> same_field f (put_decision m f d) (put_decision m' f d)"
  by (simp add: put_decision_def same_field_put split: option.split prod.split)

lemma same_field_put_decision_other: "g \<noteq> f \<Longrightarrow> same_field g (put_decision m f d) m"
  by (simp add: put_decision_def same_field_put_other split: option.split prod.split)

lemma mergeUpsert_step_local:
  assumes "mergeUpsert_step incoming t specs ver now (f, v) (m, cs) = (m', cs')"
    and "same_field f m m0"
    and "mergeUpsert_step incoming t specs ver now (f, v) (m0, []) = (m0', cs0')"
  shows "same_field f m' m0' \<and> (\<forall>g. g \<noteq> f \<longrightarrow> same_field g m' m) \<and> cs' = cs @ cs0'"
proof -
  from assms(2) have eq: "mget (ent_Fields m) f = mget (ent_Fields m0) f"
    "fieldSourceOrEntityOwner m f = fieldSourceOrEntityOwner m0 f" by (auto simp: same_field_def)
  obtain d new where d: "upsert_decision incoming t specs ver now f v (mget (ent_Fields m0) f) (fieldSourceOrEntityOwner m0 f) = (d, new)"
    by fastforce
  then have "m' = put_decision m f d" "cs' = cs @ new" "m0' = put_decision m0 f d" "cs0' = new"
    using assms(1,3) by (auto simp: mergeUpsert_step_decision eq)
  then show ?thesis using same_field_put_decision [OF assms(2)] same_field_put_decision_other by simp
qed

definition upsert_field ::
  "Entity \<Rightarrow> Entity \<Rightarrow> string \<Rightarrow> (string, FieldSpec) fmap \<Rightarrow> int \<Rightarrow> time \<Rightarrow> string \<Rightarrow> any \<Rightarrow> Entity \<times> FieldConflict list" where
  "upsert_field existing incoming t specs ver now f v =
     mergeUpsert_step incoming t specs ver now (f, v) (backfillFieldSources existing, [])"

lemma mergeUpsert_loop:
  assumes "fold (mergeUpsert_step incoming t specs ver now) (entries flds) (backfillFieldSources existing, []) = (m, cs)"
  shows "(\<forall>f v. mget flds f = Some v \<longrightarrow>
            same_field f m (fst (upsert_field existing incoming t specs ver now f v)) \<and>
            set (snd (upsert_field existing incoming t specs ver now f v)) \<subseteq> set cs) \<and>
         (\<forall>f. mget flds f = None \<longrightarrow> same_field f m (backfillFieldSources existing))"
proof -
  let ?b = "backfillFieldSources existing"
  let ?u = "upsert_field existing incoming t specs ver now"
  define P where "P ks = (\<lambda>(m, cs).
    (\<forall>f v. (f, v) \<in> ks \<longrightarrow> same_field f m (fst (?u f v)) \<and> set (snd (?u f v)) \<subseteq> set cs) \<and>
    (\<forall>f. f \<notin> fst ` ks \<longrightarrow> same_field f m ?b))" for ks :: "(string \<times> any) set"
  have "ks \<union> set kvs \<subseteq> set (entries flds) \<Longrightarrow> distinct kvs \<Longrightarrow> ks \<inter> set kvs = {} \<Longrightarrow> P ks st \<Longrightarrow>
        P (ks \<union> set kvs) (fold (mergeUpsert_step incoming t specs ver now) kvs st)" for ks kvs st
  proof (induction kvs arbitrary: ks st)
    case (Cons kv kvs)
    obtain f v where kv: "kv = (f, v)" by (cases kv)
    obtain m cs where st: "st = (m, cs)" by (cases st)
    obtain m' cs' where step: "mergeUpsert_step incoming t specs ver now (f, v) (m, cs) = (m', cs')" by fastforce
    have fresh: "f \<notin> fst ` ks"
      using Cons.prems(1,3) by (auto simp: kv)
    with Cons.prems(4) have "same_field f m ?b" by (simp add: P_def st)
    from mergeUpsert_step_local [OF step this, of "fst (?u f v)" "snd (?u f v)"]
    have eff: "same_field f m' (fst (?u f v))" "\<And>g. g \<noteq> f \<Longrightarrow> same_field g m' m" "cs' = cs @ snd (?u f v)"
      by (auto simp: upsert_field_def)
    have old: "\<And>g w. (g, w) \<in> ks \<Longrightarrow> same_field g m (fst (?u g w)) \<and> set (snd (?u g w)) \<subseteq> set cs"
      "\<And>g. g \<notin> fst ` ks \<Longrightarrow> same_field g m ?b" using Cons.prems(4) by (auto simp: P_def st)
    have "same_field g m' (fst (?u g w)) \<and> set (snd (?u g w)) \<subseteq> set cs'" if "(g, w) \<in> insert (f, v) ks" for g w
    proof (cases "(g, w) \<in> ks")
      case True
      then have "g \<noteq> f" using fresh by force
      then show ?thesis using old(1) [OF True] eff(2,3) by (auto intro: same_field_trans)
    qed (use that eff in auto)
    moreover have "same_field g m' ?b" if "g \<notin> fst ` insert (f, v) ks" for g
      using that old(2) [of g] eff(2) [of g] by (auto intro: same_field_trans)
    ultimately have "P (insert (f, v) ks) (m', cs')" by (simp add: P_def)
    then have "P (insert (f, v) ks \<union> set kvs) (fold (mergeUpsert_step incoming t specs ver now) kvs (m', cs'))"
      using Cons.prems by (intro Cons.IH) (auto simp: kv)
    then show ?case by (simp add: kv st step)
  qed simp
  from this [of "{}" "entries flds" "(?b, [])"] have "P (set (entries flds)) (m, cs)"
    by (simp add: assms P_def)
  then show ?thesis unfolding P_def by (auto simp: fmlookup_dom'_iff)
qed

lemma backfill_loop:
  "let e' = fold (\<lambda>field e'. if mget (ent_FieldSources e') field = None then setFieldSource e' field owner else e') fs e
   in ent_Fields e' = ent_Fields e \<and>
      (\<forall>f. mget (ent_FieldSources e') f =
             (case mget (ent_FieldSources e) f of
                Some s \<Rightarrow> Some s | None \<Rightarrow> if f \<in> set fs then Some owner else None))"
proof (induction fs arbitrary: e)
  case Nil
  then show ?case by (simp split: option.splits)
next
  case (Cons f fs)
  show ?case
    using Cons [of "if mget (ent_FieldSources e) f = None then setFieldSource e f owner else e"]
    by (auto simp: Let_def setFieldSource_def split: option.splits)
qed

lemma backfill_fields [simp]: "ent_Fields (backfillFieldSources e) = ent_Fields e"
  using backfill_loop [of _ "skeys (ent_Fields e)" "if ent_ExistenceSource e = None then e\<lparr>ent_ExistenceSource := Some x\<rparr> else e" for x]
  by (auto simp: backfillFieldSources_def Let_def)

lemma backfill_source:
  "mget (ent_FieldSources (backfillFieldSources e)) f =
     (case mget (ent_FieldSources e) f of
        Some s \<Rightarrow> Some s
      | None \<Rightarrow> if f \<in> fmdom' (ent_Fields e)
                then Some (ownerFromEntity e (ent_Version e) (ent_UpdatedAt e)) else None)"
  using backfill_loop [of "ownerFromEntity e (ent_Version e) (ent_UpdatedAt e)" "skeys (ent_Fields e)"
      "if ent_ExistenceSource e = None
       then e\<lparr>ent_ExistenceSource := Some (ownerFromEntity e (ent_Version e) (ent_UpdatedAt e))\<rparr> else e"]
  by (auto simp: backfillFieldSources_def Let_def split: option.splits)

text \<open>The owner of a stored field: its recorded source, else the best source of the entity.\<close>

definition field_owner :: "Entity \<Rightarrow> string \<Rightarrow> FieldSource" where
  "field_owner e f =
     (case mget (ent_FieldSources e) f of
        Some s \<Rightarrow> s | None \<Rightarrow> ownerFromEntity e (ent_Version e) (ent_UpdatedAt e))"

lemma field_owner_backfill:
  "mget (ent_Fields e) f = Some v \<Longrightarrow> fieldSourceOrEntityOwner (backfillFieldSources e) f = field_owner e f"
  by (auto simp: fieldSourceOrEntityOwner_def backfill_source field_owner_def fmlookup_dom'_iff split: option.splits)

lemma mergeEntityForUpsert_fields:
  assumes "mergeEntityForUpsert existing incoming t specs ver now = (merged, report)"
  obtains m where "fold (mergeUpsert_step incoming t specs ver now) (entries (ent_Fields incoming))
        (backfillFieldSources existing, []) = (m, ar_Suppressed report)"
    and "ent_Fields merged = ent_Fields m" and "ent_FieldSources merged = ent_FieldSources m"
proof -
  obtain m cs where l: "fold (mergeUpsert_step incoming t specs ver now) (entries (ent_Fields incoming))
        (backfillFieldSources existing, []) = (m, cs)" by fastforce
  with assms have "cs = ar_Suppressed report" "ent_Fields merged = ent_Fields m" "ent_FieldSources merged = ent_FieldSources m"
    by (auto simp: mergeEntityForUpsert_def clearEntityWriteMetadata_def mergeProvenance_def)
  with l that show thesis by blast
qed

lemma mergeEntityForUpsert_decision:
  assumes "mergeEntityForUpsert existing incoming t specs ver now = (merged, report)"
    and "mget (ent_Fields incoming) f = Some v"
    and "upsert_decision incoming t specs ver now f v (mget (ent_Fields existing) f)
           (fieldSourceOrEntityOwner (backfillFieldSources existing) f) = (d, new)"
  shows "mget (ent_Fields merged) f = (case d of None \<Rightarrow> mget (ent_Fields existing) f | Some (w, s) \<Rightarrow> Some w) \<and>
         mget (ent_FieldSources merged) f =
           (case d of None \<Rightarrow> mget (ent_FieldSources (backfillFieldSources existing)) f | Some (w, s) \<Rightarrow> Some s) \<and>
         set new \<subseteq> set (ar_Suppressed report)"
proof -
  obtain m where l: "fold (mergeUpsert_step incoming t specs ver now) (entries (ent_Fields incoming))
        (backfillFieldSources existing, []) = (m, ar_Suppressed report)"
    and m: "ent_Fields merged = ent_Fields m" "ent_FieldSources merged = ent_FieldSources m"
    using assms(1) by (rule mergeEntityForUpsert_fields)
  have u: "upsert_field existing incoming t specs ver now f v = (put_decision (backfillFieldSources existing) f d, new)"
    using assms(3) by (simp add: upsert_field_def mergeUpsert_step_decision)
  have "same_field f m (put_decision (backfillFieldSources existing) f d) \<and> set new \<subseteq> set (ar_Suppressed report)"
    using mergeUpsert_loop [OF l, THEN conjunct1, rule_format, OF assms(2)] by (simp add: u)
  then show ?thesis
    by (auto simp: m same_field_def put_decision_def split: option.splits prod.splits)
qed

lemma upsertConflict_simps [simp]:
  "fc_Field (upsertConflict t i f own owner old v msg) = f"
  "fc_EntityID (upsertConflict t i f own owner old v msg) = t"
  "fc_ExistingValue (upsertConflict t i f own owner old v msg) = old"
  "fc_IncomingValue (upsertConflict t i f own owner old v msg) = v"
  "fc_ExistingSource (upsertConflict t i f own owner old v msg) = src_Source own"
  "fc_IncomingSource (upsertConflict t i f own owner old v msg) = src_Source owner"
  by (simp_all add: upsertConflict_def)

text \<open>C9. Merging an upsert, field by field. A field the stored entity lacks or holds empty takes the incoming value and
  owner. In a field that appends unique values, two arrays are merged by \<open>appendUniqueArrayField\<close>; a change goes to
  the better of the two owners. Every other stored value gives way exactly to a non-empty incoming value whose owner
  has a higher priority, or the same priority and at least the same confidence; otherwise it stays with its owner,
  and unless the two values are deeply equal the suppressed value is reported. A field the request does not name is
  unchanged.\<close>

theorem mergeEntityForUpsert_priority:
  assumes "mergeEntityForUpsert existing incoming t specs ver now = (merged, report)"
    and "owner = incomingFieldOwner incoming f (writeOwnerFromEntity incoming ver now) ver now"
  shows "(case mget (ent_Fields incoming) f of
            None \<Rightarrow> mget (ent_Fields merged) f = mget (ent_Fields existing) f
          | Some new \<Rightarrow>
             (case mget (ent_Fields existing) f of
                None \<Rightarrow> mget (ent_Fields merged) f = Some new \<and> mget (ent_FieldSources merged) f = Some owner
              | Some old \<Rightarrow>
                 if isEmptyFieldValue old
                 then mget (ent_Fields merged) f = Some new \<and> mget (ent_FieldSources merged) f = Some owner
                 else
                   (case (if shouldAppendUnique (mget_or zero_FieldSpec specs f) incoming f
                          then appendUniqueArrayField old new else None) of
                      Some (xs, True) \<Rightarrow>
                        mget (ent_Fields merged) f = Some (VSlice (Some xs)) \<and>
                        mget (ent_FieldSources merged) f = Some (betterFieldSource (field_owner existing f) owner)
                    | Some (xs, False) \<Rightarrow>
                        mget (ent_Fields merged) f = Some old \<and> mget (ent_FieldSources merged) f = Some (field_owner existing f)
                    | None \<Rightarrow>
                    if \<not> isEmptyFieldValue new \<and> incomingCanOverwrite (field_owner existing f) owner
                    then mget (ent_Fields merged) f = Some new \<and> mget (ent_FieldSources merged) f = Some owner
                    else mget (ent_Fields merged) f = Some old \<and>
                         mget (ent_FieldSources merged) f = Some (field_owner existing f) \<and>
                         (\<not> DeepEqual old new \<longrightarrow>
                            (\<exists>c \<in> set (ar_Suppressed report).
                               fc_Field c = f \<and> fc_EntityID c = t \<and> fc_ExistingValue c = old \<and>
                               fc_IncomingValue c = new \<and> fc_ExistingSource c = src_Source (field_owner existing f) \<and>
                               fc_IncomingSource c = src_Source owner)))))"
proof (cases "mget (ent_Fields incoming) f")
  case None
  obtain m where "fold (mergeUpsert_step incoming t specs ver now) (entries (ent_Fields incoming))
        (backfillFieldSources existing, []) = (m, ar_Suppressed report)"
    and m: "ent_Fields merged = ent_Fields m"
    using assms(1) by (rule mergeEntityForUpsert_fields)
  from mergeUpsert_loop [OF this(1)] None have "same_field f m (backfillFieldSources existing)" by blast
  then show ?thesis by (simp add: None m same_field_def)
next
  case (Some new)
  obtain d rep where d: "upsert_decision incoming t specs ver now f new (mget (ent_Fields existing) f)
           (fieldSourceOrEntityOwner (backfillFieldSources existing) f) = (d, rep)" by fastforce
  note dec = mergeEntityForUpsert_decision [OF assms(1) Some d]
  show ?thesis
  proof (cases "mget (ent_Fields existing) f")
    case None
    with d dec show ?thesis by (auto simp: Some upsert_decision_def Let_def assms(2))
  next
    case (Some old)
    have src: "mget (ent_FieldSources (backfillFieldSources existing)) f = Some (field_owner existing f)"
      using Some by (auto simp: backfill_source field_owner_def fmlookup_dom'_iff split: option.splits)
    from d dec Some \<open>mget (ent_Fields incoming) f = Some new\<close> show ?thesis
      by (auto simp: upsert_decision_def Let_def assms(2) field_owner_backfill src
          split: if_splits option.splits prod.splits bool.splits intro: bexI [rotated])
  qed
qed

text \<open>C10. Ownership is monotone: an upsert never hands a non-empty field to an owner of lower priority, nor,
  at the same priority, of lower confidence.\<close>

theorem mergeEntityForUpsert_owner_monotone:
  assumes "mergeEntityForUpsert existing incoming t specs ver now = (merged, report)"
    and "mget (ent_Fields existing) f = Some old" and "\<not> isEmptyFieldValue old"
    and "mget (ent_FieldSources merged) f = Some owner"
  shows "src_Priority (field_owner existing f) \<le> src_Priority owner \<and>
         (src_Priority (field_owner existing f) = src_Priority owner \<longrightarrow>
            \<not> fless (src_Confidence owner) (src_Confidence (field_owner existing f)))"
proof -
  have src: "mget (ent_FieldSources (backfillFieldSources existing)) f = Some (field_owner existing f)"
    using assms(2) by (auto simp: backfill_source field_owner_def fmlookup_dom'_iff split: option.splits)
  show ?thesis
  proof (cases "mget (ent_Fields incoming) f")
    case None
    obtain m where "fold (mergeUpsert_step incoming t specs ver now) (entries (ent_Fields incoming))
          (backfillFieldSources existing, []) = (m, ar_Suppressed report)"
      and m: "ent_FieldSources merged = ent_FieldSources m"
      using assms(1) by (rule mergeEntityForUpsert_fields)
    from mergeUpsert_loop [OF this(1)] None have "same_field f m (backfillFieldSources existing)" by blast
    then have "owner = field_owner existing f" using assms(4) by (simp add: m same_field_def src)
    then show ?thesis by simp
  next
    case (Some new)
    obtain d rep where d: "upsert_decision incoming t specs ver now f new (mget (ent_Fields existing) f)
             (fieldSourceOrEntityOwner (backfillFieldSources existing) f) = (d, rep)" by fastforce
    from mergeEntityForUpsert_decision [OF assms(1) Some d] assms(4)
    have "owner = (case d of None \<Rightarrow> field_owner existing f | Some (w, s) \<Rightarrow> s)"
      by (auto simp: src split: option.splits)
    with d show ?thesis
      using assms(2,3)
      by (auto simp: upsert_decision_def Let_def field_owner_backfill incomingCanOverwrite_def betterFieldSource_def
          dest: fle_fless fless_asym split: if_splits option.splits prod.splits)
  qed
qed

theorem mergeEntityForUpsert_priority_witness:
  "let existing = zero_Entity\<lparr>ent_SourceRank := 5, ent_Fields := fmap_of_list [(''os'', VString ''linux'')]\<rparr>;
       incoming = zero_Entity\<lparr>ent_SourceRank := 3, ent_Fields := fmap_of_list [(''os'', VString ''bsd'')]\<rparr>
   in mget (ent_Fields (fst (mergeEntityForUpsert existing incoming ''e'' fmempty 1 1))) ''os'' = Some (VString ''linux'')"
proof -
  define existing where "existing = zero_Entity\<lparr>ent_SourceRank := 5, ent_Fields := fmap_of_list [(''os'', VString ''linux'')]\<rparr>"
  define incoming where "incoming = zero_Entity\<lparr>ent_SourceRank := 3, ent_Fields := fmap_of_list [(''os'', VString ''bsd'')]\<rparr>"
  obtain merged report where r: "mergeEntityForUpsert existing incoming ''e'' fmempty 1 1 = (merged, report)" by fastforce
  have "mget (ent_Fields merged) ''os'' = Some (VString ''linux'')"
    using mergeEntityForUpsert_priority [OF r refl, of "''os''"]
    by (simp add: existing_def incoming_def zero_Entity_def zero_FieldSpec_def isEmptyFieldValue_def
        shouldAppendUnique_def effectiveMergeStrategy_def FieldMergeReplace_def FieldMergeAppendUnique_def mget_or_def
        incomingCanOverwrite_def field_owner_def ownerFromEntity_def incomingFieldOwner_def writeOwnerFromEntity_def)
  with r show ?thesis unfolding existing_def incoming_def by simp
qed

theorem mergeEntityForUpsert_owner_monotone_witness:
  "let existing = zero_Entity\<lparr>ent_SourceRank := 5, ent_Fields := fmap_of_list [(''os'', VString ''linux'')]\<rparr>;
       incoming = zero_Entity\<lparr>ent_SourceRank := 7, ent_Fields := fmap_of_list [(''os'', VString ''bsd'')]\<rparr>
   in \<exists>owner. mget (ent_FieldSources (fst (mergeEntityForUpsert existing incoming ''e'' fmempty 1 1))) ''os'' = Some owner \<and>
        src_Priority (field_owner existing ''os'') \<le> src_Priority owner"
proof -
  define existing where "existing = zero_Entity\<lparr>ent_SourceRank := 5, ent_Fields := fmap_of_list [(''os'', VString ''linux'')]\<rparr>"
  define incoming where "incoming = zero_Entity\<lparr>ent_SourceRank := 7, ent_Fields := fmap_of_list [(''os'', VString ''bsd'')]\<rparr>"
  obtain merged report where r: "mergeEntityForUpsert existing incoming ''e'' fmempty 1 1 = (merged, report)" by fastforce
  have "mget (ent_FieldSources (fst (mergeEntityForUpsert existing incoming ''e'' fmempty 1 1))) ''os'' \<noteq> None"
    unfolding existing_def incoming_def by code_simp
  then obtain owner where o: "mget (ent_FieldSources merged) ''os'' = Some owner" using r by auto
  have "mget (ent_Fields existing) ''os'' = Some (VString ''linux'')" "\<not> isEmptyFieldValue (VString ''linux'')"
    by (simp_all add: existing_def isEmptyFieldValue_def)
  from mergeEntityForUpsert_owner_monotone [OF r this o] o r show ?thesis unfolding existing_def incoming_def by auto
qed

section \<open>Append-unique arrays\<close>

text \<open>The reference: append each incoming value that is not already there, under an equality of values.\<close>

definition holds :: "(any \<Rightarrow> any \<Rightarrow> bool) \<Rightarrow> any list \<Rightarrow> any \<Rightarrow> bool" where
  "holds eq xs v \<longleftrightarrow> list_ex (\<lambda>x. eq x v) xs"

definition append_missing :: "(any \<Rightarrow> any \<Rightarrow> bool) \<Rightarrow> any list \<Rightarrow> any list \<Rightarrow> any list" where
  "append_missing eq old new = fold (\<lambda>v xs. if holds eq xs v then xs else xs @ [v]) new old"

lemma append_missing_Cons:
  "append_missing eq old (v # new) = append_missing eq (if holds eq old v then old else old @ [v]) new"
  by (simp add: append_missing_def)

lemma append_missing_extends: "\<exists>added. append_missing eq old new = old @ added \<and> set added \<subseteq> set new"
proof (induction new arbitrary: old)
  case (Cons v new)
  from Cons [of old] Cons [of "old @ [v]"] show ?case by (fastforce simp: append_missing_Cons)
qed (simp add: append_missing_def)

lemma holds_append [simp]: "holds eq (xs @ ys) v \<longleftrightarrow> holds eq xs v \<or> holds eq ys v"
  by (simp add: holds_def)

lemma append_missing_holds: "v \<in> set new \<Longrightarrow> eq v v \<Longrightarrow> holds eq (append_missing eq old new) v"
proof (induction new arbitrary: old)
  case (Cons w new)
  let ?old = "if holds eq old w then old else old @ [w]"
  show ?case
  proof (cases "v = w")
    case True
    with Cons.prems(2) have "holds eq ?old w" by (simp add: holds_def)
    moreover obtain added where "append_missing eq ?old new = ?old @ added" using append_missing_extends by blast
    ultimately show ?thesis by (simp add: append_missing_Cons True del: if_split_asm)
  next
    case False
    with Cons show ?thesis by (simp add: append_missing_Cons)
  qed
qed simp

lemma append_missing_known: "(\<And>v. v \<in> set new \<Longrightarrow> holds eq xs v) \<Longrightarrow> append_missing eq xs new = xs"
  by (induction new) (auto simp: append_missing_def)

lemma append_missing_cong:
  "(\<And>v w. v \<in> set old \<union> set new \<Longrightarrow> w \<in> set new \<Longrightarrow> eq v w = eq' v w) \<Longrightarrow> append_missing eq old new = append_missing eq' old new"
proof (induction new arbitrary: old)
  case (Cons w new)
  from Cons.prems have "holds eq old w = holds eq' old w" by (simp add: holds_def list_ex_iff)
  with Cons.IH [of "if holds eq old w then old else old @ [w]"] Cons.prems show ?case by (auto simp: append_missing_Cons)
qed (simp add: append_missing_def)

text \<open>What the closure has remembered of the values \<open>xs\<close>: one representative of each class of equal values with one text.\<close>

definition remembers :: "remembered \<Rightarrow> any list \<Rightarrow> bool" where
  "remembers st xs \<longleftrightarrow>
     rem_scalars st = {k. \<exists>x \<in> set xs. ScalarIndexKey x = Some k} \<and>
     (\<forall>key. \<forall>y \<in> set (mget_or [] (rem_objects st) key). y \<in> set xs \<and> ScalarIndexKey y = None \<and> json_marshal y = Some key) \<and>
     (\<forall>x \<in> set xs. \<forall>key. ScalarIndexKey x = None \<longrightarrow> json_marshal x = Some key \<longrightarrow>
        (\<exists>y \<in> set (mget_or [] (rem_objects st) key). DeepEqual y x))"

lemma marshal_refl: "json_marshal v = Some key \<Longrightarrow> DeepEqual v v"
  using json_marshal_NaN [of v] DeepEqual_refl by fastforce

lemma remember_known:
  assumes "remembers st xs"
  shows "snd (remember xs st v) \<longleftrightarrow> holds same_value xs v"
proof (cases "ScalarIndexKey v")
  case (Some k)
  with assms show ?thesis by (auto simp: remember_def remembers_def holds_def list_ex_iff same_value_scalar)
next
  case None
  note defs = remember_def remembers_def holds_def list_ex_iff arrayContainsValue_def same_value_composite fieldValuesEqual_composite Let_def
  show ?thesis
  proof (cases "json_marshal v")
    case None
    with \<open>ScalarIndexKey v = None\<close> show ?thesis using DeepEqual_marshal [of _ v] by (auto simp: defs)
  next
    case (Some key)
    have "(\<exists>y \<in> set (mget_or [] (rem_objects st) key). DeepEqual y v) \<longleftrightarrow> (\<exists>x \<in> set xs. DeepEqual x v \<and> json_marshal x = Some key)"
    proof
      assume "\<exists>x \<in> set xs. DeepEqual x v \<and> json_marshal x = Some key"
      then obtain x where x: "x \<in> set xs" "DeepEqual x v" "json_marshal x = Some key" by blast
      with None DeepEqual_scalar [OF x(2)] assms obtain y where "y \<in> set (mget_or [] (rem_objects st) key)" "DeepEqual y x"
        unfolding remembers_def by metis
      with x(2) show "\<exists>y \<in> set (mget_or [] (rem_objects st) key). DeepEqual y v" by (meson DeepEqual_trans)
    qed (use assms in \<open>auto simp: remembers_def\<close>)
    with None Some show ?thesis by (auto simp: defs)
  qed
qed

lemma remember_remembers:
  assumes "remembers st xs"
  shows "remembers (fst (remember m st v)) (xs @ [v])"
proof -
  consider (scalar) k where "ScalarIndexKey v = Some k" | (no_text) "ScalarIndexKey v = None" "json_marshal v = None"
    | (composite) key where "ScalarIndexKey v = None" "json_marshal v = Some key"
    by (cases "ScalarIndexKey v"; cases "json_marshal v") auto
  then show ?thesis
  proof cases
    case (composite key)
    let ?c = "mget_or [] (rem_objects st) key"
    show ?thesis
    proof (cases "list_ex (\<lambda>previous. DeepEqual previous v) ?c")
      case True
      with composite assms show ?thesis by (auto simp: remember_def remembers_def list_ex_iff)
    next
      case False
      have "mget_or [] (fmupd key (?c @ [v]) (rem_objects st)) k = (if k = key then ?c @ [v] else mget_or [] (rem_objects st) k)" for k
        by (simp add: mget_or_def)
      with False composite assms marshal_refl [OF composite(2)] show ?thesis
        by (simp add: remember_def remembers_def)
    qed
  qed (use assms in \<open>auto simp: remember_def remembers_def\<close>)
qed

lemma remember_again: "remembers st xs \<Longrightarrow> snd (remember xs st v) \<Longrightarrow> remembers (fst (remember xs st v)) xs"
  by (auto simp: remember_def remembers_def insert_absorb Let_def split: option.splits if_splits)

lemma remember_all: "remembers st xs \<Longrightarrow> remembers (fold (\<lambda>v st. fst (remember m st v)) ys st) (xs @ ys)"
proof (induction ys arbitrary: st xs)
  case (Cons y ys)
  from Cons.IH [OF remember_remembers [OF Cons.prems]] show ?case by simp
qed simp

lemma appendUnique_loop:
  assumes "remembers st xs"
  shows "\<exists>st'. fold appendUnique_step new (xs, st, ch) =
           (append_missing same_value xs new, st', ch \<or> append_missing same_value xs new \<noteq> xs) \<and>
         remembers st' (append_missing same_value xs new)"
  using assms
proof (induction new arbitrary: xs st ch)
  case (Cons v new)
  obtain st1 known where r: "remember xs st v = (st1, known)" by fastforce
  from remember_known [OF Cons.prems, of v] r have known: "known \<longleftrightarrow> holds same_value xs v" by simp
  from remember_remembers [OF Cons.prems, of xs v] r have r1: "remembers st1 (xs @ [v])" by simp
  have grow: "length ys \<le> length (append_missing same_value ys new)" for ys
    using append_missing_extends [of same_value ys new] by auto
  show ?case
  proof (cases known)
    case True
    with remember_again [OF Cons.prems, of v] r have "remembers st1 xs" by simp
    from Cons.IH [OF this] True r known show ?thesis by (simp add: appendUnique_step_def append_missing_def)
  next
    case False
    from Cons.IH [OF r1, of True] False r known grow [of "xs @ [v]"] show ?thesis
      by (auto simp: appendUnique_step_def append_missing_def)
  qed
qed (simp add: append_missing_def)

lemma appendUniqueArrayField_eq:
  "appendUniqueArrayField (VSlice (Some old)) (VSlice (Some new)) =
     Some (append_missing same_value old new, append_missing same_value old new \<noteq> old)"
proof -
  have "remembers \<lparr>rem_scalars = {}, rem_objects = fmempty\<rparr> []" by (simp add: remembers_def mget_or_def)
  from appendUnique_loop [OF remember_all [OF this, of old old, unfolded append_Nil], of new False] show ?thesis
    by (auto simp: appendUniqueArrayField_def Let_def)
qed

text \<open>C11. The array merge that looks values up by scalar key and JSON text is a naive one: it keeps the stored array as
  a prefix, appends in order exactly the incoming values that are the same as no earlier one, and reports a change only
  if it appended. Values are the same if they are scalars with one key, or deeply equal with the same JSON text; for
  arrays without a negative zero that is the equality of \<open>arrayContainsValue\<close>. If every incoming value has a JSON text,
  as stored values have, all of them are found afterwards and merging them again changes nothing.\<close>

theorem appendUniqueArrayField_correct:
  "appendUniqueArrayField (VSlice (Some old)) (VSlice (Some new)) =
     Some (append_missing same_value old new, append_missing same_value old new \<noteq> old) \<and>
   (\<exists>added. append_missing same_value old new = old @ added \<and> set added \<subseteq> set new) \<and>
   (list_all plain (old @ new) \<longrightarrow>
      append_missing same_value old new = fold (\<lambda>v xs. if arrayContainsValue xs v then xs else xs @ [v]) new old) \<and>
   (list_all (\<lambda>v. json_marshal v \<noteq> None) new \<longrightarrow>
      list_all (arrayContainsValue (append_missing same_value old new)) new \<and>
      appendUniqueArrayField (VSlice (Some (append_missing same_value old new))) (VSlice (Some new)) =
        Some (append_missing same_value old new, False))"
proof (intro conjI impI)
  show "\<exists>added. append_missing same_value old new = old @ added \<and> set added \<subseteq> set new" by (rule append_missing_extends)
next
  assume "list_all plain (old @ new)"
  then have "append_missing same_value old new = append_missing fieldValuesEqual old new"
    by (intro append_missing_cong same_value_plain) (auto simp: list_all_iff)
  then show "append_missing same_value old new = fold (\<lambda>v xs. if arrayContainsValue xs v then xs else xs @ [v]) new old"
    by (simp add: append_missing_def [of fieldValuesEqual] holds_def arrayContainsValue_def)
next
  assume json: "list_all (\<lambda>v. json_marshal v \<noteq> None) new"
  have held: "holds same_value (append_missing same_value old new) v" if "v \<in> set new" for v
    using that json json_marshal_NaN by (intro append_missing_holds same_value_refl) (auto simp: list_all_iff)
  then show "list_all (arrayContainsValue (append_missing same_value old new)) new"
    by (auto simp: list_all_iff holds_def arrayContainsValue_def list_ex_iff same_value_def)
  from append_missing_known [of new same_value, OF held]
  show "appendUniqueArrayField (VSlice (Some (append_missing same_value old new))) (VSlice (Some new)) =
      Some (append_missing same_value old new, False)" by (simp add: appendUniqueArrayField_eq)
qed (rule appendUniqueArrayField_eq)

theorem appendUniqueArrayField_correct_witness:
  "appendUniqueArrayField (VSlice (Some (append_missing same_value [VString ''a''] [VSlice (Some [VFloat (Fin 1)]), VString ''a''])))
      (VSlice (Some [VSlice (Some [VFloat (Fin 1)]), VString ''a''])) =
     Some (append_missing same_value [VString ''a''] [VSlice (Some [VFloat (Fin 1)]), VString ''a''], False)"
proof -
  have "list_all (\<lambda>v. json_marshal v \<noteq> None) [VSlice (Some [VFloat (Fin 1)]), VString ''a'']" by code_simp
  with appendUniqueArrayField_correct [of "[VString ''a'']" "[VSlice (Some [VFloat (Fin 1)]), VString ''a'']"] show ?thesis by simp
qed

text \<open>With a negative zero the merge misses an equal value: \<open>[0]\<close> and \<open>[-0]\<close> are deeply equal and have different texts.\<close>

lemma appendUnique_negative_zero:
  "arrayContainsValue [VSlice (Some [VFloat (Fin 0)])] (VSlice (Some [VFloat NegZero])) \<and>
   appendUniqueArrayField (VSlice (Some [VSlice (Some [VFloat (Fin 0)])])) (VSlice (Some [VSlice (Some [VFloat NegZero])])) =
     Some ([VSlice (Some [VFloat (Fin 0)]), VSlice (Some [VFloat NegZero])], True)"
  by code_simp

section \<open>Merging source lists\<close>

text \<open>\<open>s'\<close> stands for \<open>s\<close>: same source identity, and \<open>s\<close> does not outrank it.\<close>

definition represents_source :: "EntitySource \<Rightarrow> EntitySource \<Rightarrow> bool" where
  "represents_source s' s \<longleftrightarrow>
     source_key s' = source_key s \<and>
     \<not> sourceRankBetter (es_Priority s) (es_Confidence s) (es_Priority s') (es_Confidence s')"

lemma sourceRankBetter_mono:
  assumes "\<not> sourceRankBetter p c p1 c1" and "sourceRankBetter p2 c2 p1 c1"
    and "c \<noteq> NaN" "c1 \<noteq> NaN" "c2 \<noteq> NaN"
  shows "\<not> sourceRankBetter p c p2 c2"
  using assms fless_total [of c c1] fless_trans [of c2 c c1] fless_trans [of c1 c2 c] fless_asym [of c1 c2]
    fless_trans [of c c1 c2] fless_asym [of c2 c]
  by (auto simp: sourceRankBetter_def split: if_splits)

lemma sourceRankBetter_irrefl [simp]: "\<not> sourceRankBetter p c p c"
  by (simp add: sourceRankBetter_def)

lemma sourceRankBetter_asym: "sourceRankBetter p c p1 c1 \<Longrightarrow> \<not> sourceRankBetter p1 c1 p c"
  by (auto simp: sourceRankBetter_def dest: fless_asym split: if_splits)

lemma mergeSource_rank:
  "(es_Priority (mergeSource source old), es_Confidence (mergeSource source old)) =
     (if sourceRankBetter (es_Priority source) (es_Confidence source) (es_Priority old) (es_Confidence old)
      then (es_Priority source, es_Confidence source) else (es_Priority old, es_Confidence old))"
  by (simp add: mergeSource_def Let_def)

lemma mergeSource_key: "source_key old = source_key source \<Longrightarrow> source_key (mergeSource source old) = source_key source"
  by (simp add: mergeSource_def source_key_def Let_def)

lemma mergeSource_step_cases:
  obtains (new) "source_key source \<notin> source_key ` set out" "mergeSource_step source out = out @ [source]"
  | (merge) i where "i < length out" "source_key (out ! i) = source_key source"
      "mergeSource_step source out = out[i := mergeSource source (out ! i)]"
proof (cases "find (\<lambda>i. source_key (out ! i) = source_key source) (rev [0..<length out])")
  case None
  then have "source_key source \<notin> source_key ` set out"
    by (auto simp: find_None_iff in_set_conv_nth)
  with None show thesis by (intro new) (auto simp: mergeSource_step_def)
next
  case (Some i)
  then have "i \<in> set (rev [0..<length out])" "source_key (out ! i) = source_key source"
    by (auto simp: find_Some_iff simp del: set_rev set_upt intro: nth_mem)
  with Some show thesis by (intro merge [of i]) (auto simp: mergeSource_step_def)
qed

definition no_NaN :: "EntitySource list \<Rightarrow> bool" where
  "no_NaN sources \<longleftrightarrow> (\<forall>s \<in> set sources. es_Confidence s \<noteq> NaN)"

lemma mergeSource_step_sound:
  assumes "distinct (map source_key out)" "no_NaN out" "es_Confidence source \<noteq> NaN"
  shows "distinct (map source_key (mergeSource_step source out)) \<and> no_NaN (mergeSource_step source out) \<and>
         source_key ` set (mergeSource_step source out) = insert (source_key source) (source_key ` set out) \<and>
         (\<exists>s' \<in> set (mergeSource_step source out). represents_source s' source) \<and>
         (\<forall>s. es_Confidence s \<noteq> NaN \<longrightarrow> (\<exists>s' \<in> set out. represents_source s' s) \<longrightarrow>
              (\<exists>s' \<in> set (mergeSource_step source out). represents_source s' s))"
proof (cases rule: mergeSource_step_cases [of source out])
  case new
  with assms show ?thesis by (auto simp: no_NaN_def represents_source_def)
next
  case (merge i)
  let ?src = "mergeSource source (out ! i)"
  note rank = mergeSource_rank [of source "out ! i"] and key = mergeSource_key [OF merge(2)]
  have NaN: "es_Confidence ?src \<noteq> NaN" "es_Confidence (out ! i) \<noteq> NaN"
    using merge(1) rank assms(2,3) by (auto simp: no_NaN_def split: if_splits)
  have keys: "map source_key (out[i := ?src]) = map source_key out"
    using merge(2) key by (metis list_update_id map_update)
  then have key_set: "source_key ` set (out[i := ?src]) = source_key ` set out" by (metis set_map)
  have "source_key source \<in> source_key ` set out" using merge(1,2) by (metis image_eqI nth_mem)
  moreover have "no_NaN (out[i := ?src])"
    using assms(2) NaN unfolding no_NaN_def by (metis insertE set_update_subset_insert subsetD)
  moreover have "represents_source ?src source"
    using key rank sourceRankBetter_asym by (auto simp: represents_source_def split: if_splits)
  moreover have src_in: "?src \<in> set (out[i := ?src])" using merge(1) by (simp add: set_update_memI)
  moreover have "\<exists>s' \<in> set (out[i := ?src]). represents_source s' s"
    if s: "es_Confidence s \<noteq> NaN" "s' \<in> set out" "represents_source s' s" for s s'
  proof (cases "s' = out ! i")
    case True
    have "represents_source ?src s"
      using s merge(2) key rank sourceRankBetter_mono [of "es_Priority s" "es_Confidence s"] NaN assms(3)
      by (auto simp: represents_source_def True split: if_splits)
    with src_in show ?thesis by blast
  next
    case False
    then have "s' \<in> set (out[i := ?src])"
      using s(2) by (metis in_set_conv_nth length_list_update nth_list_update_neq)
    with s(3) show ?thesis by blast
  qed
  ultimately show ?thesis using assms(1) unfolding merge(3) keys key_set by blast
qed

text \<open>C12. Merging source lists keeps one entry per source identity, loses no identity, and the kept entry is
  never outranked by any of the entries it stands for.\<close>

theorem mergeSources_sound:
  assumes "distinct (map source_key left)" and "no_NaN (left @ right)"
  shows "distinct (map source_key (mergeSources left right)) \<and>
         source_key ` set (mergeSources left right) = source_key ` set (left @ right) \<and>
         (\<forall>s \<in> set (left @ right). \<exists>s' \<in> set (mergeSources left right). represents_source s' s)"
proof -
  have "distinct (map source_key (fold mergeSource_step right out)) \<and>
        source_key ` set (fold mergeSource_step right out) = source_key ` (set out \<union> set right) \<and>
        (\<forall>s. es_Confidence s \<noteq> NaN \<longrightarrow> (\<exists>s' \<in> set out. represents_source s' s) \<or> s \<in> set right \<longrightarrow>
           (\<exists>s' \<in> set (fold mergeSource_step right out). represents_source s' s))"
    if "distinct (map source_key out)" "no_NaN out" "no_NaN right" for out
    using that
  proof (induction right arbitrary: out)
    case (Cons r right)
    let ?out = "mergeSource_step r out"
    have r: "es_Confidence r \<noteq> NaN" "no_NaN right" using Cons.prems(3) by (auto simp: no_NaN_def)
    note step = mergeSource_step_sound [OF Cons.prems(1,2) r(1)]
    have "distinct (map source_key ?out)" "no_NaN ?out" using step by blast+
    note IH = Cons.IH [OF this r(2)]
    have "source_key ` (set ?out \<union> set right) = source_key ` (set out \<union> set (r # right))"
      using step by (simp add: image_Un)
    with IH step show ?case by auto
  qed auto
  then have loop: "distinct (map source_key (mergeSources left right)) \<and>
        source_key ` set (mergeSources left right) = source_key ` (set left \<union> set right) \<and>
        (\<forall>s. es_Confidence s \<noteq> NaN \<longrightarrow> (\<exists>s' \<in> set left. represents_source s' s) \<or> s \<in> set right \<longrightarrow>
           (\<exists>s' \<in> set (mergeSources left right). represents_source s' s))"
    unfolding mergeSources_def using assms by (simp add: no_NaN_def)
  have self: "represents_source s s" for s by (simp add: represents_source_def)
  have "\<exists>s' \<in> set (mergeSources left right). represents_source s' s" if "s \<in> set (left @ right)" for s
    using that loop self assms(2) unfolding no_NaN_def set_append by blast
  with loop show ?thesis by simp
qed

theorem mergeSources_sound_witness:
  "let a = zero_EntitySource\<lparr>es_Source := ''s'', es_ExternalID := ''1'', es_Priority := 1\<rparr>;
       b = zero_EntitySource\<lparr>es_Source := ''s'', es_ExternalID := ''1'', es_Priority := 2\<rparr>
   in \<exists>s' \<in> set (mergeSources [a] [b]). represents_source s' b"
proof -
  let ?a = "zero_EntitySource\<lparr>es_Source := ''s'', es_ExternalID := ''1'', es_Priority := 1\<rparr>"
  let ?b = "zero_EntitySource\<lparr>es_Source := ''s'', es_ExternalID := ''1'', es_Priority := 2\<rparr>"
  have "distinct (map source_key [?a])" "no_NaN ([?a] @ [?b])" by (simp_all add: no_NaN_def zero_EntitySource_def)
  from mergeSources_sound [OF this] show ?thesis by simp
qed

end
