(* ===== verification/Schema.thy ===== *)
theory Schema
  imports EntityMerge
begin

text \<open>
  CI types and property schemas (\<open>ci_type.go\<close>, \<open>schema.go\<close>, \<open>property_schema.go\<close>, and the set
  algorithms of \<open>ci_type_mutation.go\<close>): normalisation of specifications, inheritance of fields with
  its cache and cycle check, the topological check of the type hierarchy, the closure of affected
  kinds, and the validation of entity fields. Methods of \<open>Graph\<close> that read only its CI types take
  them as the argument \<open>ciTypes\<close>.
\<close>

type_synonym Specs = "(string, FieldSpec) fmap"

section \<open>Normalising specifications\<close>

definition fieldSpec_step ::
  "string \<Rightarrow> string \<Rightarrow> Specs \<Rightarrow> string \<times> FieldSpec \<Rightarrow> spec_error + Specs" where
  "fieldSpec_step resourceKind resourceName out = (\<lambda>(name, rawSpec).
     let fieldName = TrimSpace name;
         spec = rawSpec\<lparr>spec_Type := (if spec_Type rawSpec = [] then ''any'' else spec_Type rawSpec)\<rparr>
     in if fieldName = [] then Inl (SpecEmptyFieldName resourceKind resourceName)
        else if \<not> validFieldType (spec_Type spec)
        then Inl (SpecUnsupportedType resourceKind resourceName fieldName (spec_Type spec))
        else
          let spec' = spec\<lparr>spec_MergeStrategy := TrimSpace (spec_MergeStrategy spec)\<rparr> in
          if spec_MergeStrategy spec' \<noteq> [] \<and> spec_MergeStrategy spec' \<noteq> FieldMergeReplace \<and>
             spec_MergeStrategy spec' \<noteq> FieldMergeAppendUnique
          then Inl (SpecUnsupportedMergeStrategy resourceKind resourceName fieldName (spec_MergeStrategy spec'))
          else if spec_MergeStrategy spec' = FieldMergeAppendUnique \<and> spec_Type spec' \<noteq> ''array''
          then Inl (SpecAppendUniqueNeedsArray resourceKind resourceName fieldName)
          else if spec_Default spec' \<noteq> VNil \<and> \<not> valueMatchesType (spec_Default spec') (spec_Type spec')
          then Inl (SpecDefaultMismatch resourceKind resourceName fieldName (spec_Type spec'))
          else if \<exists>value \<in> set (spec_Enum spec'). \<not> valueMatchesType value (spec_Type spec')
          then Inl (SpecEnumMismatch resourceKind resourceName fieldName (spec_Type spec'))
          else Inr (fmupd fieldName spec' out))"

definition normalizeNamedFieldSpecs :: "string \<Rightarrow> string \<Rightarrow> Specs \<Rightarrow> spec_error + Specs" where
  "normalizeNamedFieldSpecs resourceKind resourceName specs =
     foldM (fieldSpec_step resourceKind resourceName) fmempty (entries specs)"

definition normalizeFieldSpecs :: "string \<Rightarrow> Specs \<Rightarrow> spec_error + Specs" where
  "normalizeFieldSpecs ciTypeName specs = normalizeNamedFieldSpecs ''ci type'' ciTypeName specs"

definition NormalizePropertyFieldSpecs :: "string \<Rightarrow> Specs \<Rightarrow> spec_error + Specs" where
  "NormalizePropertyFieldSpecs schemaName specs = normalizeNamedFieldSpecs ''property schema'' schemaName specs"

definition normalizeIdentityKey :: "string \<Rightarrow> nat \<times> IdentityKey \<Rightarrow> schema_error + IdentityKey" where
  "normalizeIdentityKey typeName = (\<lambda>(i, rawKey).
     let name = TrimSpace (ik_Name rawKey);
         key = rawKey\<lparr>ik_Name := (if name = [] then ''identity_'' @ Itoa (int i + 1) else name),
                      ik_Strategy := (if ik_Strategy rawKey = [] then ''merge'' else ik_Strategy rawKey)\<rparr>
     in if ik_Strategy key \<noteq> ''merge'' \<and> ik_Strategy key \<noteq> ''reject''
        then Inl (IdentityKeyStrategy typeName (ik_Name key) (ik_Strategy key))
        else if ik_Fields key = [] then Inl (IdentityKeyNeedsFields typeName (ik_Name key))
        else
          let trimmed = map TrimSpace (ik_Fields key) in
          if [] \<in> set trimmed then Inl (IdentityKeyEmptyField typeName (ik_Name key))
          else Inr (key\<lparr>ik_Fields := trimmed\<rparr>))"

definition normalizeIdentityKeys :: "string \<Rightarrow> IdentityKey list \<Rightarrow> schema_error + IdentityKey list" where
  "normalizeIdentityKeys typeName keys = mapM (normalizeIdentityKey typeName) (enumerate 0 keys)"

definition normalizeCIType :: "CIType \<Rightarrow> schema_error + CIType" where
  "normalizeCIType ciType =
     (let name = TrimSpace (ct_Name ciType); extends = map TrimSpace (ct_Extends ciType) in
      if name = [] then Inl CITypeNameRequired
      else if [] \<in> set extends then Inl (CITypeEmptyExtends name)
      else
        rbind (map_sum SpecError id (normalizeFieldSpecs name (ct_Fields ciType))) (\<lambda>flds.
        rbind (normalizeIdentityKeys name (ct_IdentityKeys ciType)) (\<lambda>keys.
        Inr (ciType\<lparr>ct_Name := name, ct_Extends := extends, ct_Fields := flds, ct_IdentityKeys := keys\<rparr>))))"

section \<open>Inherited fields\<close>

lemma foldM_cong [fundef_cong]:
  "xs = ys \<Longrightarrow> s = t \<Longrightarrow> (\<And>x u. x \<in> set ys \<Longrightarrow> f u x = g u x) \<Longrightarrow> foldM f s xs = foldM g t ys"
proof (induction xs arbitrary: ys s t)
  case (Cons x xs)
  then show ?case by (auto intro: rbind_cong)
qed simp

type_synonym spec_cache = "(string, Specs) fmap"

text \<open>
  The set \<open>seen\<close> holds the kinds on the current path (Go deletes a kind from it on return). The
  recursion ends because every call on a known kind adds it to \<open>seen\<close>.
\<close>

definition inheritFields :: "Specs \<times> spec_cache \<Rightarrow> schema_error + Specs \<times> spec_cache \<Rightarrow> schema_error + Specs \<times> spec_cache" where
  "inheritFields st result =
     rbind result (\<lambda>(parentFields, cache). Inr (put_all parentFields (fst st), cache))"

definition ownFields :: "string \<Rightarrow> CIType \<Rightarrow> schema_error + Specs \<times> spec_cache \<Rightarrow> schema_error + Specs \<times> spec_cache" where
  "ownFields kind ciType result =
     rbind result (\<lambda>(inherited, cache).
       let flds = put_all (ct_Fields ciType) inherited in Inr (flds, fmupd kind flds cache))"

function effectiveFields ::
  "(string, CIType) fmap \<Rightarrow> string \<Rightarrow> string set \<Rightarrow> spec_cache \<Rightarrow> schema_error + Specs \<times> spec_cache" where
  "effectiveFields ciTypes kind seen cache =
     (case mget cache kind of
        Some flds \<Rightarrow> Inr (flds, cache)
      | None \<Rightarrow>
          (case mget ciTypes kind of
             None \<Rightarrow> Inr (fmempty, fmupd kind fmempty cache)
           | Some ciType \<Rightarrow>
               if kind \<in> seen then Inl (CITypeCycle kind)
               else
                 ownFields kind ciType
                   (foldM (\<lambda>st parent.
                       if mget ciTypes parent = None then Inl (CITypeMissingParent kind parent)
                       else inheritFields st (effectiveFields ciTypes parent (insert kind seen) (snd st)))
                     (fmempty, cache) (ct_Extends ciType))))"
  by pat_completeness auto
termination
proof (relation "measure (\<lambda>(ciTypes, kind, seen, cache). card (fmdom' ciTypes - seen))")
  fix ciTypes :: "(string, CIType) fmap" and kind and seen :: "string set" and ciType parent
  assume "mget ciTypes kind = Some ciType" and "kind \<notin> seen"
  then have "kind \<in> fmdom' ciTypes - seen" by (simp add: fmlookup_dom'_iff)
  then have "fmdom' ciTypes - insert kind seen \<subset> fmdom' ciTypes - seen" by blast
  then have "card (fmdom' ciTypes - insert kind seen) < card (fmdom' ciTypes - seen)"
    by (intro psubset_card_mono) simp_all
  then show "((ciTypes, parent, insert kind seen, cache'), ciTypes, kind, seen, cache)
      \<in> measure (\<lambda>(ciTypes, kind, seen, cache). card (fmdom' ciTypes - seen))" for cache cache'
    by simp
qed simp

declare effectiveFields.simps [simp del]

definition effectiveFieldsCached ::
  "(string, CIType) fmap \<Rightarrow> string \<Rightarrow> spec_cache \<Rightarrow> schema_error + Specs \<times> spec_cache" where
  "effectiveFieldsCached ciTypes kind cache =
     (case mget cache kind of
        Some flds \<Rightarrow> Inr (flds, cache)
      | None \<Rightarrow> effectiveFields ciTypes kind {} cache)"

definition EffectiveFields :: "(string, CIType) fmap \<Rightarrow> string \<Rightarrow> schema_error + Specs" where
  "EffectiveFields ciTypes kind = map_sum id fst (effectiveFields ciTypes kind {} fmempty)"

section \<open>The type hierarchy\<close>

text \<open>The maps \<open>children\<close> and \<open>parentCounts\<close> and the initial queue of \<open>validateCITypes\<close>.\<close>

record hierarchy =
  hi_children :: "(string, string list) fmap"
  hi_counts :: "(string, int) fmap"
  hi_queue :: "string list"

definition hierarchy_parent_step ::
  "(string, CIType) fmap \<Rightarrow> string \<Rightarrow> hierarchy \<Rightarrow> string \<Rightarrow> schema_error + hierarchy" where
  "hierarchy_parent_step ciTypes kind h parent =
     (if mget ciTypes parent = None then Inl (CITypeMissingParent kind parent)
      else Inr (h\<lparr>hi_children := fmupd parent (mget_or [] (hi_children h) parent @ [kind]) (hi_children h)\<rparr>))"

definition hierarchy_step ::
  "(string, CIType) fmap \<Rightarrow> hierarchy \<Rightarrow> string \<times> CIType \<Rightarrow> schema_error + hierarchy" where
  "hierarchy_step ciTypes h = (\<lambda>(kind, ciType).
     foldM (hierarchy_parent_step ciTypes kind)
       (h\<lparr>hi_counts := fmupd kind (int (length (ct_Extends ciType))) (hi_counts h),
          hi_queue := (if ct_Extends ciType = [] then hi_queue h @ [kind] else hi_queue h)\<rparr>)
       (ct_Extends ciType))"

definition release_child ::
  "string \<Rightarrow> (string, int) fmap \<times> string list \<Rightarrow> (string, int) fmap \<times> string list" where
  "release_child child = (\<lambda>(counts, queue).
     let remaining = mget_or 0 counts child - 1
     in (fmupd child remaining counts, if remaining = 0 then queue @ [child] else queue))"

text \<open>The sum of the positive counts: what the loop below still may append to its queue.\<close>

definition pending :: "(string, int) fmap \<Rightarrow> nat" where
  "pending counts = (\<Sum>k \<in> fmdom' counts. nat (mget_or 0 counts k))"

lemma pending_upd:
  "pending (fmupd k v counts) + nat (mget_or 0 counts k) = pending counts + nat v"
proof -
  have "pending (fmupd k v counts) = (\<Sum>x \<in> insert k (fmdom' counts). nat (mget_or 0 (fmupd k v counts) x))"
    by (simp add: pending_def)
  also have "\<dots> = nat v + (\<Sum>x \<in> fmdom' counts - {k}. nat (mget_or 0 counts x))"
    by (simp add: sum.insert_remove)
  finally have new: "pending (fmupd k v counts) = nat v + (\<Sum>x \<in> fmdom' counts - {k}. nat (mget_or 0 counts x))" .
  have "pending counts = nat (mget_or 0 counts k) + (\<Sum>x \<in> fmdom' counts - {k}. nat (mget_or 0 counts x))"
  proof (cases "k \<in> fmdom' counts")
    case True
    then show ?thesis by (simp add: pending_def sum.remove)
  next
    case False
    then show ?thesis by (simp add: pending_def mget_or_def fmlookup_dom'_iff split: option.splits)
  qed
  with new show ?thesis by simp
qed

lemma release_child_pending:
  "pending (fst (release_child c st)) + length (snd (release_child c st)) \<le> pending (fst st) + length (snd st)"
proof (cases st)
  case (Pair counts queue)
  show ?thesis
    using pending_upd [of c "mget_or 0 counts c - 1" counts] by (auto simp: Pair release_child_def Let_def)
qed

lemma release_children_pending:
  "pending (fst (fold release_child cs st)) + length (snd (fold release_child cs st)) \<le> pending (fst st) + length (snd st)"
proof (induction cs arbitrary: st)
  case (Cons c cs)
  from Cons [of "release_child c st"] release_child_pending [of c st] show ?case by simp
qed simp

text \<open>The loop over the queue; \<open>visited\<close> counts the kinds taken from it. It returns the final counts too.\<close>

function visit_kinds ::
  "(string, string list) fmap \<Rightarrow> (string, int) fmap \<Rightarrow> string list \<Rightarrow> nat \<Rightarrow> nat \<times> (string, int) fmap" where
  "visit_kinds children counts queue visited =
     (case queue of
        [] \<Rightarrow> (visited, counts)
      | parent # rest \<Rightarrow>
          visit_kinds children (fst (fold release_child (mget_or [] children parent) (counts, rest)))
            (snd (fold release_child (mget_or [] children parent) (counts, rest))) (visited + 1))"
  by pat_completeness auto
termination
proof (relation "measure (\<lambda>(children, counts, queue, visited). pending counts + length queue)")
  fix children :: "(string, string list) fmap" and counts :: "(string, int) fmap" and queue :: "string list"
    and visited :: nat and parent rest
  assume "queue = parent # rest"
  with release_children_pending [of "mget_or [] children parent" "(counts, rest)"]
  show "((children, fst (fold release_child (mget_or [] children parent) (counts, rest)),
          snd (fold release_child (mget_or [] children parent) (counts, rest)), visited + 1),
         children, counts, queue, visited)
        \<in> measure (\<lambda>(children, counts, queue, visited). pending counts + length queue)" by simp
qed simp

declare visit_kinds.simps [simp del]

definition empty_hierarchy :: hierarchy where
  "empty_hierarchy = \<lparr>hi_children = fmempty, hi_counts = fmempty, hi_queue = []\<rparr>"

definition validateCITypes :: "(string, CIType) fmap \<Rightarrow> schema_error + unit" where
  "validateCITypes ciTypes =
     rbind (foldM (hierarchy_step ciTypes) empty_hierarchy (entries ciTypes)) (\<lambda>h.
     let (visited, counts) = visit_kinds (hi_children h) (hi_counts h) (hi_queue h) 0 in
     if visited \<noteq> length (skeys ciTypes) then
       (case find (\<lambda>kind. mget_or 0 counts kind > 0) (skeys counts) of
          Some kind \<Rightarrow> Inl (CITypeCycle kind)
        | None \<Rightarrow> Inr ())
     else Inr ())"

section \<open>Affected kinds\<close>

definition childKinds :: "(string, CIType) fmap \<Rightarrow> string \<Rightarrow> string list" where
  "childKinds ciTypes parent =
     concat (map (\<lambda>(name, ciType). map (\<lambda>_. name) (filter (\<lambda>p. p = parent) (ct_Extends ciType))) (entries ciTypes))"

definition affect_child :: "string \<Rightarrow> string set \<times> string list \<Rightarrow> string set \<times> string list" where
  "affect_child child = (\<lambda>(affected, queue).
     if child \<in> affected then (affected, queue) else (insert child affected, queue @ [child]))"

lemma affect_children:
  "fst (fold affect_child cs (a, q)) = a \<union> set cs \<and>
   (\<exists>new. snd (fold affect_child cs (a, q)) = q @ new \<and> distinct new \<and> set new = set cs - a)"
proof (induction cs arbitrary: a q)
  case (Cons c cs)
  show ?case
  proof (cases "c \<in> a")
    case True
    with Cons [of a q] show ?thesis by (auto simp: affect_child_def)
  next
    case False
    have step: "affect_child c (a, q) = (insert c a, q @ [c])" using False by (simp add: affect_child_def)
    from Cons [of "insert c a" "q @ [c]"] obtain new where
      new: "snd (fold affect_child cs (insert c a, q @ [c])) = (q @ [c]) @ new" "distinct new" "set new = set cs - insert c a"
      by blast
    have "snd (fold affect_child (c # cs) (a, q)) = q @ (c # new) \<and> distinct (c # new) \<and> set (c # new) = set (c # cs) - a"
      using new False by (simp add: step) blast
    moreover have "fst (fold affect_child (c # cs) (a, q)) = a \<union> set (c # cs)"
      using Cons [of "insert c a" "q @ [c]"] by (simp add: step)
    ultimately show ?thesis by blast
  qed
qed simp

function affect_kinds :: "(string, CIType) fmap \<Rightarrow> string set \<Rightarrow> string list \<Rightarrow> string set" where
  "affect_kinds ciTypes affected queue =
     (case queue of
        [] \<Rightarrow> affected
      | parent # rest \<Rightarrow>
          affect_kinds ciTypes (fst (fold affect_child (childKinds ciTypes parent) (affected, rest)))
            (snd (fold affect_child (childKinds ciTypes parent) (affected, rest))))"
  by pat_completeness auto

lemma set_childKinds:
  "set (childKinds ciTypes parent) = {name. \<exists>ciType. mget ciTypes name = Some ciType \<and> parent \<in> set (ct_Extends ciType)}"
  by (force simp: childKinds_def)

termination affect_kinds
proof (relation "measure (\<lambda>(ciTypes, affected, queue). 2 * card (fmdom' ciTypes - affected) + length queue)")
  fix ciTypes :: "(string, CIType) fmap" and affected :: "string set" and queue rest :: "string list" and parent
  assume q: "queue = parent # rest"
  let ?cs = "childKinds ciTypes parent"
  from affect_children [of ?cs affected rest] obtain new where
    a: "fst (fold affect_child ?cs (affected, rest)) = affected \<union> set ?cs"
    and n: "snd (fold affect_child ?cs (affected, rest)) = rest @ new" "distinct new" "set new = set ?cs - affected" by auto
  have sub: "set new \<subseteq> fmdom' ciTypes - affected" using n(3) by (auto simp: set_childKinds fmlookup_dom'_iff)
  have "fmdom' ciTypes - (affected \<union> set ?cs) = (fmdom' ciTypes - affected) - set new" using n(3) by auto
  then have "card (fmdom' ciTypes - (affected \<union> set ?cs)) = card (fmdom' ciTypes - affected) - length new"
    using sub n(2) by (simp add: card_Diff_subset distinct_card)
  moreover have "length new \<le> card (fmdom' ciTypes - affected)"
    using sub n(2) by (metis card_mono distinct_card finite_Diff finite_fmdom')
  ultimately show "((ciTypes, fst (fold affect_child ?cs (affected, rest)), snd (fold affect_child ?cs (affected, rest))),
         ciTypes, affected, queue)
        \<in> measure (\<lambda>(ciTypes, affected, queue). 2 * card (fmdom' ciTypes - affected) + length queue)"
    unfolding a n(1) by (simp add: q)
qed simp

declare affect_kinds.simps [simp del]

definition affectedCITypeKinds :: "(string, CIType) fmap \<Rightarrow> string set \<Rightarrow> string set" where
  "affectedCITypeKinds ciTypes changed = affect_kinds ciTypes changed (sorted_list_of_set changed)"

definition intersectStringSets :: "string set \<Rightarrow> string set \<Rightarrow> string set" where
  "intersectStringSets left right = left \<inter> right"

section \<open>Entities against a schema\<close>

text \<open>The checks every field validation makes of a present value.\<close>

definition checkFieldValue :: "Entity \<Rightarrow> string \<Rightarrow> FieldSpec \<Rightarrow> any \<Rightarrow> schema_error + unit" where
  "checkFieldValue entity name spec value =
     (if \<not> valueMatchesType value (spec_Type spec)
      then Inl (FieldTypeMismatch (ent_ID entity) name (spec_Type spec))
      else if spec_Enum spec \<noteq> [] \<and> \<not> valueInEnum value (spec_Enum spec)
      then Inl (FieldNotInEnum (ent_ID entity) name)
      else Inr ())"

definition entitySchema_step :: "Entity \<Rightarrow> string \<times> FieldSpec \<Rightarrow> schema_error + Entity" where
  "entitySchema_step rawEntity = (\<lambda>(name, spec).
     let entity = (if mget (ent_Fields rawEntity) name = None \<and> spec_Default spec \<noteq> VNil
                   then rawEntity\<lparr>ent_Fields := fmupd name (spec_Default spec) (ent_Fields rawEntity)\<rparr>
                   else rawEntity)
     in case mget (ent_Fields entity) name of
          None \<Rightarrow> if spec_Required spec then Inl (MissingRequiredField (ent_ID entity) (ent_Kind entity) name)
                  else Inr entity
        | Some value \<Rightarrow> rbind (checkFieldValue entity name spec value) (\<lambda>_. Inr entity))"

definition populateIdentity :: "(string, CIType) fmap \<Rightarrow> Entity \<Rightarrow> Entity" where
  "populateIdentity ciTypes entity =
     (let from_fields = (case mget ciTypes (ent_Kind entity) of
            None \<Rightarrow> ent_Identity entity
          | Some ciType \<Rightarrow>
              fold (\<lambda>field identity.
                      if mget identity field \<noteq> None then identity
                      else case mget (ent_Fields entity) field of
                             None \<Rightarrow> identity
                           | Some value \<Rightarrow> fmupd field value identity)
                (concat (map ik_Fields (ct_IdentityKeys ciType))) (ent_Identity entity))
      in entity\<lparr>ent_Identity :=
           fold (\<lambda>source identity. fmupd (''source:'' @ es_Source source) (VString (es_ExternalID source)) identity)
             (ent_Sources entity) from_fields\<rparr>)"

definition applyEntitySchemaWithSpecs ::
  "(string, CIType) fmap \<Rightarrow> Entity \<Rightarrow> Specs \<Rightarrow> schema_error + Entity" where
  "applyEntitySchemaWithSpecs ciTypes rawEntity specs =
     rbind (foldM entitySchema_step rawEntity (entries specs)) (\<lambda>entity.
     Inr (populateIdentity ciTypes
       (entity\<lparr>ent_Identity := fmfilter (\<lambda>name. mget (ent_Identity entity) name \<noteq> Some VNil) (ent_Identity entity)\<rparr>)))"

definition validateEntityField :: "Entity \<Rightarrow> string \<times> FieldSpec \<Rightarrow> schema_error + unit" where
  "validateEntityField entity = (\<lambda>(name, spec).
     case mget (ent_Fields entity) name of
       None \<Rightarrow> if spec_Required spec then Inl (MissingRequiredField (ent_ID entity) (ent_Kind entity) name)
               else Inr ()
     | Some value \<Rightarrow> checkFieldValue entity name spec value)"

definition validateEntityFieldsWithSpecs :: "Entity \<Rightarrow> Specs \<Rightarrow> schema_error + unit" where
  "validateEntityFieldsWithSpecs entity specs = checkM (validateEntityField entity) (entries specs)"

text \<open>\<open>ownersByKind\<close> maps a kind to the owners of the identity signatures seen so far.\<close>

type_synonym owners = "(string, (string, string) fmap) fmap"

definition identityOwner_step ::
  "Entity \<Rightarrow> (string, string) fmap \<Rightarrow> identitySignature \<Rightarrow> schema_error + (string, string) fmap" where
  "identityOwner_step entity owners signature =
     (let owner = mget_or [] owners (sig_Value signature) in
      if owner \<noteq> [] \<and> owner \<noteq> ent_ID entity
      then Inl (CITypeIdentityShared (ent_Kind entity) (sig_Value signature) owner (ent_ID entity))
      else Inr (fmupd (sig_Value signature) (ent_ID entity) owners))"

definition validateCIIdentityOwners ::
  "(string, CIType) fmap \<Rightarrow> bool \<Rightarrow> Entity \<Rightarrow> owners \<Rightarrow> schema_error + owners" where
  "validateCIIdentityOwners ciTypes legacy entity ownersByKind =
     (let signatures = ciIdentitySignatures ciTypes legacy entity (entityConfidence entity) in
      if signatures = [] then Inr ownersByKind
      else rbind (foldM (identityOwner_step entity) (mget_or fmempty ownersByKind (ent_Kind entity)) signatures)
             (\<lambda>owners. Inr (fmupd (ent_Kind entity) owners ownersByKind)))"

section \<open>Property schemas\<close>

definition ApplyPropertyDefaults :: "Fields \<Rightarrow> Specs \<Rightarrow> Fields" where
  "ApplyPropertyDefaults flds specs =
     fold (\<lambda>(name, spec) out.
             if mget out name = None \<and> spec_Default spec \<noteq> VNil then fmupd name (spec_Default spec) out else out)
       (entries specs) flds"

definition validatePropertyField :: "string \<Rightarrow> Fields \<Rightarrow> string \<times> FieldSpec \<Rightarrow> property_error + unit" where
  "validatePropertyField resource flds = (\<lambda>(name, spec).
     case mget flds name of
       None \<Rightarrow> if spec_Required spec then Inl (PropertyMissingRequired resource name) else Inr ()
     | Some value \<Rightarrow>
         if \<not> valueMatchesType value (spec_Type spec) then Inl (PropertyTypeMismatch resource name (spec_Type spec))
         else if spec_Enum spec \<noteq> [] \<and> \<not> valueInEnum value (spec_Enum spec)
         then Inl (PropertyNotInEnum resource name)
         else Inr ())"

definition ValidatePropertyFields :: "string \<Rightarrow> Fields \<Rightarrow> Specs \<Rightarrow> bool \<Rightarrow> property_error + unit" where
  "ValidatePropertyFields resource flds specs strict =
     rbind (checkM (validatePropertyField resource flds) (entries specs)) (\<lambda>_.
     if strict
     then checkM (\<lambda>name. if mget specs name = None then Inl (PropertyUndeclared resource name) else Inr ()) (skeys flds)
     else Inr ())"

section \<open>Relation types\<close>

definition zero_RelationType :: RelationType where
  "zero_RelationType =
     \<lparr>rt_Name = [], rt_DisplayName = [], rt_ReverseName = [], rt_FromKind = [], rt_ToKind = [],
      rt_FromKinds = [], rt_ToKinds = [], rt_Directed = False, rt_Cardinality = [],
      rt_ImpactDirection = [], rt_AllowCrossKind = False, rt_Standard = False\<rparr>"

definition standardRelation :: "string \<Rightarrow> string \<Rightarrow> string \<Rightarrow> string \<Rightarrow> RelationType" where
  "standardRelation name display reverse impact =
     zero_RelationType\<lparr>rt_Name := name, rt_DisplayName := display, rt_ReverseName := reverse, rt_Directed := True,
       rt_Cardinality := ManyToMany, rt_ImpactDirection := impact, rt_AllowCrossKind := True, rt_Standard := True\<rparr>"

definition StandardRelationTypes :: "RelationType list" where
  "StandardRelationTypes =
     [standardRelation ''contains'' ''contains'' ''contained_by'' ''reverse'',
      standardRelation ''runs_on'' ''runs on'' ''runs'' ''forward'',
      standardRelation ''depends_on'' ''depends on'' ''dependency_of'' ''forward'',
      standardRelation ''owned_by'' ''owned by'' ''owns'' ''none'',
      standardRelation ''connects_to'' ''connects to'' ''connected_from'' ''both'']"

definition normalizeRelationType :: "RelationType \<Rightarrow> relation_error + RelationType" where
  "normalizeRelationType raw =
     (let rt = raw\<lparr>rt_Name := TrimSpace (rt_Name raw), rt_FromKind := TrimSpace (rt_FromKind raw),
                   rt_ToKind := TrimSpace (rt_ToKind raw), rt_FromKinds := map TrimSpace (rt_FromKinds raw),
                   rt_ToKinds := map TrimSpace (rt_ToKinds raw),
                   rt_Cardinality := (if rt_Cardinality raw = [] then ManyToMany else rt_Cardinality raw),
                   rt_ImpactDirection := (if rt_ImpactDirection raw = [] then ''none'' else rt_ImpactDirection raw)\<rparr>
      in if rt_Name rt = [] then Inl RelationTypeNameRequired
         else if \<not> rt_AllowCrossKind rt \<and> rt_FromKind rt = [] \<and> rt_ToKind rt = [] \<and>
                 rt_FromKinds rt = [] \<and> rt_ToKinds rt = []
         then Inl (RelationTypeNeedsKinds (rt_Name rt))
         else if rt_ImpactDirection rt \<notin> {''none'', ''forward'', ''reverse'', ''both''}
         then Inl (RelationTypeImpactDirection (rt_Name rt) (rt_ImpactDirection rt))
         else if rt_Cardinality rt \<notin> {ManyToMany, OneToMany, ManyToOne, OneToOne}
         then Inl (RelationTypeCardinality (rt_Name rt) (rt_Cardinality rt))
         else Inr rt)"

section \<open>The hierarchy check is topological sorting\<close>

definition parents :: "(string, CIType) fmap \<Rightarrow> string \<Rightarrow> string list" where
  "parents ciTypes kind = (case mget ciTypes kind of None \<Rightarrow> [] | Some ciType \<Rightarrow> ct_Extends ciType)"

text \<open>An order of all kinds in which every kind comes after its parents.\<close>

definition layered :: "(string, CIType) fmap \<Rightarrow> string list \<Rightarrow> bool" where
  "layered ciTypes ks \<longleftrightarrow>
     distinct ks \<and> set ks = fmdom' ciTypes \<and>
     (\<forall>xs k ys. ks = xs @ k # ys \<longrightarrow> set (parents ciTypes k) \<subseteq> set xs)"

lemma count_list_le_0 [simp]: "count_list xs x = 0 \<longleftrightarrow> x \<notin> set xs"
  by (simp add: count_list_0_iff)

lemma release_children:
  assumes "\<And>c. c \<in> set cs \<Longrightarrow> int (count_list cs c) \<le> mget_or 0 counts c"
  shows "\<exists>new. snd (fold release_child cs (counts, q)) = q @ new \<and> distinct new \<and>
           set new = {c \<in> set cs. mget_or 0 counts c = int (count_list cs c)} \<and>
         (\<forall>k. mget_or 0 (fst (fold release_child cs (counts, q))) k = mget_or 0 counts k - int (count_list cs k)) \<and>
         fmdom' (fst (fold release_child cs (counts, q))) = fmdom' counts \<union> set cs"
  using assms
proof (induction cs arbitrary: counts q)
  case (Cons c cs)
  let ?n = "mget_or 0 counts c - 1"
  let ?counts = "fmupd c ?n counts"
  have step: "release_child c (counts, q) = (?counts, if ?n = 0 then q @ [c] else q)"
    by (simp add: release_child_def Let_def)
  have le: "int (count_list cs d) \<le> mget_or 0 ?counts d" if "d \<in> set cs" for d
    using Cons.prems [of d] that by auto
  have c: "int (count_list cs c) \<le> ?n" using Cons.prems [of c] by simp
  from Cons.IH [of ?counts "if ?n = 0 then q @ [c] else q", OF le] obtain new where
    new: "snd (fold release_child cs (?counts, if ?n = 0 then q @ [c] else q)) = (if ?n = 0 then q @ [c] else q) @ new"
      "distinct new" "set new = {d \<in> set cs. mget_or 0 ?counts d = int (count_list cs d)}"
    and counts: "\<forall>k. mget_or 0 (fst (fold release_child cs (?counts, if ?n = 0 then q @ [c] else q))) k =
                   mget_or 0 ?counts k - int (count_list cs k)"
    and dom: "fmdom' (fst (fold release_child cs (?counts, if ?n = 0 then q @ [c] else q))) = fmdom' ?counts \<union> set cs"
    by blast
  let ?new = "if ?n = 0 then c # new else new"
  have zero: "c \<notin> set cs" if "?n = 0" using c that by simp
  have "distinct ?new" using new(2,3) zero by auto
  moreover have "set ?new = {d \<in> set (c # cs). mget_or 0 counts d = int (count_list (c # cs) d)}"
  proof (rule set_eqI)
    fix d
    define x where "x = mget_or 0 counts c"
    define m where "m = count_list cs c"
    have old: "d \<in> set new \<longleftrightarrow> d \<in> set cs \<and> mget_or 0 ?counts d = int (count_list cs d)" using new(3) by blast
    show "d \<in> set ?new \<longleftrightarrow> d \<in> {d \<in> set (c # cs). mget_or 0 counts d = int (count_list (c # cs) d)}"
    proof (cases "d = c")
      case True
      have "c \<in> set cs \<longleftrightarrow> m \<noteq> 0" by (simp add: m_def)
      moreover have "int m \<le> x - 1" using c by (simp add: x_def m_def)
      moreover have "d \<in> set new \<longleftrightarrow> c \<in> set cs \<and> x - 1 = int m" using old by (simp add: True x_def m_def)
      ultimately have "(if x - 1 = 0 then True else d \<in> set new) \<longleftrightarrow> x = int (Suc m)" by auto
      then show ?thesis by (simp add: True x_def m_def split: if_splits)
    next
      case False
      then show ?thesis using old by simp
    qed
  qed
  moreover have "snd (fold release_child (c # cs) (counts, q)) = q @ ?new" using new(1) by (simp add: step)
  moreover have "mget_or 0 (fst (fold release_child (c # cs) (counts, q))) k =
      mget_or 0 counts k - int (count_list (c # cs) k)" for k
    using counts by (simp add: step)
  moreover have "fmdom' (fst (fold release_child (c # cs) (counts, q))) = fmdom' counts \<union> set (c # cs)"
    using dom by (simp add: step)
  ultimately show ?case by blast
qed simp

text \<open>The invariant of the queue loop: \<open>P\<close> is what has been visited.\<close>

definition visit_inv ::
  "(string, CIType) fmap \<Rightarrow> string list \<Rightarrow> string list \<Rightarrow> (string, int) fmap \<Rightarrow> bool" where
  "visit_inv ciTypes P Q counts \<longleftrightarrow>
     distinct (P @ Q) \<and> set (P @ Q) \<subseteq> fmdom' ciTypes \<and> fmdom' counts = fmdom' ciTypes \<and>
     (\<forall>k \<in> fmdom' ciTypes. mget_or 0 counts k = int (length (filter (\<lambda>p. p \<notin> set P) (parents ciTypes k)))) \<and>
     (\<forall>k \<in> fmdom' ciTypes. k \<in> set (P @ Q) \<longleftrightarrow> set (parents ciTypes k) \<subseteq> set P) \<and>
     (\<forall>xs k ys. P @ Q = xs @ k # ys \<longrightarrow> set (parents ciTypes k) \<subseteq> set xs)"

definition children_of :: "(string, CIType) fmap \<Rightarrow> (string, string list) fmap \<Rightarrow> bool" where
  "children_of ciTypes children \<longleftrightarrow>
     (\<forall>p k. count_list (mget_or [] children p) k = count_list (parents ciTypes k) p)"

lemma parents_dom: "p \<in> set (parents ciTypes k) \<Longrightarrow> k \<in> fmdom' ciTypes"
  by (cases "mget ciTypes k") (auto simp: parents_def fmlookup_dom'_iff)

lemma filter_insert_length:
  "p \<notin> S \<Longrightarrow> int (length (filter (\<lambda>x. x \<notin> insert p S) xs)) =
     int (length (filter (\<lambda>x. x \<notin> S) xs)) - int (count_list xs p)"
  by (induction xs) auto

lemma split_last_part:
  assumes "P @ Q @ new = xs @ k # ys" and "k \<in> set new" and "distinct (P @ Q @ new)"
  shows "set P \<subseteq> set xs"
proof -
  have "\<not> length xs < length P"
  proof
    assume *: "length xs < length P"
    then have "k = P ! length xs" using assms(1) by (metis nth_append nth_append_length)
    with * have "k \<in> set P" by simp
    with assms(2,3) show False by auto
  qed
  then have "take (length P) xs = P" using assms(1) by (metis append_eq_append_conv_if not_less)
  then show ?thesis by (metis set_take_subset)
qed

lemma visit_inv_step:
  assumes inv: "visit_inv ciTypes P (p # R) counts" and ch: "children_of ciTypes children"
  shows "visit_inv ciTypes (P @ [p]) (snd (fold release_child (mget_or [] children p) (counts, R)))
           (fst (fold release_child (mget_or [] children p) (counts, R)))"
proof -
  let ?cs = "mget_or [] children p"
  have p: "p \<notin> set P" using inv by (simp add: visit_inv_def)
  have cnt: "count_list ?cs k = count_list (parents ciTypes k) p" for k
    using ch by (simp add: children_of_def)
  then have cs: "c \<in> set ?cs \<longleftrightarrow> p \<in> set (parents ciTypes c)" for c by (metis count_list_le_0)
  have counts: "mget_or 0 counts k = int (length (filter (\<lambda>p. p \<notin> set P) (parents ciTypes k)))"
    if "k \<in> fmdom' ciTypes" for k using inv that by (simp add: visit_inv_def)
  have rest: "mget_or 0 counts k - int (count_list ?cs k) =
      int (length (filter (\<lambda>x. x \<notin> set (P @ [p])) (parents ciTypes k)))" if "k \<in> fmdom' ciTypes" for k
    using filter_insert_length [OF p, of "parents ciTypes k"] counts [OF that] cnt by simp
  have "int (count_list ?cs c) \<le> mget_or 0 counts c" if "c \<in> set ?cs" for c
    using rest [OF parents_dom] that cs by fastforce
  from release_children [OF this, of R] obtain new where
    new: "snd (fold release_child ?cs (counts, R)) = R @ new" "distinct new"
      "set new = {c \<in> set ?cs. mget_or 0 counts c = int (count_list ?cs c)}"
    and counts': "\<And>k. mget_or 0 (fst (fold release_child ?cs (counts, R))) k = mget_or 0 counts k - int (count_list ?cs k)"
    and dom: "fmdom' (fst (fold release_child ?cs (counts, R))) = fmdom' counts \<union> set ?cs" by blast
  have new_iff: "k \<in> set new \<longleftrightarrow> p \<in> set (parents ciTypes k) \<and> set (parents ciTypes k) \<subseteq> set (P @ [p])" for k
  proof (cases "p \<in> set (parents ciTypes k)")
    case True
    have "mget_or 0 counts k = int (count_list ?cs k) \<longleftrightarrow> filter (\<lambda>x. x \<notin> set (P @ [p])) (parents ciTypes k) = []"
      unfolding length_0_conv [symmetric] using rest [OF parents_dom [OF True]] by linarith
    with True show ?thesis by (auto simp: new(3) cs filter_empty_conv)
  qed (simp add: new(3) cs)
  have old: "k \<in> set (P @ p # R) \<longleftrightarrow> set (parents ciTypes k) \<subseteq> set P" if "k \<in> fmdom' ciTypes" for k
    using inv that unfolding visit_inv_def by blast
  have new_dom: "k \<in> fmdom' ciTypes" if "k \<in> set new" for k using that new_iff parents_dom by blast
  have fresh: "k \<notin> set (P @ p # R)" if "k \<in> set new" for k
    using that new_iff old [OF new_dom] p by blast
  have dist: "distinct (P @ [p] @ R @ new)"
    using inv new(2) fresh by (auto simp: visit_inv_def)
  show ?thesis
    unfolding visit_inv_def new(1) counts' dom
  proof (intro conjI ballI allI impI)
    show "distinct ((P @ [p]) @ R @ new)" using dist by simp
    show "set ((P @ [p]) @ R @ new) \<subseteq> fmdom' ciTypes" using inv new_dom by (auto simp: visit_inv_def)
    show "fmdom' counts \<union> set ?cs = fmdom' ciTypes" using inv cs parents_dom by (auto simp: visit_inv_def)
  next
    fix k assume "k \<in> fmdom' ciTypes"
    then show "mget_or 0 counts k - int (count_list ?cs k) =
      int (length (filter (\<lambda>x. x \<notin> set (P @ [p])) (parents ciTypes k)))" by (rule rest)
  next
    fix k assume k: "k \<in> fmdom' ciTypes"
    show "k \<in> set ((P @ [p]) @ R @ new) \<longleftrightarrow> set (parents ciTypes k) \<subseteq> set (P @ [p])"
      using old [OF k] new_iff [of k] by auto
  next
    fix xs k ys assume e: "(P @ [p]) @ R @ new = xs @ k # ys"
    show "set (parents ciTypes k) \<subseteq> set xs"
    proof (cases "k \<in> set new")
      case True
      from split_last_part [of "P @ [p]" R new, OF _ True] e dist have "set (P @ [p]) \<subseteq> set xs" by auto
      with True new_iff show ?thesis by blast
    next
      case False
      then have "k \<in> set (P @ p # R)" using e by (metis Un_iff append.assoc append_Cons append_Nil in_set_conv_decomp set_append)
      then obtain xs' ys' where x: "P @ p # R = xs' @ k # ys'" by (meson split_list)
      have whole: "(P @ [p]) @ R @ new = xs' @ k # (ys' @ new)" using x by simp
      have "distinct (xs' @ k # (ys' @ new))" unfolding whole [symmetric] using dist by simp
      then have "k \<notin> set xs'" "k \<notin> set (ys' @ new)" by auto
      from append_Cons_eq_iff [OF this, of xs ys] whole e have "xs' = xs" by metis
      with x inv show ?thesis unfolding visit_inv_def by blast
    qed
  qed
qed

lemma visit_kinds_inv:
  assumes "visit_inv ciTypes P Q counts" and "children_of ciTypes children"
  shows "\<exists>P'. visit_inv ciTypes (P @ P') [] (snd (visit_kinds children counts Q n)) \<and>
              fst (visit_kinds children counts Q n) = n + length P'"
  using assms
proof (induction children counts Q n arbitrary: P rule: visit_kinds.induct)
  case (1 children counts Q n)
  show ?case
  proof (cases Q)
    case Nil
    with "1.prems" show ?thesis by (intro exI [of _ "[]"]) (simp add: visit_kinds.simps [of children counts "[]"])
  next
    case (Cons p R)
    from visit_inv_step [of ciTypes P p R counts children] "1.prems" Cons
    have "visit_inv ciTypes (P @ [p]) (snd (fold release_child (mget_or [] children p) (counts, R)))
           (fst (fold release_child (mget_or [] children p) (counts, R)))" by simp
    from "1.IH" [OF Cons this "1.prems"(2)] obtain P' where
      "visit_inv ciTypes ((P @ [p]) @ P') [] (snd (visit_kinds children counts Q n))"
      "fst (visit_kinds children counts Q n) = n + 1 + length P'"
      by (auto simp: visit_kinds.simps [of children counts "p # R"] Cons)
    then show ?thesis by (intro exI [of _ "p # P'"]) simp
  qed
qed

definition hierarchy_of :: "(string, CIType) fmap \<Rightarrow> string set \<Rightarrow> hierarchy \<Rightarrow> bool" where
  "hierarchy_of ciTypes done_kinds h \<longleftrightarrow>
     (\<forall>p k. count_list (mget_or [] (hi_children h) p) k = (if k \<in> done_kinds then count_list (parents ciTypes k) p else 0)) \<and>
     fmdom' (hi_counts h) = done_kinds \<and>
     (\<forall>k \<in> done_kinds. mget_or 0 (hi_counts h) k = int (length (parents ciTypes k))) \<and>
     distinct (hi_queue h) \<and> set (hi_queue h) = {k \<in> done_kinds. parents ciTypes k = []} \<and>
     (\<forall>k \<in> done_kinds. set (parents ciTypes k) \<subseteq> fmdom' ciTypes)"

lemma hierarchy_parents_loop:
  assumes "foldM (hierarchy_parent_step ciTypes kind) h ps = Inr h'"
  shows "set ps \<subseteq> fmdom' ciTypes \<and> hi_counts h' = hi_counts h \<and> hi_queue h' = hi_queue h \<and>
         (\<forall>p k. count_list (mget_or [] (hi_children h') p) k =
                count_list (mget_or [] (hi_children h) p) k + (if k = kind then count_list ps p else 0))"
  using assms
proof (induction ps arbitrary: h)
  case (Cons q ps)
  then obtain h1 where h1: "hierarchy_parent_step ciTypes kind h q = Inr h1" "foldM (hierarchy_parent_step ciTypes kind) h1 ps = Inr h'"
    by auto
  then have "q \<in> fmdom' ciTypes" "hi_counts h1 = hi_counts h" "hi_queue h1 = hi_queue h"
    "hi_children h1 = fmupd q (mget_or [] (hi_children h) q @ [kind]) (hi_children h)"
    by (auto simp: hierarchy_parent_step_def fmlookup_dom'_iff split: if_splits)
  with Cons.IH [OF h1(2)] show ?case by simp
qed simp

lemma hierarchy_step_of:
  assumes "hierarchy_step ciTypes h (kind, ciType) = Inr h'" and "hierarchy_of ciTypes K h"
    and "mget ciTypes kind = Some ciType" and "kind \<notin> K"
  shows "hierarchy_of ciTypes (insert kind K) h'"
proof -
  have p: "parents ciTypes kind = ct_Extends ciType" using assms(3) by (simp add: parents_def)
  from hierarchy_parents_loop [OF assms(1) [unfolded hierarchy_step_def prod.case]]
  show ?thesis using assms(2,4) unfolding hierarchy_of_def p [symmetric]
    by (auto simp: mget_or_def)
qed

lemma hierarchy_loop:
  assumes "foldM (hierarchy_step ciTypes) empty_hierarchy (entries ciTypes) = Inr h"
  shows "hierarchy_of ciTypes (fmdom' ciTypes) h"
proof -
  have "foldM (hierarchy_step ciTypes) h0 kvs = Inr h \<Longrightarrow> set kvs \<subseteq> set (entries ciTypes) \<Longrightarrow> distinct (map fst kvs) \<Longrightarrow>
        K \<inter> fst ` set kvs = {} \<Longrightarrow> hierarchy_of ciTypes K h0 \<Longrightarrow> hierarchy_of ciTypes (K \<union> fst ` set kvs) h" for h0 kvs K
  proof (induction kvs arbitrary: h0 K)
    case (Cons kv kvs)
    obtain k t where kv: "kv = (k, t)" by (cases kv)
    from Cons.prems(1) obtain h1 where h1: "hierarchy_step ciTypes h0 (k, t) = Inr h1" "foldM (hierarchy_step ciTypes) h1 kvs = Inr h"
      by (auto simp: kv)
    have "hierarchy_of ciTypes (insert k K) h1"
      using Cons.prems by (intro hierarchy_step_of [OF h1(1)]) (auto simp: kv)
    from Cons.IH [OF h1(2) _ _ _ this] Cons.prems show ?case by (auto simp: kv)
  qed simp
  from this [OF assms, of "{}"] show ?thesis by (simp add: hierarchy_of_def empty_hierarchy_def mget_or_def)
qed

lemma visit_inv_start:
  assumes "hierarchy_of ciTypes (fmdom' ciTypes) h"
  shows "visit_inv ciTypes [] (hi_queue h) (hi_counts h) \<and> children_of ciTypes (hi_children h)"
proof
  have none: "parents ciTypes k = []" if "k \<notin> fmdom' ciTypes" for k
    using that by (auto simp: parents_def fmlookup_dom'_iff split: option.splits)
  show "children_of ciTypes (hi_children h)"
    using assms none unfolding hierarchy_of_def children_of_def by (metis count_list.simps(1))
  show "visit_inv ciTypes [] (hi_queue h) (hi_counts h)"
    unfolding visit_inv_def append_Nil
  proof (intro conjI ballI allI impI)
    fix xs k ys
    assume "hi_queue h = xs @ k # ys"
    then have "k \<in> set (hi_queue h)" by simp
    then show "set (parents ciTypes k) \<subseteq> set xs" using assms by (auto simp: hierarchy_of_def)
  qed (use assms in \<open>auto simp: hierarchy_of_def\<close>)
qed

lemma layered_of_visit:
  assumes "visit_inv ciTypes P [] counts" and "length P = length (skeys ciTypes)"
  shows "layered ciTypes P"
proof -
  have "card (set P) = card (fmdom' ciTypes)"
    using assms by (metis append_Nil2 distinct_card distinct_skeys set_skeys visit_inv_def)
  then have "set P = fmdom' ciTypes"
    using assms(1) by (metis append_Nil2 card_subset_eq finite_fmdom' visit_inv_def)
  with assms(1) show ?thesis by (auto simp: visit_inv_def layered_def)
qed

lemma layered_visits_all:
  assumes "layered ciTypes ks" and "visit_inv ciTypes P [] counts"
  shows "set P = fmdom' ciTypes"
proof (rule ccontr)
  assume "set P \<noteq> fmdom' ciTypes"
  then have ex: "\<exists>k \<in> set ks. k \<notin> set P" using assms by (auto simp: layered_def visit_inv_def)
  from split_list_first_prop [OF ex] obtain xs k ys where
    k: "ks = xs @ k # ys" "k \<notin> set P" "\<forall>x \<in> set xs. x \<in> set P" by auto
  then have "set (parents ciTypes k) \<subseteq> set P" using assms(1) unfolding layered_def by blast
  moreover have "k \<in> fmdom' ciTypes" using k(1) assms(1) by (auto simp: layered_def)
  ultimately show False using assms(2) k(2) by (auto simp: visit_inv_def)
qed

lemma hierarchy_complete:
  assumes "layered ciTypes ks"
  shows "\<exists>h. foldM (hierarchy_step ciTypes) empty_hierarchy (entries ciTypes) = Inr h"
proof -
  have step: "\<exists>h'. hierarchy_step ciTypes h kv = Inr h'" if kv: "kv \<in> set (entries ciTypes)" for h kv
  proof -
    obtain k t where k: "kv = (k, t)" by (cases kv)
    with kv have "k \<in> set ks" "parents ciTypes k = ct_Extends t"
      using assms by (auto simp: layered_def parents_def fmlookup_dom'_iff)
    then have "set (ct_Extends t) \<subseteq> fmdom' ciTypes"
      using assms unfolding layered_def by (metis (no_types, lifting) Un_iff set_append split_list subset_iff)
    then have "\<exists>h'. foldM (hierarchy_parent_step ciTypes k) h (ct_Extends t) = Inr h' \<and> True" for h
      by (intro foldM_succeeds) (auto simp: hierarchy_parent_step_def fmlookup_dom'_iff)
    then show ?thesis by (simp add: k hierarchy_step_def)
  qed
  have "\<exists>h. foldM (hierarchy_step ciTypes) empty_hierarchy (entries ciTypes) = Inr h \<and> True"
    using step by (intro foldM_succeeds) auto
  then show ?thesis by simp
qed

lemma validateCITypes_layered:
  "validateCITypes ciTypes = Inr () \<longleftrightarrow> (\<exists>ks. layered ciTypes ks)"
proof
  assume v: "validateCITypes ciTypes = Inr ()"
  then obtain h where h: "foldM (hierarchy_step ciTypes) empty_hierarchy (entries ciTypes) = Inr h"
    by (auto simp: validateCITypes_def)
  from visit_inv_start [OF hierarchy_loop [OF h]] visit_kinds_inv [of ciTypes "[]" _ _ _ 0] obtain P where
    P: "visit_inv ciTypes P [] (snd (visit_kinds (hi_children h) (hi_counts h) (hi_queue h) 0))"
      "fst (visit_kinds (hi_children h) (hi_counts h) (hi_queue h) 0) = length P"
    by fastforce
  have "length P = length (skeys ciTypes)"
  proof (rule ccontr)
    assume "length P \<noteq> length (skeys ciTypes)"
    then have "set P \<noteq> fmdom' ciTypes" using P(1)
      by (metis append_Nil2 distinct_card distinct_skeys set_skeys visit_inv_def)
    then obtain k where k: "k \<in> fmdom' ciTypes" "k \<notin> set P"
      using P(1) unfolding visit_inv_def append_Nil2 by blast
    let ?counts = "snd (visit_kinds (hi_children h) (hi_counts h) (hi_queue h) 0)"
    have "\<not> set (parents ciTypes k) \<subseteq> set P" using P(1) k unfolding visit_inv_def by auto
    then have "filter (\<lambda>p. p \<notin> set P) (parents ciTypes k) \<noteq> []" by (auto simp: filter_empty_conv)
    then have "mget_or 0 ?counts k > 0" "k \<in> set (skeys ?counts)" using P(1) k by (auto simp: visit_inv_def)
    then have "find (\<lambda>kind. mget_or 0 ?counts kind > 0) (skeys ?counts) \<noteq> None" by (auto simp: find_None_iff)
    with v h P(2) \<open>length P \<noteq> length (skeys ciTypes)\<close> show False
      by (auto simp: validateCITypes_def Let_def case_prod_beta split: option.splits if_splits)
  qed
  with layered_of_visit [OF P(1)] show "\<exists>ks. layered ciTypes ks" by blast
next
  assume "\<exists>ks. layered ciTypes ks"
  then obtain ks where ks: "layered ciTypes ks" by blast
  from hierarchy_complete [OF ks] obtain h where h: "foldM (hierarchy_step ciTypes) empty_hierarchy (entries ciTypes) = Inr h"
    by blast
  from visit_inv_start [OF hierarchy_loop [OF h]] visit_kinds_inv [of ciTypes "[]" _ _ _ 0] obtain P where
    P: "visit_inv ciTypes P [] (snd (visit_kinds (hi_children h) (hi_counts h) (hi_queue h) 0))"
      "fst (visit_kinds (hi_children h) (hi_counts h) (hi_queue h) 0) = length P"
    by fastforce
  have "length P = length (skeys ciTypes)"
    using layered_visits_all [OF ks P(1)] P(1) by (metis append_Nil2 distinct_card distinct_skeys set_skeys visit_inv_def)
  with h P(2) show "validateCITypes ciTypes = Inr ()" by (simp add: validateCITypes_def case_prod_beta Let_def)
qed

text \<open>C22. The hierarchy check accepts exactly the well-founded hierarchies: \<open>validateCITypes\<close> succeeds if and
  only if all kinds can be ordered so that every kind comes after all its (existing) parents.\<close>

theorem validateCITypes_iff_layered:
  "validateCITypes ciTypes = Inr () \<longleftrightarrow> (\<exists>ks. layered ciTypes ks)"
  by (rule validateCITypes_layered)

section \<open>Inheritance\<close>

text \<open>The fields of a kind: those of its parents in the order of \<open>extends\<close>, later parents overriding earlier
  ones, overridden by its own.\<close>

inductive effective :: "(string, CIType) fmap \<Rightarrow> string \<Rightarrow> Specs \<Rightarrow> bool" for ciTypes where
  unknown: "mget ciTypes kind = None \<Longrightarrow> effective ciTypes kind fmempty"
| known: "mget ciTypes kind = Some ciType \<Longrightarrow> list_all2 (effective ciTypes) (ct_Extends ciType) inherited \<Longrightarrow>
          effective ciTypes kind (put_all (ct_Fields ciType) (fold put_all inherited fmempty))"

inductive_cases effectiveE: "effective ciTypes kind flds"

lemma effective_unique: "effective ciTypes kind flds \<Longrightarrow> effective ciTypes kind flds' \<Longrightarrow> flds' = flds"
proof (induction arbitrary: flds' rule: effective.induct)
  case (unknown kind)
  then show ?case by (auto elim: effectiveE)
next
  case (known kind ciType inherited)
  from known.prems known.hyps obtain inherited' where
    f: "flds' = put_all (ct_Fields ciType) (fold put_all inherited' fmempty)"
    and l: "list_all2 (effective ciTypes) (ct_Extends ciType) inherited'"
    by (auto elim: effectiveE)
  from known.IH l have "inherited' = inherited"
    by (auto simp: list_all2_conv_all_nth intro!: nth_equalityI)
  then show ?case by (simp add: f)
qed

definition sound_cache :: "(string, CIType) fmap \<Rightarrow> spec_cache \<Rightarrow> bool" where
  "sound_cache ciTypes cache \<longleftrightarrow> (\<forall>k f. mget cache k = Some f \<longrightarrow> effective ciTypes k f)"

lemma inherit_loop:
  assumes "foldM (\<lambda>st parent. if mget ciTypes parent = None then Inl (CITypeMissingParent kind parent)
             else inheritFields st (effectiveFields ciTypes parent seen (snd st))) (flds, cache) ps = Inr (flds', cache')"
    and "sound_cache ciTypes cache"
    and "\<And>p c f c'. p \<in> set ps \<Longrightarrow> sound_cache ciTypes c \<Longrightarrow> effectiveFields ciTypes p seen c = Inr (f, c') \<Longrightarrow>
           effective ciTypes p f \<and> sound_cache ciTypes c'"
  shows "\<exists>inherited. list_all2 (effective ciTypes) ps inherited \<and> flds' = fold put_all inherited flds \<and> sound_cache ciTypes cache'"
  using assms
proof (induction ps arbitrary: flds cache)
  case (Cons p ps)
  from Cons.prems(1) obtain f c' where e: "effectiveFields ciTypes p seen cache = Inr (f, c')"
    and l: "foldM (\<lambda>st parent. if mget ciTypes parent = None then Inl (CITypeMissingParent kind parent)
             else inheritFields st (effectiveFields ciTypes parent seen (snd st))) (put_all f flds, c') ps = Inr (flds', cache')"
    by (auto simp: inheritFields_def split: if_splits)
  from Cons.prems(3) [OF _ Cons.prems(2) e] have p: "effective ciTypes p f" "sound_cache ciTypes c'" by auto
  have "\<exists>inherited. list_all2 (effective ciTypes) ps inherited \<and> flds' = fold put_all inherited (put_all f flds) \<and>
          sound_cache ciTypes cache'"
  proof (rule Cons.IH [OF l p(2)])
    fix q c f' c''
    assume "q \<in> set ps" "sound_cache ciTypes c" "effectiveFields ciTypes q seen c = Inr (f', c'')"
    then show "effective ciTypes q f' \<and> sound_cache ciTypes c''" using Cons.prems(3) [of q c f' c''] by simp
  qed
  then obtain inherited where
    "list_all2 (effective ciTypes) ps inherited" "flds' = fold put_all inherited (put_all f flds)" "sound_cache ciTypes cache'"
    by blast
  with p(1) show ?case by (intro exI [of _ "f # inherited"]) simp
qed simp

lemma effectiveFields_sound:
  "effectiveFields ciTypes kind seen cache = Inr (f, cache') \<Longrightarrow> sound_cache ciTypes cache \<Longrightarrow>
   effective ciTypes kind f \<and> sound_cache ciTypes cache'"
proof (induction ciTypes kind seen cache arbitrary: f cache' rule: effectiveFields.induct)
  case (1 ciTypes kind seen cache)
  show ?case
  proof (cases "mget cache kind")
    case (Some g)
    with "1.prems" show ?thesis by (auto simp: effectiveFields.simps [of ciTypes kind] sound_cache_def)
  next
    case None
    show ?thesis
    proof (cases "mget ciTypes kind")
      case None
      with "1.prems" \<open>mget cache kind = None\<close> show ?thesis
        by (auto simp: effectiveFields.simps [of ciTypes kind] sound_cache_def effective.unknown split: if_splits)
    next
      case (Some t)
      from "1.prems"(1) None Some obtain g c where seen: "kind \<notin> seen"
        and l: "foldM (\<lambda>st parent. if mget ciTypes parent = None then Inl (CITypeMissingParent kind parent)
             else inheritFields st (effectiveFields ciTypes parent (insert kind seen) (snd st))) (fmempty, cache) (ct_Extends t)
             = Inr (g, c)"
        and f: "f = put_all (ct_Fields t) g" "cache' = fmupd kind f c"
        by (auto simp: effectiveFields.simps [of ciTypes kind] ownFields_def Let_def split: if_splits)
      have "\<exists>inherited. list_all2 (effective ciTypes) (ct_Extends t) inherited \<and> g = fold put_all inherited fmempty \<and>
              sound_cache ciTypes c"
      proof (rule inherit_loop [OF l "1.prems"(2)])
        fix p c0 f' c'
        assume p: "p \<in> set (ct_Extends t)" "sound_cache ciTypes c0"
          "effectiveFields ciTypes p (insert kind seen) c0 = Inr (f', c')"
        show "effective ciTypes p f' \<and> sound_cache ciTypes c'"
        proof (cases "mget ciTypes p")
          case None
          with p show ?thesis
            by (auto simp: effectiveFields.simps [of ciTypes p] sound_cache_def effective.unknown
                split: option.splits if_splits)
        next
          case (Some u)
          with "1.IH" [OF None \<open>mget ciTypes kind = Some t\<close> seen p(1), of "(fmempty, c0)" f' c'] p(2,3)
          show ?thesis by simp
        qed
      qed
      then obtain inherited where
        "list_all2 (effective ciTypes) (ct_Extends t) inherited" "g = fold put_all inherited fmempty" "sound_cache ciTypes c"
        by blast
      with Some f effective.known [OF Some] show ?thesis by (auto simp: sound_cache_def split: if_splits)
    qed
  qed
qed

lemma effectiveFields_total:
  assumes "layered ciTypes ks"
  shows "set xs \<inter> seen = {} \<Longrightarrow> k \<notin> seen \<Longrightarrow> ks = xs @ k # ys \<Longrightarrow>
         \<exists>f cache'. effectiveFields ciTypes k seen cache = Inr (f, cache')"
proof (induction "length xs" arbitrary: xs k ys seen cache rule: less_induct)
  case less
  have k: "k \<in> fmdom' ciTypes" "set (parents ciTypes k) \<subseteq> set xs"
    using assms less.prems(3) unfolding layered_def by auto
  then obtain t where t: "mget ciTypes k = Some t" "ct_Extends t = parents ciTypes k"
    by (auto simp: fmlookup_dom'_iff parents_def)
  have step: "\<exists>f c'. effectiveFields ciTypes p (insert k seen) c = Inr (f, c')" if "p \<in> set (ct_Extends t)" for p c
  proof -
    have "p \<in> set xs" using that k t by auto
    then obtain us vs where x: "xs = us @ p # vs" by (meson split_list)
    have "distinct ks" using assms by (simp add: layered_def)
    then have "set us \<inter> insert k seen = {}" "p \<notin> insert k seen" using less.prems by (auto simp: x)
    from less.hyps [OF _ this, of "vs @ k # ys"] show ?thesis using less.prems(3) by (simp add: x)
  qed
  have dom: "mget ciTypes p \<noteq> None" if "p \<in> set (ct_Extends t)" for p
  proof -
    have "p \<in> set ks" using that k t less.prems(3) by auto
    then have "p \<in> fmdom' ciTypes" using assms by (simp add: layered_def)
    then show ?thesis by (simp add: fmlookup_dom'_iff)
  qed
  have "\<exists>st. foldM (\<lambda>st parent. if mget ciTypes parent = None then Inl (CITypeMissingParent k parent)
             else inheritFields st (effectiveFields ciTypes parent (insert k seen) (snd st))) (fmempty, cache) (ct_Extends t)
             = Inr st \<and> True"
    using step dom by (intro foldM_succeeds) (fastforce simp: inheritFields_def)+
  then show ?case
    using t less.prems(2) by (auto simp: effectiveFields.simps [of ciTypes k] ownFields_def Let_def split: option.splits)
qed

lemma EffectiveFields_spec:
  assumes "validateCITypes ciTypes = Inr ()" and "sound_cache ciTypes cache"
  shows "\<exists>flds. EffectiveFields ciTypes kind = Inr flds \<and> effective ciTypes kind flds \<and>
           (\<forall>flds'. effective ciTypes kind flds' \<longrightarrow> flds' = flds) \<and>
           (\<exists>cache'. effectiveFieldsCached ciTypes kind cache = Inr (flds, cache') \<and> sound_cache ciTypes cache')"
proof -
  obtain ks where ks: "layered ciTypes ks" using assms(1) validateCITypes_layered by blast
  have total: "\<exists>f c'. effectiveFields ciTypes kind {} c = Inr (f, c')" for c
  proof (cases "kind \<in> fmdom' ciTypes")
    case True
    then obtain xs ys where "ks = xs @ kind # ys" using ks by (metis layered_def split_list)
    from effectiveFields_total [OF ks _ _ this, of "{}"] show ?thesis by simp
  next
    case False
    then show ?thesis by (auto simp: effectiveFields.simps [of ciTypes kind] fmlookup_dom'_iff split: option.splits)
  qed
  from total [of fmempty] obtain f c where f: "effectiveFields ciTypes kind {} fmempty = Inr (f, c)" by blast
  have eff: "effective ciTypes kind f" using effectiveFields_sound [OF f] by (simp add: sound_cache_def)
  from total [of cache] obtain f' c' where f': "effectiveFields ciTypes kind {} cache = Inr (f', c')" by blast
  from effectiveFields_sound [OF f' assms(2)] have c': "f' = f" "sound_cache ciTypes c'"
    using eff effective_unique by blast+
  have "effectiveFieldsCached ciTypes kind cache = Inr (f, c')"
    using f' c'(1) by (simp add: effectiveFieldsCached_def effectiveFields.simps [of ciTypes kind "{}" cache] split: option.splits)
  with f eff c' effective_unique show ?thesis by (auto simp: EffectiveFields_def)
qed

text \<open>C23. In an accepted hierarchy the fields of every kind are defined, unique, and independent of the cache
  and of the path: \<open>EffectiveFields\<close> succeeds and returns the inherited fields overridden by the
  kind's own, and a lookup through any cache of correct entries returns the same.\<close>

theorem EffectiveFields_correct:
  assumes "validateCITypes ciTypes = Inr ()" and "sound_cache ciTypes cache"
  shows "\<exists>flds. EffectiveFields ciTypes kind = Inr flds \<and> effective ciTypes kind flds \<and>
           (\<forall>flds'. effective ciTypes kind flds' \<longrightarrow> flds' = flds) \<and>
           (\<exists>cache'. effectiveFieldsCached ciTypes kind cache = Inr (flds, cache') \<and> sound_cache ciTypes cache')"
  using assms by (rule EffectiveFields_spec)

definition example_types :: "(string, CIType) fmap" where
  "example_types = fmap_of_list
     [(''base'', \<lparr>ct_Name = ''base'', ct_DisplayName = [], ct_Extends = [], ct_Fields = fmap_of_list [(''os'', zero_FieldSpec)],
                  ct_IdentityKeys = []\<rparr>),
      (''server'', \<lparr>ct_Name = ''server'', ct_DisplayName = [], ct_Extends = [''base''], ct_Fields = fmempty,
                  ct_IdentityKeys = []\<rparr>)]"

theorem EffectiveFields_correct_witness:
  "validateCITypes example_types = Inr () \<and> (\<exists>flds. EffectiveFields example_types ''server'' = Inr flds)"
proof -
  have v: "validateCITypes example_types = Inr ()" by code_simp
  have "sound_cache example_types fmempty" by (simp add: sound_cache_def)
  from EffectiveFields_correct [OF v this, of "''server''"] v show ?thesis by blast
qed

section \<open>Affected kinds\<close>

definition child_rel :: "(string, CIType) fmap \<Rightarrow> (string \<times> string) set" where
  "child_rel ciTypes = {(p, k). p \<in> set (parents ciTypes k)}"

lemma set_childKinds_rel: "set (childKinds ciTypes p) = child_rel ciTypes `` {p}"
proof (rule set_eqI)
  fix k
  show "k \<in> set (childKinds ciTypes p) \<longleftrightarrow> k \<in> child_rel ciTypes `` {p}"
    by (cases "mget ciTypes k") (auto simp: set_childKinds child_rel_def parents_def)
qed

lemma affect_kinds_closure:
  assumes "child_rel ciTypes `` (affected - set queue) \<subseteq> affected" and "set queue \<subseteq> affected"
  shows "affect_kinds ciTypes affected queue = (child_rel ciTypes)\<^sup>* `` affected"
  using assms
proof (induction ciTypes affected queue rule: affect_kinds.induct)
  case (1 ciTypes affected queue)
  show ?case
  proof (cases queue)
    case Nil
    with "1.prems" show ?thesis by (simp add: affect_kinds.simps [of ciTypes affected "[]"] Image_closed_trancl)
  next
    case (Cons p rest)
    let ?cs = "childKinds ciTypes p"
    from affect_children [of ?cs affected rest] obtain new where
      a: "fst (fold affect_child ?cs (affected, rest)) = affected \<union> set ?cs"
      and q: "snd (fold affect_child ?cs (affected, rest)) = rest @ new" "set new = set ?cs - affected" by auto
    have closed: "child_rel ciTypes `` (affected \<union> set ?cs - set (rest @ new)) \<subseteq> affected \<union> set ?cs"
      using "1.prems"(1) q(2) by (auto simp: Cons set_childKinds_rel)
    have "set (rest @ new) \<subseteq> affected \<union> set ?cs" using "1.prems"(2) q(2) Cons by auto
    with "1.IH" [OF Cons] closed a q have
      "affect_kinds ciTypes affected queue = (child_rel ciTypes)\<^sup>* `` (affected \<union> set ?cs)"
      by (simp add: affect_kinds.simps [of ciTypes affected "p # rest"] Cons)
    also have "\<dots> = (child_rel ciTypes)\<^sup>* `` affected"
    proof -
      have "p \<in> affected" using "1.prems"(2) Cons by simp
      then have "set ?cs \<subseteq> (child_rel ciTypes)\<^sup>* `` affected" by (auto simp: set_childKinds_rel)
      then have "(child_rel ciTypes)\<^sup>* `` set ?cs \<subseteq> (child_rel ciTypes)\<^sup>* `` affected"
        by (meson ImageE ImageI rtrancl_trans subsetD subsetI)
      then show ?thesis by (auto simp: Image_Un)
    qed
    finally show ?thesis .
  qed
qed

text \<open>C24. The kinds revalidated after a schema change are exactly the changed kinds and all their
  descendants, direct or not.\<close>

theorem affectedCITypeKinds_closure:
  "finite changed \<Longrightarrow> affectedCITypeKinds ciTypes changed = (child_rel ciTypes)\<^sup>* `` changed"
  unfolding affectedCITypeKinds_def by (rule affect_kinds_closure) auto

theorem affectedCITypeKinds_closure_witness:
  "affectedCITypeKinds example_types {''base''} = (child_rel example_types)\<^sup>* `` {''base''}"
  by (rule affectedCITypeKinds_closure) simp

section \<open>Applying a schema makes an entity valid\<close>

lemma entitySchema_step_effect:
  assumes "entitySchema_step t (n, spec) = Inr t'"
  shows "validateEntityField t' (n, spec) = Inr () \<and>
         t' = t\<lparr>ent_Fields := (if mget (ent_Fields t) n = None \<and> spec_Default spec \<noteq> VNil
                               then fmupd n (spec_Default spec) (ent_Fields t) else ent_Fields t)\<rparr>"
  using assms by (auto simp: entitySchema_step_def validateEntityField_def Let_def split: option.splits if_splits)

lemma validateEntityField_cong:
  "mget (ent_Fields t) n = mget (ent_Fields t') n \<Longrightarrow> ent_ID t = ent_ID t' \<Longrightarrow> ent_Kind t = ent_Kind t' \<Longrightarrow>
   validateEntityField t (n, spec) = validateEntityField t' (n, spec)"
  by (simp add: validateEntityField_def checkFieldValue_def split: option.splits)

definition defaulted :: "Entity \<Rightarrow> Specs \<Rightarrow> Entity \<Rightarrow> bool" where
  "defaulted e specs t \<longleftrightarrow>
     (\<exists>flds. t = e\<lparr>ent_Fields := flds\<rparr> \<and>
        (\<forall>f. mget flds f =
               (case mget (ent_Fields e) f of
                  Some v \<Rightarrow> Some v
                | None \<Rightarrow> (case mget specs f of
                             Some spec \<Rightarrow> if spec_Default spec = VNil then None else Some (spec_Default spec)
                           | None \<Rightarrow> None))))"

lemma entitySchema_loop:
  assumes "foldM entitySchema_step e (entries specs) = Inr e'"
  shows "defaulted e specs e' \<and> validateEntityFieldsWithSpecs e' specs = Inr ()"
proof -
  define I where "I ks t \<longleftrightarrow> (\<forall>(n, s) \<in> ks. validateEntityField t (n, s) = Inr ()) \<and>
     (\<exists>flds. t = e\<lparr>ent_Fields := flds\<rparr> \<and>
        (\<forall>f. mget flds f =
               (case mget (ent_Fields e) f of
                  Some v \<Rightarrow> Some v
                | None \<Rightarrow> (case mget specs f of
                             Some spec \<Rightarrow> if (f, spec) \<in> ks \<and> spec_Default spec \<noteq> VNil then Some (spec_Default spec) else None
                           | None \<Rightarrow> None))))" for ks and t :: Entity
  have "I (set (entries specs)) e'"
  proof (rule foldM_processed [OF assms])
    show "I {} e" by (auto simp: I_def split: option.splits intro!: exI [of _ "ent_Fields e"])
  next
    fix ks t x t'
    assume x: "x \<in> set (entries specs)" and I: "I ks t" and step: "entitySchema_step t x = Inr t'"
    obtain n s where ns: "x = (n, s)" by (cases x)
    with x have sp: "mget specs n = Some s" by simp
    from entitySchema_step_effect [OF step [unfolded ns]] have
      v: "validateEntityField t' (n, s) = Inr ()"
      and t': "t' = t\<lparr>ent_Fields := (if mget (ent_Fields t) n = None \<and> spec_Default s \<noteq> VNil
                               then fmupd n (spec_Default s) (ent_Fields t) else ent_Fields t)\<rparr>" by auto
    have old: "validateEntityField t' (m, s') = Inr ()" if "(m, s') \<in> ks" "m \<noteq> n" for m s'
      using that I validateEntityField_cong [of t' m t s'] by (auto simp: I_def t')
    have "validateEntityField t' (m, s') = Inr ()" if "(m, s') \<in> insert x ks" "ks \<subseteq> set (entries specs)" for m s'
    proof (cases "m = n")
      case True
      then have "s' = s" using that sp x ns by auto
      with v True show ?thesis by simp
    qed (use that old ns in auto)
    moreover obtain flds where "t = e\<lparr>ent_Fields := flds\<rparr>" and flds: "\<forall>f. mget flds f =
               (case mget (ent_Fields e) f of
                  Some v \<Rightarrow> Some v
                | None \<Rightarrow> (case mget specs f of
                             Some spec \<Rightarrow> if (f, spec) \<in> ks \<and> spec_Default spec \<noteq> VNil then Some (spec_Default spec) else None
                           | None \<Rightarrow> None))" using I by (auto simp: I_def)
    then have "\<exists>flds'. t' = e\<lparr>ent_Fields := flds'\<rparr> \<and>
        (\<forall>f. mget flds' f =
               (case mget (ent_Fields e) f of
                  Some v \<Rightarrow> Some v
                | None \<Rightarrow> (case mget specs f of
                             Some spec \<Rightarrow> if (f, spec) \<in> insert x ks \<and> spec_Default spec \<noteq> VNil then Some (spec_Default spec) else None
                           | None \<Rightarrow> None)))"
      by (intro exI [of _ "ent_Fields t'"]) (auto simp: t' ns sp split: option.splits if_splits)
    moreover assume "ks \<subseteq> set (entries specs)"
    ultimately show "I (insert x ks) t'" unfolding I_def by blast
  qed
  then obtain flds where valid: "\<forall>x \<in> set (entries specs). validateEntityField e' x = Inr ()"
    and e': "e' = e\<lparr>ent_Fields := flds\<rparr>"
    and flds: "\<And>f. mget flds f =
               (case mget (ent_Fields e) f of
                  Some v \<Rightarrow> Some v
                | None \<Rightarrow> (case mget specs f of
                             Some spec \<Rightarrow> if (f, spec) \<in> set (entries specs) \<and> spec_Default spec \<noteq> VNil
                                          then Some (spec_Default spec) else None
                           | None \<Rightarrow> None))"
    unfolding I_def by auto
  have "defaulted e specs e'"
    unfolding defaulted_def by (intro exI [of _ flds] conjI allI e') (simp add: flds split: option.split)
  with valid show ?thesis by (simp add: validateEntityFieldsWithSpecs_def checkM_eq_Inr)
qed

lemma populateIdentity_fields [simp]:
  "ent_Fields (populateIdentity ct e) = ent_Fields e" "ent_ID (populateIdentity ct e) = ent_ID e"
  "ent_Kind (populateIdentity ct e) = ent_Kind e"
  by (simp_all add: populateIdentity_def Let_def)

text \<open>C25. Applying a schema to an incoming entity either fails or yields an entity that passes the schema
  check: every present field keeps its value, and exactly the missing fields with a default are filled.\<close>

theorem applyEntitySchemaWithSpecs_valid:
  assumes "applyEntitySchemaWithSpecs ciTypes entity specs = Inr entity'"
  shows "validateEntityFieldsWithSpecs entity' specs = Inr () \<and>
         mget (ent_Fields entity') f =
           (case mget (ent_Fields entity) f of
              Some v \<Rightarrow> Some v
            | None \<Rightarrow> (case mget specs f of
                         Some spec \<Rightarrow> if spec_Default spec = VNil then None else Some (spec_Default spec)
                       | None \<Rightarrow> None))"
proof -
  from assms obtain t where t: "foldM entitySchema_step entity (entries specs) = Inr t"
    and e': "entity' = populateIdentity ciTypes
       (t\<lparr>ent_Identity := fmfilter (\<lambda>name. mget (ent_Identity t) name \<noteq> Some VNil) (ent_Identity t)\<rparr>)"
    by (auto simp: applyEntitySchemaWithSpecs_def)
  have "validateEntityFieldsWithSpecs entity' specs = validateEntityFieldsWithSpecs t specs"
  proof -
    have "validateEntityField entity' = validateEntityField t"
      by (rule ext) (auto intro: validateEntityField_cong simp: e')
    then show ?thesis by (simp add: validateEntityFieldsWithSpecs_def)
  qed
  with entitySchema_loop [OF t] show ?thesis by (auto simp: e' defaulted_def)
qed

theorem applyEntitySchemaWithSpecs_valid_witness:
  "\<exists>entity'. applyEntitySchemaWithSpecs fmempty zero_Entity
       (fmap_of_list [(''env'', zero_FieldSpec\<lparr>spec_Type := ''string'', spec_Required := True, spec_Default := VString ''prod''\<rparr>)])
       = Inr entity' \<and> mget (ent_Fields entity') ''env'' = Some (VString ''prod'')"
proof -
  let ?specs = "fmap_of_list [(''env'', zero_FieldSpec\<lparr>spec_Type := ''string'', spec_Required := True, spec_Default := VString ''prod''\<rparr>)]"
  have "\<not> isl (applyEntitySchemaWithSpecs fmempty zero_Entity ?specs)" by code_simp
  then obtain e where e: "applyEntitySchemaWithSpecs fmempty zero_Entity ?specs = Inr e"
    by (cases "applyEntitySchemaWithSpecs fmempty zero_Entity ?specs") auto
  from applyEntitySchemaWithSpecs_valid [OF e, of "''env''"] e show ?thesis by (simp add: zero_Entity_def)
qed

end
