(* ===== verification/EdgeModel.thy ===== *)
theory EdgeModel
  imports Schema "HOL-Library.Product_Lexorder"
begin

text \<open>
  Edges on their own (\<open>edge_identity.go\<close>, \<open>edge_merge.go\<close>, and \<open>normalizeEdge\<close> of \<open>validate.go\<close>):
  the canonical identifier of an edge, its sources and owners, the merge of an incoming edge into a
  stored one, and the merge of a list of edges into a map keyed by canonical identifier. The part of
  \<open>edge_validate.go\<close> that needs no graph state is here too.
\<close>

section \<open>Canonical identity\<close>

definition CanonicalEdgeIDParts :: "string \<Rightarrow> string \<Rightarrow> string \<Rightarrow> string" where
  "CanonicalEdgeIDParts relationType from to =
     ''edge:'' @ take 32 (hex_digest (sha256
       (TrimSpace relationType @ [nul] @ TrimSpace from @ [nul] @ TrimSpace to)))"

definition CanonicalEdgeID :: "Edge \<Rightarrow> string" where
  "CanonicalEdgeID edge = CanonicalEdgeIDParts (edge_Type edge) (edge_From edge) (edge_To edge)"

section \<open>Sources and owners\<close>

definition edge_source_key :: "EdgeSource \<Rightarrow> string" where
  "edge_source_key source = eds_Source source @ [nul] @ eds_ExternalID source @ [nul] @ eds_EdgeID source"

definition normalizeEdgeSource_step ::
  "time \<Rightarrow> EdgeSource \<Rightarrow> string set \<times> EdgeSource list \<Rightarrow> string set \<times> EdgeSource list" where
  "normalizeEdgeSource_step observedAt rawSource = (\<lambda>(seen, out).
     let source = rawSource\<lparr>eds_Source := TrimSpace (eds_Source rawSource),
                            eds_ExternalID := TrimSpace (eds_ExternalID rawSource),
                            eds_EdgeID := TrimSpace (eds_EdgeID rawSource)\<rparr> in
     if eds_Source source = [] \<and> eds_ExternalID source = [] \<and> eds_EdgeID source = [] then (seen, out)
     else
       let source' = source\<lparr>eds_Confidence := clamp_confidence (eds_Confidence source),
                            eds_ObservedAt := (if eds_ObservedAt source = 0 then observedAt else eds_ObservedAt source)\<rparr>;
           key = edge_source_key source'
       in if key \<in> seen then (seen, out) else (insert key seen, out @ [source']))"

definition normalizeEdgeSourceList :: "EdgeSource list \<Rightarrow> time \<Rightarrow> EdgeSource list" where
  "normalizeEdgeSourceList sources observedAt =
     snd (fold (normalizeEdgeSource_step observedAt) sources ({}, []))"

definition normalizeEdgeSources :: "Edge \<Rightarrow> string \<Rightarrow> time \<Rightarrow> EdgeSource list" where
  "normalizeEdgeSources edge incomingID observedAt =
     (let sources =
        (if incomingID \<noteq> [] \<or> edge_Sources edge = [] \<and> (edge_Source edge \<noteq> [] \<or> edge_ExternalID edge \<noteq> [])
         then edge_Sources edge @
              [\<lparr>eds_Source = edge_Source edge, eds_ExternalID = edge_ExternalID edge, eds_EdgeID = incomingID,
                eds_Confidence = edge_Confidence edge, eds_Priority = edge_SourceRank edge,
                eds_ObservedAt = observedAt\<rparr>]
         else edge_Sources edge)
      in normalizeEdgeSourceList sources observedAt)"

definition mergeEdgeSource_step :: "EdgeSource \<Rightarrow> EdgeSource list \<Rightarrow> EdgeSource list" where
  "mergeEdgeSource_step source out =
     (case find (\<lambda>i. edge_source_key (out ! i) = edge_source_key source) (rev [0..<length out]) of
        None \<Rightarrow> out @ [source]
      | Some idx \<Rightarrow>
          if sourceRankBetter (eds_Priority source) (eds_Confidence source)
               (eds_Priority (out ! idx)) (eds_Confidence (out ! idx))
          then out[idx := source] else out)"

definition mergeEdgeSources :: "EdgeSource list \<Rightarrow> EdgeSource list \<Rightarrow> EdgeSource list" where
  "mergeEdgeSources left right = fold mergeEdgeSource_step right left"

definition ownerFromEdge :: "Edge \<Rightarrow> int \<Rightarrow> time \<Rightarrow> FieldSource" where
  "ownerFromEdge edge version updatedAt =
     fold (\<lambda>source best.
             if eds_Priority source > src_Priority best \<or>
                eds_Priority source = src_Priority best \<and> fless (src_Confidence best) (eds_Confidence source)
             then best\<lparr>src_Source := eds_Source source, src_Priority := eds_Priority source,
                       src_Confidence := eds_Confidence source\<rparr>
             else best)
       (edge_Sources edge)
       \<lparr>src_Source = edge_Source edge, src_Priority = edge_SourceRank edge,
        src_Confidence = edge_Confidence edge, src_Version = version, src_UpdatedAt = updatedAt\<rparr>"

definition writeOwnerFromEdge :: "Edge \<Rightarrow> int \<Rightarrow> time \<Rightarrow> FieldSource" where
  "writeOwnerFromEdge edge version updatedAt =
     \<lparr>src_Source = edge_Source edge, src_Priority = edge_SourceRank edge,
      src_Confidence = edge_Confidence edge, src_Version = version, src_UpdatedAt = updatedAt\<rparr>"

definition setEdgeFieldSource :: "Edge \<Rightarrow> string \<Rightarrow> FieldSource \<Rightarrow> Edge" where
  "setEdgeFieldSource edge field source =
     edge\<lparr>edge_FieldSources := fmupd field source (edge_FieldSources edge)\<rparr>"

definition backfillEdgeSources :: "Edge \<Rightarrow> int \<Rightarrow> time \<Rightarrow> Edge" where
  "backfillEdgeSources edge version updatedAt =
     (let owner = ownerFromEdge edge version updatedAt;
          edge1 = (if edge_ExistenceSource edge = None
                   then edge\<lparr>edge_ExistenceSource := Some owner\<rparr> else edge)
      in fold (\<lambda>field edge'. if mget (edge_FieldSources edge') field = None
                             then setEdgeFieldSource edge' field owner else edge')
           (skeys (edge_Fields edge1)) edge1)"

definition stampEdgeSources :: "Edge \<Rightarrow> int \<Rightarrow> time \<Rightarrow> Edge" where
  "stampEdgeSources edge version updatedAt =
     (let owner = writeOwnerFromEdge edge version updatedAt in
      edge\<lparr>edge_ExistenceSource := Some owner,
           edge_FieldSources := fmmap (\<lambda>_. owner) (edge_Fields edge)\<rparr>)"

definition edgeFieldSourceOrOwner :: "Edge \<Rightarrow> string \<Rightarrow> FieldSource" where
  "edgeFieldSourceOrOwner edge field =
     (case mget (edge_FieldSources edge) field of
        Some source \<Rightarrow> source
      | None \<Rightarrow>
          (case edge_ExistenceSource edge of
             Some owner \<Rightarrow> owner
           | None \<Rightarrow> ownerFromEdge edge (edge_Version edge) (edge_UpdatedAt edge)))"

definition canonicalizeEdge :: "Edge \<Rightarrow> int \<Rightarrow> time \<Rightarrow> Edge" where
  "canonicalizeEdge edge version updatedAt =
     (let canonicalID = CanonicalEdgeID edge;
          incomingID = (if edge_ID edge = canonicalID then [] else edge_ID edge);
          edge1 = edge\<lparr>edge_ID := canonicalID\<rparr>;
          edge2 = edge1\<lparr>edge_Sources := normalizeEdgeSources edge1 incomingID updatedAt\<rparr>
      in backfillEdgeSources edge2 version updatedAt)"

definition EdgeSourceAliasMatches :: "Edge \<Rightarrow> string \<Rightarrow> bool" where
  "EdgeSourceAliasMatches edge alias =
     (if alias = [] then False
      else if edge_ID edge = alias \<or> edge_ExternalID edge = alias then True
      else list_ex (\<lambda>source. eds_EdgeID source = alias \<or> eds_ExternalID source = alias) (edge_Sources edge))"

section \<open>Normalising an incoming edge\<close>

definition normalizeEdge :: "Edge \<Rightarrow> edge_error + Edge" where
  "normalizeEdge rawEdge =
     (let edge1 = rawEdge\<lparr>edge_ID := TrimSpace (edge_ID rawEdge), edge_Type := TrimSpace (edge_Type rawEdge),
                          edge_From := TrimSpace (edge_From rawEdge), edge_To := TrimSpace (edge_To rawEdge),
                          edge_Source := TrimSpace (edge_Source rawEdge),
                          edge_ExternalID := TrimSpace (edge_ExternalID rawEdge)\<rparr> in
      if edge_Type edge1 = [] then Inl EdgeRequiresType
      else if edge_From edge1 = [] \<or> edge_To edge1 = [] then Inl (EdgeRequiresEndpoints (edge_ID edge1))
      else
        rbind (map_sum (EdgeFields (edge_ID edge1)) id (normalizeFields (edge_Fields edge1))) (\<lambda>flds.
        let edge2 = edge1\<lparr>edge_Fields := flds\<rparr> in
        if fless (edge_Confidence edge2) (Fin 0) \<or> fless (Fin 1) (edge_Confidence edge2)
        then Inl (EdgeConfidence (edge_ID edge2))
        else Inr (edge2\<lparr>edge_FieldSources := normalizeFieldSources (edge_FieldSources edge2),
                        edge_Sources := normalizeEdgeSourceList (edge_Sources edge2) (edge_UpdatedAt edge2)\<rparr>)))"

definition sanitizeIncomingEdgeSources :: "Edge \<Rightarrow> Edge" where
  "sanitizeIncomingEdgeSources edge = edge\<lparr>edge_Sources := []\<rparr>"

section \<open>Merging edges\<close>

definition edgeConflict ::
  "string \<Rightarrow> string \<Rightarrow> string \<Rightarrow> FieldSource \<Rightarrow> FieldSource \<Rightarrow> any \<Rightarrow> any \<Rightarrow> string \<Rightarrow> FieldConflict" where
  "edgeConflict edgeID incomingID field existing incoming existingValue incomingValue message =
     zero_FieldConflict
       \<lparr>fc_ResourceType := ''edge'', fc_EdgeID := edgeID, fc_CanonicalID := edgeID, fc_IncomingID := incomingID,
        fc_Field := field, fc_ExistingSource := src_Source existing, fc_ExistingPriority := src_Priority existing,
        fc_IncomingSource := src_Source incoming, fc_IncomingPriority := src_Priority incoming,
        fc_ExistingValue := existingValue, fc_IncomingValue := incomingValue, fc_Message := message\<rparr>"

definition put_edge_field :: "Edge \<Rightarrow> string \<Rightarrow> any \<Rightarrow> FieldSource \<Rightarrow> Edge" where
  "put_edge_field edge field value source =
     setEdgeFieldSource (edge\<lparr>edge_Fields := fmupd field value (edge_Fields edge)\<rparr>) field source"

definition mergeEdge_step ::
  "string \<Rightarrow> string \<Rightarrow> FieldSource \<Rightarrow> string \<times> any \<Rightarrow> Edge \<times> FieldConflict list \<Rightarrow> Edge \<times> FieldConflict list" where
  "mergeEdge_step canonicalID incomingID incomingOwner = (\<lambda>(field, value) (merged, suppressed).
     case mget (edge_Fields merged) field of
       None \<Rightarrow> (put_edge_field merged field value incomingOwner, suppressed)
     | Some current \<Rightarrow>
         if isEmptyFieldValue current then (put_edge_field merged field value incomingOwner, suppressed)
         else
           let existingOwner = edgeFieldSourceOrOwner merged field in
           if isEmptyFieldValue value
           then (merged, suppressed @ [edgeConflict canonicalID incomingID field existingOwner incomingOwner current value
                   ''incoming empty edge field value was ignored because upsert does not clear existing values''])
           else if incomingCanOverwrite existingOwner incomingOwner
           then (put_edge_field merged field value incomingOwner, suppressed)
           else if DeepEqual current value then (merged, suppressed)
           else (merged, suppressed @ [edgeConflict canonicalID incomingID field existingOwner incomingOwner current value
                   ''incoming edge field value was ignored because source priority is lower'']))"

definition mergeEdgeForUpsert ::
  "Edge \<Rightarrow> Edge \<Rightarrow> string \<Rightarrow> string \<Rightarrow> int \<Rightarrow> time \<Rightarrow> Edge \<times> ApplyReport" where
  "mergeEdgeForUpsert existing incoming canonicalID incomingID version updatedAt =
     (let incomingOwner = writeOwnerFromEdge incoming version updatedAt;
          (merged, suppressed) =
            fold (mergeEdge_step canonicalID incomingID incomingOwner) (entries (edge_Fields incoming))
              (backfillEdgeSources existing (edge_Version existing) (edge_UpdatedAt existing), []);
          existence = (case edge_ExistenceSource merged of
                         None \<Rightarrow> Some incomingOwner
                       | Some owner \<Rightarrow> if incomingCanOverwrite owner incomingOwner then Some incomingOwner
                                       else Some owner)
      in (merged\<lparr>edge_Sources := mergeEdgeSources (edge_Sources merged) (edge_Sources incoming),
                 edge_Confidence := maxFloat (edge_Confidence existing) (edge_Confidence incoming),
                 edge_SourceRank := maxInt (edge_SourceRank existing) (edge_SourceRank incoming),
                 edge_Source := firstNonEmpty (edge_Source existing) (edge_Source incoming),
                 edge_ExternalID := firstNonEmpty (edge_ExternalID existing) (edge_ExternalID incoming),
                 edge_ExistenceSource := existence,
                 edge_ID := canonicalID, edge_Type := edge_Type incoming,
                 edge_From := edge_From incoming, edge_To := edge_To incoming\<rparr>,
          zero_ApplyReport\<lparr>ar_Suppressed := suppressed\<rparr>))"

definition sourceForDelete :: "EdgeDeleteRequest \<Rightarrow> int \<Rightarrow> time \<Rightarrow> FieldSource" where
  "sourceForDelete request version updatedAt =
     \<lparr>src_Source = edr_Source request, src_Priority = edr_SourceRank request,
      src_Confidence = edr_Confidence request, src_Version = version, src_UpdatedAt = updatedAt\<rparr>"

definition sourceCanDeleteEdge :: "FieldSource \<Rightarrow> FieldSource \<Rightarrow> bool" where
  "sourceCanDeleteEdge existing incoming \<longleftrightarrow> src_Priority incoming \<ge> src_Priority existing"

definition existenceConflict ::
  "string \<Rightarrow> EdgeDeleteRequest \<Rightarrow> FieldSource \<Rightarrow> FieldSource \<Rightarrow> FieldConflict" where
  "existenceConflict edgeID request existing incoming =
     (let incomingID = (if edr_ID request = []
                        then CanonicalEdgeIDParts (edr_Type request) (edr_From request) (edr_To request)
                        else edr_ID request)
      in edgeConflict edgeID incomingID ''__existence__'' existing incoming (VBool True) (VBool False)
           ''incoming edge delete was ignored because source priority is lower'')"

definition firstNonZero :: "int \<Rightarrow> int \<Rightarrow> int" where
  "firstNonZero left right = (if left \<noteq> 0 then left else right)"

definition firstNonZeroTime :: "time \<Rightarrow> time \<Rightarrow> time" where
  "firstNonZeroTime left right = (if left \<noteq> 0 then left else right)"

definition mergeEdgeList_step ::
  "int \<Rightarrow> time \<Rightarrow> Edge \<Rightarrow> (string, Edge) fmap \<times> FieldConflict list \<Rightarrow> (string, Edge) fmap \<times> FieldConflict list" where
  "mergeEdgeList_step version updatedAt rawEdge = (\<lambda>(result, suppressed).
     let incomingID = firstNonEmpty (edge_ID rawEdge) (edge_ExternalID rawEdge);
         edge = canonicalizeEdge rawEdge (firstNonZero (edge_Version rawEdge) version)
                  (firstNonZeroTime (edge_UpdatedAt rawEdge) updatedAt)
     in case mget result (edge_ID edge) of
          None \<Rightarrow> (fmupd (edge_ID edge) edge result, suppressed)
        | Some existing \<Rightarrow>
            let (merged, mergeReport) =
                  mergeEdgeForUpsert existing edge (edge_ID edge) incomingID
                    (firstNonZero (edge_Version edge) version)
                    (firstNonZeroTime (edge_UpdatedAt edge) updatedAt);
                merged' = (if edge_CreatedAt existing \<noteq> 0
                           then merged\<lparr>edge_CreatedAt := edge_CreatedAt existing\<rparr> else merged)
            in (fmupd (edge_ID merged') merged' result, suppressed @ ar_Suppressed mergeReport))"

definition mergeEdgeList :: "Edge list \<Rightarrow> int \<Rightarrow> time \<Rightarrow> (string, Edge) fmap \<times> ApplyReport" where
  "mergeEdgeList edges version updatedAt =
     (let (result, suppressed) = fold (mergeEdgeList_step version updatedAt) edges (fmempty, [])
      in (result, zero_ApplyReport\<lparr>ar_Suppressed := suppressed\<rparr>))"

definition sortEdgesForMerge :: "Edge list \<Rightarrow> Edge list" where
  "sortEdgesForMerge edges =
     sort_key (\<lambda>edge. (edge_Version edge, edge_UpdatedAt edge, edge_ID edge,
                       edge_Type edge @ [nul] @ edge_From edge @ [nul] @ edge_To edge)) edges"

definition mergeEdgeSet :: "(string, Edge) fmap \<Rightarrow> int \<Rightarrow> time \<Rightarrow> (string, Edge) fmap \<times> ApplyReport" where
  "mergeEdgeSet edges version updatedAt =
     mergeEdgeList (sortEdgesForMerge (map snd (entries edges))) version updatedAt"

section \<open>Allowed endpoint kinds\<close>

definition kindAllowed :: "string \<Rightarrow> string \<Rightarrow> string list \<Rightarrow> bool \<Rightarrow> bool" where
  "kindAllowed kind legacy allowed allowCrossKind =
     (if allowed = [] \<and> legacy = [] then allowCrossKind
      else if legacy \<noteq> [] \<and> kind = legacy then True
      else kind \<in> set allowed)"

section \<open>What the steps leave alone\<close>

lemma backfillEdgeSources_loop:
  "\<exists>srcs. fold (\<lambda>field edge'. if mget (edge_FieldSources edge') field = None
                             then setEdgeFieldSource edge' field owner else edge') ks edge =
          edge\<lparr>edge_FieldSources := srcs\<rparr> \<and>
          (\<forall>f. mget srcs f = (if mget (edge_FieldSources edge) f = None \<and> f \<in> set ks then Some owner
                              else mget (edge_FieldSources edge) f))"
proof (induction ks arbitrary: edge)
  case Nil
  show ?case by (intro exI [of _ "edge_FieldSources edge"]) simp
next
  case (Cons k ks)
  let ?edge = "if mget (edge_FieldSources edge) k = None then setEdgeFieldSource edge k owner else edge"
  from Cons [of ?edge] obtain srcs where
    1: "fold (\<lambda>field edge'. if mget (edge_FieldSources edge') field = None
              then setEdgeFieldSource edge' field owner else edge') ks ?edge = ?edge\<lparr>edge_FieldSources := srcs\<rparr>"
    and 2: "\<And>f. mget srcs f = (if mget (edge_FieldSources ?edge) f = None \<and> f \<in> set ks then Some owner
                              else mget (edge_FieldSources ?edge) f)" by auto
  have "?edge\<lparr>edge_FieldSources := srcs\<rparr> = edge\<lparr>edge_FieldSources := srcs\<rparr>"
    by (simp add: setEdgeFieldSource_def)
  with 1 2 show ?case by (intro exI [of _ srcs]) (auto simp: setEdgeFieldSource_def)
qed

lemma backfillEdgeSources_spec:
  obtains srcs where
    "backfillEdgeSources e v u =
       e\<lparr>edge_ExistenceSource := Some (case edge_ExistenceSource e of None \<Rightarrow> ownerFromEdge e v u | Some s \<Rightarrow> s),
         edge_FieldSources := srcs\<rparr>"
    "\<And>f. mget srcs f = (if mget (edge_FieldSources e) f = None \<and> f \<in> fmdom' (edge_Fields e) then Some (ownerFromEdge e v u)
                         else mget (edge_FieldSources e) f)"
proof -
  let ?e = "if edge_ExistenceSource e = None then e\<lparr>edge_ExistenceSource := Some (ownerFromEdge e v u)\<rparr> else e"
  from backfillEdgeSources_loop [of "ownerFromEdge e v u" "skeys (edge_Fields ?e)" ?e] obtain srcs where
    1: "backfillEdgeSources e v u = ?e\<lparr>edge_FieldSources := srcs\<rparr>"
    and 2: "\<And>f. mget srcs f = (if mget (edge_FieldSources ?e) f = None \<and> f \<in> set (skeys (edge_Fields ?e)) then Some (ownerFromEdge e v u)
                              else mget (edge_FieldSources ?e) f)"
    unfolding backfillEdgeSources_def Let_def by blast
  show thesis
  proof (rule that [of srcs])
    show "backfillEdgeSources e v u =
       e\<lparr>edge_ExistenceSource := Some (case edge_ExistenceSource e of None \<Rightarrow> ownerFromEdge e v u | Some s \<Rightarrow> s),
         edge_FieldSources := srcs\<rparr>"
      unfolding 1 by (cases e) (auto split: option.split)
  qed (use 2 in auto)
qed

lemma backfillEdgeSources_frame [simp]:
  "edge_ID (backfillEdgeSources e v u) = edge_ID e" "edge_Type (backfillEdgeSources e v u) = edge_Type e"
  "edge_From (backfillEdgeSources e v u) = edge_From e" "edge_To (backfillEdgeSources e v u) = edge_To e"
  "edge_Fields (backfillEdgeSources e v u) = edge_Fields e" "edge_Sources (backfillEdgeSources e v u) = edge_Sources e"
  "edge_ExternalID (backfillEdgeSources e v u) = edge_ExternalID e"
  "edge_ExistenceSource (backfillEdgeSources e v u) \<noteq> None"
  by (rule backfillEdgeSources_spec [of e v u]; simp)+

lemma canonicalizeEdge_frame [simp]:
  "edge_ID (canonicalizeEdge e v u) = CanonicalEdgeID e" "edge_Type (canonicalizeEdge e v u) = edge_Type e"
  "edge_From (canonicalizeEdge e v u) = edge_From e" "edge_To (canonicalizeEdge e v u) = edge_To e"
  by (simp_all add: canonicalizeEdge_def Let_def)

lemma CanonicalEdgeID_cong:
  "edge_Type a = edge_Type b \<Longrightarrow> edge_From a = edge_From b \<Longrightarrow> edge_To a = edge_To b \<Longrightarrow>
   CanonicalEdgeID a = CanonicalEdgeID b"
  by (simp add: CanonicalEdgeID_def)

lemma mergeEdgeForUpsert_frame [simp]:
  "edge_ID (fst (mergeEdgeForUpsert ex inc cid iid v u)) = cid"
  "edge_Type (fst (mergeEdgeForUpsert ex inc cid iid v u)) = edge_Type inc"
  "edge_From (fst (mergeEdgeForUpsert ex inc cid iid v u)) = edge_From inc"
  "edge_To (fst (mergeEdgeForUpsert ex inc cid iid v u)) = edge_To inc"
  by (simp_all add: mergeEdgeForUpsert_def Let_def split_beta)

section \<open>The merge of an edge, field by field\<close>

definition edge_field :: "Edge \<Rightarrow> string \<Rightarrow> any option \<times> FieldSource" where
  "edge_field e f = (mget (edge_Fields e) f, edgeFieldSourceOrOwner e f)"

text \<open>The decision for one incoming field: the new value and owner, and the conflict it reports.\<close>

definition edge_decision ::
  "string \<Rightarrow> string \<Rightarrow> FieldSource \<Rightarrow> string \<Rightarrow> any \<Rightarrow> any option \<times> FieldSource
     \<Rightarrow> (any option \<times> FieldSource) \<times> FieldConflict list" where
  "edge_decision cid iid owner f v = (\<lambda>(cur, own).
     case cur of
       None \<Rightarrow> ((Some v, owner), [])
     | Some c \<Rightarrow>
         if isEmptyFieldValue c then ((Some v, owner), [])
         else if isEmptyFieldValue v
         then ((cur, own), [edgeConflict cid iid f own owner c v
                 ''incoming empty edge field value was ignored because upsert does not clear existing values''])
         else if incomingCanOverwrite own owner then ((Some v, owner), [])
         else ((cur, own), if DeepEqual c v then [] else [edgeConflict cid iid f own owner c v
                 ''incoming edge field value was ignored because source priority is lower'']))"

lemma mergeEdge_step_field:
  assumes "mergeEdge_step cid iid owner (f, v) (m, cs) = (m', cs')" and "edge_ExistenceSource m \<noteq> None"
  shows "edge_field m' f = fst (edge_decision cid iid owner f v (edge_field m f))"
    and "cs' = cs @ snd (edge_decision cid iid owner f v (edge_field m f))"
    and "g \<noteq> f \<Longrightarrow> edge_field m' g = edge_field m g"
    and "edge_ExistenceSource m' = edge_ExistenceSource m"
  using assms
  by (auto simp: mergeEdge_step_def edge_decision_def edge_field_def put_edge_field_def setEdgeFieldSource_def
        edgeFieldSourceOrOwner_def Let_def split: option.splits if_splits)

lemma edge_decision_field: "c \<in> set (snd (edge_decision cid iid owner f v p)) \<Longrightarrow> fc_Field c = f"
  by (cases p) (auto simp: edge_decision_def edgeConflict_def zero_FieldConflict_def split: option.splits if_splits)

lemma mergeEdge_loop:
  assumes "fold (mergeEdge_step cid iid owner) kvs (m, cs) = (m', cs')"
    and "distinct (map fst kvs)" and "edge_ExistenceSource m \<noteq> None"
  shows "edge_ExistenceSource m' = edge_ExistenceSource m \<and>
         (case map_of kvs f of
            None \<Rightarrow> edge_field m' f = edge_field m f \<and> filter (\<lambda>c. fc_Field c = f) cs' = filter (\<lambda>c. fc_Field c = f) cs
          | Some v \<Rightarrow> edge_field m' f = fst (edge_decision cid iid owner f v (edge_field m f)) \<and>
                      filter (\<lambda>c. fc_Field c = f) cs' =
                        filter (\<lambda>c. fc_Field c = f) cs @ snd (edge_decision cid iid owner f v (edge_field m f)))"
  using assms
proof (induction kvs arbitrary: m cs)
  case Nil
  then show ?case by simp
next
  case (Cons kv kvs)
  obtain k v where kv: "kv = (k, v)" by (cases kv)
  obtain m1 cs1 where s: "mergeEdge_step cid iid owner (k, v) (m, cs) = (m1, cs1)" by fastforce
  note step = mergeEdge_step_field [OF s Cons.prems(3)]
  have flt: "filter (\<lambda>c. fc_Field c = f) (snd (edge_decision cid iid owner k v p)) =
             (if k = f then snd (edge_decision cid iid owner k v p) else [])" for p
    using edge_decision_field [of _ cid iid owner k v p] by (auto simp: filter_id_conv filter_empty_conv)
  have IH: "edge_ExistenceSource m' = edge_ExistenceSource m1 \<and>
         (case map_of kvs f of
            None \<Rightarrow> edge_field m' f = edge_field m1 f \<and> filter (\<lambda>c. fc_Field c = f) cs' = filter (\<lambda>c. fc_Field c = f) cs1
          | Some v \<Rightarrow> edge_field m' f = fst (edge_decision cid iid owner f v (edge_field m1 f)) \<and>
                      filter (\<lambda>c. fc_Field c = f) cs' =
                        filter (\<lambda>c. fc_Field c = f) cs1 @ snd (edge_decision cid iid owner f v (edge_field m1 f)))"
    using Cons.prems s step(4) by (intro Cons.IH) (auto simp: kv)
  have "map_of kvs k = None" using Cons.prems(2) by (simp add: kv map_of_eq_None_iff)
  with IH step flt show ?case by (cases "f = k") (auto simp: kv split: option.splits)
qed

text \<open>C26. Merging an incoming edge into a stored one, for every field: a field the stored edge lacks or
  holds empty takes the incoming value; an empty incoming value never clears a field; otherwise the
  incoming value wins exactly when its owner may overwrite the field's owner. Exactly the
  values that did not win and are not deeply equal to the stored ones are reported, once each, and fields the incoming edge does not name stay.\<close>

theorem mergeEdgeForUpsert_priority:
  assumes "mergeEdgeForUpsert existing incoming canonicalID incomingID version updatedAt = (merged, report)"
  shows "(mget (edge_Fields merged) f, filter (\<lambda>c. fc_Field c = f) (ar_Suppressed report)) =
    (let owner = writeOwnerFromEdge incoming version updatedAt;
         stored = edgeFieldSourceOrOwner (backfillEdgeSources existing (edge_Version existing) (edge_UpdatedAt existing)) f
     in case (mget (edge_Fields incoming) f, mget (edge_Fields existing) f) of
          (None, old) \<Rightarrow> (old, [])
        | (Some v, None) \<Rightarrow> (Some v, [])
        | (Some v, Some old) \<Rightarrow>
            if isEmptyFieldValue old then (Some v, [])
            else if isEmptyFieldValue v
            then (Some old, [edgeConflict canonicalID incomingID f stored owner old v
                   ''incoming empty edge field value was ignored because upsert does not clear existing values''])
            else if incomingCanOverwrite stored owner then (Some v, [])
            else (Some old, if DeepEqual old v then [] else [edgeConflict canonicalID incomingID f stored owner old v
                   ''incoming edge field value was ignored because source priority is lower'']))"
proof -
  let ?m = "backfillEdgeSources existing (edge_Version existing) (edge_UpdatedAt existing)"
  let ?owner = "writeOwnerFromEdge incoming version updatedAt"
  obtain m' cs where f: "fold (mergeEdge_step canonicalID incomingID ?owner) (entries (edge_Fields incoming)) (?m, []) = (m', cs)"
    by fastforce
  with assms have r: "edge_Fields merged = edge_Fields m'" "ar_Suppressed report = cs"
    by (auto simp: mergeEdgeForUpsert_def Let_def)
  from mergeEdge_loop [OF f, of f] show ?thesis
    by (auto simp: r edge_field_def edge_decision_def Let_def split: option.splits if_splits)
qed

definition example_edge :: Edge where
  "example_edge = zero_Edge\<lparr>edge_Type := ''runs_on'', edge_From := ''a'', edge_To := ''b'',
     edge_Fields := fmap_of_list [(''port'', VFloat (Fin 80))], edge_SourceRank := 10\<rparr>"

theorem mergeEdgeForUpsert_priority_witness:
  "mget (edge_Fields (fst (mergeEdgeForUpsert example_edge
      (example_edge\<lparr>edge_Fields := fmap_of_list [(''port'', VFloat (Fin 81))], edge_SourceRank := 5\<rparr>) ''e'' ''x'' 2 7))) ''port''
     = Some (VFloat (Fin 80)) \<and>
   length (filter (\<lambda>c. fc_Field c = ''port'') (ar_Suppressed (snd (mergeEdgeForUpsert example_edge
      (example_edge\<lparr>edge_Fields := fmap_of_list [(''port'', VFloat (Fin 81))], edge_SourceRank := 5\<rparr>) ''e'' ''x'' 2 7)))) = 1"
proof -
  let ?in = "example_edge\<lparr>edge_Fields := fmap_of_list [(''port'', VFloat (Fin 81))], edge_SourceRank := 5\<rparr>"
  obtain m r where mr: "mergeEdgeForUpsert example_edge ?in ''e'' ''x'' 2 7 = (m, r)" by fastforce
  have "\<not> incomingCanOverwrite
          (edgeFieldSourceOrOwner (backfillEdgeSources example_edge (edge_Version example_edge) (edge_UpdatedAt example_edge)) ''port'')
          (writeOwnerFromEdge ?in 2 7)" by code_simp
  with mergeEdgeForUpsert_priority [OF mr, of "''port''"]
  have "mget (edge_Fields m) ''port'' = Some (VFloat (Fin 80)) \<and> length (filter (\<lambda>c. fc_Field c = ''port'') (ar_Suppressed r)) = 1"
    by (simp add: Let_def example_edge_def isEmptyFieldValue_def DeepEqual_def plus_zero_def)
  then show ?thesis unfolding mr by simp
qed

section \<open>A merged edge list is keyed by canonical identifier\<close>

definition edge_key_ok :: "string \<Rightarrow> Edge \<Rightarrow> bool" where
  "edge_key_ok k e \<longleftrightarrow> edge_ID e = k \<and> CanonicalEdgeID e = k"

lemma mergeEdgeList_step_spec:
  assumes "mergeEdgeList_step v u e (m, cs) = (m', cs')"
  shows "\<exists>e'. m' = fmupd (CanonicalEdgeID e) e' m \<and> edge_key_ok (CanonicalEdgeID e) e' \<and>
              edge_Type e' = edge_Type e \<and> edge_From e' = edge_From e \<and> edge_To e' = edge_To e"
proof -
  let ?c = "canonicalizeEdge e (firstNonZero (edge_Version e) v) (firstNonZeroTime (edge_UpdatedAt e) u)"
  have c: "CanonicalEdgeID ?c = CanonicalEdgeID e" by (rule CanonicalEdgeID_cong) simp_all
  show ?thesis
  proof (cases "mget m (CanonicalEdgeID e)")
    case None
    with assms have "m' = fmupd (CanonicalEdgeID e) ?c m" by (auto simp: mergeEdgeList_step_def Let_def)
    with c show ?thesis by (auto simp: edge_key_ok_def)
  next
    case (Some ex)
    let ?r = "fst (mergeEdgeForUpsert ex ?c (CanonicalEdgeID e) (firstNonEmpty (edge_ID e) (edge_ExternalID e))
                (firstNonZero (edge_Version ?c) v) (firstNonZeroTime (edge_UpdatedAt ?c) u))"
    let ?r' = "if edge_CreatedAt ex \<noteq> 0 then ?r\<lparr>edge_CreatedAt := edge_CreatedAt ex\<rparr> else ?r"
    have "m' = fmupd (CanonicalEdgeID e) ?r' m"
      using assms Some by (auto simp: mergeEdgeList_step_def Let_def split_beta split: if_splits)
    moreover have "edge_key_ok (CanonicalEdgeID e) ?r' \<and> edge_Type ?r' = edge_Type e \<and> edge_From ?r' = edge_From e \<and> edge_To ?r' = edge_To e"
      by (simp add: edge_key_ok_def CanonicalEdgeID_def)
    ultimately show ?thesis by blast
  qed
qed

lemma mergeEdgeList_loop:
  assumes "fold (mergeEdgeList_step v u) es (m, cs) = (m', cs')"
    and "\<And>k e. mget m k = Some e \<Longrightarrow> edge_key_ok k e"
  shows "fmdom' m' = fmdom' m \<union> CanonicalEdgeID ` set es \<and>
         (\<forall>k e. mget m' k = Some e \<longrightarrow> edge_key_ok k e \<and>
            (mget m k = Some e \<or> (\<exists>e0 \<in> set es. edge_Type e = edge_Type e0 \<and> edge_From e = edge_From e0 \<and> edge_To e = edge_To e0)))"
  using assms
proof (induction es arbitrary: m cs)
  case Nil
  then show ?case by simp
next
  case (Cons x es)
  obtain m1 cs1 where s: "mergeEdgeList_step v u x (m, cs) = (m1, cs1)" by fastforce
  from mergeEdgeList_step_spec [OF s] obtain e' where
    m1: "m1 = fmupd (CanonicalEdgeID x) e' m" and e': "edge_key_ok (CanonicalEdgeID x) e'"
    "edge_Type e' = edge_Type x" "edge_From e' = edge_From x" "edge_To e' = edge_To x" by blast
  have IH: "fmdom' m' = fmdom' m1 \<union> CanonicalEdgeID ` set es \<and>
         (\<forall>k e. mget m' k = Some e \<longrightarrow> edge_key_ok k e \<and>
            (mget m1 k = Some e \<or> (\<exists>e0 \<in> set es. edge_Type e = edge_Type e0 \<and> edge_From e = edge_From e0 \<and> edge_To e = edge_To e0)))"
    using Cons.prems s e'(1) by (intro Cons.IH) (auto simp: m1 split: if_splits)
  then show ?case
    using e' by (auto simp: m1 split: if_splits) blast+
qed

lemma mergeEdgeList_spec:
  assumes "mergeEdgeList edges version updatedAt = (result, report)"
  shows "fmdom' result = CanonicalEdgeID ` set edges \<and>
         (\<forall>k e. mget result k = Some e \<longrightarrow>
            edge_ID e = k \<and> CanonicalEdgeID e = k \<and>
            (\<exists>e0 \<in> set edges. edge_Type e = edge_Type e0 \<and> edge_From e = edge_From e0 \<and> edge_To e = edge_To e0))"
proof -
  obtain m' cs where f: "fold (mergeEdgeList_step version updatedAt) edges (fmempty, []) = (m', cs)" by fastforce
  with assms have "result = m'" by (auto simp: mergeEdgeList_def)
  with mergeEdgeList_loop [OF f] show ?thesis by (simp add: edge_key_ok_def)
qed

text \<open>Merging a list of edges yields a map whose keys are exactly the canonical identifiers of the
  listed edges; every stored edge carries its own key as identifier, is canonical for its endpoints,
  and connects the endpoints of one of the listed edges.\<close>

theorem mergeEdgeList_canonical:
  assumes "mergeEdgeList edges version updatedAt = (result, report)"
  shows "fmdom' result = CanonicalEdgeID ` set edges \<and>
         (\<forall>k e. mget result k = Some e \<longrightarrow>
            edge_ID e = k \<and> CanonicalEdgeID e = k \<and>
            (\<exists>e0 \<in> set edges. edge_Type e = edge_Type e0 \<and> edge_From e = edge_From e0 \<and> edge_To e = edge_To e0))"
  by (rule mergeEdgeList_spec [OF assms])

theorem mergeEdgeList_canonical_witness:
  "fmdom' (fst (mergeEdgeList [example_edge, example_edge\<lparr>edge_ID := ''legacy''\<rparr>] 1 1)) = {CanonicalEdgeID example_edge}"
proof -
  obtain m r where mr: "mergeEdgeList [example_edge, example_edge\<lparr>edge_ID := ''legacy''\<rparr>] 1 1 = (m, r)" by fastforce
  from mergeEdgeList_canonical [OF mr] show ?thesis by (simp add: mr CanonicalEdgeID_def)
qed

lemma TrimSpace_CanonicalEdgeID [simp]: "TrimSpace (CanonicalEdgeID e) = CanonicalEdgeID e"
proof (rule TrimSpace_printable)
  fix c assume "c \<in> set (CanonicalEdgeID e)"
  then show "printable c" unfolding CanonicalEdgeID_def CanonicalEdgeIDParts_def
    by (auto dest!: in_set_takeD hex_digest_printable) (simp_all add: printable_def)
qed

lemma CanonicalEdgeID_nonempty [simp]: "CanonicalEdgeID e \<noteq> []"
  by (simp add: CanonicalEdgeID_def CanonicalEdgeIDParts_def)

end
