(* ===== verification/ContentHash.thy ===== *)
theory ContentHash
  imports EdgeModel
begin

text \<open>
  Logical content and its digests (\<open>content_hash.go\<close>, \<open>content_hash_stream.go\<close>,
  \<open>content_hash_cache.go\<close>, \<open>content_fingerprint.go\<close>): the JSON text \<open>encoding/json\<close> writes for
  the hashed structures, the logical view of entities and edges without versions and
  timestamps, the digest of one item, and the shard an item belongs to. The parts that read the graph
  are in theory \<open>Fingerprint\<close>.
\<close>

section \<open>JSON text of structures\<close>

text \<open>
  A struct is the list of its members in declaration order; \<open>omitempty\<close> leaves out a member that is
  empty, \<open>always\<close> writes it.
\<close>

type_synonym json_members = "(string \<times> string option) list"

definition always :: "string \<Rightarrow> string option \<Rightarrow> json_members" where
  "always name text = [(name, text)]"

definition omitempty :: "string \<Rightarrow> bool \<Rightarrow> string option \<Rightarrow> json_members" where
  "omitempty name absent text = (if absent then [] else [(name, text)])"

definition json_struct :: "json_members list \<Rightarrow> string option" where
  "json_struct members =
     map_option json_object
       (all_ok_list (map (\<lambda>(name, text). map_option (Pair name) text) (concat members)))"

definition json_strings :: "string list \<Rightarrow> string option" where
  "json_strings ss = Some (json_array (map json_string ss))"

definition json_list :: "('a \<Rightarrow> string option) \<Rightarrow> 'a list \<Rightarrow> string option" where
  "json_list f xs = map_option json_array (all_ok_list (map f xs))"

definition json_map :: "('a \<Rightarrow> string option) \<Rightarrow> (string, 'a) fmap \<Rightarrow> string option" where
  "json_map f m = map_option (\<lambda>ts. json_object (entries ts)) (all_ok (fmmap f m))"

definition jstr :: "string \<Rightarrow> string option" where
  "jstr s = Some (json_string s)"

definition jnum :: "int \<Rightarrow> string option" where
  "jnum n = Some (Itoa n)"

definition jflag :: "bool \<Rightarrow> string option" where
  "jflag b = Some (json_bool b)"

section \<open>Logical entities and edges\<close>

record logicalOwner =
  lo_Source :: string
  lo_Priority :: int
  lo_Confidence :: float64

record logicalEntitySource =
  les_Source :: string
  les_ExternalID :: string
  les_Confidence :: float64
  les_Priority :: int
  les_Stale :: bool

record logicalEdgeSource =
  leds_Source :: string
  leds_ExternalID :: string
  leds_EdgeID :: string
  leds_Confidence :: float64
  leds_Priority :: int

record logicalEntity =
  le_ID :: string
  le_Kind :: string
  le_Fields :: Fields
  le_FieldSources :: "(string, logicalOwner) fmap"
  le_ExistenceSource :: "logicalOwner option"
  le_Source :: string
  le_ExternalID :: string
  le_Identity :: Fields
  le_Confidence :: float64
  le_SourceRank :: int
  le_Sources :: "logicalEntitySource list"
  le_MergedFrom :: "string list"
  le_SplitFrom :: string

record logicalEdge =
  led_ID :: string
  led_Type :: string
  led_From :: string
  led_To :: string
  led_Fields :: Fields
  led_FieldSources :: "(string, logicalOwner) fmap"
  led_Source :: string
  led_ExternalID :: string
  led_Confidence :: float64
  led_SourceRank :: int
  led_Sources :: "logicalEdgeSource list"
  led_ExistenceSource :: "logicalOwner option"

definition logicalOwnerFromFieldSource :: "FieldSource \<Rightarrow> logicalOwner" where
  "logicalOwnerFromFieldSource source =
     \<lparr>lo_Source = src_Source source, lo_Priority = src_Priority source, lo_Confidence = src_Confidence source\<rparr>"

definition logicalOwnerPtr :: "FieldSource option \<Rightarrow> logicalOwner option" where
  "logicalOwnerPtr source = map_option logicalOwnerFromFieldSource source"

definition logicalFieldSources :: "(string, FieldSource) fmap \<Rightarrow> (string, logicalOwner) fmap" where
  "logicalFieldSources sources = fmmap logicalOwnerFromFieldSource sources"

definition logicalEntitySources :: "EntitySource list \<Rightarrow> logicalEntitySource list" where
  "logicalEntitySources sources =
     sort_key (\<lambda>source. (les_Source source, les_ExternalID source))
       (map (\<lambda>source. \<lparr>les_Source = es_Source source, les_ExternalID = es_ExternalID source,
                       les_Confidence = es_Confidence source, les_Priority = es_Priority source,
                       les_Stale = es_Stale source\<rparr>) sources)"

definition logicalEdgeSources :: "EdgeSource list \<Rightarrow> logicalEdgeSource list" where
  "logicalEdgeSources sources =
     sort_key (\<lambda>source. (leds_Source source, leds_ExternalID source, leds_EdgeID source))
       (map (\<lambda>source. \<lparr>leds_Source = eds_Source source, leds_ExternalID = eds_ExternalID source,
                       leds_EdgeID = eds_EdgeID source, leds_Confidence = eds_Confidence source,
                       leds_Priority = eds_Priority source\<rparr>) sources)"

definition logicalEntityForHash :: "Entity \<Rightarrow> logicalEntity" where
  "logicalEntityForHash entity =
     \<lparr>le_ID = ent_ID entity, le_Kind = ent_Kind entity, le_Fields = ent_Fields entity,
      le_FieldSources = logicalFieldSources (ent_FieldSources entity),
      le_ExistenceSource = logicalOwnerPtr (ent_ExistenceSource entity),
      le_Source = ent_Source entity, le_ExternalID = ent_ExternalID entity, le_Identity = ent_Identity entity,
      le_Confidence = ent_Confidence entity, le_SourceRank = ent_SourceRank entity,
      le_Sources = logicalEntitySources (ent_Sources entity), le_MergedFrom = sort (ent_MergedFrom entity),
      le_SplitFrom = ent_SplitFrom entity\<rparr>"

definition logicalEdgeForHash :: "Edge \<Rightarrow> logicalEdge" where
  "logicalEdgeForHash edge =
     \<lparr>led_ID = edge_ID edge, led_Type = edge_Type edge, led_From = edge_From edge, led_To = edge_To edge,
      led_Fields = edge_Fields edge, led_FieldSources = logicalFieldSources (edge_FieldSources edge),
      led_Source = edge_Source edge, led_ExternalID = edge_ExternalID edge,
      led_Confidence = edge_Confidence edge, led_SourceRank = edge_SourceRank edge,
      led_Sources = logicalEdgeSources (edge_Sources edge),
      led_ExistenceSource = logicalOwnerPtr (edge_ExistenceSource edge)\<rparr>"

text \<open>The copying variants of \<open>content_hash.go\<close>; copies are the identity on values.\<close>

definition logicalEntityFromEntity :: "Entity \<Rightarrow> logicalEntity" where
  "logicalEntityFromEntity entity =
     \<lparr>le_ID = ent_ID entity, le_Kind = ent_Kind entity, le_Fields = ent_Fields entity,
      le_FieldSources = logicalFieldSources (ent_FieldSources entity),
      le_ExistenceSource = logicalOwnerPtr (ent_ExistenceSource entity),
      le_Source = ent_Source entity, le_ExternalID = ent_ExternalID entity, le_Identity = ent_Identity entity,
      le_Confidence = ent_Confidence entity, le_SourceRank = ent_SourceRank entity,
      le_Sources = logicalEntitySources (ent_Sources entity), le_MergedFrom = sort (ent_MergedFrom entity),
      le_SplitFrom = ent_SplitFrom entity\<rparr>"

definition logicalEdgeFromEdge :: "Edge \<Rightarrow> logicalEdge" where
  "logicalEdgeFromEdge edge =
     \<lparr>led_ID = edge_ID edge, led_Type = edge_Type edge, led_From = edge_From edge, led_To = edge_To edge,
      led_Fields = edge_Fields edge, led_FieldSources = logicalFieldSources (edge_FieldSources edge),
      led_Source = edge_Source edge, led_ExternalID = edge_ExternalID edge,
      led_Confidence = edge_Confidence edge, led_SourceRank = edge_SourceRank edge,
      led_Sources = logicalEdgeSources (edge_Sources edge),
      led_ExistenceSource = logicalOwnerPtr (edge_ExistenceSource edge)\<rparr>"

section \<open>The text that is hashed\<close>

definition json_owner :: "logicalOwner \<Rightarrow> string option" where
  "json_owner owner =
     json_struct [omitempty ''source'' (lo_Source owner = []) (jstr (lo_Source owner)),
                  always ''priority'' (jnum (lo_Priority owner)),
                  omitempty ''confidence'' (feq (lo_Confidence owner) (Fin 0)) (fmt_json (lo_Confidence owner))]"

definition json_entity_source :: "logicalEntitySource \<Rightarrow> string option" where
  "json_entity_source source =
     json_struct [always ''source'' (jstr (les_Source source)),
                  always ''external_id'' (jstr (les_ExternalID source)),
                  omitempty ''confidence'' (feq (les_Confidence source) (Fin 0)) (fmt_json (les_Confidence source)),
                  omitempty ''priority'' (les_Priority source = 0) (jnum (les_Priority source)),
                  omitempty ''stale'' (\<not> les_Stale source) (jflag (les_Stale source))]"

definition json_edge_source :: "logicalEdgeSource \<Rightarrow> string option" where
  "json_edge_source source =
     json_struct [always ''source'' (jstr (leds_Source source)),
                  omitempty ''external_id'' (leds_ExternalID source = []) (jstr (leds_ExternalID source)),
                  omitempty ''edge_id'' (leds_EdgeID source = []) (jstr (leds_EdgeID source)),
                  omitempty ''confidence'' (feq (leds_Confidence source) (Fin 0)) (fmt_json (leds_Confidence source)),
                  omitempty ''priority'' (leds_Priority source = 0) (jnum (leds_Priority source))]"

definition json_entity :: "logicalEntity \<Rightarrow> string option" where
  "json_entity e =
     json_struct [always ''id'' (jstr (le_ID e)), always ''kind'' (jstr (le_Kind e)),
                  omitempty ''fields'' (mempty (le_Fields e)) (json_map json_marshal (le_Fields e)),
                  omitempty ''field_sources'' (mempty (le_FieldSources e)) (json_map json_owner (le_FieldSources e)),
                  omitempty ''existence_source'' (le_ExistenceSource e = None) (Option.bind (le_ExistenceSource e) json_owner),
                  omitempty ''source'' (le_Source e = []) (jstr (le_Source e)),
                  omitempty ''external_id'' (le_ExternalID e = []) (jstr (le_ExternalID e)),
                  omitempty ''identity_keys'' (mempty (le_Identity e)) (json_map json_marshal (le_Identity e)),
                  omitempty ''confidence'' (feq (le_Confidence e) (Fin 0)) (fmt_json (le_Confidence e)),
                  omitempty ''source_priority'' (le_SourceRank e = 0) (jnum (le_SourceRank e)),
                  omitempty ''sources'' (le_Sources e = []) (json_list json_entity_source (le_Sources e)),
                  omitempty ''merged_from'' (le_MergedFrom e = []) (json_strings (le_MergedFrom e)),
                  omitempty ''split_from'' (le_SplitFrom e = []) (jstr (le_SplitFrom e))]"

definition json_edge :: "logicalEdge \<Rightarrow> string option" where
  "json_edge e =
     json_struct [always ''id'' (jstr (led_ID e)), always ''type'' (jstr (led_Type e)),
                  always ''from'' (jstr (led_From e)), always ''to'' (jstr (led_To e)),
                  omitempty ''fields'' (mempty (led_Fields e)) (json_map json_marshal (led_Fields e)),
                  omitempty ''field_sources'' (mempty (led_FieldSources e)) (json_map json_owner (led_FieldSources e)),
                  omitempty ''source'' (led_Source e = []) (jstr (led_Source e)),
                  omitempty ''external_id'' (led_ExternalID e = []) (jstr (led_ExternalID e)),
                  omitempty ''confidence'' (feq (led_Confidence e) (Fin 0)) (fmt_json (led_Confidence e)),
                  omitempty ''source_priority'' (led_SourceRank e = 0) (jnum (led_SourceRank e)),
                  omitempty ''sources'' (led_Sources e = []) (json_list json_edge_source (led_Sources e)),
                  omitempty ''existence_source'' (led_ExistenceSource e = None) (Option.bind (led_ExistenceSource e) json_owner)]"

definition json_field_spec :: "FieldSpec \<Rightarrow> string option" where
  "json_field_spec spec =
     json_struct [omitempty ''type'' (spec_Type spec = []) (jstr (spec_Type spec)),
                  omitempty ''merge_strategy'' (spec_MergeStrategy spec = []) (jstr (spec_MergeStrategy spec)),
                  omitempty ''required'' (\<not> spec_Required spec) (jflag (spec_Required spec)),
                  omitempty ''indexed'' (\<not> spec_Indexed spec) (jflag (spec_Indexed spec)),
                  omitempty ''unique'' (\<not> spec_Unique spec) (jflag (spec_Unique spec)),
                  omitempty ''enum'' (spec_Enum spec = []) (json_list json_marshal (spec_Enum spec)),
                  omitempty ''default'' (spec_Default spec = VNil) (json_marshal (spec_Default spec))]"

definition json_identity_key :: "IdentityKey \<Rightarrow> string option" where
  "json_identity_key key =
     json_struct [always ''name'' (jstr (ik_Name key)), always ''fields'' (json_strings (ik_Fields key)),
                  omitempty ''confidence_threshold'' (feq (ik_ConfidenceThreshold key) (Fin 0)) (fmt_json (ik_ConfidenceThreshold key)),
                  omitempty ''strategy'' (ik_Strategy key = []) (jstr (ik_Strategy key))]"

definition json_ci_type :: "CIType \<Rightarrow> string option" where
  "json_ci_type ciType =
     json_struct [always ''name'' (jstr (ct_Name ciType)),
                  omitempty ''display_name'' (ct_DisplayName ciType = []) (jstr (ct_DisplayName ciType)),
                  omitempty ''extends'' (ct_Extends ciType = []) (json_strings (ct_Extends ciType)),
                  omitempty ''fields'' (mempty (ct_Fields ciType)) (json_map json_field_spec (ct_Fields ciType)),
                  omitempty ''identity_keys'' (ct_IdentityKeys ciType = []) (json_list json_identity_key (ct_IdentityKeys ciType))]"

definition json_relation_type :: "RelationType \<Rightarrow> string option" where
  "json_relation_type r =
     json_struct [always ''name'' (jstr (rt_Name r)),
                  omitempty ''display_name'' (rt_DisplayName r = []) (jstr (rt_DisplayName r)),
                  omitempty ''reverse_name'' (rt_ReverseName r = []) (jstr (rt_ReverseName r)),
                  omitempty ''from_kind'' (rt_FromKind r = []) (jstr (rt_FromKind r)),
                  omitempty ''to_kind'' (rt_ToKind r = []) (jstr (rt_ToKind r)),
                  omitempty ''from_kinds'' (rt_FromKinds r = []) (json_strings (rt_FromKinds r)),
                  omitempty ''to_kinds'' (rt_ToKinds r = []) (json_strings (rt_ToKinds r)),
                  always ''directed'' (jflag (rt_Directed r)),
                  omitempty ''cardinality'' (rt_Cardinality r = []) (jstr (rt_Cardinality r)),
                  omitempty ''impact_direction'' (rt_ImpactDirection r = []) (jstr (rt_ImpactDirection r)),
                  omitempty ''allow_cross_kind'' (\<not> rt_AllowCrossKind r) (jflag (rt_AllowCrossKind r)),
                  omitempty ''standard'' (\<not> rt_Standard r) (jflag (rt_Standard r))]"

section \<open>Digests of items\<close>

text \<open>The four categories of logical content with the value that is hashed for each.\<close>

datatype logical_value =
    LCIType CIType
  | LEntity logicalEntity
  | LRelationType RelationType
  | LEdge logicalEdge

fun json_value :: "logical_value \<Rightarrow> string option" where
  "json_value (LCIType t) = json_ci_type t"
| "json_value (LEntity e) = json_entity e"
| "json_value (LRelationType r) = json_relation_type r"
| "json_value (LEdge e) = json_edge e"

definition contentFingerprintEntry :: "string \<Rightarrow> string \<Rightarrow> logical_value \<Rightarrow> error + digest" where
  "contentFingerprintEntry kind key value =
     (case json_value value of
        None \<Rightarrow> Inl (ValueError JSONUnsupportedValue)
      | Some data \<Rightarrow> Inr (sha256 (kind @ [nul] @ key @ [nul] @ data)))"

definition xorFingerprint :: "digest \<Rightarrow> digest \<Rightarrow> digest" where
  "xorFingerprint target value = target XOR value"

definition graphMapShards :: nat where
  "graphMapShards = 256"

definition logicalHashShard :: "string \<Rightarrow> 8 word" where
  "logicalHashShard key =
     (let hash = fold (\<lambda>c h. (h XOR word_of_int (of_char c)) * 16777619) key (2166136261 :: 32 word)
      in ucast (hash XOR drop_bit 16 hash))"

record logicalHashEntry =
  lhe_digest :: digest
  lhe_bytes :: int

record logicalHashBlock =
  lhb_entries :: "(string, logicalHashEntry) fmap"
  lhb_digest :: digest

text \<open>The array of four times 256 block pointers is a map that lacks the nil blocks.\<close>

record logicalHashCache =
  lhc_categories :: "(nat \<times> 8 word, logicalHashBlock) fmap"
  lhc_digest :: string
  lhc_logicalBytes :: int
  lhc_finalReady :: bool

definition logicalHashKinds :: "string list" where
  "logicalHashKinds = [''ci_type'', ''entity'', ''relation_type'', ''edge'']"

definition bytes_of :: "nat \<Rightarrow> int \<Rightarrow> string" where
  "bytes_of n v = map (\<lambda>b. byte (nat b)) (big_endian n v)"

definition digest_bytes :: "digest \<Rightarrow> string" where
  "digest_bytes d = bytes_of 32 (uint d)"

definition hashLogicalEntry :: "nat \<Rightarrow> string \<Rightarrow> logical_value \<Rightarrow> error + logicalHashEntry" where
  "hashLogicalEntry category key value =
     (case json_value value of
        None \<Rightarrow> Inl (ValueError JSONUnsupportedValue)
      | Some data \<Rightarrow>
          Inr \<lparr>lhe_digest = sha256 (logicalHashKinds ! category @ [nul] @ bytes_of 8 (int (length key)) @ key @ data),
               lhe_bytes = int (length data)\<rparr>)"

definition rehash :: "logicalHashBlock \<Rightarrow> logicalHashBlock" where
  "rehash block =
     block\<lparr>lhb_digest := sha256 (concat (map (\<lambda>(key, entry). digest_bytes (lhe_digest entry)) (entries (lhb_entries block))))\<rparr>"

definition ContentHashAlgorithm :: string where
  "ContentHashAlgorithm = ''sha256-shards-v2''"

end
