(* ===== verification/GraphState.thy ===== *)
theory GraphState
  imports ContentHash
begin

text \<open>
  The state of a graph and its indexes (\<open>graph.go\<close>, \<open>index.go\<close>, \<open>index_entity_coverage.go\<close>,
  \<open>affected_edges.go\<close>, the cache invalidations of \<open>read_ids.go\<close> and \<open>read_neighbors_page.go\<close>).

  A \<open>ShardedMap\<close> is the finite map it stands for (theory \<open>ShardedMap\<close> shows that the sharded,
  copy-on-write structure implements it), a set of identifiers is a \<open>string set\<close>. The record has
  every field of the Go struct except the mutexes and the copy-on-write bookkeeping \<open>cow\<close>, which
  says which buckets a mutation copy owns and does not change what the indexes hold.
\<close>

section \<open>State\<close>

record neighborRef =
  nr_edgeID :: string
  nr_entityID :: string
  nr_direction :: string

record orderedFieldValue =
  ofv_key :: string
  ofv_text :: string
  ofv_number :: float64

record fieldValueOrder =
  fvo_text :: "orderedFieldValue list"
  fvo_numeric :: "orderedFieldValue list"
  fvo_nonNumeric :: "orderedFieldValue list"

type_synonym fieldIndexMap = "(string, (string, (string, string) postings) fmap) fmap"

record Graph =
  g_Version :: int
  g_CITypes :: "(string, CIType) fmap"
  g_Entities :: "(string, Entity) fmap"
  g_RelationTypes :: "(string, RelationType) fmap"
  g_Edges :: "(string, Edge) fmap"
  g_out :: "(string, string) postings"
  g_in :: "(string, string) postings"
  g_edgeAliasIndex :: "(string, string) postings"
  g_edgeTypeIndex :: "(string, string) postings"
  g_entityAliasIndex :: "(string, string) postings"
  g_kindCounts :: "(string, int) fmap"
  g_kindEntityIDs :: "(string, string) postings"
  g_nonScalarFields :: "(string, int) fmap"
  g_fieldIndex :: fieldIndexMap
  g_identityIndex :: "(string, (string, string) fmap) fmap"
  g_legacyIdentity :: bool
  g_entityPartitions :: "(nat, string) postings option"
  g_entityOrder :: "(string, string list) fmap"
  g_fieldIndexOrder :: "(string \<times> string \<times> string, string list) fmap"
  g_fieldValueOrder :: "(string \<times> string, fieldValueOrder) fmap"
  g_neighborOrder :: "(string, neighborRef list) fmap"
  g_neighborOrderBytes :: int
  g_contentFingerprint :: digest
  g_contentFingerprintReady :: bool
  g_logicalHashCache :: "logicalHashCache option"

section \<open>The order of the values of a field\<close>

text \<open>
  The loop of \<open>sortedFieldValues\<close> over the keys of a field and its three sorts. A key is the scalar key
  of a value; numeric keys are ordered by number as well.
\<close>

instantiation float64 :: linorder
begin

fun float_rank :: "float64 \<Rightarrow> nat \<times> rat \<times> nat" where
  "float_rank NaN = (0, 0, 0)"
| "float_rank NegInf = (1, 0, 0)"
| "float_rank NegZero = (2, 0, 0)"
| "float_rank (Fin x) = (2, x, 1)"
| "float_rank PosInf = (3, 0, 0)"

definition less_eq_float64 :: "float64 \<Rightarrow> float64 \<Rightarrow> bool" where
  "less_eq_float64 x y \<longleftrightarrow> float_rank x \<le> float_rank y"

definition less_float64 :: "float64 \<Rightarrow> float64 \<Rightarrow> bool" where
  "less_float64 x y \<longleftrightarrow> float_rank x < float_rank y"

instance
proof
  fix x y :: float64
  show "x \<le> y \<Longrightarrow> y \<le> x \<Longrightarrow> x = y"
    by (cases x; cases y) (auto simp: less_eq_float64_def)
qed (auto simp: less_eq_float64_def less_float64_def)

end

lemma fless_iff_less: "x \<noteq> NaN \<Longrightarrow> y \<noteq> NaN \<Longrightarrow> fless x y \<longleftrightarrow> plus_zero x < plus_zero y"
  by (cases x; cases y) (auto simp: less_float64_def plus_zero_def)

definition orderValue_step :: "string \<Rightarrow> fieldValueOrder \<Rightarrow> fieldValueOrder" where
  "orderValue_step key order =
     (let text_only = (\<lambda>text order'. let value = \<lparr>ofv_key = key, ofv_text = text, ofv_number = Fin 0\<rparr> in
            order'\<lparr>fvo_text := fvo_text order' @ [value], fvo_nonNumeric := fvo_nonNumeric order' @ [value]\<rparr>) in
      if key = ''null'' then text_only ''<nil>'' order
      else if is_prefix ''s:'' key \<or> is_prefix ''b:'' key then text_only (drop 2 key) order
      else if is_prefix ''n:'' key then
        (case ParseFloat (drop 2 key) of
           None \<Rightarrow> order
         | Some number \<Rightarrow>
             let value = \<lparr>ofv_key = key, ofv_text = drop 2 key, ofv_number = number\<rparr> in
             order\<lparr>fvo_text := fvo_text order @ [value],
                   fvo_numeric := (if number = NaN then fvo_numeric order else fvo_numeric order @ [value])\<rparr>)
      else order)"

definition orderFieldValues :: "string list \<Rightarrow> fieldValueOrder" where
  "orderFieldValues keys =
     (let order = fold orderValue_step keys \<lparr>fvo_text = [], fvo_numeric = [], fvo_nonNumeric = []\<rparr>
      in \<lparr>fvo_text = sort_key ofv_text (fvo_text order),
          fvo_numeric = sort_key (\<lambda>value. plus_zero (ofv_number value)) (fvo_numeric order),
          fvo_nonNumeric = sort_key ofv_text (fvo_nonNumeric order)\<rparr>)"

section \<open>Invalidation of cached read orders\<close>

definition invalidateEntityOrder :: "Graph \<Rightarrow> Graph" where
  "invalidateEntityOrder g = g\<lparr>g_entityOrder := fmempty\<rparr>"

definition invalidateFieldIndexOrder :: "Graph \<Rightarrow> Graph" where
  "invalidateFieldIndexOrder g = g\<lparr>g_fieldIndexOrder := fmempty, g_fieldValueOrder := fmempty\<rparr>"

definition invalidateFieldKeyOrder :: "string \<Rightarrow> string \<Rightarrow> Graph \<Rightarrow> Graph" where
  "invalidateFieldKeyOrder kind field g =
     g\<lparr>g_fieldValueOrder := fmdrop (kind, field) (g_fieldValueOrder g)\<rparr>"

definition invalidateEntityKindOrder :: "string \<Rightarrow> Graph \<Rightarrow> Graph" where
  "invalidateEntityKindOrder kind g =
     g\<lparr>g_entityOrder := fmdrop kind (fmdrop [] (g_entityOrder g))\<rparr>"

definition invalidateFieldValueOrder :: "string \<Rightarrow> string \<Rightarrow> string \<Rightarrow> Graph \<Rightarrow> Graph" where
  "invalidateFieldValueOrder kind field value g =
     g\<lparr>g_fieldIndexOrder := fmdrop (kind, field, value) (g_fieldIndexOrder g)\<rparr>"

text \<open>One cached neighbour order; an entry is accounted with 48 bytes per reference.\<close>

definition neighborKey :: "string \<Rightarrow> string \<Rightarrow> string" where
  "neighborKey id' direction = id' @ [nul] @ direction"

definition dropNeighborOrder :: "string \<Rightarrow> Graph \<Rightarrow> Graph" where
  "dropNeighborOrder key g =
     g\<lparr>g_neighborOrderBytes := g_neighborOrderBytes g - int (length (mget_or [] (g_neighborOrder g) key)) * 48,
       g_neighborOrder := fmdrop key (g_neighborOrder g)\<rparr>"

definition invalidateNeighborOrder :: "string list \<Rightarrow> Graph \<Rightarrow> Graph" where
  "invalidateNeighborOrder ids g =
     fold dropNeighborOrder
       (concat (map (\<lambda>id'. map (neighborKey id') [''out'', ''in'', ''both'']) ids)) g"

section \<open>Fields that are not scalars\<close>

definition nonScalarKey :: "string \<Rightarrow> string \<Rightarrow> string" where
  "nonScalarKey scope field = scope @ [nul] @ field"

definition bump :: "int \<Rightarrow> string \<Rightarrow> (string, int) fmap \<Rightarrow> (string, int) fmap" where
  "bump delta key m =
     (let n = mget_or 0 m key + delta in if n \<le> 0 then fmdrop key m else fmupd key n m)"

definition nonScalarScopes :: "string \<Rightarrow> string list" where
  "nonScalarScopes kind = (if kind = [] then [[]] else [kind, []])"

definition adjustNonScalarField :: "string \<Rightarrow> string \<Rightarrow> int \<Rightarrow> Graph \<Rightarrow> Graph" where
  "adjustNonScalarField kind field delta g =
     g\<lparr>g_nonScalarFields :=
         fold (\<lambda>scope. bump delta (nonScalarKey scope field)) (nonScalarScopes kind) (g_nonScalarFields g)\<rparr>"

definition ScalarIndexCoversField :: "Graph \<Rightarrow> string \<Rightarrow> string \<Rightarrow> bool" where
  "ScalarIndexCoversField g kind field \<longleftrightarrow>
     g_Entities g \<noteq> fmempty \<and> mget_or 0 (g_nonScalarFields g) (nonScalarKey kind field) = 0"

section \<open>The field index\<close>

definition fieldValues :: "Graph \<Rightarrow> string \<Rightarrow> string \<Rightarrow> (string, string) postings" where
  "fieldValues g kind field = mget_or fmempty (mget_or fmempty (g_fieldIndex g) kind) field"

definition putFieldValues :: "string \<Rightarrow> string \<Rightarrow> (string, string) postings \<Rightarrow> Graph \<Rightarrow> Graph" where
  "putFieldValues kind field values g =
     g\<lparr>g_fieldIndex := fmupd kind (fmupd field values (mget_or fmempty (g_fieldIndex g) kind)) (g_fieldIndex g)\<rparr>"

definition removeEntityFieldIndex :: "string \<Rightarrow> string \<Rightarrow> string \<Rightarrow> string \<Rightarrow> Graph \<Rightarrow> Graph" where
  "removeEntityFieldIndex id' kind field key g =
     (if mget (fieldValues g kind field) key = None then g
      else
        let g1 = invalidateFieldValueOrder kind field key g;
            g2 = putFieldValues kind field (idx_del key id' (fieldValues g1 kind field)) g1
        in if mget (fieldValues g2 kind field) key = None then invalidateFieldKeyOrder kind field g2 else g2)"

definition addEntityFieldIndex :: "string \<Rightarrow> string \<Rightarrow> string \<Rightarrow> string \<Rightarrow> Graph \<Rightarrow> Graph" where
  "addEntityFieldIndex id' kind field key g =
     (let g1 = invalidateFieldValueOrder kind field key g;
          g2 = (if bucket (fieldValues g1 kind field) key = {} then invalidateFieldKeyOrder kind field g1 else g1)
      in putFieldValues kind field (idx_add key id' (fieldValues g2 kind field)) g2)"

section \<open>The identity index\<close>

abbreviation graphIdentitySignatures :: "Graph \<Rightarrow> Entity \<Rightarrow> identitySignature list" where
  "graphIdentitySignatures g entity \<equiv> identitySignatures (g_CITypes g) (g_legacyIdentity g) entity"

type_synonym identityMap = "(string, (string, string) fmap) fmap"

definition identities :: "Graph \<Rightarrow> string \<Rightarrow> (string, string) fmap" where
  "identities g kind = mget_or fmempty (g_identityIndex g) kind"

definition addIdentity :: "string \<Rightarrow> string \<Rightarrow> identitySignature \<Rightarrow> identityMap \<Rightarrow> identityMap" where
  "addIdentity id' kind signature index =
     fmupd kind (fmupd (sig_Value signature) id' (mget_or fmempty index kind)) index"

definition removeIdentity :: "string \<Rightarrow> string \<Rightarrow> identitySignature \<Rightarrow> identityMap \<Rightarrow> identityMap" where
  "removeIdentity id' kind signature index =
     (case mget index kind of
        None \<Rightarrow> index
      | Some ids \<Rightarrow>
          if mget_or [] ids (sig_Value signature) = id'
          then fmupd kind (fmdrop (sig_Value signature) ids) index else index)"

section \<open>Entities in the indexes\<close>

definition entityAliasValues :: "Entity \<Rightarrow> string list" where
  "entityAliasValues entity = filter (\<lambda>alias. alias \<noteq> []) (ent_MergedFrom entity)"

definition removeEntityAliasesFromIndex :: "string \<Rightarrow> Entity \<Rightarrow> Graph \<Rightarrow> Graph" where
  "removeEntityAliasesFromIndex id' entity g =
     g\<lparr>g_entityAliasIndex := fold (\<lambda>alias. idx_del alias id') (entityAliasValues entity) (g_entityAliasIndex g)\<rparr>"

definition addEntityAliasesToIndex :: "string \<Rightarrow> Entity \<Rightarrow> Graph \<Rightarrow> Graph" where
  "addEntityAliasesToIndex id' entity g =
     g\<lparr>g_entityAliasIndex := fold (\<lambda>alias. idx_add alias id') (entityAliasValues entity) (g_entityAliasIndex g)\<rparr>"

definition addFieldToIndexes :: "string \<Rightarrow> string \<Rightarrow> string \<times> any \<Rightarrow> Graph \<Rightarrow> Graph" where
  "addFieldToIndexes id' kind = (\<lambda>(field, value) g.
     case ScalarIndexKey value of
       None \<Rightarrow> adjustNonScalarField kind field 1 g
     | Some key \<Rightarrow> addEntityFieldIndex id' kind field key g)"

definition removeFieldFromIndexes :: "string \<Rightarrow> string \<Rightarrow> string \<times> any \<Rightarrow> Graph \<Rightarrow> Graph" where
  "removeFieldFromIndexes id' kind = (\<lambda>(field, value) g.
     case ScalarIndexKey value of
       Some key \<Rightarrow> removeEntityFieldIndex id' kind field key g
     | None \<Rightarrow> adjustNonScalarField kind field (- 1) g)"

definition addKindCount :: "string \<Rightarrow> (string, int) fmap \<Rightarrow> (string, int) fmap" where
  "addKindCount kind counts = fmupd kind (mget_or 0 counts kind + 1) counts"

definition removeKindCount :: "string \<Rightarrow> (string, int) fmap \<Rightarrow> (string, int) fmap" where
  "removeKindCount kind counts =
     (let count = mget_or 0 counts kind
      in if count \<le> 1 then fmdrop kind counts else fmupd kind (count - 1) counts)"

definition removeEntityFromIndexes :: "string \<Rightarrow> Entity \<Rightarrow> Graph \<Rightarrow> Graph" where
  "removeEntityFromIndexes id' entity g =
     (let kind = ent_Kind entity;
          g1 = invalidateEntityKindOrder kind (g\<lparr>g_kindEntityIDs := idx_del kind id' (g_kindEntityIDs g)\<rparr>);
          g2 = g1\<lparr>g_kindCounts := removeKindCount kind (g_kindCounts g1)\<rparr>;
          g3 = removeEntityAliasesFromIndex id' entity g2;
          g4 = g3\<lparr>g_identityIndex := fold (removeIdentity id' kind) (graphIdentitySignatures g entity) (g_identityIndex g3)\<rparr>
      in fold (removeFieldFromIndexes id' kind) (entries (ent_Fields entity)) g4)"

definition addEntityToIndexes :: "string \<Rightarrow> Entity \<Rightarrow> Graph \<Rightarrow> Graph" where
  "addEntityToIndexes id' entity g =
     (let kind = ent_Kind entity;
          g1 = invalidateEntityKindOrder kind g;
          g2 = g1\<lparr>g_kindCounts := addKindCount kind (g_kindCounts g1),
                  g_kindEntityIDs := idx_add kind id' (g_kindEntityIDs g1)\<rparr>;
          g3 = addEntityAliasesToIndex id' entity g2;
          g4 = g3\<lparr>g_identityIndex := fold (addIdentity id' kind) (graphIdentitySignatures g entity) (g_identityIndex g3)\<rparr>
      in fold (addFieldToIndexes id' kind) (entries (ent_Fields entity)) g4)"

text \<open>The two field loops of \<open>updateEntityIndexes\<close>; an absent field reads as nil.\<close>

definition updateField_before :: "string \<Rightarrow> Entity \<Rightarrow> Entity \<Rightarrow> string \<times> any \<Rightarrow> Graph \<Rightarrow> Graph" where
  "updateField_before id' before after = (\<lambda>(field, value) g.
     let indexed = ScalarIndexKey value;
         exists = (mget (ent_Fields after) field \<noteq> None);
         nextIndexed = ScalarIndexKey (mget_or VNil (ent_Fields after) field);
         g1 = (if indexed = None \<and> (\<not> exists \<or> nextIndexed \<noteq> None)
               then adjustNonScalarField (ent_Kind before) field (- 1) g else g)
     in case indexed of
          Some key \<Rightarrow> if \<not> exists \<or> nextIndexed \<noteq> Some key
                      then removeEntityFieldIndex id' (ent_Kind before) field key g1 else g1
        | None \<Rightarrow> g1)"

definition updateField_after :: "string \<Rightarrow> Entity \<Rightarrow> Entity \<Rightarrow> string \<times> any \<Rightarrow> Graph \<Rightarrow> Graph" where
  "updateField_after id' before after = (\<lambda>(field, value) g.
     let indexed = ScalarIndexKey value;
         exists = (mget (ent_Fields before) field \<noteq> None);
         previousIndexed = ScalarIndexKey (mget_or VNil (ent_Fields before) field);
         g1 = (if indexed = None \<and> (\<not> exists \<or> previousIndexed \<noteq> None)
               then adjustNonScalarField (ent_Kind after) field 1 g else g)
     in case indexed of
          Some key \<Rightarrow> if \<not> exists \<or> previousIndexed \<noteq> Some key
                      then addEntityFieldIndex id' (ent_Kind after) field key g1 else g1
        | None \<Rightarrow> g1)"

definition updateEntityIndexes :: "string \<Rightarrow> Entity \<Rightarrow> Entity \<Rightarrow> Graph \<Rightarrow> Graph" where
  "updateEntityIndexes id' before after g =
     (if ent_Kind before \<noteq> ent_Kind after
      then addEntityToIndexes id' after (removeEntityFromIndexes id' before g)
      else
        let g1 = (if ent_MergedFrom before \<noteq> ent_MergedFrom after
                  then addEntityAliasesToIndex id' after (removeEntityAliasesFromIndex id' before g) else g);
            oldIdentities = graphIdentitySignatures g before;
            newIdentities = graphIdentitySignatures g after;
            g2 = (if oldIdentities \<noteq> newIdentities
                  then g1\<lparr>g_identityIndex :=
                         fold (addIdentity id' (ent_Kind after)) newIdentities
                           (fold (removeIdentity id' (ent_Kind after)) oldIdentities (g_identityIndex g1))\<rparr>
                  else g1);
            g3 = fold (updateField_before id' before after) (entries (ent_Fields before)) g2
        in fold (updateField_after id' before after) (entries (ent_Fields after)) g3)"

section \<open>Edges in the indexes\<close>

definition edgeAliasValues :: "Edge \<Rightarrow> string list" where
  "edgeAliasValues edge =
     (if edge_ExternalID edge \<noteq> [] then [edge_ExternalID edge] else []) @
     concat (map (\<lambda>source. (if eds_EdgeID source \<noteq> [] then [eds_EdgeID source] else []) @
                           (if eds_ExternalID source \<noteq> [] then [eds_ExternalID source] else []))
       (edge_Sources edge))"

definition removeEdgeFromIndexes :: "string \<Rightarrow> Edge \<Rightarrow> Graph \<Rightarrow> Graph" where
  "removeEdgeFromIndexes id' edge g =
     (let g1 = invalidateNeighborOrder [edge_From edge, edge_To edge] g in
      g1\<lparr>g_out := idx_del (edge_From edge) id' (g_out g1),
         g_in := idx_del (edge_To edge) id' (g_in g1),
         g_edgeAliasIndex := fold (\<lambda>alias. idx_del alias id') (edgeAliasValues edge) (g_edgeAliasIndex g1),
         g_edgeTypeIndex := idx_del (edge_Type edge) id' (g_edgeTypeIndex g1)\<rparr>)"

definition addEdgeAliasesToIndex :: "string \<Rightarrow> Edge \<Rightarrow> Graph \<Rightarrow> Graph" where
  "addEdgeAliasesToIndex id' edge g =
     g\<lparr>g_edgeAliasIndex := fold (\<lambda>alias. idx_add alias id') (edgeAliasValues edge) (g_edgeAliasIndex g)\<rparr>"

definition addEdgeToIndexes :: "string \<Rightarrow> Edge \<Rightarrow> Graph \<Rightarrow> Graph" where
  "addEdgeToIndexes id' edge g =
     (let g1 = invalidateNeighborOrder [edge_From edge, edge_To edge] g;
          g2 = g1\<lparr>g_out := idx_add (edge_From edge) id' (g_out g1),
                  g_in := idx_add (edge_To edge) id' (g_in g1)\<rparr>;
          g3 = addEdgeAliasesToIndex id' edge g2
      in g3\<lparr>g_edgeTypeIndex := idx_add (edge_Type edge) id' (g_edgeTypeIndex g3)\<rparr>)"

definition sortedKeys :: "string set \<Rightarrow> string list" where
  "sortedKeys values = sorted_list_of_set values"

definition incidentEdgeIDs :: "Graph \<Rightarrow> string \<Rightarrow> string list" where
  "incidentEdgeIDs g entityID = sortedKeys (bucket (g_out g) entityID \<union> bucket (g_in g) entityID)"

section \<open>Building all indexes\<close>

definition rebuildField_step :: "string \<Rightarrow> string \<Rightarrow> string \<times> any \<Rightarrow> Graph \<Rightarrow> Graph" where
  "rebuildField_step id' kind = (\<lambda>(field, value) g.
     case ScalarIndexKey value of
       None \<Rightarrow> adjustNonScalarField kind field 1 g
     | Some key \<Rightarrow> putFieldValues kind field (idx_add key id' (fieldValues g kind field)) g)"

definition rebuildEntity_step :: "string \<times> Entity \<Rightarrow> Graph \<Rightarrow> Graph" where
  "rebuildEntity_step = (\<lambda>(id', entity) g.
     let kind = ent_Kind entity;
         g1 = g\<lparr>g_kindCounts := addKindCount kind (g_kindCounts g),
                g_kindEntityIDs := idx_add kind id' (g_kindEntityIDs g)\<rparr>;
         g2 = addEntityAliasesToIndex id' entity g1;
         g3 = g2\<lparr>g_identityIndex := fmupd kind (identities g2 kind) (g_identityIndex g2)\<rparr>;
         g4 = g3\<lparr>g_identityIndex := fold (addIdentity id' kind) (graphIdentitySignatures g entity) (g_identityIndex g3)\<rparr>
     in fold (rebuildField_step id' kind) (entries (ent_Fields entity)) g4)"

definition clearIndexes :: "Graph \<Rightarrow> Graph" where
  "clearIndexes g =
     (invalidateFieldIndexOrder (invalidateEntityOrder
        (g\<lparr>g_neighborOrder := fmempty, g_neighborOrderBytes := 0, g_entityPartitions := None\<rparr>)))
       \<lparr>g_out := fmempty, g_in := fmempty, g_edgeAliasIndex := fmempty, g_edgeTypeIndex := fmempty,
        g_entityAliasIndex := fmempty, g_kindCounts := fmempty, g_kindEntityIDs := fmempty,
        g_nonScalarFields := fmempty, g_fieldIndex := fmempty, g_identityIndex := fmempty\<rparr>"

definition rebuildIndexes :: "Graph \<Rightarrow> Graph" where
  "rebuildIndexes g =
     (let g1 = fold rebuildEntity_step (entries (g_Entities g)) (clearIndexes g)
      in fold (\<lambda>(id', edge). addEdgeToIndexes id' edge) (entries (g_Edges g)) g1)"

definition zero_Graph :: Graph where
  "zero_Graph =
     \<lparr>g_Version = 0, g_CITypes = fmempty, g_Entities = fmempty, g_RelationTypes = fmempty, g_Edges = fmempty,
      g_out = fmempty, g_in = fmempty, g_edgeAliasIndex = fmempty, g_edgeTypeIndex = fmempty,
      g_entityAliasIndex = fmempty, g_kindCounts = fmempty, g_kindEntityIDs = fmempty,
      g_nonScalarFields = fmempty, g_fieldIndex = fmempty, g_identityIndex = fmempty, g_legacyIdentity = False,
      g_entityPartitions = None, g_entityOrder = fmempty, g_fieldIndexOrder = fmempty, g_fieldValueOrder = fmempty,
      g_neighborOrder = fmempty, g_neighborOrderBytes = 0, g_contentFingerprint = 0,
      g_contentFingerprintReady = False, g_logicalHashCache = None\<rparr>"

definition New :: Graph where
  "New = rebuildIndexes
     (zero_Graph\<lparr>g_RelationTypes :=
        fold (\<lambda>relationType. fmupd (rt_Name relationType) relationType) StandardRelationTypes fmempty\<rparr>)"

section \<open>References\<close>

definition ResolveEntityReference :: "Graph \<Rightarrow> string \<Rightarrow> string" where
  "ResolveEntityReference g id' =
     (if id' = [] then []
      else if mget (g_Entities g) id' \<noteq> None then id'
      else
        let matches = bucket (g_entityAliasIndex g) id' in
        if card matches \<noteq> 1 then []
        else case find (\<lambda>entityID. mget (g_Entities g) entityID \<noteq> None) (sortedKeys matches) of
               Some entityID \<Rightarrow> entityID
             | None \<Rightarrow> [])"

definition GetEntity :: "Graph \<Rightarrow> string \<Rightarrow> Entity option" where
  "GetEntity g id' = mget (g_Entities g) id'"

definition GetEntityByReference :: "Graph \<Rightarrow> string \<Rightarrow> Entity option" where
  "GetEntityByReference g id' =
     (let entityID = ResolveEntityReference g id' in if entityID = [] then None else GetEntity g entityID)"

definition resolveEdgeReference :: "Graph \<Rightarrow> string \<Rightarrow> delete_error + string" where
  "resolveEdgeReference g rawID =
     (let id' = TrimSpace rawID in
      if id' = [] then Inr []
      else if mget (g_Edges g) id' \<noteq> None then Inr id'
      else
        let matches = bucket (g_edgeAliasIndex g) id' in
        if card matches > 1 then Inl (EdgeReferenceAmbiguous id')
        else case find (\<lambda>edgeID. mget (g_Edges g) edgeID \<noteq> None) (sortedKeys matches) of
               Some edgeID \<Rightarrow> Inr edgeID
             | None \<Rightarrow> Inr [])"

definition resolveEdgeDeleteRequest :: "Graph \<Rightarrow> EdgeDeleteRequest \<Rightarrow> delete_error + string" where
  "resolveEdgeDeleteRequest g request =
     (let rid = TrimSpace (edr_ID request); rtype = TrimSpace (edr_Type request);
          rfrom = TrimSpace (edr_From request); rto = TrimSpace (edr_To request) in
      if rtype \<noteq> [] \<or> rfrom \<noteq> [] \<or> rto \<noteq> [] then
        (if rtype = [] \<or> rfrom = [] \<or> rto = [] then Inl DeleteEdgeRelationIdentity
         else Inr (CanonicalEdgeIDParts rtype rfrom rto))
      else if rid = [] then Inl DeleteEdgeTargetRequired
      else resolveEdgeReference g rid)"

definition resolveEntityDeleteRequest :: "Graph \<Rightarrow> EntityDeleteRequest \<Rightarrow> delete_error + string" where
  "resolveEntityDeleteRequest g request =
     (let rid = TrimSpace (endr_ID request); rkind = TrimSpace (endr_Kind request);
          rsource = TrimSpace (endr_Source request); rexternal = TrimSpace (endr_ExternalID request) in
      if rid \<noteq> [] then Inr (ResolveEntityReference g rid)
      else if rsource \<noteq> [] \<or> rexternal \<noteq> [] \<or> rkind \<noteq> [] then
        (if rkind = [] \<or> rsource = [] \<or> rexternal = [] then Inl DeleteEntitySourceIdentity
         else Inr (mget_or [] (identities g rkind)
                (sig_Value (sourceIdentitySignature (g_legacyIdentity g)
                   (zero_EntitySource\<lparr>es_Source := rsource, es_ExternalID := rexternal\<rparr>)))))
      else Inl DeleteEntityTargetRequired)"

section \<open>Matching an incoming entity\<close>

definition zero_identitySignature :: identitySignature where
  "zero_identitySignature = \<lparr>sig_Value = [], sig_Strategy = []\<rparr>"

definition findIdentity_step ::
  "Graph \<Rightarrow> string \<Rightarrow> string \<times> identitySignature \<Rightarrow> identitySignature \<Rightarrow> entity_error + string \<times> identitySignature" where
  "findIdentity_step g kind = (\<lambda>(ownerID, ownerSignature) signature.
     let id' = mget_or [] (identities g kind) (sig_Value signature) in
     if id' = [] then Inr (ownerID, ownerSignature)
     else if ownerID \<noteq> [] \<and> ownerID \<noteq> id'
     then Inl (ConflictingIdentityOwners kind (sig_Value ownerSignature) (sig_Value signature) ownerID id')
     else if ownerID = [] \<or> sig_Strategy signature = ''reject'' then Inr (id', signature)
     else Inr (ownerID, ownerSignature))"

definition findEntityByIdentity :: "Graph \<Rightarrow> Entity \<Rightarrow> entity_error + string \<times> identitySignature" where
  "findEntityByIdentity g entity =
     foldM (findIdentity_step g (ent_Kind entity)) ([], zero_identitySignature)
       (lookupIdentitySignatures (g_CITypes g) (g_legacyIdentity g) entity)"

definition resolveEntityID :: "Graph \<Rightarrow> Entity \<Rightarrow> entity_error + string" where
  "resolveEntityID g entity =
     (if ent_ID entity = [] then
        rbind (findEntityByIdentity g entity) (\<lambda>(id', _).
          if id' \<noteq> [] then Inr id'
          else if canonicalEntityID entity \<noteq> [] then Inr (canonicalEntityID entity)
          else Inl EntityIDRequired)
      else
        rbind (findEntityByIdentity g entity) (\<lambda>(id', signature).
          if id' \<noteq> [] \<and> id' \<noteq> ent_ID entity then
            (if sig_Strategy signature = ''reject''
             then Inl (DuplicateIdentity (ent_ID entity) (sig_Value signature) id')
             else Inr id')
          else Inr (ent_ID entity)))"

definition validateIdentityIndexAvailable :: "Graph \<Rightarrow> Entity \<Rightarrow> entity_error + unit" where
  "validateIdentityIndexAvailable g entity =
     checkM (\<lambda>signature.
       let owner = mget_or [] (identities g (ent_Kind entity)) (sig_Value signature) in
       if owner \<noteq> [] \<and> owner \<noteq> ent_ID entity
       then Inl (DuplicateIdentity (ent_ID entity) (sig_Value signature) owner) else Inr ())
     (graphIdentitySignatures g entity)"

definition validateResolvedEntityTarget :: "Graph \<Rightarrow> string \<Rightarrow> string \<Rightarrow> entity_error + unit" where
  "validateResolvedEntityTarget g incomingID targetID =
     (if incomingID = [] \<or> incomingID = targetID then Inr ()
      else if mget (g_Entities g) incomingID = None then Inr ()
      else Inl (IncomingIDExists incomingID targetID))"

section \<open>The encoding of identities\<close>

definition identityEntity_step :: "string \<times> Entity \<Rightarrow> Graph \<Rightarrow> Graph" where
  "identityEntity_step = (\<lambda>(id', entity) g.
     g\<lparr>g_identityIndex :=
         fold (addIdentity id' (ent_Kind entity)) (graphIdentitySignatures g entity)
           (fmupd (ent_Kind entity) (identities g (ent_Kind entity)) (g_identityIndex g))\<rparr>)"

definition useCommitIdentity :: "Commit \<Rightarrow> Graph \<Rightarrow> error + Graph" where
  "useCommitIdentity commit g =
     (if co_IdentityEncoding commit < 0 \<or> co_IdentityEncoding commit > IdentityEncodingTuple
      then Inl (UnsupportedIdentityEncoding (co_IdentityEncoding commit))
      else
        let legacy = legacyCommitIdentity commit in
        if g_legacyIdentity g = legacy then Inr g
        else Inr (fold identityEntity_step (entries (g_Entities g))
                    (g\<lparr>g_legacyIdentity := legacy, g_identityIndex := fmempty\<rparr>)))"

section \<open>Edges against their relation types\<close>

definition validateEdge :: "Graph \<Rightarrow> Edge \<Rightarrow> edge_error + unit" where
  "validateEdge g edge =
     (case mget (g_RelationTypes g) (edge_Type edge) of
        None \<Rightarrow> Inl (EdgeMissingRelationType (edge_ID edge) (edge_Type edge))
      | Some relationType \<Rightarrow>
          (case mget (g_Entities g) (edge_From edge) of
             None \<Rightarrow> Inl (EdgeMissingFrom (edge_ID edge) (edge_From edge))
           | Some from \<Rightarrow>
               (case mget (g_Entities g) (edge_To edge) of
                  None \<Rightarrow> Inl (EdgeMissingTo (edge_ID edge) (edge_To edge))
                | Some to \<Rightarrow>
                    if \<not> kindAllowed (ent_Kind from) (rt_FromKind relationType) (rt_FromKinds relationType)
                           (rt_AllowCrossKind relationType)
                    then Inl (EdgeFromKind (edge_ID edge) (ent_Kind from) (edge_Type edge))
                    else if \<not> kindAllowed (ent_Kind to) (rt_ToKind relationType) (rt_ToKinds relationType)
                                (rt_AllowCrossKind relationType)
                    then Inl (EdgeToKind (edge_ID edge) (ent_Kind to) (edge_Type edge))
                    else Inr ())))"

definition hasCardinalityConflict :: "Graph \<Rightarrow> Edge \<Rightarrow> string set \<Rightarrow> bool" where
  "hasCardinalityConflict g edge edgeIDs \<longleftrightarrow>
     (\<exists>edgeID \<in> edgeIDs.
        let existing = mget_or zero_Edge (g_Edges g) edgeID
        in edge_ID existing \<noteq> edge_ID edge \<and> edge_Type existing = edge_Type edge)"

definition relationCardinality :: "Graph \<Rightarrow> string \<Rightarrow> string" where
  "relationCardinality g relation =
     (case mget (g_RelationTypes g) relation of None \<Rightarrow> [] | Some relationType \<Rightarrow> rt_Cardinality relationType)"

definition validateCardinality :: "Graph \<Rightarrow> Edge \<Rightarrow> edge_error + unit" where
  "validateCardinality g edge =
     (let cardinality = relationCardinality g (edge_Type edge);
          violated = Inl (CardinalityViolated (edge_ID edge) cardinality (edge_Type edge));
          outConflict = hasCardinalityConflict g edge (bucket (g_out g) (edge_From edge));
          inConflict = hasCardinalityConflict g edge (bucket (g_in g) (edge_To edge)) in
      if cardinality = [] \<or> cardinality = ManyToMany then Inr ()
      else if cardinality = OneToOne then (if outConflict \<or> inConflict then violated else Inr ())
      else if cardinality = OneToMany then (if inConflict then violated else Inr ())
      else if cardinality = ManyToOne then (if outConflict then violated else Inr ())
      else Inr ())"

text \<open>The sets \<open>outgoing\<close> and \<open>incoming\<close> of endpoints with their relation type.\<close>

type_synonym cardinalityEndpoint = "string \<times> string"

definition allCardinalities_step ::
  "Graph \<Rightarrow> cardinalityEndpoint set \<times> cardinalityEndpoint set \<Rightarrow> Edge
     \<Rightarrow> edge_error + cardinalityEndpoint set \<times> cardinalityEndpoint set" where
  "allCardinalities_step g = (\<lambda>(outgoing, incoming) edge.
     let cardinality = relationCardinality g (edge_Type edge);
         violated = Inl (CardinalityViolated (edge_ID edge) cardinality (edge_Type edge));
         outKey = (edge_From edge, edge_Type edge); inKey = (edge_To edge, edge_Type edge) in
     if cardinality = [] \<or> cardinality = ManyToMany then Inr (outgoing, incoming)
     else if cardinality = OneToOne then
       (if outKey \<in> outgoing then violated
        else if inKey \<in> incoming then violated
        else Inr (insert outKey outgoing, insert inKey incoming))
     else if cardinality = OneToMany then
       (if inKey \<in> incoming then violated else Inr (outgoing, insert inKey incoming))
     else if cardinality = ManyToOne then
       (if outKey \<in> outgoing then violated else Inr (insert outKey outgoing, incoming))
     else Inr (outgoing, incoming))"

definition validateAllCardinalities :: "Graph \<Rightarrow> edge_error + unit" where
  "validateAllCardinalities g =
     rbind (foldM (allCardinalities_step g) ({}, {}) (map snd (entries (g_Edges g)))) (\<lambda>_. Inr ())"

definition validateAllEdges :: "Graph \<Rightarrow> edge_error + unit" where
  "validateAllEdges g =
     rbind (checkM (validateEdge g) (map snd (entries (g_Edges g)))) (\<lambda>_. validateAllCardinalities g)"

definition validateRelationTypeEdges :: "Graph \<Rightarrow> string set \<Rightarrow> edge_error + unit" where
  "validateRelationTypeEdges g relationTypes =
     checkM (\<lambda>relationType.
       checkM (\<lambda>edgeID.
         case mget (g_Edges g) edgeID of
           None \<Rightarrow> Inr ()
         | Some edge \<Rightarrow> rbind (validateEdge g edge) (\<lambda>_. validateCardinality g edge))
       (sortedKeys (bucket (g_edgeTypeIndex g) relationType)))
     (sortedKeys relationTypes)"

definition entityKindSet :: "(string, Entity) fmap \<Rightarrow> string set" where
  "entityKindSet entities = ent_Kind ` set (map snd (entries entities))"

definition rebuildIdentityIndexesForKinds :: "string set \<Rightarrow> Graph \<Rightarrow> Graph" where
  "rebuildIdentityIndexesForKinds kinds g =
     (if kinds = {} then g
      else
        let next0 = fold (\<lambda>kind. fmupd kind fmempty) (sortedKeys kinds) fmempty;
            next1 = fold (\<lambda>(id', entity) next'.
                       case mget next' (ent_Kind entity) of
                         None \<Rightarrow> next'
                       | Some ids \<Rightarrow>
                           fmupd (ent_Kind entity)
                             (fold (\<lambda>signature. fmupd (sig_Value signature) id') (graphIdentitySignatures g entity) ids) next')
                      (entries (g_Entities g)) next0
        in g\<lparr>g_identityIndex := put_all next1 (g_identityIndex g)\<rparr>)"

end
