(* ===== verification/GraphIndex.thy ===== *)
theory GraphIndex
  imports GraphState "HOL-Library.Multiset"
begin

text \<open>
  What the indexes of a graph mean and that every index operation of \<open>index.go\<close> keeps it: the index
  invariant states that each index represents the relation induced by the stored entities or edges,
  and that every cached read order is the sorted order of what it caches. The incremental updates and
  the full rebuild both establish it; since the relation an index represents determines the index,
  incremental maintenance and rebuilding agree.
\<close>

section \<open>Posting indexes over a collection\<close>

context posting_index
begin

lemma represents_insert:
  assumes "represents m (rel_of f c)" and "mget c i = None" and "set ks = f v"
  shows "represents (fold (\<lambda>k. add k i) ks m) (rel_of f (fmupd i v c))"
  using represents_add_keys [OF assms(1), of i ks] by (simp add: rel_of_upd_absent [OF assms(2)] assms(3))

lemma represents_remove:
  assumes "represents m (rel_of f c)" and "mget c i = Some v" and "set ks = f v"
  shows "represents (fold (\<lambda>k. del k i) ks m) (rel_of f (fmdrop i c))"
  using represents_del_keys [OF assms(1), of i ks] by (simp add: rel_of_drop [OF assms(2)] assms(3))

lemma represents_replace:
  assumes "represents m (rel_of f c)" and "mget c i = Some v" and "set ks = f v" and "set ks' = f v'"
  shows "represents (fold (\<lambda>k. add k i) ks' (fold (\<lambda>k. del k i) ks m)) (rel_of f (fmupd i v' c))"
proof -
  have "rel_of f (fmupd i v' c) = rel_of f (fmupd i v' (fmdrop i c))" by (auto split: if_splits)
  with represents_insert [OF represents_remove [OF assms(1-3)] _ assms(4)] show ?thesis by simp
qed

end

lemma rel_of_same_keys:
  "mget c i = Some v \<Longrightarrow> f v' = f v \<Longrightarrow> rel_of f (fmupd i v' c) = rel_of f c"
  by (auto split: if_splits)

section \<open>Counters\<close>

text \<open>A counter map represents a multiset of keys: a key is present exactly when its count is positive.\<close>

locale counted_index =
  fixes inc :: "'k \<Rightarrow> 'm \<Rightarrow> 'm" and dec :: "'k \<Rightarrow> 'm \<Rightarrow> 'm" and represents :: "'m \<Rightarrow> 'k multiset \<Rightarrow> bool"
  assumes represents_inc: "represents m M \<Longrightarrow> represents (inc k m) (add_mset k M)"
    and represents_dec: "represents m M \<Longrightarrow> represents (dec k m) (M - {#k#})"
    and represents_unique: "represents m M \<Longrightarrow> represents m' M \<Longrightarrow> m = m'"
begin

lemma represents_inc_keys: "represents m M \<Longrightarrow> represents (fold inc ks m) (M + mset ks)"
proof (induction ks arbitrary: m M)
  case (Cons k ks)
  from Cons.IH [OF represents_inc [OF Cons.prems, of k]] show ?case by simp
qed simp

lemma represents_dec_keys: "represents m M \<Longrightarrow> represents (fold dec ks m) (M - mset ks)"
proof (induction ks arbitrary: m M)
  case (Cons k ks)
  from Cons.IH [OF represents_dec [OF Cons.prems, of k]] show ?case by (simp add: diff_diff_add_mset)
qed simp

end

definition is_count :: "('k, int) fmap \<Rightarrow> 'k multiset \<Rightarrow> bool" where
  "is_count m M \<longleftrightarrow> (\<forall>k. mget m k = (if count M k = 0 then None else Some (int (count M k))))"

lemma is_count_empty [simp]: "is_count fmempty {#}"
  by (simp add: is_count_def)

lemma is_count_get: "is_count m M \<Longrightarrow> mget_or 0 m k = int (count M k)"
  by (simp add: is_count_def mget_or_def)

interpretation nonscalar: counted_index "bump 1" "bump (- 1)" is_count
proof
  fix m :: "(string, int) fmap" and M k
  assume m: "is_count m M"
  then show "is_count (bump 1 k m) (add_mset k M)"
    by (auto simp: is_count_def bump_def Let_def is_count_get [OF m] not_in_iff)
  from m show "is_count (bump (- 1) k m) (M - {#k#})"
    by (auto simp: is_count_def bump_def Let_def is_count_get [OF m] not_in_iff)
next
  fix m m' :: "(string, int) fmap" and M
  assume "is_count m M" and "is_count m' M"
  then show "m = m'" by (intro fmap_ext) (simp add: is_count_def)
qed

interpretation kinds: counted_index addKindCount removeKindCount is_count
proof
  fix m :: "(string, int) fmap" and M k
  assume m: "is_count m M"
  then show "is_count (addKindCount k m) (add_mset k M)"
    by (auto simp: is_count_def addKindCount_def is_count_get [OF m] not_in_iff)
  from m show "is_count (removeKindCount k m) (M - {#k#})"
    by (auto simp: is_count_def removeKindCount_def Let_def is_count_get [OF m] not_in_iff)
qed (rule nonscalar.represents_unique)

text \<open>The keys of all members of a collection, with multiplicity.\<close>

definition total :: "('v \<Rightarrow> 'k multiset) \<Rightarrow> ('i, 'v) fmap \<Rightarrow> 'k multiset" where
  "total f c = (\<Sum>i \<in> fmdom' c. f (the (mget c i)))"

lemma total_empty [simp]: "total f fmempty = {#}"
  by (simp add: total_def)

lemma total_upd_absent: "mget c i = None \<Longrightarrow> total f (fmupd i v c) = total f c + f v"
proof -
  assume i: "mget c i = None"
  then have "i \<notin> fmdom' c" by (simp add: fmlookup_dom'_iff)
  moreover have "(\<Sum>j \<in> fmdom' c. f (the (mget (fmupd i v c) j))) = (\<Sum>j \<in> fmdom' c. f (the (mget c j)))"
    using i by (intro sum.cong) (auto simp: fmlookup_dom'_iff)
  ultimately show ?thesis by (simp add: total_def add.commute)
qed

lemma total_drop: "mget c i = Some v \<Longrightarrow> total f c = total f (fmdrop i c) + f v"
proof -
  assume i: "mget c i = Some v"
  have "total f (fmupd i v (fmdrop i c)) = total f (fmdrop i c) + f v" by (rule total_upd_absent) simp
  moreover have "fmupd i v (fmdrop i c) = c" using i by (intro fmap_ext) auto
  ultimately show ?thesis by simp
qed

lemma total_upd: "mget c i = Some v \<Longrightarrow> total f (fmupd i v' c) = total f c - f v + f v'"
proof -
  assume i: "mget c i = Some v"
  have "total f (fmupd i v' (fmdrop i c)) = total f (fmdrop i c) + f v'" by (rule total_upd_absent) simp
  moreover have "fmupd i v' (fmdrop i c) = fmupd i v' c" by (intro fmap_ext) auto
  ultimately show ?thesis using total_drop [OF i, of f] by simp
qed

section \<open>What the indexes mean\<close>

definition fieldKeys :: "string \<Rightarrow> string \<Rightarrow> Entity \<Rightarrow> string set" where
  "fieldKeys kind field e =
     (if ent_Kind e = kind
      then (case mget (ent_Fields e) field of
              None \<Rightarrow> {} | Some v \<Rightarrow> (case ScalarIndexKey v of None \<Rightarrow> {} | Some key \<Rightarrow> {key}))
      else {})"

definition nonScalarKeys :: "string \<Rightarrow> string \<times> any \<Rightarrow> string list" where
  "nonScalarKeys kind = (\<lambda>(field, value).
     if ScalarIndexKey value = None then map (\<lambda>scope. nonScalarKey scope field) (nonScalarScopes kind) else [])"

definition entityNonScalarKeys :: "Entity \<Rightarrow> string list" where
  "entityNonScalarKeys e = concat (map (nonScalarKeys (ent_Kind e)) (entries (ent_Fields e)))"

definition entity_index_ok :: "Graph \<Rightarrow> (string, Entity) fmap \<Rightarrow> bool" where
  "entity_index_ok g E \<longleftrightarrow>
     is_index (g_entityAliasIndex g) (rel_of (\<lambda>e. set (entityAliasValues e)) E) \<and>
     is_index (g_kindEntityIDs g) (rel_of (\<lambda>e. {ent_Kind e}) E) \<and>
     is_count (g_kindCounts g) (total (\<lambda>e. {#ent_Kind e#}) E) \<and>
     is_count (g_nonScalarFields g) (total (\<lambda>e. mset (entityNonScalarKeys e)) E) \<and>
     (\<forall>kind field. is_index (fieldValues g kind field) (rel_of (fieldKeys kind field) E))"

definition edge_index_ok :: "Graph \<Rightarrow> (string, Edge) fmap \<Rightarrow> bool" where
  "edge_index_ok g D \<longleftrightarrow>
     is_index (g_out g) (rel_of (\<lambda>e. {edge_From e}) D) \<and>
     is_index (g_in g) (rel_of (\<lambda>e. {edge_To e}) D) \<and>
     is_index (g_edgeAliasIndex g) (rel_of (\<lambda>e. set (edgeAliasValues e)) D) \<and>
     is_index (g_edgeTypeIndex g) (rel_of (\<lambda>e. {edge_Type e}) D)"

text \<open>
  The identity index is exact: a signature is registered under a kind exactly for the one entity that
  has it. This includes that no two entities of a kind share a signature.
\<close>

definition identity_index_ok :: "Graph \<Rightarrow> (string, Entity) fmap \<Rightarrow> bool" where
  "identity_index_ok g E \<longleftrightarrow>
     (\<forall>kind s id'. mget (identities g kind) s = Some id' \<longleftrightarrow>
        (\<exists>e. mget E id' = Some e \<and> ent_Kind e = kind \<and> s \<in> sig_Value ` set (graphIdentitySignatures g e)))"

section \<open>Frames\<close>

text \<open>What entity index operations, field operations and edge index operations leave alone.\<close>

definition entity_frame where
  "entity_frame g =
     (g_Version g, g_CITypes g, g_Entities g, g_RelationTypes g, g_Edges g, g_out g, g_in g, g_edgeAliasIndex g,
      g_edgeTypeIndex g, g_legacyIdentity g, g_entityPartitions g, g_neighborOrder g, g_neighborOrderBytes g,
      g_contentFingerprint g, g_contentFingerprintReady g, g_logicalHashCache g)"

definition field_frame where
  "field_frame g =
     (entity_frame g, g_entityAliasIndex g, g_kindCounts g, g_kindEntityIDs g, g_identityIndex g, g_entityOrder g)"

definition edge_frame where
  "edge_frame g =
     (g_Version g, g_CITypes g, g_Entities g, g_RelationTypes g, g_Edges g, g_entityAliasIndex g, g_kindCounts g,
      g_kindEntityIDs g, g_nonScalarFields g, g_fieldIndex g, g_identityIndex g, g_legacyIdentity g,
      g_entityPartitions g, g_entityOrder g, g_fieldIndexOrder g, g_fieldValueOrder g,
      g_contentFingerprint g, g_contentFingerprintReady g, g_logicalHashCache g)"

lemma fold_frame: "(\<And>x s. sel (f x s) = sel s) \<Longrightarrow> sel (fold f xs s) = sel s"
  by (induction xs arbitrary: s) auto

lemmas field_op_defs =
  addEntityFieldIndex_def removeEntityFieldIndex_def adjustNonScalarField_def invalidateFieldValueOrder_def
  invalidateFieldKeyOrder_def putFieldValues_def

lemma field_ops_frame [frame_simps]:
  "field_frame (addEntityFieldIndex i k f key g) = field_frame g"
  "field_frame (removeEntityFieldIndex i k f key g) = field_frame g"
  "field_frame (adjustNonScalarField k f d g) = field_frame g"
  by (simp_all add: field_frame_def entity_frame_def field_op_defs Let_def)

lemma field_steps_frame [frame_simps]:
  "field_frame (addFieldToIndexes i k fv g) = field_frame g"
  "field_frame (removeFieldFromIndexes i k fv g) = field_frame g"
  "field_frame (updateField_before i b a fv g) = field_frame g"
  "field_frame (updateField_after i b a fv g) = field_frame g"
  by (cases fv; simp add: addFieldToIndexes_def removeFieldFromIndexes_def updateField_before_def updateField_after_def
        frame_simps Let_def split: option.split)+

lemma field_loops_frame [frame_simps]:
  "field_frame (fold (addFieldToIndexes i k) fvs g) = field_frame g"
  "field_frame (fold (removeFieldFromIndexes i k) fvs g) = field_frame g"
  "field_frame (fold (updateField_before i b a) fvs g) = field_frame g"
  "field_frame (fold (updateField_after i b a) fvs g) = field_frame g"
  by (rule fold_frame, rule field_steps_frame)+

section \<open>Effects of the field operations\<close>

lemma fieldValues_put [simp]:
  "fieldValues (putFieldValues k f vals g) k' f' = (if k' = k \<and> f' = f then vals else fieldValues g k' f')"
  by (simp add: fieldValues_def putFieldValues_def)

lemma fieldValues_cong: "g_fieldIndex g = g_fieldIndex g' \<Longrightarrow> fieldValues g = fieldValues g'"
  by (intro ext) (simp add: fieldValues_def)

lemma fieldValues_update [simp]:
  "fieldValues (g\<lparr>g_Version := x0\<rparr>) = fieldValues g"
  "fieldValues (g\<lparr>g_CITypes := x1\<rparr>) = fieldValues g"
  "fieldValues (g\<lparr>g_Entities := x2\<rparr>) = fieldValues g"
  "fieldValues (g\<lparr>g_RelationTypes := x3\<rparr>) = fieldValues g"
  "fieldValues (g\<lparr>g_Edges := x4\<rparr>) = fieldValues g"
  "fieldValues (g\<lparr>g_out := x5\<rparr>) = fieldValues g"
  "fieldValues (g\<lparr>g_in := x6\<rparr>) = fieldValues g"
  "fieldValues (g\<lparr>g_edgeAliasIndex := x7\<rparr>) = fieldValues g"
  "fieldValues (g\<lparr>g_edgeTypeIndex := x8\<rparr>) = fieldValues g"
  "fieldValues (g\<lparr>g_entityAliasIndex := x9\<rparr>) = fieldValues g"
  "fieldValues (g\<lparr>g_kindCounts := x10\<rparr>) = fieldValues g"
  "fieldValues (g\<lparr>g_kindEntityIDs := x11\<rparr>) = fieldValues g"
  "fieldValues (g\<lparr>g_nonScalarFields := x12\<rparr>) = fieldValues g"
  "fieldValues (g\<lparr>g_identityIndex := x13\<rparr>) = fieldValues g"
  "fieldValues (g\<lparr>g_legacyIdentity := x14\<rparr>) = fieldValues g"
  "fieldValues (g\<lparr>g_entityPartitions := x15\<rparr>) = fieldValues g"
  "fieldValues (g\<lparr>g_entityOrder := x16\<rparr>) = fieldValues g"
  "fieldValues (g\<lparr>g_fieldIndexOrder := x17\<rparr>) = fieldValues g"
  "fieldValues (g\<lparr>g_fieldValueOrder := x18\<rparr>) = fieldValues g"
  "fieldValues (g\<lparr>g_neighborOrder := x19\<rparr>) = fieldValues g"
  "fieldValues (g\<lparr>g_neighborOrderBytes := x20\<rparr>) = fieldValues g"
  "fieldValues (g\<lparr>g_contentFingerprint := x21\<rparr>) = fieldValues g"
  "fieldValues (g\<lparr>g_contentFingerprintReady := x22\<rparr>) = fieldValues g"
  "fieldValues (g\<lparr>g_logicalHashCache := x23\<rparr>) = fieldValues g"
  by (rule fieldValues_cong, simp)+

lemma fieldValues_invalidate [simp]:
  "fieldValues (invalidateFieldValueOrder k f v g) = fieldValues g"
  "fieldValues (invalidateFieldKeyOrder k f g) = fieldValues g"
  "fieldValues (adjustNonScalarField k f d g) = fieldValues g"
  by (rule fieldValues_cong, simp add: invalidateFieldValueOrder_def invalidateFieldKeyOrder_def adjustNonScalarField_def)+

lemma idx_del_absent: "mget m k = None \<Longrightarrow> idx_del k i m = m"
  by (simp add: idx_del_def)

lemma fieldValues_ops [simp]:
  "fieldValues (addEntityFieldIndex i k f key g) k' f' =
     (if k' = k \<and> f' = f then idx_add key i (fieldValues g k f) else fieldValues g k' f')"
  "fieldValues (removeEntityFieldIndex i k f key g) k' f' =
     (if k' = k \<and> f' = f then idx_del key i (fieldValues g k f) else fieldValues g k' f')"
  by (simp_all add: addEntityFieldIndex_def removeEntityFieldIndex_def Let_def idx_del_absent)

lemma nonScalarFields_ops [simp]:
  "g_nonScalarFields (addEntityFieldIndex i k f key g) = g_nonScalarFields g"
  "g_nonScalarFields (removeEntityFieldIndex i k f key g) = g_nonScalarFields g"
  "g_nonScalarFields (adjustNonScalarField k f d g) =
     fold (bump d) (map (\<lambda>scope. nonScalarKey scope f) (nonScalarScopes k)) (g_nonScalarFields g)"
  by (simp_all add: field_op_defs Let_def fold_map comp_def)

text \<open>
  A loop over the fields of an entity whose step changes the values of its own field and the counters
  of non-scalar fields only.
\<close>

lemma field_loop:
  assumes step: "\<And>f v g k' f'. fieldValues (step (f, v) g) k' f' =
                    (if k' = k \<and> f' = f then T f v (fieldValues g k f) else fieldValues g k' f')"
    and count: "\<And>fv g. g_nonScalarFields (step fv g) = fold b (K fv) (g_nonScalarFields g)"
    and "distinct (map fst fvs)"
  shows "fieldValues (fold step fvs g) k' f' =
           (if k' = k then (case map_of fvs f' of None \<Rightarrow> fieldValues g k f' | Some v \<Rightarrow> T f' v (fieldValues g k f'))
            else fieldValues g k' f') \<and>
         g_nonScalarFields (fold step fvs g) = fold b (concat (map K fvs)) (g_nonScalarFields g)"
  using assms(3)
proof (induction fvs arbitrary: g)
  case Nil
  then show ?case by simp
next
  case (Cons fv fvs)
  obtain f v where fv: "fv = (f, v)" by (cases fv)
  from Cons.prems have "map_of fvs f = None" by (simp add: fv map_of_eq_None_iff)
  with Cons.IH [of "step fv g"] Cons.prems show ?case
    by (cases "f' = f") (simp_all add: fv step count split: option.split)
qed

definition fieldKeyList :: "string \<Rightarrow> Entity \<Rightarrow> string list" where
  "fieldKeyList field e =
     (case mget (ent_Fields e) field of
        None \<Rightarrow> [] | Some v \<Rightarrow> (case ScalarIndexKey v of None \<Rightarrow> [] | Some key \<Rightarrow> [key]))"

lemma set_fieldKeyList: "set (fieldKeyList field e) = fieldKeys (ent_Kind e) field e"
  by (simp add: fieldKeyList_def fieldKeys_def split: option.split)

lemma addFields_effect:
  fixes e :: Entity and i :: string
  defines "g' \<equiv> \<lambda>g. fold (addFieldToIndexes i (ent_Kind e)) (entries (ent_Fields e)) g"
  shows "fieldValues (g' g) k' f' = (if k' = ent_Kind e then fold (\<lambda>k. idx_add k i) (fieldKeyList f' e) (fieldValues g k' f')
                                     else fieldValues g k' f')"
    and "g_nonScalarFields (g' g) = fold (bump 1) (entityNonScalarKeys e) (g_nonScalarFields g)"
proof -
  let ?T = "\<lambda>f v. case ScalarIndexKey v of None \<Rightarrow> (\<lambda>m. m) | Some key \<Rightarrow> idx_add key i"
  note loop = field_loop [of "addFieldToIndexes i (ent_Kind e)" "ent_Kind e" ?T "bump 1" "nonScalarKeys (ent_Kind e)"
      "entries (ent_Fields e)" g k' f']
  have "fieldValues (g' g) k' f' =
           (if k' = ent_Kind e then (case map_of (entries (ent_Fields e)) f' of None \<Rightarrow> fieldValues g (ent_Kind e) f' | Some v \<Rightarrow> ?T f' v (fieldValues g (ent_Kind e) f'))
            else fieldValues g k' f') \<and>
        g_nonScalarFields (g' g) = fold (bump 1) (concat (map (nonScalarKeys (ent_Kind e)) (entries (ent_Fields e)))) (g_nonScalarFields g)"
    unfolding g'_def
    by (rule loop) (auto simp: addFieldToIndexes_def nonScalarKeys_def split: option.split)
  then show "fieldValues (g' g) k' f' = (if k' = ent_Kind e then fold (\<lambda>k. idx_add k i) (fieldKeyList f' e) (fieldValues g k' f')
                                     else fieldValues g k' f')"
    and "g_nonScalarFields (g' g) = fold (bump 1) (entityNonScalarKeys e) (g_nonScalarFields g)"
    by (auto simp: fieldKeyList_def entityNonScalarKeys_def split: option.split)
qed

lemma removeFields_effect:
  fixes e :: Entity and i :: string
  defines "g' \<equiv> \<lambda>g. fold (removeFieldFromIndexes i (ent_Kind e)) (entries (ent_Fields e)) g"
  shows "fieldValues (g' g) k' f' = (if k' = ent_Kind e then fold (\<lambda>k. idx_del k i) (fieldKeyList f' e) (fieldValues g k' f')
                                     else fieldValues g k' f')"
    and "g_nonScalarFields (g' g) = fold (bump (- 1)) (entityNonScalarKeys e) (g_nonScalarFields g)"
proof -
  let ?T = "\<lambda>f v. case ScalarIndexKey v of None \<Rightarrow> (\<lambda>m. m) | Some key \<Rightarrow> idx_del key i"
  note loop = field_loop [of "removeFieldFromIndexes i (ent_Kind e)" "ent_Kind e" ?T "bump (- 1)" "nonScalarKeys (ent_Kind e)"
      "entries (ent_Fields e)" g k' f']
  have "fieldValues (g' g) k' f' =
           (if k' = ent_Kind e then (case map_of (entries (ent_Fields e)) f' of None \<Rightarrow> fieldValues g (ent_Kind e) f' | Some v \<Rightarrow> ?T f' v (fieldValues g (ent_Kind e) f'))
            else fieldValues g k' f') \<and>
        g_nonScalarFields (g' g) = fold (bump (- 1)) (concat (map (nonScalarKeys (ent_Kind e)) (entries (ent_Fields e)))) (g_nonScalarFields g)"
    unfolding g'_def
    by (rule loop) (auto simp: removeFieldFromIndexes_def nonScalarKeys_def split: option.split)
  then show "fieldValues (g' g) k' f' = (if k' = ent_Kind e then fold (\<lambda>k. idx_del k i) (fieldKeyList f' e) (fieldValues g k' f')
                                     else fieldValues g k' f')"
    and "g_nonScalarFields (g' g) = fold (bump (- 1)) (entityNonScalarKeys e) (g_nonScalarFields g)"
    by (auto simp: fieldKeyList_def entityNonScalarKeys_def split: option.split)
qed

section \<open>Adding and removing an entity\<close>

definition entity_parts where
  "entity_parts g = (g_entityAliasIndex g, g_kindCounts g, g_kindEntityIDs g, g_identityIndex g, g_entityOrder g)"

lemma addEntityToIndexes_effect [simp]:
  "entity_frame (addEntityToIndexes i e g) = entity_frame g"
  "g_entityAliasIndex (addEntityToIndexes i e g) = fold (\<lambda>a. idx_add a i) (entityAliasValues e) (g_entityAliasIndex g)"
  "g_kindCounts (addEntityToIndexes i e g) = addKindCount (ent_Kind e) (g_kindCounts g)"
  "g_kindEntityIDs (addEntityToIndexes i e g) = idx_add (ent_Kind e) i (g_kindEntityIDs g)"
  "g_identityIndex (addEntityToIndexes i e g) = fold (addIdentity i (ent_Kind e)) (graphIdentitySignatures g e) (g_identityIndex g)"
  "g_entityOrder (addEntityToIndexes i e g) = fmdrop (ent_Kind e) (fmdrop [] (g_entityOrder g))"
  using field_loops_frame(1) [of i "ent_Kind e" "entries (ent_Fields e)"]
  by (simp_all add: field_frame_def entity_frame_def addEntityToIndexes_def invalidateEntityKindOrder_def addEntityAliasesToIndex_def Let_def)

lemma addEntityToIndexes_fields [simp]:
  "fieldValues (addEntityToIndexes i e g) k' f' =
     (if k' = ent_Kind e then fold (\<lambda>k. idx_add k i) (fieldKeyList f' e) (fieldValues g k' f') else fieldValues g k' f')"
  "g_nonScalarFields (addEntityToIndexes i e g) = fold (bump 1) (entityNonScalarKeys e) (g_nonScalarFields g)"
  by (simp_all add: addEntityToIndexes_def Let_def addFields_effect invalidateEntityKindOrder_def addEntityAliasesToIndex_def)

lemma removeEntityFromIndexes_effect [simp]:
  "entity_frame (removeEntityFromIndexes i e g) = entity_frame g"
  "g_entityAliasIndex (removeEntityFromIndexes i e g) = fold (\<lambda>a. idx_del a i) (entityAliasValues e) (g_entityAliasIndex g)"
  "g_kindCounts (removeEntityFromIndexes i e g) = removeKindCount (ent_Kind e) (g_kindCounts g)"
  "g_kindEntityIDs (removeEntityFromIndexes i e g) = idx_del (ent_Kind e) i (g_kindEntityIDs g)"
  "g_identityIndex (removeEntityFromIndexes i e g) = fold (removeIdentity i (ent_Kind e)) (graphIdentitySignatures g e) (g_identityIndex g)"
  "g_entityOrder (removeEntityFromIndexes i e g) = fmdrop (ent_Kind e) (fmdrop [] (g_entityOrder g))"
  using field_loops_frame(2) [of i "ent_Kind e" "entries (ent_Fields e)"]
  by (simp_all add: field_frame_def entity_frame_def removeEntityFromIndexes_def invalidateEntityKindOrder_def removeEntityAliasesFromIndex_def Let_def)

lemma removeEntityFromIndexes_fields [simp]:
  "fieldValues (removeEntityFromIndexes i e g) k' f' =
     (if k' = ent_Kind e then fold (\<lambda>k. idx_del k i) (fieldKeyList f' e) (fieldValues g k' f') else fieldValues g k' f')"
  "g_nonScalarFields (removeEntityFromIndexes i e g) = fold (bump (- 1)) (entityNonScalarKeys e) (g_nonScalarFields g)"
  by (simp_all add: removeEntityFromIndexes_def Let_def removeFields_effect invalidateEntityKindOrder_def removeEntityAliasesFromIndex_def)

lemma fieldKeys_other_kind: "ent_Kind e \<noteq> k \<Longrightarrow> fieldKeys k f e = {}"
  by (simp add: fieldKeys_def)

lemma rel_of_upd_no_keys: "mget c i = None \<Longrightarrow> f v = {} \<Longrightarrow> rel_of f (fmupd i v c) = rel_of f c"
  by (auto split: if_splits)

lemma rel_of_drop_no_keys: "mget c i = Some v \<Longrightarrow> f v = {} \<Longrightarrow> rel_of f (fmdrop i c) = rel_of f c"
  by (auto split: if_splits)

lemma addEntity_index_ok:
  assumes "entity_index_ok g E" and "mget E i = None"
  shows "entity_index_ok (addEntityToIndexes i e g) (fmupd i e E)"
  unfolding entity_index_ok_def
proof (intro conjI allI)
  from assms(1) have ok:
    "is_index (g_entityAliasIndex g) (rel_of (\<lambda>e. set (entityAliasValues e)) E)"
    "is_index (g_kindEntityIDs g) (rel_of (\<lambda>e. {ent_Kind e}) E)"
    "is_count (g_kindCounts g) (total (\<lambda>e. {#ent_Kind e#}) E)"
    "is_count (g_nonScalarFields g) (total (\<lambda>e. mset (entityNonScalarKeys e)) E)"
    "\<And>kind field. is_index (fieldValues g kind field) (rel_of (fieldKeys kind field) E)"
    by (auto simp: entity_index_ok_def)
  show "is_index (g_entityAliasIndex (addEntityToIndexes i e g)) (rel_of (\<lambda>e. set (entityAliasValues e)) (fmupd i e E))"
    using pidx.represents_insert [OF ok(1) assms(2), of "entityAliasValues e" e] by simp
  show "is_index (g_kindEntityIDs (addEntityToIndexes i e g)) (rel_of (\<lambda>e. {ent_Kind e}) (fmupd i e E))"
    using pidx.represents_insert [OF ok(2) assms(2), of "[ent_Kind e]" e] by simp
  show "is_count (g_kindCounts (addEntityToIndexes i e g)) (total (\<lambda>e. {#ent_Kind e#}) (fmupd i e E))"
    using kinds.represents_inc [OF ok(3)] by (simp add: total_upd_absent [OF assms(2)])
  show "is_count (g_nonScalarFields (addEntityToIndexes i e g)) (total (\<lambda>e. mset (entityNonScalarKeys e)) (fmupd i e E))"
    using nonscalar.represents_inc_keys [OF ok(4)] by (simp add: total_upd_absent [OF assms(2)])
  fix kind field
  show "is_index (fieldValues (addEntityToIndexes i e g) kind field) (rel_of (fieldKeys kind field) (fmupd i e E))"
  proof (cases "kind = ent_Kind e")
    case True
    with pidx.represents_insert [OF ok(5) assms(2) set_fieldKeyList] show ?thesis by simp
  next
    case False
    with ok(5) show ?thesis by (simp add: rel_of_upd_no_keys [OF assms(2)] fieldKeys_other_kind)
  qed
qed

lemma removeEntity_index_ok:
  assumes "entity_index_ok g E" and "mget E i = Some e"
  shows "entity_index_ok (removeEntityFromIndexes i e g) (fmdrop i E)"
  unfolding entity_index_ok_def
proof (intro conjI allI)
  from assms(1) have ok:
    "is_index (g_entityAliasIndex g) (rel_of (\<lambda>e. set (entityAliasValues e)) E)"
    "is_index (g_kindEntityIDs g) (rel_of (\<lambda>e. {ent_Kind e}) E)"
    "is_count (g_kindCounts g) (total (\<lambda>e. {#ent_Kind e#}) E)"
    "is_count (g_nonScalarFields g) (total (\<lambda>e. mset (entityNonScalarKeys e)) E)"
    "\<And>kind field. is_index (fieldValues g kind field) (rel_of (fieldKeys kind field) E)"
    by (auto simp: entity_index_ok_def)
  show "is_index (g_entityAliasIndex (removeEntityFromIndexes i e g)) (rel_of (\<lambda>e. set (entityAliasValues e)) (fmdrop i E))"
    using pidx.represents_remove [OF ok(1) assms(2), of "entityAliasValues e"] by simp
  show "is_index (g_kindEntityIDs (removeEntityFromIndexes i e g)) (rel_of (\<lambda>e. {ent_Kind e}) (fmdrop i E))"
    using pidx.represents_remove [OF ok(2) assms(2), of "[ent_Kind e]"] by simp
  show "is_count (g_kindCounts (removeEntityFromIndexes i e g)) (total (\<lambda>e. {#ent_Kind e#}) (fmdrop i E))"
    using kinds.represents_dec [OF ok(3), of "ent_Kind e"] by (simp add: total_drop [OF assms(2)])
  show "is_count (g_nonScalarFields (removeEntityFromIndexes i e g)) (total (\<lambda>e. mset (entityNonScalarKeys e)) (fmdrop i E))"
    using nonscalar.represents_dec_keys [OF ok(4), of "entityNonScalarKeys e"] by (simp add: total_drop [OF assms(2)])
  fix kind field
  show "is_index (fieldValues (removeEntityFromIndexes i e g) kind field) (rel_of (fieldKeys kind field) (fmdrop i E))"
  proof (cases "kind = ent_Kind e")
    case True
    with pidx.represents_remove [OF ok(5) assms(2) set_fieldKeyList] show ?thesis by simp
  next
    case False
    with ok(5) show ?thesis by (simp add: rel_of_drop_no_keys [OF assms(2)] fieldKeys_other_kind)
  qed
qed

lemmas addEntityToIndexes_frame [simp] = addEntityToIndexes_effect(1) [unfolded entity_frame_def prod.inject]
lemmas removeEntityFromIndexes_frame [simp] = removeEntityFromIndexes_effect(1) [unfolded entity_frame_def prod.inject]

section \<open>Updating an entity in place\<close>

text \<open>The fields of an entity that hold no scalar, and the counter keys of one such field.\<close>

definition nonScalarNames :: "Entity \<Rightarrow> string set" where
  "nonScalarNames e = {f. \<exists>v. mget (ent_Fields e) f = Some v \<and> ScalarIndexKey v = None}"

definition scopeKeys :: "string \<Rightarrow> string \<Rightarrow> string multiset" where
  "scopeKeys kind f = mset (map (\<lambda>scope. nonScalarKey scope f) (nonScalarScopes kind))"

lemma finite_nonScalarNames [simp]: "finite (nonScalarNames e)"
  by (rule finite_subset [of _ "fmdom' (ent_Fields e)"]) (auto simp: nonScalarNames_def fmlookup_dom'_iff)

lemma mset_concat_entries:
  fixes m :: "(string, 'a) fmap"
  shows "mset (concat (map (\<lambda>(f, v). if P f v then map (\<lambda>scope. nonScalarKey scope f) (nonScalarScopes kind) else []) (entries m))) =
   (\<Sum>f \<in> {f. \<exists>v. mget m f = Some v \<and> P f v}. scopeKeys kind f)"
proof -
  have keys: "mset (concat (map (\<lambda>(f, v). if P f v then map (\<lambda>scope. nonScalarKey scope f) (nonScalarScopes kind) else []) kvs)) =
        (\<Sum>f \<in> {f. \<exists>v. map_of kvs f = Some v \<and> P f v}. scopeKeys kind f)"
    if "distinct (map fst kvs)" for kvs :: "(string \<times> 'a) list"
    using that
  proof (induction kvs)
    case Nil
    then show ?case by simp
  next
    case (Cons kv kvs)
    obtain k v where kv: "kv = (k, v)" by (cases kv)
    let ?S = "{f. \<exists>v. map_of kvs f = Some v \<and> P f v}"
    have k: "map_of kvs k = None" using Cons.prems by (simp add: kv map_of_eq_None_iff)
    have fin: "finite ?S" by (rule finite_subset [of _ "fst ` set kvs"]) (auto dest: map_of_SomeD intro: rev_image_eqI)
    have "{f. \<exists>v. map_of (kv # kvs) f = Some v \<and> P f v} = (if P k v then insert k ?S else ?S)"
      using k by (auto simp: kv)
    moreover have "k \<notin> ?S" using k by simp
    ultimately show ?case using Cons fin by (simp add: kv scopeKeys_def del: mset_map)
  qed
  from keys [of "entries m"] show ?thesis by simp
qed

lemma mset_entityNonScalarKeys: "mset (entityNonScalarKeys e) = (\<Sum>f \<in> nonScalarNames e. scopeKeys (ent_Kind e) f)"
  unfolding entityNonScalarKeys_def nonScalarKeys_def nonScalarNames_def by (rule mset_concat_entries)

definition dropKeys :: "Entity \<Rightarrow> Entity \<Rightarrow> string \<Rightarrow> string list" where
  "dropKeys before after f = (if fieldKeyList f before = fieldKeyList f after then [] else fieldKeyList f before)"

lemma updateBefore_effect:
  fixes before after :: Entity and i :: string
  defines "g' \<equiv> \<lambda>g. fold (updateField_before i before after) (entries (ent_Fields before)) g"
  shows "fieldValues (g' g) k' f' = (if k' = ent_Kind before then fold (\<lambda>k. idx_del k i) (dropKeys before after f') (fieldValues g k' f')
                                     else fieldValues g k' f')"
    and "\<exists>ks. g_nonScalarFields (g' g) = fold (bump (- 1)) ks (g_nonScalarFields g) \<and>
              mset ks = (\<Sum>f \<in> nonScalarNames before - nonScalarNames after. scopeKeys (ent_Kind before) f)"
proof -
  let ?kind = "ent_Kind before"
  let ?T = "\<lambda>f v. case ScalarIndexKey v of
              None \<Rightarrow> (\<lambda>m. m) | Some key \<Rightarrow> if fieldKeyList f after = [key] then (\<lambda>m. m) else idx_del key i"
  let ?K = "\<lambda>(f, v). if ScalarIndexKey v = None \<and> f \<notin> nonScalarNames after
                     then map (\<lambda>scope. nonScalarKey scope f) (nonScalarScopes ?kind) else []"
  note loop = field_loop [of "updateField_before i before after" ?kind ?T "bump (- 1)" ?K "entries (ent_Fields before)" g k' f']
  have eq: "fieldValues (g' g) k' f' =
           (if k' = ?kind then (case map_of (entries (ent_Fields before)) f' of None \<Rightarrow> fieldValues g ?kind f' | Some v \<Rightarrow> ?T f' v (fieldValues g ?kind f'))
            else fieldValues g k' f') \<and>
        g_nonScalarFields (g' g) = fold (bump (- 1)) (concat (map ?K (entries (ent_Fields before)))) (g_nonScalarFields g)"
    unfolding g'_def
    by (rule loop) (auto simp: updateField_before_def nonScalarNames_def fieldKeyList_def mget_or_def Let_def split: option.splits)
  then show "fieldValues (g' g) k' f' = (if k' = ?kind then fold (\<lambda>k. idx_del k i) (dropKeys before after f') (fieldValues g k' f')
                                     else fieldValues g k' f')"
    by (auto simp: dropKeys_def fieldKeyList_def split: option.split)
  have "mset (concat (map ?K (entries (ent_Fields before)))) = (\<Sum>f \<in> nonScalarNames before - nonScalarNames after. scopeKeys ?kind f)"
    unfolding mset_concat_entries by (rule sum.cong) (auto simp: nonScalarNames_def)
  with eq show "\<exists>ks. g_nonScalarFields (g' g) = fold (bump (- 1)) ks (g_nonScalarFields g) \<and>
              mset ks = (\<Sum>f \<in> nonScalarNames before - nonScalarNames after. scopeKeys ?kind f)"
    by blast
qed

lemma updateAfter_effect:
  fixes before after :: Entity and i :: string
  defines "g' \<equiv> \<lambda>g. fold (updateField_after i before after) (entries (ent_Fields after)) g"
  shows "fieldValues (g' g) k' f' = (if k' = ent_Kind after then fold (\<lambda>k. idx_add k i) (dropKeys after before f') (fieldValues g k' f')
                                     else fieldValues g k' f')"
    and "\<exists>ks. g_nonScalarFields (g' g) = fold (bump 1) ks (g_nonScalarFields g) \<and>
              mset ks = (\<Sum>f \<in> nonScalarNames after - nonScalarNames before. scopeKeys (ent_Kind after) f)"
proof -
  let ?kind = "ent_Kind after"
  let ?T = "\<lambda>f v. case ScalarIndexKey v of
              None \<Rightarrow> (\<lambda>m. m) | Some key \<Rightarrow> if fieldKeyList f before = [key] then (\<lambda>m. m) else idx_add key i"
  let ?K = "\<lambda>(f, v). if ScalarIndexKey v = None \<and> f \<notin> nonScalarNames before
                     then map (\<lambda>scope. nonScalarKey scope f) (nonScalarScopes ?kind) else []"
  note loop = field_loop [of "updateField_after i before after" ?kind ?T "bump 1" ?K "entries (ent_Fields after)" g k' f']
  have eq: "fieldValues (g' g) k' f' =
           (if k' = ?kind then (case map_of (entries (ent_Fields after)) f' of None \<Rightarrow> fieldValues g ?kind f' | Some v \<Rightarrow> ?T f' v (fieldValues g ?kind f'))
            else fieldValues g k' f') \<and>
        g_nonScalarFields (g' g) = fold (bump 1) (concat (map ?K (entries (ent_Fields after)))) (g_nonScalarFields g)"
    unfolding g'_def
    by (rule loop) (auto simp: updateField_after_def nonScalarNames_def fieldKeyList_def mget_or_def Let_def split: option.splits)
  then show "fieldValues (g' g) k' f' = (if k' = ?kind then fold (\<lambda>k. idx_add k i) (dropKeys after before f') (fieldValues g k' f')
                                     else fieldValues g k' f')"
    by (auto simp: dropKeys_def fieldKeyList_def split: option.split)
  have "mset (concat (map ?K (entries (ent_Fields after)))) = (\<Sum>f \<in> nonScalarNames after - nonScalarNames before. scopeKeys ?kind f)"
    unfolding mset_concat_entries by (rule sum.cong) (auto simp: nonScalarNames_def)
  with eq show "\<exists>ks. g_nonScalarFields (g' g) = fold (bump 1) ks (g_nonScalarFields g) \<and>
              mset ks = (\<Sum>f \<in> nonScalarNames after - nonScalarNames before. scopeKeys ?kind f)"
    by blast
qed

lemma updateEntityIndexes_frame [simp]: "entity_frame (updateEntityIndexes i b a g) = entity_frame g"
  using field_loops_frame(3,4) [of i b a]
  by (simp add: field_frame_def entity_frame_def updateEntityIndexes_def addEntityAliasesToIndex_def removeEntityAliasesFromIndex_def Let_def)

lemmas updateEntityIndexes_frame' [simp] = updateEntityIndexes_frame [unfolded entity_frame_def prod.inject]

lemma updateEntityIndexes_effect:
  assumes "ent_Kind b = ent_Kind a"
  shows "g_entityAliasIndex (updateEntityIndexes i b a g) =
           (if ent_MergedFrom b \<noteq> ent_MergedFrom a
            then fold (\<lambda>x. idx_add x i) (entityAliasValues a) (fold (\<lambda>x. idx_del x i) (entityAliasValues b) (g_entityAliasIndex g))
            else g_entityAliasIndex g)"
    and "g_kindCounts (updateEntityIndexes i b a g) = g_kindCounts g"
    and "g_kindEntityIDs (updateEntityIndexes i b a g) = g_kindEntityIDs g"
    and "g_entityOrder (updateEntityIndexes i b a g) = g_entityOrder g"
    and "g_identityIndex (updateEntityIndexes i b a g) =
           (if graphIdentitySignatures g b \<noteq> graphIdentitySignatures g a
            then fold (addIdentity i (ent_Kind a)) (graphIdentitySignatures g a)
                   (fold (removeIdentity i (ent_Kind a)) (graphIdentitySignatures g b) (g_identityIndex g))
            else g_identityIndex g)"
  using assms field_loops_frame(3,4) [of i b a]
  by (simp_all add: field_frame_def entity_frame_def updateEntityIndexes_def addEntityAliasesToIndex_def removeEntityAliasesFromIndex_def Let_def)

lemma updateEntityIndexes_fields:
  assumes "ent_Kind b = ent_Kind a"
  shows "fieldValues (updateEntityIndexes i b a g) k' f' =
           (if k' = ent_Kind a
            then fold (\<lambda>k. idx_add k i) (dropKeys a b f') (fold (\<lambda>k. idx_del k i) (dropKeys b a f') (fieldValues g k' f'))
            else fieldValues g k' f')"
    and "\<exists>ks ks'. g_nonScalarFields (updateEntityIndexes i b a g) = fold (bump 1) ks' (fold (bump (- 1)) ks (g_nonScalarFields g)) \<and>
           mset ks = (\<Sum>f \<in> nonScalarNames b - nonScalarNames a. scopeKeys (ent_Kind a) f) \<and>
           mset ks' = (\<Sum>f \<in> nonScalarNames a - nonScalarNames b. scopeKeys (ent_Kind a) f)"
proof -
  obtain g2 where g2: "fieldValues g2 = fieldValues g" "g_nonScalarFields g2 = g_nonScalarFields g"
    and u: "updateEntityIndexes i b a g = fold (updateField_after i b a) (entries (ent_Fields a))
              (fold (updateField_before i b a) (entries (ent_Fields b)) g2)"
  proof -
    let ?g1 = "if ent_MergedFrom b \<noteq> ent_MergedFrom a
               then addEntityAliasesToIndex i a (removeEntityAliasesFromIndex i b g) else g"
    let ?g2 = "if graphIdentitySignatures g b \<noteq> graphIdentitySignatures g a
               then ?g1\<lparr>g_identityIndex := fold (addIdentity i (ent_Kind a)) (graphIdentitySignatures g a)
                      (fold (removeIdentity i (ent_Kind a)) (graphIdentitySignatures g b) (g_identityIndex ?g1))\<rparr>
               else ?g1"
    have "fieldValues ?g2 = fieldValues g" "g_nonScalarFields ?g2 = g_nonScalarFields g"
      by (simp_all add: addEntityAliasesToIndex_def removeEntityAliasesFromIndex_def)
    moreover have "updateEntityIndexes i b a g = fold (updateField_after i b a) (entries (ent_Fields a))
              (fold (updateField_before i b a) (entries (ent_Fields b)) ?g2)"
      using assms by (simp add: updateEntityIndexes_def Let_def)
    ultimately show thesis by (rule that)
  qed
  show "fieldValues (updateEntityIndexes i b a g) k' f' =
           (if k' = ent_Kind a
            then fold (\<lambda>k. idx_add k i) (dropKeys a b f') (fold (\<lambda>k. idx_del k i) (dropKeys b a f') (fieldValues g k' f'))
            else fieldValues g k' f')"
    by (simp add: u updateAfter_effect(1) updateBefore_effect(1) g2 assms)
  show "\<exists>ks ks'. g_nonScalarFields (updateEntityIndexes i b a g) = fold (bump 1) ks' (fold (bump (- 1)) ks (g_nonScalarFields g)) \<and>
           mset ks = (\<Sum>f \<in> nonScalarNames b - nonScalarNames a. scopeKeys (ent_Kind a) f) \<and>
           mset ks' = (\<Sum>f \<in> nonScalarNames a - nonScalarNames b. scopeKeys (ent_Kind a) f)"
    using updateBefore_effect(2) [of i b a g2]
      updateAfter_effect(2) [of i b a "fold (updateField_before i b a) (entries (ent_Fields b)) g2"]
    unfolding u g2 assms by metis
qed

lemma total_subset: "mget c i = Some v \<Longrightarrow> f v \<subseteq># total f c"
  by (simp add: total_drop)

lemma diff_add_common:
  fixes M X Y C :: "'a multiset"
  assumes "X + C \<subseteq># M"
  shows "M - (X + C) + (Y + C) = M - X + Y"
proof -
  from assms obtain R where "M = X + C + R" by (metis subset_mset.add_diff_inverse)
  then show ?thesis by simp
qed

lemma updateEntity_index_ok:
  assumes ok: "entity_index_ok g E" and b: "mget E i = Some b"
  shows "entity_index_ok (updateEntityIndexes i b a g) (fmupd i a E)"
proof (cases "ent_Kind b = ent_Kind a")
  case False
  then have "updateEntityIndexes i b a g = addEntityToIndexes i a (removeEntityFromIndexes i b g)"
    by (simp add: updateEntityIndexes_def)
  moreover have "fmupd i a (fmdrop i E) = fmupd i a E" by (rule fmap_ext) simp
  ultimately show ?thesis
    using addEntity_index_ok [OF removeEntity_index_ok [OF ok b], of i a] by simp
next
  case kind: True
  note effect = updateEntityIndexes_effect [OF kind] updateEntityIndexes_fields(1) [OF kind]
  from ok have oks:
    "is_index (g_entityAliasIndex g) (rel_of (\<lambda>e. set (entityAliasValues e)) E)"
    "is_index (g_kindEntityIDs g) (rel_of (\<lambda>e. {ent_Kind e}) E)"
    "is_count (g_kindCounts g) (total (\<lambda>e. {#ent_Kind e#}) E)"
    "is_count (g_nonScalarFields g) (total (\<lambda>e. mset (entityNonScalarKeys e)) E)"
    "\<And>kind field. is_index (fieldValues g kind field) (rel_of (fieldKeys kind field) E)"
    by (auto simp: entity_index_ok_def)
  show ?thesis
    unfolding entity_index_ok_def
  proof (intro conjI allI)
    show "is_index (g_entityAliasIndex (updateEntityIndexes i b a g)) (rel_of (\<lambda>e. set (entityAliasValues e)) (fmupd i a E))"
    proof (cases "ent_MergedFrom b = ent_MergedFrom a")
      case True
      with oks(1) show ?thesis by (simp add: effect rel_of_same_keys [OF b] entityAliasValues_def)
    next
      case False
      with pidx.represents_replace [OF oks(1) b, of "entityAliasValues b" "entityAliasValues a" a] show ?thesis
        by (simp add: effect)
    qed
    show "is_index (g_kindEntityIDs (updateEntityIndexes i b a g)) (rel_of (\<lambda>e. {ent_Kind e}) (fmupd i a E))"
      using oks(2) by (simp add: effect rel_of_same_keys [OF b] kind)
    show "is_count (g_kindCounts (updateEntityIndexes i b a g)) (total (\<lambda>e. {#ent_Kind e#}) (fmupd i a E))"
      using oks(3) total_drop [OF b, of "\<lambda>e. {#ent_Kind e#}"] by (simp add: effect total_upd [OF b] kind)
    show "is_count (g_nonScalarFields (updateEntityIndexes i b a g)) (total (\<lambda>e. mset (entityNonScalarKeys e)) (fmupd i a E))"
    proof -
      let ?S = "\<lambda>N. \<Sum>f \<in> N. scopeKeys (ent_Kind a) f"
      let ?M = "total (\<lambda>e. mset (entityNonScalarKeys e)) E"
      let ?b = "nonScalarNames b" and ?a = "nonScalarNames a"
      obtain ks ks' where
        n: "g_nonScalarFields (updateEntityIndexes i b a g) = fold (bump 1) ks' (fold (bump (- 1)) ks (g_nonScalarFields g))"
        and ks: "mset ks = ?S (?b - ?a)" "mset ks' = ?S (?a - ?b)"
        using updateEntityIndexes_fields(2) [OF kind] by blast
      have split: "?S X = ?S (X - Y) + ?S (X \<inter> Y)" if "finite X" for X Y
        using that by (metis Int_Diff_Un Int_Diff_disjoint finite_Diff finite_Int sum.union_disjoint add.commute)
      have mb: "mset (entityNonScalarKeys b) = ?S (?b - ?a) + ?S (?b \<inter> ?a)"
        by (subst mset_entityNonScalarKeys) (simp add: kind split [of ?b ?a])
      have ma: "mset (entityNonScalarKeys a) = ?S (?a - ?b) + ?S (?b \<inter> ?a)"
        by (subst mset_entityNonScalarKeys) (simp add: split [of ?a ?b] Int_commute)
      have "total (\<lambda>e. mset (entityNonScalarKeys e)) (fmupd i a E) = ?M - ?S (?b - ?a) + ?S (?a - ?b)"
        using diff_add_common [of "?S (?b - ?a)" "?S (?b \<inter> ?a)" ?M "?S (?a - ?b)"]
          total_subset [OF b, of "\<lambda>e. mset (entityNonScalarKeys e)"]
        by (simp add: total_upd [OF b] mb ma)
      with nonscalar.represents_inc_keys [OF nonscalar.represents_dec_keys [OF oks(4), of ks], of ks'] show ?thesis
        by (simp add: n ks)
    qed
    fix k f
    show "is_index (fieldValues (updateEntityIndexes i b a g) k f) (rel_of (fieldKeys k f) (fmupd i a E))"
    proof (cases "k = ent_Kind a")
      case False
      with oks(5) show ?thesis by (simp add: effect rel_of_same_keys [OF b] fieldKeys_other_kind kind)
    next
      case k: True
      show ?thesis
      proof (cases "fieldKeyList f b = fieldKeyList f a")
        case True
        then have "fieldKeys k f a = fieldKeys k f b" using set_fieldKeyList k kind by metis
        with True oks(5) show ?thesis by (simp add: effect k dropKeys_def rel_of_same_keys [OF b])
      next
        case False
        have "is_index (fold (\<lambda>k. idx_add k i) (fieldKeyList f a) (fold (\<lambda>k. idx_del k i) (fieldKeyList f b) (fieldValues g k f)))
               (rel_of (fieldKeys k f) (fmupd i a E))"
          using set_fieldKeyList [of f b] set_fieldKeyList [of f a] k kind
          by (intro pidx.represents_replace [OF oks(5) b]) simp_all
        with False show ?thesis by (simp add: effect k dropKeys_def)
      qed
    qed
  qed
qed

section \<open>Edges\<close>

lemma dropNeighborOrder_frame: "edge_frame (dropNeighborOrder key g) = edge_frame g"
  by (simp add: edge_frame_def dropNeighborOrder_def)

lemma invalidateNeighborOrder_frame: "edge_frame (invalidateNeighborOrder ids g) = edge_frame g"
  unfolding invalidateNeighborOrder_def by (rule fold_frame) (rule dropNeighborOrder_frame)

lemma invalidateNeighborOrder_indexes [simp]:
  "g_out (invalidateNeighborOrder ids g) = g_out g" "g_in (invalidateNeighborOrder ids g) = g_in g"
  "g_edgeAliasIndex (invalidateNeighborOrder ids g) = g_edgeAliasIndex g"
  "g_edgeTypeIndex (invalidateNeighborOrder ids g) = g_edgeTypeIndex g"
  unfolding invalidateNeighborOrder_def by (rule fold_frame, simp add: dropNeighborOrder_def)+

lemma addEdgeToIndexes_effect [simp]:
  "edge_frame (addEdgeToIndexes i e g) = edge_frame g"
  "g_out (addEdgeToIndexes i e g) = idx_add (edge_From e) i (g_out g)"
  "g_in (addEdgeToIndexes i e g) = idx_add (edge_To e) i (g_in g)"
  "g_edgeAliasIndex (addEdgeToIndexes i e g) = fold (\<lambda>a. idx_add a i) (edgeAliasValues e) (g_edgeAliasIndex g)"
  "g_edgeTypeIndex (addEdgeToIndexes i e g) = idx_add (edge_Type e) i (g_edgeTypeIndex g)"
  using invalidateNeighborOrder_frame [of "[edge_From e, edge_To e]" g]
  by (simp_all add: addEdgeToIndexes_def addEdgeAliasesToIndex_def edge_frame_def Let_def)

lemma removeEdgeFromIndexes_effect [simp]:
  "edge_frame (removeEdgeFromIndexes i e g) = edge_frame g"
  "g_out (removeEdgeFromIndexes i e g) = idx_del (edge_From e) i (g_out g)"
  "g_in (removeEdgeFromIndexes i e g) = idx_del (edge_To e) i (g_in g)"
  "g_edgeAliasIndex (removeEdgeFromIndexes i e g) = fold (\<lambda>a. idx_del a i) (edgeAliasValues e) (g_edgeAliasIndex g)"
  "g_edgeTypeIndex (removeEdgeFromIndexes i e g) = idx_del (edge_Type e) i (g_edgeTypeIndex g)"
  using invalidateNeighborOrder_frame [of "[edge_From e, edge_To e]" g]
  by (simp_all add: removeEdgeFromIndexes_def edge_frame_def Let_def)

lemmas addEdgeToIndexes_frame [simp] = addEdgeToIndexes_effect(1) [unfolded edge_frame_def prod.inject]
lemmas removeEdgeFromIndexes_frame [simp] = removeEdgeFromIndexes_effect(1) [unfolded edge_frame_def prod.inject]

lemma addEdge_index_ok:
  assumes "edge_index_ok g D" and "mget D i = None"
  shows "edge_index_ok (addEdgeToIndexes i e g) (fmupd i e D)"
  using assms pidx.represents_insert [of "g_out g" "\<lambda>e. {edge_From e}" D i "[edge_From e]" e]
    pidx.represents_insert [of "g_in g" "\<lambda>e. {edge_To e}" D i "[edge_To e]" e]
    pidx.represents_insert [of "g_edgeAliasIndex g" "\<lambda>e. set (edgeAliasValues e)" D i "edgeAliasValues e" e]
    pidx.represents_insert [of "g_edgeTypeIndex g" "\<lambda>e. {edge_Type e}" D i "[edge_Type e]" e]
  by (simp add: edge_index_ok_def)

lemma removeEdge_index_ok:
  assumes "edge_index_ok g D" and "mget D i = Some e"
  shows "edge_index_ok (removeEdgeFromIndexes i e g) (fmdrop i D)"
  using assms pidx.represents_remove [of "g_out g" "\<lambda>e. {edge_From e}" D i e "[edge_From e]"]
    pidx.represents_remove [of "g_in g" "\<lambda>e. {edge_To e}" D i e "[edge_To e]"]
    pidx.represents_remove [of "g_edgeAliasIndex g" "\<lambda>e. set (edgeAliasValues e)" D i e "edgeAliasValues e"]
    pidx.represents_remove [of "g_edgeTypeIndex g" "\<lambda>e. {edge_Type e}" D i e "[edge_Type e]"]
  by (simp add: edge_index_ok_def)

text \<open>The two kinds of indexes do not interfere.\<close>

lemma entity_index_ok_cong:
  "g_entityAliasIndex g' = g_entityAliasIndex g \<Longrightarrow> g_kindEntityIDs g' = g_kindEntityIDs g \<Longrightarrow>
   g_kindCounts g' = g_kindCounts g \<Longrightarrow> g_nonScalarFields g' = g_nonScalarFields g \<Longrightarrow>
   g_fieldIndex g' = g_fieldIndex g \<Longrightarrow> entity_index_ok g' E = entity_index_ok g E"
  using fieldValues_cong [of g' g] by (simp add: entity_index_ok_def)

lemma edge_ops_entity_index_ok [simp]:
  "entity_index_ok (addEdgeToIndexes i e g) E = entity_index_ok g E"
  "entity_index_ok (removeEdgeFromIndexes i e g) E = entity_index_ok g E"
  by (rule entity_index_ok_cong; simp)+

lemma entity_ops_edge_index_ok [simp]:
  "edge_index_ok (addEntityToIndexes i x g) D = edge_index_ok g D"
  "edge_index_ok (removeEntityFromIndexes i x g) D = edge_index_ok g D"
  "edge_index_ok (updateEntityIndexes i x y g) D = edge_index_ok g D"
  by (simp_all add: edge_index_ok_def)

section \<open>The identity index\<close>

abbreviation owner_of :: "identityMap \<Rightarrow> string \<Rightarrow> string \<Rightarrow> string option" where
  "owner_of index kind s \<equiv> mget (mget_or fmempty index kind) s"

abbreviation sig_values :: "Graph \<Rightarrow> Entity \<Rightarrow> string set" where
  "sig_values g e \<equiv> sig_Value ` set (graphIdentitySignatures g e)"

lemma owner_of_add_all:
  "owner_of (fold (addIdentity i k) sigs index) k' s =
     (if k' = k \<and> s \<in> sig_Value ` set sigs then Some i else owner_of index k' s)"
  by (induction sigs arbitrary: index) (auto simp: addIdentity_def)

lemma owner_of_remove:
  "owner_of (removeIdentity i k sg index) k' s =
     (if k' = k \<and> s = sig_Value sg \<and> owner_of index k s = Some i then None else owner_of index k' s)"
  by (auto simp: removeIdentity_def mget_or_def split: option.splits if_splits)

lemma owner_of_remove_all:
  "owner_of (fold (removeIdentity i k) sigs index) k' s =
     (if k' = k \<and> s \<in> sig_Value ` set sigs \<and> owner_of index k s = Some i then None else owner_of index k' s)"
  by (induction sigs arbitrary: index) (auto simp: owner_of_remove)

lemma identities_owner: "mget (identities g k) s = owner_of (g_identityIndex g) k s"
  by (simp add: identities_def)

lemma identity_index_okD:
  "identity_index_ok g E \<Longrightarrow> owner_of (g_identityIndex g) k s = Some i \<longleftrightarrow>
     (\<exists>e. mget E i = Some e \<and> ent_Kind e = k \<and> s \<in> sig_values g e)"
  by (simp add: identity_index_ok_def identities_owner)

text \<open>A free signature is unowned, or owned by the entity itself.\<close>

lemma identity_available:
  assumes "validateIdentityIndexAvailable g e = Inr u" and "identity_index_ok g E" and "mget E [] = None"
    and "s \<in> sig_values g e"
  shows "owner_of (g_identityIndex g) (ent_Kind e) s \<in> {None, Some (ent_ID e)}"
proof (cases "owner_of (g_identityIndex g) (ent_Kind e) s")
  case (Some i)
  with assms(2,3) have "i \<noteq> []" by (auto simp: identity_index_okD)
  with assms(1,4) Some show ?thesis
    by (fastforce simp: validateIdentityIndexAvailable_def checkM_eq_Inr identities_owner mget_or_def Let_def split: if_splits)
qed simp

lemma graphIdentitySignatures_cong:
  "g_CITypes g' = g_CITypes g \<Longrightarrow> g_legacyIdentity g' = g_legacyIdentity g \<Longrightarrow>
   graphIdentitySignatures g' e = graphIdentitySignatures g e"
  by simp

lemma identity_index_ok_cong:
  "g_CITypes g' = g_CITypes g \<Longrightarrow> g_legacyIdentity g' = g_legacyIdentity g \<Longrightarrow> g_identityIndex g' = g_identityIndex g \<Longrightarrow>
   identity_index_ok g' E = identity_index_ok g E"
  by (simp add: identity_index_ok_def identities_owner)

text \<open>The three updates on the level of the owner function.\<close>

definition exact_owners :: "(string \<Rightarrow> string \<Rightarrow> string option) \<Rightarrow> (Entity \<Rightarrow> string set) \<Rightarrow> (string, Entity) fmap \<Rightarrow> bool" where
  "exact_owners own S E \<longleftrightarrow> (\<forall>k s j. own k s = Some j \<longleftrightarrow> (\<exists>e. mget E j = Some e \<and> ent_Kind e = k \<and> s \<in> S e))"

lemma identity_index_ok_exact: "identity_index_ok g E \<longleftrightarrow> exact_owners (owner_of (g_identityIndex g)) (sig_values g) E"
  by (simp add: identity_index_ok_def exact_owners_def identities_owner)

lemma exact_owners_add:
  assumes "exact_owners own S E" and "\<And>s. s \<in> S e \<Longrightarrow> own (ent_Kind e) s \<in> {None, Some i}" and "mget E i = None"
  shows "exact_owners (\<lambda>k s. if k = ent_Kind e \<and> s \<in> S e then Some i else own k s) S (fmupd i e E)"
  unfolding exact_owners_def
proof (intro allI)
  fix k s j
  have old: "own k s = Some j \<longleftrightarrow> (\<exists>e. mget E j = Some e \<and> ent_Kind e = k \<and> s \<in> S e)"
    using assms(1) by (simp add: exact_owners_def)
  show "(if k = ent_Kind e \<and> s \<in> S e then Some i else own k s) = Some j \<longleftrightarrow>
        (\<exists>e'. mget (fmupd i e E) j = Some e' \<and> ent_Kind e' = k \<and> s \<in> S e')"
    using old assms(2) [of s] assms(3) by (cases "j = i") auto
qed

lemma exact_owners_remove:
  assumes "exact_owners own S E" and "mget E i = Some e"
  shows "exact_owners (\<lambda>k s. if k = ent_Kind e \<and> s \<in> S e \<and> own k s = Some i then None else own k s) S (fmdrop i E)"
  unfolding exact_owners_def
proof (intro allI)
  fix k s j
  have old: "own k s = Some j' \<longleftrightarrow> (\<exists>e. mget E j' = Some e \<and> ent_Kind e = k \<and> s \<in> S e)" for j'
    using assms(1) by (simp add: exact_owners_def)
  show "(if k = ent_Kind e \<and> s \<in> S e \<and> own k s = Some i then None else own k s) = Some j \<longleftrightarrow>
        (\<exists>e'. mget (fmdrop i E) j = Some e' \<and> ent_Kind e' = k \<and> s \<in> S e')"
  proof (cases "j = i")
    case True
    have "own k s = Some i \<Longrightarrow> k = ent_Kind e \<and> s \<in> S e" unfolding old by (simp add: assms(2))
    with True show ?thesis by auto
  next
    case False
    with old [of j] show ?thesis by auto
  qed
qed

lemma addEntity_identity_ok:
  assumes ok: "identity_index_ok g E" and "mget E i = None" and "mget E [] = None" and "ent_ID e = i"
    and free: "validateIdentityIndexAvailable g e = Inr u"
  shows "identity_index_ok (addEntityToIndexes i e g) (fmupd i e E)"
  using exact_owners_add [OF ok [unfolded identity_index_ok_exact] _ assms(2), of e]
    identity_available [OF free ok assms(3)] assms(4)
  by (simp add: identity_index_ok_exact owner_of_add_all)

lemma removeEntity_identity_ok:
  assumes ok: "identity_index_ok g E" and i: "mget E i = Some e"
  shows "identity_index_ok (removeEntityFromIndexes i e g) (fmdrop i E)"
proof -
  have "owner_of (g_identityIndex (removeEntityFromIndexes i e g)) =
          (\<lambda>k s. if k = ent_Kind e \<and> s \<in> sig_values g e \<and> owner_of (g_identityIndex g) k s = Some i
                 then None else owner_of (g_identityIndex g) k s)"
    by (intro ext) (auto simp: owner_of_remove_all)
  with exact_owners_remove [OF ok [unfolded identity_index_ok_exact] i] show ?thesis
    by (simp add: identity_index_ok_exact)
qed

lemma updateEntity_identity_ok:
  assumes ok: "identity_index_ok g E" and i: "mget E i = Some b" and "mget E [] = None" and "ent_ID a = i"
    and free: "validateIdentityIndexAvailable g a = Inr u"
  shows "identity_index_ok (updateEntityIndexes i b a g) (fmupd i a E)"
proof -
  let ?own = "owner_of (g_identityIndex g)"
  let ?own' = "\<lambda>k s. if k = ent_Kind b \<and> s \<in> sig_values g b \<and> ?own k s = Some i then None else ?own k s"
  have exact: "exact_owners ?own (sig_values g) E" using ok by (simp add: identity_index_ok_exact)
  have owned: "?own (ent_Kind b) s = Some i" if "s \<in> sig_values g b" for s
    using exact i that unfolding exact_owners_def by blast
  have "exact_owners (\<lambda>k s. if k = ent_Kind a \<and> s \<in> sig_values g a then Some i else ?own' k s) (sig_values g)
          (fmupd i a (fmdrop i E))"
  proof (rule exact_owners_add [OF exact_owners_remove [OF exact i]])
    show "?own' (ent_Kind a) s \<in> {None, Some i}" if "s \<in> sig_values g a" for s
      using identity_available [OF free ok assms(3) that] assms(4) by simp
  qed simp
  moreover have "fmupd i a (fmdrop i E) = fmupd i a E" by (rule fmap_ext) simp
  moreover have "owner_of (g_identityIndex (updateEntityIndexes i b a g)) =
      (\<lambda>k s. if k = ent_Kind a \<and> s \<in> sig_values g a then Some i else ?own' k s)"
  proof (intro ext)
    fix k s
    show "owner_of (g_identityIndex (updateEntityIndexes i b a g)) k s =
      (if k = ent_Kind a \<and> s \<in> sig_values g a then Some i else ?own' k s)"
    proof (cases "ent_Kind b = ent_Kind a"; cases "graphIdentitySignatures g b = graphIdentitySignatures g a")
      assume kind: "ent_Kind b = ent_Kind a" and "graphIdentitySignatures g b = graphIdentitySignatures g a"
      then show ?thesis using owned [of s] by (auto simp: updateEntityIndexes_effect [OF kind])
    next
      assume kind: "ent_Kind b = ent_Kind a" and "graphIdentitySignatures g b \<noteq> graphIdentitySignatures g a"
      then have idx: "g_identityIndex (updateEntityIndexes i b a g) =
          fold (addIdentity i (ent_Kind a)) (graphIdentitySignatures g a)
            (fold (removeIdentity i (ent_Kind a)) (graphIdentitySignatures g b) (g_identityIndex g))"
        by (simp add: updateEntityIndexes_effect [OF kind])
      show ?thesis unfolding idx owner_of_add_all owner_of_remove_all kind by (cases "k = ent_Kind a") simp_all
    qed (auto simp: updateEntityIndexes_def owner_of_add_all owner_of_remove_all)
  qed
  ultimately show ?thesis by (simp add: identity_index_ok_exact)
qed

lemma edge_ops_identity_ok [simp]:
  "identity_index_ok (addEdgeToIndexes i x g) E = identity_index_ok g E"
  "identity_index_ok (removeEdgeFromIndexes i x g) E = identity_index_ok g E"
  by (rule identity_index_ok_cong; simp)+

section \<open>Rebuilding\<close>

lemma fold_upd_entries: "fold (\<lambda>(k, v) m. fmupd k v m) (entries m) fmempty = m"
  by (rule fmap_ext) (simp add: fold_upd_lookup split: option.splits)

text \<open>A loop that adds the members of a collection one by one establishes what each step extends.\<close>

lemma fold_entries_collect:
  assumes "P s fmempty"
    and "\<And>i v s c. mget c i = None \<Longrightarrow> mget m i = Some v \<Longrightarrow> P s c \<Longrightarrow> P (f (i, v) s) (fmupd i v c)"
  shows "P (fold f (entries m) s) m"
proof -
  have "P (fold f kvs s) (fold (\<lambda>(k, v) m. fmupd k v m) kvs c)"
    if "P s c" "distinct (map fst kvs)" "fst ` set kvs \<inter> fmdom' c = {}" "set kvs \<subseteq> set (entries m)" for kvs s c
    using that
  proof (induction kvs arbitrary: s c)
    case Nil
    then show ?case by simp
  next
    case (Cons kv kvs)
    obtain k v where kv: "kv = (k, v)" by (cases kv)
    have "mget c k = None" using Cons.prems(3) by (simp add: kv fmlookup_dom'_iff)
    moreover have "mget m k = Some v" using Cons.prems(4) by (simp add: kv)
    ultimately have "P (f kv s) (fmupd k v c)" using assms(2) Cons.prems(1) by (simp add: kv)
    moreover have "fst ` set kvs \<inter> fmdom' (fmupd k v c) = {}" using Cons.prems(2,3) by (auto simp: kv)
    ultimately show ?case using Cons.IH [of "f kv s" "fmupd k v c"] Cons.prems by (simp add: kv)
  qed
  from this [OF assms(1), of "entries m"] show ?thesis by (simp add: fold_upd_entries)
qed

lemma rebuildField_frame: "field_frame (rebuildField_step i k fv g) = field_frame g"
  by (cases fv) (simp add: rebuildField_step_def field_frame_def entity_frame_def field_op_defs split: option.split)

lemma rebuildFields_frame: "field_frame (fold (rebuildField_step i k) fvs g) = field_frame g"
  by (rule fold_frame) (rule rebuildField_frame)

lemma rebuildFields_effect:
  fixes e :: Entity and i :: string
  shows "fieldValues (fold (rebuildField_step i (ent_Kind e)) (entries (ent_Fields e)) g) k' f' =
           (if k' = ent_Kind e then fold (\<lambda>k. idx_add k i) (fieldKeyList f' e) (fieldValues g k' f') else fieldValues g k' f')"
    and "g_nonScalarFields (fold (rebuildField_step i (ent_Kind e)) (entries (ent_Fields e)) g) =
           fold (bump 1) (entityNonScalarKeys e) (g_nonScalarFields g)"
proof -
  let ?T = "\<lambda>f v. case ScalarIndexKey v of None \<Rightarrow> (\<lambda>m. m) | Some key \<Rightarrow> idx_add key i"
  note loop = field_loop [of "rebuildField_step i (ent_Kind e)" "ent_Kind e" ?T "bump 1" "nonScalarKeys (ent_Kind e)"
      "entries (ent_Fields e)" g k' f']
  have put: "g_nonScalarFields (putFieldValues k f vals g) = g_nonScalarFields g" for k f vals and g :: Graph
    by (simp add: putFieldValues_def)
  have "fieldValues (fold (rebuildField_step i (ent_Kind e)) (entries (ent_Fields e)) g) k' f' =
           (if k' = ent_Kind e then (case map_of (entries (ent_Fields e)) f' of None \<Rightarrow> fieldValues g (ent_Kind e) f' | Some v \<Rightarrow> ?T f' v (fieldValues g (ent_Kind e) f'))
            else fieldValues g k' f') \<and>
        g_nonScalarFields (fold (rebuildField_step i (ent_Kind e)) (entries (ent_Fields e)) g) =
           fold (bump 1) (concat (map (nonScalarKeys (ent_Kind e)) (entries (ent_Fields e)))) (g_nonScalarFields g)"
    by (rule loop) (auto simp: rebuildField_step_def nonScalarKeys_def put split: option.split)
  then show "fieldValues (fold (rebuildField_step i (ent_Kind e)) (entries (ent_Fields e)) g) k' f' =
           (if k' = ent_Kind e then fold (\<lambda>k. idx_add k i) (fieldKeyList f' e) (fieldValues g k' f') else fieldValues g k' f')"
    and "g_nonScalarFields (fold (rebuildField_step i (ent_Kind e)) (entries (ent_Fields e)) g) =
           fold (bump 1) (entityNonScalarKeys e) (g_nonScalarFields g)"
    by (auto simp: fieldKeyList_def entityNonScalarKeys_def split: option.split)
qed

text \<open>A rebuild step changes the entity indexes as adding the entity does, and caches nothing.\<close>

lemma rebuildEntity_effect:
  "entity_frame (rebuildEntity_step (i, e) g) = entity_frame g"
  "g_entityAliasIndex (rebuildEntity_step (i, e) g) = g_entityAliasIndex (addEntityToIndexes i e g)"
  "g_kindCounts (rebuildEntity_step (i, e) g) = g_kindCounts (addEntityToIndexes i e g)"
  "g_kindEntityIDs (rebuildEntity_step (i, e) g) = g_kindEntityIDs (addEntityToIndexes i e g)"
  "g_entityOrder (rebuildEntity_step (i, e) g) = g_entityOrder g"
  using rebuildFields_frame [of i "ent_Kind e" "entries (ent_Fields e)"]
  by (simp_all add: field_frame_def entity_frame_def rebuildEntity_step_def addEntityAliasesToIndex_def Let_def)

lemma rebuildEntity_identity:
  "owner_of (g_identityIndex (rebuildEntity_step (i, e) g)) k s =
     (if k = ent_Kind e \<and> s \<in> sig_values g e then Some i else owner_of (g_identityIndex g) k s)"
  using rebuildFields_frame [of i "ent_Kind e" "entries (ent_Fields e)"]
  by (simp add: field_frame_def entity_frame_def rebuildEntity_step_def addEntityAliasesToIndex_def Let_def
        owner_of_add_all identities_def)

lemma rebuildEntity_fields:
  "fieldValues (rebuildEntity_step (i, e) g) k f = fieldValues (addEntityToIndexes i e g) k f"
  "g_nonScalarFields (rebuildEntity_step (i, e) g) = g_nonScalarFields (addEntityToIndexes i e g)"
  by (simp_all add: rebuildEntity_step_def Let_def rebuildFields_effect addEntityAliasesToIndex_def)

lemma rebuildEntity_index_ok:
  assumes "entity_index_ok g E" and "mget E i = None"
  shows "entity_index_ok (rebuildEntity_step (i, e) g) (fmupd i e E)"
  using addEntity_index_ok [OF assms, of e]
  by (simp only: entity_index_ok_def rebuildEntity_effect rebuildEntity_fields simp_thms)

lemma clearIndexes_frame:
  "g_Entities (clearIndexes g) = g_Entities g" "g_Edges (clearIndexes g) = g_Edges g"
  "g_CITypes (clearIndexes g) = g_CITypes g" "g_legacyIdentity (clearIndexes g) = g_legacyIdentity g"
  by (simp_all add: clearIndexes_def invalidateFieldIndexOrder_def invalidateEntityOrder_def)

lemma clearIndexes_ok:
  "entity_index_ok (clearIndexes g) fmempty" "edge_index_ok (clearIndexes g) fmempty"
  by (simp_all add: entity_index_ok_def edge_index_ok_def clearIndexes_def fieldValues_def mget_or_def
        invalidateFieldIndexOrder_def invalidateEntityOrder_def)

lemma rebuildEntities_ok:
  "entity_index_ok (fold rebuildEntity_step (entries (g_Entities g)) (clearIndexes g)) (g_Entities g)"
  by (rule fold_entries_collect) (auto intro: clearIndexes_ok rebuildEntity_index_ok)

lemma rebuildEntities_frame:
  "entity_frame (fold rebuildEntity_step ents g) = entity_frame g"
proof (rule fold_frame)
  fix x g
  show "entity_frame (rebuildEntity_step x g) = entity_frame g" by (cases x) (simp add: rebuildEntity_effect)
qed

lemma addEdges_frame: "edge_frame (fold (\<lambda>(i, e). addEdgeToIndexes i e) es g) = edge_frame g"
  by (rule fold_frame) (auto simp: split_beta)

lemma rebuildIndexes_ok:
  "entity_index_ok (rebuildIndexes g) (g_Entities g)" "edge_index_ok (rebuildIndexes g) (g_Edges g)"
proof -
  let ?g1 = "fold rebuildEntity_step (entries (g_Entities g)) (clearIndexes g)"
  have f: "edge_frame (rebuildIndexes g) = edge_frame ?g1"
    by (simp add: rebuildIndexes_def Let_def addEdges_frame)
  have "entity_index_ok (rebuildIndexes g) (g_Entities g) = entity_index_ok ?g1 (g_Entities g)"
    using f by (intro entity_index_ok_cong) (simp_all add: edge_frame_def)
  then show "entity_index_ok (rebuildIndexes g) (g_Entities g)" using rebuildEntities_ok by simp
  have "entity_frame ?g1 = entity_frame (clearIndexes g)" by (rule rebuildEntities_frame)
  then have "edge_index_ok ?g1 fmempty"
    using clearIndexes_ok(2) [of g] by (simp add: edge_index_ok_def entity_frame_def)
  then show "edge_index_ok (rebuildIndexes g) (g_Edges g)"
    unfolding rebuildIndexes_def Let_def
    by (rule fold_entries_collect) (simp add: addEdge_index_ok)
qed

section \<open>Incremental maintenance agrees with rebuilding\<close>

definition index_ok :: "Graph \<Rightarrow> bool" where
  "index_ok g \<longleftrightarrow> entity_index_ok g (g_Entities g) \<and> edge_index_ok g (g_Edges g)"

definition same_indexes :: "Graph \<Rightarrow> Graph \<Rightarrow> bool" where
  "same_indexes g g' \<longleftrightarrow>
     g_out g = g_out g' \<and> g_in g = g_in g' \<and> g_edgeAliasIndex g = g_edgeAliasIndex g' \<and>
     g_edgeTypeIndex g = g_edgeTypeIndex g' \<and> g_entityAliasIndex g = g_entityAliasIndex g' \<and>
     g_kindCounts g = g_kindCounts g' \<and> g_kindEntityIDs g = g_kindEntityIDs g' \<and>
     g_nonScalarFields g = g_nonScalarFields g' \<and> fieldValues g = fieldValues g' \<and> identities g = identities g'"

lemma index_ok_unique:
  assumes "entity_index_ok g E" "edge_index_ok g D" "entity_index_ok g' E" "edge_index_ok g' D" "identities g = identities g'"
  shows "same_indexes g g'"
proof -
  have "fieldValues g k f = fieldValues g' k f" for k f
    using assms(1,3) pidx.represents_unique by (simp add: entity_index_ok_def) blast
  then have "fieldValues g = fieldValues g'" by (intro ext)
  with assms show ?thesis
    unfolding same_indexes_def entity_index_ok_def edge_index_ok_def
    by (meson pidx.represents_unique nonscalar.represents_unique)
qed

lemma rebuildIndexes_frame [simp]:
  "g_Entities (rebuildIndexes g) = g_Entities g" "g_Edges (rebuildIndexes g) = g_Edges g"
  "g_CITypes (rebuildIndexes g) = g_CITypes g" "g_RelationTypes (rebuildIndexes g) = g_RelationTypes g"
  "g_Version (rebuildIndexes g) = g_Version g" "g_legacyIdentity (rebuildIndexes g) = g_legacyIdentity g"
proof -
  let ?g1 = "fold rebuildEntity_step (entries (g_Entities g)) (clearIndexes g)"
  have 1: "edge_frame (rebuildIndexes g) = edge_frame ?g1" by (simp add: rebuildIndexes_def Let_def addEdges_frame)
  have 2: "entity_frame ?g1 = entity_frame (clearIndexes g)" by (rule rebuildEntities_frame)
  note cl = clearIndexes_def invalidateFieldIndexOrder_def invalidateEntityOrder_def
  show "g_Entities (rebuildIndexes g) = g_Entities g" "g_Edges (rebuildIndexes g) = g_Edges g"
    "g_CITypes (rebuildIndexes g) = g_CITypes g" "g_RelationTypes (rebuildIndexes g) = g_RelationTypes g"
    "g_Version (rebuildIndexes g) = g_Version g" "g_legacyIdentity (rebuildIndexes g) = g_legacyIdentity g"
    using 1 2 by (simp_all add: edge_frame_def entity_frame_def cl)
qed

lemma index_ok_rebuild: "index_ok (rebuildIndexes g)"
  using rebuildIndexes_ok [of g] by (simp add: index_ok_def)

text \<open>
  A rebuild registers every identity signature, each for an entity that has it; if entities share a signature, for one of
  them. Where the signatures are unique that is the exact index.
\<close>

definition identities_covered :: "Graph \<Rightarrow> (string, Entity) fmap \<Rightarrow> bool" where
  "identities_covered g E \<longleftrightarrow>
     (\<forall>kind s id'. mget (identities g kind) s = Some id' \<longrightarrow>
        (\<exists>e. mget E id' = Some e \<and> ent_Kind e = kind \<and> s \<in> sig_values g e)) \<and>
     (\<forall>id' e. mget E id' = Some e \<longrightarrow> (\<forall>s \<in> sig_values g e. mget (identities g (ent_Kind e)) s \<noteq> None))"

definition unique_identities :: "Graph \<Rightarrow> bool" where
  "unique_identities g \<longleftrightarrow>
     (\<forall>i j e e' s. mget (g_Entities g) i = Some e \<longrightarrow> mget (g_Entities g) j = Some e' \<longrightarrow> ent_Kind e = ent_Kind e' \<longrightarrow>
        s \<in> sig_values g e \<longrightarrow> s \<in> sig_values g e' \<longrightarrow> i = j)"

lemma identities_covered_unique:
  "identities_covered g (g_Entities g) \<Longrightarrow> unique_identities g \<Longrightarrow> identity_index_ok g (g_Entities g)"
  unfolding identities_covered_def unique_identities_def identity_index_ok_def by (metis not_None_eq)

lemma identity_index_ok_unique: "identity_index_ok g (g_Entities g) \<Longrightarrow> unique_identities g"
  unfolding unique_identities_def identity_index_ok_def by (metis option.inject)

lemma identity_index_ok_covered: "identity_index_ok g E \<Longrightarrow> identities_covered g E"
  unfolding identities_covered_def identity_index_ok_def by (metis option.distinct(1))

lemma identities_determined:
  assumes "identity_index_ok g E" "identities_covered g' E" "g_CITypes g' = g_CITypes g" "g_legacyIdentity g' = g_legacyIdentity g"
  shows "identities g = identities g'"
proof (intro ext fmap_ext)
  fix kind s
  have "sig_values g' e = sig_values g e" for e by (simp only: graphIdentitySignatures_cong [OF assms(3,4)])
  with assms(2) have c: "mget (identities g' kind) s = Some i \<Longrightarrow> \<exists>e. mget E i = Some e \<and> ent_Kind e = kind \<and> s \<in> sig_values g e"
    "mget E i = Some e \<Longrightarrow> s \<in> sig_values g e \<Longrightarrow> mget (identities g' (ent_Kind e)) s \<noteq> None" for i e
    by (auto simp: identities_covered_def)
  have x: "mget (identities g kind) s = Some i \<longleftrightarrow> (\<exists>e. mget E i = Some e \<and> ent_Kind e = kind \<and> s \<in> sig_values g e)" for i
    using assms(1) by (simp add: identity_index_ok_def)
  show "mget (identities g kind) s = mget (identities g' kind) s"
  proof (cases "mget (identities g' kind) s")
    case None
    with x c(2) have "mget (identities g kind) s \<noteq> Some i" for i by blast
    with None show ?thesis by (metis option.exhaust)
  next
    case (Some i)
    with x c(1) show ?thesis by simp
  qed
qed

lemma unique_identities_cong:
  assumes "g_CITypes g' = g_CITypes g" "g_legacyIdentity g' = g_legacyIdentity g" "g_Entities g' = g_Entities g"
  shows "unique_identities g' = unique_identities g"
  by (simp only: unique_identities_def graphIdentitySignatures_cong [OF assms(1,2)] assms(3))

lemma identities_covered_cong:
  "g_CITypes g' = g_CITypes g \<Longrightarrow> g_legacyIdentity g' = g_legacyIdentity g \<Longrightarrow> g_identityIndex g' = g_identityIndex g \<Longrightarrow>
   identities_covered g' E = identities_covered g E"
  by (simp add: identities_covered_def identities_owner)

lemma identities_covered_add:
  assumes "identities_covered g E" and "mget E i = None"
    and own: "\<And>k s. owner_of (g_identityIndex g') k s = (if k = ent_Kind e \<and> s \<in> sig_values g e then Some i else owner_of (g_identityIndex g) k s)"
    and sigs: "\<And>x. sig_values g' x = sig_values g x"
  shows "identities_covered g' (fmupd i e E)"
proof -
  have c: "owner_of (g_identityIndex g) k s = Some j \<Longrightarrow> \<exists>e. mget E j = Some e \<and> ent_Kind e = k \<and> s \<in> sig_values g e"
    "mget E j = Some e' \<Longrightarrow> s \<in> sig_values g e' \<Longrightarrow> owner_of (g_identityIndex g) (ent_Kind e') s \<noteq> None" for k s j e'
    using assms(1) by (auto simp: identities_covered_def identities_owner)
  have "\<exists>e'. mget (fmupd i e E) j = Some e' \<and> ent_Kind e' = k \<and> s \<in> sig_values g e'"
    if "(if k = ent_Kind e \<and> s \<in> sig_values g e then Some i else owner_of (g_identityIndex g) k s) = Some j" for k s j
    using that c(1) [of k s j] assms(2) by (cases "k = ent_Kind e \<and> s \<in> sig_values g e"; cases "j = i") auto
  moreover have "(if ent_Kind e' = ent_Kind e \<and> s \<in> sig_values g e then Some i else owner_of (g_identityIndex g) (ent_Kind e') s) \<noteq> None"
    if "mget (fmupd i e E) j = Some e'" "s \<in> sig_values g e'" for j e' s
    using that c(2) [of j e' s] by (cases "j = i") auto
  ultimately show ?thesis
    unfolding identities_covered_def identities_owner own sigs by (intro conjI allI impI ballI)
qed

lemma rebuildEntity_covered:
  assumes "identities_covered g E" and "mget E i = None"
  shows "identities_covered (rebuildEntity_step (i, e) g) (fmupd i e E)"
proof -
  have sigs: "sig_values (rebuildEntity_step (i, e) g) x = sig_values g x" for x
    using rebuildEntity_effect(1) [of i e g] graphIdentitySignatures_cong [of "rebuildEntity_step (i, e) g" g]
    by (simp add: entity_frame_def)
  show ?thesis by (rule identities_covered_add [OF assms rebuildEntity_identity sigs])
qed

lemma rebuildIndexes_covered: "identities_covered (rebuildIndexes g) (g_Entities g)"
proof -
  let ?g1 = "fold rebuildEntity_step (entries (g_Entities g)) (clearIndexes g)"
  have "edge_frame (rebuildIndexes g) = edge_frame ?g1" by (simp add: rebuildIndexes_def Let_def addEdges_frame)
  then have "identities_covered (rebuildIndexes g) (g_Entities g) = identities_covered ?g1 (g_Entities g)"
    by (intro identities_covered_cong) (simp_all add: edge_frame_def)
  moreover have "identities_covered (clearIndexes g) fmempty"
    by (simp add: identities_covered_def identities_def clearIndexes_def mget_or_def invalidateFieldIndexOrder_def invalidateEntityOrder_def)
  then have "identities_covered ?g1 (g_Entities g)"
    by (rule fold_entries_collect) (rule rebuildEntity_covered)
  ultimately show ?thesis by simp
qed

lemma index_ok_same_as_rebuild:
  assumes "index_ok g" and "identity_index_ok g (g_Entities g)"
  shows "same_indexes g (rebuildIndexes g)"
  using assms(1) rebuildIndexes_ok identities_determined [OF assms(2) rebuildIndexes_covered]
  by (intro index_ok_unique [of g "g_Entities g" "g_Edges g"]) (simp_all add: index_ok_def)

lemma index_ok_upd:
  "entity_index_ok g E \<Longrightarrow> edge_index_ok g (g_Edges g) \<Longrightarrow> index_ok (g\<lparr>g_Entities := E\<rparr>)"
  by (simp add: index_ok_def edge_index_ok_def entity_index_ok_cong [of "g\<lparr>g_Entities := E\<rparr>" g])

text \<open>C27. Updating the indexes of a stored entity field by field, counter by counter, alias by alias and identity by
  identity gives exactly the indexes that a rebuild over the changed entities would give, the identity index included,
  whatever changed between the two versions of the entity (its kind included). The new version keeps the ID and, as
  \<open>validateIdentityIndexAvailable\<close> checks before an update, claims no identity of another entity; no entity is stored
  under the empty ID.\<close>

theorem updateEntityIndexes_equals_rebuild:
  fixes g :: Graph and after :: Entity
  assumes "index_ok g" and "mget (g_Entities g) id' = Some before" and "identity_index_ok g (g_Entities g)"
    and "mget (g_Entities g) [] = None" and "ent_ID after = id'" and "validateIdentityIndexAvailable g after = Inr ()"
  defines "g' \<equiv> (updateEntityIndexes id' before after g)\<lparr>g_Entities := fmupd id' after (g_Entities g)\<rparr>"
  shows "index_ok g' \<and> identity_index_ok g' (g_Entities g') \<and> same_indexes g' (rebuildIndexes g')"
proof -
  have "entity_index_ok (updateEntityIndexes id' before after g) (fmupd id' after (g_Entities g))"
    using assms(1,2) by (simp add: index_ok_def updateEntity_index_ok)
  then have "index_ok g'"
    unfolding g'_def by (rule index_ok_upd) (use assms(1) in \<open>simp add: index_ok_def\<close>)
  moreover have "identity_index_ok (updateEntityIndexes id' before after g) (fmupd id' after (g_Entities g))"
    using updateEntity_identity_ok [OF assms(3,2,4,5,6)] .
  then have "identity_index_ok g' (g_Entities g')"
    unfolding g'_def using identity_index_ok_cong [of "(updateEntityIndexes id' before after g)\<lparr>g_Entities := fmupd id' after (g_Entities g)\<rparr>"
        "updateEntityIndexes id' before after g"] by simp
  ultimately show ?thesis by (simp add: index_ok_same_as_rebuild)
qed

definition example_entity :: Entity where
  "example_entity = zero_Entity\<lparr>ent_ID := ''a'', ent_Kind := ''host'',
     ent_Fields := fmap_of_list [(''env'', VString ''prod''), (''tags'', VSlice (Some [VString ''x'']))]\<rparr>"

definition example_graph :: Graph where
  "example_graph = rebuildIndexes (zero_Graph\<lparr>g_Entities := fmap_of_list [(''a'', example_entity)]\<rparr>)"

lemma example_identities: "identity_index_ok example_graph (g_Entities example_graph)"
proof -
  have "unique_identities example_graph" by (auto simp: unique_identities_def example_graph_def)
  moreover have "identities_covered example_graph (g_Entities example_graph)"
    unfolding example_graph_def rebuildIndexes_frame by (rule rebuildIndexes_covered)
  ultimately show ?thesis by (intro identities_covered_unique)
qed

theorem updateEntityIndexes_equals_rebuild_witness:
  "index_ok ((updateEntityIndexes ''a'' example_entity (example_entity\<lparr>ent_Kind := ''vm''\<rparr>) example_graph)
     \<lparr>g_Entities := fmupd ''a'' (example_entity\<lparr>ent_Kind := ''vm''\<rparr>) (g_Entities example_graph)\<rparr>)"
proof -
  have "mget (g_Entities example_graph) ''a'' = Some example_entity" by (simp add: example_graph_def)
  moreover have "index_ok example_graph" by (simp add: example_graph_def index_ok_rebuild)
  moreover have "mget (g_Entities example_graph) [] = None" by (simp add: example_graph_def)
  moreover have "ent_ID (example_entity\<lparr>ent_Kind := ''vm''\<rparr>) = ''a''" by (simp add: example_entity_def)
  moreover have "validateIdentityIndexAvailable example_graph (example_entity\<lparr>ent_Kind := ''vm''\<rparr>) = Inr ()" by code_simp
  ultimately show ?thesis
    using updateEntityIndexes_equals_rebuild [of example_graph "''a''" example_entity "example_entity\<lparr>ent_Kind := ''vm''\<rparr>"]
      example_identities by blast
qed

section \<open>Scalar coverage\<close>

lemma total_mem: "mget c i = Some v \<Longrightarrow> k \<in># f v \<Longrightarrow> k \<in># total f c"
  by (simp add: total_drop)

text \<open>C28. When the counters report that the scalar index covers a field, every entity of the kind (of any
  kind, for the empty kind) that has the field holds a scalar in it, so that it appears in the field
  index; the planner may then answer from the index alone.\<close>

theorem ScalarIndexCoversField_sound:
  assumes "index_ok g" and "ScalarIndexCoversField g kind field" and "mget (g_Entities g) id' = Some entity"
    and "kind = [] \<or> ent_Kind entity = kind" and "mget (ent_Fields entity) field = Some value"
  shows "\<exists>key. ScalarIndexKey value = Some key \<and> id' \<in> bucket (fieldValues g (ent_Kind entity) field) key"
proof (cases "ScalarIndexKey value")
  case None
  have "nonScalarKey kind field \<in># mset (entityNonScalarKeys entity)"
    using None assms(4,5) by (force simp: entityNonScalarKeys_def nonScalarKeys_def nonScalarScopes_def)
  then have "nonScalarKey kind field \<in># total (\<lambda>e. mset (entityNonScalarKeys e)) (g_Entities g)"
    using total_mem [OF assms(3), of _ "\<lambda>e. mset (entityNonScalarKeys e)"] by simp
  moreover have "is_count (g_nonScalarFields g) (total (\<lambda>e. mset (entityNonScalarKeys e)) (g_Entities g))"
    using assms(1) by (simp add: index_ok_def entity_index_ok_def)
  ultimately have "mget_or 0 (g_nonScalarFields g) (nonScalarKey kind field) > 0" by (simp add: is_count_get)
  with assms(2) show ?thesis by (simp add: ScalarIndexCoversField_def)
next
  case (Some key)
  have "is_index (fieldValues g (ent_Kind entity) field) (rel_of (fieldKeys (ent_Kind entity) field) (g_Entities g))"
    using assms(1) by (simp add: index_ok_def entity_index_ok_def)
  from is_index_bucket [OF this, of key] Some assms(3,5) show ?thesis by (auto simp: fieldKeys_def)
qed

theorem ScalarIndexCoversField_sound_witness:
  "\<exists>key. ScalarIndexKey (VString ''prod'') = Some key \<and> ''a'' \<in> bucket (fieldValues example_graph ''host'' ''env'') key"
proof -
  have e: "mget (g_Entities example_graph) ''a'' = Some example_entity" by (simp add: example_graph_def)
  have i: "index_ok example_graph" by (simp add: example_graph_def index_ok_rebuild)
  have c: "ScalarIndexCoversField example_graph ''host'' ''env''" by code_simp
  show ?thesis
    using ScalarIndexCoversField_sound [OF i c e, of "VString ''prod''"] by (simp add: example_entity_def)
qed

end
