(* ===== verification/Fingerprint.thy ===== *)
theory Fingerprint
  imports GraphIndex
begin

text \<open>
  Content fingerprints and logical hashes of a graph (\<open>content_fingerprint.go\<close>, and the parts of
  \<open>content_hash.go\<close>, \<open>content_hash_cache.go\<close> and \<open>content_hash_stream.go\<close> that read the graph). A
  mutation records the digest of every item it is about to touch; at the end the fingerprint and the
  sharded hash cache are brought up to date from the touched items alone. The theorems say that both
  then equal what a computation over the whole graph gives, provided every changed item was touched.
\<close>

section \<open>The fingerprint of a graph\<close>

definition content_items :: "Graph \<Rightarrow> (string \<times> string \<times> logical_value) list" where
  "content_items g =
     map (\<lambda>(key, value). (''ci_type'', key, LCIType value)) (entries (g_CITypes g)) @
     map (\<lambda>(key, value). (''entity'', key, LEntity (logicalEntityForHash value))) (entries (g_Entities g)) @
     map (\<lambda>(key, value). (''relation_type'', key, LRelationType value)) (entries (g_RelationTypes g)) @
     map (\<lambda>(key, value). (''edge'', key, LEdge (logicalEdgeForHash value))) (entries (g_Edges g))"

definition computeFingerprint :: "Graph \<Rightarrow> error + digest" where
  "computeFingerprint g =
     foldM (\<lambda>fingerprint (kind, key, value).
              rbind (contentFingerprintEntry kind key value) (\<lambda>entry. Inr (xorFingerprint fingerprint entry)))
       0 (content_items g)"

definition ensureContentFingerprint :: "Graph \<Rightarrow> error + Graph" where
  "ensureContentFingerprint g =
     (if g_contentFingerprintReady g then Inr g
      else rbind (computeFingerprint g) (\<lambda>fingerprint.
             Inr (g\<lparr>g_contentFingerprint := fingerprint, g_contentFingerprintReady := True\<rparr>)))"

definition ContentFingerprint :: "Graph \<Rightarrow> error + string" where
  "ContentFingerprint g = rbind (ensureContentFingerprint g) (\<lambda>g'. Inr (hex_digest (g_contentFingerprint g')))"

section \<open>The tracker of a mutation\<close>

record trackedFingerprint =
  tf_exists :: bool
  tf_value :: digest

definition zero_trackedFingerprint :: trackedFingerprint where
  "zero_trackedFingerprint = \<lparr>tf_exists = False, tf_value = 0\<rparr>"

record mutationFingerprintTracker =
  tr_ciTypes :: "(string, trackedFingerprint) fmap"
  tr_entities :: "(string, trackedFingerprint) fmap"
  tr_relationTypes :: "(string, trackedFingerprint) fmap"
  tr_edges :: "(string, trackedFingerprint) fmap"
  tr_err :: "error option"

definition newMutationFingerprintTracker :: mutationFingerprintTracker where
  "newMutationFingerprintTracker =
     \<lparr>tr_ciTypes = fmempty, tr_entities = fmempty, tr_relationTypes = fmempty, tr_edges = fmempty, tr_err = None\<rparr>"

text \<open>The fingerprint of an item that may be absent, and the error the tracker remembers.\<close>

definition capture :: "string \<Rightarrow> string \<Rightarrow> logical_value option \<Rightarrow> error option \<Rightarrow> trackedFingerprint \<times> error option" where
  "capture kind key value err =
     (case value of
        None \<Rightarrow> (zero_trackedFingerprint, err)
      | Some v \<Rightarrow>
          (case contentFingerprintEntry kind key v of
             Inl e \<Rightarrow> (zero_trackedFingerprint, Some e)
           | Inr fingerprint \<Rightarrow> (\<lparr>tf_exists = True, tf_value = fingerprint\<rparr>, err)))"

definition ciTypeValue :: "Graph \<Rightarrow> string \<Rightarrow> logical_value option" where
  "ciTypeValue g key = map_option LCIType (mget (g_CITypes g) key)"

definition entityValue :: "Graph \<Rightarrow> string \<Rightarrow> logical_value option" where
  "entityValue g key = map_option (\<lambda>e. LEntity (logicalEntityForHash e)) (mget (g_Entities g) key)"

definition relationTypeValue :: "Graph \<Rightarrow> string \<Rightarrow> logical_value option" where
  "relationTypeValue g key = map_option LRelationType (mget (g_RelationTypes g) key)"

definition edgeValue :: "Graph \<Rightarrow> string \<Rightarrow> logical_value option" where
  "edgeValue g key = map_option (\<lambda>e. LEdge (logicalEdgeForHash e)) (mget (g_Edges g) key)"

definition touchCIType :: "Graph \<Rightarrow> string \<Rightarrow> mutationFingerprintTracker \<Rightarrow> mutationFingerprintTracker" where
  "touchCIType g name t =
     (if mget (tr_ciTypes t) name \<noteq> None \<or> tr_err t \<noteq> None then t
      else let (tracked, err) = capture ''ci_type'' name (ciTypeValue g name) (tr_err t)
           in t\<lparr>tr_ciTypes := fmupd name tracked (tr_ciTypes t), tr_err := err\<rparr>)"

definition touchEntity :: "Graph \<Rightarrow> string \<Rightarrow> mutationFingerprintTracker \<Rightarrow> mutationFingerprintTracker" where
  "touchEntity g id' t =
     (if mget (tr_entities t) id' \<noteq> None \<or> tr_err t \<noteq> None then t
      else let (tracked, err) = capture ''entity'' id' (entityValue g id') (tr_err t)
           in t\<lparr>tr_entities := fmupd id' tracked (tr_entities t), tr_err := err\<rparr>)"

definition touchRelationType :: "Graph \<Rightarrow> string \<Rightarrow> mutationFingerprintTracker \<Rightarrow> mutationFingerprintTracker" where
  "touchRelationType g name t =
     (if mget (tr_relationTypes t) name \<noteq> None \<or> tr_err t \<noteq> None then t
      else let (tracked, err) = capture ''relation_type'' name (relationTypeValue g name) (tr_err t)
           in t\<lparr>tr_relationTypes := fmupd name tracked (tr_relationTypes t), tr_err := err\<rparr>)"

definition touchEdge :: "Graph \<Rightarrow> string \<Rightarrow> mutationFingerprintTracker \<Rightarrow> mutationFingerprintTracker" where
  "touchEdge g id' t =
     (if mget (tr_edges t) id' \<noteq> None \<or> tr_err t \<noteq> None then t
      else let (tracked, err) = capture ''edge'' id' (edgeValue g id') (tr_err t)
           in t\<lparr>tr_edges := fmupd id' tracked (tr_edges t), tr_err := err\<rparr>)"

definition touchEntityWithEdges :: "Graph \<Rightarrow> string \<Rightarrow> mutationFingerprintTracker \<Rightarrow> mutationFingerprintTracker" where
  "touchEntityWithEdges g id' t =
     fold (touchEdge g) (sortedKeys (bucket (g_in g) id'))
       (fold (touchEdge g) (sortedKeys (bucket (g_out g) id')) (touchEntity g id' t))"

definition touchMerge :: "Graph \<Rightarrow> MergeRequest \<Rightarrow> mutationFingerprintTracker \<Rightarrow> mutationFingerprintTracker" where
  "touchMerge g request t =
     fold (\<lambda>id' t'. if id' \<noteq> mr_TargetID request then touchEntityWithEdges g id' t' else t')
       (mr_SourceIDs request) (touchEntityWithEdges g (mr_TargetID request) t)"

definition touchSplit :: "Graph \<Rightarrow> SplitRequest \<Rightarrow> mutationFingerprintTracker \<Rightarrow> mutationFingerprintTracker" where
  "touchSplit g request t =
     fold (\<lambda>entity t'. if ent_ID entity \<noteq> [] then touchEntity g (ent_ID entity) t' else t')
       (sr_Entities request) (touchEntityWithEdges g (sr_SourceID request) t)"

section \<open>Finishing a mutation\<close>

text \<open>The closure \<open>apply\<close> of \<open>finish\<close> with the captures around it.\<close>

record finish_state =
  fs_fingerprint :: digest
  fs_changed :: bool
  fs_err :: "error option"

definition finish_apply :: "trackedFingerprint \<Rightarrow> trackedFingerprint \<Rightarrow> finish_state \<Rightarrow> finish_state" where
  "finish_apply before after s =
     (if before = after then s
      else
        let fp1 = (if tf_exists before then xorFingerprint (fs_fingerprint s) (tf_value before) else fs_fingerprint s);
            fp2 = (if tf_exists after then xorFingerprint fp1 (tf_value after) else fp1)
        in s\<lparr>fs_changed := True, fs_fingerprint := fp2\<rparr>)"

definition finish_step ::
  "string \<Rightarrow> (string \<Rightarrow> logical_value option) \<Rightarrow> string \<times> trackedFingerprint \<Rightarrow> finish_state \<Rightarrow> finish_state" where
  "finish_step kind value = (\<lambda>(key, before) s.
     let (after, err) = capture kind key (value key) (fs_err s)
     in finish_apply before after (s\<lparr>fs_err := err\<rparr>))"

definition finish_loop :: "Graph \<Rightarrow> mutationFingerprintTracker \<Rightarrow> finish_state \<Rightarrow> finish_state" where
  "finish_loop g t s =
     fold (finish_step ''edge'' (edgeValue g)) (entries (tr_edges t))
       (fold (finish_step ''relation_type'' (relationTypeValue g)) (entries (tr_relationTypes t))
         (fold (finish_step ''entity'' (entityValue g)) (entries (tr_entities t))
           (fold (finish_step ''ci_type'' (ciTypeValue g)) (entries (tr_ciTypes t)) s)))"

section \<open>The logical hash cache\<close>

definition logicalHashValue :: "Graph \<Rightarrow> nat \<Rightarrow> string \<Rightarrow> logical_value option" where
  "logicalHashValue g category key =
     (if category = 0 then ciTypeValue g key
      else if category = 1 then entityValue g key
      else if category = 2 then relationTypeValue g key
      else edgeValue g key)"

text \<open>The items of a category, and the closure \<open>add\<close> of \<open>buildLogicalHashCache\<close>.\<close>

definition categoryKeys :: "Graph \<Rightarrow> nat \<Rightarrow> string list" where
  "categoryKeys g category =
     (if category = 0 then skeys (g_CITypes g)
      else if category = 1 then skeys (g_Entities g)
      else if category = 2 then skeys (g_RelationTypes g)
      else skeys (g_Edges g))"

definition empty_block :: logicalHashBlock where
  "empty_block = \<lparr>lhb_entries = fmempty, lhb_digest = 0\<rparr>"

definition hashCache_add ::
  "Graph \<Rightarrow> nat \<Rightarrow> logicalHashCache \<Rightarrow> string \<Rightarrow> error + logicalHashCache" where
  "hashCache_add g category cache key =
     rbind (hashLogicalEntry category key (the (logicalHashValue g category key))) (\<lambda>entry.
     let index = (category, logicalHashShard key);
         block = mget_or empty_block (lhc_categories cache) index
     in Inr (cache\<lparr>lhc_categories := fmupd index (block\<lparr>lhb_entries := fmupd key entry (lhb_entries block)\<rparr>) (lhc_categories cache),
                   lhc_logicalBytes := lhc_logicalBytes cache + lhe_bytes entry\<rparr>))"

definition zero_cache :: logicalHashCache where
  "zero_cache = \<lparr>lhc_categories = fmempty, lhc_digest = [], lhc_logicalBytes = 0, lhc_finalReady = False\<rparr>"

definition buildLogicalHashCache :: "Graph \<Rightarrow> error + logicalHashCache" where
  "buildLogicalHashCache g =
     rbind (foldM (\<lambda>cache category. foldM (hashCache_add g category) cache (categoryKeys g category))
              zero_cache [0, 1, 2, 3]) (\<lambda>cache.
     Inr (cache\<lparr>lhc_categories := fmmap rehash (lhc_categories cache)\<rparr>))"

definition touchedKeys :: "mutationFingerprintTracker \<Rightarrow> nat \<Rightarrow> string list" where
  "touchedKeys t category =
     (if category = 0 then skeys (tr_ciTypes t)
      else if category = 1 then skeys (tr_entities t)
      else if category = 2 then skeys (tr_relationTypes t)
      else skeys (tr_edges t))"

definition refresh_step ::
  "Graph \<Rightarrow> nat \<Rightarrow> logicalHashCache \<Rightarrow> string \<Rightarrow> error + logicalHashCache" where
  "refresh_step g category cache key =
     (let index = (category, logicalHashShard key);
          block = mget_or empty_block (lhc_categories cache) index;
          bytes = (case mget (lhb_entries block) key of None \<Rightarrow> 0 | Some entry \<Rightarrow> lhe_bytes entry);
          put = (\<lambda>ents delta. cache\<lparr>lhc_categories := fmupd index (block\<lparr>lhb_entries := ents\<rparr>) (lhc_categories cache),
                                    lhc_logicalBytes := lhc_logicalBytes cache - bytes + delta\<rparr>)
      in case logicalHashValue g category key of
           Some value \<Rightarrow>
             rbind (hashLogicalEntry category key value) (\<lambda>entry.
             Inr (put (fmupd key entry (lhb_entries block)) (lhe_bytes entry)))
         | None \<Rightarrow> Inr (put (fmdrop key (lhb_entries block)) 0))"

text \<open>The second loop of \<open>refreshLogicalHashCache\<close> over the copied blocks of a category.\<close>

definition refresh_block :: "nat \<Rightarrow> 8 word \<Rightarrow> logicalHashCache \<Rightarrow> logicalHashCache" where
  "refresh_block category shard cache =
     (case mget (lhc_categories cache) (category, shard) of
        None \<Rightarrow> cache
      | Some block \<Rightarrow>
          if lhb_entries block = fmempty
          then cache\<lparr>lhc_categories := fmdrop (category, shard) (lhc_categories cache)\<rparr>
          else cache\<lparr>lhc_categories := fmupd (category, shard) (rehash block) (lhc_categories cache)\<rparr>)"

definition refresh_category ::
  "Graph \<Rightarrow> mutationFingerprintTracker \<Rightarrow> logicalHashCache \<Rightarrow> nat \<Rightarrow> error + logicalHashCache" where
  "refresh_category g t cache category =
     rbind (foldM (refresh_step g category) cache (touchedKeys t category)) (\<lambda>cache'.
     Inr (fold (refresh_block category) (remdups (map logicalHashShard (touchedKeys t category))) cache'))"

definition refreshLogicalHashCache :: "mutationFingerprintTracker \<Rightarrow> Graph \<Rightarrow> error + Graph" where
  "refreshLogicalHashCache t g =
     (case g_logicalHashCache g of
        None \<Rightarrow> Inr g
      | Some cache \<Rightarrow>
          rbind (foldM (refresh_category g t) cache [0, 1, 2, 3]) (\<lambda>cache'.
          Inr (g\<lparr>g_logicalHashCache := Some (cache'\<lparr>lhc_finalReady := False\<rparr>)\<rparr>)))"

definition finish :: "mutationFingerprintTracker \<Rightarrow> Graph \<Rightarrow> ApplyReport \<Rightarrow> error + Graph \<times> ApplyReport" where
  "finish t g report =
     (case tr_err t of
        Some e \<Rightarrow> Inl e
      | None \<Rightarrow>
          let s = finish_loop g t \<lparr>fs_fingerprint = g_contentFingerprint g, fs_changed = False, fs_err = None\<rparr> in
          (case fs_err s of
             Some e \<Rightarrow> Inl e
           | None \<Rightarrow>
               let g1 = g\<lparr>g_contentFingerprint := fs_fingerprint s\<rparr>;
                   report1 = report\<lparr>ar_Changed := fs_changed s, ar_ContentFingerprint := hex_digest (fs_fingerprint s)\<rparr>
               in if fs_changed s then rbind (refreshLogicalHashCache t g1) (\<lambda>g2. Inr (g2, report1))
                  else Inr (g1, report1)))"

definition finalDigest :: "logicalHashCache \<Rightarrow> string" where
  "finalDigest cache =
     ContentHashAlgorithm @ '':'' @ hex_digest (sha256 (ContentHashAlgorithm @ [nul] @
       concat (map (\<lambda>category. concat (map (\<lambda>shard.
          case mget (lhc_categories cache) (category, word_of_nat shard) of
            None \<Rightarrow> digest_bytes 0
          | Some block \<Rightarrow> digest_bytes (lhb_digest block)) [0..<graphMapShards])) [0..<4])))"

definition ContentHashWithLogicalSize :: "Graph \<Rightarrow> error + Graph \<times> string \<times> int" where
  "ContentHashWithLogicalSize g =
     rbind (case g_logicalHashCache g of None \<Rightarrow> buildLogicalHashCache g | Some cache \<Rightarrow> Inr cache) (\<lambda>cache.
     let cache' = (if lhc_finalReady cache then cache
                   else cache\<lparr>lhc_digest := finalDigest cache, lhc_finalReady := True\<rparr>)
     in Inr (g\<lparr>g_logicalHashCache := Some cache'\<rparr>, lhc_digest cache', lhc_logicalBytes cache'))"

definition ContentHash :: "Graph \<Rightarrow> error + string" where
  "ContentHash g = map_sum id (\<lambda>(g', digest, size). digest) (ContentHashWithLogicalSize g)"

definition CachedLogicalSize :: "Graph \<Rightarrow> int" where
  "CachedLogicalSize g = (case g_logicalHashCache g of None \<Rightarrow> 0 | Some cache \<Rightarrow> lhc_logicalBytes cache)"

record logicalSnapshot =
  ls_CITypes :: "CIType list"
  ls_Entities :: "logicalEntity list"
  ls_RelationTypes :: "RelationType list"
  ls_Edges :: "logicalEdge list"

definition logical_snapshot :: "Graph \<Rightarrow> logicalSnapshot" where
  "logical_snapshot g =
     \<lparr>ls_CITypes = sort_key ct_Name (map snd (entries (g_CITypes g))),
      ls_Entities = sort_key le_ID (map (\<lambda>(_, e). logicalEntityFromEntity e) (entries (g_Entities g))),
      ls_RelationTypes = sort_key rt_Name (map snd (entries (g_RelationTypes g))),
      ls_Edges = sort_key led_ID (map (\<lambda>(_, e). logicalEdgeFromEdge e) (entries (g_Edges g)))\<rparr>"

section \<open>The fingerprint as an exclusive-or over items\<close>

interpretation xors: comm_monoid_set "(XOR) :: digest \<Rightarrow> digest \<Rightarrow> digest" 0
  by (rule comm_monoid_set.intro) (rule xor.comm_monoid_axioms)

definition item_digest :: "string \<Rightarrow> (string \<Rightarrow> logical_value option) \<Rightarrow> string \<Rightarrow> digest" where
  "item_digest kind value key =
     (case value key of
        None \<Rightarrow> 0
      | Some v \<Rightarrow> (case contentFingerprintEntry kind key v of Inl _ \<Rightarrow> 0 | Inr d \<Rightarrow> d))"

definition item_ok :: "string \<Rightarrow> (string \<Rightarrow> logical_value option) \<Rightarrow> string \<Rightarrow> bool" where
  "item_ok kind value key \<longleftrightarrow> (\<forall>v. value key = Some v \<longrightarrow> \<not> isl (contentFingerprintEntry kind key v))"

lemma xors_superset:
  assumes "finite B" and "A \<subseteq> B" and "\<And>x. x \<in> B - A \<Longrightarrow> f x = 0"
  shows "xors.F f A = xors.F f B"
  using assms by (intro xors.mono_neutral_left) auto

text \<open>The loop over the items of one category.\<close>

lemma fingerprint_loop:
  "foldM (\<lambda>fp (kind, key, value). rbind (contentFingerprintEntry kind key value) (\<lambda>entry. Inr (xorFingerprint fp entry)))
     fp (map (\<lambda>(key, x). (kind, key, L x)) (entries m)) = Inr fp' \<longleftrightarrow>
   (\<forall>key. item_ok kind (\<lambda>k. map_option L (mget m k)) key) \<and>
   fp' = fp XOR xors.F (item_digest kind (\<lambda>k. map_option L (mget m k))) (fmdom' m)"
proof -
  let ?val = "\<lambda>k. map_option L (mget m k)"
  have "foldM (\<lambda>fp (kind, key, value). rbind (contentFingerprintEntry kind key value) (\<lambda>entry. Inr (xorFingerprint fp entry)))
     fp (map (\<lambda>(key, x). (kind, key, L x)) kvs) = Inr fp' \<longleftrightarrow>
     (\<forall>key \<in> fst ` set kvs. item_ok kind ?val key) \<and> fp' = fp XOR xors.F (item_digest kind ?val) (fst ` set kvs)"
    if "set kvs \<subseteq> set (entries m)" "distinct (map fst kvs)" for kvs fp
    using that
  proof (induction kvs arbitrary: fp)
    case Nil
    then show ?case by auto
  next
    case (Cons kv kvs)
    obtain k x where kv: "kv = (k, x)" by (cases kv)
    with Cons.prems have x: "mget m k = Some x" and k: "k \<notin> fst ` set kvs" by auto
    show ?case
    proof (cases "contentFingerprintEntry kind k (L x)")
      case (Inl e)
      with x have "\<not> item_ok kind ?val k" by (simp add: item_ok_def)
      with Inl show ?thesis by (simp add: kv)
    next
      case (Inr d)
      with x have ok: "item_ok kind ?val k" and d: "item_digest kind ?val k = d" by (simp_all add: item_ok_def item_digest_def)
      from Cons.IH [of "fp XOR d"] Cons.prems ok d k Inr show ?thesis
        by (simp add: kv xorFingerprint_def xor.assoc)
    qed
  qed
  from this [of "entries m" fp] have "foldM (\<lambda>fp (kind, key, value). rbind (contentFingerprintEntry kind key value) (\<lambda>entry. Inr (xorFingerprint fp entry)))
     fp (map (\<lambda>(key, x). (kind, key, L x)) (entries m)) = Inr fp' \<longleftrightarrow>
     (\<forall>key \<in> fmdom' m. item_ok kind ?val key) \<and> fp' = fp XOR xors.F (item_digest kind ?val) (fmdom' m)" by simp
  moreover have "(\<forall>key \<in> fmdom' m. item_ok kind ?val key) \<longleftrightarrow> (\<forall>key. item_ok kind ?val key)"
    by (auto simp: item_ok_def fmlookup_dom'_iff)
  ultimately show ?thesis by simp
qed

definition category_digest :: "string \<Rightarrow> (string \<Rightarrow> logical_value option) \<Rightarrow> string set \<Rightarrow> digest" where
  "category_digest kind value keys = xors.F (item_digest kind value) keys"

lemma computeFingerprint_iff:
  "computeFingerprint g = Inr fp \<longleftrightarrow>
     (\<forall>key. item_ok ''ci_type'' (ciTypeValue g) key) \<and> (\<forall>key. item_ok ''entity'' (entityValue g) key) \<and>
     (\<forall>key. item_ok ''relation_type'' (relationTypeValue g) key) \<and> (\<forall>key. item_ok ''edge'' (edgeValue g) key) \<and>
     fp = category_digest ''ci_type'' (ciTypeValue g) (fmdom' (g_CITypes g)) XOR
          category_digest ''entity'' (entityValue g) (fmdom' (g_Entities g)) XOR
          category_digest ''relation_type'' (relationTypeValue g) (fmdom' (g_RelationTypes g)) XOR
          category_digest ''edge'' (edgeValue g) (fmdom' (g_Edges g))"
  unfolding computeFingerprint_def content_items_def foldM_append
  by (simp only: rbind_eq_Inr fingerprint_loop category_digest_def ciTypeValue_def [abs_def] entityValue_def [abs_def]
        relationTypeValue_def [abs_def] edgeValue_def [abs_def] xor.left_neutral) (auto simp: xor.assoc)

section \<open>The incremental fingerprint\<close>

text \<open>The tracked fingerprint of an item before the mutation.\<close>

definition tracked_of :: "string \<Rightarrow> (string \<Rightarrow> logical_value option) \<Rightarrow> string \<Rightarrow> trackedFingerprint" where
  "tracked_of kind value key = \<lparr>tf_exists = (value key \<noteq> None), tf_value = item_digest kind value key\<rparr>"

lemma capture_ok: "item_ok kind value key \<Longrightarrow> capture kind key (value key) err = (tracked_of kind value key, err)"
  by (auto simp: capture_def tracked_of_def item_ok_def item_digest_def zero_trackedFingerprint_def split: option.splits sum.splits)

lemma capture_error: "\<not> item_ok kind value key \<Longrightarrow> snd (capture kind key (value key) err) \<noteq> None"
  by (auto simp: capture_def item_ok_def split: option.splits sum.splits)

lemma capture_None: "capture kind key v err = (tracked, None) \<Longrightarrow> err = None"
  by (auto simp: capture_def split: option.splits sum.splits)

lemma finish_apply_fp:
  "fs_fingerprint (finish_apply (tracked_of kind v0 key) (tracked_of kind v1 key) s) =
     fs_fingerprint s XOR (item_digest kind v0 key XOR item_digest kind v1 key)"
  by (auto simp: finish_apply_def tracked_of_def xorFingerprint_def Let_def item_digest_def xor.assoc)

lemma finish_step_err: "fs_err (finish_step kind v1 kb s) = None \<Longrightarrow> fs_err s = None"
  by (cases kb) (auto simp: finish_step_def finish_apply_def Let_def split: prod.splits if_splits dest: capture_None)

lemma finish_steps_err: "fs_err (fold (finish_step kind v1) kbs s) = None \<Longrightarrow> fs_err s = None"
  by (induction kbs arbitrary: s) (auto dest: finish_step_err)

lemma finish_steps:
  assumes "fs_err (fold (finish_step kind v1) kbs s) = None" and "distinct (map fst kbs)"
    and "\<And>key before. (key, before) \<in> set kbs \<Longrightarrow> before = tracked_of kind v0 key"
  shows "(\<forall>key \<in> fst ` set kbs. item_ok kind v1 key) \<and>
         fs_fingerprint (fold (finish_step kind v1) kbs s) =
           fs_fingerprint s XOR xors.F (\<lambda>key. item_digest kind v0 key XOR item_digest kind v1 key) (fst ` set kbs) \<and>
         (fs_changed (fold (finish_step kind v1) kbs s) \<longleftrightarrow>
           fs_changed s \<or> (\<exists>key \<in> fst ` set kbs. tracked_of kind v0 key \<noteq> tracked_of kind v1 key))"
  using assms
proof (induction kbs arbitrary: s)
  case Nil
  then show ?case by simp
next
  case (Cons kb kbs)
  obtain k b where kb: "kb = (k, b)" by (cases kb)
  have b: "b = tracked_of kind v0 k" using Cons.prems(3) by (simp add: kb)
  let ?s1 = "finish_step kind v1 kb s"
  have e1: "fs_err ?s1 = None" using Cons.prems(1) finish_steps_err [of kind v1 kbs ?s1] by simp
  have ok: "item_ok kind v1 k"
  proof (rule ccontr)
    assume "\<not> item_ok kind v1 k"
    from capture_error [OF this, of "fs_err s"] e1 show False
      by (auto simp: kb finish_step_def finish_apply_def Let_def split: prod.splits if_splits)
  qed
  have s1: "?s1 = finish_apply (tracked_of kind v0 k) (tracked_of kind v1 k) s"
    by (simp add: kb b finish_step_def capture_ok [OF ok])
  have ch: "fs_changed ?s1 \<longleftrightarrow> fs_changed s \<or> tracked_of kind v0 k \<noteq> tracked_of kind v1 k"
    unfolding s1 by (simp add: finish_apply_def Let_def)
  have "k \<notin> fst ` set kbs" using Cons.prems(2) by (simp add: kb)
  moreover have "fs_err (fold (finish_step kind v1) kbs ?s1) = None" using Cons.prems(1) by simp
  ultimately show ?case
    using Cons.IH [of ?s1] Cons.prems ok ch
    by (simp add: kb [symmetric]) (simp add: kb s1 [unfolded kb] finish_apply_fp xor.assoc)
qed

lemma category_incremental:
  assumes "finite K0" "finite K1" "finite T"
    and "\<And>k. k \<notin> T \<Longrightarrow> v1 k = v0 k" and "\<And>k. k \<notin> K0 \<Longrightarrow> v0 k = None" and "\<And>k. k \<notin> K1 \<Longrightarrow> v1 k = None"
  shows "category_digest kind v1 K1 =
         category_digest kind v0 K0 XOR xors.F (\<lambda>key. item_digest kind v0 key XOR item_digest kind v1 key) T"
proof -
  let ?A = "K0 \<union> K1 \<union> T"
  have none: "item_digest kind v k = 0" if "v k = None" for v k using that by (simp add: item_digest_def)
  have "category_digest kind v1 K1 = xors.F (item_digest kind v1) ?A" "category_digest kind v0 K0 = xors.F (item_digest kind v0) ?A"
    unfolding category_digest_def using assms none by (auto intro!: xors_superset)
  moreover have "xors.F (\<lambda>key. item_digest kind v0 key XOR item_digest kind v1 key) T =
                 xors.F (\<lambda>key. item_digest kind v0 key XOR item_digest kind v1 key) ?A"
    using assms by (intro xors_superset) (auto simp: item_digest_def)
  moreover have "\<dots> = xors.F (item_digest kind v0) ?A XOR xors.F (item_digest kind v1) ?A"
    by (rule xors.distrib)
  ultimately show ?thesis by (simp add: xor.assoc [symmetric])
qed

text \<open>
  What a tracker knows while a mutation turns the graph \<open>g0\<close> into \<open>g\<close>: the items it holds are captured
  from \<open>g0\<close>, and every other item is unchanged. After an error nothing is promised.
\<close>

definition tracks_map where
  "tracks_map kind value0 m0 tracked m \<longleftrightarrow>
     (\<forall>key. mget tracked key = None \<longrightarrow> mget m key = mget m0 key) \<and>
     (\<forall>key before. mget tracked key = Some before \<longrightarrow> before = tracked_of kind value0 key \<and> item_ok kind value0 key)"

definition tracks :: "Graph \<Rightarrow> mutationFingerprintTracker \<Rightarrow> Graph \<Rightarrow> bool" where
  "tracks g0 t g \<longleftrightarrow>
     tr_err t = None \<longrightarrow>
     tracks_map ''ci_type'' (ciTypeValue g0) (g_CITypes g0) (tr_ciTypes t) (g_CITypes g) \<and>
     tracks_map ''entity'' (entityValue g0) (g_Entities g0) (tr_entities t) (g_Entities g) \<and>
     tracks_map ''relation_type'' (relationTypeValue g0) (g_RelationTypes g0) (tr_relationTypes t) (g_RelationTypes g) \<and>
     tracks_map ''edge'' (edgeValue g0) (g_Edges g0) (tr_edges t) (g_Edges g)"

lemma finish_category:
  assumes "tracks_map kind v0 m0 tracked m1"
    and "\<And>k. v0 k = map_option L (mget m0 k)" and "\<And>k. v1 k = map_option L (mget m1 k)"
    and "fs_err (fold (finish_step kind v1) (entries tracked) s) = None"
    and "\<And>k. item_ok kind v0 k"
  shows "(\<forall>k. item_ok kind v1 k) \<and>
         fs_fingerprint (fold (finish_step kind v1) (entries tracked) s) XOR category_digest kind v0 (fmdom' m0) =
           fs_fingerprint s XOR category_digest kind v1 (fmdom' m1) \<and>
         (fs_changed (fold (finish_step kind v1) (entries tracked) s) \<longleftrightarrow>
           fs_changed s \<or> (\<exists>k. tracked_of kind v0 k \<noteq> tracked_of kind v1 k))"
proof -
  have same: "v1 k = v0 k" if "mget tracked k = None" for k
    using assms(1) that by (simp add: tracks_map_def assms(2,3))
  have loop: "(\<forall>key \<in> fmdom' tracked. item_ok kind v1 key) \<and>
         fs_fingerprint (fold (finish_step kind v1) (entries tracked) s) =
           fs_fingerprint s XOR xors.F (\<lambda>key. item_digest kind v0 key XOR item_digest kind v1 key) (fmdom' tracked) \<and>
         (fs_changed (fold (finish_step kind v1) (entries tracked) s) \<longleftrightarrow>
           fs_changed s \<or> (\<exists>key \<in> fmdom' tracked. tracked_of kind v0 key \<noteq> tracked_of kind v1 key))"
    using finish_steps [OF assms(4), of v0] assms(1) by (simp add: tracks_map_def)
  have "category_digest kind v1 (fmdom' m1) = category_digest kind v0 (fmdom' m0) XOR
          xors.F (\<lambda>key. item_digest kind v0 key XOR item_digest kind v1 key) (fmdom' tracked)"
    using same by (intro category_incremental) (auto simp: assms(2,3) fmlookup_dom'_iff)
  moreover have "item_ok kind v1 k" for k
    using loop same [of k] assms(5) [of k] by (cases "mget tracked k") (auto simp: item_ok_def fmlookup_dom'_iff)
  moreover have "(\<exists>key \<in> fmdom' tracked. tracked_of kind v0 key \<noteq> tracked_of kind v1 key) \<longleftrightarrow>
                 (\<exists>k. tracked_of kind v0 k \<noteq> tracked_of kind v1 k)"
  proof -
    have "tracked_of kind v0 k = tracked_of kind v1 k" if "k \<notin> fmdom' tracked" for k
      using same [of k] that by (simp add: fmdom'_notD tracked_of_def item_digest_def)
    then show ?thesis by blast
  qed
  ultimately show ?thesis using loop by (simp add: xor.assoc xor.commute xor.left_commute)
qed

lemma refreshLogicalHashCache_frame:
  "refreshLogicalHashCache t g = Inr g' \<Longrightarrow> \<exists>cache. g' = g\<lparr>g_logicalHashCache := cache\<rparr>"
  by (auto simp: refreshLogicalHashCache_def split: option.splits) (metis Graph.surjective Graph.update_convs(25))

lemma finish_spec:
  assumes "finish t g report = Inr (g', report')"
  obtains s cache where
    "s = finish_loop g t \<lparr>fs_fingerprint = g_contentFingerprint g, fs_changed = False, fs_err = None\<rparr>"
    "tr_err t = None" "fs_err s = None"
    "g' = g\<lparr>g_contentFingerprint := fs_fingerprint s, g_logicalHashCache := cache\<rparr>"
    "report' = report\<lparr>ar_Changed := fs_changed s, ar_ContentFingerprint := hex_digest (fs_fingerprint s)\<rparr>"
proof -
  define s where "s = finish_loop g t \<lparr>fs_fingerprint = g_contentFingerprint g, fs_changed = False, fs_err = None\<rparr>"
  from assms have e: "tr_err t = None" "fs_err s = None"
    by (auto simp: finish_def s_def Let_def split: option.splits)
  let ?g1 = "g\<lparr>g_contentFingerprint := fs_fingerprint s\<rparr>"
  let ?r = "report\<lparr>ar_Changed := fs_changed s, ar_ContentFingerprint := hex_digest (fs_fingerprint s)\<rparr>"
  have f: "finish t g report = (if fs_changed s then rbind (refreshLogicalHashCache t ?g1) (\<lambda>g2. Inr (g2, ?r)) else Inr (?g1, ?r))"
    using e by (simp add: finish_def s_def Let_def)
  have "\<exists>cache. g' = ?g1\<lparr>g_logicalHashCache := cache\<rparr> \<and> report' = ?r"
  proof (cases "fs_changed s")
    case True
    with f assms have "rbind (refreshLogicalHashCache t ?g1) (\<lambda>g2. Inr (g2, ?r)) = Inr (g', report')" by simp
    then have "refreshLogicalHashCache t ?g1 = Inr g'" "report' = ?r" by (auto simp: rbind_eq_Inr)
    with refreshLogicalHashCache_frame [of t ?g1 g'] show ?thesis by auto
  next
    case False
    with f assms have "g' = ?g1" "report' = ?r" by auto
    then show ?thesis by (intro exI [of _ "g_logicalHashCache g"]) simp
  qed
  with e that [of s] show thesis by (auto simp: s_def)
qed

lemma values_cong:
  "g_CITypes g' = g_CITypes g \<Longrightarrow> ciTypeValue g' = ciTypeValue g"
  "g_Entities g' = g_Entities g \<Longrightarrow> entityValue g' = entityValue g"
  "g_RelationTypes g' = g_RelationTypes g \<Longrightarrow> relationTypeValue g' = relationTypeValue g"
  "g_Edges g' = g_Edges g \<Longrightarrow> edgeValue g' = edgeValue g"
  by (intro ext, simp add: ciTypeValue_def entityValue_def relationTypeValue_def edgeValue_def)+

text \<open>Some item of the graph has another fingerprint than before.\<close>

definition content_changed :: "Graph \<Rightarrow> Graph \<Rightarrow> bool" where
  "content_changed g0 g \<longleftrightarrow>
     (\<exists>key. tracked_of ''ci_type'' (ciTypeValue g0) key \<noteq> tracked_of ''ci_type'' (ciTypeValue g) key) \<or>
     (\<exists>key. tracked_of ''entity'' (entityValue g0) key \<noteq> tracked_of ''entity'' (entityValue g) key) \<or>
     (\<exists>key. tracked_of ''relation_type'' (relationTypeValue g0) key \<noteq> tracked_of ''relation_type'' (relationTypeValue g) key) \<or>
     (\<exists>key. tracked_of ''edge'' (edgeValue g0) key \<noteq> tracked_of ''edge'' (edgeValue g) key)"

lemma finish_correct:
  assumes tracks: "tracks g0 t g" and fp: "computeFingerprint g0 = Inr (g_contentFingerprint g)"
    and fin: "finish t g report = Inr (g', report')"
  shows "computeFingerprint g' = Inr (g_contentFingerprint g') \<and>
         ar_ContentFingerprint report' = hex_digest (g_contentFingerprint g') \<and>
         (ar_Changed report' \<longleftrightarrow> content_changed g0 g)"
proof -
  obtain s cache where s: "s = finish_loop g t \<lparr>fs_fingerprint = g_contentFingerprint g, fs_changed = False, fs_err = None\<rparr>"
    and e: "tr_err t = None" "fs_err s = None"
    and g': "g' = g\<lparr>g_contentFingerprint := fs_fingerprint s, g_logicalHashCache := cache\<rparr>"
    and r: "report' = report\<lparr>ar_Changed := fs_changed s, ar_ContentFingerprint := hex_digest (fs_fingerprint s)\<rparr>"
    by (rule finish_spec [OF fin])
  define s0 :: finish_state where "s0 = \<lparr>fs_fingerprint = g_contentFingerprint g, fs_changed = False, fs_err = None\<rparr>"
  define s1 where "s1 = fold (finish_step ''ci_type'' (ciTypeValue g)) (entries (tr_ciTypes t)) s0"
  define s2 where "s2 = fold (finish_step ''entity'' (entityValue g)) (entries (tr_entities t)) s1"
  define s3 where "s3 = fold (finish_step ''relation_type'' (relationTypeValue g)) (entries (tr_relationTypes t)) s2"
  have s4: "s = fold (finish_step ''edge'' (edgeValue g)) (entries (tr_edges t)) s3"
    by (simp add: s finish_loop_def s0_def s1_def s2_def s3_def)
  have e3: "fs_err s3 = None" using e(2) unfolding s4 by (rule finish_steps_err)
  then have e2: "fs_err s2 = None" unfolding s3_def by (rule finish_steps_err)
  then have e1: "fs_err s1 = None" unfolding s2_def by (rule finish_steps_err)
  note tr = tracks [unfolded tracks_def, rule_format, OF e(1)]
  note ok0 = fp [unfolded computeFingerprint_iff]
  note c1 = finish_category [where L = LCIType and ?v1.0 = "ciTypeValue g" and s = s0, OF tr [THEN conjunct1], folded s1_def]
  note c2 = finish_category [where L = "\<lambda>e. LEntity (logicalEntityForHash e)" and ?v1.0 = "entityValue g" and s = s1, OF tr [THEN conjunct2, THEN conjunct1], folded s2_def]
  note c3 = finish_category [where L = LRelationType and ?v1.0 = "relationTypeValue g" and s = s2, OF tr [THEN conjunct2, THEN conjunct2, THEN conjunct1], folded s3_def]
  note c4 = finish_category [where L = "\<lambda>e. LEdge (logicalEdgeForHash e)" and ?v1.0 = "edgeValue g" and s = s3, OF tr [THEN conjunct2, THEN conjunct2, THEN conjunct2], folded s4]
  have k1: "(\<forall>k. item_ok ''ci_type'' (ciTypeValue g) k) \<and>
      fs_fingerprint s1 XOR category_digest ''ci_type'' (ciTypeValue g0) (fmdom' (g_CITypes g0)) =
      g_contentFingerprint g XOR category_digest ''ci_type'' (ciTypeValue g) (fmdom' (g_CITypes g)) \<and>
      (fs_changed s1 \<longleftrightarrow> (\<exists>k. tracked_of ''ci_type'' (ciTypeValue g0) k \<noteq> tracked_of ''ci_type'' (ciTypeValue g) k))"
    using c1 e1 ok0 by (simp add: ciTypeValue_def s0_def)
  have k2: "(\<forall>k. item_ok ''entity'' (entityValue g) k) \<and>
      fs_fingerprint s2 XOR category_digest ''entity'' (entityValue g0) (fmdom' (g_Entities g0)) =
      fs_fingerprint s1 XOR category_digest ''entity'' (entityValue g) (fmdom' (g_Entities g)) \<and>
      (fs_changed s2 \<longleftrightarrow> fs_changed s1 \<or> (\<exists>k. tracked_of ''entity'' (entityValue g0) k \<noteq> tracked_of ''entity'' (entityValue g) k))"
    using c2 e2 ok0 by (simp add: entityValue_def)
  have k3: "(\<forall>k. item_ok ''relation_type'' (relationTypeValue g) k) \<and>
      fs_fingerprint s3 XOR category_digest ''relation_type'' (relationTypeValue g0) (fmdom' (g_RelationTypes g0)) =
      fs_fingerprint s2 XOR category_digest ''relation_type'' (relationTypeValue g) (fmdom' (g_RelationTypes g)) \<and>
      (fs_changed s3 \<longleftrightarrow> fs_changed s2 \<or> (\<exists>k. tracked_of ''relation_type'' (relationTypeValue g0) k \<noteq> tracked_of ''relation_type'' (relationTypeValue g) k))"
    using c3 e3 ok0 by (simp add: relationTypeValue_def)
  have k4: "(\<forall>k. item_ok ''edge'' (edgeValue g) k) \<and>
      fs_fingerprint s XOR category_digest ''edge'' (edgeValue g0) (fmdom' (g_Edges g0)) =
      fs_fingerprint s3 XOR category_digest ''edge'' (edgeValue g) (fmdom' (g_Edges g)) \<and>
      (fs_changed s \<longleftrightarrow> fs_changed s3 \<or> (\<exists>k. tracked_of ''edge'' (edgeValue g0) k \<noteq> tracked_of ''edge'' (edgeValue g) k))"
    using c4 e(2) ok0 by (simp add: edgeValue_def)
  have xor_move: "a = b XOR c XOR d" if "a XOR d = b XOR c" for a b c d :: digest
    using arg_cong [OF that, of "\<lambda>x. x XOR d"] by (simp add: xor.assoc)
  have "fs_fingerprint s = category_digest ''ci_type'' (ciTypeValue g) (fmdom' (g_CITypes g)) XOR
          category_digest ''entity'' (entityValue g) (fmdom' (g_Entities g)) XOR
          category_digest ''relation_type'' (relationTypeValue g) (fmdom' (g_RelationTypes g)) XOR
          category_digest ''edge'' (edgeValue g) (fmdom' (g_Edges g))"
    using k4 [THEN conjunct2, THEN conjunct1, THEN xor_move] k3 [THEN conjunct2, THEN conjunct1, THEN xor_move]
      k2 [THEN conjunct2, THEN conjunct1, THEN xor_move] k1 [THEN conjunct2, THEN conjunct1, THEN xor_move]
      ok0 [THEN conjunct2, THEN conjunct2, THEN conjunct2, THEN conjunct2]
    by (simp add: xor.assoc xor.commute xor.left_commute)
  moreover have same: "g_CITypes g' = g_CITypes g" "g_Entities g' = g_Entities g" "g_RelationTypes g' = g_RelationTypes g"
    "g_Edges g' = g_Edges g" "g_contentFingerprint g' = fs_fingerprint s"
    by (simp_all add: g')
  ultimately have "computeFingerprint g' = Inr (g_contentFingerprint g')"
    unfolding computeFingerprint_iff values_cong(1) [OF same(1)] values_cong(2) [OF same(2)] values_cong(3) [OF same(3)] values_cong(4) [OF same(4)] same
    using k1 [THEN conjunct1] k2 [THEN conjunct1] k3 [THEN conjunct1] k4 [THEN conjunct1] by blast
  moreover have "fs_changed s \<longleftrightarrow> content_changed g0 g"
    using k1 k2 k3 k4 by (auto simp: content_changed_def)
  ultimately show ?thesis by (simp add: g' r)
qed

section \<open>The refreshed hash cache is the rebuilt one\<close>

text \<open>
  A cache holds the entries \<open>F\<close> when every entry sits in the block of its shard and the byte count is
  the sum over all entries; outside the blocks \<open>D\<close> under work no block is empty or has a stale digest.
\<close>

type_synonym hash_entries = "nat \<times> string \<Rightarrow> logicalHashEntry option"

definition entry_bytes :: "logicalHashEntry option \<Rightarrow> int" where
  "entry_bytes e = (case e of None \<Rightarrow> 0 | Some entry \<Rightarrow> lhe_bytes entry)"

definition total_bytes :: "hash_entries \<Rightarrow> int" where
  "total_bytes F = (\<Sum>p | F p \<noteq> None. entry_bytes (F p))"

definition block_entries :: "logicalHashCache \<Rightarrow> nat \<times> 8 word \<Rightarrow> (string, logicalHashEntry) fmap" where
  "block_entries cache index = lhb_entries (mget_or empty_block (lhc_categories cache) index)"

definition holds_entries :: "logicalHashCache \<Rightarrow> hash_entries \<Rightarrow> bool" where
  "holds_entries cache F \<longleftrightarrow> finite {p. F p \<noteq> None} \<and> lhc_logicalBytes cache = total_bytes F \<and>
     (\<forall>category shard key. mget (block_entries cache (category, shard)) key =
        (if logicalHashShard key = shard then F (category, key) else None))"

definition clean_outside :: "(nat \<times> 8 word) set \<Rightarrow> logicalHashCache \<Rightarrow> bool" where
  "clean_outside D cache \<longleftrightarrow>
     (\<forall>index block. index \<notin> D \<longrightarrow> mget (lhc_categories cache) index = Some block \<longrightarrow>
        lhb_entries block \<noteq> fmempty \<and> rehash block = block)"

lemma total_bytes_update:
  assumes "finite {p. F p \<noteq> None}"
  shows "total_bytes (F(p := e)) = total_bytes F - entry_bytes (F p) + entry_bytes e"
proof -
  let ?S = "insert p {p. F p \<noteq> None}"
  have all: "total_bytes F' = (\<Sum>q \<in> ?S. entry_bytes (F' q))" if "\<And>q. F' q \<noteq> None \<Longrightarrow> q \<in> ?S" for F'
    unfolding total_bytes_def using that assms by (intro sum.mono_neutral_left) (auto simp: entry_bytes_def)
  have "total_bytes F' = entry_bytes (F' p) + (\<Sum>q \<in> ?S - {p}. entry_bytes (F' q))"
    if "\<And>q. F' q \<noteq> None \<Longrightarrow> q \<in> ?S" for F'
  proof -
    have "total_bytes F' = (\<Sum>q \<in> ?S. entry_bytes (F' q))" by (rule all [OF that])
    also have "\<dots> = entry_bytes (F' p) + (\<Sum>q \<in> ?S - {p}. entry_bytes (F' q))" using assms by (intro sum.remove) auto
    finally show ?thesis .
  qed
  from this [of F] this [of "F(p := e)"] show ?thesis by (auto split: if_splits)
qed

lemma holds_entries_put:
  assumes "holds_entries cache F" and "index = (category, logicalHashShard key)"
    and "block = mget_or empty_block (lhc_categories cache) index"
    and "\<And>k. mget ents k = (if k = key then e else mget (lhb_entries block) k)"
  shows "holds_entries (cache\<lparr>lhc_categories := fmupd index (block\<lparr>lhb_entries := ents\<rparr>) (lhc_categories cache),
            lhc_logicalBytes := lhc_logicalBytes cache - entry_bytes (F (category, key)) + entry_bytes e\<rparr>)
           (F((category, key) := e))"
proof -
  have "{p. (F((category, key) := e)) p \<noteq> None} \<subseteq> insert (category, key) {p. F p \<noteq> None}" by auto
  then have "finite {p. (F((category, key) := e)) p \<noteq> None}"
    using assms(1) unfolding holds_entries_def by (blast intro: finite_subset)
  with assms total_bytes_update [of F "(category, key)" e] show ?thesis
    by (auto simp: holds_entries_def block_entries_def)
qed

definition hash_entry :: "Graph \<Rightarrow> nat \<Rightarrow> string \<Rightarrow> logicalHashEntry option" where
  "hash_entry g category key =
     (case logicalHashValue g category key of
        None \<Rightarrow> None
      | Some value \<Rightarrow> (case hashLogicalEntry category key value of Inl _ \<Rightarrow> None | Inr entry \<Rightarrow> Some entry))"

lemma refresh_step_correct:
  assumes "holds_entries cache F" and "clean_outside D cache" and "refresh_step g category cache key = Inr cache'"
  shows "holds_entries cache' (F((category, key) := hash_entry g category key)) \<and>
         clean_outside (insert (category, logicalHashShard key) D) cache'"
proof -
  let ?index = "(category, logicalHashShard key)"
  let ?block = "mget_or empty_block (lhc_categories cache) ?index"
  have b: "entry_bytes (mget (lhb_entries ?block) key) = entry_bytes (F (category, key))"
    using assms(1) by (simp add: holds_entries_def block_entries_def)
  obtain ents where c: "cache' = cache\<lparr>lhc_categories := fmupd ?index (?block\<lparr>lhb_entries := ents\<rparr>) (lhc_categories cache),
      lhc_logicalBytes := lhc_logicalBytes cache - entry_bytes (F (category, key)) + entry_bytes (hash_entry g category key)\<rparr>"
    and ents: "\<And>k. mget ents k = (if k = key then hash_entry g category key else mget (lhb_entries ?block) k)"
    using assms(3) b [symmetric]
    by (auto simp: refresh_step_def Let_def hash_entry_def entry_bytes_def split: option.splits)
  show ?thesis
    using holds_entries_put [OF assms(1) refl refl ents] assms(2) unfolding c by (auto simp: clean_outside_def)
qed

lemma hashCache_add_correct:
  assumes "holds_entries cache F" and "F (category, key) = None" and "logicalHashValue g category key \<noteq> None"
    and "hashCache_add g category cache key = Inr cache'"
  shows "holds_entries cache' (F((category, key) := hash_entry g category key)) \<and> hash_entry g category key \<noteq> None"
proof -
  from assms(3,4) obtain entry where e: "hash_entry g category key = Some entry"
    and c: "cache' = cache\<lparr>lhc_categories := fmupd (category, logicalHashShard key)
       (mget_or empty_block (lhc_categories cache) (category, logicalHashShard key)
          \<lparr>lhb_entries := fmupd key entry (lhb_entries (mget_or empty_block (lhc_categories cache) (category, logicalHashShard key)))\<rparr>)
       (lhc_categories cache), lhc_logicalBytes := lhc_logicalBytes cache + lhe_bytes entry\<rparr>"
    by (auto simp: hashCache_add_def hash_entry_def Let_def)
  show ?thesis
    using holds_entries_put [OF assms(1) refl refl, of "fmupd key entry (lhb_entries (mget_or empty_block (lhc_categories cache) (category, logicalHashShard key)))"
        key "Some entry" category] assms(2)
    unfolding c e by (simp add: entry_bytes_def)
qed

lemma rehash_twice [simp]: "rehash (rehash block) = rehash block"
  by (simp add: rehash_def)

lemma entries_rehash [simp]: "lhb_entries (rehash block) = lhb_entries block"
  by (simp add: rehash_def)

lemma block_entries_rehash:
  "block_entries (cache\<lparr>lhc_categories := fmmap rehash (lhc_categories cache)\<rparr>) index = block_entries cache index"
  by (simp add: block_entries_def mget_or_def split: option.splits)

lemma block_entries_refresh:
  "block_entries (refresh_block category shard cache) index = block_entries cache index"
  by (auto simp: block_entries_def refresh_block_def mget_or_def empty_block_def split: option.splits)

lemma refresh_block_bytes: "lhc_logicalBytes (refresh_block category shard cache) = lhc_logicalBytes cache"
  by (simp add: refresh_block_def split: option.splits)

lemma refresh_block_correct:
  assumes "holds_entries cache F" and "clean_outside D cache"
  shows "holds_entries (refresh_block category shard cache) F \<and> clean_outside (D - {(category, shard)}) (refresh_block category shard cache)"
proof
  show "holds_entries (refresh_block category shard cache) F"
    using assms(1) by (simp add: holds_entries_def block_entries_refresh refresh_block_bytes)
  show "clean_outside (D - {(category, shard)}) (refresh_block category shard cache)"
    using assms(2) by (auto simp: clean_outside_def refresh_block_def split: option.splits if_splits)
qed

text \<open>The entries of a whole graph, and that they determine the blocks.\<close>

definition graph_entries :: "Graph \<Rightarrow> hash_entries" where
  "graph_entries g = (\<lambda>(category, key). if category < 4 then hash_entry g category key else None)"

definition hash_cache_ok :: "Graph \<Rightarrow> logicalHashCache \<Rightarrow> bool" where
  "hash_cache_ok g cache \<longleftrightarrow> holds_entries cache (graph_entries g) \<and> clean_outside {} cache"

lemma hash_cache_unique:
  assumes "hash_cache_ok g a" and "hash_cache_ok g b"
  shows "lhc_categories a = lhc_categories b \<and> lhc_logicalBytes a = lhc_logicalBytes b"
proof
  have "block_entries a index = block_entries b index" for index
    using assms by (cases index) (auto simp: hash_cache_ok_def holds_entries_def intro!: fmap_ext)
  moreover have "mget (lhc_categories c) index =
      (if block_entries c index = fmempty then None else Some (rehash \<lparr>lhb_entries = block_entries c index, lhb_digest = 0\<rparr>))"
    if "hash_cache_ok g c" for c index
  proof (cases "mget (lhc_categories c) index")
    case None
    then show ?thesis by (simp add: block_entries_def mget_or_def empty_block_def)
  next
    case (Some block)
    moreover have "lhb_entries block \<noteq> fmempty" "rehash block = block"
      using that Some by (cases index; simp add: hash_cache_ok_def clean_outside_def)+
    moreover have "rehash block = rehash \<lparr>lhb_entries = lhb_entries block, lhb_digest = 0\<rparr>" by (cases block) (simp add: rehash_def)
    ultimately show ?thesis by (simp add: block_entries_def mget_or_def)
  qed
  ultimately show "lhc_categories a = lhc_categories b"
    using assms by (intro fmap_ext) simp
  show "lhc_logicalBytes a = lhc_logicalBytes b"
    using assms by (simp add: hash_cache_ok_def holds_entries_def)
qed

definition entries_upto :: "Graph \<Rightarrow> nat \<Rightarrow> string set \<Rightarrow> hash_entries" where
  "entries_upto g category keys =
     (\<lambda>(c, key). if c < category \<or> c = category \<and> key \<in> keys then hash_entry g c key else None)"

lemma set_categoryKeys: "set (categoryKeys g category) = {key. logicalHashValue g category key \<noteq> None}"
  by (auto simp: categoryKeys_def logicalHashValue_def ciTypeValue_def entityValue_def relationTypeValue_def edgeValue_def fmlookup_dom'_iff)

definition blocks_nonempty :: "logicalHashCache \<Rightarrow> bool" where
  "blocks_nonempty cache \<longleftrightarrow> (\<forall>index block. mget (lhc_categories cache) index = Some block \<longrightarrow> lhb_entries block \<noteq> fmempty)"

lemma hashCache_add_nonempty:
  "hashCache_add g category cache key = Inr cache' \<Longrightarrow> blocks_nonempty cache \<Longrightarrow> blocks_nonempty cache'"
  by (auto simp: hashCache_add_def blocks_nonempty_def Let_def fmupd_nonempty split: if_splits)

lemma build_category:
  assumes "foldM (hashCache_add g category) cache (categoryKeys g category) = Inr cache'"
    and "holds_entries cache (entries_upto g category {}) \<and> blocks_nonempty cache"
  shows "holds_entries cache' (entries_upto g (Suc category) {}) \<and> blocks_nonempty cache'"
proof
  show "blocks_nonempty cache'"
    using foldM_invariant [OF assms(1), of blocks_nonempty] assms(2) hashCache_add_nonempty by blast
  have "holds_entries cache' (entries_upto g category (set (categoryKeys g category)))"
  proof (rule foldM_processed_distinct [OF assms(1), where P = "\<lambda>ks c. holds_entries c (entries_upto g category ks)"])
    show "distinct (categoryKeys g category)" by (simp add: categoryKeys_def)
    show "holds_entries cache (entries_upto g category {})" using assms(2) by simp
    fix ks c key c'
    assume k: "key \<in> set (categoryKeys g category)" "key \<notin> ks"
      and h: "holds_entries c (entries_upto g category ks)" and a: "hashCache_add g category c key = Inr c'"
    have "(entries_upto g category ks) ((category, key) := hash_entry g category key) = entries_upto g category (insert key ks)"
      by (auto simp: entries_upto_def)
    with hashCache_add_correct [OF h _ _ a] k show "holds_entries c' (entries_upto g category (insert key ks))"
      by (simp add: entries_upto_def set_categoryKeys)
  qed
  moreover have "entries_upto g category (set (categoryKeys g category)) = entries_upto g (Suc category) {}"
    by (auto simp: entries_upto_def set_categoryKeys hash_entry_def less_Suc_eq intro!: ext split: option.splits)
  ultimately show "holds_entries cache' (entries_upto g (Suc category) {})" by simp
qed

lemma build_correct:
  assumes "buildLogicalHashCache g = Inr cache"
  shows "hash_cache_ok g cache"
proof -
  from assms obtain c1 c2 c3 c4 where
    "foldM (hashCache_add g 0) zero_cache (categoryKeys g 0) = Inr c1"
    "foldM (hashCache_add g 1) c1 (categoryKeys g 1) = Inr c2"
    "foldM (hashCache_add g 2) c2 (categoryKeys g 2) = Inr c3"
    "foldM (hashCache_add g 3) c3 (categoryKeys g 3) = Inr c4"
    and c: "cache = c4\<lparr>lhc_categories := fmmap rehash (lhc_categories c4)\<rparr>"
    by (auto simp: buildLogicalHashCache_def)
  moreover have "holds_entries zero_cache (entries_upto g 0 {}) \<and> blocks_nonempty zero_cache"
    by (simp add: blocks_nonempty_def holds_entries_def entries_upto_def zero_cache_def block_entries_def total_bytes_def mget_or_def empty_block_def case_prod_unfold)
  ultimately have "holds_entries c4 (entries_upto g (Suc (Suc (Suc (Suc 0)))) {}) \<and> blocks_nonempty c4"
    by (metis One_nat_def Suc_1 build_category numeral_3_eq_3)
  moreover have "entries_upto g (Suc (Suc (Suc (Suc 0)))) {} = graph_entries g"
    by (auto simp: entries_upto_def graph_entries_def intro!: ext)
  ultimately have h: "holds_entries c4 (graph_entries g)" "blocks_nonempty c4" by simp_all
  have "holds_entries cache (graph_entries g)"
    using h by (simp add: c holds_entries_def block_entries_rehash)
  moreover have "clean_outside {} cache"
    using h(2) by (auto simp: c clean_outside_def blocks_nonempty_def)
  ultimately show ?thesis by (simp add: hash_cache_ok_def)
qed

text \<open>Refreshing the touched keys of one category.\<close>

lemma refresh_category_correct:
  assumes "refresh_category g t cache category = Inr cache'"
    and "holds_entries cache F" and "clean_outside {} cache"
  shows "holds_entries cache' (\<lambda>(c, key). if c = category \<and> key \<in> set (touchedKeys t category) then hash_entry g c key else F (c, key)) \<and>
         clean_outside {} cache'"
proof -
  let ?keys = "touchedKeys t category"
  let ?F = "\<lambda>ks (c, key). if c = category \<and> key \<in> ks then hash_entry g c key else F (c, key)"
  let ?D = "\<lambda>ks. (\<lambda>key. (category, logicalHashShard key)) ` ks"
  from assms(1) obtain c1 where c1: "foldM (refresh_step g category) cache ?keys = Inr c1"
    and c': "cache' = fold (refresh_block category) (remdups (map logicalHashShard ?keys)) c1"
    by (auto simp: refresh_category_def)
  have loop: "holds_entries c1 (?F (set ?keys)) \<and> clean_outside (?D (set ?keys)) c1"
  proof (rule foldM_processed [OF c1, where P = "\<lambda>ks c. holds_entries c (?F ks) \<and> clean_outside (?D ks) c"])
    show "holds_entries cache (?F {}) \<and> clean_outside (?D {}) cache" using assms(2,3) by simp
    fix ks c key c2
    assume h: "holds_entries c (?F ks) \<and> clean_outside (?D ks) c" and s: "refresh_step g category c key = Inr c2"
    have "(?F ks) ((category, key) := hash_entry g category key) = ?F (insert key ks)" by auto
    with refresh_step_correct [OF h [THEN conjunct1] h [THEN conjunct2] s]
    show "holds_entries c2 (?F (insert key ks)) \<and> clean_outside (?D (insert key ks)) c2" by simp
  qed
  have "holds_entries cache' (?F (set ?keys)) \<and> clean_outside (?D (set ?keys) - {category} \<times> set (remdups (map logicalHashShard ?keys))) cache'"
    unfolding c'
  proof (rule fold_processed [where P = "\<lambda>shards c. holds_entries c (?F (set ?keys)) \<and> clean_outside (?D (set ?keys) - {category} \<times> shards) c"])
    show "holds_entries c1 (?F (set ?keys)) \<and> clean_outside (?D (set ?keys) - {category} \<times> {}) c1" using loop by simp
    fix ks c shard
    assume h: "holds_entries c (?F (set ?keys)) \<and> clean_outside (?D (set ?keys) - {category} \<times> ks) c"
    have "?D (set ?keys) - {category} \<times> insert shard ks = ?D (set ?keys) - {category} \<times> ks - {(category, shard)}" by auto
    with refresh_block_correct [OF h [THEN conjunct1] h [THEN conjunct2], of category shard]
    show "holds_entries (refresh_block category shard c) (?F (set ?keys)) \<and>
          clean_outside (?D (set ?keys) - {category} \<times> insert shard ks) (refresh_block category shard c)" by simp
  qed simp
  moreover have empty_rest: "?D (set ?keys) - {category} \<times> set (remdups (map logicalHashShard ?keys)) = {}" by auto
  ultimately show ?thesis unfolding empty_rest by simp
qed

lemma refresh_correct:
  assumes "refreshLogicalHashCache t g = Inr g'" and "g_logicalHashCache g = Some cache" and "hash_cache_ok g0 cache"
    and "tracks g0 t g" and "tr_err t = None"
  shows "\<exists>cache'. g' = g\<lparr>g_logicalHashCache := Some cache'\<rparr> \<and> hash_cache_ok g cache' \<and> \<not> lhc_finalReady cache'"
proof -
  from assms(1,2) obtain c1 c2 c3 c4 where
    r: "refresh_category g t cache 0 = Inr c1" "refresh_category g t c1 1 = Inr c2"
      "refresh_category g t c2 2 = Inr c3" "refresh_category g t c3 3 = Inr c4"
    and g': "g' = g\<lparr>g_logicalHashCache := Some (c4\<lparr>lhc_finalReady := False\<rparr>)\<rparr>"
    by (auto simp: refreshLogicalHashCache_def)
  let ?F = "\<lambda>cat F (c, key). if c = cat \<and> key \<in> set (touchedKeys t cat) then hash_entry g c key else F (c, key)"
  have "holds_entries c4 (?F 3 (?F 2 (?F 1 (?F 0 (graph_entries g0))))) \<and> clean_outside {} c4"
  proof -
    note step = refresh_category_correct [THEN conjunct1] refresh_category_correct [THEN conjunct2]
    have c0: "holds_entries cache (graph_entries g0)" "clean_outside {} cache" using assms(3) by (simp_all add: hash_cache_ok_def)
    note s1 = step [OF r(1) c0]
    note s2 = step [OF r(2) s1]
    note s3 = step [OF r(3) s2]
    show ?thesis using refresh_category_correct [OF r(4) s3] by simp
  qed
  moreover have "?F 3 (?F 2 (?F 1 (?F 0 (graph_entries g0)))) = graph_entries g"
  proof
    fix p :: "nat \<times> string"
    obtain c key where p: "p = (c, key)" by (cases p)
    have same: "logicalHashValue g c key = logicalHashValue g0 c key" if "key \<notin> set (touchedKeys t c)"
      using assms(4,5) that
      by (auto simp: tracks_def tracks_map_def touchedKeys_def logicalHashValue_def ciTypeValue_def entityValue_def relationTypeValue_def
          edgeValue_def fmdom'_notD split: if_splits)
    have "c < 4 \<longleftrightarrow> c = 0 \<or> c = 1 \<or> c = 2 \<or> c = 3" by auto
    with same show "?F 3 (?F 2 (?F 1 (?F 0 (graph_entries g0)))) p = graph_entries g p"
      by (auto simp: p graph_entries_def hash_entry_def)
  qed
  ultimately have "hash_cache_ok g (c4\<lparr>lhc_finalReady := False\<rparr>)"
    by (simp add: hash_cache_ok_def holds_entries_def block_entries_def clean_outside_def)
  with g' show ?thesis by auto
qed

lemma finalDigest_cong: "lhc_categories a = lhc_categories b \<Longrightarrow> finalDigest a = finalDigest b"
  by (simp add: finalDigest_def)

lemma hash_cache_ok_cong:
  "g_CITypes g' = g_CITypes g \<Longrightarrow> g_Entities g' = g_Entities g \<Longrightarrow> g_RelationTypes g' = g_RelationTypes g \<Longrightarrow> g_Edges g' = g_Edges g \<Longrightarrow>
   hash_cache_ok g' cache = hash_cache_ok g cache"
proof -
  assume "g_CITypes g' = g_CITypes g" "g_Entities g' = g_Entities g" "g_RelationTypes g' = g_RelationTypes g" "g_Edges g' = g_Edges g"
  then have "hash_entry g' = hash_entry g"
    by (intro ext) (simp add: hash_entry_def logicalHashValue_def values_cong [of g' g])
  then have "graph_entries g' = graph_entries g" unfolding graph_entries_def by (rule arg_cong)
  then show ?thesis by (simp add: hash_cache_ok_def)
qed

text \<open>
  The cache of a graph whose content changed is exactly the cache a rebuild gives; the final digest is
  recomputed on the next request.
\<close>

lemma finish_hash_cache:
  assumes fin: "finish t g report = Inr (g', report')" and ch: "ar_Changed report'" and tr: "tracks g0 t g"
    and cache: "g_logicalHashCache g = Some cache" "hash_cache_ok g0 cache"
  shows "\<exists>cache'. g_logicalHashCache g' = Some cache' \<and> hash_cache_ok g' cache' \<and> \<not> lhc_finalReady cache'"
proof -
  define s where "s = finish_loop g t \<lparr>fs_fingerprint = g_contentFingerprint g, fs_changed = False, fs_err = None\<rparr>"
  have e: "tr_err t = None" using fin by (auto simp: finish_def split: option.splits)
  have r: "refreshLogicalHashCache t (g\<lparr>g_contentFingerprint := fs_fingerprint s\<rparr>) = Inr g'"
    using fin ch by (auto simp: finish_def Let_def s_def [symmetric] split: option.splits if_splits)
  have "tracks g0 t (g\<lparr>g_contentFingerprint := fs_fingerprint s\<rparr>)" using tr by (simp add: tracks_def)
  from refresh_correct [OF r _ cache(2) this e] cache(1) obtain cache' where
    c: "g' = g\<lparr>g_contentFingerprint := fs_fingerprint s, g_logicalHashCache := Some cache'\<rparr>"
      "hash_cache_ok (g\<lparr>g_contentFingerprint := fs_fingerprint s\<rparr>) cache'" "\<not> lhc_finalReady cache'" by auto
  have "hash_cache_ok g' cache' = hash_cache_ok (g\<lparr>g_contentFingerprint := fs_fingerprint s\<rparr>) cache'"
    by (rule hash_cache_ok_cong) (simp_all add: c(1))
  with c show ?thesis by simp
qed

end
