(* ===== verification/ReadOrders.thy ===== *)
theory ReadOrders
  imports GraphIndex
begin

text \<open>
  The cached read orders of a graph: sorted identifiers per kind, per field value and per field, and
  sorted neighbour references per entity and direction. The cache invariant says that every cached list
  is the order it stands for and that the accounted bytes are those of the cached neighbour lists; each
  index operation invalidates enough to keep it.
\<close>

section \<open>Cached read orders\<close>

definition members :: "(string, Entity) fmap \<Rightarrow> string \<Rightarrow> string set" where
  "members E k = {i. \<exists>e. mget E i = Some e \<and> (k = [] \<or> ent_Kind e = k)}"

definition entity_order_ok :: "Graph \<Rightarrow> (string, Entity) fmap \<Rightarrow> bool" where
  "entity_order_ok g E \<longleftrightarrow>
     (\<forall>k ids. mget (g_entityOrder g) k = Some ids \<longrightarrow> ids = sortedKeys (members E k))"

definition field_order_ok :: "Graph \<Rightarrow> bool" where
  "field_order_ok g \<longleftrightarrow>
     (\<forall>k f v ids. mget (g_fieldIndexOrder g) (k, f, v) = Some ids \<longrightarrow> ids = sortedKeys (bucket (fieldValues g k f) v)) \<and>
     (\<forall>k f order. mget (g_fieldValueOrder g) (k, f) = Some order \<longrightarrow> order = orderFieldValues (skeys (fieldValues g k f)))"

text \<open>
  The references from an entity to its neighbours; a cached list holds them in ascending order, for
  each of the directions a caller may ask for. The bytes accounted are those of the cached lists.
\<close>

definition is_ref :: "string \<Rightarrow> string \<Rightarrow> neighborRef \<Rightarrow> Edge \<Rightarrow> bool" where
  "is_ref i dir r e \<longleftrightarrow>
     dir \<in> {''out'', ''both''} \<and> edge_From e = i \<and> nr_entityID r = edge_To e \<and> nr_direction r = ''out'' \<or>
     dir \<in> {''in'', ''both''} \<and> edge_To e = i \<and> nr_entityID r = edge_From e \<and> nr_direction r = ''in''"

definition neighborRefs :: "(string, Edge) fmap \<Rightarrow> string \<Rightarrow> string \<Rightarrow> neighborRef set" where
  "neighborRefs D i dir = {r. \<exists>e. mget D (nr_edgeID r) = Some e \<and> is_ref i dir r e}"

definition ref_key :: "neighborRef \<Rightarrow> string \<times> string \<times> string" where
  "ref_key r = (nr_edgeID r, nr_entityID r, nr_direction r)"

definition is_ref_order :: "neighborRef list \<Rightarrow> neighborRef set \<Rightarrow> bool" where
  "is_ref_order refs S \<longleftrightarrow> set refs = S \<and> distinct refs \<and> sorted (map ref_key refs)"

definition neighbor_order_ok :: "Graph \<Rightarrow> (string, Edge) fmap \<Rightarrow> bool" where
  "neighbor_order_ok g D \<longleftrightarrow>
     (\<forall>i dir refs. dir \<in> {''out'', ''in'', ''both''} \<longrightarrow> mget (g_neighborOrder g) (neighborKey i dir) = Some refs \<longrightarrow>
        is_ref_order refs (neighborRefs D i dir))"

definition neighbor_bytes :: "(string, neighborRef list) fmap \<Rightarrow> int" where
  "neighbor_bytes m = (\<Sum>k \<in> fmdom' m. int (length (the (mget m k))) * 48)"

subsection \<open>Entity orders\<close>

lemma entity_order_ok_cong: "g_entityOrder g' = g_entityOrder g \<Longrightarrow> entity_order_ok g' E = entity_order_ok g E"
  by (simp add: entity_order_ok_def)

lemma addEntity_order_ok:
  assumes "entity_order_ok g E" and "mget E i = None"
  shows "entity_order_ok (addEntityToIndexes i e g) (fmupd i e E)"
proof -
  have "members (fmupd i e E) k = members E k"
    if "k \<noteq> []" "k \<noteq> ent_Kind e" for k using that assms(2) by (auto simp: members_def)
  with assms(1) show ?thesis by (auto simp: entity_order_ok_def)
qed

lemma removeEntity_order_ok:
  assumes "entity_order_ok g E" and "mget E i = Some e"
  shows "entity_order_ok (removeEntityFromIndexes i e g) (fmdrop i E)"
proof -
  have "members (fmdrop i E) k = members E k"
    if "k \<noteq> []" "k \<noteq> ent_Kind e" for k using that assms(2) by (auto simp: members_def)
  with assms(1) show ?thesis by (auto simp: entity_order_ok_def)
qed

lemma updateEntity_order_ok:
  assumes "entity_order_ok g E" and b: "mget E i = Some b"
  shows "entity_order_ok (updateEntityIndexes i b a g) (fmupd i a E)"
proof (cases "ent_Kind b = ent_Kind a")
  case False
  then have "updateEntityIndexes i b a g = addEntityToIndexes i a (removeEntityFromIndexes i b g)"
    by (simp add: updateEntityIndexes_def)
  moreover have "fmupd i a (fmdrop i E) = fmupd i a E" by (rule fmap_ext) simp
  ultimately show ?thesis using addEntity_order_ok [OF removeEntity_order_ok [OF assms], of i a] by simp
next
  case True
  have "members (fmupd i a E) k = members E k" for k using b True by (auto simp: members_def)
  with assms(1) show ?thesis by (simp add: entity_order_ok_def updateEntityIndexes_effect [OF True])
qed

subsection \<open>Field orders\<close>

lemma skeys_cong: "fmdom' m = fmdom' m' \<Longrightarrow> skeys m = skeys m'"
  by (simp add: skeys_def sorted_list_of_fset.rep_eq fmdom'_alt_def)

lemma fmdom'_idx_add: "bucket m key \<noteq> {} \<Longrightarrow> fmdom' (idx_add key i m) = fmdom' m"
  by (auto simp: idx_add_def bucket_def mget_or_def fmlookup_dom'_iff split: option.splits)

lemma fmdom'_idx_del: "mget (idx_del key i m) key \<noteq> None \<Longrightarrow> fmdom' (idx_del key i m) = fmdom' m"
  by (auto simp: idx_del_def fmlookup_dom'_iff Let_def split: option.splits if_splits)

lemma bucket_idx_other [simp]:
  "v \<noteq> key \<Longrightarrow> bucket (idx_add key i m) v = bucket m v"
  "v \<noteq> key \<Longrightarrow> bucket (idx_del key i m) v = bucket m v"
  by (auto simp: idx_add_def idx_del_def bucket_def mget_or_def Let_def split: option.splits)

lemma addEntityFieldIndex_order:
  "g_fieldIndexOrder (addEntityFieldIndex i k f key g) = fmdrop (k, f, key) (g_fieldIndexOrder g)"
  "g_fieldValueOrder (addEntityFieldIndex i k f key g) =
     (if bucket (fieldValues g k f) key = {} then fmdrop (k, f) (g_fieldValueOrder g) else g_fieldValueOrder g)"
  by (simp_all add: field_op_defs Let_def)

lemma removeEntityFieldIndex_order:
  "g_fieldIndexOrder (removeEntityFieldIndex i k f key g) =
     (if mget (fieldValues g k f) key = None then g_fieldIndexOrder g else fmdrop (k, f, key) (g_fieldIndexOrder g))"
  "g_fieldValueOrder (removeEntityFieldIndex i k f key g) =
     (if mget (fieldValues g k f) key \<noteq> None \<and> mget (idx_del key i (fieldValues g k f)) key = None
      then fmdrop (k, f) (g_fieldValueOrder g) else g_fieldValueOrder g)"
  by (simp_all add: removeEntityFieldIndex_def invalidateFieldValueOrder_def invalidateFieldKeyOrder_def Let_def)
     (simp_all add: putFieldValues_def)

lemma addEntityFieldIndex_order_ok: "field_order_ok g \<Longrightarrow> field_order_ok (addEntityFieldIndex i k f key g)"
  using skeys_cong [OF fmdom'_idx_add, of "fieldValues g k f" key i]
  by (auto simp: field_order_ok_def addEntityFieldIndex_order split: if_splits)

lemma removeEntityFieldIndex_order_ok: "field_order_ok g \<Longrightarrow> field_order_ok (removeEntityFieldIndex i k f key g)"
  using skeys_cong [OF fmdom'_idx_del, of key i "fieldValues g k f"]
  by (auto simp: field_order_ok_def removeEntityFieldIndex_order idx_del_absent split: if_splits)

lemma field_order_ok_cong:
  "g_fieldIndexOrder g' = g_fieldIndexOrder g \<Longrightarrow> g_fieldValueOrder g' = g_fieldValueOrder g \<Longrightarrow>
   g_fieldIndex g' = g_fieldIndex g \<Longrightarrow> field_order_ok g' = field_order_ok g"
  using fieldValues_cong [of g' g] by (simp add: field_order_ok_def)

lemma adjustNonScalarField_order_ok [simp]: "field_order_ok (adjustNonScalarField k f d g) = field_order_ok g"
  by (rule field_order_ok_cong) (simp_all add: adjustNonScalarField_def)

lemma fold_preserves: "(\<And>x s. I s \<Longrightarrow> I (f x s)) \<Longrightarrow> I s \<Longrightarrow> I (fold f xs s)"
  by (induction xs arbitrary: s) auto

lemma field_steps_order_ok:
  "field_order_ok g \<Longrightarrow> field_order_ok (addFieldToIndexes i k fv g)"
  "field_order_ok g \<Longrightarrow> field_order_ok (removeFieldFromIndexes i k fv g)"
  "field_order_ok g \<Longrightarrow> field_order_ok (updateField_before i b a fv g)"
  "field_order_ok g \<Longrightarrow> field_order_ok (updateField_after i b a fv g)"
  by (cases fv; simp add: addFieldToIndexes_def removeFieldFromIndexes_def updateField_before_def updateField_after_def Let_def
        addEntityFieldIndex_order_ok removeEntityFieldIndex_order_ok split: option.split)+

lemma field_order_ok_upd [simp]:
  "field_order_ok (g\<lparr>g_entityOrder := x1\<rparr>) = field_order_ok g" "field_order_ok (g\<lparr>g_kindCounts := x2\<rparr>) = field_order_ok g"
  "field_order_ok (g\<lparr>g_kindEntityIDs := x3\<rparr>) = field_order_ok g" "field_order_ok (g\<lparr>g_entityAliasIndex := x4\<rparr>) = field_order_ok g"
  "field_order_ok (g\<lparr>g_identityIndex := x5\<rparr>) = field_order_ok g" "field_order_ok (g\<lparr>g_Entities := x6\<rparr>) = field_order_ok g"
  by (rule field_order_ok_cong; simp)+

lemma addEntity_field_order_ok: "field_order_ok g \<Longrightarrow> field_order_ok (addEntityToIndexes i e g)"
  unfolding addEntityToIndexes_def Let_def
  by (intro fold_preserves [where I = field_order_ok] field_steps_order_ok)
     (simp_all add: invalidateEntityKindOrder_def addEntityAliasesToIndex_def)

lemma removeEntity_field_order_ok: "field_order_ok g \<Longrightarrow> field_order_ok (removeEntityFromIndexes i e g)"
  unfolding removeEntityFromIndexes_def Let_def
  by (intro fold_preserves [where I = field_order_ok] field_steps_order_ok)
     (simp_all add: invalidateEntityKindOrder_def removeEntityAliasesFromIndex_def)

lemma updateEntity_field_order_ok:
  assumes "field_order_ok g"
  shows "field_order_ok (updateEntityIndexes i b a g)"
proof (cases "ent_Kind b = ent_Kind a")
  case False
  then show ?thesis by (simp add: updateEntityIndexes_def addEntity_field_order_ok removeEntity_field_order_ok assms)
next
  case True
  then show ?thesis
    unfolding updateEntityIndexes_def Let_def using assms
    by (auto intro!: fold_preserves [where I = field_order_ok] field_steps_order_ok
         simp: addEntityAliasesToIndex_def removeEntityAliasesFromIndex_def)
qed

subsection \<open>Neighbour orders\<close>

lemma dropNeighborOrders:
  "g_neighborOrder (fold dropNeighborOrder keys g) = fmdrop_set (set keys) (g_neighborOrder g)"
proof (induction keys arbitrary: g)
  case (Cons key keys)
  have "fmdrop_set (set keys) (fmdrop key m) = fmdrop_set (insert key (set keys)) m" for m :: "(string, neighborRef list) fmap"
    by (rule fmap_ext) simp
  with Cons [of "dropNeighborOrder key g"] show ?case by (simp add: dropNeighborOrder_def)
qed simp

lemma neighbor_bytes_drop:
  "neighbor_bytes (fmdrop key m) = neighbor_bytes m - int (length (mget_or [] m key)) * 48"
proof (cases "mget m key")
  case None
  then have "fmdrop key m = m" by (intro fmap_ext) auto
  with None show ?thesis by (simp add: mget_or_def)
next
  case (Some refs)
  then have k: "key \<in> fmdom' m" by (simp add: fmlookup_dom'_iff)
  have "neighbor_bytes m = int (length refs) * 48 + (\<Sum>k \<in> fmdom' m - {key}. int (length (the (mget m k))) * 48)"
    unfolding neighbor_bytes_def using Some by (subst sum.remove [OF _ k]) simp_all
  moreover have "(\<Sum>k \<in> fmdom' (fmdrop key m). int (length (the (mget (fmdrop key m) k))) * 48) =
                 (\<Sum>k \<in> fmdom' m - {key}. int (length (the (mget m k))) * 48)"
    by (intro sum.cong) auto
  ultimately show ?thesis using Some by (simp add: neighbor_bytes_def mget_or_def)
qed

lemma neighbor_bytes_invalidate:
  "g_neighborOrderBytes g = neighbor_bytes (g_neighborOrder g) \<Longrightarrow>
   g_neighborOrderBytes (invalidateNeighborOrder ids g) = neighbor_bytes (g_neighborOrder (invalidateNeighborOrder ids g))"
  unfolding invalidateNeighborOrder_def
  by (rule fold_preserves [where I = "\<lambda>g. g_neighborOrderBytes g = neighbor_bytes (g_neighborOrder g)"])
     (simp_all add: dropNeighborOrder_def neighbor_bytes_drop)

lemma neighborRefs_other:
  "mget D x = None \<Longrightarrow> edge_From e \<noteq> i \<Longrightarrow> edge_To e \<noteq> i \<Longrightarrow> neighborRefs (fmupd x e D) i dir = neighborRefs D i dir"
  "mget D x = Some e \<Longrightarrow> edge_From e \<noteq> i \<Longrightarrow> edge_To e \<noteq> i \<Longrightarrow> neighborRefs (fmdrop x D) i dir = neighborRefs D i dir"
  by (auto simp: neighborRefs_def is_ref_def split: if_splits)

lemma neighborOrder_edge_ops [simp]:
  "g_neighborOrder (addEdgeToIndexes i e g) = g_neighborOrder (invalidateNeighborOrder [edge_From e, edge_To e] g)"
  "g_neighborOrder (removeEdgeFromIndexes i e g) = g_neighborOrder (invalidateNeighborOrder [edge_From e, edge_To e] g)"
  "g_neighborOrderBytes (addEdgeToIndexes i e g) = g_neighborOrderBytes (invalidateNeighborOrder [edge_From e, edge_To e] g)"
  "g_neighborOrderBytes (removeEdgeFromIndexes i e g) = g_neighborOrderBytes (invalidateNeighborOrder [edge_From e, edge_To e] g)"
  by (simp_all add: addEdgeToIndexes_def removeEdgeFromIndexes_def addEdgeAliasesToIndex_def Let_def)

lemma invalidated_neighbor_ok:
  assumes "neighbor_order_ok g D" and "\<And>i dir. i \<notin> set ids \<Longrightarrow> neighborRefs D' i dir = neighborRefs D i dir"
    and "g_neighborOrder g' = g_neighborOrder (invalidateNeighborOrder ids g)"
  shows "neighbor_order_ok g' D'"
  unfolding neighbor_order_ok_def
proof (intro allI impI)
  fix i dir refs
  assume dir: "dir \<in> {''out'', ''in'', ''both''}" and get: "mget (g_neighborOrder g') (neighborKey i dir) = Some refs"
  let ?keys = "concat (map (\<lambda>id'. map (neighborKey id') [''out'', ''in'', ''both'']) ids)"
  from get have "neighborKey i dir \<notin> set ?keys" and old: "mget (g_neighborOrder g) (neighborKey i dir) = Some refs"
    by (auto simp: assms(3) invalidateNeighborOrder_def dropNeighborOrders split: if_splits)
  with dir have "i \<notin> set ids" by auto
  then have "neighborRefs D' i dir = neighborRefs D i dir" by (rule assms(2))
  with assms(1) old dir show "is_ref_order refs (neighborRefs D' i dir)" unfolding neighbor_order_ok_def by metis
qed

lemma addEdge_neighbor_ok:
  assumes "neighbor_order_ok g D" and "mget D i = None"
  shows "neighbor_order_ok (addEdgeToIndexes i e g) (fmupd i e D)"
  by (rule invalidated_neighbor_ok [OF assms(1), of "[edge_From e, edge_To e]"])
     (use neighborRefs_other(1) [OF assms(2), of e] in auto)

lemma removeEdge_neighbor_ok:
  assumes "neighbor_order_ok g D" and "mget D i = Some e"
  shows "neighbor_order_ok (removeEdgeFromIndexes i e g) (fmdrop i D)"
  by (rule invalidated_neighbor_ok [OF assms(1), of "[edge_From e, edge_To e]"])
     (use neighborRefs_other(2) [OF assms(2)] in auto)

section \<open>All read caches\<close>

definition caches_ok :: "Graph \<Rightarrow> (string, Entity) fmap \<Rightarrow> (string, Edge) fmap \<Rightarrow> bool" where
  "caches_ok g E D \<longleftrightarrow>
     entity_order_ok g E \<and> field_order_ok g \<and> neighbor_order_ok g D \<and>
     g_neighborOrderBytes g = neighbor_bytes (g_neighborOrder g)"

lemma addEntity_caches_ok:
  "caches_ok g E D \<Longrightarrow> mget E i = None \<Longrightarrow> caches_ok (addEntityToIndexes i e g) (fmupd i e E) D"
  by (simp add: caches_ok_def addEntity_order_ok addEntity_field_order_ok removeEntity_field_order_ok updateEntity_field_order_ok neighbor_order_ok_def)

lemma removeEntity_caches_ok:
  "caches_ok g E D \<Longrightarrow> mget E i = Some e \<Longrightarrow> caches_ok (removeEntityFromIndexes i e g) (fmdrop i E) D"
  by (simp add: caches_ok_def removeEntity_order_ok addEntity_field_order_ok removeEntity_field_order_ok updateEntity_field_order_ok neighbor_order_ok_def)

lemma updateEntity_caches_ok:
  "caches_ok g E D \<Longrightarrow> mget E i = Some b \<Longrightarrow> caches_ok (updateEntityIndexes i b a g) (fmupd i a E) D"
  by (simp add: caches_ok_def updateEntity_order_ok addEntity_field_order_ok removeEntity_field_order_ok updateEntity_field_order_ok neighbor_order_ok_def)

lemma edge_ops_other_orders [simp]:
  "entity_order_ok (addEdgeToIndexes i e g) E = entity_order_ok g E"
  "entity_order_ok (removeEdgeFromIndexes i e g) E = entity_order_ok g E"
  "field_order_ok (addEdgeToIndexes i e g) = field_order_ok g"
  "field_order_ok (removeEdgeFromIndexes i e g) = field_order_ok g"
  by (rule entity_order_ok_cong field_order_ok_cong; simp)+

lemma addEdge_caches_ok:
  "caches_ok g E D \<Longrightarrow> mget D i = None \<Longrightarrow> caches_ok (addEdgeToIndexes i e g) E (fmupd i e D)"
  by (simp add: caches_ok_def addEdge_neighbor_ok neighbor_bytes_invalidate)

lemma removeEdge_caches_ok:
  "caches_ok g E D \<Longrightarrow> mget D i = Some e \<Longrightarrow> caches_ok (removeEdgeFromIndexes i e g) E (fmdrop i D)"
  by (simp add: caches_ok_def removeEdge_neighbor_ok neighbor_bytes_invalidate)
end
