(* ===== verification/UniqueValidation.thy ===== *)
theory UniqueValidation
  imports Fingerprint ReadOrders
begin

text \<open>
  Unique fields (\<open>unique_validation.go\<close>) and the check of stored entities against changed types
  (\<open>validateEntitiesAgainstCITypesForKinds\<close> of \<open>schema.go\<close>). A validator answers from the scalar field
  index and from its own index of composite values, keyed by their JSON text; the theorems say that it
  accepts an entity exactly when a scan over all entities of the kind finds no value that is the same.
\<close>

section \<open>The validator\<close>

record uniqueFieldRef =
  ufr_kind :: string
  ufr_field :: string

record uniqueEntityValidator =
  uv_fieldsByKind :: "(string, string list) fmap"
  uv_effective :: spec_cache
  uv_complexKinds :: "string set"
  uv_complexValues :: "(uniqueFieldRef, (string, string) postings) fmap"

definition zero_uniqueEntityValidator :: uniqueEntityValidator where
  "zero_uniqueEntityValidator =
     \<lparr>uv_fieldsByKind = fmempty, uv_effective = fmempty, uv_complexKinds = {}, uv_complexValues = fmempty\<rparr>"

definition complexUniqueKey :: "any \<Rightarrow> string option" where
  "complexUniqueKey value = json_marshal value"

definition uniqueFieldError :: "Entity \<Rightarrow> string \<Rightarrow> error" where
  "uniqueFieldError entity field = EntityError (UniqueFieldViolated (ent_ID entity) field (ent_Kind entity))"

definition prepareKind :: "Graph \<Rightarrow> uniqueEntityValidator \<Rightarrow> string \<Rightarrow> error + uniqueEntityValidator" where
  "prepareKind g v kind =
     (if mget (uv_fieldsByKind v) kind \<noteq> None then Inr v
      else
        rbind (map_sum SchemaError id (effectiveFieldsCached (g_CITypes g) kind (uv_effective v))) (\<lambda>(specs, cache).
        let unique = filter (\<lambda>(field, spec). spec_Unique spec) (entries specs);
            composite = list_ex (\<lambda>(field, spec). spec_Type spec \<in> {''object'', ''array'', ''any''}) unique
        in Inr (v\<lparr>uv_fieldsByKind := fmupd kind (sort (map fst unique)) (uv_fieldsByKind v),
                  uv_effective := cache,
                  uv_complexKinds := (if composite then insert kind (uv_complexKinds v) else uv_complexKinds v)\<rparr>)))"

definition addComplexValue :: "string \<Rightarrow> Entity \<Rightarrow> string \<Rightarrow> uniqueEntityValidator \<Rightarrow> uniqueEntityValidator" where
  "addComplexValue id' entity field v =
     (case mget (ent_Fields entity) field of
        None \<Rightarrow> v
      | Some value \<Rightarrow>
          if ScalarIndexKey value \<noteq> None then v
          else case complexUniqueKey value of
                 None \<Rightarrow> v
               | Some key \<Rightarrow>
                   let ref = \<lparr>ufr_kind = ent_Kind entity, ufr_field = field\<rparr> in
                   v\<lparr>uv_complexValues :=
                       fmupd ref (idx_add key id' (mget_or fmempty (uv_complexValues v) ref)) (uv_complexValues v)\<rparr>)"

definition addComplexValues :: "string \<Rightarrow> Entity \<Rightarrow> uniqueEntityValidator \<Rightarrow> uniqueEntityValidator" where
  "addComplexValues id' entity v =
     fold (addComplexValue id' entity) (mget_or [] (uv_fieldsByKind v) (ent_Kind entity)) v"

definition newUniqueEntityValidator :: "Graph \<Rightarrow> string set \<Rightarrow> error + uniqueEntityValidator" where
  "newUniqueEntityValidator g kinds =
     rbind (foldM (prepareKind g) zero_uniqueEntityValidator (sortedKeys kinds)) (\<lambda>v.
     if uv_complexKinds v = {} then Inr v
     else Inr (fold (\<lambda>(id', entity) v'.
                  if ent_Kind entity \<in> uv_complexKinds v' then addComplexValues id' entity v' else v')
                (entries (g_Entities g)) v))"

definition ensureKind :: "Graph \<Rightarrow> string \<Rightarrow> uniqueEntityValidator \<Rightarrow> error + uniqueEntityValidator" where
  "ensureKind g kind v =
     (if mget (uv_fieldsByKind v) kind \<noteq> None then Inr v
      else
        rbind (prepareKind g v kind) (\<lambda>v'.
        if kind \<notin> uv_complexKinds v' then Inr v'
        else Inr (fold (\<lambda>(id', entity) v''.
                     if ent_Kind entity = kind then addComplexValues id' entity v'' else v'')
                   (entries (g_Entities g)) v')))"

definition conflictsWithAnyEntity :: "Graph \<Rightarrow> Entity \<Rightarrow> string \<Rightarrow> any \<Rightarrow> bool" where
  "conflictsWithAnyEntity g entity field value \<longleftrightarrow>
     list_ex (\<lambda>(id', existing).
        id' \<noteq> ent_ID entity \<and> ent_Kind existing = ent_Kind entity \<and>
        (case mget (ent_Fields existing) field of
           None \<Rightarrow> False
         | Some existingValue \<Rightarrow> fieldValuesEqual existingValue value))
       (entries (g_Entities g))"

definition validateUniqueField :: "Graph \<Rightarrow> uniqueEntityValidator \<Rightarrow> Entity \<Rightarrow> string \<Rightarrow> error + unit" where
  "validateUniqueField g v entity field =
     (case mget (ent_Fields entity) field of
        None \<Rightarrow> Inr ()
      | Some value \<Rightarrow>
          (case ScalarIndexKey value of
             Some key \<Rightarrow>
               if \<exists>id' \<in> bucket (fieldValues g (ent_Kind entity) field) key. id' \<noteq> ent_ID entity
               then Inl (uniqueFieldError entity field) else Inr ()
           | None \<Rightarrow>
               (case complexUniqueKey value of
                  None \<Rightarrow>
                    if conflictsWithAnyEntity g entity field value then Inl (uniqueFieldError entity field) else Inr ()
                | Some key \<Rightarrow>
                    let ref = \<lparr>ufr_kind = ent_Kind entity, ufr_field = field\<rparr> in
                    if \<exists>id' \<in> bucket (mget_or fmempty (uv_complexValues v) ref) key.
                         id' \<noteq> ent_ID entity \<and>
                         (case mget (g_Entities g) id' of
                            None \<Rightarrow> False
                          | Some existing \<Rightarrow>
                              (case mget (ent_Fields existing) field of
                                 None \<Rightarrow> False
                               | Some existingValue \<Rightarrow> fieldValuesEqual existingValue value))
                    then Inl (uniqueFieldError entity field) else Inr ())))"

definition validate :: "Graph \<Rightarrow> Entity \<Rightarrow> uniqueEntityValidator \<Rightarrow> error + uniqueEntityValidator" where
  "validate g entity v =
     rbind (ensureKind g (ent_Kind entity) v) (\<lambda>v'.
     rbind (checkM (validateUniqueField g v' entity) (mget_or [] (uv_fieldsByKind v') (ent_Kind entity))) (\<lambda>_.
     Inr v'))"

definition add :: "Entity \<Rightarrow> uniqueEntityValidator \<Rightarrow> uniqueEntityValidator" where
  "add entity v = addComplexValues (ent_ID entity) entity v"

definition entityMutationKinds :: "Graph \<Rightarrow> Mutations \<Rightarrow> string set" where
  "entityMutationKinds g mutations =
     (let trimmed_kinds = (\<lambda>entities. set (filter (\<lambda>kind. kind \<noteq> []) (map (\<lambda>e. TrimSpace (ent_Kind e)) entities)));
          kind_of = (\<lambda>id'. case mget (g_Entities g) id' of None \<Rightarrow> {} | Some entity \<Rightarrow> {ent_Kind entity})
      in trimmed_kinds (mu_UpsertEntities mutations) \<union>
         \<Union> (set (map (kind_of \<circ> mr_TargetID) (mu_MergeEntities mutations))) \<union>
         \<Union> (set (map (\<lambda>request. kind_of (sr_SourceID request) \<union> trimmed_kinds (sr_Entities request))
                   (mu_SplitEntities mutations))))"

section \<open>Stored entities against changed types\<close>

definition ciTypesEntity_step ::
  "Graph \<Rightarrow> string set \<Rightarrow> spec_cache \<Rightarrow> uniqueEntityValidator \<times> owners \<Rightarrow> Entity \<Rightarrow> error + uniqueEntityValidator \<times> owners" where
  "ciTypesEntity_step g kinds fieldsByKind = (\<lambda>(v, identityOwners) entity.
     if ent_Kind entity \<notin> kinds then Inr (v, identityOwners)
     else
       rbind (map_sum SchemaError id
                (validateEntityFieldsWithSpecs entity (mget_or fmempty fieldsByKind (ent_Kind entity)))) (\<lambda>_.
       rbind (validate g entity v) (\<lambda>v'.
       rbind (map_sum SchemaError id
                (validateCIIdentityOwners (g_CITypes g) (g_legacyIdentity g) entity identityOwners)) (\<lambda>owners'.
       Inr (v', owners')))))"

definition specsForKind_step :: "Graph \<Rightarrow> spec_cache \<Rightarrow> string \<Rightarrow> error + spec_cache" where
  "specsForKind_step g cache kind =
     rbind (map_sum SchemaError id (effectiveFieldsCached (g_CITypes g) kind cache)) (\<lambda>(flds, cache').
     Inr (fmupd kind flds cache'))"

definition validateEntitiesAgainstCITypesForKinds :: "Graph \<Rightarrow> string set option \<Rightarrow> error + unit" where
  "validateEntitiesAgainstCITypesForKinds g kinds0 =
     (let kinds = (case kinds0 of None \<Rightarrow> entityKindSet (g_Entities g) | Some ks \<Rightarrow> ks) in
      rbind (foldM (specsForKind_step g) fmempty (sortedKeys kinds)) (\<lambda>fieldsByKind.
      rbind (newUniqueEntityValidator g kinds) (\<lambda>uniqueValidator.
      rbind (foldM (ciTypesEntity_step g kinds fieldsByKind) (uniqueValidator, fmempty) (map snd (entries (g_Entities g)))) (\<lambda>_.
      Inr ()))))"

section \<open>The validator agrees with a scan\<close>

definition unique_spec :: "(string, CIType) fmap \<Rightarrow> string \<Rightarrow> string \<Rightarrow> bool" where
  "unique_spec ciTypes kind field \<longleftrightarrow>
     (\<exists>specs spec. effective ciTypes kind specs \<and> mget specs field = Some spec \<and> spec_Unique spec)"

text \<open>The reference: no other entity of the kind has an equal value in a unique field, under an equality of values.\<close>

definition unique_in :: "(any \<Rightarrow> any \<Rightarrow> bool) \<Rightarrow> (string, CIType) fmap \<Rightarrow> (string, Entity) fmap \<Rightarrow> Entity \<Rightarrow> bool" where
  "unique_in eq ciTypes entities entity \<longleftrightarrow>
     (\<forall>field value other existing existingValue.
        unique_spec ciTypes (ent_Kind entity) field \<longrightarrow> mget (ent_Fields entity) field = Some value \<longrightarrow>
        mget entities other = Some existing \<longrightarrow> other \<noteq> ent_ID entity \<longrightarrow> ent_Kind existing = ent_Kind entity \<longrightarrow>
        mget (ent_Fields existing) field = Some existingValue \<longrightarrow> \<not> eq existingValue value)"

text \<open>What the composite index of a validator records of an entity.\<close>

definition complex_bucket :: "uniqueEntityValidator \<Rightarrow> string \<Rightarrow> string \<Rightarrow> string \<Rightarrow> string set" where
  "complex_bucket v kind field key =
     bucket (mget_or fmempty (uv_complexValues v) \<lparr>ufr_kind = kind, ufr_field = field\<rparr>) key"

definition recorded :: "uniqueEntityValidator \<Rightarrow> string \<Rightarrow> Entity \<Rightarrow> bool" where
  "recorded v id' entity \<longleftrightarrow>
     (\<forall>field value key. field \<in> set (mget_or [] (uv_fieldsByKind v) (ent_Kind entity)) \<longrightarrow>
        mget (ent_Fields entity) field = Some value \<longrightarrow> ScalarIndexKey value = None \<longrightarrow>
        complexUniqueKey value = Some key \<longrightarrow> id' \<in> complex_bucket v (ent_Kind entity) field key)"

definition fields_ok :: "(string, CIType) fmap \<Rightarrow> uniqueEntityValidator \<Rightarrow> bool" where
  "fields_ok ciTypes v \<longleftrightarrow> sound_cache ciTypes (uv_effective v) \<and>
     (\<forall>kind flds. mget (uv_fieldsByKind v) kind = Some flds \<longrightarrow> (\<forall>field. field \<in> set flds \<longleftrightarrow> unique_spec ciTypes kind field) \<and>
        (\<forall>specs field spec. kind \<notin> uv_complexKinds v \<longrightarrow> effective ciTypes kind specs \<longrightarrow> mget specs field = Some spec \<longrightarrow>
           spec_Unique spec \<longrightarrow> spec_Type spec \<notin> {''object'', ''array'', ''any''}))"

definition validator_ok :: "(string, CIType) fmap \<Rightarrow> (string, Entity) fmap \<Rightarrow> uniqueEntityValidator \<Rightarrow> bool" where
  "validator_ok ciTypes entities v \<longleftrightarrow> fields_ok ciTypes v \<and>
     (\<forall>id' entity. mget entities id' = Some entity \<longrightarrow> recorded v id' entity)"

text \<open>A unique field of a scalar type holds scalars.\<close>

definition typed_entity :: "(string, CIType) fmap \<Rightarrow> Entity \<Rightarrow> bool" where
  "typed_entity ciTypes entity \<longleftrightarrow>
     (\<forall>specs field spec value. effective ciTypes (ent_Kind entity) specs \<longrightarrow> mget specs field = Some spec \<longrightarrow> spec_Unique spec \<longrightarrow>
        spec_Type spec \<notin> {''object'', ''array'', ''any''} \<longrightarrow> mget (ent_Fields entity) field = Some value \<longrightarrow> ScalarIndexKey value \<noteq> None)"

lemma effectiveFieldsCached_sound:
  "effectiveFieldsCached ciTypes kind cache = Inr (specs, cache') \<Longrightarrow> sound_cache ciTypes cache \<Longrightarrow>
   effective ciTypes kind specs \<and> sound_cache ciTypes cache'"
  using effectiveFields_sound by (auto simp: effectiveFieldsCached_def sound_cache_def split: option.splits)

lemma map_sum_eq_Inr [simp]: "map_sum f h m = Inr y \<longleftrightarrow> (\<exists>x. m = Inr x \<and> y = h x)"
  by (cases m) auto

lemma prepareKind_ok:
  assumes "fields_ok (g_CITypes g) v" and "prepareKind g v kind = Inr v'"
  shows "fields_ok (g_CITypes g) v' \<and> mget (uv_fieldsByKind v') kind \<noteq> None \<and>
         uv_complexValues v' = uv_complexValues v \<and>
         (\<forall>k. k \<noteq> kind \<or> mget (uv_fieldsByKind v) kind \<noteq> None \<longrightarrow> mget (uv_fieldsByKind v') k = mget (uv_fieldsByKind v) k) \<and>
         uv_complexKinds v \<subseteq> uv_complexKinds v' \<and> uv_complexKinds v' \<subseteq> insert kind (uv_complexKinds v)"
proof (cases "mget (uv_fieldsByKind v) kind")
  case (Some flds)
  with assms show ?thesis by (auto simp: prepareKind_def)
next
  case None
  with assms(2) obtain specs cache where e: "effectiveFieldsCached (g_CITypes g) kind (uv_effective v) = Inr (specs, cache)"
    and v': "v' = v\<lparr>uv_fieldsByKind := fmupd kind (sort (map fst (filter (\<lambda>(field, spec). spec_Unique spec) (entries specs)))) (uv_fieldsByKind v),
       uv_effective := cache,
       uv_complexKinds := (if list_ex (\<lambda>(field, spec). spec_Type spec \<in> {''object'', ''array'', ''any''}) (filter (\<lambda>(field, spec). spec_Unique spec) (entries specs))
          then insert kind (uv_complexKinds v) else uv_complexKinds v)\<rparr>"
    by (auto simp: prepareKind_def Let_def split: if_splits)
  have s: "effective (g_CITypes g) kind specs" "sound_cache (g_CITypes g) cache"
    using effectiveFieldsCached_sound [OF e] assms(1) by (simp_all add: fields_ok_def)
  have u: "field \<in> set (sort (map fst (filter (\<lambda>(field, spec). spec_Unique spec) (entries specs)))) \<longleftrightarrow> unique_spec (g_CITypes g) kind field" for field
  proof -
    have "field \<in> set (sort (map fst (filter (\<lambda>(field, spec). spec_Unique spec) (entries specs)))) \<longleftrightarrow>
          (\<exists>spec. mget specs field = Some spec \<and> spec_Unique spec)" by force
    then show ?thesis using s(1) effective_unique by (auto simp: unique_spec_def) blast
  qed
  have c: "spec_Type spec \<notin> {''object'', ''array'', ''any''}"
    if "kind \<notin> uv_complexKinds v'" "effective (g_CITypes g) kind specs'" "mget specs' field = Some spec" "spec_Unique spec" for specs' field spec
  proof -
    have "specs' = specs" using that(2) s(1) effective_unique by blast
    then have "(field, spec) \<in> set (filter (\<lambda>(field, spec). spec_Unique spec) (entries specs))" using that by simp
    with that(1) show ?thesis unfolding v' list_ex_iff by (fastforce split: if_splits)
  qed
  have old: "kind' \<noteq> kind \<Longrightarrow> mget (uv_fieldsByKind v) kind' = Some flds \<Longrightarrow> kind' \<notin> uv_complexKinds v' \<Longrightarrow> kind' \<notin> uv_complexKinds v" for kind' flds
    unfolding v' by (auto split: if_splits)
  have "fields_ok (g_CITypes g) v'"
    unfolding fields_ok_def
  proof (intro conjI allI impI)
    show "sound_cache (g_CITypes g) (uv_effective v')" using s(2) by (simp add: v')
    fix kind' flds field assume f: "mget (uv_fieldsByKind v') kind' = Some flds"
    show "field \<in> set flds \<longleftrightarrow> unique_spec (g_CITypes g) kind' field"
      using f u assms(1) by (auto simp: v' fields_ok_def split: if_splits)
    fix specs' spec
    assume t: "kind' \<notin> uv_complexKinds v'" "effective (g_CITypes g) kind' specs'" "mget specs' field = Some spec" "spec_Unique spec"
    show "spec_Type spec \<notin> {''object'', ''array'', ''any''}"
    proof (cases "kind' = kind")
      case True
      with c t show ?thesis by blast
    next
      case False
      with f have "mget (uv_fieldsByKind v) kind' = Some flds" by (simp add: v')
      with assms(1) old False t show ?thesis unfolding fields_ok_def by blast
    qed
  qed
  with None show ?thesis by (auto simp: v')
qed

lemma addComplexValue_frame [simp]:
  "uv_fieldsByKind (addComplexValue i e f v) = uv_fieldsByKind v"
  "uv_effective (addComplexValue i e f v) = uv_effective v"
  "uv_complexKinds (addComplexValue i e f v) = uv_complexKinds v"
  by (auto simp: addComplexValue_def Let_def split: option.splits)

lemma addComplexValue_mono: "complex_bucket v k f' key \<subseteq> complex_bucket (addComplexValue i e f v) k f' key"
  by (auto simp: addComplexValue_def complex_bucket_def idx_add_def bucket_def mget_or_def Let_def split: option.splits)

lemma addComplexValue_records:
  "mget (ent_Fields e) f = Some value \<Longrightarrow> ScalarIndexKey value = None \<Longrightarrow> complexUniqueKey value = Some key \<Longrightarrow>
   i \<in> complex_bucket (addComplexValue i e f v) (ent_Kind e) f key"
  by (simp add: addComplexValue_def complex_bucket_def idx_add_def bucket_def mget_or_def Let_def)

lemma addComplexValue_loop:
  "uv_fieldsByKind (fold (addComplexValue i e) fs v) = uv_fieldsByKind v \<and>
   uv_effective (fold (addComplexValue i e) fs v) = uv_effective v \<and>
   uv_complexKinds (fold (addComplexValue i e) fs v) = uv_complexKinds v \<and>
   complex_bucket v k f' key \<subseteq> complex_bucket (fold (addComplexValue i e) fs v) k f' key \<and>
   (\<forall>f \<in> set fs. \<forall>value key. mget (ent_Fields e) f = Some value \<longrightarrow> ScalarIndexKey value = None \<longrightarrow> complexUniqueKey value = Some key \<longrightarrow>
      i \<in> complex_bucket (fold (addComplexValue i e) fs v) (ent_Kind e) f key)"
proof (induction fs arbitrary: v k f' key)
  case Nil
  then show ?case by simp
next
  case (Cons f fs)
  note IH = Cons.IH [of "addComplexValue i e f v"]
  have "complex_bucket v k f' key \<subseteq> complex_bucket (fold (addComplexValue i e) fs (addComplexValue i e f v)) k f' key" for k f' key
    using IH addComplexValue_mono by blast
  moreover have "i \<in> complex_bucket (fold (addComplexValue i e) fs (addComplexValue i e f v)) (ent_Kind e) f key"
    if "mget (ent_Fields e) f = Some x" "ScalarIndexKey x = None" "complexUniqueKey x = Some key" for x key
    using addComplexValue_records [OF that, of i v] IH [of "ent_Kind e" f key] by blast
  ultimately show ?case using IH by auto
qed

text \<open>Which validators know at least as much as another.\<close>

definition extends_validator :: "uniqueEntityValidator \<Rightarrow> uniqueEntityValidator \<Rightarrow> bool" where
  "extends_validator v v' \<longleftrightarrow>
     uv_fieldsByKind v' = uv_fieldsByKind v \<and> uv_effective v' = uv_effective v \<and> uv_complexKinds v' = uv_complexKinds v \<and>
     (\<forall>k f key. complex_bucket v k f key \<subseteq> complex_bucket v' k f key)"

lemma extends_refl [simp]: "extends_validator v v"
  by (simp add: extends_validator_def)

lemma extends_trans: "extends_validator v v' \<Longrightarrow> extends_validator v' v'' \<Longrightarrow> extends_validator v v''"
  unfolding extends_validator_def by (metis subset_trans)

lemma recorded_extends: "extends_validator v v' \<Longrightarrow> recorded v i e \<Longrightarrow> recorded v' i e"
  unfolding extends_validator_def recorded_def by (metis subsetD)

lemma fields_ok_extends: "extends_validator v v' \<Longrightarrow> fields_ok T v' = fields_ok T v"
  by (simp add: extends_validator_def fields_ok_def)

lemma addComplexValues_ok: "extends_validator v (addComplexValues i e v) \<and> recorded (addComplexValues i e v) i e"
  using addComplexValue_loop [of i e "mget_or [] (uv_fieldsByKind v) (ent_Kind e)" v]
  by (auto simp: addComplexValues_def extends_validator_def recorded_def)

lemma collect_ok:
  "extends_validator v (fold (\<lambda>(i, e) v. if P v e then addComplexValues i e v else v) ies v) \<and>
   ((\<forall>v'. extends_validator v v' \<longrightarrow> P v' = P v) \<longrightarrow>
    (\<forall>(i, e) \<in> set ies. P v e \<longrightarrow> recorded (fold (\<lambda>(i, e) v. if P v e then addComplexValues i e v else v) ies v) i e))"
proof (induction ies arbitrary: v)
  case Nil
  show ?case by (simp only: fold_simps extends_refl list.set(1) ball_empty simp_thms)
next
  case (Cons ie ies)
  obtain i e where ie: "ie = (i, e)" by (cases ie)
  let ?v1 = "if P v e then addComplexValues i e v else v"
  have e1: "extends_validator v ?v1" using addComplexValues_ok by simp
  note IH = Cons.IH [of ?v1]
  show ?case
  proof (intro conjI impI ballI)
    show "extends_validator v (fold (\<lambda>(i, e) v. if P v e then addComplexValues i e v else v) (ie # ies) v)"
      using extends_trans [OF e1 IH [THEN conjunct1]] by (simp add: ie)
    fix p assume st: "\<forall>v'. extends_validator v v' \<longrightarrow> P v' = P v" and p: "p \<in> set (ie # ies)"
    have P1: "P ?v1 = P v" by (rule st [rule_format, OF e1])
    have st1: "\<forall>v'. extends_validator ?v1 v' \<longrightarrow> P v' = P ?v1"
    proof (intro allI impI)
      fix v' assume "extends_validator ?v1 v'"
      with e1 have "extends_validator v v'" by (rule extends_trans)
      from st [rule_format, OF this] show "P v' = P ?v1" unfolding P1 .
    qed
    have rest: "\<forall>(i, e) \<in> set ies. P v e \<longrightarrow> recorded (fold (\<lambda>(i, e) v. if P v e then addComplexValues i e v else v) ies ?v1) i e"
      using IH [THEN conjunct2, THEN mp, OF st1] unfolding P1 .
    have first: "P v e \<longrightarrow> recorded (fold (\<lambda>(i, e) v. if P v e then addComplexValues i e v else v) ies ?v1) i e"
      using addComplexValues_ok [of v i e] recorded_extends [OF IH [THEN conjunct1], of i e] by auto
    show "case p of (i, e) \<Rightarrow> P v e \<longrightarrow> recorded (fold (\<lambda>(i, e) v. if P v e then addComplexValues i e v else v) (ie # ies) v) i e"
      using p rest first unfolding ie by auto
  qed
qed

lemma typed_recorded:
  assumes "fields_ok T v" and "typed_entity T e" and "ent_Kind e \<notin> uv_complexKinds v"
  shows "recorded v i e"
  unfolding recorded_def
proof (intro allI impI)
  fix field val key
  assume f: "field \<in> set (mget_or [] (uv_fieldsByKind v) (ent_Kind e))" and x: "mget (ent_Fields e) field = Some val"
    and s: "ScalarIndexKey val = None"
  from f obtain flds where flds: "mget (uv_fieldsByKind v) (ent_Kind e) = Some flds" "field \<in> set flds"
    by (cases "mget (uv_fieldsByKind v) (ent_Kind e)") (auto simp: mget_or_def)
  with assms(1) obtain specs spec where sp: "effective T (ent_Kind e) specs" "mget specs field = Some spec" "spec_Unique spec"
    unfolding fields_ok_def unique_spec_def by metis
  with assms(1,3) flds(1) have "spec_Type spec \<notin> {''object'', ''array'', ''any''}"
    unfolding fields_ok_def by blast
  with assms(2) sp x s have False unfolding typed_entity_def by blast
  then show "i \<in> complex_bucket v (ent_Kind e) field key" ..
qed

lemma newUniqueEntityValidator_ok:
  assumes "newUniqueEntityValidator g kinds = Inr v" and "finite kinds"
  shows "fields_ok (g_CITypes g) v" and "\<And>k. mget (uv_fieldsByKind v) k \<noteq> None \<longleftrightarrow> k \<in> kinds"
    and "\<And>i e. mget (g_Entities g) i = Some e \<Longrightarrow> typed_entity (g_CITypes g) e \<Longrightarrow> recorded v i e"
proof -
  from assms(1) obtain v0 where v0: "foldM (prepareKind g) zero_uniqueEntityValidator (sortedKeys kinds) = Inr v0"
    and h: "(if uv_complexKinds v0 = {} then Inr v0 else Inr (fold (\<lambda>(id', entity) v'.
                  if ent_Kind entity \<in> uv_complexKinds v' then addComplexValues id' entity v' else v')
                (entries (g_Entities g)) v0)) = (Inr v :: error + uniqueEntityValidator)"
    unfolding newUniqueEntityValidator_def rbind_eq_Inr by blast
  have v: "v = (if uv_complexKinds v0 = {} then v0 else fold (\<lambda>(id', entity) v'.
                  if ent_Kind entity \<in> uv_complexKinds v' then addComplexValues id' entity v' else v')
                (entries (g_Entities g)) v0)"
    using h by (simp split: if_splits)
  have "fields_ok (g_CITypes g) v0 \<and> (\<forall>k. mget (uv_fieldsByKind v0) k \<noteq> None \<longleftrightarrow> k \<in> set (sortedKeys kinds))"
  proof (rule foldM_processed [OF v0, where P = "\<lambda>ks v. fields_ok (g_CITypes g) v \<and> (\<forall>k. mget (uv_fieldsByKind v) k \<noteq> None \<longleftrightarrow> k \<in> ks)"])
    show "fields_ok (g_CITypes g) zero_uniqueEntityValidator \<and> (\<forall>k. mget (uv_fieldsByKind zero_uniqueEntityValidator) k \<noteq> None \<longleftrightarrow> k \<in> {})"
      by (simp add: fields_ok_def zero_uniqueEntityValidator_def sound_cache_def)
    fix ks t kind t'
    assume h: "fields_ok (g_CITypes g) t \<and> (\<forall>k. mget (uv_fieldsByKind t) k \<noteq> None \<longleftrightarrow> k \<in> ks)" and p: "prepareKind g t kind = Inr t'"
    from prepareKind_ok [OF h [THEN conjunct1] p] h
    show "fields_ok (g_CITypes g) t' \<and> (\<forall>k. mget (uv_fieldsByKind t') k \<noteq> None \<longleftrightarrow> k \<in> insert kind ks)"
      by (metis insert_iff)
  qed
  then have f0: "fields_ok (g_CITypes g) v0" "\<And>k. mget (uv_fieldsByKind v0) k \<noteq> None \<longleftrightarrow> k \<in> kinds"
    using assms(2) by (simp_all add: sortedKeys_def)
  note collected = collect_ok [where P = "\<lambda>v e. ent_Kind e \<in> uv_complexKinds v" and ies = "entries (g_Entities g)" and v = v0]
  have ext: "extends_validator v0 v" using collected [THEN conjunct1] unfolding v by simp
  have rec: "recorded v i e" if "mget (g_Entities g) i = Some e" "ent_Kind e \<in> uv_complexKinds v0" for i e
  proof -
    have "\<forall>v'. extends_validator v0 v' \<longrightarrow> (\<lambda>e. ent_Kind e \<in> uv_complexKinds v') = (\<lambda>e. ent_Kind e \<in> uv_complexKinds v0)"
      by (simp add: extends_validator_def)
    from collected [THEN conjunct2, THEN mp, OF this] that show ?thesis unfolding v by force
  qed
  show "fields_ok (g_CITypes g) v" using f0(1) fields_ok_extends [OF ext] by simp
  show "mget (uv_fieldsByKind v) k \<noteq> None \<longleftrightarrow> k \<in> kinds" for k using f0(2) ext by (simp add: extends_validator_def)
  show "recorded v i e" if "mget (g_Entities g) i = Some e" "typed_entity (g_CITypes g) e" for i e
  proof (cases "ent_Kind e \<in> uv_complexKinds v0")
    case True
    with rec that show ?thesis by blast
  next
    case False
    with typed_recorded [OF f0(1) that(2)] recorded_extends [OF ext] show ?thesis by blast
  qed
qed

lemma ensureKind_ok:
  assumes "ensureKind g kind v = Inr v'" and "fields_ok (g_CITypes g) v"
    and "\<And>i e. mget (g_Entities g) i = Some e \<Longrightarrow> recorded v i e"
    and "\<And>i e. mget (g_Entities g) i = Some e \<Longrightarrow> typed_entity (g_CITypes g) e"
  shows "validator_ok (g_CITypes g) (g_Entities g) v' \<and> mget (uv_fieldsByKind v') kind \<noteq> None"
proof (cases "mget (uv_fieldsByKind v) kind")
  case (Some flds)
  with assms show ?thesis by (simp add: ensureKind_def validator_ok_def)
next
  case None
  with assms(1) obtain v1 where p: "prepareKind g v kind = Inr v1"
    and v': "v' = (if kind \<notin> uv_complexKinds v1 then v1 else fold (\<lambda>(id', entity) v''.
                     if ent_Kind entity = kind then addComplexValues id' entity v'' else v'') (entries (g_Entities g)) v1)"
    unfolding ensureKind_def by (auto simp: if_distrib [of Inr, symmetric])
  note p1 = prepareKind_ok [OF assms(2) p]
  note collected = collect_ok [where P = "\<lambda>v e. ent_Kind e = kind" and ies = "entries (g_Entities g)" and v = v1]
  have ext: "extends_validator v1 v'" using collected [THEN conjunct1] unfolding v' by simp
  have rec: "recorded v' i e" if "mget (g_Entities g) i = Some e" "ent_Kind e = kind" "kind \<in> uv_complexKinds v1" for i e
    using collected [THEN conjunct2] that unfolding v' by force
  have "recorded v' i e" if e: "mget (g_Entities g) i = Some e" for i e
  proof (cases "ent_Kind e = kind")
    case True
    with typed_recorded [of "g_CITypes g" v1 e i] assms(4) [OF e] p1 rec [OF e] recorded_extends [OF ext] show ?thesis by blast
  next
    case False
    with assms(3) [OF e] p1 have "recorded v1 i e" by (simp add: recorded_def complex_bucket_def mget_or_def)
    then show ?thesis by (rule recorded_extends [OF ext])
  qed
  then show ?thesis using p1 fields_ok_extends [OF ext] ext by (simp add: validator_ok_def extends_validator_def)
qed

lemma fieldKeys_mem: "key \<in> fieldKeys kind field e \<longleftrightarrow> ent_Kind e = kind \<and> (\<exists>x. mget (ent_Fields e) field = Some x \<and> ScalarIndexKey x = Some key)"
  by (auto simp: fieldKeys_def split: option.splits if_splits)

lemma scalar_bucket:
  assumes "entity_index_ok g E"
  shows "i \<in> bucket (fieldValues g kind field) key \<longleftrightarrow>
    (\<exists>e x. mget E i = Some e \<and> ent_Kind e = kind \<and> mget (ent_Fields e) field = Some x \<and> ScalarIndexKey x = Some key)"
proof -
  have "is_index (fieldValues g kind field) (rel_of (fieldKeys kind field) E)" using assms by (simp add: entity_index_ok_def)
  from is_index_bucket [OF this, of key] show ?thesis by (auto simp: fieldKeys_mem)
qed

text \<open>The entities in the index may differ from the stored ones at the entity under validation.\<close>

definition conflicting :: "(any \<Rightarrow> any \<Rightarrow> bool) \<Rightarrow> (string, Entity) fmap \<Rightarrow> Entity \<Rightarrow> string \<Rightarrow> any \<Rightarrow> bool" where
  "conflicting eq entities entity field val \<longleftrightarrow>
     (\<exists>other existing x. mget entities other = Some existing \<and> other \<noteq> ent_ID entity \<and> ent_Kind existing = ent_Kind entity \<and>
        mget (ent_Fields existing) field = Some x \<and> eq x val)"

definition current :: "(string, Entity) fmap \<Rightarrow> uniqueEntityValidator \<Rightarrow> bool" where
  "current entities v \<longleftrightarrow>
     (\<forall>kind field key i e. i \<in> complex_bucket v kind field key \<longrightarrow> mget entities i = Some e \<longrightarrow>
        ent_Kind e = kind \<and> (\<exists>x. mget (ent_Fields e) field = Some x \<and> complexUniqueKey x = Some key))"

lemma validateUniqueField_iff:
  assumes idx: "entity_index_ok g E" and same: "\<And>i. i \<noteq> ent_ID entity \<Longrightarrow> mget E i = mget (g_Entities g) i"
    and rec: "\<And>i e. mget (g_Entities g) i = Some e \<Longrightarrow> recorded v i e"
    and field: "field \<in> set (mget_or [] (uv_fieldsByKind v) (ent_Kind entity))"
    and val: "mget (ent_Fields entity) field = Some val"
  shows "validateUniqueField g v entity field = Inr () \<Longrightarrow> \<not> conflicting same_value (g_Entities g) entity field val"
    and "current (g_Entities g) v \<Longrightarrow> \<not> conflicting same_value (g_Entities g) entity field val \<Longrightarrow> validateUniqueField g v entity field = Inr ()"
proof -
  have same': "mget E i = Some e \<and> i \<noteq> ent_ID entity \<longleftrightarrow> mget (g_Entities g) i = Some e \<and> i \<noteq> ent_ID entity" for i e
    using same by metis
  consider (scalar) key where "ScalarIndexKey val = Some key"
    | (scan) "ScalarIndexKey val = None" "complexUniqueKey val = None"
    | (composite) key where "ScalarIndexKey val = None" "complexUniqueKey val = Some key"
    by (cases "ScalarIndexKey val"; cases "complexUniqueKey val") auto
  then have "(validateUniqueField g v entity field = Inr () \<longrightarrow> \<not> conflicting same_value (g_Entities g) entity field val) \<and>
    (current (g_Entities g) v \<longrightarrow> \<not> conflicting same_value (g_Entities g) entity field val \<longrightarrow> validateUniqueField g v entity field = Inr ())"
  proof cases
    case (scalar key)
    have "(\<exists>i \<in> bucket (fieldValues g (ent_Kind entity) field) key. i \<noteq> ent_ID entity) \<longleftrightarrow> conflicting same_value (g_Entities g) entity field val"
      unfolding conflicting_def same_value_scalar [OF scalar] Bex_def scalar_bucket [OF idx] using same' by blast
    then show ?thesis using val scalar by (simp add: validateUniqueField_def)
  next
    case scan
    have eq: "same_value x val \<longleftrightarrow> fieldValuesEqual x val" for x
      using scan DeepEqual_marshal [of x val] by (auto simp: same_value_composite fieldValuesEqual_composite complexUniqueKey_def)
    have "conflictsWithAnyEntity g entity field val \<longleftrightarrow> conflicting same_value (g_Entities g) entity field val"
      unfolding conflicting_def eq by (force simp: conflictsWithAnyEntity_def list_ex_iff split: option.splits)
    then show ?thesis using val scan by (simp add: validateUniqueField_def)
  next
    case (composite key)
    let ?hit = "\<exists>i \<in> complex_bucket v (ent_Kind entity) field key. i \<noteq> ent_ID entity \<and>
       (case mget (g_Entities g) i of None \<Rightarrow> False | Some existing \<Rightarrow>
          (case mget (ent_Fields existing) field of None \<Rightarrow> False | Some x \<Rightarrow> fieldValuesEqual x val))"
    have v: "validateUniqueField g v entity field = Inr () \<longleftrightarrow> \<not> ?hit"
      using val composite by (simp add: validateUniqueField_def Let_def complex_bucket_def)
    have "?hit" if "conflicting same_value (g_Entities g) entity field val"
    proof -
      from that obtain i e x where e: "mget (g_Entities g) i = Some e" "i \<noteq> ent_ID entity" "ent_Kind e = ent_Kind entity"
        "mget (ent_Fields e) field = Some x" "same_value x val" by (auto simp: conflicting_def)
      then have x: "DeepEqual x val" "json_marshal x = Some key"
        using composite by (auto simp: same_value_composite complexUniqueKey_def)
      with rec [OF e(1)] e field composite DeepEqual_scalar [OF x(1)] have "i \<in> complex_bucket v (ent_Kind entity) field key" by (auto simp: recorded_def complexUniqueKey_def)
      with e show ?thesis by (intro bexI [of _ i]) (simp_all add: same_value_def)
    qed
    moreover have "conflicting same_value (g_Entities g) entity field val" if "?hit" "current (g_Entities g) v"
    proof -
      from that(1) obtain i e x where i: "i \<in> complex_bucket v (ent_Kind entity) field key" "i \<noteq> ent_ID entity"
        "mget (g_Entities g) i = Some e" "mget (ent_Fields e) field = Some x" "fieldValuesEqual x val"
        by (auto split: option.splits)
      with that(2) have "ent_Kind e = ent_Kind entity" "complexUniqueKey x = Some key" unfolding current_def by fastforce+
      with i composite show ?thesis unfolding conflicting_def
        by (intro exI [of _ i] exI [of _ e] exI [of _ x]) (simp add: same_value_def complexUniqueKey_def)
    qed
    ultimately show ?thesis using v by blast
  qed
  then show "validateUniqueField g v entity field = Inr () \<Longrightarrow> \<not> conflicting same_value (g_Entities g) entity field val"
    and "current (g_Entities g) v \<Longrightarrow> \<not> conflicting same_value (g_Entities g) entity field val \<Longrightarrow> validateUniqueField g v entity field = Inr ()"
    by auto
qed

lemma unique_in_conflicting:
  "unique_in eq T E entity \<longleftrightarrow>
     (\<forall>field val. unique_spec T (ent_Kind entity) field \<longrightarrow> mget (ent_Fields entity) field = Some val \<longrightarrow> \<not> conflicting eq E entity field val)"
  unfolding unique_in_def conflicting_def by blast

lemma validate_ok:
  assumes "validate g entity v = Inr v'" and "validator_ok (g_CITypes g) (g_Entities g) v"
    and "\<And>i e. mget (g_Entities g) i = Some e \<Longrightarrow> typed_entity (g_CITypes g) e"
    and "entity_index_ok g E" and "\<And>i. i \<noteq> ent_ID entity \<Longrightarrow> mget E i = mget (g_Entities g) i"
  shows "validator_ok (g_CITypes g) (g_Entities g) v' \<and> unique_in same_value (g_CITypes g) (g_Entities g) entity \<and>
         mget (uv_fieldsByKind v') (ent_Kind entity) \<noteq> None"
proof -
  from assms(1) have e: "ensureKind g (ent_Kind entity) v = Inr v'"
    and c: "checkM (validateUniqueField g v' entity) (mget_or [] (uv_fieldsByKind v') (ent_Kind entity)) = Inr ()"
    by (auto simp: validate_def)
  have ok: "validator_ok (g_CITypes g) (g_Entities g) v' \<and> mget (uv_fieldsByKind v') (ent_Kind entity) \<noteq> None"
    using assms(2,3) by (intro ensureKind_ok [OF e]) (auto simp: validator_ok_def)
  then obtain flds where flds: "mget (uv_fieldsByKind v') (ent_Kind entity) = Some flds" by blast
  have "unique_in same_value (g_CITypes g) (g_Entities g) entity"
    unfolding unique_in_conflicting
  proof (intro allI impI)
    fix field val assume u: "unique_spec (g_CITypes g) (ent_Kind entity) field" and val: "mget (ent_Fields entity) field = Some val"
    have "field \<in> set flds" using ok flds u by (simp add: validator_ok_def fields_ok_def)
    then have f: "field \<in> set (mget_or [] (uv_fieldsByKind v') (ent_Kind entity))" by (simp add: mget_or_def flds)
    with c have "validateUniqueField g v' entity field = Inr ()" by (simp add: checkM_eq_Inr)
    from validateUniqueField_iff(1) [OF assms(4,5) _ f val this] ok
    show "\<not> conflicting same_value (g_Entities g) entity field val" by (simp add: validator_ok_def)
  qed
  with ok show ?thesis by simp
qed

text \<open>The converse: an entity without a conflict is accepted.\<close>

lemma validate_accepts:
  assumes "ensureKind g (ent_Kind entity) v = Inr v'" and "validator_ok (g_CITypes g) (g_Entities g) v'" and "current (g_Entities g) v'"
    and "mget (uv_fieldsByKind v') (ent_Kind entity) \<noteq> None"
    and "entity_index_ok g E" and "\<And>i. i \<noteq> ent_ID entity \<Longrightarrow> mget E i = mget (g_Entities g) i"
    and "unique_in same_value (g_CITypes g) (g_Entities g) entity"
  shows "validate g entity v = Inr v'"
proof -
  from assms(4) obtain flds where flds: "mget (uv_fieldsByKind v') (ent_Kind entity) = Some flds" by blast
  have "validateUniqueField g v' entity field = Inr ()" if f: "field \<in> set (mget_or [] (uv_fieldsByKind v') (ent_Kind entity))" for field
  proof (cases "mget (ent_Fields entity) field")
    case None
    then show ?thesis by (simp add: validateUniqueField_def)
  next
    case (Some val)
    have "unique_spec (g_CITypes g) (ent_Kind entity) field" using f flds assms(2) by (simp add: validator_ok_def fields_ok_def mget_or_def)
    with assms(7) Some have "\<not> conflicting same_value (g_Entities g) entity field val" by (simp add: unique_in_conflicting)
    with validateUniqueField_iff(2) [OF assms(5,6) _ f Some assms(3)] assms(2) show ?thesis by (simp add: validator_ok_def)
  qed
  then have "checkM (validateUniqueField g v' entity) (mget_or [] (uv_fieldsByKind v') (ent_Kind entity)) = Inr ()"
    by (simp add: checkM_eq_Inr)
  with assms(1) show ?thesis by (simp add: validate_def)
qed

lemma effectiveFieldsCached_total:
  assumes "validateCITypes T = Inr ()" and "sound_cache T cache"
  obtains flds cache' where "effectiveFieldsCached T kind cache = Inr (flds, cache')" "effective T kind flds" "sound_cache T cache'"
  using EffectiveFields_spec [OF assms, of kind] by blast

lemma current_addComplexValues:
  assumes "current E v" and "mget E i = Some e"
  shows "current E (addComplexValues i e v)"
proof -
  have step: "current E (addComplexValue i e f w)" if "current E w" for f w
    using that assms(2)
    by (auto simp: current_def addComplexValue_def complex_bucket_def idx_add_def bucket_def Let_def split: option.splits if_splits)
  have "current E (fold (addComplexValue i e) fs w)" if "current E w" for fs w
    using that by (induction fs arbitrary: w) (simp_all add: step)
  with assms(1) show ?thesis by (simp add: addComplexValues_def)
qed

lemma current_collect:
  "current E v \<Longrightarrow> set ies \<subseteq> set (entries E) \<Longrightarrow> current E (fold (\<lambda>(i, e) v. if P v e then addComplexValues i e v else v) ies v)"
proof (induction ies arbitrary: v)
  case Nil
  then show ?case by simp
next
  case (Cons ie ies)
  obtain i e where ie: "ie = (i, e)" by (cases ie)
  with Cons.prems have "current E (if P v e then addComplexValues i e v else v)" by (simp add: current_addComplexValues)
  with Cons show ?case by (simp add: ie)
qed

lemma prepareKind_current: "prepareKind g v kind = Inr v' \<Longrightarrow> current E v \<Longrightarrow> current E v'"
  by (auto simp: prepareKind_def current_def complex_bucket_def Let_def split: if_splits)

lemma ensureKind_current: "ensureKind g kind v = Inr v' \<Longrightarrow> current (g_Entities g) v \<Longrightarrow> current (g_Entities g) v'"
  unfolding ensureKind_def
  by (auto split: if_splits dest: prepareKind_current intro!: current_collect [where P = "\<lambda>v e. ent_Kind e = kind"])

lemma newUniqueEntityValidator_current:
  assumes "newUniqueEntityValidator g kinds = Inr v"
  shows "current (g_Entities g) v"
proof -
  from assms obtain v0 where v0: "foldM (prepareKind g) zero_uniqueEntityValidator (sortedKeys kinds) = Inr v0"
    and h: "(if uv_complexKinds v0 = {} then Inr v0 else Inr (fold (\<lambda>(id', entity) v'.
                  if ent_Kind entity \<in> uv_complexKinds v' then addComplexValues id' entity v' else v')
                (entries (g_Entities g)) v0)) = (Inr v :: error + uniqueEntityValidator)"
    unfolding newUniqueEntityValidator_def rbind_eq_Inr by blast
  have "current (g_Entities g) v0"
  proof (rule foldM_invariant [OF v0, where I = "current (g_Entities g)"])
    show "current (g_Entities g) zero_uniqueEntityValidator"
      by (simp add: current_def complex_bucket_def zero_uniqueEntityValidator_def mget_or_def bucket_def)
  qed (rule prepareKind_current)
  with h show ?thesis by (auto split: if_splits intro!: current_collect [where P = "\<lambda>v e. ent_Kind e \<in> uv_complexKinds v"])
qed

lemma prepareKind_total:
  assumes "validateCITypes (g_CITypes g) = Inr ()" and "fields_ok (g_CITypes g) v"
  shows "\<exists>v'. prepareKind g v kind = Inr v'"
proof -
  from assms(2) have "sound_cache (g_CITypes g) (uv_effective v)" by (simp add: fields_ok_def)
  from effectiveFieldsCached_total [OF assms(1) this, of kind] obtain flds cache where
    "effectiveFieldsCached (g_CITypes g) kind (uv_effective v) = Inr (flds, cache)" by blast
  then show ?thesis by (simp add: prepareKind_def Let_def)
qed

lemma ensureKind_total:
  "validateCITypes (g_CITypes g) = Inr () \<Longrightarrow> fields_ok (g_CITypes g) v \<Longrightarrow> \<exists>v'. ensureKind g kind v = Inr v'"
  using prepareKind_total [of g v kind] by (auto simp: ensureKind_def)

lemma newUniqueEntityValidator_total:
  assumes "validateCITypes (g_CITypes g) = Inr ()"
  shows "\<exists>v. newUniqueEntityValidator g kinds = Inr v"
proof -
  have zero: "fields_ok (g_CITypes g) zero_uniqueEntityValidator" by (simp add: fields_ok_def zero_uniqueEntityValidator_def sound_cache_def)
  have "\<exists>v. foldM (prepareKind g) zero_uniqueEntityValidator (sortedKeys kinds) = Inr v \<and> fields_ok (g_CITypes g) v"
    using zero by (rule foldM_succeeds) (meson assms prepareKind_ok prepareKind_total)
  then obtain v where "foldM (prepareKind g) zero_uniqueEntityValidator (sortedKeys kinds) = Inr v" by blast
  then show ?thesis by (cases "uv_complexKinds v = {}") (simp_all add: newUniqueEntityValidator_def)
qed

definition plain_fields :: "Entity \<Rightarrow> bool" where
  "plain_fields entity \<longleftrightarrow> (\<forall>field x. mget (ent_Fields entity) field = Some x \<longrightarrow> plain x)"


definition unique_types :: "(string, CIType) fmap" where
  "unique_types = fmap_of_list
     [(''host'', \<lparr>ct_Name = ''host'', ct_DisplayName = [], ct_Extends = [],
         ct_Fields = fmap_of_list [(''env'', zero_FieldSpec\<lparr>spec_Type := ''string'', spec_Unique := True\<rparr>)], ct_IdentityKeys = []\<rparr>)]"

definition unique_graph :: Graph where
  "unique_graph = rebuildIndexes (zero_Graph\<lparr>g_CITypes := unique_types, g_Entities := fmap_of_list [(''a'', example_entity)]\<rparr>)"

lemma unique_graph_simps:
  "g_CITypes unique_graph = unique_types" "g_Entities unique_graph = fmap_of_list [(''a'', example_entity)]"
  by (simp_all add: unique_graph_def)

lemma effective_unique_types:
  "effective unique_types ''host'' specs \<Longrightarrow> specs = fmap_of_list [(''env'', zero_FieldSpec\<lparr>spec_Type := ''string'', spec_Unique := True\<rparr>)]"
  by (erule effectiveE) (auto simp: unique_types_def intro!: fmap_ext split: if_splits)


text \<open>
  With a negative zero the validator misses an equal value: next to \<open>[0]\<close> it refuses \<open>[0]\<close> and accepts \<open>[-0]\<close>, which is
  deeply equal.
\<close>

definition signed_types :: "(string, CIType) fmap" where
  "signed_types = fmap_of_list
     [(''host'', \<lparr>ct_Name = ''host'', ct_DisplayName = [], ct_Extends = [],
         ct_Fields = fmap_of_list [(''at'', zero_FieldSpec\<lparr>spec_Type := ''array'', spec_Unique := True\<rparr>)], ct_IdentityKeys = []\<rparr>)]"

definition signed_host :: "string \<Rightarrow> float64 \<Rightarrow> Entity" where
  "signed_host i f = zero_Entity\<lparr>ent_ID := i, ent_Kind := ''host'', ent_Fields := fmap_of_list [(''at'', VSlice (Some [VFloat f]))]\<rparr>"

definition signed_graph :: Graph where
  "signed_graph = rebuildIndexes (zero_Graph\<lparr>g_CITypes := signed_types, g_Entities := fmap_of_list [(''a'', signed_host ''a'' (Fin 0))]\<rparr>)"

lemma validate_negative_zero:
  "fieldValuesEqual (VSlice (Some [VFloat (Fin 0)])) (VSlice (Some [VFloat NegZero])) \<and>
   (case newUniqueEntityValidator signed_graph {''host''} of
      Inl _ \<Rightarrow> False
    | Inr v \<Rightarrow> \<not> isl (validate signed_graph (signed_host ''b'' NegZero) v) \<and>
        isl (validate signed_graph (signed_host ''b'' (Fin 0)) v))"
  by code_simp

end
