(* ===== verification/Mutation.thy ===== *)
theory Mutation
  imports UniqueValidation
begin

text \<open>
  The mutations of a commit (\<open>apply.go\<close>, \<open>entity_upsert_prepare.go\<close>, \<open>entity_stale.go\<close>,
  \<open>entity_delete.go\<close>, \<open>merge.go\<close>, \<open>merge_edges.go\<close>, \<open>split.go\<close>, \<open>relation_mutation.go\<close>,
  \<open>ci_type_mutation.go\<close>, \<open>entity_partitions.go\<close>, \<open>entity_noop.go\<close>). The graph under mutation, the
  fingerprint tracker, the report under construction, the unique validator and the cache of effective
  fields are one state that every phase of \<open>applyMutations\<close> passes on; an error ends the commit.

  The case mapping of \<open>strings.ToLower\<close> (Unicode tables) and the clock are the two fields of an
  environment.
\<close>

record go_env =
  ge_ToLower :: "string \<Rightarrow> string"
  ge_Now :: time

section \<open>Entity partitions\<close>

definition entityPartitionCount :: nat where
  "entityPartitionCount = 64"

definition entityPartition :: "go_env \<Rightarrow> string \<Rightarrow> nat" where
  "entityPartition env id' = nat (uint (drop_bit 248 (sha256 (ge_ToLower env id')))) mod entityPartitionCount"

definition shard_name :: "nat \<Rightarrow> string" where
  "shard_name n = [''0123456789abcdef'' ! (n div 16), ''0123456789abcdef'' ! (n mod 16)]"

definition EntityStorageShard :: "go_env \<Rightarrow> string \<Rightarrow> string" where
  "EntityStorageShard env id' = (if id' = [] then ''default'' else shard_name (entityPartition env id'))"

definition shareEntityPartitions :: "go_env \<Rightarrow> Graph \<Rightarrow> Graph \<times> (nat, string) postings" where
  "shareEntityPartitions env g =
     (case g_entityPartitions g of
        Some parts \<Rightarrow> (g, parts)
      | None \<Rightarrow>
          let parts = fold (\<lambda>id'. idx_add (entityPartition env id') id') (skeys (g_Entities g)) fmempty
          in (g\<lparr>g_entityPartitions := Some parts\<rparr>, parts))"

definition zero_entity_at :: "Graph \<Rightarrow> string \<Rightarrow> Entity" where
  "zero_entity_at g id' = mget_or zero_Entity (g_Entities g) id'"

definition VisitEntityStorageShard ::
  "go_env \<Rightarrow> Graph \<Rightarrow> string \<Rightarrow> ('s \<Rightarrow> Entity \<Rightarrow> 'e + 's) \<Rightarrow> 's \<Rightarrow> Graph \<times> ('e + 's)" where
  "VisitEntityStorageShard env g shard visit s =
     (let (g', parts) = shareEntityPartitions env g in
      (g', case find (\<lambda>n. shard = shard_name n) [0..<entityPartitionCount] of
             None \<Rightarrow> Inr s
           | Some n \<Rightarrow> foldM (\<lambda>s' id'. visit s' (zero_entity_at g id')) s (sortedKeys (bucket parts n))))"

text \<open>\<open>ctx\<close> is what the context reports when it is asked at an entity.\<close>

definition VisitEdgeStorageShard ::
  "go_env \<Rightarrow> Graph \<Rightarrow> (Entity \<Rightarrow> 'e option) \<Rightarrow> string \<Rightarrow> string \<Rightarrow> bool \<Rightarrow> ('s \<Rightarrow> Edge \<Rightarrow> 'e + 's) \<Rightarrow> 's \<Rightarrow> Graph \<times> ('e + 's)" where
  "VisitEdgeStorageShard env g ctx relationType shard reverse visit s =
     VisitEntityStorageShard env g shard (\<lambda>s' entity.
       case ctx entity of
         Some err \<Rightarrow> Inl err
       | None \<Rightarrow>
           foldM (\<lambda>s'' id'.
              let edge = mget_or zero_Edge (g_Edges g) id' in
              if relationType = [] \<or> edge_Type edge = relationType then visit s'' edge else Inr s'')
             s' (sortedKeys (bucket (if reverse then g_in g else g_out g) (ent_ID entity)))) s"

definition refreshPartition_step ::
  "go_env \<Rightarrow> Graph \<Rightarrow> string \<times> trackedFingerprint \<Rightarrow> (nat, string) postings \<Rightarrow> (nat, string) postings" where
  "refreshPartition_step env g = (\<lambda>(id', before) parts.
     let exists = (mget (g_Entities g) id' \<noteq> None) in
     if exists = tf_exists before then parts
     else if exists then idx_add (entityPartition env id') id' parts
     else idx_del (entityPartition env id') id' parts)"

definition refreshEntityPartitions :: "go_env \<Rightarrow> mutationFingerprintTracker \<Rightarrow> Graph \<Rightarrow> Graph" where
  "refreshEntityPartitions env t g =
     (case g_entityPartitions g of
        None \<Rightarrow> g
      | Some parts \<Rightarrow> g\<lparr>g_entityPartitions := Some (fold (refreshPartition_step env g) (entries (tr_entities t)) parts)\<rparr>)"

section \<open>Deletion\<close>

definition dropEdge :: "string \<Rightarrow> Graph \<Rightarrow> Graph" where
  "dropEdge edgeID g =
     (case mget (g_Edges g) edgeID of
        None \<Rightarrow> g
      | Some edge \<Rightarrow> (removeEdgeFromIndexes edgeID edge g)\<lparr>g_Edges := fmdrop edgeID (g_Edges g)\<rparr>)"

definition deleteEntityForce :: "string \<Rightarrow> Graph \<Rightarrow> Graph" where
  "deleteEntityForce entityID g =
     (if entityID = [] then g
      else
        let g1 = (case mget (g_Entities g) entityID of
                    None \<Rightarrow> g
                  | Some existing \<Rightarrow> removeEntityFromIndexes entityID existing g);
            g2 = g1\<lparr>g_Entities := fmdrop entityID (g_Entities g1)\<rparr>
        in fold dropEdge (incidentEdgeIDs g2 entityID) g2)"

definition sourceForEntityDelete :: "EntityDeleteRequest \<Rightarrow> int \<Rightarrow> time \<Rightarrow> FieldSource" where
  "sourceForEntityDelete request version updatedAt =
     \<lparr>src_Source = endr_Source request, src_Priority = endr_SourceRank request,
      src_Confidence = endr_Confidence request, src_Version = version, src_UpdatedAt = updatedAt\<rparr>"

definition sourceCanDeleteEntity :: "FieldSource \<Rightarrow> FieldSource \<Rightarrow> bool" where
  "sourceCanDeleteEntity existing incoming \<longleftrightarrow> src_Priority incoming \<ge> src_Priority existing"

definition existence_conflict :: "string \<Rightarrow> string \<Rightarrow> FieldSource \<Rightarrow> FieldSource \<Rightarrow> string \<Rightarrow> FieldConflict" where
  "existence_conflict entityID incomingID existing incoming message =
     zero_FieldConflict
       \<lparr>fc_ResourceType := ''entity'', fc_EntityID := entityID, fc_IncomingID := incomingID,
        fc_Field := ''__existence__'', fc_ExistingSource := src_Source existing,
        fc_ExistingPriority := src_Priority existing, fc_IncomingSource := src_Source incoming,
        fc_IncomingPriority := src_Priority incoming, fc_ExistingValue := VBool True,
        fc_IncomingValue := VBool False, fc_Message := message\<rparr>"

definition entityExistenceConflict :: "string \<Rightarrow> EntityDeleteRequest \<Rightarrow> FieldSource \<Rightarrow> FieldSource \<Rightarrow> FieldConflict" where
  "entityExistenceConflict entityID request existing incoming =
     existence_conflict entityID (firstNonEmpty (endr_ID request) (endr_ExternalID request)) existing incoming
       ''incoming entity delete was ignored because source priority is lower''"

section \<open>Stale sources\<close>

definition observedExternalIDSet :: "string list \<Rightarrow> string set" where
  "observedExternalIDSet values = set (filter (\<lambda>v. v \<noteq> []) (map TrimSpace values))"

definition entitySourceMissing :: "Entity \<Rightarrow> string \<Rightarrow> string set \<Rightarrow> bool" where
  "entitySourceMissing entity source observed =
     (let matching = filter (\<lambda>item. es_Source item = source \<and> es_ExternalID item \<noteq> []) (ent_Sources entity)
      in matching \<noteq> [] \<and> \<not> list_ex (\<lambda>item. es_ExternalID item \<in> observed) matching)"

definition markEntitySourceStale :: "Entity \<Rightarrow> string \<Rightarrow> time \<Rightarrow> Entity" where
  "markEntitySourceStale entity source staleAt =
     entity\<lparr>ent_Sources :=
       map (\<lambda>item. if es_Source item \<noteq> source then item else item\<lparr>es_Stale := True, es_StaleAt := staleAt\<rparr>)
         (ent_Sources entity)\<rparr>"

definition sourceForStaleDelete :: "SourceStaleRequest \<Rightarrow> int \<Rightarrow> time \<Rightarrow> FieldSource" where
  "sourceForStaleDelete request version updatedAt =
     \<lparr>src_Source = ssr_Source request, src_Priority = ssr_SourceRank request,
      src_Confidence = ssr_Confidence request, src_Version = version, src_UpdatedAt = updatedAt\<rparr>"

definition staleDeleteConflict :: "string \<Rightarrow> FieldSource \<Rightarrow> FieldSource \<Rightarrow> FieldConflict" where
  "staleDeleteConflict entityID existing incoming =
     existence_conflict entityID [] existing incoming
       ''stale entity delete was ignored because source priority is lower''"

text \<open>\<open>*entity.ExistenceSource\<close> after \<open>backfillFieldSources\<close>, which always sets the pointer.\<close>

definition existenceOwner :: "Entity \<Rightarrow> FieldSource" where
  "existenceOwner entity = the (ent_ExistenceSource (backfillFieldSources entity))"

section \<open>The state of a commit\<close>

record apply_state =
  as_graph :: Graph
  as_tracker :: mutationFingerprintTracker
  as_report :: ApplyReport
  as_validator :: uniqueEntityValidator
  as_specs :: spec_cache

definition on_graph :: "(Graph \<Rightarrow> Graph) \<Rightarrow> apply_state \<Rightarrow> apply_state" where
  "on_graph f st = st\<lparr>as_graph := f (as_graph st)\<rparr>"

definition touch :: "(Graph \<Rightarrow> mutationFingerprintTracker \<Rightarrow> mutationFingerprintTracker) \<Rightarrow> apply_state \<Rightarrow> apply_state" where
  "touch f st = st\<lparr>as_tracker := f (as_graph st) (as_tracker st)\<rparr>"

definition affect :: "string list \<Rightarrow> apply_state \<Rightarrow> apply_state" where
  "affect ids st = st\<lparr>as_report := (as_report st)\<lparr>ar_AffectedEntityIDs := unique_add (ar_AffectedEntityIDs (as_report st)) ids\<rparr>\<rparr>"

definition affectEdges :: "string list \<Rightarrow> apply_state \<Rightarrow> apply_state" where
  "affectEdges ids st = st\<lparr>as_report := (as_report st)\<lparr>ar_AffectedEdgeIDs := unique_add (ar_AffectedEdgeIDs (as_report st)) ids\<rparr>\<rparr>"

definition suppress :: "FieldConflict list \<Rightarrow> apply_state \<Rightarrow> apply_state" where
  "suppress conflicts st = st\<lparr>as_report := (as_report st)\<lparr>ar_Suppressed := ar_Suppressed (as_report st) @ conflicts\<rparr>\<rparr>"

text \<open>Deleting an entity with its edges, as three phases do it.\<close>

definition deleteEntityStep :: "string \<Rightarrow> apply_state \<Rightarrow> apply_state" where
  "deleteEntityStep entityID st =
     (let st1 = touch (\<lambda>g. touchEntityWithEdges g entityID) st;
          st2 = affectEdges (incidentEdgeIDs (as_graph st1) entityID) st1
      in affect [entityID] (on_graph (deleteEntityForce entityID) st2))"

section \<open>Entity upserts\<close>

record preparedEntityUpsert =
  pe_entity :: Entity
  pe_previous :: Entity
  pe_existed :: bool
  pe_targetID :: string
  pe_canonical :: EntityCanonicalization
  pe_suppressed :: "FieldConflict list"

text \<open>The second half of \<open>prepareEntityUpsert\<close>: the normalised entity meets what is stored under its target.\<close>

definition prepareTarget ::
  "Graph \<Rightarrow> Entity \<Rightarrow> Specs \<Rightarrow> string \<Rightarrow> int \<Rightarrow> time \<Rightarrow> error + preparedEntityUpsert" where
  "prepareTarget g normalized0 flds targetID version updatedAt =
     (let incomingID = ent_ID normalized0;
          canonical = entityCanonicalization normalized0 incomingID targetID;
          normalized1 = normalized0\<lparr>ent_ID := targetID\<rparr>;
          suppressed = entityFieldConflictsForTarget normalized1 targetID;
          normalized = normalized1\<lparr>ent_FieldConflicts := []\<rparr> in
      case mget (g_Entities g) targetID of
        Some previous \<Rightarrow>
          if ent_Kind previous \<noteq> ent_Kind normalized
          then Inl (EntityError (KindChange targetID (ent_Kind previous) (ent_Kind normalized)))
          else
            let (merged, mergeReport) =
                  mergeEntityForUpsert previous (normalized\<lparr>ent_ID := incomingID\<rparr>) targetID flds version updatedAt;
                merged' = (if ent_CreatedAt previous \<noteq> 0 then merged\<lparr>ent_CreatedAt := ent_CreatedAt previous\<rparr> else merged)
            in Inr \<lparr>pe_entity = merged', pe_previous = previous, pe_existed = True, pe_targetID = targetID,
                    pe_canonical = canonical, pe_suppressed = suppressed @ ar_Suppressed mergeReport\<rparr>
      | None \<Rightarrow>
          let created = (if ent_CreatedAt normalized = 0 then normalized\<lparr>ent_CreatedAt := updatedAt\<rparr> else normalized)
          in Inr \<lparr>pe_entity = created, pe_previous = zero_Entity, pe_existed = False, pe_targetID = targetID,
                  pe_canonical = canonical, pe_suppressed = suppressed\<rparr>)"

definition prepareEntityUpsert ::
  "Graph \<Rightarrow> Entity \<Rightarrow> spec_cache \<Rightarrow> int \<Rightarrow> time \<Rightarrow> error + preparedEntityUpsert \<times> spec_cache" where
  "prepareEntityUpsert g entity fieldSpecsByKind version updatedAt =
     rbind (map_sum EntityError id (normalizeEntity entity)) (\<lambda>normalized0.
     let normalized1 = sanitizeIncomingEntitySources normalized0 in
     rbind (map_sum SchemaError id (effectiveFieldsCached (g_CITypes g) (ent_Kind normalized1) fieldSpecsByKind)) (\<lambda>(flds, cache).
     rbind (map_sum SchemaError id (applyEntitySchemaWithSpecs (g_CITypes g) normalized1 flds)) (\<lambda>normalized.
     rbind (map_sum EntityError id (resolveEntityID g normalized)) (\<lambda>targetID.
     rbind (map_sum EntityError id (validateResolvedEntityTarget g (ent_ID normalized) targetID)) (\<lambda>_.
     rbind (prepareTarget g normalized flds targetID version updatedAt) (\<lambda>prepared. Inr (prepared, cache)))))))"

definition upsertEntity :: "int \<Rightarrow> time \<Rightarrow> apply_state \<Rightarrow> Entity \<Rightarrow> error + apply_state" where
  "upsertEntity version now st entity =
     rbind (prepareEntityUpsert (as_graph st) entity (as_specs st) version now) (\<lambda>(prepared, cache).
     let st1 = touch (\<lambda>g. touchEntity g (pe_targetID prepared)) (st\<lparr>as_specs := cache\<rparr>);
         report = as_report st1;
         st2 = st1\<lparr>as_report := report\<lparr>ar_CanonicalEntities := ar_CanonicalEntities report @ [pe_canonical prepared],
                                        ar_Suppressed := ar_Suppressed report @ pe_suppressed prepared\<rparr>\<rparr>;
         stamped = (if pe_existed prepared then pe_entity prepared else stampFieldSources (pe_entity prepared) version now);
         normalized = stamped\<lparr>ent_UpdatedAt := now, ent_Version := version\<rparr>;
         g = as_graph st2 in
     rbind (validate g normalized (as_validator st2)) (\<lambda>v.
     rbind (map_sum EntityError id (validateIdentityIndexAvailable g normalized)) (\<lambda>_.
     let g1 = (if pe_existed prepared then updateEntityIndexes (ent_ID normalized) (pe_previous prepared) normalized g
               else addEntityToIndexes (ent_ID normalized) normalized g);
         cleared = clearEntityWriteMetadata normalized
     in Inr (affect [ent_ID cleared]
              (st2\<lparr>as_graph := g1\<lparr>g_Entities := fmupd (ent_ID cleared) cleared (g_Entities g1)\<rparr>,
                   as_validator := add cleared v\<rparr>)))))"

section \<open>Marking sources stale\<close>

definition trimStaleRequest :: "SourceStaleRequest \<Rightarrow> SourceStaleRequest" where
  "trimStaleRequest request =
     request\<lparr>ssr_Source := TrimSpace (ssr_Source request), ssr_Kind := TrimSpace (ssr_Kind request),
             ssr_Action := (if TrimSpace (ssr_Action request) = [] then ''mark_stale'' else TrimSpace (ssr_Action request))\<rparr>"

definition staleEntity_step ::
  "SourceStaleRequest \<Rightarrow> int \<Rightarrow> time \<Rightarrow> apply_state \<Rightarrow> string \<Rightarrow> error + apply_state" where
  "staleEntity_step request version now st entityID =
     (let entity = zero_entity_at (as_graph st) entityID in
      if ssr_Kind request \<noteq> [] \<and> ent_Kind entity \<noteq> ssr_Kind request then Inr st
      else if \<not> entitySourceMissing entity (ssr_Source request) (observedExternalIDSet (ssr_ObservedExternalIDs request)) then Inr st
      else if ssr_Action request = ''mark_stale'' then
        let st1 = touch (\<lambda>g. touchEntity g entityID) st;
            entity' = (markEntitySourceStale entity (ssr_Source request) now)\<lparr>ent_Version := version, ent_UpdatedAt := now\<rparr>
        in Inr (affect [entityID]
                 (on_graph (\<lambda>g. (updateEntityIndexes entityID (zero_entity_at g entityID) entity' g)
                                   \<lparr>g_Entities := fmupd entityID entity' (g_Entities g)\<rparr>) st1))
      else if ssr_Action request = ''delete'' then
        let existingOwner = existenceOwner entity; incomingOwner = sourceForStaleDelete request version now in
        if sourceCanDeleteEntity existingOwner incomingOwner then Inr (deleteEntityStep entityID st)
        else Inr (suppress [staleDeleteConflict entityID existingOwner incomingOwner] st)
      else Inl (DeleteError (StaleActionUnsupported (ssr_Action request))))"

definition applySourceStale :: "int \<Rightarrow> time \<Rightarrow> apply_state \<Rightarrow> SourceStaleRequest \<Rightarrow> error + apply_state" where
  "applySourceStale version now st rawRequest =
     (let request = trimStaleRequest rawRequest in
      if ssr_Source request = [] then Inl (DeleteError StaleSourceRequired)
      else foldM (staleEntity_step request version now) (st\<lparr>as_report := zero_ApplyReport\<rparr>) (skeys (g_Entities (as_graph st))))"

definition markStale :: "int \<Rightarrow> time \<Rightarrow> apply_state \<Rightarrow> SourceStaleRequest \<Rightarrow> error + apply_state" where
  "markStale version now st request =
     rbind (applySourceStale version now st request) (\<lambda>st'.
     let report = as_report st' in
     Inr (affectEdges (ar_AffectedEdgeIDs report) (affect (ar_AffectedEntityIDs report)
            (suppress (ar_Suppressed report) (st'\<lparr>as_report := as_report st\<rparr>)))))"

section \<open>Merging entities\<close>

definition redirectEdge :: "string \<Rightarrow> string \<Rightarrow> Edge \<Rightarrow> Edge" where
  "redirectEdge sourceID targetID edge =
     (let edge1 = (if edge_From edge = sourceID then edge\<lparr>edge_From := targetID\<rparr> else edge)
      in if edge_To edge1 = sourceID then edge1\<lparr>edge_To := targetID\<rparr> else edge1)"

definition redirectEdge_step ::
  "string \<Rightarrow> string \<Rightarrow> int \<Rightarrow> time \<Rightarrow> apply_state \<times> string set \<Rightarrow> string \<Rightarrow> error + apply_state \<times> string set" where
  "redirectEdge_step sourceID targetID version now = (\<lambda>(st, affectedMergeEdges) edgeID.
     case mget (g_Edges (as_graph st)) edgeID of
       None \<Rightarrow> Inr (st, affectedMergeEdges)
     | Some edge \<Rightarrow>
         let redirected = redirectEdge sourceID targetID edge;
             nextID = CanonicalEdgeID redirected;
             st1 = affectEdges [edgeID, nextID] (touch (\<lambda>g. touchEdge g nextID) st);
             g1 = dropEdge edgeID (as_graph st1);
             candidates = redirected # (case mget (g_Edges g1) nextID of None \<Rightarrow> [] | Some existing \<Rightarrow> [existing]);
             g2 = dropEdge nextID g1
         in case mget (fst (mergeEdgeList candidates version now)) nextID of
              None \<Rightarrow> Inl (MergeError (MergeEdgeLost edgeID nextID))
            | Some next' \<Rightarrow>
                Inr (st1\<lparr>as_graph := addEdgeToIndexes nextID next' (g2\<lparr>g_Edges := fmupd nextID next' (g_Edges g2)\<rparr>)\<rparr>,
                     insert nextID affectedMergeEdges))"

definition redirectMergeEdges ::
  "string \<Rightarrow> string \<Rightarrow> int \<Rightarrow> time \<Rightarrow> apply_state \<times> string set \<Rightarrow> error + apply_state \<times> string set" where
  "redirectMergeEdges sourceID targetID version now = (\<lambda>(st, affectedMergeEdges).
     foldM (redirectEdge_step sourceID targetID version now) (st, affectedMergeEdges)
       (incidentEdgeIDs (as_graph st) sourceID))"

definition validateAffectedMergeEdges :: "Graph \<Rightarrow> string set \<Rightarrow> edge_error + unit" where
  "validateAffectedMergeEdges g affected =
     checkM (\<lambda>edgeID.
       case mget (g_Edges g) edgeID of
         None \<Rightarrow> Inr ()
       | Some edge \<Rightarrow> rbind (validateEdge g edge) (\<lambda>_. validateCardinality g edge))
     (sortedKeys affected)"

definition mergeEntity_step ::
  "MergeRequest \<Rightarrow> Specs \<Rightarrow> int \<Rightarrow> time \<Rightarrow> apply_state \<times> Entity \<times> string set \<Rightarrow> string \<Rightarrow> error + apply_state \<times> Entity \<times> string set" where
  "mergeEntity_step request flds version now = (\<lambda>(st, target, affectedMergeEdges) sourceID.
     if sourceID = mr_TargetID request then Inr (st, target, affectedMergeEdges)
     else
       case mget (g_Entities (as_graph st)) sourceID of
         None \<Rightarrow> Inl (MergeError (MergeSourceNotFound sourceID))
       | Some source \<Rightarrow>
           if ent_Kind source \<noteq> ent_Kind target
           then Inl (MergeError (MergeKindMismatch sourceID (ent_Kind source) (ent_ID target) (ent_Kind target)))
           else
             let target1 = mergeEntityWithSpecs target source flds;
                 target2 = target1\<lparr>ent_MergedFrom := appendUnique (ent_MergedFrom target1) [sourceID]\<rparr> in
             rbind (redirectMergeEdges sourceID (mr_TargetID request) version now (st, affectedMergeEdges)) (\<lambda>(st1, edges).
             let st2 = on_graph (\<lambda>g. (removeEntityFromIndexes sourceID source g)\<lparr>g_Entities := fmdrop sourceID (g_Entities g)\<rparr>) st1
             in Inr (affect [sourceID] st2, target2, edges)))"

definition applyMerge :: "int \<Rightarrow> time \<Rightarrow> apply_state \<Rightarrow> MergeRequest \<Rightarrow> error + apply_state" where
  "applyMerge version now st0 request =
     (case mget (g_Entities (as_graph st0)) (mr_TargetID request) of
        None \<Rightarrow> Inl (MergeError (MergeTargetNotFound (mr_TargetID request)))
      | Some target0 \<Rightarrow>
          let st1 = affect [mr_TargetID request] st0 in
          rbind (map_sum SchemaError id (effectiveFieldsCached (g_CITypes (as_graph st1)) (ent_Kind target0) (as_specs st1))) (\<lambda>(flds, cache).
          let st2 = on_graph (removeEntityFromIndexes (ent_ID target0) target0) (st1\<lparr>as_specs := cache\<rparr>) in
          rbind (foldM (mergeEntity_step request flds version now) (st2, target0, {}) (mr_SourceIDs request)) (\<lambda>(st3, target1, edges).
          let target = target1\<lparr>ent_ID := mr_TargetID request, ent_Version := version, ent_UpdatedAt := now\<rparr>;
              g3 = (as_graph st3)\<lparr>g_Entities := fmupd (mr_TargetID request) target (g_Entities (as_graph st3))\<rparr> in
          rbind (map_sum SchemaError id (validateEntityFieldsWithSpecs target flds)) (\<lambda>_.
          rbind (validate g3 target (as_validator st3)) (\<lambda>v.
          rbind (map_sum EntityError id (validateIdentityIndexAvailable g3 target)) (\<lambda>_.
          let g4 = addEntityToIndexes (mr_TargetID request) target g3 in
          rbind (map_sum EdgeError id (validateAffectedMergeEdges g4 edges)) (\<lambda>_.
          Inr (st3\<lparr>as_graph := g4, as_validator := add target v\<rparr>))))))))"

definition mergeEntities :: "int \<Rightarrow> time \<Rightarrow> apply_state \<Rightarrow> MergeRequest \<Rightarrow> error + apply_state" where
  "mergeEntities version now st request =
     applyMerge version now (touch (\<lambda>g. touchMerge g request) st) request"

section \<open>Splitting entities\<close>

definition splitEntity_step :: "string \<Rightarrow> int \<Rightarrow> time \<Rightarrow> apply_state \<Rightarrow> Entity \<Rightarrow> error + apply_state" where
  "splitEntity_step sourceID version now st entity =
     rbind (map_sum EntityError id (normalizeEntity entity)) (\<lambda>normalized0.
     let normalized1 = sanitizeIncomingEntitySources normalized0; g = as_graph st in
     rbind (map_sum SchemaError id (effectiveFieldsCached (g_CITypes g) (ent_Kind normalized1) (as_specs st))) (\<lambda>(flds, cache).
     rbind (map_sum SchemaError id (applyEntitySchemaWithSpecs (g_CITypes g) normalized1 flds)) (\<lambda>normalized2.
     if ent_ID normalized2 = sourceID then Inl (MergeError (SplitReusesSource sourceID))
     else if mget (g_Entities g) (ent_ID normalized2) \<noteq> None then Inl (MergeError (SplitReplacementExists (ent_ID normalized2)))
     else
       let normalized3 = stampFieldSources
             (normalized2\<lparr>ent_SplitFrom := sourceID, ent_Version := version, ent_CreatedAt := now, ent_UpdatedAt := now\<rparr>)
             version now in
       rbind (validate g normalized3 (as_validator st)) (\<lambda>v.
       rbind (map_sum EntityError id (validateIdentityIndexAvailable g normalized3)) (\<lambda>_.
       let normalized = clearEntityWriteMetadata normalized3;
           g1 = g\<lparr>g_Entities := fmupd (ent_ID normalized) normalized (g_Entities g)\<rparr>
       in Inr (affect [ent_ID normalized]
                (st\<lparr>as_graph := addEntityToIndexes (ent_ID normalized) normalized g1, as_specs := cache,
                    as_validator := add normalized v\<rparr>)))))))"

definition splitEdge_step :: "string \<Rightarrow> apply_state \<Rightarrow> apply_state" where
  "splitEdge_step edgeID st =
     (if mget (g_Edges (as_graph st)) edgeID = None then st
      else affectEdges [edgeID] (on_graph (dropEdge edgeID) st))"

definition applySplit :: "int \<Rightarrow> time \<Rightarrow> apply_state \<Rightarrow> SplitRequest \<Rightarrow> error + apply_state" where
  "applySplit version now st0 request =
     (if sr_SourceID request = [] then Inl (MergeError SplitSourceRequired)
      else
        case mget (g_Entities (as_graph st0)) (sr_SourceID request) of
          None \<Rightarrow> Inl (MergeError (SplitSourceNotFound (sr_SourceID request)))
        | Some source \<Rightarrow>
            let st1 = affect [sr_SourceID request]
                  (on_graph (\<lambda>g. (removeEntityFromIndexes (sr_SourceID request) source g)
                                    \<lparr>g_Entities := fmdrop (sr_SourceID request) (g_Entities g)\<rparr>) st0);
                st2 = fold splitEdge_step (incidentEdgeIDs (as_graph st1) (sr_SourceID request)) st1
            in foldM (splitEntity_step (sr_SourceID request) version now) st2 (sr_Entities request))"

definition splitEntities :: "int \<Rightarrow> time \<Rightarrow> apply_state \<Rightarrow> SplitRequest \<Rightarrow> error + apply_state" where
  "splitEntities version now st request =
     applySplit version now (touch (\<lambda>g. touchSplit g request) st) request"

section \<open>The deletion phases\<close>

definition deleteEdge_step :: "apply_state \<Rightarrow> string \<Rightarrow> error + apply_state" where
  "deleteEdge_step st edgeID =
     (if edgeID = [] then Inl (DeleteError DeleteEdgeIDRequired)
      else
        rbind (map_sum DeleteError id (resolveEdgeReference (as_graph st) edgeID)) (\<lambda>resolved.
        if resolved \<noteq> []
        then Inr (on_graph (\<lambda>g. (removeEdgeFromIndexes resolved (mget_or zero_Edge (g_Edges g) resolved) g)
                                   \<lparr>g_Edges := fmdrop resolved (g_Edges g)\<rparr>)
                    (affectEdges [resolved] (touch (\<lambda>g. touchEdge g resolved) st)))
        else Inr (on_graph (\<lambda>g. g\<lparr>g_Edges := fmdrop edgeID (g_Edges g)\<rparr>) (touch (\<lambda>g. touchEdge g edgeID) st))))"

definition deleteEdgeRequest_step :: "int \<Rightarrow> time \<Rightarrow> apply_state \<Rightarrow> EdgeDeleteRequest \<Rightarrow> error + apply_state" where
  "deleteEdgeRequest_step version now st request =
     rbind (map_sum DeleteError id (resolveEdgeDeleteRequest (as_graph st) request)) (\<lambda>edgeID.
     if edgeID = [] then Inr st
     else
       case mget (g_Edges (as_graph st)) edgeID of
         None \<Rightarrow> Inr st
       | Some stored \<Rightarrow>
           let st1 = touch (\<lambda>g. touchEdge g edgeID) st;
               edge = backfillEdgeSources stored (edge_Version stored) (edge_UpdatedAt stored);
               existingOwner = the (edge_ExistenceSource edge);
               incomingOwner = sourceForDelete request version now
           in if sourceCanDeleteEdge existingOwner incomingOwner
              then Inr (on_graph (\<lambda>g. (removeEdgeFromIndexes edgeID edge g)\<lparr>g_Edges := fmdrop edgeID (g_Edges g)\<rparr>)
                         (affectEdges [edgeID] st1))
              else Inr (suppress [existenceConflict edgeID request existingOwner incomingOwner] st1))"

definition deleteEntityRequest_step :: "int \<Rightarrow> time \<Rightarrow> apply_state \<Rightarrow> EntityDeleteRequest \<Rightarrow> error + apply_state" where
  "deleteEntityRequest_step version now st request =
     rbind (map_sum DeleteError id (resolveEntityDeleteRequest (as_graph st) request)) (\<lambda>entityID.
     if entityID = [] then Inr st
     else
       case mget (g_Entities (as_graph st)) entityID of
         None \<Rightarrow> Inr st
       | Some entity \<Rightarrow>
           let existingOwner = existenceOwner entity; incomingOwner = sourceForEntityDelete request version now in
           if sourceCanDeleteEntity existingOwner incomingOwner then Inr (deleteEntityStep entityID st)
           else Inr (suppress [entityExistenceConflict entityID request existingOwner incomingOwner] st))"

definition deleteEntity_step :: "apply_state \<Rightarrow> string \<Rightarrow> error + apply_state" where
  "deleteEntity_step st entityID =
     (if entityID = [] then Inl (DeleteError DeleteEntityIDRequired)
      else
        let resolved = ResolveEntityReference (as_graph st) entityID in
        if resolved = [] then Inr st else Inr (deleteEntityStep resolved st))"

section \<open>Schema mutations\<close>

definition deleteRelationType_step :: "apply_state \<times> string set \<Rightarrow> string \<Rightarrow> error + apply_state \<times> string set" where
  "deleteRelationType_step = (\<lambda>(st, deleted) name.
     if name = [] then Inl (RelationError DeleteRelationTypeNameRequired)
     else Inr (on_graph (\<lambda>g. g\<lparr>g_RelationTypes := fmdrop name (g_RelationTypes g)\<rparr>) (touch (\<lambda>g. touchRelationType g name) st),
               insert name deleted))"

definition deleteTypedEdge :: "string \<Rightarrow> apply_state \<Rightarrow> apply_state" where
  "deleteTypedEdge edgeID st =
     (if mget (g_Edges (as_graph st)) edgeID = None then st
      else on_graph (dropEdge edgeID) (affectEdges [edgeID] (touch (\<lambda>g. touchEdge g edgeID) st)))"

definition applyRelationTypeDeletes :: "string list \<Rightarrow> apply_state \<Rightarrow> error + apply_state" where
  "applyRelationTypeDeletes names st =
     (if names = [] then Inr st
      else
        rbind (foldM deleteRelationType_step (st, {}) names) (\<lambda>(st1, deleted).
        Inr (fold (\<lambda>name st2. fold deleteTypedEdge (sortedKeys (bucket (g_edgeTypeIndex (as_graph st2)) name)) st2)
               (sortedKeys deleted) st1)))"

definition upsertRelationType_step :: "apply_state \<times> string set \<Rightarrow> RelationType \<Rightarrow> error + apply_state \<times> string set" where
  "upsertRelationType_step = (\<lambda>(st, affected) relationType.
     rbind (map_sum RelationError id (normalizeRelationType relationType)) (\<lambda>normalized.
     Inr (on_graph (\<lambda>g. g\<lparr>g_RelationTypes := fmupd (rt_Name normalized) normalized (g_RelationTypes g)\<rparr>)
            (touch (\<lambda>g. touchRelationType g (rt_Name normalized)) st),
          insert (rt_Name normalized) affected)))"

definition applyRelationTypeUpserts :: "RelationType list \<Rightarrow> apply_state \<Rightarrow> error + apply_state" where
  "applyRelationTypeUpserts relationTypes st =
     (if relationTypes = [] then Inr st
      else
        rbind (foldM upsertRelationType_step (st, {}) relationTypes) (\<lambda>(st1, affected).
        rbind (map_sum EdgeError id (validateRelationTypeEdges (as_graph st1) affected)) (\<lambda>_. Inr st1)))"

definition deleteCIType_step :: "string set \<Rightarrow> apply_state \<times> string set \<Rightarrow> string \<Rightarrow> error + apply_state \<times> string set" where
  "deleteCIType_step usedKinds = (\<lambda>(st, changedKinds) name.
     if name = [] then Inl (SchemaError DeleteCITypeNameRequired)
     else if name \<in> usedKinds then Inl (SchemaError (DeleteCITypeInUse name))
     else Inr (on_graph (\<lambda>g. g\<lparr>g_CITypes := fmdrop name (g_CITypes g)\<rparr>) (touch (\<lambda>g. touchCIType g name) st),
               insert name changedKinds))"

definition upsertCIType_step :: "apply_state \<times> string set \<Rightarrow> CIType \<Rightarrow> error + apply_state \<times> string set" where
  "upsertCIType_step = (\<lambda>(st, changedKinds) ciType.
     rbind (map_sum SchemaError id (normalizeCIType ciType)) (\<lambda>normalized.
     Inr (on_graph (\<lambda>g. g\<lparr>g_CITypes := fmupd (ct_Name normalized) normalized (g_CITypes g)\<rparr>)
            (touch (\<lambda>g. touchCIType g (ct_Name normalized)) st),
          insert (ct_Name normalized) changedKinds)))"

definition applyCITypeMutations :: "string list \<Rightarrow> CIType list \<Rightarrow> apply_state \<Rightarrow> error + apply_state" where
  "applyCITypeMutations deletes upserts st =
     (if deletes = [] \<and> upserts = [] then Inr st
      else
        let usedKinds = entityKindSet (g_Entities (as_graph st)) in
        rbind (foldM (deleteCIType_step usedKinds) (st, {}) deletes) (\<lambda>st1.
        rbind (foldM upsertCIType_step st1 upserts) (\<lambda>(st2, changedKinds).
        let g = as_graph st2 in
        rbind (map_sum SchemaError id (validateCITypes (g_CITypes g))) (\<lambda>_.
        let affectedUsedKinds = intersectStringSets (affectedCITypeKinds (g_CITypes g) changedKinds) usedKinds in
        rbind (if affectedUsedKinds \<noteq> {} then validateEntitiesAgainstCITypesForKinds g (Some affectedUsedKinds) else Inr ()) (\<lambda>_.
        Inr (st2\<lparr>as_graph := rebuildIdentityIndexesForKinds (intersectStringSets changedKinds usedKinds) g\<rparr>))))))"

section \<open>Edge upserts\<close>

definition upsertEdge :: "int \<Rightarrow> time \<Rightarrow> apply_state \<Rightarrow> Edge \<Rightarrow> error + apply_state" where
  "upsertEdge version now st edge =
     rbind (map_sum EdgeError id (normalizeEdge edge)) (\<lambda>normalized0.
     let normalized1 = sanitizeIncomingEdgeSources normalized0;
         incomingID = firstNonEmpty (edge_ID normalized1) (edge_ExternalID normalized1);
         normalized2 = canonicalizeEdge normalized1 version now;
         id' = edge_ID normalized2;
         st1 = affectEdges [id'] (touch (\<lambda>g. touchEdge g id') st);
         report = as_report st1;
         st2 = st1\<lparr>as_report := report\<lparr>ar_CanonicalEdges := ar_CanonicalEdges report @
                 [\<lparr>edc_CanonicalID = id', edc_IncomingID = incomingID, edc_Type = edge_Type normalized2,
                   edc_From = edge_From normalized2, edc_To = edge_To normalized2\<rparr>]\<rparr>\<rparr>;
         g = as_graph st2 in
     rbind (map_sum EdgeError id (validateEdge g normalized2)) (\<lambda>_.
     let (g1, normalized3, suppressed) =
           (case mget (g_Edges g) id' of
              Some previous \<Rightarrow>
                let (merged, mergeReport) = mergeEdgeForUpsert previous normalized2 id' incomingID version now
                in (removeEdgeFromIndexes id' previous g,
                    (if edge_CreatedAt previous \<noteq> 0 then merged\<lparr>edge_CreatedAt := edge_CreatedAt previous\<rparr> else merged),
                    ar_Suppressed mergeReport)
            | None \<Rightarrow>
                (g, stampEdgeSources
                      (if edge_CreatedAt normalized2 = 0 then normalized2\<lparr>edge_CreatedAt := now\<rparr> else normalized2) version now,
                 []));
         normalized = normalized3\<lparr>edge_UpdatedAt := now, edge_Version := version\<rparr>;
         g2 = addEdgeToIndexes (edge_ID normalized) normalized
                (g1\<lparr>g_Edges := fmupd (edge_ID normalized) normalized (g_Edges g1)\<rparr>) in
     rbind (map_sum EdgeError id (validateCardinality g2 normalized)) (\<lambda>_.
     Inr (suppress suppressed (st2\<lparr>as_graph := g2\<rparr>)))))"

section \<open>A commit\<close>

definition initial_state :: "Graph \<Rightarrow> apply_state" where
  "initial_state g =
     \<lparr>as_graph = g, as_tracker = newMutationFingerprintTracker, as_report = zero_ApplyReport,
      as_validator = zero_uniqueEntityValidator, as_specs = fmempty\<rparr>"

definition deletePhase :: "int \<Rightarrow> time \<Rightarrow> Mutations \<Rightarrow> apply_state \<Rightarrow> error + apply_state" where
  "deletePhase version now mutations st =
     rbind (foldM deleteEdge_step st (mu_DeleteEdges mutations)) (\<lambda>st1.
     rbind (foldM (deleteEdgeRequest_step version now) st1 (mu_DeleteEdgeRequests mutations)) (\<lambda>st2.
     rbind (foldM (deleteEntityRequest_step version now) st2 (mu_DeleteEntityRequests mutations)) (\<lambda>st3.
     foldM deleteEntity_step st3 (mu_DeleteEntities mutations))))"

definition schemaPhase :: "Mutations \<Rightarrow> apply_state \<Rightarrow> error + apply_state" where
  "schemaPhase mutations st =
     rbind (applyRelationTypeDeletes (mu_DeleteRelationTypes mutations) st) (\<lambda>st1.
     rbind (applyCITypeMutations (mu_DeleteCITypes mutations) (mu_UpsertCITypes mutations) st1) (\<lambda>st2.
     applyRelationTypeUpserts (mu_UpsertRelationTypes mutations) st2))"

definition entityPhase :: "int \<Rightarrow> time \<Rightarrow> Mutations \<Rightarrow> apply_state \<Rightarrow> error + apply_state" where
  "entityPhase version now mutations st =
     rbind (newUniqueEntityValidator (as_graph st) (entityMutationKinds (as_graph st) mutations)) (\<lambda>uniqueValidator.
     rbind (foldM (upsertEntity version now) (st\<lparr>as_validator := uniqueValidator, as_specs := fmempty\<rparr>)
              (mu_UpsertEntities mutations)) (\<lambda>st1.
     rbind (foldM (markStale version now) st1 (mu_MarkSourceStale mutations)) (\<lambda>st2.
     rbind (foldM (mergeEntities version now) st2 (mu_MergeEntities mutations)) (\<lambda>st3.
     foldM (splitEntities version now) st3 (mu_SplitEntities mutations)))))"

definition commitTime :: "go_env \<Rightarrow> Commit \<Rightarrow> time" where
  "commitTime env commit = (if co_CreatedAt commit = 0 then ge_Now env else co_CreatedAt commit)"

definition applyMutations :: "go_env \<Rightarrow> Commit \<Rightarrow> Graph \<Rightarrow> error + Graph \<times> ApplyReport" where
  "applyMutations env commit g0 =
     rbind (useCommitIdentity commit g0) (\<lambda>g.
     let now = commitTime env commit; version = co_Version commit; mutations = co_Mutations commit in
     rbind (deletePhase version now mutations (initial_state g)) (\<lambda>st1.
     rbind (schemaPhase mutations st1) (\<lambda>st2.
     rbind (entityPhase version now mutations st2) (\<lambda>st3.
     rbind (foldM (upsertEdge version now) st3 (mu_UpsertEdges mutations)) (\<lambda>st4.
     finish (as_tracker st4) (refreshEntityPartitions env (as_tracker st4) (as_graph st4)) (as_report st4))))))"

definition applyCommitToCopy :: "go_env \<Rightarrow> Graph \<Rightarrow> Graph \<Rightarrow> Commit \<Rightarrow> ApplyOptions \<Rightarrow> error + Graph \<times> ApplyReport" where
  "applyCommitToCopy env g clone commit options =
     (if co_Version commit \<le> g_Version g then Inl (VersionNotGreater (co_Version commit) (g_Version g))
      else
        rbind (case ao_SourcePolicy options of
                 None \<Rightarrow> Inr (co_Mutations commit, zero_ApplyReport)
               | Some policy \<Rightarrow> ApplySourcePolicy (co_Mutations commit) policy) (\<lambda>(mutations, policyReport).
        rbind (applyMutations env (commit\<lparr>co_Mutations := mutations\<rparr>) (clone\<lparr>g_Version := co_Version commit\<rparr>)) (\<lambda>(next', report).
        Inr (next', report\<lparr>ar_Suppressed := ar_Suppressed policyReport @ ar_Suppressed report\<rparr>))))"

end
