(* ===== verification/Commit.thy ===== *)
theory Commit
  imports Mutation
begin

text \<open>
  Commits against a graph (\<open>apply.go\<close>, the copies of \<open>graph.go\<close> and \<open>copy_on_write.go\<close>, and the preview
  of \<open>entity_noop.go\<close>). A copy of a graph is the same value without the lazily built partition table:
  both \<open>Clone\<close> and \<open>cloneForStorageImpact\<close> carry over every other field.
\<close>

section \<open>Copies\<close>

definition contentFingerprintState :: "Graph \<Rightarrow> digest \<times> bool" where
  "contentFingerprintState g = (g_contentFingerprint g, g_contentFingerprintReady g)"

definition shareLogicalHashCache :: "Graph \<Rightarrow> logicalHashCache option" where
  "shareLogicalHashCache g = g_logicalHashCache g"

definition inheritReadOrder :: "Graph \<Rightarrow> Graph \<Rightarrow> Graph" where
  "inheritReadOrder source g =
     g\<lparr>g_entityOrder := g_entityOrder source, g_fieldIndexOrder := g_fieldIndexOrder source,
       g_fieldValueOrder := g_fieldValueOrder source, g_neighborOrder := g_neighborOrder source,
       g_neighborOrderBytes := g_neighborOrderBytes source\<rparr>"

definition Clone :: "Graph \<Rightarrow> Graph" where
  "Clone g =
     (let (fingerprint, ready) = contentFingerprintState g in
      inheritReadOrder g
        \<lparr>g_Version = g_Version g, g_CITypes = g_CITypes g, g_Entities = g_Entities g, g_RelationTypes = g_RelationTypes g,
         g_Edges = g_Edges g, g_out = g_out g, g_in = g_in g, g_edgeAliasIndex = g_edgeAliasIndex g,
         g_edgeTypeIndex = g_edgeTypeIndex g, g_entityAliasIndex = g_entityAliasIndex g, g_kindCounts = g_kindCounts g,
         g_kindEntityIDs = g_kindEntityIDs g, g_nonScalarFields = g_nonScalarFields g, g_fieldIndex = g_fieldIndex g,
         g_identityIndex = g_identityIndex g, g_legacyIdentity = g_legacyIdentity g, g_entityPartitions = None,
         g_entityOrder = fmempty, g_fieldIndexOrder = fmempty, g_fieldValueOrder = fmempty, g_neighborOrder = fmempty,
         g_neighborOrderBytes = 0, g_contentFingerprint = fingerprint, g_contentFingerprintReady = ready,
         g_logicalHashCache = shareLogicalHashCache g\<rparr>)"

record storageMutationImpact =
  im_ciTypes :: bool
  im_entities :: bool
  im_relationTypes :: bool
  im_edges :: bool

definition storageMutationImpactFor :: "Mutations \<Rightarrow> storageMutationImpact" where
  "storageMutationImpactFor mutations =
     (let entityChanges = (mu_UpsertEntities mutations \<noteq> [] \<or> mu_DeleteEntities mutations \<noteq> [] \<or>
            mu_DeleteEntityRequests mutations \<noteq> [] \<or> mu_MarkSourceStale mutations \<noteq> [] \<or>
            mu_MergeEntities mutations \<noteq> [] \<or> mu_SplitEntities mutations \<noteq> []);
          edgeChanges = (mu_UpsertEdges mutations \<noteq> [] \<or> mu_DeleteEdges mutations \<noteq> [] \<or>
            mu_DeleteEdgeRequests mutations \<noteq> [] \<or> mu_DeleteRelationTypes mutations \<noteq> [] \<or>
            mu_DeleteEntities mutations \<noteq> [] \<or> mu_DeleteEntityRequests mutations \<noteq> [] \<or>
            mu_MarkSourceStale mutations \<noteq> [] \<or> mu_MergeEntities mutations \<noteq> [] \<or> mu_SplitEntities mutations \<noteq> [])
      in \<lparr>im_ciTypes = (mu_UpsertCITypes mutations \<noteq> [] \<or> mu_DeleteCITypes mutations \<noteq> []),
          im_entities = entityChanges,
          im_relationTypes = (mu_UpsertRelationTypes mutations \<noteq> [] \<or> mu_DeleteRelationTypes mutations \<noteq> []),
          im_edges = edgeChanges\<rparr>)"

text \<open>Whether a map is copied or shared with the source does not show in its value.\<close>

definition storageMutationMap :: "('k, 'v) fmap \<Rightarrow> bool \<Rightarrow> ('k, 'v) fmap" where
  "storageMutationMap source writable = source"

definition cloneForStorageImpact :: "storageMutationImpact \<Rightarrow> Graph \<Rightarrow> Graph" where
  "cloneForStorageImpact impact g =
     (let (fingerprint, ready) = contentFingerprintState g in
      inheritReadOrder g
        \<lparr>g_Version = g_Version g, g_CITypes = storageMutationMap (g_CITypes g) (im_ciTypes impact),
         g_Entities = g_Entities g, g_RelationTypes = storageMutationMap (g_RelationTypes g) (im_relationTypes impact),
         g_Edges = g_Edges g, g_out = g_out g, g_in = g_in g, g_edgeAliasIndex = g_edgeAliasIndex g,
         g_edgeTypeIndex = g_edgeTypeIndex g, g_entityAliasIndex = g_entityAliasIndex g,
         g_kindCounts = storageMutationMap (g_kindCounts g) (im_entities impact),
         g_kindEntityIDs = g_kindEntityIDs g, g_nonScalarFields = g_nonScalarFields g,
         g_fieldIndex = storageMutationMap (g_fieldIndex g) (im_entities impact),
         g_identityIndex = storageMutationMap (g_identityIndex g) (im_entities impact \<or> im_ciTypes impact),
         g_legacyIdentity = g_legacyIdentity g, g_entityPartitions = None,
         g_entityOrder = fmempty, g_fieldIndexOrder = fmempty, g_fieldValueOrder = fmempty, g_neighborOrder = fmempty,
         g_neighborOrderBytes = 0, g_contentFingerprint = fingerprint, g_contentFingerprintReady = ready,
         g_logicalHashCache = shareLogicalHashCache g\<rparr>)"

definition WithCommitIdentity :: "Commit \<Rightarrow> Graph \<Rightarrow> error + Graph" where
  "WithCommitIdentity commit g =
     (if 0 \<le> co_IdentityEncoding commit \<and> co_IdentityEncoding commit \<le> IdentityEncodingTuple \<and>
         g_legacyIdentity g = legacyCommitIdentity commit
      then Inr g
      else useCommitIdentity commit
             (cloneForStorageImpact \<lparr>im_ciTypes = False, im_entities = False, im_relationTypes = False, im_edges = False\<rparr> g))"

definition cloneForStorageMutation :: "Mutations \<Rightarrow> Graph \<Rightarrow> Graph" where
  "cloneForStorageMutation mutations g = cloneForStorageImpact (storageMutationImpactFor mutations) g"

definition replaceState :: "Graph \<Rightarrow> Graph \<Rightarrow> Graph" where
  "replaceState next' g =
     inheritReadOrder next'
       (g\<lparr>g_Version := g_Version next', g_CITypes := g_CITypes next', g_Entities := g_Entities next',
          g_entityPartitions := g_entityPartitions next', g_RelationTypes := g_RelationTypes next', g_Edges := g_Edges next',
          g_out := g_out next', g_in := g_in next', g_edgeAliasIndex := g_edgeAliasIndex next',
          g_edgeTypeIndex := g_edgeTypeIndex next', g_entityAliasIndex := g_entityAliasIndex next',
          g_kindCounts := g_kindCounts next', g_kindEntityIDs := g_kindEntityIDs next',
          g_nonScalarFields := g_nonScalarFields next', g_fieldIndex := g_fieldIndex next',
          g_identityIndex := g_identityIndex next', g_legacyIdentity := g_legacyIdentity next',
          g_contentFingerprint := fst (contentFingerprintState next'),
          g_contentFingerprintReady := snd (contentFingerprintState next'),
          g_logicalHashCache := shareLogicalHashCache next'\<rparr>)"

section \<open>Applying commits\<close>

definition ApplyCommitCopyWithOptions :: "go_env \<Rightarrow> Graph \<Rightarrow> Commit \<Rightarrow> ApplyOptions \<Rightarrow> error + Graph \<times> ApplyReport" where
  "ApplyCommitCopyWithOptions env g commit options =
     (if co_Version commit \<le> g_Version g then Inl (VersionNotGreater (co_Version commit) (g_Version g))
      else rbind (ensureContentFingerprint g) (\<lambda>g'. applyCommitToCopy env g' (Clone g') commit options))"

definition ApplyCommitStorageCopyWithOptions :: "go_env \<Rightarrow> Graph \<Rightarrow> Commit \<Rightarrow> ApplyOptions \<Rightarrow> error + Graph \<times> ApplyReport" where
  "ApplyCommitStorageCopyWithOptions env g commit options =
     (if co_Version commit \<le> g_Version g then Inl (VersionNotGreater (co_Version commit) (g_Version g))
      else rbind (ensureContentFingerprint g) (\<lambda>g'.
             applyCommitToCopy env g' (cloneForStorageMutation (co_Mutations commit) g') commit options))"

definition ApplyCommitWithOptions :: "go_env \<Rightarrow> Graph \<Rightarrow> Commit \<Rightarrow> ApplyOptions \<Rightarrow> error + Graph \<times> ApplyReport" where
  "ApplyCommitWithOptions env g commit options =
     rbind (ApplyCommitCopyWithOptions env g commit options) (\<lambda>(clone, report). Inr (replaceState clone g, report))"

definition ApplyCommit :: "go_env \<Rightarrow> Graph \<Rightarrow> Commit \<Rightarrow> error + Graph" where
  "ApplyCommit env g commit =
     rbind (ApplyCommitWithOptions env g commit \<lparr>ao_SourcePolicy = None\<rparr>) (\<lambda>(g', report). Inr g')"

definition ApplyCommitInPlaceForStorage :: "go_env \<Rightarrow> Graph \<Rightarrow> Commit \<Rightarrow> error + Graph" where
  "ApplyCommitInPlaceForStorage env g commit =
     (if co_Version commit \<le> g_Version g then Inl (VersionNotGreater (co_Version commit) (g_Version g))
      else
        rbind (ensureContentFingerprint g) (\<lambda>g'.
        rbind (applyMutations env commit (g'\<lparr>g_Version := co_Version commit\<rparr>)) (\<lambda>(next', report). Inr next')))"

text \<open>The first loop of a batch: versions ascend, and the impacts add up.\<close>

definition batchImpact_step :: "int \<times> storageMutationImpact \<Rightarrow> Commit \<Rightarrow> error + int \<times> storageMutationImpact" where
  "batchImpact_step = (\<lambda>(previousVersion, impact) commit.
     if co_Version commit \<le> previousVersion then Inl (VersionNotGreater (co_Version commit) previousVersion)
     else
       let commitImpact = storageMutationImpactFor (co_Mutations commit) in
       Inr (co_Version commit,
            \<lparr>im_ciTypes = (im_ciTypes impact \<or> im_ciTypes commitImpact),
             im_entities = (im_entities impact \<or> im_entities commitImpact),
             im_relationTypes = (im_relationTypes impact \<or> im_relationTypes commitImpact),
             im_edges = (im_edges impact \<or> im_edges commitImpact)\<rparr>))"

text \<open>One commit of the second loop; an error keeps the reports of the commits before it.\<close>

definition batchCommit_step ::
  "go_env \<Rightarrow> Graph \<times> ApplyReport list \<Rightarrow> nat \<times> Commit \<times> ApplyOptions
     \<Rightarrow> (ApplyReport list \<times> error) + Graph \<times> ApplyReport list" where
  "batchCommit_step env = (\<lambda>(next0, reports) (index, commit0, option).
     let isolated = (\<lambda>e. (reports, BatchRequiresIsolation index (Some e))) in
     rbind (map_sum isolated id
              (case ao_SourcePolicy option of
                 None \<Rightarrow> Inr (co_Mutations commit0, zero_ApplyReport)
               | Some policy \<Rightarrow> ApplySourcePolicy (co_Mutations commit0) policy)) (\<lambda>(mutations, policyReport).
     rbind (map_sum isolated id
              (applyMutations env (commit0\<lparr>co_Mutations := mutations\<rparr>) (next0\<lparr>g_Version := co_Version commit0\<rparr>))) (\<lambda>(next', report0).
     let report = report0\<lparr>ar_Suppressed := ar_Suppressed policyReport @ ar_Suppressed report0\<rparr> in
     if \<not> ar_Changed report then Inl (reports, BatchRequiresIsolation index None)
     else Inr (next', reports @ [report]))))"

definition ApplyCommitBatchStorageCopyWithOptions ::
  "go_env \<Rightarrow> Graph \<Rightarrow> Commit list \<Rightarrow> ApplyOptions list \<Rightarrow> (ApplyReport list \<times> error) + Graph \<times> ApplyReport list" where
  "ApplyCommitBatchStorageCopyWithOptions env g commits options =
     (if commits = [] then Inr (g, [])
      else if options \<noteq> [] \<and> length options \<noteq> length commits
      then Inl ([], BatchOptionsLength (length options) (length commits))
      else
        rbind (map_sum (\<lambda>e. ([], e)) id (ensureContentFingerprint g)) (\<lambda>g'.
        rbind (map_sum (\<lambda>e. ([], e)) id
                 (foldM batchImpact_step
                    (g_Version g', \<lparr>im_ciTypes = False, im_entities = False, im_relationTypes = False, im_edges = False\<rparr>) commits))
          (\<lambda>(lastVersion, impact).
        let chosen = (if options = [] then replicate (length commits) \<lparr>ao_SourcePolicy = None\<rparr> else options)
        in foldM (batchCommit_step env) (cloneForStorageImpact impact g', []) (zip [0..<length commits] (zip commits chosen)))))"

section \<open>Previewing a commit without effect\<close>

definition onlyEntityUpserts :: "Mutations \<Rightarrow> bool" where
  "onlyEntityUpserts mutations \<longleftrightarrow>
     mu_UpsertEntities mutations \<noteq> [] \<and> mu_UpsertCITypes mutations = [] \<and> mu_DeleteCITypes mutations = [] \<and>
     mu_UpsertRelationTypes mutations = [] \<and> mu_DeleteRelationTypes mutations = [] \<and> mu_DeleteEntities mutations = [] \<and>
     mu_DeleteEntityRequests mutations = [] \<and> mu_MarkSourceStale mutations = [] \<and> mu_UpsertEdges mutations = [] \<and>
     mu_DeleteEdges mutations = [] \<and> mu_DeleteEdgeRequests mutations = [] \<and> mu_MergeEntities mutations = [] \<and>
     mu_SplitEntities mutations = []"

text \<open>
  The loop of \<open>PreviewStorageEntityNoop\<close>. The result \<open>None\<close> is the early \<open>return ApplyReport{}, false, nil\<close>,
  after which the remaining entities are not looked at.
\<close>

record preview_state =
  ps_report :: ApplyReport
  ps_validator :: uniqueEntityValidator
  ps_specs :: spec_cache

definition previewEntity_step ::
  "Graph \<Rightarrow> int \<Rightarrow> time \<Rightarrow> preview_state option \<Rightarrow> Entity \<Rightarrow> error + preview_state option" where
  "previewEntity_step g version now result entity =
     (case result of
        None \<Rightarrow> Inr None
      | Some ps \<Rightarrow>
          rbind (prepareEntityUpsert g entity (ps_specs ps) version now) (\<lambda>(prepared, cache).
          if \<not> pe_existed prepared then Inr None
          else
            let normalized0 = (pe_entity prepared)\<lparr>ent_UpdatedAt := now, ent_Version := version\<rparr> in
            rbind (validate g normalized0 (ps_validator ps)) (\<lambda>v.
            rbind (map_sum EntityError id (validateIdentityIndexAvailable g normalized0)) (\<lambda>_.
            let normalized = clearEntityWriteMetadata normalized0 in
            rbind (contentFingerprintEntry ''entity'' (pe_targetID prepared) (LEntity (logicalEntityForHash (pe_previous prepared)))) (\<lambda>before.
            rbind (contentFingerprintEntry ''entity'' (pe_targetID prepared) (LEntity (logicalEntityForHash normalized))) (\<lambda>after.
            if before \<noteq> after then Inr None
            else
              let report = ps_report ps in
              Inr (Some \<lparr>ps_report = report\<lparr>ar_AffectedEntityIDs := unique_add (ar_AffectedEntityIDs report) [pe_targetID prepared],
                                             ar_CanonicalEntities := ar_CanonicalEntities report @ [pe_canonical prepared],
                                             ar_Suppressed := ar_Suppressed report @ pe_suppressed prepared\<rparr>,
                         ps_validator = add normalized v, ps_specs = cache\<rparr>)))))))"

definition PreviewStorageEntityNoop :: "go_env \<Rightarrow> Graph \<Rightarrow> Commit \<Rightarrow> error + (ApplyReport \<times> bool)" where
  "PreviewStorageEntityNoop env g commit =
     (if g_legacyIdentity g \<noteq> legacyCommitIdentity commit \<or> \<not> onlyEntityUpserts (co_Mutations commit)
      then Inr (zero_ApplyReport, False)
      else if co_Version commit \<le> g_Version g then Inl (VersionNotGreater (co_Version commit) (g_Version g))
      else
        rbind (ensureContentFingerprint g) (\<lambda>g'.
        rbind (newUniqueEntityValidator g' (entityMutationKinds g' (co_Mutations commit))) (\<lambda>uniqueValidator.
        rbind (foldM (previewEntity_step g' (co_Version commit) (commitTime env commit))
                 (Some \<lparr>ps_report = zero_ApplyReport, ps_validator = uniqueValidator, ps_specs = fmempty\<rparr>)
                 (mu_UpsertEntities (co_Mutations commit))) (\<lambda>result.
        case result of
          None \<Rightarrow> Inr (zero_ApplyReport, False)
        | Some ps \<Rightarrow>
            rbind (ContentFingerprint g') (\<lambda>fingerprint.
            Inr ((ps_report ps)\<lparr>ar_ContentFingerprint := fingerprint\<rparr>, True))))))"

end
