(* ===== verification/Steps.thy ===== *)
theory Steps
  imports Commit
begin

text \<open>
  The phases of a commit as a state machine. Every phase changes the graph through a few atomic steps:
  an item is touched by the tracker, an edge is dropped or put with its index entries, an entity leaves
  the indexes, is erased, inserted or updated, a type is put or dropped. A state has the identifiers of
  the entities that are stored but not indexed at the moment (a merge takes its target out of the
  indexes first). Invariants are proved by rule induction over the steps, once, and hold after every
  phase because every phase is a sequence of steps.
\<close>

section \<open>Atomic steps\<close>

definition touched :: "mutationFingerprintTracker \<Rightarrow> (string, trackedFingerprint) fmap \<Rightarrow> string \<Rightarrow> bool" where
  "touched t m key \<longleftrightarrow> mget m key \<noteq> None \<or> tr_err t \<noteq> None"

type_synonym step_state = "Graph \<times> string set \<times> mutationFingerprintTracker"

inductive gstep :: "bool \<Rightarrow> step_state \<Rightarrow> step_state \<Rightarrow> bool" for schema where
  touch_ci: "gstep schema (g, H, t) (g, H, touchCIType g key t)"
| touch_entity: "gstep schema (g, H, t) (g, H, touchEntity g key t)"
| touch_relation: "gstep schema (g, H, t) (g, H, touchRelationType g key t)"
| touch_edge: "gstep schema (g, H, t) (g, H, touchEdge g key t)"
| drop_edge: "touched t (tr_edges t) i \<Longrightarrow> gstep schema (g, H, t) (dropEdge i g, H, t)"
| put_edge: "touched t (tr_edges t) i \<Longrightarrow> mget (g_Edges g) i = None \<Longrightarrow> edge_ID e = i \<Longrightarrow> CanonicalEdgeID e = i \<Longrightarrow>
    gstep schema (g, H, t) (addEdgeToIndexes i e (g\<lparr>g_Edges := fmupd i e (g_Edges g)\<rparr>), H, t)"
| detach: "mget (g_Entities g) i = Some e \<Longrightarrow> i \<notin> H \<Longrightarrow>
    gstep schema (g, H, t) (removeEntityFromIndexes i e g, insert i H, t)"
| erase: "touched t (tr_entities t) i \<Longrightarrow> i \<in> H \<Longrightarrow>
    gstep schema (g, H, t) (g\<lparr>g_Entities := fmdrop i (g_Entities g)\<rparr>, H - {i}, t)"
| insert: "touched t (tr_entities t) i \<Longrightarrow> mget (g_Entities g) i = None \<or> i \<in> H \<Longrightarrow> ent_ID e = i \<Longrightarrow> i \<noteq> [] \<Longrightarrow>
    validateIdentityIndexAvailable g e = Inr () \<Longrightarrow>
    gstep schema (g, H, t) ((addEntityToIndexes i e g)\<lparr>g_Entities := fmupd i e (g_Entities g)\<rparr>, H - {i}, t)"
| update: "touched t (tr_entities t) i \<Longrightarrow> mget (g_Entities g) i = Some b \<Longrightarrow> i \<notin> H \<Longrightarrow> ent_ID a = i \<Longrightarrow>
    ent_Kind a = ent_Kind b \<Longrightarrow>
    validateIdentityIndexAvailable g a = Inr () \<or> graphIdentitySignatures g a = graphIdentitySignatures g b \<Longrightarrow>
    gstep schema (g, H, t) ((updateEntityIndexes i b a g)\<lparr>g_Entities := fmupd i a (g_Entities g)\<rparr>, H, t)"
| put_relation: "touched t (tr_relationTypes t) key \<Longrightarrow>
    gstep schema (g, H, t) (g\<lparr>g_RelationTypes := fmupd key r (g_RelationTypes g)\<rparr>, H, t)"
| drop_relation: "touched t (tr_relationTypes t) key \<Longrightarrow>
    gstep schema (g, H, t) (g\<lparr>g_RelationTypes := fmdrop key (g_RelationTypes g)\<rparr>, H, t)"
| put_ci: "schema \<Longrightarrow> touched t (tr_ciTypes t) key \<Longrightarrow>
    gstep schema (g, H, t) (g\<lparr>g_CITypes := fmupd key c (g_CITypes g)\<rparr>, H, t)"
| drop_ci: "schema \<Longrightarrow> touched t (tr_ciTypes t) key \<Longrightarrow>
    gstep schema (g, H, t) (g\<lparr>g_CITypes := fmdrop key (g_CITypes g)\<rparr>, H, t)"
| rebuild: "schema \<Longrightarrow> gstep schema (g, H, t) (rebuildIdentityIndexesForKinds kinds g, H, t)"

abbreviation gsteps :: "bool \<Rightarrow> step_state \<Rightarrow> step_state \<Rightarrow> bool" where
  "gsteps schema \<equiv> (gstep schema)\<^sup>*\<^sup>*"

section \<open>Indexes, keys and read caches\<close>

definition keyed :: "Graph \<Rightarrow> bool" where
  "keyed g \<longleftrightarrow> (\<forall>i e. mget (g_Entities g) i = Some e \<longrightarrow> ent_ID e = i) \<and> (\<forall>i e. mget (g_Edges g) i = Some e \<longrightarrow> edge_ID e = i \<and> CanonicalEdgeID e = i) \<and>
     mget (g_Entities g) [] = None"

definition indexed :: "step_state \<Rightarrow> bool" where
  "indexed = (\<lambda>(g, H, t).
     entity_index_ok g (fmdrop_set H (g_Entities g)) \<and> edge_index_ok g (g_Edges g) \<and>
     caches_ok g (fmdrop_set H (g_Entities g)) (g_Edges g) \<and> keyed g)"

lemma fmdrop_set_put: "fmdrop_set (H - {i}) (fmupd i e m) = fmupd i e (fmdrop_set H m)"
  by (rule fmap_ext) simp

lemma fmdrop_set_upd: "i \<notin> H \<Longrightarrow> fmdrop_set H (fmupd i e m) = fmupd i e (fmdrop_set H m)"
  by (rule fmap_ext) auto

lemma fmdrop_set_erase: "i \<in> H \<Longrightarrow> fmdrop_set (H - {i}) (fmdrop i m) = fmdrop_set H m"
  by (rule fmap_ext) simp

lemma caches_ok_cong:
  "g_entityOrder g' = g_entityOrder g \<Longrightarrow> g_fieldIndexOrder g' = g_fieldIndexOrder g \<Longrightarrow> g_fieldValueOrder g' = g_fieldValueOrder g \<Longrightarrow>
   g_fieldIndex g' = g_fieldIndex g \<Longrightarrow> g_neighborOrder g' = g_neighborOrder g \<Longrightarrow> g_neighborOrderBytes g' = g_neighborOrderBytes g \<Longrightarrow>
   caches_ok g' E D = caches_ok g E D"
  using entity_order_ok_cong [of g' g] field_order_ok_cong [of g' g] by (simp add: caches_ok_def neighbor_order_ok_def)

lemma edge_index_ok_cong:
  "g_out g' = g_out g \<Longrightarrow> g_in g' = g_in g \<Longrightarrow> g_edgeAliasIndex g' = g_edgeAliasIndex g \<Longrightarrow> g_edgeTypeIndex g' = g_edgeTypeIndex g \<Longrightarrow>
   edge_index_ok g' D = edge_index_ok g D"
  by (simp add: edge_index_ok_def)

text \<open>Changing stored items without their index entries.\<close>

lemma stored_items_upd [simp]:
  "entity_index_ok (g\<lparr>g_Entities := x1\<rparr>) E = entity_index_ok g E" "entity_index_ok (g\<lparr>g_Edges := x2\<rparr>) E = entity_index_ok g E"
  "entity_index_ok (g\<lparr>g_RelationTypes := x3\<rparr>) E = entity_index_ok g E" "entity_index_ok (g\<lparr>g_CITypes := x4\<rparr>) E = entity_index_ok g E"
  "entity_index_ok (g\<lparr>g_identityIndex := x5\<rparr>) E = entity_index_ok g E"
  "edge_index_ok (g\<lparr>g_Entities := x1\<rparr>) D = edge_index_ok g D" "edge_index_ok (g\<lparr>g_Edges := x2\<rparr>) D = edge_index_ok g D"
  "edge_index_ok (g\<lparr>g_RelationTypes := x3\<rparr>) D = edge_index_ok g D" "edge_index_ok (g\<lparr>g_CITypes := x4\<rparr>) D = edge_index_ok g D"
  "edge_index_ok (g\<lparr>g_identityIndex := x5\<rparr>) D = edge_index_ok g D"
  "caches_ok (g\<lparr>g_Entities := x1\<rparr>) E D = caches_ok g E D" "caches_ok (g\<lparr>g_Edges := x2\<rparr>) E D = caches_ok g E D"
  "caches_ok (g\<lparr>g_RelationTypes := x3\<rparr>) E D = caches_ok g E D" "caches_ok (g\<lparr>g_CITypes := x4\<rparr>) E D = caches_ok g E D"
  "caches_ok (g\<lparr>g_identityIndex := x5\<rparr>) E D = caches_ok g E D"
  by (rule entity_index_ok_cong edge_index_ok_cong caches_ok_cong; simp)+

lemma rebuildIdentity_frame:
  "\<exists>index. rebuildIdentityIndexesForKinds kinds g = g\<lparr>g_identityIndex := index\<rparr>"
  by (rule exI [of _ "g_identityIndex (rebuildIdentityIndexesForKinds kinds g)"])
     (simp add: rebuildIdentityIndexesForKinds_def Let_def)

lemma rebuildIdentity_simps [simp]:
  "g_Version (rebuildIdentityIndexesForKinds kinds g) = g_Version g" "g_CITypes (rebuildIdentityIndexesForKinds kinds g) = g_CITypes g"
  "g_Entities (rebuildIdentityIndexesForKinds kinds g) = g_Entities g" "g_RelationTypes (rebuildIdentityIndexesForKinds kinds g) = g_RelationTypes g"
  "g_Edges (rebuildIdentityIndexesForKinds kinds g) = g_Edges g" "g_legacyIdentity (rebuildIdentityIndexesForKinds kinds g) = g_legacyIdentity g"
  "g_entityPartitions (rebuildIdentityIndexesForKinds kinds g) = g_entityPartitions g"
  "g_contentFingerprint (rebuildIdentityIndexesForKinds kinds g) = g_contentFingerprint g"
  "g_contentFingerprintReady (rebuildIdentityIndexesForKinds kinds g) = g_contentFingerprintReady g"
  "g_logicalHashCache (rebuildIdentityIndexesForKinds kinds g) = g_logicalHashCache g"
  by (simp_all add: rebuildIdentityIndexesForKinds_def Let_def)

lemma indexed_iff:
  "indexed (g, H, t) \<longleftrightarrow>
     entity_index_ok g (fmdrop_set H (g_Entities g)) \<and> edge_index_ok g (g_Edges g) \<and>
     caches_ok g (fmdrop_set H (g_Entities g)) (g_Edges g) \<and> keyed g"
  by (simp add: indexed_def)

lemma gstep_indexed: "gstep schema s s' \<Longrightarrow> indexed s \<Longrightarrow> indexed s'"
proof (induction rule: gstep.induct)
  case (drop_edge t i g H)
  then show ?case
    by (cases "mget (g_Edges g) i") (simp_all add: indexed_iff dropEdge_def keyed_def removeEdge_index_ok removeEdge_caches_ok)
next
  case (put_edge t i g e H)
  then show ?case by (simp add: indexed_iff keyed_def addEdge_index_ok addEdge_caches_ok)
next
  case (detach g i e H t)
  then have "fmdrop_set (insert i H) (g_Entities g) = fmdrop i (fmdrop_set H (g_Entities g))"
    "mget (fmdrop_set H (g_Entities g)) i = Some e" by simp_all
  with detach show ?case
    by (simp add: indexed_iff keyed_def removeEntity_index_ok removeEntity_caches_ok del: fmdrop_set_insert)
next
  case (erase t i H g)
  show ?case using erase.prems fmdrop_set_erase [OF erase.hyps(2), of "g_Entities g"]
    by (simp add: indexed_iff keyed_def del: fmdrop_set_fmdrop)
next
  case (insert t i g H e)
  then have "mget (fmdrop_set H (g_Entities g)) i = None" by auto
  with insert show ?case
    by (simp add: indexed_iff keyed_def fmdrop_set_put addEntity_index_ok addEntity_caches_ok)
next
  case (update t i g b H a)
  then have "mget (fmdrop_set H (g_Entities g)) i = Some b" "i \<noteq> []" by (auto simp: indexed_iff keyed_def)
  with update show ?case
    by (simp add: indexed_iff keyed_def fmdrop_set_upd updateEntity_index_ok updateEntity_caches_ok)
next
  case (rebuild g H t kinds)
  obtain index where "rebuildIdentityIndexesForKinds kinds g = g\<lparr>g_identityIndex := index\<rparr>" using rebuildIdentity_frame by blast
  with rebuild.prems show ?case by (simp add: indexed_iff keyed_def)
qed (simp_all add: indexed_iff keyed_def)

lemma gsteps_indexed: "gsteps schema s s' \<Longrightarrow> indexed s \<Longrightarrow> indexed s'"
  by (induction rule: rtranclp_induct) (auto intro: gstep_indexed)

section \<open>The tracker\<close>

lemma touches_frame:
  "tr_entities (touchEdge g k t) = tr_entities t" "tr_ciTypes (touchEdge g k t) = tr_ciTypes t" "tr_relationTypes (touchEdge g k t) = tr_relationTypes t"
  "tr_edges (touchEntity g k t) = tr_edges t" "tr_ciTypes (touchEntity g k t) = tr_ciTypes t" "tr_relationTypes (touchEntity g k t) = tr_relationTypes t"
  "tr_entities (touchCIType g k t) = tr_entities t" "tr_edges (touchCIType g k t) = tr_edges t" "tr_relationTypes (touchCIType g k t) = tr_relationTypes t"
  "tr_entities (touchRelationType g k t) = tr_entities t" "tr_edges (touchRelationType g k t) = tr_edges t" "tr_ciTypes (touchRelationType g k t) = tr_ciTypes t"
  by (simp_all add: touchEdge_def touchEntity_def touchCIType_def touchRelationType_def split: prod.splits)

lemma touches_err:
  "tr_err (touchEdge g k t) = None \<Longrightarrow> tr_err t = None" "tr_err (touchEntity g k t) = None \<Longrightarrow> tr_err t = None"
  "tr_err (touchCIType g k t) = None \<Longrightarrow> tr_err t = None" "tr_err (touchRelationType g k t) = None \<Longrightarrow> tr_err t = None"
  by (auto simp: touchEdge_def touchEntity_def touchCIType_def touchRelationType_def split: prod.splits if_splits dest: capture_None)

lemma tracks_map_touch:
  assumes "tracks_map kind v0 m0 tracked m" and "mget tracked key = None"
    and "\<And>k. v0 k = map_option L (mget m0 k)" and "\<And>k. v k = map_option L (mget m k)"
    and "capture kind key (v key) err = (x, None)"
  shows "tracks_map kind v0 m0 (fmupd key x tracked) m"
proof -
  have v: "v key = v0 key" using assms(1,2,3,4) by (simp add: tracks_map_def)
  have ok: "item_ok kind v0 key" using capture_error [of kind v0 key err] assms(5) v by auto
  from capture_ok [OF this, of err] assms(5) v have "x = tracked_of kind v0 key" by simp
  with assms(1) ok show ?thesis by (auto simp: tracks_map_def)
qed

text \<open>Only touched items change.\<close>

definition only_touched :: "mutationFingerprintTracker \<Rightarrow> (string, trackedFingerprint) fmap \<Rightarrow> (string, 'a) fmap \<Rightarrow> (string, 'a) fmap \<Rightarrow> bool" where
  "only_touched t tracked m m' \<longleftrightarrow> (\<forall>k. mget m' k = mget m k \<or> touched t tracked k)"

lemma only_touched_intros [intro]:
  "only_touched t tracked m m"
  "touched t tracked k \<Longrightarrow> only_touched t tracked m (fmupd k x m)"
  "touched t tracked k \<Longrightarrow> only_touched t tracked m (fmdrop k m)"
  by (auto simp: only_touched_def)

lemma tracks_map_only_touched:
  "tracks_map kind v0 m0 tracked m \<Longrightarrow> only_touched t tracked m m' \<Longrightarrow> tr_err t = None \<Longrightarrow> tracks_map kind v0 m0 tracked m'"
  unfolding tracks_map_def only_touched_def touched_def by metis

lemma tracks_only_touched:
  assumes "tracks g0 t g"
    and "only_touched t (tr_ciTypes t) (g_CITypes g) (g_CITypes g')"
    and "only_touched t (tr_entities t) (g_Entities g) (g_Entities g')"
    and "only_touched t (tr_relationTypes t) (g_RelationTypes g) (g_RelationTypes g')"
    and "only_touched t (tr_edges t) (g_Edges g) (g_Edges g')"
  shows "tracks g0 t g'"
  using assms unfolding tracks_def by (auto intro: tracks_map_only_touched)

lemma value_maps:
  "ciTypeValue g k = map_option LCIType (mget (g_CITypes g) k)"
  "relationTypeValue g k = map_option LRelationType (mget (g_RelationTypes g) k)"
  "entityValue g k = map_option (\<lambda>e. LEntity (logicalEntityForHash e)) (mget (g_Entities g) k)"
  "edgeValue g k = map_option (\<lambda>e. LEdge (logicalEdgeForHash e)) (mget (g_Edges g) k)"
  by (simp_all add: ciTypeValue_def relationTypeValue_def entityValue_def edgeValue_def option.map_comp comp_def)

lemma touch_tracks:
  assumes "tracks g0 t g"
  shows "tracks g0 (touchEdge g k t) g" "tracks g0 (touchEntity g k t) g"
    "tracks g0 (touchCIType g k t) g" "tracks g0 (touchRelationType g k t) g"
proof -
  note touch_map = tracks_map_touch [OF _ _ value_maps(1) value_maps(1)] tracks_map_touch [OF _ _ value_maps(2) value_maps(2)]
    tracks_map_touch [OF _ _ value_maps(3) value_maps(3)] tracks_map_touch [OF _ _ value_maps(4) value_maps(4)]
  show "tracks g0 (touchEdge g k t) g" "tracks g0 (touchEntity g k t) g"
    "tracks g0 (touchCIType g k t) g" "tracks g0 (touchRelationType g k t) g"
    using assms
    by (auto simp: tracks_def touchEdge_def touchEntity_def touchCIType_def touchRelationType_def split: prod.splits if_splits
        intro: touch_map dest: capture_None)
qed

lemma dropEdge_frame:
  "g_Entities (dropEdge i g) = g_Entities g" "g_CITypes (dropEdge i g) = g_CITypes g" "g_RelationTypes (dropEdge i g) = g_RelationTypes g"
  "g_Edges (dropEdge i g) = fmdrop i (g_Edges g)"
  by (auto simp: dropEdge_def fmdrop_idle' fmlookup_dom'_iff split: option.splits)

lemma gstep_tracks: "gstep schema (g, H, t) (g', H', t') \<Longrightarrow> tracks g0 t g \<Longrightarrow> tracks g0 t' g'"
  by (erule gstep.cases) (auto simp: touch_tracks dropEdge_frame elim!: tracks_only_touched)

lemma gsteps_tracks: "gsteps schema (g, H, t) (g', H', t') \<Longrightarrow> tracks g0 t g \<Longrightarrow> tracks g0 t' g'"
  by (induction "(g', H', t')" arbitrary: g' H' t' rule: rtranclp_induct) (auto dest: gstep_tracks)

text \<open>What was touched stays touched, and an edge that is not touched is the one of the start.\<close>

lemma touched_touch:
  "touched (touchEdge g k t) (tr_edges (touchEdge g k t)) k" "touched (touchEntity g k t) (tr_entities (touchEntity g k t)) k"
  "touched (touchCIType g k t) (tr_ciTypes (touchCIType g k t)) k" "touched (touchRelationType g k t) (tr_relationTypes (touchRelationType g k t)) k"
  by (auto simp: touched_def touchEdge_def touchEntity_def touchCIType_def touchRelationType_def split: prod.splits)

lemma touched_mono:
  "touched t (tr_edges t) i \<Longrightarrow> touched (touchEdge g k t) (tr_edges (touchEdge g k t)) i"
  "touched t (tr_edges t) i \<Longrightarrow> touched (touchEntity g k t) (tr_edges (touchEntity g k t)) i"
  "touched t (tr_edges t) i \<Longrightarrow> touched (touchCIType g k t) (tr_edges (touchCIType g k t)) i"
  "touched t (tr_edges t) i \<Longrightarrow> touched (touchRelationType g k t) (tr_edges (touchRelationType g k t)) i"
  "touched t (tr_entities t) i \<Longrightarrow> touched (touchEdge g k t) (tr_entities (touchEdge g k t)) i"
  "touched t (tr_entities t) i \<Longrightarrow> touched (touchEntity g k t) (tr_entities (touchEntity g k t)) i"
  "touched t (tr_entities t) i \<Longrightarrow> touched (touchCIType g k t) (tr_entities (touchCIType g k t)) i"
  "touched t (tr_entities t) i \<Longrightarrow> touched (touchRelationType g k t) (tr_entities (touchRelationType g k t)) i"
  by (auto simp: touched_def touchEdge_def touchEntity_def touchCIType_def touchRelationType_def split: prod.splits if_splits
      dest: capture_None)

lemma gstep_touched:
  assumes "gstep schema (g, H, t) (g', H', t')"
  shows "touched t (tr_edges t) i \<longrightarrow> touched t' (tr_edges t') i" "touched t (tr_entities t) i \<longrightarrow> touched t' (tr_entities t') i"
  by (insert assms, (erule gstep.cases; auto simp: touched_mono)+)

lemma gsteps_touched:
  assumes "gsteps schema (g, H, t) (g', H', t')"
  shows "touched t (tr_edges t) i \<longrightarrow> touched t' (tr_edges t') i" "touched t (tr_entities t) i \<longrightarrow> touched t' (tr_entities t') i"
  by (insert assms, (induction "(g', H', t')" arbitrary: g' H' t' rule: rtranclp_induct; fastforce dest: gstep_touched)+)

lemma gstep_edges:
  "gstep schema (g, H, t) (g', H', t') \<Longrightarrow> touched t' (tr_edges t') i \<or> mget (g_Edges g') i = mget (g_Edges g) i"
  by (erule gstep.cases) (auto simp: dropEdge_frame)

lemma gsteps_edges:
  "gsteps schema (g, H, t) (g', H', t') \<Longrightarrow> touched t' (tr_edges t') i \<or> mget (g_Edges g') i = mget (g_Edges g) i"
proof (induction "(g', H', t')" arbitrary: g' H' t' rule: rtranclp_induct)
  case (step s)
  obtain g1 H1 t1 where s: "s = (g1, H1, t1)" by (cases s)
  show ?case
    using step(3) [OF s] gstep_edges [OF step(2) [unfolded s], of i] gstep_touched(1) [OF step(2) [unfolded s], of i] by auto
qed simp

section \<open>What the steps leave alone\<close>

definition step_frame where
  "step_frame g = (g_Version g, g_legacyIdentity g, g_entityPartitions g, g_contentFingerprint g, g_contentFingerprintReady g, g_logicalHashCache g)"

lemma gstep_frame: "gstep schema (g, H, t) (g', H', t') \<Longrightarrow> step_frame g' = step_frame g \<and> (\<not> schema \<longrightarrow> g_CITypes g' = g_CITypes g)"
  by (erule gstep.cases) (auto simp: step_frame_def dropEdge_def split: option.splits)

lemma gsteps_frame: "gsteps schema (g, H, t) (g', H', t') \<Longrightarrow> step_frame g' = step_frame g \<and> (\<not> schema \<longrightarrow> g_CITypes g' = g_CITypes g)"
  by (induction "(g', H', t')" arbitrary: g' H' t' rule: rtranclp_induct) (auto dest: gstep_frame)

lemma gsteps_schema: "gsteps False s s' \<Longrightarrow> gsteps True s s'"
  by (erule rtranclp_mono [THEN predicate2D, rotated]) (auto elim!: gstep.cases intro: gstep.intros)

section \<open>Identities\<close>

definition identified :: "step_state \<Rightarrow> bool" where
  "identified = (\<lambda>(g, H, t). identity_index_ok g (fmdrop_set H (g_Entities g)))"

lemma identity_upd [simp]:
  "identity_index_ok (g\<lparr>g_Entities := x1\<rparr>) E = identity_index_ok g E" "identity_index_ok (g\<lparr>g_Edges := x2\<rparr>) E = identity_index_ok g E"
  "identity_index_ok (g\<lparr>g_RelationTypes := x3\<rparr>) E = identity_index_ok g E"
  by (rule identity_index_ok_cong; simp)+

lemma updateEntity_same_identity_ok:
  assumes "identity_index_ok g E" and "mget E i = Some b" and "ent_Kind b = ent_Kind a"
    and "graphIdentitySignatures g a = graphIdentitySignatures g b"
  shows "identity_index_ok (updateEntityIndexes i b a g) (fmupd i a E)"
proof -
  have "g_identityIndex (updateEntityIndexes i b a g) = g_identityIndex g"
    using assms(4) by (simp add: updateEntityIndexes_effect [OF assms(3)])
  moreover have "(\<exists>e. mget (fmupd i a E) j = Some e \<and> ent_Kind e = k \<and> s \<in> sig_values g e) \<longleftrightarrow>
      (\<exists>e. mget E j = Some e \<and> ent_Kind e = k \<and> s \<in> sig_values g e)" for j k s
    using assms(2,3,4) by auto
  ultimately show ?thesis using assms(1) by (simp add: identity_index_ok_exact exact_owners_def)
qed

lemma gstep_identified: "gstep False s s' \<Longrightarrow> indexed s \<Longrightarrow> identified s \<Longrightarrow> identified s'"
proof (induction rule: gstep.induct)
  case (drop_edge t i g H)
  then show ?case by (simp add: identified_def dropEdge_def split: option.splits)
next
  case (detach g i e H t)
  then have "fmdrop_set (insert i H) (g_Entities g) = fmdrop i (fmdrop_set H (g_Entities g))"
    "mget (fmdrop_set H (g_Entities g)) i = Some e" by simp_all
  with detach show ?case by (simp add: identified_def removeEntity_identity_ok del: fmdrop_set_insert)
next
  case (erase t i H g)
  show ?case using erase.prems fmdrop_set_erase [OF erase.hyps(2), of "g_Entities g"]
    by (simp add: identified_def del: fmdrop_set_fmdrop)
next
  case (insert t i g H e)
  then have "mget (fmdrop_set H (g_Entities g)) i = None" "mget (fmdrop_set H (g_Entities g)) [] = None"
    by (auto simp: indexed_iff keyed_def)
  with insert show ?case by (simp add: identified_def fmdrop_set_put addEntity_identity_ok)
next
  case (update t i g b H a)
  then have E: "mget (fmdrop_set H (g_Entities g)) i = Some b" "mget (fmdrop_set H (g_Entities g)) [] = None"
    by (auto simp: indexed_iff keyed_def)
  from update.hyps(6) show ?case
  proof
    assume "validateIdentityIndexAvailable g a = Inr ()"
    with update E show ?case by (simp add: identified_def fmdrop_set_upd updateEntity_identity_ok)
  next
    assume "graphIdentitySignatures g a = graphIdentitySignatures g b"
    with update E show ?case by (simp add: identified_def fmdrop_set_upd updateEntity_same_identity_ok)
  qed
qed (simp_all add: identified_def)

lemma gsteps_identified: "gsteps False s s' \<Longrightarrow> indexed s \<Longrightarrow> identified s \<Longrightarrow> identified s'"
  by (induction rule: rtranclp_induct) (blast intro: gstep_identified gsteps_indexed)+

end
