(* ===== verification/Phases.thy ===== *)
theory Phases
  imports Steps
begin

text \<open>
  Every phase of \<open>applyMutations\<close> as a sequence of the atomic steps of theory \<open>Steps\<close>: the deletions, the
  schema mutations, the upserts of entities, stale sources, merges, splits and the upserts of edges.
  From this every phase keeps the indexes, the read caches, the keys and the bookkeeping of the tracker.
\<close>

section \<open>Phases as sequences of steps\<close>

abbreviation pos :: "string set \<Rightarrow> apply_state \<Rightarrow> step_state" where
  "pos H st \<equiv> (as_graph st, H, as_tracker st)"

text \<open>An operation of a commit that keeps the state indexed because it is a sequence of steps.\<close>

definition steps_op :: "bool \<Rightarrow> (apply_state \<Rightarrow> 'e + apply_state) \<Rightarrow> bool" where
  "steps_op schema f \<longleftrightarrow> (\<forall>st st'. f st = Inr st' \<longrightarrow> indexed (pos {} st) \<longrightarrow> gsteps schema (pos {} st) (pos {} st'))"

lemma steps_opI: "(\<And>st st'. f st = Inr st' \<Longrightarrow> indexed (pos {} st) \<Longrightarrow> gsteps schema (pos {} st) (pos {} st')) \<Longrightarrow> steps_op schema f"
  by (simp add: steps_op_def)

lemma steps_opD: "steps_op schema f \<Longrightarrow> f st = Inr st' \<Longrightarrow> indexed (pos {} st) \<Longrightarrow> gsteps schema (pos {} st) (pos {} st')"
  by (simp add: steps_op_def)

lemma steps_op_bind:
  assumes "steps_op schema f" and "\<And>st. steps_op schema (h st)"
  shows "steps_op schema (\<lambda>st. rbind (f st) (\<lambda>st'. h st st'))"
proof (rule steps_opI)
  fix st st' assume "rbind (f st) (\<lambda>st'. h st st') = Inr st'" and ok: "indexed (pos {} st)"
  then obtain st1 where st1: "f st = Inr st1" "h st st1 = Inr st'" by (auto simp: rbind_eq_Inr)
  have "gsteps schema (pos {} st) (pos {} st1)" by (rule steps_opD [OF assms(1) st1(1) ok])
  moreover from this ok have "indexed (pos {} st1)" by (rule gsteps_indexed)
  then have "gsteps schema (pos {} st1) (pos {} st')" by (rule steps_opD [OF assms(2) st1(2)])
  ultimately show "gsteps schema (pos {} st) (pos {} st')" by (rule rtranclp_trans)
qed

lemma steps_op_foldM:
  assumes "\<And>x. x \<in> set xs \<Longrightarrow> steps_op schema (\<lambda>st. f st x)"
  shows "steps_op schema (\<lambda>st. foldM f st xs)"
  using assms
proof (induction xs)
  case Nil
  then show ?case by (auto intro!: steps_opI)
next
  case (Cons x xs)
  have "steps_op schema (\<lambda>st. rbind (f st x) (\<lambda>st'. foldM f st' xs))"
    by (rule steps_op_bind) (use Cons in auto)
  then show ?case by simp
qed

lemma steps_op_schema: "steps_op False f \<Longrightarrow> steps_op True f"
  by (auto simp: steps_op_def intro: gsteps_schema)

lemma state_simps [simp]:
  "as_graph (affect ids st) = as_graph st" "as_graph (affectEdges ids st) = as_graph st" "as_graph (suppress cs st) = as_graph st"
  "as_graph (on_graph f st) = f (as_graph st)" "as_graph (touch k st) = as_graph st"
  "as_tracker (affect ids st) = as_tracker st" "as_tracker (affectEdges ids st) = as_tracker st" "as_tracker (suppress cs st) = as_tracker st"
  "as_tracker (on_graph f st) = as_tracker st" "as_tracker (touch k st) = k (as_graph st) (as_tracker st)"
  by (simp_all add: affect_def affectEdges_def suppress_def on_graph_def touch_def)



section \<open>Touching\<close>

lemma touchEdges_steps: "gsteps schema (g, H, t) (g, H, fold (touchEdge g) ks t)"
proof (induction ks arbitrary: t)
  case (Cons k ks)
  have "gstep schema (g, H, t) (g, H, touchEdge g k t)" by (rule gstep.touch_edge)
  with Cons [of "touchEdge g k t"] show ?case by (simp add: converse_rtranclp_into_rtranclp)
qed simp

lemma touchEdges_touched: "k \<in> set ks \<Longrightarrow> touched (fold (touchEdge g) ks t) (tr_edges (fold (touchEdge g) ks t)) k"
proof (induction ks arbitrary: t)
  case (Cons k' ks)
  show ?case
  proof (cases "k = k'")
    case True
    have "touched (touchEdge g k t) (tr_edges (touchEdge g k t)) k" by (rule touched_touch)
    with gsteps_touched(1) [OF touchEdges_steps [of False g "{}" "touchEdge g k t" ks], of k] True show ?thesis by simp
  qed (use Cons in auto)
qed simp

lemma touchEntityWithEdges_steps: "gsteps schema (g, H, t) (g, H, touchEntityWithEdges g i t)"
proof -
  have "gstep schema (g, H, t) (g, H, touchEntity g i t)" by (rule gstep.touch_entity)
  then have "gsteps schema (g, H, t) (g, H, touchEntity g i t)" by (rule r_into_rtranclp)
  then show ?thesis unfolding touchEntityWithEdges_def by (blast intro: rtranclp_trans touchEdges_steps)
qed

lemma finite_stored: "finite {k. \<exists>e. mget m k = Some e \<and> P e}"
  by (rule finite_subset [of _ "fmdom' m"]) (auto simp: fmlookup_dom'_iff)

lemma edge_buckets:
  assumes "edge_index_ok g D"
  shows "bucket (g_out g) i = {k. \<exists>e. mget D k = Some e \<and> edge_From e = i}"
    and "bucket (g_in g) i = {k. \<exists>e. mget D k = Some e \<and> edge_To e = i}"
    and "bucket (g_edgeTypeIndex g) i = {k. \<exists>e. mget D k = Some e \<and> edge_Type e = i}"
    and "bucket (g_edgeAliasIndex g) i = {k. \<exists>e. mget D k = Some e \<and> i \<in> set (edgeAliasValues e)}"
  using assms by (auto simp: edge_index_ok_def is_index_bucket rel_of_iff)

lemma set_edge_buckets:
  assumes "edge_index_ok g D"
  shows "set (sortedKeys (bucket (g_out g) i)) = {k. \<exists>e. mget D k = Some e \<and> edge_From e = i}"
    and "set (sortedKeys (bucket (g_in g) i)) = {k. \<exists>e. mget D k = Some e \<and> edge_To e = i}"
    and "set (sortedKeys (bucket (g_edgeTypeIndex g) i)) = {k. \<exists>e. mget D k = Some e \<and> edge_Type e = i}"
  by (simp_all add: edge_buckets [OF assms] sortedKeys_def finite_stored)

lemma incident_iff:
  assumes "edge_index_ok g D"
  shows "k \<in> set (incidentEdgeIDs g i) \<longleftrightarrow> (\<exists>e. mget D k = Some e \<and> (edge_From e = i \<or> edge_To e = i))"
  by (auto simp: incidentEdgeIDs_def sortedKeys_def edge_buckets [OF assms] finite_stored)

lemma touchEntityWithEdges_touched:
  assumes "edge_index_ok g D" and "t' = touchEntityWithEdges g i t"
  shows "touched t' (tr_entities t') i" "k \<in> set (incidentEdgeIDs g i) \<Longrightarrow> touched t' (tr_edges t') k"
proof -
  let ?t1 = "touchEntity g i t"
  let ?t2 = "fold (touchEdge g) (sortedKeys (bucket (g_out g) i)) ?t1"
  have t': "t' = fold (touchEdge g) (sortedKeys (bucket (g_in g) i)) ?t2" by (simp add: assms(2) touchEntityWithEdges_def)
  have s1: "gsteps False (g, {}, ?t1) (g, {}, ?t2)" by (rule touchEdges_steps)
  have s2: "gsteps False (g, {}, ?t2) (g, {}, t')" unfolding t' by (rule touchEdges_steps)
  have "touched ?t1 (tr_entities ?t1) i" by (rule touched_touch)
  then show "touched t' (tr_entities t') i" using gsteps_touched(2) [OF s1, of i] gsteps_touched(2) [OF s2, of i] by blast
  assume "k \<in> set (incidentEdgeIDs g i)"
  then have "k \<in> set (sortedKeys (bucket (g_out g) i)) \<or> k \<in> set (sortedKeys (bucket (g_in g) i))"
    by (auto simp: incident_iff [OF assms(1)] set_edge_buckets [OF assms(1)])
  then show "touched t' (tr_edges t') k"
  proof
    assume "k \<in> set (sortedKeys (bucket (g_out g) i))"
    from touchEdges_touched [OF this] show ?thesis using gsteps_touched(1) [OF s2, of k] by blast
  next
    assume "k \<in> set (sortedKeys (bucket (g_in g) i))"
    from touchEdges_touched [OF this] show ?thesis unfolding t' .
  qed
qed

section \<open>Deletion\<close>

lemma dropEdges_steps:
  assumes "\<And>k. k \<in> set ks \<Longrightarrow> touched t (tr_edges t) k"
  shows "gsteps schema (g, H, t) (fold dropEdge ks g, H, t)"
  using assms
proof (induction ks arbitrary: g)
  case (Cons k ks)
  have "gstep schema (g, H, t) (dropEdge k g, H, t)" by (rule gstep.drop_edge) (simp add: Cons.prems)
  with Cons show ?case by (simp add: converse_rtranclp_into_rtranclp)
qed simp

lemma fmdrop_stored: "mget m k = None \<Longrightarrow> fmdrop k m = m"
  by (rule fmap_ext) auto

lemma Graph_upd_same [simp]: "g\<lparr>g_Entities := g_Entities g\<rparr> = g" "g\<lparr>g_Edges := g_Edges g\<rparr> = g"
  by simp_all

lemma deleteEntityForce_steps:
  assumes "indexed (g, {}, t)" and "touched t (tr_entities t) i" and "\<And>k. k \<in> set (incidentEdgeIDs g i) \<Longrightarrow> touched t (tr_edges t) k"
  shows "gsteps schema (g, {}, t) (deleteEntityForce i g, {}, t)"
proof (cases "i = []")
  case False
  show ?thesis
  proof (cases "mget (g_Entities g) i")
    case None
    with False have "deleteEntityForce i g = fold dropEdge (incidentEdgeIDs g i) g" by (simp add: deleteEntityForce_def fmdrop_stored)
    with dropEdges_steps [OF assms(3)] show ?thesis by simp
  next
    case (Some e)
    let ?g1 = "removeEntityFromIndexes i e g"
    let ?g2 = "?g1\<lparr>g_Entities := fmdrop i (g_Entities ?g1)\<rparr>"
    have inc: "incidentEdgeIDs ?g2 i = incidentEdgeIDs g i" by (simp add: incidentEdgeIDs_def)
    have "gstep schema (g, {}, t) (?g1, {i}, t)" using gstep.detach [of g i e "{}"] Some by simp
    moreover have "gstep schema (?g1, {i}, t) (?g2, {}, t)" using gstep.erase [of t i "{i}" schema ?g1] assms(2) by simp
    moreover have "gsteps schema (?g2, {}, t) (fold dropEdge (incidentEdgeIDs ?g2 i) ?g2, {}, t)"
      by (rule dropEdges_steps, rule assms(3)) (simp only: inc)
    moreover have "deleteEntityForce i g = fold dropEdge (incidentEdgeIDs ?g2 i) ?g2" using False Some by (simp add: deleteEntityForce_def Let_def)
    ultimately show ?thesis by (simp add: converse_rtranclp_into_rtranclp)
  qed
qed (simp add: deleteEntityForce_def)

lemma indexed_edges: "indexed (g, H, t) \<Longrightarrow> edge_index_ok g (g_Edges g)"
  by (simp add: indexed_iff)

lemma deleteEntityStep_steps:
  assumes "indexed (pos {} st)"
  shows "gsteps schema (pos {} st) (pos {} (deleteEntityStep i st))"
proof -
  let ?g = "as_graph st" and ?t = "touchEntityWithEdges (as_graph st) i (as_tracker st)"
  have s: "gsteps schema (pos {} st) (?g, {}, ?t)" by (rule touchEntityWithEdges_steps)
  have "gsteps schema (?g, {}, ?t) (deleteEntityForce i ?g, {}, ?t)"
    using touchEntityWithEdges_touched [OF indexed_edges [OF assms] refl]
    by (intro deleteEntityForce_steps gsteps_indexed [OF s assms]) auto
  with s show ?thesis by (simp add: deleteEntityStep_def Let_def)
qed



lemma resolveEdgeReference_stored:
  assumes "resolveEdgeReference g raw = Inr r"
  shows "r \<noteq> [] \<Longrightarrow> mget (g_Edges g) r \<noteq> None" and "r = [] \<Longrightarrow> TrimSpace raw \<noteq> [] \<Longrightarrow> keyed g \<Longrightarrow> mget (g_Edges g) (TrimSpace raw) = None"
  using assms by (auto simp: resolveEdgeReference_def Let_def find_Some_iff keyed_def split: if_splits option.splits)

lemma keyed_trimmed: "keyed g \<Longrightarrow> mget (g_Edges g) k = Some e \<Longrightarrow> TrimSpace k = k \<and> k \<noteq> []"
  unfolding keyed_def by (metis TrimSpace_CanonicalEdgeID CanonicalEdgeID_nonempty)

lemma touch_drop_edge:
  "gsteps schema (g, H, t) (dropEdge k g, H, touchEdge g k t)"
proof -
  have "gstep schema (g, H, t) (g, H, touchEdge g k t)" by (rule gstep.touch_edge)
  moreover have "gstep schema (g, H, touchEdge g k t) (dropEdge k g, H, touchEdge g k t)"
    by (rule gstep.drop_edge) (rule touched_touch)
  ultimately show ?thesis by (simp add: converse_rtranclp_into_rtranclp)
qed

lemma touch_edge_steps: "gsteps schema (g, H, t) (g, H, touchEdge g k t)"
  by (rule r_into_rtranclp, rule gstep.touch_edge)

lemma dropEdge_stored:
  "mget (g_Edges g) k = Some e \<Longrightarrow> dropEdge k g = (removeEdgeFromIndexes k e g)\<lparr>g_Edges := fmdrop k (g_Edges g)\<rparr>"
  by (simp add: dropEdge_def)

lemma deleteEdge_steps: "steps_op schema (\<lambda>st. deleteEdge_step st edgeID)"
proof (rule steps_opI)
  fix st st' assume step: "deleteEdge_step st edgeID = Inr st'" and ok: "indexed (pos {} st)"
  let ?g = "as_graph st"
  from step obtain r where id': "edgeID \<noteq> []" and r: "resolveEdgeReference ?g edgeID = Inr r"
    by (auto simp: deleteEdge_step_def split: if_splits)
  from ok have k: "keyed ?g" by (simp add: indexed_iff)
  show "gsteps schema (pos {} st) (pos {} st')"
  proof (cases "r = []")
    case False
    with resolveEdgeReference_stored(1) [OF r] obtain e where e: "mget (g_Edges ?g) r = Some e" by auto
    have "pos {} st' = (dropEdge r ?g, {}, touchEdge ?g r (as_tracker st))"
      using step id' r False e by (auto simp: deleteEdge_step_def dropEdge_stored mget_or_def)
    then show ?thesis using touch_drop_edge by simp
  next
    case True
    have "mget (g_Edges ?g) edgeID = None"
    proof (rule ccontr)
      assume "mget (g_Edges ?g) edgeID \<noteq> None"
      then show False using resolveEdgeReference_stored(2) [OF r True] keyed_trimmed [OF k, of edgeID] k by fastforce
    qed
    then have "pos {} st' = (?g, {}, touchEdge ?g edgeID (as_tracker st))"
      using step id' r True by (auto simp: deleteEdge_step_def fmdrop_stored)
    then show ?thesis by (simp add: r_into_rtranclp gstep.touch_edge)
  qed
qed

lemma removeEdge_backfilled [simp]: "removeEdgeFromIndexes k (backfillEdgeSources e v u) g = removeEdgeFromIndexes k e g"
  by (simp add: removeEdgeFromIndexes_def edgeAliasValues_def)

lemma deleteEdgeRequest_steps: "steps_op schema (\<lambda>st. deleteEdgeRequest_step version now st request)"
proof (rule steps_opI)
  fix st st' assume step: "deleteEdgeRequest_step version now st request = Inr st'" and ok: "indexed (pos {} st)"
  let ?g = "as_graph st"
  from step obtain k where k: "resolveEdgeDeleteRequest ?g request = Inr k" by (auto simp: deleteEdgeRequest_step_def)
  show "gsteps schema (pos {} st) (pos {} st')"
  proof (cases "k = [] \<or> mget (g_Edges ?g) k = None")
    case True
    then have "st' = st" using step k by (auto simp: deleteEdgeRequest_step_def split: if_splits)
    then show ?thesis by simp
  next
    case False
    then obtain e where "k \<noteq> []" "mget (g_Edges ?g) k = Some e" by auto
    then have "pos {} st' = (dropEdge k ?g, {}, touchEdge ?g k (as_tracker st)) \<or> pos {} st' = (?g, {}, touchEdge ?g k (as_tracker st))"
      using step k by (auto simp: deleteEdgeRequest_step_def Let_def dropEdge_stored split: if_splits)
    then show ?thesis by (auto simp: touch_edge_steps touch_drop_edge)
  qed
qed

lemma deleteEntityRequest_steps: "steps_op schema (\<lambda>st. deleteEntityRequest_step version now st request)"
  by (auto simp: deleteEntityRequest_step_def Let_def deleteEntityStep_steps intro!: steps_opI split: if_splits option.splits)

lemma deleteEntity_steps: "steps_op schema (\<lambda>st. deleteEntity_step st entityID)"
  by (auto simp: deleteEntity_step_def Let_def deleteEntityStep_steps intro!: steps_opI split: if_splits)

lemma deletePhase_steps: "steps_op schema (deletePhase version now mutations)"
  unfolding deletePhase_def
  by (intro steps_op_bind steps_op_foldM deleteEdge_steps deleteEdgeRequest_steps deleteEntityRequest_steps deleteEntity_steps)

section \<open>Schema\<close>

lemma step_twice: "r a b \<Longrightarrow> r b c \<Longrightarrow> r\<^sup>*\<^sup>* a c"
  by (rule converse_rtranclp_into_rtranclp [OF _ r_into_rtranclp])

lemma touch_drop_relation: "gsteps schema (g, H, t) (g\<lparr>g_RelationTypes := fmdrop k (g_RelationTypes g)\<rparr>, H, touchRelationType g k t)"
  by (rule step_twice, rule gstep.touch_relation, rule gstep.drop_relation, rule touched_touch)

lemma touch_put_relation: "gsteps schema (g, H, t) (g\<lparr>g_RelationTypes := fmupd k r (g_RelationTypes g)\<rparr>, H, touchRelationType g k t)"
  by (rule step_twice, rule gstep.touch_relation, rule gstep.put_relation, rule touched_touch)

lemma touch_drop_ci: "gsteps True (g, H, t) (g\<lparr>g_CITypes := fmdrop k (g_CITypes g)\<rparr>, H, touchCIType g k t)"
  by (rule step_twice, rule gstep.touch_ci, rule gstep.drop_ci, rule TrueI, rule touched_touch)

lemma touch_put_ci: "gsteps True (g, H, t) (g\<lparr>g_CITypes := fmupd k c (g_CITypes g)\<rparr>, H, touchCIType g k t)"
  by (rule step_twice, rule gstep.touch_ci, rule gstep.put_ci, rule TrueI, rule touched_touch)

lemma foldM_pair_steps:
  assumes "\<And>x st a st' a'. x \<in> set xs \<Longrightarrow> f (st, a) x = Inr (st', a') \<Longrightarrow> gsteps schema (pos {} st) (pos {} st')"
    and "foldM f (st, a) xs = Inr (st', a')"
  shows "gsteps schema (pos {} st) (pos {} st')"
  using assms
proof (induction xs arbitrary: st a)
  case (Cons x xs)
  from Cons.prems(2) obtain st1 a1 where s: "f (st, a) x = Inr (st1, a1)" "foldM f (st1, a1) xs = Inr (st', a')" by auto
  have "gsteps schema (pos {} st) (pos {} st1)" using Cons.prems(1) [of x st a st1 a1] s(1) by simp
  moreover have "gsteps schema (pos {} st1) (pos {} st')" by (rule Cons.IH [OF _ s(2)], rule Cons.prems(1)) auto
  ultimately show ?case by (rule rtranclp_trans)
qed simp

lemma fold_steps:
  assumes "\<And>x st. gsteps schema (pos H st) (pos H (f x st))"
  shows "gsteps schema (pos H st) (pos H (fold f xs st))"
proof (induction xs arbitrary: st)
  case (Cons x xs)
  from assms [of st x] Cons [of "f x st"] show ?case by simp
qed simp

lemma deleteTypedEdge_steps: "gsteps schema (pos H st) (pos H (deleteTypedEdge k st))"
  using touch_drop_edge by (simp add: deleteTypedEdge_def)

lemma relationTypeDeletes_steps: "steps_op schema (applyRelationTypeDeletes names)"
proof (rule steps_opI)
  fix st st' assume step: "applyRelationTypeDeletes names st = Inr st'"
  show "gsteps schema (pos {} st) (pos {} st')"
  proof (cases "names = []")
    case False
    with step obtain st1 deleted where st1: "foldM deleteRelationType_step (st, {}) names = Inr (st1, deleted)"
      and st': "st' = fold (\<lambda>name st2. fold deleteTypedEdge (sortedKeys (bucket (g_edgeTypeIndex (as_graph st2)) name)) st2) (sortedKeys deleted) st1"
      by (auto simp: applyRelationTypeDeletes_def)
    have "gsteps schema (pos {} st) (pos {} st1)"
      by (rule foldM_pair_steps [OF _ st1]) (auto simp: deleteRelationType_step_def touch_drop_relation split: if_splits)
    moreover have "gsteps schema (pos {} st1) (pos {} st')"
      unfolding st' by (intro fold_steps deleteTypedEdge_steps)
    ultimately show ?thesis by (rule rtranclp_trans)
  qed (use step in \<open>simp add: applyRelationTypeDeletes_def\<close>)
qed

lemma relationTypeUpserts_steps: "steps_op schema (applyRelationTypeUpserts relationTypes)"
proof (rule steps_opI)
  fix st st' assume step: "applyRelationTypeUpserts relationTypes st = Inr st'"
  show "gsteps schema (pos {} st) (pos {} st')"
  proof (cases "relationTypes = []")
    case False
    with step obtain affected where "foldM upsertRelationType_step (st, {}) relationTypes = Inr (st', affected)"
      by (auto simp: applyRelationTypeUpserts_def)
    then show ?thesis by (rule foldM_pair_steps [rotated]) (auto simp: upsertRelationType_step_def touch_put_relation)
  qed (use step in \<open>simp add: applyRelationTypeUpserts_def\<close>)
qed

lemma ciTypeMutations_steps: "steps_op True (applyCITypeMutations deletes upserts)"
proof (rule steps_opI)
  fix st st' assume step: "applyCITypeMutations deletes upserts st = Inr st'"
  show "gsteps True (pos {} st) (pos {} st')"
  proof (cases "deletes = [] \<and> upserts = []")
    case False
    with step obtain used st1 c1 st2 c2 kinds where
      d: "foldM (deleteCIType_step used) (st, {}) deletes = Inr (st1, c1)" and u: "foldM upsertCIType_step (st1, c1) upserts = Inr (st2, c2)"
      and st': "st' = st2\<lparr>as_graph := rebuildIdentityIndexesForKinds kinds (as_graph st2)\<rparr>"
      by (auto simp: applyCITypeMutations_def Let_def)
    have "gsteps True (pos {} st) (pos {} st1)"
      by (rule foldM_pair_steps [OF _ d]) (auto simp: deleteCIType_step_def touch_drop_ci split: if_splits)
    also have "gsteps True (pos {} st1) (pos {} st2)"
      by (rule foldM_pair_steps [OF _ u]) (auto simp: upsertCIType_step_def touch_put_ci)
    also have "gsteps True (pos {} st2) (pos {} st')" unfolding st' by (auto intro: r_into_rtranclp gstep.rebuild)
    finally show ?thesis .
  qed (use step in \<open>auto simp: applyCITypeMutations_def\<close>)
qed

lemma schemaPhase_steps: "steps_op True (schemaPhase mutations)"
  unfolding schemaPhase_def
  by (intro steps_op_bind relationTypeDeletes_steps ciTypeMutations_steps relationTypeUpserts_steps)

section \<open>What the indexes see of an entity\<close>

lemma identitySignatures_cong:
  assumes "ent_Kind a = ent_Kind b" "ent_Identity a = ent_Identity b" "ent_Fields a = ent_Fields b"
    "ent_Confidence a = ent_Confidence b"
    "map (\<lambda>s. (es_Source s, es_ExternalID s, es_Confidence s)) (ent_Sources a) = map (\<lambda>s. (es_Source s, es_ExternalID s, es_Confidence s)) (ent_Sources b)"
  shows "identitySignatures ciTypes legacy a = identitySignatures ciTypes legacy b"
proof -
  have "identityFieldValue a = identityFieldValue b" using assms(2,3) by (intro ext) (simp add: identityFieldValue_def split: option.splits)
  then have "identityScalars a = identityScalars b" by (intro ext) (simp add: identityScalars_def)
  then have "ciIdentitySignature a = ciIdentitySignature b" by (intro ext) (simp add: ciIdentitySignature_def)
  then have k: "keySignature legacy a = keySignature legacy b" by (intro ext) (simp add: keySignature_def)
  have fst: "map es_Confidence (ent_Sources a) = map es_Confidence (ent_Sources b)"
    using arg_cong [OF assms(5), of "map (\<lambda>(x, y, z). z)"] by (simp add: comp_def)
  have c: "fold (\<lambda>source best. if fless best (es_Confidence source) then es_Confidence source else best) xs c =
      fold (\<lambda>x best. if fless best x then x else best) (map es_Confidence xs) c" for xs c
    by (induction xs arbitrary: c) auto
  have "entityConfidence a = entityConfidence b" by (simp only: entityConfidence_def c assms(4) fst)
  moreover have s: "sourceIdentitySignatures legacy xs =
      map (\<lambda>(x, y, z). sourceIdentitySignature legacy (zero_EntitySource\<lparr>es_Source := x, es_ExternalID := y\<rparr>)) (map (\<lambda>s. (es_Source s, es_ExternalID s, es_Confidence s)) xs)" for xs
    by (simp add: sourceIdentitySignatures_def sourceIdentitySignature_def)
  have "sourceIdentitySignatures legacy (ent_Sources a) = sourceIdentitySignatures legacy (ent_Sources b)" by (simp only: s assms(5))
  ultimately show ?thesis using k assms(1) by (simp add: identitySignatures_def ciIdentitySignatures_def cong: option.case_cong)
qed

lemma clear_simps [simp]:
  "ent_ID (clearEntityWriteMetadata e) = ent_ID e" "ent_Kind (clearEntityWriteMetadata e) = ent_Kind e"
  "ent_Fields (clearEntityWriteMetadata e) = ent_Fields e" "ent_MergedFrom (clearEntityWriteMetadata e) = ent_MergedFrom e"
  "ent_Sources (clearEntityWriteMetadata e) = ent_Sources e"
  by (simp_all add: clearEntityWriteMetadata_def)

lemma clear_signatures [simp]: "identitySignatures ciTypes legacy (clearEntityWriteMetadata e) = identitySignatures ciTypes legacy e"
  by (rule identitySignatures_cong) (simp_all add: clearEntityWriteMetadata_def)

lemma clear_indexes [simp]:
  "addEntityToIndexes i (clearEntityWriteMetadata e) g = addEntityToIndexes i e g"
  "updateEntityIndexes i b (clearEntityWriteMetadata e) g = updateEntityIndexes i b e g"
  "validateIdentityIndexAvailable g (clearEntityWriteMetadata e) = validateIdentityIndexAvailable g e"
proof -
  have a: "entityAliasValues (clearEntityWriteMetadata e) = entityAliasValues e" by (simp add: entityAliasValues_def)
  then have al: "addEntityAliasesToIndex i (clearEntityWriteMetadata e) = addEntityAliasesToIndex i e"
    by (intro ext) (simp add: addEntityAliasesToIndex_def)
  have u: "updateField_before i b (clearEntityWriteMetadata e) = updateField_before i b e"
    "updateField_after i b (clearEntityWriteMetadata e) = updateField_after i b e"
    by (intro ext, simp add: updateField_before_def updateField_after_def split_beta Let_def split: option.splits)+
  show 1: "addEntityToIndexes i (clearEntityWriteMetadata e) g = addEntityToIndexes i e g" for g
    by (simp add: addEntityToIndexes_def al)
  show "updateEntityIndexes i b (clearEntityWriteMetadata e) g = updateEntityIndexes i b e g"
    by (simp add: updateEntityIndexes_def 1 al u Let_def)
  show "validateIdentityIndexAvailable g (clearEntityWriteMetadata e) = validateIdentityIndexAvailable g e"
    unfolding validateIdentityIndexAvailable_def by (simp only: clear_simps clear_signatures)
qed

lemma fold_commute_upd: "(\<And>x s. f x (u s) = u (f x s)) \<Longrightarrow> fold f xs (u s) = u (fold f xs s)"
  by (induction xs arbitrary: s) auto

lemma addEntity_entities_upd [simp]:
  "addEntityToIndexes i e (g\<lparr>g_Entities := E\<rparr>) = (addEntityToIndexes i e g)\<lparr>g_Entities := E\<rparr>"
proof -
  have f: "addFieldToIndexes i k x (s\<lparr>g_Entities := E\<rparr>) = (addFieldToIndexes i k x s)\<lparr>g_Entities := E\<rparr>" for k x s
    by (cases x) (simp add: addFieldToIndexes_def addEntityFieldIndex_def adjustNonScalarField_def invalidateFieldValueOrder_def
      invalidateFieldKeyOrder_def putFieldValues_def fieldValues_def Let_def split: option.splits)
  have "fold (addFieldToIndexes i k) xs (s\<lparr>g_Entities := E\<rparr>) = (fold (addFieldToIndexes i k) xs s)\<lparr>g_Entities := E\<rparr>" for k xs s
    by (rule fold_commute_upd) (rule f)
  note f = this
  show ?thesis
    by (simp add: addEntityToIndexes_def Let_def addEntityAliasesToIndex_def invalidateEntityKindOrder_def flip: f)
      (rule arg_cong [of _ _ "fold _ _"], rule Graph.equality, simp_all)
qed

lemma identity_available_upd [simp]:
  "validateIdentityIndexAvailable (g\<lparr>g_Entities := E\<rparr>) e = validateIdentityIndexAvailable g e"
  by (simp add: validateIdentityIndexAvailable_def identities_def)

section \<open>Upserts\<close>

lemma stamp_frame [simp]:
  "ent_ID (stampFieldSources e v u) = ent_ID e" "ent_Kind (stampFieldSources e v u) = ent_Kind e" "ent_Fields (stampFieldSources e v u) = ent_Fields e"
proof -
  have "(ent_ID (stampFieldSources e v u), ent_Kind (stampFieldSources e v u), ent_Fields (stampFieldSources e v u)) = (ent_ID e, ent_Kind e, ent_Fields e)"
    unfolding stampFieldSources_def Let_def
    by (subst fold_frame [where sel = "\<lambda>e. (ent_ID e, ent_Kind e, ent_Fields e)"]) (simp_all add: setFieldSource_def)
  then show "ent_ID (stampFieldSources e v u) = ent_ID e" "ent_Kind (stampFieldSources e v u) = ent_Kind e" "ent_Fields (stampFieldSources e v u) = ent_Fields e"
    by simp_all
qed

lemma backfill_kind [simp]: "ent_Kind (backfillFieldSources e) = ent_Kind e"
  unfolding backfillFieldSources_def Let_def
  by (subst fold_frame [where sel = ent_Kind]) (simp_all add: setFieldSource_def)

lemma mergeEntityForUpsert_frame:
  assumes "mergeEntityForUpsert existing incoming targetID specs version now = (merged, report)"
  shows "ent_ID merged = targetID" "ent_Kind merged = ent_Kind existing"
proof -
  obtain m s where f: "fold (mergeUpsert_step incoming targetID specs version now) (entries (ent_Fields incoming)) (backfillFieldSources existing, []) = (m, s)"
    by fastforce
  have "ent_Kind (fst (fold (mergeUpsert_step incoming targetID specs version now) xs p)) = ent_Kind (fst p)" for xs p
    by (rule fold_frame) (auto simp: mergeUpsert_step_def put_field_def setFieldSource_def Let_def split: prod.splits option.splits)
  from this [of "entries (ent_Fields incoming)" "(backfillFieldSources existing, [])"] f have "ent_Kind m = ent_Kind existing" by simp
  with assms f show "ent_ID merged = targetID" "ent_Kind merged = ent_Kind existing"
    by (auto simp: mergeEntityForUpsert_def mergeProvenance_def)
qed


lemma resolveEntityID_nonempty: "resolveEntityID g e = Inr i \<Longrightarrow> i \<noteq> []"
  by (auto simp: resolveEntityID_def split: if_splits)

lemma prepareTarget_spec:
  assumes "prepareTarget g n flds target version now = Inr p"
  shows "pe_targetID p = target" "ent_ID (pe_entity p) = target"
    "mget (g_Entities g) target = (if pe_existed p then Some (pe_previous p) else None)"
    "pe_existed p \<Longrightarrow> ent_Kind (pe_entity p) = ent_Kind (pe_previous p)"
  using assms by (auto simp: prepareTarget_def Let_def mergeEntityForUpsert_frame split: option.splits if_splits prod.splits)

lemma prepareEntityUpsert_spec:
  assumes "prepareEntityUpsert g entity cache version now = Inr (p, cache')"
  shows "pe_targetID p \<noteq> []" "ent_ID (pe_entity p) = pe_targetID p"
    "mget (g_Entities g) (pe_targetID p) = (if pe_existed p then Some (pe_previous p) else None)"
    "pe_existed p \<Longrightarrow> ent_Kind (pe_entity p) = ent_Kind (pe_previous p)"
proof -
  from assms obtain n flds target where t: "resolveEntityID g n = Inr target" and p: "prepareTarget g n flds target version now = Inr p"
    by (auto simp: prepareEntityUpsert_def Let_def)
  from resolveEntityID_nonempty [OF t] prepareTarget_spec [OF p]
  show "pe_targetID p \<noteq> []" "ent_ID (pe_entity p) = pe_targetID p"
    "mget (g_Entities g) (pe_targetID p) = (if pe_existed p then Some (pe_previous p) else None)"
    "pe_existed p \<Longrightarrow> ent_Kind (pe_entity p) = ent_Kind (pe_previous p)" by simp_all
qed

lemma touch_put_entity:
  assumes "mget (g_Entities g) i = None" "ent_ID e = i" "i \<noteq> []" "validateIdentityIndexAvailable g e = Inr ()"
  shows "gsteps schema (g, {}, t) ((addEntityToIndexes i e g)\<lparr>g_Entities := fmupd i e (g_Entities g)\<rparr>, {}, touchEntity g i t)"
proof -
  have "gstep schema (g, {}, touchEntity g i t) ((addEntityToIndexes i e g)\<lparr>g_Entities := fmupd i e (g_Entities g)\<rparr>, {} - {i}, touchEntity g i t)"
    by (rule gstep.insert) (simp_all add: assms touched_touch)
  with step_twice [of "gstep schema", OF gstep.touch_entity] show ?thesis by simp
qed

lemma touch_update_entity:
  assumes "mget (g_Entities g) i = Some b" "ent_ID a = i" "ent_Kind a = ent_Kind b"
    "validateIdentityIndexAvailable g a = Inr () \<or> graphIdentitySignatures g a = graphIdentitySignatures g b"
  shows "gsteps schema (g, {}, t) ((updateEntityIndexes i b a g)\<lparr>g_Entities := fmupd i a (g_Entities g)\<rparr>, {}, touchEntity g i t)"
  by (rule step_twice, rule gstep.touch_entity, rule gstep.update) (use assms in \<open>auto simp: touched_touch\<close>)


lemma upsertEntity_steps: "steps_op schema (\<lambda>st. upsertEntity version now st entity)"
proof (rule steps_opI)
  fix st st' assume step: "upsertEntity version now st entity = Inr st'"
  let ?g = "as_graph st"
  from step obtain p cache where p: "prepareEntityUpsert ?g entity (as_specs st) version now = Inr (p, cache)"
    by (auto simp: upsertEntity_def)
  note spec = prepareEntityUpsert_spec [OF p]
  define n where "n = (if pe_existed p then pe_entity p else stampFieldSources (pe_entity p) version now)\<lparr>ent_UpdatedAt := now, ent_Version := version\<rparr>"
  have n: "ent_ID n = pe_targetID p" "pe_existed p \<Longrightarrow> ent_Kind n = ent_Kind (pe_previous p)" using spec by (simp_all add: n_def)
  from step p have free: "validateIdentityIndexAvailable ?g n = Inr ()" and st':
    "pos {} st' = ((if pe_existed p then updateEntityIndexes (pe_targetID p) (pe_previous p) n ?g else addEntityToIndexes (pe_targetID p) n ?g)
        \<lparr>g_Entities := fmupd (pe_targetID p) (clearEntityWriteMetadata n) (g_Entities ?g)\<rparr>, {}, touchEntity ?g (pe_targetID p) (as_tracker st))"
    using spec(2) by (auto simp: upsertEntity_def Let_def n_def)
  show "gsteps schema (pos {} st) (pos {} st')"
  proof (cases "pe_existed p")
    case True
    then show ?thesis unfolding st'
      using touch_update_entity [of ?g "pe_targetID p" "pe_previous p" "clearEntityWriteMetadata n" schema "as_tracker st"] spec(3) n free by simp
  next
    case False
    then show ?thesis unfolding st'
      using touch_put_entity [of ?g "pe_targetID p" "clearEntityWriteMetadata n" schema "as_tracker st"] spec(1,3) n free by simp
  qed
qed

section \<open>Stale sources\<close>

lemma if_InrE: "(if b then x else y) = Inr z \<Longrightarrow> (b \<Longrightarrow> x = Inr z \<Longrightarrow> P) \<Longrightarrow> (\<not> b \<Longrightarrow> y = Inr z \<Longrightarrow> P) \<Longrightarrow> P"
  by (cases b) auto

lemma staleEntity_cases:
  assumes "staleEntity_step request version now st i = Inr st'"
  defines "e \<equiv> zero_entity_at (as_graph st) i"
  defines "e' \<equiv> (markEntitySourceStale e (ssr_Source request) now)\<lparr>ent_Version := version, ent_UpdatedAt := now\<rparr>"
  shows "st' = st \<or> (\<exists>cs. st' = suppress cs st) \<or> st' = deleteEntityStep i st \<or>
    (entitySourceMissing e (ssr_Source request) (observedExternalIDSet (ssr_ObservedExternalIDs request)) \<and>
     st' = affect [i] (on_graph (\<lambda>g. (updateEntityIndexes i (zero_entity_at g i) e' g)\<lparr>g_Entities := fmupd i e' (g_Entities g)\<rparr>)
                         (touch (\<lambda>g. touchEntity g i) st)))"
  using assms(1) unfolding staleEntity_step_def Let_def e'_def e_def
  by (elim if_InrE; (drule Inr_inject)?; blast)

lemma staleEntity_steps: "steps_op schema (\<lambda>st. staleEntity_step request version now st i)"
proof (rule steps_opI)
  fix st st' assume step: "staleEntity_step request version now st i = Inr st'" and ok: "indexed (pos {} st)"
  let ?g = "as_graph st" and ?e = "zero_entity_at (as_graph st) i"
  let ?e' = "(markEntitySourceStale ?e (ssr_Source request) now)\<lparr>ent_Version := version, ent_UpdatedAt := now\<rparr>"
  consider "st' = st" | cs where "st' = suppress cs st" | "st' = deleteEntityStep i st" |
    "entitySourceMissing ?e (ssr_Source request) (observedExternalIDSet (ssr_ObservedExternalIDs request))"
    "st' = affect [i] (on_graph (\<lambda>g. (updateEntityIndexes i (zero_entity_at g i) ?e' g)\<lparr>g_Entities := fmupd i ?e' (g_Entities g)\<rparr>)
                         (touch (\<lambda>g. touchEntity g i) st))"
    using staleEntity_cases [OF step] by blast
  then show "gsteps schema (pos {} st) (pos {} st')"
  proof cases
    case 4
    then have stored: "mget (g_Entities ?g) i = Some ?e"
      by (cases "mget (g_Entities ?g) i") (auto simp: zero_entity_at_def mget_or_def entitySourceMissing_def zero_Entity_def Let_def)
    with ok have "ent_ID ?e = i" by (simp add: indexed_iff keyed_def)
    moreover have "graphIdentitySignatures ?g ?e' = graphIdentitySignatures ?g ?e"
      by (rule identitySignatures_cong) (simp_all add: markEntitySourceStale_def comp_def)
    ultimately have "gsteps schema (pos {} st) ((updateEntityIndexes i ?e ?e' ?g)\<lparr>g_Entities := fmupd i ?e' (g_Entities ?g)\<rparr>, {}, touchEntity ?g i (as_tracker st))"
      by (intro touch_update_entity stored) (simp_all add: markEntitySourceStale_def)
    then show ?thesis by (simp add: 4(2))
  qed (use deleteEntityStep_steps [OF ok] in simp_all)
qed

lemma markStale_steps: "steps_op schema (\<lambda>st. markStale version now st request)"
proof (rule steps_opI)
  fix st st' assume step: "markStale version now st request = Inr st'" and ok: "indexed (pos {} st)"
  then obtain st1 where "applySourceStale version now st request = Inr st1" "pos {} st' = pos {} st1"
    by (auto simp: markStale_def Let_def)
  moreover from this(1) have "foldM (staleEntity_step (trimStaleRequest request) version now) (st\<lparr>as_report := zero_ApplyReport\<rparr>)
      (skeys (g_Entities (as_graph st))) = Inr st1" by (auto simp: applySourceStale_def Let_def split: if_splits)
  then have "gsteps schema (pos {} (st\<lparr>as_report := zero_ApplyReport\<rparr>)) (pos {} st1)"
    by (rule steps_opD [OF steps_op_foldM [OF staleEntity_steps]]) (use ok in simp)
  ultimately show "gsteps schema (pos {} st) (pos {} st')" by simp
qed

section \<open>Merges\<close>

lemma touch_fold_steps:
  assumes "\<And>x t. gsteps schema (g, H, t) (g, H, f x t)"
  shows "gsteps schema (g, H, t) (g, H, fold f xs t)"
proof (induction xs arbitrary: t)
  case (Cons x xs)
  with assms [of t x] show ?case by (auto intro: rtranclp_trans)
qed simp

text \<open>Whatever one of the touches of a fold touches is touched at the end.\<close>

lemma touch_fold_touched:
  assumes "\<And>x t. gsteps False (g, {}, t) (g, {}, f x t)" and "x \<in> set xs"
  shows "(\<And>t. touched (f x t) (tr_edges (f x t)) k) \<Longrightarrow> touched (fold f xs t) (tr_edges (fold f xs t)) k"
    "(\<And>t. touched (f x t) (tr_entities (f x t)) k) \<Longrightarrow> touched (fold f xs t) (tr_entities (fold f xs t)) k"
proof -
  from assms(2) obtain ys zs where xs: "xs = ys @ x # zs" by (auto simp: in_set_conv_decomp)
  let ?t = "f x (fold f ys t)"
  have "gsteps False (g, {}, ?t) (g, {}, fold f zs ?t)" by (rule touch_fold_steps) (rule assms(1))
  note m = gsteps_touched [OF this, of k]
  show "(\<And>t. touched (f x t) (tr_edges (f x t)) k) \<Longrightarrow> touched (fold f xs t) (tr_edges (fold f xs t)) k"
    "(\<And>t. touched (f x t) (tr_entities (f x t)) k) \<Longrightarrow> touched (fold f xs t) (tr_entities (fold f xs t)) k"
    using m by (simp_all add: xs)
qed

lemma touchMerge_steps: "gsteps schema (g, H, t) (g, H, touchMerge g request t)"
  unfolding touchMerge_def
  by (rule rtranclp_trans [OF touchEntityWithEdges_steps touch_fold_steps]) (simp add: touchEntityWithEdges_steps)

lemma touchMerge_touched:
  assumes "edge_index_ok g D" and "i = mr_TargetID request \<or> i \<in> set (mr_SourceIDs request)" and "t' = touchMerge g request t"
  shows "touched t' (tr_entities t') i" "k \<in> set (incidentEdgeIDs g i) \<Longrightarrow> touched t' (tr_edges t') k"
proof -
  let ?f = "\<lambda>id' t'. if id' \<noteq> mr_TargetID request then touchEntityWithEdges g id' t' else t'"
  let ?t = "touchEntityWithEdges g (mr_TargetID request) t"
  have t': "t' = fold ?f (mr_SourceIDs request) ?t" by (simp add: assms(3) touchMerge_def)
  have st: "gsteps False (g, {}, t) (g, {}, ?f x t)" for x t by (simp add: touchEntityWithEdges_steps)
  have "gsteps False (g, {}, ?t) (g, {}, t')" unfolding t' by (rule touch_fold_steps) (rule st)
  note m = gsteps_touched [OF this] and w = touchEntityWithEdges_touched [OF assms(1) refl]
  show "touched t' (tr_entities t') i"
    using m(2) [of i] w(1) [of i] touch_fold_touched(2) [of g ?f i "mr_SourceIDs request" i ?t, OF st] assms(2)
    by (cases "i = mr_TargetID request") (auto simp: t')
  show "touched t' (tr_edges t') k" if "k \<in> set (incidentEdgeIDs g i)"
    using m(1) [of k] w(2) [OF that] touch_fold_touched(1) [of g ?f i "mr_SourceIDs request" k ?t, OF st] assms(2)
    by (cases "i = mr_TargetID request") (auto simp: t')
qed

lemma drop_edge_steps: "touched t (tr_edges t) k \<Longrightarrow> gsteps schema (g, H, t) (dropEdge k g, H, t)"
  by (rule r_into_rtranclp, rule gstep.drop_edge)

lemma put_edge_steps:
  "touched t (tr_edges t) k \<Longrightarrow> mget (g_Edges g) k = None \<Longrightarrow> edge_ID e = k \<Longrightarrow> CanonicalEdgeID e = k \<Longrightarrow>
   gsteps schema (g, H, t) (addEdgeToIndexes k e (g\<lparr>g_Edges := fmupd k e (g_Edges g)\<rparr>), H, t)"
  by (rule r_into_rtranclp, rule gstep.put_edge)

lemma redirectEdge_steps:
  assumes step: "redirectEdge_step source target version now (st, A) k = Inr (st', A')" and "touched (as_tracker st) (tr_edges (as_tracker st)) k"
  shows "gsteps schema (pos H st) (pos H st')"
proof (cases "mget (g_Edges (as_graph st)) k")
  case None
  with step show ?thesis by (simp add: redirectEdge_step_def)
next
  case (Some edge)
  let ?n = "CanonicalEdgeID (redirectEdge source target edge)"
  let ?t = "touchEdge (as_graph st) ?n (as_tracker st)"
  let ?g1 = "dropEdge k (as_graph st)"
  let ?c = "redirectEdge source target edge # (case mget (g_Edges ?g1) ?n of None \<Rightarrow> [] | Some existing \<Rightarrow> [existing])"
  let ?g2 = "dropEdge ?n ?g1"
  from step Some obtain e where e: "mget (fst (mergeEdgeList ?c version now)) ?n = Some e"
    and st': "pos H st' = (addEdgeToIndexes ?n e (?g2\<lparr>g_Edges := fmupd ?n e (g_Edges ?g2)\<rparr>), H, ?t)"
    by (auto simp: redirectEdge_step_def Let_def split: option.splits)
  from mergeEdgeList_spec [of ?c version now "fst (mergeEdgeList ?c version now)" "snd (mergeEdgeList ?c version now)"] e
  have c: "edge_ID e = ?n" "CanonicalEdgeID e = ?n" by auto
  have "gsteps schema (pos H st) (as_graph st, H, ?t)" by (rule touch_edge_steps)
  also have "gsteps schema (as_graph st, H, ?t) (?g1, H, ?t)" by (rule drop_edge_steps) (rule touched_mono, rule assms(2))
  also have "gsteps schema (?g1, H, ?t) (?g2, H, ?t)" by (rule drop_edge_steps) (rule touched_touch)
  also have "gsteps schema (?g2, H, ?t) (pos H st')"
    unfolding st' by (rule put_edge_steps) (simp_all add: touched_touch dropEdge_frame c)
  finally show ?thesis .
qed

lemma redirectEdges_steps:
  assumes "foldM (redirectEdge_step source target version now) (st, A) ks = Inr (st', A')"
    and "\<And>k. k \<in> set ks \<Longrightarrow> touched (as_tracker st) (tr_edges (as_tracker st)) k"
  shows "gsteps schema (pos H st) (pos H st')"
  using assms
proof (induction ks arbitrary: st A)
  case (Cons k ks)
  then obtain st1 A1 where s: "redirectEdge_step source target version now (st, A) k = Inr (st1, A1)"
    "foldM (redirectEdge_step source target version now) (st1, A1) ks = Inr (st', A')" by auto
  have 1: "gsteps schema (pos H st) (pos H st1)" using s(1) Cons.prems(2) [of k] by (simp add: redirectEdge_steps)
  have "touched (as_tracker st1) (tr_edges (as_tracker st1)) k'" if "k' \<in> set ks" for k'
    using gsteps_touched(1) [OF 1, of k'] Cons.prems(2) [of k'] that by simp
  from Cons.IH [OF s(2) this] 1 show ?case by simp
qed simp

lemma redirectEdge_entities:
  "redirectEdge_step source target version now (st, A) k = Inr (st', A') \<Longrightarrow> g_Entities (as_graph st') = g_Entities (as_graph st)"
  by (auto simp: redirectEdge_step_def Let_def dropEdge_frame split: option.splits)

lemma redirectMergeEdges_entities:
  assumes "redirectMergeEdges source target version now (st, A) = Inr (st', A')"
  shows "g_Entities (as_graph st') = g_Entities (as_graph st)"
proof -
  have "(\<lambda>(s, a). g_Entities (as_graph s) = g_Entities (as_graph st)) (st', A')"
    by (rule foldM_invariant [OF assms [unfolded redirectMergeEdges_def split_conv]]) (auto dest: redirectEdge_entities)
  then show ?thesis by simp
qed

text \<open>The state of a merge: reached by steps from the touched start, the target out of the indexes.\<close>

definition merging :: "bool \<Rightarrow> MergeRequest \<Rightarrow> step_state \<Rightarrow> apply_state \<Rightarrow> bool" where
  "merging schema request s0 st \<longleftrightarrow> gsteps schema s0 (pos {mr_TargetID request} st) \<and> indexed (pos {mr_TargetID request} st)"

lemma mergeEntity_steps:
  assumes step: "mergeEntity_step request flds version now (st, target, A) source = Inr (st', target', A')"
    and m: "merging schema request (g0, H0, t0) st" and src: "source \<in> set (mr_SourceIDs request)"
    and e0: "edge_index_ok g0 (g_Edges g0)"
    and t0: "\<And>i. i \<in> set (mr_SourceIDs request) \<Longrightarrow> touched t0 (tr_entities t0) i"
      "\<And>i k. i \<in> set (mr_SourceIDs request) \<Longrightarrow> k \<in> set (incidentEdgeIDs g0 i) \<Longrightarrow> touched t0 (tr_edges t0) k"
  shows "merging schema request (g0, H0, t0) st'"
proof (cases "source = mr_TargetID request")
  case True
  with step m show ?thesis by (simp add: mergeEntity_step_def)
next
  case False
  let ?H = "{mr_TargetID request}"
  from step False obtain e st1 where e: "mget (g_Entities (as_graph st)) source = Some e"
    and r: "redirectMergeEdges source (mr_TargetID request) version now (st, A) = Inr (st1, A')"
    and st': "pos ?H st' = ((removeEntityFromIndexes source e (as_graph st1))\<lparr>g_Entities := fmdrop source (g_Entities (as_graph st1))\<rparr>, ?H, as_tracker st1)"
    by (auto simp: mergeEntity_step_def Let_def split: option.splits if_splits)
  from m have s0: "gsteps schema (g0, H0, t0) (pos ?H st)" and ok: "indexed (pos ?H st)" by (simp_all add: merging_def)
  have inc: "touched (as_tracker st) (tr_edges (as_tracker st)) k" if "k \<in> set (incidentEdgeIDs (as_graph st) source)" for k
  proof (rule ccontr)
    assume n: "\<not> touched (as_tracker st) (tr_edges (as_tracker st)) k"
    with gsteps_edges [OF s0, of k] have same: "mget (g_Edges (as_graph st)) k = mget (g_Edges g0) k" by blast
    with that have "k \<in> set (incidentEdgeIDs g0 source)"
      by (simp add: incident_iff [OF e0] incident_iff [OF indexed_edges [OF ok]])
    with t0(2) [OF src] gsteps_touched(1) [OF s0, of k] n show False by blast
  qed
  have 1: "gsteps schema (pos ?H st) (pos ?H st1)"
    using r by (intro redirectEdges_steps [OF _ inc]) (auto simp: redirectMergeEdges_def)
  note s1 = rtranclp_trans [OF s0 1]
  have "gstep schema (pos ?H st1) (removeEntityFromIndexes source e (as_graph st1), insert source ?H, as_tracker st1)"
    by (rule gstep.detach) (use e False redirectMergeEdges_entities [OF r] in auto)
  moreover have "gstep schema (removeEntityFromIndexes source e (as_graph st1), insert source ?H, as_tracker st1)
      ((removeEntityFromIndexes source e (as_graph st1))\<lparr>g_Entities := fmdrop source (g_Entities (removeEntityFromIndexes source e (as_graph st1)))\<rparr>,
       insert source ?H - {source}, as_tracker st1)"
    by (rule gstep.erase) (use gsteps_touched(2) [OF s1, of source] t0(1) [OF src] in simp_all)
  moreover have "insert source ?H - {source} = ?H" using False by auto
  ultimately have "gsteps schema (pos ?H st1) (pos ?H st')" unfolding st' by (simp add: step_twice)
  with s1 1 ok show ?thesis by (auto simp: merging_def intro: rtranclp_trans gsteps_indexed)
qed

lemma mergeLoop_steps:
  assumes "foldM (mergeEntity_step request flds version now) (st, target, A) sources = Inr (st', target', A')"
    and "merging schema request (g0, H0, t0) st" and "set sources \<subseteq> set (mr_SourceIDs request)"
    and "edge_index_ok g0 (g_Edges g0)"
    and "\<And>i. i \<in> set (mr_SourceIDs request) \<Longrightarrow> touched t0 (tr_entities t0) i"
    and "\<And>i k. i \<in> set (mr_SourceIDs request) \<Longrightarrow> k \<in> set (incidentEdgeIDs g0 i) \<Longrightarrow> touched t0 (tr_edges t0) k"
  shows "merging schema request (g0, H0, t0) st'"
proof -
  have "(\<lambda>(s, _). merging schema request (g0, H0, t0) s) (st', target', A')"
    using assms(1) by (rule foldM_invariant) (use assms(2-) in \<open>auto intro: mergeEntity_steps\<close>)
  then show ?thesis by simp
qed

text \<open>A successful merge, taken apart.\<close>

lemma applyMergeE:
  assumes "applyMerge version now st request = Inr st'"
  obtains target0 flds cache st2 st3 target1 A v target g3 g4 where
    "mget (g_Entities (as_graph st)) (mr_TargetID request) = Some target0"
    "effectiveFieldsCached (g_CITypes (as_graph st)) (ent_Kind target0) (as_specs st) = Inr (flds, cache)"
    "st2 = on_graph (removeEntityFromIndexes (ent_ID target0) target0) ((affect [mr_TargetID request] st)\<lparr>as_specs := cache\<rparr>)"
    "foldM (mergeEntity_step request flds version now) (st2, target0, {}) (mr_SourceIDs request) = Inr (st3, target1, A)"
    "target = target1\<lparr>ent_ID := mr_TargetID request, ent_Version := version, ent_UpdatedAt := now\<rparr>"
    "g3 = (as_graph st3)\<lparr>g_Entities := fmupd (mr_TargetID request) target (g_Entities (as_graph st3))\<rparr>"
    "validateEntityFieldsWithSpecs target flds = Inr ()" "validate g3 target (as_validator st3) = Inr v"
    "validateIdentityIndexAvailable g3 target = Inr ()" "g4 = addEntityToIndexes (mr_TargetID request) target g3"
    "validateAffectedMergeEdges g4 A = Inr ()" "st' = st3\<lparr>as_graph := g4, as_validator := add target v\<rparr>"
proof -
  from assms obtain target0 where t0: "mget (g_Entities (as_graph st)) (mr_TargetID request) = Some target0"
    by (auto simp: applyMerge_def split: option.splits)
  define st1 where "st1 = affect [mr_TargetID request] st"
  have s1: "as_graph st1 = as_graph st" "as_specs st1 = as_specs st" by (simp_all add: st1_def affect_def)
  from assms t0 obtain flds cache where f: "effectiveFieldsCached (g_CITypes (as_graph st)) (ent_Kind target0) (as_specs st) = Inr (flds, cache)"
    by (auto simp: applyMerge_def Let_def s1 st1_def [symmetric])
  define st2 where "st2 = on_graph (removeEntityFromIndexes (ent_ID target0) target0) (st1\<lparr>as_specs := cache\<rparr>)"
  from assms t0 f obtain st3 target1 A where l: "foldM (mergeEntity_step request flds version now) (st2, target0, {}) (mr_SourceIDs request) = Inr (st3, target1, A)"
    by (auto simp: applyMerge_def Let_def s1 st1_def [symmetric] st2_def [symmetric])
  define target where "target = target1\<lparr>ent_ID := mr_TargetID request, ent_Version := version, ent_UpdatedAt := now\<rparr>"
  define g3 where "g3 = (as_graph st3)\<lparr>g_Entities := fmupd (mr_TargetID request) target (g_Entities (as_graph st3))\<rparr>"
  define g4 where "g4 = addEntityToIndexes (mr_TargetID request) target g3"
  from assms t0 f l obtain v where "validateEntityFieldsWithSpecs target flds = Inr ()" "validate g3 target (as_validator st3) = Inr v"
    "validateIdentityIndexAvailable g3 target = Inr ()" "validateAffectedMergeEdges g4 A = Inr ()" "st' = st3\<lparr>as_graph := g4, as_validator := add target v\<rparr>"
    by (simp only: applyMerge_def Let_def s1 st1_def [symmetric] st2_def [symmetric] option.case map_sum.simps rbind_simps split_conv id_apply
        target_def [symmetric] g3_def [symmetric] g4_def [symmetric] rbind_eq_Inr) auto
  from that [OF t0 f st2_def [unfolded st1_def] l target_def g3_def this(1,2,3) g4_def this(4,5)] show thesis .
qed

lemma applyMerge_steps:
  assumes step: "applyMerge version now st request = Inr st'" and ok: "indexed (pos {} st)"
    and t: "\<And>i. i = mr_TargetID request \<or> i \<in> set (mr_SourceIDs request) \<Longrightarrow> touched (as_tracker st) (tr_entities (as_tracker st)) i"
      "\<And>i k. i \<in> set (mr_SourceIDs request) \<Longrightarrow> k \<in> set (incidentEdgeIDs (as_graph st) i) \<Longrightarrow> touched (as_tracker st) (tr_edges (as_tracker st)) k"
  shows "gsteps schema (pos {} st) (pos {} st')"
proof -
  let ?T = "mr_TargetID request"
  from step show ?thesis
  proof (cases rule: applyMergeE)
    case (1 target0 flds cache st2 st3 target1 A v target g3 g4)
    from ok 1(1) have id0: "ent_ID target0 = ?T" "?T \<noteq> []" by (auto simp: indexed_iff keyed_def)
    have "gstep schema (pos {} st) (pos {?T} st2)"
      using gstep.detach [of "as_graph st" ?T target0 "{}" schema "as_tracker st"] 1(1) by (simp add: 1(3) id0)
    then have 0: "gsteps schema (pos {} st) (pos {?T} st2)" by (rule r_into_rtranclp)
    then have "merging schema request (pos {} st) st2" using gsteps_indexed [OF 0 ok] by (simp add: merging_def)
    then have m: "merging schema request (pos {} st) st3"
      by (rule mergeLoop_steps [OF 1(4)]) (use t indexed_edges [OF ok] in auto)
    then have s: "gsteps schema (pos {} st) (pos {?T} st3)" by (simp add: merging_def)
    have "gstep schema (pos {?T} st3) ((addEntityToIndexes ?T target (as_graph st3))\<lparr>g_Entities := fmupd ?T target (g_Entities (as_graph st3))\<rparr>, {?T} - {?T}, as_tracker st3)"
      by (rule gstep.insert) (use gsteps_touched(2) [OF s, of ?T] t(1) 1(5,6,9) id0 in auto)
    with s show ?thesis by (simp add: 1(6,10,12) rtranclp.rtrancl_into_rtrancl)
  qed
qed

lemma mergeEntities_steps: "steps_op schema (\<lambda>st. mergeEntities version now st request)"
proof (rule steps_opI)
  fix st st' assume step: "mergeEntities version now st request = Inr st'" and ok: "indexed (pos {} st)"
  let ?st = "touch (\<lambda>g. touchMerge g request) st"
  have 1: "gsteps schema (pos {} st) (pos {} ?st)" by (simp add: touchMerge_steps)
  have "gsteps schema (pos {} ?st) (pos {} st')"
    by (rule applyMerge_steps [OF step [unfolded mergeEntities_def] gsteps_indexed [OF 1 ok]])
       (auto intro: touchMerge_touched [OF indexed_edges [OF ok] _ refl])
  with 1 show "gsteps schema (pos {} st) (pos {} st')" by simp
qed

section \<open>Splits\<close>

text \<open>
  The tracker is told the identifiers of the replacements as they come, while the replacements are stored
  under their trimmed identifiers. The two agree for identifiers that are already trimmed.
\<close>

definition trimmed_split :: "SplitRequest \<Rightarrow> bool" where
  "trimmed_split request \<longleftrightarrow> list_all (\<lambda>e. TrimSpace (ent_ID e) = ent_ID e \<and> ent_ID e \<noteq> []) (sr_Entities request)"

lemma normalizeEntity_frame:
  "normalizeEntity e = Inr n \<Longrightarrow> ent_ID n = TrimSpace (ent_ID e)" "normalizeEntity e = Inr n \<Longrightarrow> ent_Kind n = TrimSpace (ent_Kind e)"
  by (auto simp: normalizeEntity_def prepareEntityFieldWrites_def Let_def split: if_splits)

lemma sanitize_frame [simp]:
  "ent_ID (sanitizeIncomingEntitySources e) = ent_ID e" "ent_Kind (sanitizeIncomingEntitySources e) = ent_Kind e"
  by (simp_all add: sanitizeIncomingEntitySources_def Let_def)

lemma applyEntitySchema_frame:
  assumes "applyEntitySchemaWithSpecs ct e specs = Inr e'"
  shows "ent_ID e' = ent_ID e" "ent_Kind e' = ent_Kind e"
proof -
  from assms obtain t where t: "foldM entitySchema_step e (entries specs) = Inr t"
    and e': "ent_ID e' = ent_ID t" "ent_Kind e' = ent_Kind t" by (auto simp: applyEntitySchemaWithSpecs_def)
  have "ent_ID t = ent_ID e \<and> ent_Kind t = ent_Kind e"
    using t by (rule foldM_invariant) (auto dest!: entitySchema_step_effect)
  with e' show "ent_ID e' = ent_ID e" "ent_Kind e' = ent_Kind e" by simp_all
qed

text \<open>A stored replacement, taken apart.\<close>

lemma splitEntityE:
  assumes "splitEntity_step source version now st e = Inr st'"
  obtains n0 flds cache n2 n3 v where
    "normalizeEntity e = Inr n0"
    "effectiveFieldsCached (g_CITypes (as_graph st)) (ent_Kind n0) (as_specs st) = Inr (flds, cache)"
    "applyEntitySchemaWithSpecs (g_CITypes (as_graph st)) (sanitizeIncomingEntitySources n0) flds = Inr n2"
    "ent_ID n2 \<noteq> source" "mget (g_Entities (as_graph st)) (ent_ID n2) = None"
    "n3 = stampFieldSources (n2\<lparr>ent_SplitFrom := source, ent_Version := version, ent_CreatedAt := now, ent_UpdatedAt := now\<rparr>) version now"
    "validate (as_graph st) n3 (as_validator st) = Inr v" "validateIdentityIndexAvailable (as_graph st) n3 = Inr ()"
    "st' = affect [ent_ID n3] (st\<lparr>as_graph := addEntityToIndexes (ent_ID n3) (clearEntityWriteMetadata n3)
        ((as_graph st)\<lparr>g_Entities := fmupd (ent_ID n3) (clearEntityWriteMetadata n3) (g_Entities (as_graph st))\<rparr>),
        as_specs := cache, as_validator := add (clearEntityWriteMetadata n3) v\<rparr>)"
proof -
  from assms obtain n0 where n0: "normalizeEntity e = Inr n0" by (auto simp: splitEntity_step_def)
  with assms obtain flds cache where f: "effectiveFieldsCached (g_CITypes (as_graph st)) (ent_Kind n0) (as_specs st) = Inr (flds, cache)"
    by (auto simp: splitEntity_step_def Let_def)
  with assms n0 obtain n2 where n2: "applyEntitySchemaWithSpecs (g_CITypes (as_graph st)) (sanitizeIncomingEntitySources n0) flds = Inr n2"
    by (auto simp: splitEntity_step_def Let_def)
  define n3 where "n3 = stampFieldSources (n2\<lparr>ent_SplitFrom := source, ent_Version := version, ent_CreatedAt := now, ent_UpdatedAt := now\<rparr>) version now"
  have c: "ent_ID n2 \<noteq> source \<and> mget (g_Entities (as_graph st)) (ent_ID n2) = None"
    using assms n0 f n2 by (auto simp: splitEntity_step_def Let_def split: if_splits)
  have r: "(if ent_ID n2 = source then Inl a else if mget (g_Entities (as_graph st)) (ent_ID n2) \<noteq> None then Inl b else c) = c" for a b and c :: "error + apply_state"
    using c by simp
  from assms n0 f n2 obtain v where "validate (as_graph st) n3 (as_validator st) = Inr v" "validateIdentityIndexAvailable (as_graph st) n3 = Inr ()"
    "st' = affect [ent_ID n3] (st\<lparr>as_graph := addEntityToIndexes (ent_ID n3) (clearEntityWriteMetadata n3)
        ((as_graph st)\<lparr>g_Entities := fmupd (ent_ID n3) (clearEntityWriteMetadata n3) (g_Entities (as_graph st))\<rparr>),
        as_specs := cache, as_validator := add (clearEntityWriteMetadata n3) v\<rparr>)"
    by (simp only: splitEntity_step_def Let_def n0 f n2 sanitize_frame clear_simps map_sum.simps rbind_simps split_conv id_apply r n3_def [symmetric] rbind_eq_Inr) auto
  from that [OF n0 f n2 c [THEN conjunct1] c [THEN conjunct2] n3_def this] show thesis .
qed

lemma splitEntity_steps:
  assumes step: "splitEntity_step source version now st e = Inr st'"
    and e: "TrimSpace (ent_ID e) = ent_ID e" "ent_ID e \<noteq> []" and t: "touched (as_tracker st) (tr_entities (as_tracker st)) (ent_ID e)"
  shows "gsteps schema (pos {} st) (pos {} st')"
  using step
proof (cases rule: splitEntityE)
  case (1 n0 flds cache n2 n3 v)
  have id': "ent_ID n3 = ent_ID e" "ent_ID n2 = ent_ID e"
    using normalizeEntity_frame(1) [OF 1(1)] applyEntitySchema_frame(1) [OF 1(3)] e(1) 1(6) by simp_all
  have "gstep schema (pos {} st) ((addEntityToIndexes (ent_ID e) (clearEntityWriteMetadata n3) (as_graph st))
      \<lparr>g_Entities := fmupd (ent_ID e) (clearEntityWriteMetadata n3) (g_Entities (as_graph st))\<rparr>, {} - {ent_ID e}, as_tracker st)"
    by (rule gstep.insert) (use t e(2) 1(5,8) id' in auto)
  then show ?thesis by (simp add: 1(9) id' r_into_rtranclp)
qed

lemma touchSplit_steps: "gsteps schema (g, H, t) (g, H, touchSplit g request t)"
  unfolding touchSplit_def
  by (rule rtranclp_trans [OF touchEntityWithEdges_steps touch_fold_steps]) (auto intro: r_into_rtranclp gstep.touch_entity)

lemma touchSplit_touched:
  assumes "edge_index_ok g D" and "t' = touchSplit g request t"
  shows "touched t' (tr_entities t') (sr_SourceID request)" "k \<in> set (incidentEdgeIDs g (sr_SourceID request)) \<Longrightarrow> touched t' (tr_edges t') k"
    "e \<in> set (sr_Entities request) \<Longrightarrow> ent_ID e \<noteq> [] \<Longrightarrow> touched t' (tr_entities t') (ent_ID e)"
proof -
  let ?f = "\<lambda>entity t'. if ent_ID entity \<noteq> [] then touchEntity g (ent_ID entity) t' else t'"
  let ?t = "touchEntityWithEdges g (sr_SourceID request) t"
  have t': "t' = fold ?f (sr_Entities request) ?t" by (simp add: assms(2) touchSplit_def)
  have st: "gsteps False (g, {}, t) (g, {}, ?f x t)" for x t by (auto intro: r_into_rtranclp gstep.touch_entity)
  have "gsteps False (g, {}, ?t) (g, {}, t')" unfolding t' by (rule touch_fold_steps) (rule st)
  note m = gsteps_touched [OF this] and w = touchEntityWithEdges_touched [OF assms(1) refl, where i = "sr_SourceID request" and t = t]
  show "touched t' (tr_entities t') (sr_SourceID request)" using m(2) w(1) by blast
  show "touched t' (tr_edges t') k" if "k \<in> set (incidentEdgeIDs g (sr_SourceID request))" using m(1) w(2) [OF that] by blast
  show "touched t' (tr_entities t') (ent_ID e)" if "e \<in> set (sr_Entities request)" "ent_ID e \<noteq> []"
    unfolding t' by (rule touch_fold_touched(2) [OF st that(1)]) (simp add: that(2) touched_touch)
qed

lemma splitEdges_steps:
  assumes "\<And>k. k \<in> set ks \<Longrightarrow> touched (as_tracker st) (tr_edges (as_tracker st)) k"
  shows "gsteps schema (pos H st) (pos H (fold splitEdge_step ks st))"
  using assms
proof (induction ks arbitrary: st)
  case (Cons k ks)
  have s: "as_tracker (splitEdge_step k st) = as_tracker st" by (simp add: splitEdge_step_def)
  have "gsteps schema (pos H st) (pos H (splitEdge_step k st))"
    using drop_edge_steps [OF Cons.prems [of k], of schema "as_graph st" H] by (simp add: splitEdge_step_def)
  with Cons.IH [of "splitEdge_step k st"] Cons.prems s show ?case by simp
qed simp

lemma splitLoop_steps:
  assumes "foldM (splitEntity_step source version now) st es = Inr st'"
    and "\<And>e. e \<in> set es \<Longrightarrow> TrimSpace (ent_ID e) = ent_ID e \<and> ent_ID e \<noteq> [] \<and> touched (as_tracker st) (tr_entities (as_tracker st)) (ent_ID e)"
  shows "gsteps schema (pos {} st) (pos {} st')"
  using assms
proof (induction es arbitrary: st)
  case (Cons e es)
  then obtain st1 where s: "splitEntity_step source version now st e = Inr st1" "foldM (splitEntity_step source version now) st1 es = Inr st'" by auto
  have 1: "gsteps schema (pos {} st) (pos {} st1)" using splitEntity_steps [OF s(1)] Cons.prems(2) [of e] by simp
  have "touched (as_tracker st1) (tr_entities (as_tracker st1)) (ent_ID x)" if "x \<in> set es" for x
    using gsteps_touched(2) [OF 1, of "ent_ID x"] Cons.prems(2) [of x] that by simp
  with Cons.IH [OF s(2)] Cons.prems(2) 1 show ?case by simp
qed simp

lemma splitEntities_steps:
  assumes "trimmed_split request"
  shows "steps_op schema (\<lambda>st. splitEntities version now st request)"
proof (rule steps_opI)
  fix st st' assume step: "splitEntities version now st request = Inr st'" and ok: "indexed (pos {} st)"
  let ?S = "sr_SourceID request"
  define st0 where "st0 = touch (\<lambda>g. touchSplit g request) st"
  have 0: "gsteps schema (pos {} st) (pos {} st0)" unfolding st0_def by (simp add: touchSplit_steps)
  note tt = touchSplit_touched [OF indexed_edges [OF ok] refl, where request = request and t = "as_tracker st"]
  from step obtain source where src: "mget (g_Entities (as_graph st)) ?S = Some source"
    by (auto simp: splitEntities_def applySplit_def split: option.splits if_splits)
  define st1 where "st1 = affect [?S] (on_graph (\<lambda>g. (removeEntityFromIndexes ?S source g)\<lparr>g_Entities := fmdrop ?S (g_Entities g)\<rparr>) st0)"
  define st2 where "st2 = fold splitEdge_step (incidentEdgeIDs (as_graph st1) ?S) st1"
  have loop: "foldM (splitEntity_step ?S version now) st2 (sr_Entities request) = Inr st'"
    using step src by (auto simp: splitEntities_def applySplit_def Let_def st0_def [symmetric] st1_def st2_def split: if_splits)
      (simp add: st0_def)
  have inc: "incidentEdgeIDs (as_graph st1) ?S = incidentEdgeIDs (as_graph st) ?S" by (simp add: st1_def st0_def incidentEdgeIDs_def)
  have "gstep schema (pos {} st0) (removeEntityFromIndexes ?S source (as_graph st0), {?S}, as_tracker st0)"
    using gstep.detach [of "as_graph st0" ?S source "{}"] src by (simp add: st0_def)
  moreover have "gstep schema (removeEntityFromIndexes ?S source (as_graph st0), {?S}, as_tracker st0) (pos {} st1)"
    using gstep.erase [of "as_tracker st0" ?S "{?S}" schema "removeEntityFromIndexes ?S source (as_graph st0)"] tt(1) by (simp add: st1_def st0_def)
  ultimately have 1: "gsteps schema (pos {} st0) (pos {} st1)" by (rule step_twice)
  have 2: "gsteps schema (pos {} st1) (pos {} st2)"
    unfolding st2_def by (rule splitEdges_steps) (simp only: inc, use tt(2) in \<open>simp add: st1_def st0_def\<close>)
  note s2 = rtranclp_trans [OF 0 rtranclp_trans [OF 1 2]] and s12 = rtranclp_trans [OF 1 2]
  have "touched (as_tracker st2) (tr_entities (as_tracker st2)) (ent_ID e)" if "e \<in> set (sr_Entities request)" for e
    using gsteps_touched(2) [OF s12, of "ent_ID e"] tt(3) [OF that] assms that by (simp add: st0_def trimmed_split_def list_all_iff)
  then have "gsteps schema (pos {} st2) (pos {} st')"
    using assms by (intro splitLoop_steps [OF loop]) (auto simp: trimmed_split_def list_all_iff)
  then show "gsteps schema (pos {} st) (pos {} st')" using s2 by simp
qed


section \<open>Edge upserts\<close>

text \<open>A stored edge, taken apart: what was there under its identifier, and what replaces it.\<close>

definition upserted_edge :: "Edge option \<Rightarrow> Edge \<Rightarrow> string \<Rightarrow> int \<Rightarrow> time \<Rightarrow> Edge" where
  "upserted_edge previous normalized incomingID version now =
     (case previous of
        Some old \<Rightarrow>
          let merged = fst (mergeEdgeForUpsert old normalized (edge_ID normalized) incomingID version now)
          in if edge_CreatedAt old \<noteq> 0 then merged\<lparr>edge_CreatedAt := edge_CreatedAt old\<rparr> else merged
      | None \<Rightarrow> stampEdgeSources (if edge_CreatedAt normalized = 0 then normalized\<lparr>edge_CreatedAt := now\<rparr> else normalized) version now)
     \<lparr>edge_UpdatedAt := now, edge_Version := version\<rparr>"

lemma upserted_edge_frame [simp]:
  "edge_ID (upserted_edge p n i v u) = edge_ID n" "edge_Type (upserted_edge p n i v u) = edge_Type n"
  "edge_From (upserted_edge p n i v u) = edge_From n" "edge_To (upserted_edge p n i v u) = edge_To n"
  by (simp_all add: upserted_edge_def stampEdgeSources_def Let_def split: option.splits)

lemma upsertEdgeE:
  assumes "upsertEdge version now st edge = Inr st'"
  obtains n e g' i where
    "CanonicalEdgeID n = edge_ID n" "validateEdge (as_graph st) n = Inr ()"
    "e = upserted_edge (mget (g_Edges (as_graph st)) (edge_ID n)) n i version now"
    "g' = addEdgeToIndexes (edge_ID n) e ((dropEdge (edge_ID n) (as_graph st))\<lparr>g_Edges := fmupd (edge_ID n) e (g_Edges (as_graph st))\<rparr>)"
    "validateCardinality g' e = Inr ()" "as_graph st' = g'" "as_tracker st' = touchEdge (as_graph st) (edge_ID n) (as_tracker st)"
    "as_validator st' = as_validator st"
proof -
  from assms obtain n0 where n0: "normalizeEdge edge = Inr n0" by (auto simp: upsertEdge_def)
  define n1 where "n1 = sanitizeIncomingEdgeSources n0"
  define i where "i = firstNonEmpty (edge_ID n1) (edge_ExternalID n1)"
  define n where "n = canonicalizeEdge n1 version now"
  have c: "CanonicalEdgeID n = edge_ID n" using CanonicalEdgeID_cong [of n n1] by (simp add: n_def)
  define e where "e = upserted_edge (mget (g_Edges (as_graph st)) (edge_ID n)) n i version now"
  define g' where "g' = addEdgeToIndexes (edge_ID n) e ((dropEdge (edge_ID n) (as_graph st))\<lparr>g_Edges := fmupd (edge_ID n) e (g_Edges (as_graph st))\<rparr>)"
  have v: "validateEdge (as_graph st) n = Inr ()"
    using assms n0 by (auto simp: upsertEdge_def Let_def n1_def n_def)
  note u = assms [unfolded upsertEdge_def n0 map_sum.simps rbind_simps Let_def id_apply, folded n1_def, folded i_def n_def]
  have "validateCardinality g' e = Inr () \<and> as_graph st' = g' \<and> as_tracker st' = touchEdge (as_graph st) (edge_ID n) (as_tracker st) \<and> as_validator st' = as_validator st"
  proof (cases "mget (g_Edges (as_graph st)) (edge_ID n)")
    case None
    with u show ?thesis
      by (auto simp: e_def g'_def upserted_edge_def dropEdge_def Let_def stampEdgeSources_def suppress_def affectEdges_def touch_def)
  next
    case (Some old)
    with u show ?thesis
      by (auto simp: e_def g'_def upserted_edge_def dropEdge_def Let_def suppress_def affectEdges_def touch_def split_beta)
  qed
  with that [OF c v e_def g'_def] show thesis by blast
qed

lemma upsertEdge_steps: "steps_op schema (\<lambda>st. upsertEdge version now st edge)"
proof (rule steps_opI)
  fix st st' assume "upsertEdge version now st edge = Inr st'"
  then show "gsteps schema (pos {} st) (pos {} st')"
  proof (cases rule: upsertEdgeE)
    case (1 n e g' i)
    let ?k = "edge_ID n" and ?t = "touchEdge (as_graph st) (edge_ID n) (as_tracker st)"
    let ?g1 = "dropEdge ?k (as_graph st)"
    have "CanonicalEdgeID e = CanonicalEdgeID n" by (rule CanonicalEdgeID_cong) (simp_all add: 1(3))
    then have "gsteps schema (?g1, {}, ?t) (addEdgeToIndexes ?k e (?g1\<lparr>g_Edges := fmupd ?k e (g_Edges ?g1)\<rparr>), {}, ?t)"
      using 1(1,3) by (intro put_edge_steps) (simp_all add: touched_touch dropEdge_frame)
    moreover have "fmupd ?k e (g_Edges ?g1) = fmupd ?k e (g_Edges (as_graph st))" by (rule fmap_ext) (simp add: dropEdge_frame)
    ultimately show ?thesis using touch_drop_edge [of schema "as_graph st" "{}" "as_tracker st" ?k] by (simp add: 1(4,6,7))
  qed
qed

end
