(* ===== verification/CommitSteps.thy ===== *)
theory CommitSteps
  imports Phases
begin

text \<open>
  The contract of a phase as a locale, its interpretation on the four phases of \<open>applyMutations\<close>, and what
  follows for a whole commit (\<open>apply.go\<close>): the indexes, read caches and keys stay exact, the incremental
  fingerprint is the recomputed one, the logical hash cache and the partition table are the rebuilt ones,
  and identities stay unique.
\<close>

section \<open>The contract of a phase\<close>

text \<open>
  What \<open>applyMutations\<close> relies on: a phase is a sequence of steps, on mutations it admits. All that the
  steps keep, every phase keeps.
\<close>

locale commit_phase =
  fixes schema :: bool
    and run :: "int \<Rightarrow> time \<Rightarrow> Mutations \<Rightarrow> apply_state \<Rightarrow> error + apply_state"
    and admits :: "Mutations \<Rightarrow> bool"
  assumes run_steps: "admits mutations \<Longrightarrow> steps_op schema (run version now mutations)"
begin

lemma steps:
  "admits mutations \<Longrightarrow> run version now mutations st = Inr st' \<Longrightarrow> indexed (pos {} st) \<Longrightarrow> gsteps schema (pos {} st) (pos {} st')"
  by (rule steps_opD [OF run_steps])

lemma keeps_indexed:
  "admits mutations \<Longrightarrow> run version now mutations st = Inr st' \<Longrightarrow> indexed (pos {} st) \<Longrightarrow> indexed (pos {} st')"
  by (rule gsteps_indexed [OF steps])

lemma keeps_identified:
  assumes "\<not> schema" "admits mutations" "run version now mutations st = Inr st'" "indexed (pos {} st)" "identified (pos {} st)"
  shows "identified (pos {} st')"
  using gsteps_identified [of "pos {} st" "pos {} st'"] steps [OF assms(2-4)] assms(1,4,5) by simp

end

interpretation deletes: commit_phase False deletePhase "\<lambda>_. True"
  by unfold_locales (rule deletePhase_steps)

interpretation schemas: commit_phase True "\<lambda>_ _. schemaPhase" "\<lambda>_. True"
  by unfold_locales (rule schemaPhase_steps)

definition trimmed_splits :: "Mutations \<Rightarrow> bool" where
  "trimmed_splits mutations \<longleftrightarrow> list_all trimmed_split (mu_SplitEntities mutations)"

lemma entityPhase_steps: "trimmed_splits mutations \<Longrightarrow> steps_op schema (entityPhase version now mutations)"
proof (rule steps_opI)
  fix st st' assume tr: "trimmed_splits mutations" and step: "entityPhase version now mutations st = Inr st'" and ok: "indexed (pos {} st)"
  let ?run = "\<lambda>st. rbind (foldM (upsertEntity version now) st (mu_UpsertEntities mutations)) (\<lambda>st1.
     rbind (foldM (markStale version now) st1 (mu_MarkSourceStale mutations)) (\<lambda>st2.
     rbind (foldM (mergeEntities version now) st2 (mu_MergeEntities mutations)) (\<lambda>st3.
     foldM (splitEntities version now) st3 (mu_SplitEntities mutations))))"
  from step obtain v where r: "?run (st\<lparr>as_validator := v, as_specs := fmempty\<rparr>) = Inr st'" by (auto simp: entityPhase_def)
  have "steps_op schema ?run"
    by (intro steps_op_bind steps_op_foldM upsertEntity_steps markStale_steps mergeEntities_steps splitEntities_steps)
       (use tr in \<open>simp add: trimmed_splits_def list_all_iff\<close>)
  from steps_opD [OF this r] ok show "gsteps schema (pos {} st) (pos {} st')" by simp
qed

interpretation entities: commit_phase False entityPhase trimmed_splits
  by unfold_locales (rule entityPhase_steps)

interpretation edges: commit_phase False "\<lambda>version now mutations st. foldM (upsertEdge version now) st (mu_UpsertEdges mutations)" "\<lambda>_. True"
  by unfold_locales (intro steps_op_foldM upsertEdge_steps)

section \<open>A whole commit\<close>

text \<open>A successful commit, taken apart.\<close>

lemma applyMutationsE:
  assumes "applyMutations env commit g0 = Inr (g', report)"
  obtains g st1 st2 st3 st4 where
    "useCommitIdentity commit g0 = Inr g"
    "deletePhase (co_Version commit) (commitTime env commit) (co_Mutations commit) (initial_state g) = Inr st1"
    "schemaPhase (co_Mutations commit) st1 = Inr st2"
    "entityPhase (co_Version commit) (commitTime env commit) (co_Mutations commit) st2 = Inr st3"
    "foldM (upsertEdge (co_Version commit) (commitTime env commit)) st3 (mu_UpsertEdges (co_Mutations commit)) = Inr st4"
    "finish (as_tracker st4) (refreshEntityPartitions env (as_tracker st4) (as_graph st4)) (as_report st4) = Inr (g', report)"
  using assms that by (auto simp: applyMutations_def Let_def)

definition graph_ok :: "Graph \<Rightarrow> bool" where
  "graph_ok g \<longleftrightarrow> index_ok g \<and> caches_ok g (g_Entities g) (g_Edges g) \<and> keyed g"

lemma graph_ok_indexed: "graph_ok g \<longleftrightarrow> indexed (g, {}, t)"
  by (auto simp: graph_ok_def indexed_iff index_ok_def)

definition index_fields where
  "index_fields g =
     (g_Entities g, g_Edges g, (g_out g, g_in g, g_edgeAliasIndex g, g_edgeTypeIndex g),
      (g_entityAliasIndex g, g_kindEntityIDs g, g_kindCounts g, g_nonScalarFields g, g_fieldIndex g),
      (g_entityOrder g, g_fieldIndexOrder g, g_fieldValueOrder g, g_neighborOrder g, g_neighborOrderBytes g))"

lemma graph_ok_cong: "index_fields g' = index_fields g \<Longrightarrow> graph_ok g' = graph_ok g"
  using entity_index_ok_cong [of g' g] edge_index_ok_cong [of g' g] caches_ok_cong [of g' g]
  by (simp add: index_fields_def graph_ok_def index_ok_def keyed_def)

lemma graph_ok_upd [simp]:
  "graph_ok (g\<lparr>g_entityPartitions := x1\<rparr>) = graph_ok g" "graph_ok (g\<lparr>g_contentFingerprint := x2\<rparr>) = graph_ok g"
  "graph_ok (g\<lparr>g_logicalHashCache := x3\<rparr>) = graph_ok g" "graph_ok (g\<lparr>g_legacyIdentity := x4\<rparr>) = graph_ok g"
  "graph_ok (g\<lparr>g_identityIndex := x5\<rparr>) = graph_ok g" "graph_ok (g\<lparr>g_Version := x6\<rparr>) = graph_ok g"
  "graph_ok (g\<lparr>g_contentFingerprintReady := x7\<rparr>) = graph_ok g"
  by (rule graph_ok_cong; simp add: index_fields_def)+

lemma useCommitIdentity_frame:
  assumes "useCommitIdentity commit g0 = Inr g"
  obtains index where "g = g0\<lparr>g_legacyIdentity := legacyCommitIdentity commit, g_identityIndex := index\<rparr>"
proof (cases "g_legacyIdentity g0 = legacyCommitIdentity commit")
  case True
  with assms have "g = g0\<lparr>g_legacyIdentity := legacyCommitIdentity commit, g_identityIndex := g_identityIndex g0\<rparr>"
    by (auto simp: useCommitIdentity_def Let_def split: if_splits)
  then show thesis by (rule that)
next
  case False
  have l: "\<exists>index. fold identityEntity_step es (h\<lparr>g_identityIndex := index0\<rparr>) = h\<lparr>g_identityIndex := index\<rparr>" for es h index0
    by (induction es arbitrary: index0) (auto simp: identityEntity_step_def)
  obtain index where "fold identityEntity_step (entries (g_Entities g0)) (g0\<lparr>g_legacyIdentity := legacyCommitIdentity commit, g_identityIndex := fmempty\<rparr>)
      = g0\<lparr>g_legacyIdentity := legacyCommitIdentity commit, g_identityIndex := index\<rparr>"
    using l [where h = "g0\<lparr>g_legacyIdentity := legacyCommitIdentity commit\<rparr>"] by blast
  with False assms show thesis by (intro that [of index]) (auto simp: useCommitIdentity_def Let_def split: if_splits)
qed

text \<open>
  A commit that asks for another identity encoding has the identity index rebuilt in that encoding. The index is exact
  again if the entities share no identity in it.
\<close>

definition encoding_ok :: "Graph \<Rightarrow> Commit \<Rightarrow> bool" where
  "encoding_ok g commit \<longleftrightarrow>
     g_legacyIdentity g = legacyCommitIdentity commit \<or> unique_identities (g\<lparr>g_legacyIdentity := legacyCommitIdentity commit\<rparr>)"

lemma identityEntity_covered:
  assumes "identities_covered g E" and "mget E i = None"
  shows "identities_covered (identityEntity_step (i, e) g) (fmupd i e E)"
proof -
  have sigs: "sig_values (identityEntity_step (i, e) g) x = sig_values g x" for x
    using graphIdentitySignatures_cong [of "identityEntity_step (i, e) g" g] by (simp add: identityEntity_step_def)
  have own: "owner_of (g_identityIndex (identityEntity_step (i, e) g)) k s =
      (if k = ent_Kind e \<and> s \<in> sig_values g e then Some i else owner_of (g_identityIndex g) k s)" for k s
    by (simp add: identityEntity_step_def owner_of_add_all identities_def)
  show ?thesis by (rule identities_covered_add [OF assms own sigs])
qed

lemma useCommitIdentity_exact:
  assumes "useCommitIdentity commit g0 = Inr g" and "identity_index_ok g0 (g_Entities g0)" and "encoding_ok g0 commit"
  shows "identity_index_ok g (g_Entities g)"
proof (cases "g_legacyIdentity g0 = legacyCommitIdentity commit")
  case True
  with assms(1,2) show ?thesis by (auto simp: useCommitIdentity_def Let_def split: if_splits)
next
  case False
  let ?h = "g0\<lparr>g_legacyIdentity := legacyCommitIdentity commit, g_identityIndex := fmempty\<rparr>"
  from False assms(1) have g: "g = fold identityEntity_step (entries (g_Entities g0)) ?h"
    by (auto simp: useCommitIdentity_def Let_def split: if_splits)
  obtain index where frame: "g = g0\<lparr>g_legacyIdentity := legacyCommitIdentity commit, g_identityIndex := index\<rparr>"
    by (rule useCommitIdentity_frame [OF assms(1)])
  have "identities_covered ?h fmempty" by (simp add: identities_covered_def identities_def mget_or_def)
  then have "identities_covered (fold identityEntity_step (entries (g_Entities g0)) ?h) (g_Entities g0)"
    by (rule fold_entries_collect) (rule identityEntity_covered)
  then have "identities_covered g (g_Entities g)" using arg_cong [OF frame, of g_Entities] by (simp add: g)
  moreover have "unique_identities (g0\<lparr>g_legacyIdentity := legacyCommitIdentity commit\<rparr>)" using False assms(3) by (simp add: encoding_ok_def)
  then have "unique_identities g"
    using unique_identities_cong [of g "g0\<lparr>g_legacyIdentity := legacyCommitIdentity commit\<rparr>"] by (simp add: frame)
  ultimately show ?thesis by (rule identities_covered_unique)
qed

text \<open>A commit is a sequence of steps between the change of the identity encoding and the finish of the tracker.\<close>

lemma commit_steps:
  assumes "applyMutations env commit g0 = Inr (g', report)" and "graph_ok g0" and "trimmed_splits (co_Mutations commit)"
  obtains g index g4 t r where
    "g = g0\<lparr>g_legacyIdentity := legacyCommitIdentity commit, g_identityIndex := index\<rparr>"
    "gsteps True (g, {}, newMutationFingerprintTracker) (g4, {}, t)" "indexed (g4, {}, t)"
    "finish t (refreshEntityPartitions env t g4) r = Inr (g', report)"
  using assms(1)
proof (cases rule: applyMutationsE)
  case (1 g st1 st2 st3 st4)
  obtain index where g: "g = g0\<lparr>g_legacyIdentity := legacyCommitIdentity commit, g_identityIndex := index\<rparr>"
    by (rule useCommitIdentity_frame [OF 1(1)])
  have ok: "indexed (pos {} (initial_state g))"
    using assms(2) graph_ok_indexed [of g "as_tracker (initial_state g)"] by (simp add: g initial_state_def)
  note s1 = deletes.steps [OF TrueI 1(2) ok] and ok1 = deletes.keeps_indexed [OF TrueI 1(2) ok]
  note s2 = schemas.steps [OF TrueI 1(3) ok1] and ok2 = schemas.keeps_indexed [OF TrueI 1(3) ok1]
  note s3 = entities.steps [OF assms(3) 1(4) ok2] and ok3 = entities.keeps_indexed [OF assms(3) 1(4) ok2]
  note s4 = edges.steps [OF TrueI 1(5) ok3] and ok4 = edges.keeps_indexed [OF TrueI 1(5) ok3]
  have "gsteps True (pos {} (initial_state g)) (pos {} st4)"
    using gsteps_schema [OF s1] s2 gsteps_schema [OF s3] gsteps_schema [OF s4] by simp
  then have "gsteps True (g, {}, newMutationFingerprintTracker) (pos {} st4)" by (simp add: initial_state_def)
  then show thesis using that [OF g] ok4 1(6) by blast
qed

lemma refreshEntityPartitions_frame: "\<exists>parts. refreshEntityPartitions env t g = g\<lparr>g_entityPartitions := parts\<rparr>"
  by (cases "g_entityPartitions g") (auto simp: refreshEntityPartitions_def intro: exI [of _ None])

lemma applyMutations_graph_ok:
  assumes "applyMutations env commit g0 = Inr (g', report)" and "graph_ok g0" and "trimmed_splits (co_Mutations commit)"
  shows "graph_ok g'"
proof -
  obtain g index g4 t r where s: "indexed (g4, {}, t)" and f: "finish t (refreshEntityPartitions env t g4) r = Inr (g', report)"
    by (rule commit_steps [OF assms])
  obtain parts where p: "refreshEntityPartitions env t g4 = g4\<lparr>g_entityPartitions := parts\<rparr>" using refreshEntityPartitions_frame by blast
  obtain s' cache where "g' = (g4\<lparr>g_entityPartitions := parts\<rparr>)\<lparr>g_contentFingerprint := s', g_logicalHashCache := cache\<rparr>"
    by (rule finish_spec [OF f]) (simp add: p)
  with s show ?thesis using graph_ok_indexed [of g4 t] by simp
qed

lemma tracks_start: "tracks g newMutationFingerprintTracker g"
  by (simp add: tracks_def tracks_map_def newMutationFingerprintTracker_def)

text \<open>Only the four maps of the graph count for the fingerprint and the hash cache.\<close>

definition content where
  "content g = (g_CITypes g, g_Entities g, g_RelationTypes g, g_Edges g)"

lemma content_cong:
  assumes "content g' = content g"
  shows "computeFingerprint g' = computeFingerprint g" "hash_cache_ok g' cache = hash_cache_ok g cache"
    "tracks g' t h = tracks g t h" "tracks h t g' = tracks h t g" "content_changed g' h = content_changed g h" "content_changed h g' = content_changed h g"
  using assms values_cong [of g' g] hash_cache_ok_cong [of g' g cache]
  by (simp_all add: content_def computeFingerprint_def content_items_def tracks_def content_changed_def)

section \<open>What a commit keeps\<close>

lemma finish_frame:
  assumes "finish t g r = Inr (g', report)"
  shows "tr_err t = None \<and> g' = g\<lparr>g_contentFingerprint := g_contentFingerprint g', g_logicalHashCache := g_logicalHashCache g'\<rparr>"
  by (rule finish_spec [OF assms]) simp

lemma commit_finish:
  assumes "applyMutations env commit g0 = Inr (g', report)" and "graph_ok g0" and "trimmed_splits (co_Mutations commit)"
  obtains g4 t r parts fingerprint cache where
    "tracks g0 t (refreshEntityPartitions env t g4)" "step_frame g4 = step_frame (g0\<lparr>g_legacyIdentity := legacyCommitIdentity commit\<rparr>)"
    "finish t (refreshEntityPartitions env t g4) r = Inr (g', report)" "graph_ok g4"
    "refreshEntityPartitions env t g4 = g4\<lparr>g_entityPartitions := parts\<rparr>"
    "g' = g4\<lparr>g_entityPartitions := parts, g_contentFingerprint := fingerprint, g_logicalHashCache := cache\<rparr>" "tr_err t = None"
proof -
  obtain g index g4 t r where g: "g = g0\<lparr>g_legacyIdentity := legacyCommitIdentity commit, g_identityIndex := index\<rparr>"
    and s: "gsteps True (g, {}, newMutationFingerprintTracker) (g4, {}, t)" and ok: "indexed (g4, {}, t)"
    and f: "finish t (refreshEntityPartitions env t g4) r = Inr (g', report)"
    by (rule commit_steps [OF assms])
  obtain parts where p: "refreshEntityPartitions env t g4 = g4\<lparr>g_entityPartitions := parts\<rparr>" using refreshEntityPartitions_frame by blast
  have "tracks g t g4" by (rule gsteps_tracks [OF s tracks_start])
  then have tr: "tracks g0 t (refreshEntityPartitions env t g4)"
    using content_cong(3) [of g0 g] content_cong(4) [of "refreshEntityPartitions env t g4" g4] by (simp add: g p content_def)
  have fr: "step_frame g4 = step_frame (g0\<lparr>g_legacyIdentity := legacyCommitIdentity commit\<rparr>)"
    using gsteps_frame [OF s] by (simp add: g step_frame_def)
  note e = finish_frame [OF f, THEN conjunct1] and g' = finish_frame [OF f, THEN conjunct2, unfolded p]
  have ok4: "graph_ok g4" using ok graph_ok_indexed by blast
  show thesis by (rule that [OF tr fr f ok4 p g' e])
qed

lemma commit_fingerprint:
  assumes "applyMutations env commit g0 = Inr (g', report)" and "graph_ok g0" and "trimmed_splits (co_Mutations commit)"
    and "computeFingerprint g0 = Inr (g_contentFingerprint g0)"
  shows "computeFingerprint g' = Inr (g_contentFingerprint g')" "ar_ContentFingerprint report = hex_digest (g_contentFingerprint g')"
    "ar_Changed report \<longleftrightarrow> content_changed g0 g'"
proof -
  obtain g4 t r parts fingerprint cache where tr: "tracks g0 t (refreshEntityPartitions env t g4)"
    and fr: "step_frame g4 = step_frame (g0\<lparr>g_legacyIdentity := legacyCommitIdentity commit\<rparr>)"
    and f: "finish t (refreshEntityPartitions env t g4) r = Inr (g', report)"
    and p: "refreshEntityPartitions env t g4 = g4\<lparr>g_entityPartitions := parts\<rparr>"
    and g': "g' = g4\<lparr>g_entityPartitions := parts, g_contentFingerprint := fingerprint, g_logicalHashCache := cache\<rparr>"
    by (rule commit_finish [OF assms(1-3)])
  have "g_contentFingerprint (refreshEntityPartitions env t g4) = g_contentFingerprint g0" using fr by (simp add: p step_frame_def)
  note c = finish_correct [OF tr _ f] this
  have "content_changed g0 (refreshEntityPartitions env t g4) = content_changed g0 g'"
    by (rule content_cong(6)) (simp add: p g' content_def)
  with c assms(4) show "computeFingerprint g' = Inr (g_contentFingerprint g')" "ar_ContentFingerprint report = hex_digest (g_contentFingerprint g')"
    "ar_Changed report \<longleftrightarrow> content_changed g0 g'" by simp_all
qed

lemma commit_hash_cache:
  assumes "applyMutations env commit g0 = Inr (g', report)" and "graph_ok g0" and "trimmed_splits (co_Mutations commit)"
    and "g_logicalHashCache g0 = Some cache" and "hash_cache_ok g0 cache" and "ar_Changed report"
  shows "\<exists>cache'. g_logicalHashCache g' = Some cache' \<and> hash_cache_ok g' cache' \<and> \<not> lhc_finalReady cache'"
proof -
  obtain g4 t r parts where tr: "tracks g0 t (refreshEntityPartitions env t g4)"
    and fr: "step_frame g4 = step_frame (g0\<lparr>g_legacyIdentity := legacyCommitIdentity commit\<rparr>)"
    and f: "finish t (refreshEntityPartitions env t g4) r = Inr (g', report)"
    and p: "refreshEntityPartitions env t g4 = g4\<lparr>g_entityPartitions := parts\<rparr>"
    by (rule commit_finish [OF assms(1-3)])
  show ?thesis using fr assms(4) by (intro finish_hash_cache [OF f assms(6) tr _ assms(5)]) (simp add: p step_frame_def)
qed

section \<open>The partition table\<close>

definition partitions_ok :: "go_env \<Rightarrow> Graph \<Rightarrow> bool" where
  "partitions_ok env g \<longleftrightarrow>
     (\<forall>parts. g_entityPartitions g = Some parts \<longrightarrow> is_index parts {(entityPartition env i, i) | i. i \<in> fmdom' (g_Entities g)})"

lemma shareEntityPartitions_ok: "partitions_ok env g \<Longrightarrow> partitions_ok env (fst (shareEntityPartitions env g))"
proof -
  have "is_index (fold (\<lambda>i. idx_add (entityPartition env i) i) is m) (R \<union> {(entityPartition env i, i) | i. i \<in> set is})"
    if "is_index m R" for "is" m R
    using that
  proof (induction "is" arbitrary: m R)
    case (Cons i "is")
    have "insert (entityPartition env i, i) R \<union> {(entityPartition env j, j) | j. j \<in> set is} =
        R \<union> {(entityPartition env j, j) | j. j \<in> set (i # is)}" by auto
    with Cons.IH [OF pidx.represents_add [OF Cons.prems, of "entityPartition env i" i]] show ?case by simp
  qed simp
  from this [OF is_index_empty, of "skeys (g_Entities g)"] show "partitions_ok env g \<Longrightarrow> partitions_ok env (fst (shareEntityPartitions env g))"
    by (auto simp: partitions_ok_def shareEntityPartitions_def Let_def split: option.splits)
qed

lemma refreshPartition_fold:
  assumes "distinct (map fst xs)" and "\<And>i b. (i, b) \<in> set xs \<Longrightarrow> tf_exists b \<longleftrightarrow> i \<in> D0"
    and "is_index m {(entityPartition env i, i) | i. i \<in> D}" and "\<And>i. i \<in> D \<longleftrightarrow> (if i \<in> fst ` set xs then i \<in> D0 else mget (g_Entities g) i \<noteq> None)"
  shows "is_index (fold (refreshPartition_step env g) xs m) {(entityPartition env i, i) | i. i \<in> fmdom' (g_Entities g)}"
  using assms
proof (induction xs arbitrary: m D)
  case Nil
  then have "D = fmdom' (g_Entities g)" by (auto simp: fmlookup_dom'_iff)
  with Nil.prems(3) show ?case by simp
next
  case (Cons x xs)
  obtain i b where x: "x = (i, b)" by (cases x)
  let ?D = "if mget (g_Entities g) i \<noteq> None then insert i D else D - {i}"
  have b: "tf_exists b \<longleftrightarrow> i \<in> D" using Cons.prems(2) [of i b] Cons.prems(4) [of i] by (simp add: x)
  have add: "insert (entityPartition env i, i) {(entityPartition env i, i) | i. i \<in> D} = {(entityPartition env j, j) | j. j \<in> insert i D}" by auto
  have del: "{(entityPartition env i, i) | i. i \<in> D} - {(entityPartition env i, i)} = {(entityPartition env j, j) | j. j \<in> D - {i}}" by auto
  have "is_index (refreshPartition_step env g x m) {(entityPartition env i, i) | i. i \<in> ?D}"
    using b Cons.prems(3) pidx.represents_add [OF Cons.prems(3), of "entityPartition env i" i] pidx.represents_del [OF Cons.prems(3), of "entityPartition env i" i]
    unfolding add del by (auto simp: refreshPartition_step_def x Let_def insert_absorb)
  moreover have "\<And>j. j \<in> ?D \<longleftrightarrow> (if j \<in> fst ` set xs then j \<in> D0 else mget (g_Entities g) j \<noteq> None)"
    using Cons.prems(1,4) by (auto simp: x)
  ultimately show ?case using Cons.prems(1,2) by (simp add: Cons.IH [of "refreshPartition_step env g x m" ?D])
qed

lemma commit_partitions:
  assumes "applyMutations env commit g0 = Inr (g', report)" and "graph_ok g0" and "trimmed_splits (co_Mutations commit)"
    and "partitions_ok env g0"
  shows "partitions_ok env g'"
proof -
  obtain g4 t r parts fingerprint cache where tr: "tracks g0 t (refreshEntityPartitions env t g4)"
    and fr: "step_frame g4 = step_frame (g0\<lparr>g_legacyIdentity := legacyCommitIdentity commit\<rparr>)"
    and p: "refreshEntityPartitions env t g4 = g4\<lparr>g_entityPartitions := parts\<rparr>"
    and g': "g' = g4\<lparr>g_entityPartitions := parts, g_contentFingerprint := fingerprint, g_logicalHashCache := cache\<rparr>"
    and e: "tr_err t = None"
    by (rule commit_finish [OF assms(1-3)])
  have parts: "g_entityPartitions g4 = g_entityPartitions g0" using fr by (simp add: step_frame_def)
  show ?thesis
  proof (cases "g_entityPartitions g0")
    case None
    with arg_cong [OF p, of g_entityPartitions] parts have "parts = None" by (simp add: refreshEntityPartitions_def)
    then show ?thesis by (simp add: partitions_ok_def g')
  next
    case (Some m)
    from tr e have tm: "tracks_map ''entity'' (entityValue g0) (g_Entities g0) (tr_entities t) (g_Entities g4)"
      by (simp add: tracks_def p)
    have m: "is_index m {(entityPartition env i, i) | i. i \<in> fmdom' (g_Entities g0)}" using assms(4) Some by (simp add: partitions_ok_def)
    have "is_index (fold (refreshPartition_step env g4) (entries (tr_entities t)) m) {(entityPartition env i, i) | i. i \<in> fmdom' (g_Entities g4)}"
    proof (rule refreshPartition_fold [OF _ _ m])
      show "distinct (map fst (entries (tr_entities t)))" by simp
      show "tf_exists b \<longleftrightarrow> i \<in> fmdom' (g_Entities g0)" if "(i, b) \<in> set (entries (tr_entities t))" for i b
      proof -
        from tm that have "b = tracked_of ''entity'' (entityValue g0) i" by (simp add: tracks_map_def)
        then show ?thesis by (auto simp: tracked_of_def entityValue_def fmlookup_dom'_iff)
      qed
      show "i \<in> fmdom' (g_Entities g0) \<longleftrightarrow>
          (if i \<in> fst ` set (entries (tr_entities t)) then i \<in> fmdom' (g_Entities g0) else mget (g_Entities g4) i \<noteq> None)" for i
        using tm by (auto simp: tracks_map_def fmlookup_dom'_iff)
    qed
    moreover have "parts = Some (fold (refreshPartition_step env g4) (entries (tr_entities t)) m)"
      using arg_cong [OF p, of g_entityPartitions] by (simp add: refreshEntityPartitions_def parts Some)
    ultimately show ?thesis by (simp add: partitions_ok_def g')
  qed
qed

section \<open>Identities under a changed schema\<close>

lemma rule_source_differ:
  assumes "ciIdentitySignature e key legacy = Some s"
  shows "s \<noteq> sig_Value (sourceIdentitySignature legacy source)"
proof -
  have "Itoa (int (length ''rule'')) = ''4''" "Itoa (int (length ''source'')) = ''6''" by code_simp+
  with assms show ?thesis
    by (auto simp: ciIdentitySignature_def sourceIdentitySignature_def identityTuple_def split: option.splits if_splits)
qed

abbreviation ci_values :: "(string, CIType) fmap \<Rightarrow> bool \<Rightarrow> Entity \<Rightarrow> string set" where
  "ci_values ciTypes legacy e \<equiv> sig_Value ` set (ciIdentitySignatures ciTypes legacy e (entityConfidence e))"

abbreviation source_values :: "bool \<Rightarrow> Entity \<Rightarrow> string set" where
  "source_values legacy e \<equiv> sig_Value ` set (sourceIdentitySignatures legacy (ent_Sources e))"

lemma sig_values_split: "sig_Value ` set (identitySignatures ct legacy e) = ci_values ct legacy e \<union> source_values legacy e"
  by (simp add: identitySignatures_def sortIdentitySignatures_def image_Un)

lemma ci_source_disjoint: "ci_values ciTypes legacy e \<inter> source_values legacy e' = {}"
  using rule_source_differ
  by (fastforce simp: ciIdentitySignatures_def keySignature_def sourceIdentitySignatures_def split: option.splits if_splits)

lemma ci_values_kind: "mget ct (ent_Kind e) = mget ct' (ent_Kind e) \<Longrightarrow> ci_values ct legacy e = ci_values ct' legacy e"
  by (simp add: ciIdentitySignatures_def)

text \<open>The check of identity owners accepts only entities that share no signature of a rule.\<close>

definition owner_at :: "owners \<Rightarrow> string \<Rightarrow> string \<Rightarrow> string" where
  "owner_at owners kind s = mget_or [] (mget_or fmempty owners kind) s"

lemma identityOwner_loop:
  assumes "foldM (identityOwner_step e) owners sigs = Inr owners'" and "ent_ID e \<noteq> []"
  shows "(\<forall>s \<in> sig_Value ` set sigs. mget_or [] owners' s = ent_ID e) \<and>
         (\<forall>s. mget_or [] owners s \<noteq> [] \<longrightarrow> mget_or [] owners' s = mget_or [] owners s)"
  using assms(1)
proof (induction sigs arbitrary: owners)
  case (Cons x sigs)
  then obtain o1 where o1: "identityOwner_step e owners x = Inr o1" "foldM (identityOwner_step e) o1 sigs = Inr owners'" by auto
  then have s: "o1 = fmupd (sig_Value x) (ent_ID e) owners" "mget_or [] owners (sig_Value x) \<in> {[], ent_ID e}"
    by (auto simp: identityOwner_step_def Let_def split: if_splits)
  with Cons.IH [OF o1(2)] assms(2) show ?case by (auto simp: mget_or_upd)
qed simp

lemma CIIdentityOwners_step:
  assumes "validateCIIdentityOwners ct legacy e owners = Inr owners'" and "ent_ID e \<noteq> []"
  shows "s \<in> ci_values ct legacy e \<Longrightarrow> owner_at owners' (ent_Kind e) s = ent_ID e"
    and "owner_at owners k s \<noteq> [] \<Longrightarrow> owner_at owners' k s = owner_at owners k s"
proof -
  let ?sigs = "ciIdentitySignatures ct legacy e (entityConfidence e)"
  consider "?sigs = []" "owners' = owners" | o1 where "foldM (identityOwner_step e) (mget_or fmempty owners (ent_Kind e)) ?sigs = Inr o1"
    "owners' = fmupd (ent_Kind e) o1 owners"
    using assms(1) by (auto simp: validateCIIdentityOwners_def Let_def split: if_splits)
  then have "(s \<in> ci_values ct legacy e \<longrightarrow> owner_at owners' (ent_Kind e) s = ent_ID e) \<and>
     (owner_at owners k s \<noteq> [] \<longrightarrow> owner_at owners' k s = owner_at owners k s)"
  proof cases
    case (2 o1)
    from identityOwner_loop [OF 2(1) assms(2)] show ?thesis by (auto simp: owner_at_def 2(2) mget_or_upd)
  qed auto
  then show "s \<in> ci_values ct legacy e \<Longrightarrow> owner_at owners' (ent_Kind e) s = ent_ID e"
    "owner_at owners k s \<noteq> [] \<Longrightarrow> owner_at owners' k s = owner_at owners k s" by blast+
qed

lemma ciTypes_loop_owners:
  assumes "foldM (ciTypesEntity_step g kinds cache) (v, owners) es = Inr (v', owners')" and "\<forall>e \<in> set es. ent_ID e \<noteq> []"
  shows "(\<forall>e \<in> set es. ent_Kind e \<in> kinds \<longrightarrow> (\<forall>s \<in> ci_values (g_CITypes g) (g_legacyIdentity g) e. owner_at owners' (ent_Kind e) s = ent_ID e)) \<and>
         (\<forall>k s. owner_at owners k s \<noteq> [] \<longrightarrow> owner_at owners' k s = owner_at owners k s)"
  using assms
proof (induction es arbitrary: v owners)
  case (Cons e es)
  from Cons.prems(1) obtain v1 o1 where s: "ciTypesEntity_step g kinds cache (v, owners) e = Inr (v1, o1)"
    "foldM (ciTypesEntity_step g kinds cache) (v1, o1) es = Inr (v', owners')" by (auto split: prod.splits)
  have ih: "(\<forall>e \<in> set es. ent_Kind e \<in> kinds \<longrightarrow> (\<forall>s \<in> ci_values (g_CITypes g) (g_legacyIdentity g) e. owner_at owners' (ent_Kind e) s = ent_ID e)) \<and>
         (\<forall>k s. owner_at o1 k s \<noteq> [] \<longrightarrow> owner_at owners' k s = owner_at o1 k s)"
    by (rule Cons.IH [OF s(2)]) (use Cons.prems(2) in simp)
  show ?case
  proof (cases "ent_Kind e \<in> kinds")
    case False
    with s(1) have "o1 = owners" by (simp add: ciTypesEntity_step_def)
    with ih False show ?thesis by simp
  next
    case True
    with s(1) have "validateCIIdentityOwners (g_CITypes g) (g_legacyIdentity g) e owners = Inr o1" by (auto simp: ciTypesEntity_step_def)
    from CIIdentityOwners_step [OF this] Cons.prems(2) have
      "\<forall>s \<in> ci_values (g_CITypes g) (g_legacyIdentity g) e. owner_at o1 (ent_Kind e) s = ent_ID e"
      "\<forall>k s. owner_at owners k s \<noteq> [] \<longrightarrow> owner_at o1 k s = owner_at owners k s" by auto
    with ih Cons.prems(2) show ?thesis by (metis list.set_intros(1) set_ConsD)
  qed
qed simp

lemma validated_identities_distinct:
  assumes "validateEntitiesAgainstCITypesForKinds g (Some kinds) = Inr ()" and "keyed g"
    and "mget (g_Entities g) i = Some a" "mget (g_Entities g) j = Some b" "ent_Kind a = ent_Kind b" "ent_Kind a \<in> kinds"
    and "s \<in> ci_values (g_CITypes g) (g_legacyIdentity g) a" "s \<in> ci_values (g_CITypes g) (g_legacyIdentity g) b"
  shows "i = j"
proof -
  from assms(1) obtain cache v v' owners' where
    l: "foldM (ciTypesEntity_step g kinds cache) (v, fmempty) (map snd (entries (g_Entities g))) = Inr (v', owners')"
    by (auto simp: validateEntitiesAgainstCITypesForKinds_def)
  have ids: "ent_ID e \<noteq> []" if "e \<in> set (map snd (entries (g_Entities g)))" for e
    using that assms(2) by (force simp: keyed_def)
  have mem: "e \<in> set (map snd (entries (g_Entities g)))" if "mget (g_Entities g) k = Some e" for k e
    using that by (auto intro!: image_eqI [of _ snd "(k, e)"])
  have "owner_at owners' (ent_Kind e) s = ent_ID e" if "e \<in> set (map snd (entries (g_Entities g)))" "ent_Kind e \<in> kinds"
    "s \<in> ci_values (g_CITypes g) (g_legacyIdentity g) e" for e
    using ciTypes_loop_owners [OF l] ids that by blast
  from this [OF mem [OF assms(3)]] this [OF mem [OF assms(4)]] assms(5-8) have "ent_ID a = ent_ID b" by simp
  with assms(2-4) show ?thesis by (auto simp: keyed_def)
qed


lemma rebuildIdentity_loop:
  assumes "\<And>i j a b s. (i, a) \<in> set es \<Longrightarrow> (j, b) \<in> set es \<Longrightarrow> ent_Kind a = ent_Kind b \<Longrightarrow> ent_Kind a \<in> kinds \<Longrightarrow> s \<in> S a \<Longrightarrow> s \<in> S b \<Longrightarrow> i = j"
    and "\<And>e. S e = sig_Value ` set (sigs e)" and "fmdom' next0 = kinds" and "\<And>k s. owner_of next0 k s = None"
  defines "f \<equiv> \<lambda>(id', entity) next'.
                       case mget next' (ent_Kind entity) of
                         None \<Rightarrow> next'
                       | Some ids \<Rightarrow> fmupd (ent_Kind entity) (fold (\<lambda>signature. fmupd (sig_Value signature) id') (sigs entity) ids) next'"
  shows "fmdom' (fold f es next0) = kinds \<and>
     (\<forall>k s j. owner_of (fold f es next0) k s = Some j \<longleftrightarrow> (\<exists>e. (j, e) \<in> set es \<and> ent_Kind e = k \<and> k \<in> kinds \<and> s \<in> S e))"
  using assms(1)
proof (induction es rule: rev_induct)
  case Nil
  then show ?case by (simp add: assms(3,4))
next
  case (snoc x es)
  obtain i e where x: "x = (i, e)" by (cases x)
  let ?n = "fold f es next0"
  have "fmdom' ?n = kinds \<and> (\<forall>k s j. owner_of ?n k s = Some j \<longleftrightarrow> (\<exists>e. (j, e) \<in> set es \<and> ent_Kind e = k \<and> k \<in> kinds \<and> s \<in> S e))"
  proof (rule snoc.IH)
    fix i a j b s
    assume "(i, a) \<in> set es" "(j, b) \<in> set es" and r: "ent_Kind a = ent_Kind b" "ent_Kind a \<in> kinds" "s \<in> S a" "s \<in> S b"
    then show "i = j" by (intro snoc.prems [OF _ _ r]) simp_all
  qed
  then have ih: "fmdom' ?n = kinds" "\<And>k s j. owner_of ?n k s = Some j \<longleftrightarrow> (\<exists>e. (j, e) \<in> set es \<and> ent_Kind e = k \<and> k \<in> kinds \<and> s \<in> S e)"
    by blast+
  have fs: "mget (fold (\<lambda>signature. fmupd (sig_Value signature) i) ss ids) s = (if s \<in> sig_Value ` set ss then Some i else mget ids s)" for ss ids s
    by (induction ss arbitrary: ids) auto
  show ?case
  proof (cases "ent_Kind e \<in> kinds")
    case False
    then have "mget ?n (ent_Kind e) = None" using ih(1) by (auto simp: fmlookup_dom'_iff)
    then have "fold f (es @ [x]) next0 = ?n" by (simp add: f_def x)
    with ih False show ?thesis by (auto simp: x)
  next
    case True
    then obtain ids where ids: "mget ?n (ent_Kind e) = Some ids" using ih(1) by (auto simp: fmlookup_dom'_iff)
    then have n: "fold f (es @ [x]) next0 = fmupd (ent_Kind e) (fold (\<lambda>signature. fmupd (sig_Value signature) i) (sigs e) ids) ?n"
      by (simp add: f_def x)
    have "owner_of (fold f (es @ [x]) next0) k s = (if k = ent_Kind e \<and> s \<in> S e then Some i else owner_of ?n k s)" for k s
      unfolding n using ids by (auto simp: fs assms(2) mget_or_def)
    moreover have "fmdom' (fold f (es @ [x]) next0) = kinds" unfolding n using ih(1) True by auto
    moreover have "(if k = ent_Kind e \<and> s \<in> S e then Some i else owner_of ?n k s) = Some j \<longleftrightarrow>
       (\<exists>e. (j, e) \<in> set (es @ [x]) \<and> ent_Kind e = k \<and> k \<in> kinds \<and> s \<in> S e)" for k s j
    proof (cases "k = ent_Kind e \<and> s \<in> S e")
      case in_e: True
      then show ?thesis using snoc.prems [of j _ i e] True by (auto simp: x)
    next
      case False
      then show ?thesis using ih(2) by (auto simp: x)
    qed
    ultimately show ?thesis by simp
  qed
qed

lemma rebuildIdentity_owner:
  assumes fin: "finite kinds" and u: "\<And>i j a b s. mget (g_Entities g) i = Some a \<Longrightarrow> mget (g_Entities g) j = Some b \<Longrightarrow> ent_Kind a = ent_Kind b \<Longrightarrow>
       ent_Kind a \<in> kinds \<Longrightarrow> s \<in> sig_values g a \<Longrightarrow> s \<in> sig_values g b \<Longrightarrow> i = j"
  shows "owner_of (g_identityIndex (rebuildIdentityIndexesForKinds kinds g)) k s = Some j \<longleftrightarrow>
     (if k \<in> kinds then \<exists>e. mget (g_Entities g) j = Some e \<and> ent_Kind e = k \<and> s \<in> sig_values g e
      else owner_of (g_identityIndex g) k s = Some j)"
proof (cases "kinds = {}")
  case False
  let ?f = "\<lambda>(id', entity) next'. case mget next' (ent_Kind entity) of None \<Rightarrow> next'
      | Some ids \<Rightarrow> fmupd (ent_Kind entity) (fold (\<lambda>signature. fmupd (sig_Value signature) id') (graphIdentitySignatures g entity) ids) next'"
  define next0 :: identityMap where "next0 = fold (\<lambda>kind. fmupd kind fmempty) (sortedKeys kinds) fmempty"
  have l: "mget (fold (\<lambda>kind. fmupd kind fmempty) ks m) k = (if k \<in> set ks then Some fmempty else mget m k)" for ks k and m :: identityMap
    by (induction ks arbitrary: m) auto
  have n0: "mget next0 k = (if k \<in> kinds then Some fmempty else None)" for k unfolding next0_def l using fin by (simp add: sortedKeys_def)
  have r: "fmdom' (fold ?f (entries (g_Entities g)) next0) = kinds \<and>
     (\<forall>k s j. owner_of (fold ?f (entries (g_Entities g)) next0) k s = Some j \<longleftrightarrow>
       (\<exists>e. (j, e) \<in> set (entries (g_Entities g)) \<and> ent_Kind e = k \<and> k \<in> kinds \<and> s \<in> sig_values g e))"
  proof (rule rebuildIdentity_loop)
    fix i j a b s assume "(i, a) \<in> set (entries (g_Entities g))" "(j, b) \<in> set (entries (g_Entities g))"
      and r: "ent_Kind a = ent_Kind b" "ent_Kind a \<in> kinds" "s \<in> sig_values g a" "s \<in> sig_values g b"
    then show "i = j" by (intro u [OF _ _ r]) simp_all
  next
    show "fmdom' next0 = kinds" by (intro set_eqI) (simp add: fmlookup_dom'_iff n0)
    show "owner_of next0 k s = None" for k s by (simp add: mget_or_def n0)
  qed simp
  have i: "g_identityIndex (rebuildIdentityIndexesForKinds kinds g) = put_all (fold ?f (entries (g_Entities g)) next0) (g_identityIndex g)"
    using False by (simp add: rebuildIdentityIndexesForKinds_def next0_def [symmetric] Let_def)
  show ?thesis
  proof (cases "k \<in> kinds")
    case True
    then have "k \<in> fmdom' (fold ?f (entries (g_Entities g)) next0)" using r by blast
    then obtain ids where "mget (fold ?f (entries (g_Entities g)) next0) k = Some ids" unfolding fmlookup_dom'_iff by blast
    then have "owner_of (g_identityIndex (rebuildIdentityIndexesForKinds kinds g)) k s = owner_of (fold ?f (entries (g_Entities g)) next0) k s"
      by (simp add: i mget_or_def put_all_lookup)
    with r True show ?thesis by simp
  next
    case False
    then have "k \<notin> fmdom' (fold ?f (entries (g_Entities g)) next0)" using r by blast
    then have "mget (fold ?f (entries (g_Entities g)) next0) k = None" by (rule fmdom'_notD)
    then show ?thesis using False by (simp add: i mget_or_def put_all_lookup)
  qed
qed (simp add: rebuildIdentityIndexesForKinds_def)


lemma stored_kind: "mget E j = Some e \<Longrightarrow> ent_Kind e \<in> entityKindSet E"
  by (auto simp: entityKindSet_def image_image intro!: image_eqI [of _ _ "(j, e)"])

text \<open>The loops of a schema change: only the types of the changed kinds differ afterwards.\<close>

definition ci_change :: "Graph \<Rightarrow> apply_state \<times> string set \<Rightarrow> bool" where
  "ci_change g0 = (\<lambda>(st, changed).
     (as_graph st)\<lparr>g_CITypes := g_CITypes g0\<rparr> = g0 \<and> finite changed \<and>
     (\<forall>k. k \<notin> changed \<longrightarrow> mget (g_CITypes (as_graph st)) k = mget (g_CITypes g0) k))"

lemma ci_change_loops:
  "foldM (deleteCIType_step used) s names = Inr s' \<Longrightarrow> ci_change g0 s \<Longrightarrow> ci_change g0 s'"
  "foldM upsertCIType_step s types = Inr s' \<Longrightarrow> ci_change g0 s \<Longrightarrow> ci_change g0 s'"
proof -
  show "foldM (deleteCIType_step used) s names = Inr s' \<Longrightarrow> ci_change g0 s \<Longrightarrow> ci_change g0 s'"
    by (erule foldM_invariant) (auto simp: ci_change_def deleteCIType_step_def split: if_splits)
  show "foldM upsertCIType_step s types = Inr s' \<Longrightarrow> ci_change g0 s \<Longrightarrow> ci_change g0 s'"
    by (erule foldM_invariant) (auto simp: ci_change_def upsertCIType_step_def split: if_splits)
qed

lemma applyCITypeMutationsE:
  assumes "applyCITypeMutations deletes upserts st = Inr st'"
  obtains (same) "deletes = []" "upserts = []" "st' = st"
  | (changed) ct changed st2 used kinds where
    "as_graph st2 = (as_graph st)\<lparr>g_CITypes := ct\<rparr>" "finite changed" "\<And>k. k \<notin> changed \<Longrightarrow> mget ct k = mget (g_CITypes (as_graph st)) k"
    "used = entityKindSet (g_Entities (as_graph st))" "kinds = affectedCITypeKinds ct changed \<inter> used" "changed \<inter> used \<subseteq> kinds"
    "validateCITypes ct = Inr ()" "kinds = {} \<or> validateEntitiesAgainstCITypesForKinds (as_graph st2) (Some kinds) = Inr ()"
    "st' = st2\<lparr>as_graph := rebuildIdentityIndexesForKinds (changed \<inter> used) (as_graph st2)\<rparr>"
proof (cases "deletes = [] \<and> upserts = []")
  case True
  with assms same show thesis by (simp add: applyCITypeMutations_def)
next
  case False
  define used where "used = entityKindSet (g_Entities (as_graph st))"
  have "\<exists>s1 st2 changed. foldM (deleteCIType_step used) (st, {}) deletes = Inr s1 \<and> foldM upsertCIType_step s1 upserts = Inr (st2, changed) \<and>
      validateCITypes (g_CITypes (as_graph st2)) = Inr () \<and>
      (affectedCITypeKinds (g_CITypes (as_graph st2)) changed \<inter> used = {} \<or>
       validateEntitiesAgainstCITypesForKinds (as_graph st2) (Some (affectedCITypeKinds (g_CITypes (as_graph st2)) changed \<inter> used)) = Inr ()) \<and>
      st' = st2\<lparr>as_graph := rebuildIdentityIndexesForKinds (changed \<inter> used) (as_graph st2)\<rparr>"
    using assms False
    by (simp only: applyCITypeMutations_def Let_def intersectStringSets_def used_def [symmetric] if_False rbind_eq_Inr split: if_splits prod.splits)
       (fastforce simp: used_def)+
  then obtain s1 st2 changed where d: "foldM (deleteCIType_step used) (st, {}) deletes = Inr s1" and u: "foldM upsertCIType_step s1 upserts = Inr (st2, changed)"
    and r: "validateCITypes (g_CITypes (as_graph st2)) = Inr ()"
      "affectedCITypeKinds (g_CITypes (as_graph st2)) changed \<inter> used = {} \<or>
       validateEntitiesAgainstCITypesForKinds (as_graph st2) (Some (affectedCITypeKinds (g_CITypes (as_graph st2)) changed \<inter> used)) = Inr ()"
      "st' = st2\<lparr>as_graph := rebuildIdentityIndexesForKinds (changed \<inter> used) (as_graph st2)\<rparr>" by blast
  have "ci_change (as_graph st) (st, {})" by (simp add: ci_change_def)
  note c = ci_change_loops(2) [OF u ci_change_loops(1) [OF d this]]
  define ct where "ct = g_CITypes (as_graph st2)"
  have "as_graph st2 = ((as_graph st2)\<lparr>g_CITypes := g_CITypes (as_graph st)\<rparr>)\<lparr>g_CITypes := ct\<rparr>" by (simp add: ct_def)
  also have "\<dots> = (as_graph st)\<lparr>g_CITypes := ct\<rparr>" using c by (simp only: ci_change_def split_conv)
  finally have g: "as_graph st2 = (as_graph st)\<lparr>g_CITypes := ct\<rparr>" .
  from c have fin: "finite changed" and same: "\<And>k. k \<notin> changed \<Longrightarrow> mget ct k = mget (g_CITypes (as_graph st)) k"
    by (simp_all add: ci_change_def ct_def)
  have "affectedCITypeKinds ct changed = (child_rel ct)\<^sup>* `` changed"
    unfolding affectedCITypeKinds_def by (rule affect_kinds_closure) (use fin in auto)
  then have "changed \<inter> used \<subseteq> affectedCITypeKinds ct changed \<inter> used" by auto
  from changed [OF g fin same used_def refl this _ _ r(3)] r(1,2) show thesis by (simp add: g)
qed

lemma ciTypeMutations_identified:
  assumes step: "applyCITypeMutations deletes upserts st = Inr st'" and ok: "indexed (pos {} st)" and i: "identified (pos {} st)"
  shows "identified (pos {} st')"
  using step
proof (cases rule: applyCITypeMutationsE)
  case (changed ct chg st2 used kinds)
  let ?old = "as_graph st" and ?g = "as_graph st2"
  have key: "keyed ?g" using ok by (simp add: indexed_iff changed(1) keyed_def)
  have used: "ent_Kind e \<in> used" if "mget (g_Entities ?old) j = Some e" for j e
    unfolding changed(4) using that by (rule stored_kind)
  have i0: "owner_of (g_identityIndex ?old) k s = Some j \<longleftrightarrow> (\<exists>e. mget (g_Entities ?old) j = Some e \<and> ent_Kind e = k \<and> s \<in> sig_values ?old e)" for k s j
    using i identity_index_okD [of ?old "g_Entities ?old" k s j] by (simp add: identified_def)
  have u: "x = y" if x: "mget (g_Entities ?g) x = Some a" and y: "mget (g_Entities ?g) y = Some b" and k: "ent_Kind a = ent_Kind b" "ent_Kind a \<in> chg \<inter> used"
      and s: "s \<in> sig_values ?g a" "s \<in> sig_values ?g b" for x y a b s
  proof -
    let ?ci = "ci_values (g_CITypes ?g) (g_legacyIdentity ?g)" and ?src = "source_values (g_legacyIdentity ?g)"
    from s have "s \<in> ?ci a \<and> s \<in> ?ci b \<or> s \<in> ?src a \<and> s \<in> ?src b"
      using ci_source_disjoint [of "g_CITypes ?g" "g_legacyIdentity ?g"] unfolding sig_values_split by blast
    then show ?thesis
    proof
      assume "s \<in> ?ci a \<and> s \<in> ?ci b"
      moreover from k(2) changed(6,8) have "validateEntitiesAgainstCITypesForKinds ?g (Some kinds) = Inr ()" "ent_Kind a \<in> kinds" by auto
      ultimately show ?thesis using validated_identities_distinct [OF _ key x y k(1)] by blast
    next
      assume "s \<in> ?src a \<and> s \<in> ?src b"
      then have "s \<in> sig_values ?old a" "s \<in> sig_values ?old b" by (simp_all add: sig_values_split changed(1))
      with i0 [of "ent_Kind a" s x] i0 [of "ent_Kind a" s y] x y k(1) show ?thesis by (auto simp: changed(1))
    qed
  qed
  have "identity_index_ok (rebuildIdentityIndexesForKinds (chg \<inter> used) ?g) (g_Entities ?g)"
    unfolding identity_index_ok_def identities_owner
  proof (intro allI)
    fix k s j
    have r: "owner_of (g_identityIndex (rebuildIdentityIndexesForKinds (chg \<inter> used) ?g)) k s = Some j \<longleftrightarrow>
       (if k \<in> chg \<inter> used then \<exists>e. mget (g_Entities ?g) j = Some e \<and> ent_Kind e = k \<and> s \<in> sig_values ?g e
        else owner_of (g_identityIndex ?g) k s = Some j)"
      by (rule rebuildIdentity_owner) (use changed(2) in simp, rule u)
    show "owner_of (g_identityIndex (rebuildIdentityIndexesForKinds (chg \<inter> used) ?g)) k s = Some j \<longleftrightarrow>
      (\<exists>e. mget (g_Entities ?g) j = Some e \<and> ent_Kind e = k \<and> s \<in> sig_Value ` set (graphIdentitySignatures (rebuildIdentityIndexesForKinds (chg \<inter> used) ?g) e))"
    proof (cases "k \<in> chg \<inter> used")
      case True
      with r show ?thesis by simp
    next
      case False
      have "sig_values ?g e = sig_values ?old e" if "mget (g_Entities ?old) j = Some e" "ent_Kind e = k" for e
        using False used [OF that(1)] that(2) changed(3) [of k] ci_values_kind [of ct e "g_CITypes ?old"] by (simp add: sig_values_split changed(1))
      then have "(\<exists>e. mget (g_Entities ?old) j = Some e \<and> ent_Kind e = k \<and> s \<in> sig_values ?g e) \<longleftrightarrow>
          (\<exists>e. mget (g_Entities ?old) j = Some e \<and> ent_Kind e = k \<and> s \<in> sig_values ?old e)" by blast
      with r False i0 [of k s j] show ?thesis by (simp add: changed(1))
    qed
  qed
  then show ?thesis by (simp add: identified_def changed(9))
qed (use i in simp)

lemma schemaPhase_identified:
  assumes "schemaPhase mutations st = Inr st'" and ok: "indexed (pos {} st)" and i: "identified (pos {} st)"
  shows "identified (pos {} st')"
proof -
  from assms(1) obtain st1 st2 where s: "applyRelationTypeDeletes (mu_DeleteRelationTypes mutations) st = Inr st1"
    "applyCITypeMutations (mu_DeleteCITypes mutations) (mu_UpsertCITypes mutations) st1 = Inr st2"
    "applyRelationTypeUpserts (mu_UpsertRelationTypes mutations) st2 = Inr st'" by (auto simp: schemaPhase_def)
  note g1 = steps_opD [OF relationTypeDeletes_steps s(1) ok, of False]
  have ok1: "indexed (pos {} st1)" by (rule gsteps_indexed [OF g1 ok])
  have i1: "identified (pos {} st1)" by (rule gsteps_identified [OF g1 ok i])
  have ok2: "indexed (pos {} st2)" by (rule gsteps_indexed [OF steps_opD [OF ciTypeMutations_steps s(2) ok1] ok1])
  have i2: "identified (pos {} st2)" by (rule ciTypeMutations_identified [OF s(2) ok1 i1])
  show ?thesis by (rule gsteps_identified [OF steps_opD [OF relationTypeUpserts_steps s(3) ok2, of False] ok2 i2])
qed

lemma commit_identified:
  assumes "applyMutations env commit g0 = Inr (g', report)" and "graph_ok g0" and "trimmed_splits (co_Mutations commit)"
    and "encoding_ok g0 commit" and "identity_index_ok g0 (g_Entities g0)"
  shows "identity_index_ok g' (g_Entities g')"
  using assms(1)
proof (cases rule: applyMutationsE)
  case (1 g st1 st2 st3 st4)
  obtain index where g: "g = g0\<lparr>g_legacyIdentity := legacyCommitIdentity commit, g_identityIndex := index\<rparr>"
    by (rule useCommitIdentity_frame [OF 1(1)])
  note exact = useCommitIdentity_exact [OF 1(1) assms(5,4)]
  have ok: "indexed (pos {} (initial_state g))" and i: "identified (pos {} (initial_state g))"
    using assms(2) exact graph_ok_indexed [of g "as_tracker (initial_state g)"] by (simp_all add: g initial_state_def identified_def)
  have ok1: "indexed (pos {} st1)" and i1: "identified (pos {} st1)"
    using deletes.keeps_indexed [OF TrueI 1(2) ok] deletes.keeps_identified [OF _ TrueI 1(2) ok i] by simp_all
  have ok2: "indexed (pos {} st2)" and i2: "identified (pos {} st2)"
    using schemas.keeps_indexed [OF TrueI 1(3) ok1] schemaPhase_identified [OF 1(3) ok1 i1] by simp_all
  have ok3: "indexed (pos {} st3)" and i3: "identified (pos {} st3)"
    using entities.keeps_indexed [OF assms(3) 1(4) ok2] entities.keeps_identified [OF _ assms(3) 1(4) ok2 i2] by simp_all
  have "identified (pos {} st4)" using edges.keeps_identified [OF _ TrueI 1(5) ok3 i3] by simp
  then have i4: "identity_index_ok (as_graph st4) (g_Entities (as_graph st4))" by (simp add: identified_def)
  obtain parts where p: "refreshEntityPartitions env (as_tracker st4) (as_graph st4) = (as_graph st4)\<lparr>g_entityPartitions := parts\<rparr>"
    using refreshEntityPartitions_frame by blast
  note g' = finish_frame [OF 1(6), THEN conjunct2, unfolded p]
  have "identity_index_ok g' (g_Entities (as_graph st4)) = identity_index_ok (as_graph st4) (g_Entities (as_graph st4))"
    by (rule identity_index_ok_cong; subst g'; simp)
  then show ?thesis using i4 arg_cong [OF g', of g_Entities] by simp
qed

end
