(* ===== verification/CommitEntry.thy ===== *)
theory CommitEntry
  imports CommitSteps
begin

text \<open>
  The entry points of \<open>apply.go\<close> and \<open>copy_on_write.go\<close> over \<open>applyMutations\<close>: what a source policy and
  a copy leave alone, what a commit of a copy keeps of the invariants, and that a batch is its commits one by one.
\<close>

section \<open>The entry points of a commit\<close>

text \<open>A source policy renames fields and sets priorities; it leaves the IDs of split replacements alone.\<close>

definition split_ids :: "Mutations \<Rightarrow> string list list" where
  "split_ids mutations = map (\<lambda>split. map ent_ID (sr_Entities split)) (mu_SplitEntities mutations)"

lemma trimmed_splits_ids: "trimmed_splits mutations \<longleftrightarrow> (\<forall>is\<in>set (split_ids mutations). \<forall>i\<in>set is. TrimSpace i = i \<and> i \<noteq> [])"
  by (auto simp: trimmed_splits_def trimmed_split_def split_ids_def list_all_iff)

lemma mapM_keeps:
  "mapM f xs = Inr ys \<Longrightarrow> (\<And>x y. f x = Inr y \<Longrightarrow> p y = p x) \<Longrightarrow> map p ys = map p xs"
  by (induction xs arbitrary: ys) auto

lemma PrepareEntityFieldWrites_ids:
  assumes "PrepareEntityFieldWrites m = Inr m'"
  shows "split_ids m' = split_ids m"
proof -
  have e: "ent_ID y = ent_ID x" if "prepareEntityFieldWrites x = Inr y" for x y
    using that by (auto simp: prepareEntityFieldWrites_def)
  let ?f = "\<lambda>split. rbind (mapM prepareEntityFieldWrites (sr_Entities split)) (\<lambda>es. Inr (split\<lparr>sr_Entities := es\<rparr>))"
  obtain splits where r: "mapM ?f (mu_SplitEntities m) = Inr splits" and m': "mu_SplitEntities m' = splits"
    using assms by (auto simp: PrepareEntityFieldWrites_def)
  have "map ent_ID (sr_Entities s') = map ent_ID (sr_Entities s)" if "?f s = Inr s'" for s s'
    using that mapM_keeps [where p = ent_ID and f = prepareEntityFieldWrites, OF _ e] by auto
  from mapM_keeps [OF r this] show ?thesis unfolding split_ids_def m' .
qed

lemma policy_ids:
  "ent_ID (applyPolicyToEntity policy entity) = ent_ID entity"
  "ent_ID (fst (applyFieldAliasesToEntity policy entity)) = ent_ID entity"
  "ent_ID (applyFieldPrioritiesToEntity policy entity) = ent_ID entity"
  by (simp_all add: applyFieldPrioritiesToEntity_def applyFieldAliasesToEntity_def applyPolicyToEntity_def Let_def)
     (intro impI fold_frame [where sel = ent_ID], simp split: option.split)

lemma policyEntity_id: "ent_ID (fst (policyEntity policy entity)) = ent_ID entity"
proof -
  obtain e c where "applyFieldAliasesToEntity policy (applyPolicyToEntity policy (entity\<lparr>ent_FieldSources := fmempty\<rparr>)) = (e, c)"
    by (rule prod.exhaust)
  with policy_ids(2) [of policy "applyPolicyToEntity policy (entity\<lparr>ent_FieldSources := fmempty\<rparr>)"] show ?thesis
    by (simp add: policyEntity_def policy_ids)
qed

lemma ApplySourcePolicy_ids:
  assumes "ApplySourcePolicy m policy = Inr (m', report)"
  shows "split_ids m' = split_ids m"
proof (rule if_InrE [OF assms [unfolded ApplySourcePolicy_def]])
  assume "Inr (m, zero_ApplyReport) = Inr (m', report)"
  then show ?thesis by simp
next
  assume "rbind (map_sum ValueError id (PrepareEntityFieldWrites m)) (\<lambda>prepared.
        rbind (map_sum PolicyError id (NormalizeSourcePolicy policy)) (\<lambda>policy.
        let upserts = map (policyEntity policy) (mu_UpsertEntities prepared);
            splits = map (\<lambda>split. map (policyEntity policy) (sr_Entities split)) (mu_SplitEntities prepared)
        in Inr (prepared
                  \<lparr>mu_UpsertEntities := map fst upserts,
                   mu_SplitEntities :=
                     map2 (\<lambda>split es. split\<lparr>sr_Entities := map fst es\<rparr>) (mu_SplitEntities prepared) splits,
                   mu_DeleteEntityRequests :=
                     map (applyPolicyToEntityDelete policy) (mu_DeleteEntityRequests prepared),
                   mu_MarkSourceStale := map (applyPolicyToSourceStale policy) (mu_MarkSourceStale prepared),
                   mu_UpsertEdges := map (applyPolicyToEdge policy) (mu_UpsertEdges prepared),
                   mu_DeleteEdgeRequests :=
                     map (applyPolicyToEdgeDelete policy) (mu_DeleteEdgeRequests prepared)\<rparr>,
                zero_ApplyReport
                  \<lparr>ar_Suppressed := concat (map snd upserts) @ concat (map (concat \<circ> map snd) splits)\<rparr>))) = Inr (m', report)"
  then obtain prepared policy' where p: "PrepareEntityFieldWrites m = Inr prepared"
    and m': "mu_SplitEntities m' = map2 (\<lambda>split es. split\<lparr>sr_Entities := map fst es\<rparr>) (mu_SplitEntities prepared)
      (map (\<lambda>split. map (policyEntity policy') (sr_Entities split)) (mu_SplitEntities prepared))"
    by (auto simp: Let_def)
  have eq: "map2 (\<lambda>split es. split\<lparr>sr_Entities := map fst es\<rparr>) xs (map (\<lambda>split. map (policyEntity policy') (sr_Entities split)) xs)
      = map (\<lambda>split. split\<lparr>sr_Entities := map (fst \<circ> policyEntity policy') (sr_Entities split)\<rparr>) xs" for xs
    by (induction xs) simp_all
  have "split_ids m' = split_ids prepared"
    unfolding split_ids_def m' eq by (simp add: comp_def policyEntity_id)
  with PrepareEntityFieldWrites_ids [OF p] show ?thesis by simp
qed

lemma Clone_simp: "Clone g = g\<lparr>g_entityPartitions := None\<rparr>"
  by (simp add: Clone_def inheritReadOrder_def contentFingerprintState_def shareLogicalHashCache_def)

lemma cloneForStorageImpact_simp: "cloneForStorageImpact impact g = g\<lparr>g_entityPartitions := None\<rparr>"
  by (simp add: cloneForStorageImpact_def inheritReadOrder_def contentFingerprintState_def shareLogicalHashCache_def storageMutationMap_def)

lemma replaceState_simp: "replaceState next' g = next'"
  by (simp add: replaceState_def inheritReadOrder_def contentFingerprintState_def shareLogicalHashCache_def)

text \<open>The mutations a commit applies: those of the commit, after the source policy.\<close>

definition admitted :: "Commit \<Rightarrow> ApplyOptions \<Rightarrow> error + Mutations \<times> ApplyReport" where
  "admitted commit options =
     (case ao_SourcePolicy options of None \<Rightarrow> Inr (co_Mutations commit, zero_ApplyReport)
      | Some policy \<Rightarrow> ApplySourcePolicy (co_Mutations commit) policy)"

lemma admitted_trimmed: "admitted commit options = Inr (m, report) \<Longrightarrow> trimmed_splits (co_Mutations commit) \<Longrightarrow> trimmed_splits m"
  by (cases "ao_SourcePolicy options") (simp_all add: admitted_def trimmed_splits_ids ApplySourcePolicy_ids)

text \<open>The stored fingerprint is the recomputed one, whenever it is marked ready.\<close>

definition fingerprint_ok :: "Graph \<Rightarrow> bool" where
  "fingerprint_ok g \<longleftrightarrow> (g_contentFingerprintReady g \<longrightarrow> computeFingerprint g = Inr (g_contentFingerprint g))"

lemma ensureContentFingerprintE:
  assumes "ensureContentFingerprint g = Inr h"
  obtains fp where "h = g\<lparr>g_contentFingerprint := fp, g_contentFingerprintReady := True\<rparr>" "fingerprint_ok g \<Longrightarrow> computeFingerprint g = Inr fp"
proof (cases "g_contentFingerprintReady g")
  case True
  with assms have "h = g" by (simp add: ensureContentFingerprint_def)
  with True show thesis by (intro that [of "g_contentFingerprint g"]) (simp_all add: fingerprint_ok_def)
next
  case False
  with assms show thesis by (auto simp: ensureContentFingerprint_def intro: that)
qed

lemma applyCommitToCopyE:
  assumes "applyCommitToCopy env g clone commit options = Inr (g', report)"
  obtains m suppressed report0 where
    "admitted commit options = Inr (m, suppressed)" "g_Version g < co_Version commit"
    "applyMutations env (commit\<lparr>co_Mutations := m\<rparr>) (clone\<lparr>g_Version := co_Version commit\<rparr>) = Inr (g', report0)"
    "report = report0\<lparr>ar_Suppressed := ar_Suppressed suppressed @ ar_Suppressed report0\<rparr>"
  using assms by (auto simp: applyCommitToCopy_def admitted_def [symmetric] split: if_splits intro: that)

text \<open>The same copy-on-write path serves plain copies and storage copies; their values are the same.\<close>

lemma storage_copy_same: "ApplyCommitStorageCopyWithOptions = ApplyCommitCopyWithOptions"
  by (intro ext) (simp add: ApplyCommitStorageCopyWithOptions_def ApplyCommitCopyWithOptions_def cloneForStorageMutation_def
      cloneForStorageImpact_simp Clone_simp)

lemma applyCommitCopyE:
  assumes "ApplyCommitCopyWithOptions env g commit options = Inr (g', report)"
  obtains m suppressed fp report0 where
    "admitted commit options = Inr (m, suppressed)" "g_Version g < co_Version commit" "fingerprint_ok g \<Longrightarrow> computeFingerprint g = Inr fp"
    "applyMutations env (commit\<lparr>co_Mutations := m\<rparr>)
       (g\<lparr>g_contentFingerprint := fp, g_contentFingerprintReady := True, g_entityPartitions := None, g_Version := co_Version commit\<rparr>) = Inr (g', report0)"
    "report = report0\<lparr>ar_Suppressed := ar_Suppressed suppressed @ ar_Suppressed report0\<rparr>"
proof -
  obtain h where h: "ensureContentFingerprint g = Inr h" and a: "applyCommitToCopy env h (Clone h) commit options = Inr (g', report)"
    using assms by (auto simp: ApplyCommitCopyWithOptions_def split: if_splits)
  obtain fp where fp: "h = g\<lparr>g_contentFingerprint := fp, g_contentFingerprintReady := True\<rparr>" "fingerprint_ok g \<Longrightarrow> computeFingerprint g = Inr fp"
    by (rule ensureContentFingerprintE [OF h]) blast
  show thesis by (rule applyCommitToCopyE [OF a]) (rule that [of _ _ fp], simp_all add: fp Clone_simp)
qed


section \<open>What a commit of a copy keeps\<close>

lemma copy_graph_ok:
  assumes "ApplyCommitCopyWithOptions env g commit options = Inr (g', report)" and "graph_ok g" and "trimmed_splits (co_Mutations commit)"
  shows "graph_ok g'"
proof (rule applyCommitCopyE [OF assms(1)])
  fix m suppressed fp report0
  assume m: "admitted commit options = Inr (m, suppressed)"
    and a: "applyMutations env (commit\<lparr>co_Mutations := m\<rparr>)
      (g\<lparr>g_contentFingerprint := fp, g_contentFingerprintReady := True, g_entityPartitions := None, g_Version := co_Version commit\<rparr>) = Inr (g', report0)"
  show ?thesis using assms(2) admitted_trimmed [OF m assms(3)] by (intro applyMutations_graph_ok [OF a]) simp_all
qed

lemma commit_frame:
  assumes "applyMutations env commit g0 = Inr (g', report)" and "graph_ok g0" and "trimmed_splits (co_Mutations commit)"
  shows "g_Version g' = g_Version g0" "g_legacyIdentity g' = legacyCommitIdentity commit" "g_contentFingerprintReady g' = g_contentFingerprintReady g0"
    "g_entityPartitions g0 = None \<Longrightarrow> g_entityPartitions g' = None"
proof -
  obtain g4 t r parts fingerprint cache where
    fr: "step_frame g4 = step_frame (g0\<lparr>g_legacyIdentity := legacyCommitIdentity commit\<rparr>)"
    and p: "refreshEntityPartitions env t g4 = g4\<lparr>g_entityPartitions := parts\<rparr>"
    and g': "g' = g4\<lparr>g_entityPartitions := parts, g_contentFingerprint := fingerprint, g_logicalHashCache := cache\<rparr>"
    by (rule commit_finish [OF assms])
  show "g_Version g' = g_Version g0" "g_legacyIdentity g' = legacyCommitIdentity commit" "g_contentFingerprintReady g' = g_contentFingerprintReady g0"
    using fr by (simp_all add: g' step_frame_def)
  assume "g_entityPartitions g0 = None"
  with fr have "g_entityPartitions g4 = None" by (simp add: step_frame_def)
  then have "refreshEntityPartitions env t g4 = g4" by (simp add: refreshEntityPartitions_def)
  with p \<open>g_entityPartitions g4 = None\<close> have "parts = None" by (metis Graph.select_convs(17) Graph.surjective Graph.update_convs(17))
  then show "g_entityPartitions g' = None" by (simp add: g')
qed

lemma copy_fingerprint:
  assumes "ApplyCommitCopyWithOptions env g commit options = Inr (g', report)" and "graph_ok g" and "trimmed_splits (co_Mutations commit)"
    and "fingerprint_ok g"
  shows "g_contentFingerprintReady g' \<and> computeFingerprint g' = Inr (g_contentFingerprint g') \<and>
     ar_ContentFingerprint report = hex_digest (g_contentFingerprint g') \<and> (ar_Changed report \<longleftrightarrow> content_changed g g')"
proof (rule applyCommitCopyE [OF assms(1)])
  fix m suppressed fp report0
  let ?h = "g\<lparr>g_contentFingerprint := fp, g_contentFingerprintReady := True, g_entityPartitions := None, g_Version := co_Version commit\<rparr>"
  assume m: "admitted commit options = Inr (m, suppressed)" and fp: "fingerprint_ok g \<Longrightarrow> computeFingerprint g = Inr fp"
    and a: "applyMutations env (commit\<lparr>co_Mutations := m\<rparr>) ?h = Inr (g', report0)"
    and report: "report = report0\<lparr>ar_Suppressed := ar_Suppressed suppressed @ ar_Suppressed report0\<rparr>"
  have c: "content ?h = content g" by (simp add: content_def)
  have ok: "graph_ok ?h" "trimmed_splits (co_Mutations (commit\<lparr>co_Mutations := m\<rparr>))"
    using assms(2) admitted_trimmed [OF m assms(3)] by simp_all
  have "computeFingerprint ?h = Inr (g_contentFingerprint ?h)" using fp [OF assms(4)] content_cong(1) [OF c] by simp
  from commit_fingerprint [OF a ok this] commit_frame(3) [OF a ok] content_cong(5) [OF c] show ?thesis by (simp add: report)
qed

lemma copy_hash_cache:
  assumes "ApplyCommitCopyWithOptions env g commit options = Inr (g', report)" and "graph_ok g" and "trimmed_splits (co_Mutations commit)"
    and "g_logicalHashCache g = Some cache" and "hash_cache_ok g cache" and "ar_Changed report"
  shows "\<exists>cache'. g_logicalHashCache g' = Some cache' \<and> hash_cache_ok g' cache' \<and> \<not> lhc_finalReady cache'"
proof (rule applyCommitCopyE [OF assms(1)])
  fix m suppressed fp report0
  let ?h = "g\<lparr>g_contentFingerprint := fp, g_contentFingerprintReady := True, g_entityPartitions := None, g_Version := co_Version commit\<rparr>"
  assume m: "admitted commit options = Inr (m, suppressed)"
    and a: "applyMutations env (commit\<lparr>co_Mutations := m\<rparr>) ?h = Inr (g', report0)"
    and report: "report = report0\<lparr>ar_Suppressed := ar_Suppressed suppressed @ ar_Suppressed report0\<rparr>"
  have "content ?h = content g" by (simp add: content_def)
  from content_cong(2) [OF this, of cache] show ?thesis
    using assms(2,4-6) admitted_trimmed [OF m assms(3)] by (intro commit_hash_cache [OF a]) (simp_all add: report)
qed

lemma copy_identified:
  assumes "ApplyCommitCopyWithOptions env g commit options = Inr (g', report)" and "graph_ok g" and "trimmed_splits (co_Mutations commit)"
    and "encoding_ok g commit" and "identity_index_ok g (g_Entities g)"
  shows "identity_index_ok g' (g_Entities g')"
proof (rule applyCommitCopyE [OF assms(1)])
  fix m suppressed fp report0
  let ?h = "g\<lparr>g_contentFingerprint := fp, g_contentFingerprintReady := True, g_entityPartitions := None, g_Version := co_Version commit\<rparr>"
  assume m: "admitted commit options = Inr (m, suppressed)"
    and a: "applyMutations env (commit\<lparr>co_Mutations := m\<rparr>) ?h = Inr (g', report0)"
  have l: "legacyCommitIdentity (commit\<lparr>co_Mutations := m\<rparr>) = legacyCommitIdentity commit" by (simp add: legacyCommitIdentity_def)
  have "identity_index_ok ?h (g_Entities ?h)"
    using assms(5) by (simp add: identity_index_ok_def identities_def)
  moreover have "encoding_ok ?h (commit\<lparr>co_Mutations := m\<rparr>)"
    using assms(4) unique_identities_cong [of "?h\<lparr>g_legacyIdentity := legacyCommitIdentity commit\<rparr>" "g\<lparr>g_legacyIdentity := legacyCommitIdentity commit\<rparr>"]
    by (simp add: encoding_ok_def l)
  ultimately show ?thesis using assms(2) admitted_trimmed [OF m assms(3)] by (intro commit_identified [OF a]) simp_all
qed


lemma copy_version_refused:
  "co_Version commit \<le> g_Version g \<Longrightarrow>
     ApplyCommitCopyWithOptions env g commit options = Inl (VersionNotGreater (co_Version commit) (g_Version g))"
  by (simp add: ApplyCommitCopyWithOptions_def)

lemma copy_version:
  assumes "ApplyCommitCopyWithOptions env g commit options = Inr (g', report)" and "graph_ok g" and "trimmed_splits (co_Mutations commit)"
  shows "g_Version g < co_Version commit \<and> g_Version g' = co_Version commit"
proof (rule applyCommitCopyE [OF assms(1)])
  fix m suppressed fp report0
  let ?h = "g\<lparr>g_contentFingerprint := fp, g_contentFingerprintReady := True, g_entityPartitions := None, g_Version := co_Version commit\<rparr>"
  assume m: "admitted commit options = Inr (m, suppressed)" and v: "g_Version g < co_Version commit"
    and a: "applyMutations env (commit\<lparr>co_Mutations := m\<rparr>) ?h = Inr (g', report0)"
  have "g_Version g' = g_Version ?h" using assms(2) admitted_trimmed [OF m assms(3)] by (intro commit_frame(1) [OF a]) simp_all
  with v show ?thesis by simp
qed

lemma in_place_partitions:
  assumes "ApplyCommitInPlaceForStorage env g commit = Inr g'" and "graph_ok g" and "trimmed_splits (co_Mutations commit)"
    and "partitions_ok env g"
  shows "partitions_ok env g'"
proof -
  obtain h report where h: "ensureContentFingerprint g = Inr h"
    and a: "applyMutations env commit (h\<lparr>g_Version := co_Version commit\<rparr>) = Inr (g', report)"
    using assms(1) by (auto simp: ApplyCommitInPlaceForStorage_def split: if_splits)
  obtain fp where "h = g\<lparr>g_contentFingerprint := fp, g_contentFingerprintReady := True\<rparr>" by (rule ensureContentFingerprintE [OF h])
  with assms(2-4) show ?thesis by (intro commit_partitions [OF a]) (simp_all add: partitions_ok_def)
qed

section \<open>A batch is its commits one by one\<close>

text \<open>The reference: each commit on a copy of the graph before it, stopping at the first that fails or changes nothing.\<close>

definition one_by_one ::
  "go_env \<Rightarrow> Graph \<times> ApplyReport list \<Rightarrow> Commit \<times> ApplyOptions \<Rightarrow> unit + Graph \<times> ApplyReport list" where
  "one_by_one env = (\<lambda>(g, reports) (commit, options).
     rbind (map_sum (\<lambda>_. ()) id (ApplyCommitStorageCopyWithOptions env g commit options)) (\<lambda>(g', report).
     if ar_Changed report then Inr (g', reports @ [report]) else Inl ()))"

definition copied :: "Graph \<Rightarrow> bool" where
  "copied g \<longleftrightarrow> g_contentFingerprintReady g \<and> g_entityPartitions g = None"

lemma one_by_one_step:
  assumes "copied g"
  shows "one_by_one env (g, reports) (commit, options) = Inr r \<longleftrightarrow>
    g_Version g < co_Version commit \<and> batchCommit_step env (g, reports) (index, commit, options) = Inr r"
proof -
  have clone: "g\<lparr>g_entityPartitions := None, g_Version := v\<rparr> = g\<lparr>g_Version := v\<rparr>" for v
    using assms by (simp add: copied_def)
  show ?thesis
  proof (cases "co_Version commit \<le> g_Version g")
    case True
    then show ?thesis by (simp add: one_by_one_def storage_copy_same ApplyCommitCopyWithOptions_def)
  next
    case False
    note defs = one_by_one_def storage_copy_same ApplyCommitCopyWithOptions_def ensureContentFingerprint_def Clone_simp applyCommitToCopy_def
      batchCommit_step_def admitted_def [symmetric] Let_def clone
    show ?thesis
    proof (cases "admitted commit options")
      case (Inl e)
      with False assms show ?thesis by (simp add: defs copied_def)
    next
      case (Inr ms)
      obtain m suppressed where ms: "ms = (m, suppressed)" by (rule prod.exhaust)
      show ?thesis using False assms
        by (cases "applyMutations env (commit\<lparr>co_Mutations := m\<rparr>) (g\<lparr>g_Version := co_Version commit\<rparr>)")
           (simp_all add: defs copied_def Inr ms not_le del: rbind_eq_Inr split: prod.split)
    qed
  qed
qed

lemma batchCommit_keeps:
  assumes "batchCommit_step env (g, reports) (index, commit, options) = Inr (g', reports')" "copied g" "graph_ok g"
    "trimmed_splits (co_Mutations commit)"
  shows "copied g' \<and> graph_ok g' \<and> g_Version g' = co_Version commit"
proof -
  obtain m suppressed report where m: "admitted commit options = Inr (m, suppressed)"
    and a: "applyMutations env (commit\<lparr>co_Mutations := m\<rparr>) (g\<lparr>g_Version := co_Version commit\<rparr>) = Inr (g', report)"
    using assms(1) by (auto simp: batchCommit_step_def admitted_def [symmetric] Let_def split: if_splits)
  have ok: "graph_ok (g\<lparr>g_Version := co_Version commit\<rparr>)" "trimmed_splits (co_Mutations (commit\<lparr>co_Mutations := m\<rparr>))"
    using assms(3) admitted_trimmed [OF m assms(4)] by simp_all
  from commit_frame [OF a ok] applyMutations_graph_ok [OF a ok] assms(2) show ?thesis by (simp add: copied_def)
qed

lemma batch_loop:
  assumes "copied g" "graph_ok g" "list_all (\<lambda>commit. trimmed_splits (co_Mutations commit)) commits" "length options = length commits"
  shows "foldM (one_by_one env) (g, reports) (zip commits options) = Inr r \<longleftrightarrow>
    (\<exists>last. foldM batchImpact_step (g_Version g, impact) commits = Inr last) \<and>
    foldM (batchCommit_step env) (g, reports) (zip [i..<i + length commits] (zip commits options)) = Inr r"
  using assms
proof (induction commits arbitrary: g reports options impact i)
  case (Cons commit commits)
  obtain opt opts where options: "options = opt # opts" using Cons.prems(4) by (cases options) auto
  have upt: "[i..<i + length (commit # commits)] = i # [Suc i..<Suc i + length commits]" by (subst upt_conv_Cons) simp_all
  have IH: "foldM (one_by_one env) (g1, reports1) (zip commits opts) = Inr r \<longleftrightarrow>
      (\<exists>last. foldM batchImpact_step (co_Version commit, impact1) commits = Inr last) \<and>
      foldM (batchCommit_step env) (g1, reports1) (zip [Suc i..<Suc i + length commits] (zip commits opts)) = Inr r"
    if "batchCommit_step env (g, reports) (i, commit, opt) = Inr (g1, reports1)" for g1 reports1 impact1
    using Cons.IH [of g1 opts reports1 impact1 "Suc i"] batchCommit_keeps [OF that] Cons.prems options by auto
  show ?case
  proof (cases "g_Version g < co_Version commit")
    case False
    have "\<not> (\<exists>x. one_by_one env (g, reports) (commit, opt) = Inr x)" using False by (simp add: one_by_one_step [OF Cons.prems(1), of env _ _ _ _ i])
    with False show ?thesis by (auto simp: options batchImpact_step_def)
  next
    case True
    then obtain impact1 where impact1: "batchImpact_step (g_Version g, impact) commit = Inr (co_Version commit, impact1)"
      by (simp add: batchImpact_step_def Let_def)
    show ?thesis
    proof (cases "batchCommit_step env (g, reports) (i, commit, opt)")
      case (Inl e)
      then have "\<not> (\<exists>x. one_by_one env (g, reports) (commit, opt) = Inr x)" by (simp add: one_by_one_step [OF Cons.prems(1), of env _ _ _ _ i])
      with Inl show ?thesis unfolding upt options by auto
    next
      case (Inr s1)
      obtain g1 reports1 where s1: "s1 = (g1, reports1)" by (rule prod.exhaust)
      from Inr True have "one_by_one env (g, reports) (commit, opt) = Inr s1"
        by (simp add: one_by_one_step [OF Cons.prems(1), of env _ _ _ _ i])
      with Inr IH [OF Inr [unfolded s1], of impact1] show ?thesis
        unfolding upt options by (simp add: impact1 s1)
    qed
  qed
qed simp

lemma batch_start:
  assumes "ensureContentFingerprint g = Inr h"
  shows "one_by_one env (g, reports) c = one_by_one env (h\<lparr>g_entityPartitions := None\<rparr>, reports) c"
  by (rule ensureContentFingerprintE [OF assms], cases c)
     (use assms in \<open>simp add: one_by_one_def storage_copy_same ApplyCommitCopyWithOptions_def ensureContentFingerprint_def Clone_simp applyCommitToCopy_def\<close>)

lemma batch_one_by_one:
  assumes "commits \<noteq> []" and "options \<noteq> [] \<Longrightarrow> length options = length commits" and "graph_ok g"
    and "list_all (\<lambda>commit. trimmed_splits (co_Mutations commit)) commits"
  shows "ApplyCommitBatchStorageCopyWithOptions env g commits options = Inr r \<longleftrightarrow>
    foldM (one_by_one env) (g, []) (zip commits (if options = [] then replicate (length commits) \<lparr>ao_SourcePolicy = None\<rparr> else options)) = Inr r"
proof -
  define chosen where "chosen = (if options = [] then replicate (length commits) \<lparr>ao_SourcePolicy = None\<rparr> else options)"
  have len: "length chosen = length commits" using assms(2) by (simp add: chosen_def)
  obtain c cs o' os where zs: "zip commits chosen = (c, o') # zip cs os" using assms(1) len by (cases commits; cases chosen) auto
  show ?thesis
  proof (cases "ensureContentFingerprint g")
    case (Inl e)
    then have "\<not> (\<exists>x. one_by_one env (g, []) (c, o') = Inr x)"
      by (auto simp: one_by_one_def storage_copy_same ApplyCommitCopyWithOptions_def)
    then show ?thesis unfolding chosen_def [symmetric] zs using assms(1) Inl
      by (auto simp: ApplyCommitBatchStorageCopyWithOptions_def)
  next
    case (Inr h)
    obtain fp where h: "h = g\<lparr>g_contentFingerprint := fp, g_contentFingerprintReady := True\<rparr>"
      by (rule ensureContentFingerprintE [OF Inr])
    have ok: "copied (h\<lparr>g_entityPartitions := None\<rparr>)" "graph_ok (h\<lparr>g_entityPartitions := None\<rparr>)" using assms(3) by (simp_all add: h copied_def)
    have start: "foldM (one_by_one env) (g, []) (zip commits chosen) = foldM (one_by_one env) (h\<lparr>g_entityPartitions := None\<rparr>, []) (zip commits chosen)"
      unfolding zs by (simp add: batch_start [OF Inr])
    let ?impact = "\<lparr>im_ciTypes = False, im_entities = False, im_relationTypes = False, im_edges = False\<rparr>"
    show ?thesis
      unfolding chosen_def [symmetric] start
      using batch_loop [OF ok assms(4) len, of env "[]" r ?impact 0] assms(1,2)
      by (auto simp: ApplyCommitBatchStorageCopyWithOptions_def Inr chosen_def cloneForStorageImpact_simp)
  qed
qed

section \<open>Graphs reached by commits\<close>

lemma zero_Graph_ok: "graph_ok zero_Graph"
proof -
  have r: "rel_of f fmempty = {}" for f :: "'c \<Rightarrow> 'd set" by (auto simp: rel_of_def)
  show ?thesis
    by (simp add: graph_ok_def index_ok_def entity_index_ok_def edge_index_ok_def r caches_ok_def entity_order_ok_def field_order_ok_def
      neighbor_order_ok_def neighbor_bytes_def keyed_def zero_Graph_def fieldValues_def mget_or_def)
qed

lemma New_ok: "graph_ok New" "fingerprint_ok New" "identity_index_ok New (g_Entities New)" "\<not> g_legacyIdentity New" "copied (New\<lparr>g_contentFingerprintReady := True\<rparr>)"
proof -
  have "index_fields New = index_fields zero_Graph"
    by (simp add: New_def rebuildIndexes_def entries_def index_fields_def clearIndexes_def invalidateFieldIndexOrder_def invalidateEntityOrder_def zero_Graph_def)
  from graph_ok_cong [OF this] zero_Graph_ok show "graph_ok New" by simp
  show "fingerprint_ok New" "identity_index_ok New (g_Entities New)" "\<not> g_legacyIdentity New" "copied (New\<lparr>g_contentFingerprintReady := True\<rparr>)"
    by (simp_all add: New_def rebuildIndexes_def entries_def clearIndexes_def invalidateFieldIndexOrder_def invalidateEntityOrder_def zero_Graph_def fingerprint_ok_def identity_index_ok_def identities_def mget_or_def copied_def)
qed

text \<open>
  The graphs of a store: the new graph and what commits make of it whose split replacements have trimmed, nonempty IDs
  and that keep the identity encoding or find the stored identities unique in the new one.
\<close>

inductive committed :: "go_env \<Rightarrow> Graph \<Rightarrow> bool" for env where
  new: "committed env New"
| commit: "committed env g \<Longrightarrow> trimmed_splits (co_Mutations commit) \<Longrightarrow> encoding_ok g commit \<Longrightarrow>
    ApplyCommitStorageCopyWithOptions env g commit options = Inr (g', report) \<Longrightarrow> committed env g'"

lemma committed_ok: "committed env g \<Longrightarrow> graph_ok g \<and> fingerprint_ok g \<and> identity_index_ok g (g_Entities g)"
proof (induction rule: committed.induct)
  case new
  show ?case using New_ok by simp
next
  case (commit g c options g' report)
  then have r: "ApplyCommitCopyWithOptions env g c options = Inr (g', report)" by (simp add: storage_copy_same)
  from commit.IH commit.hyps(2,3) copy_graph_ok [OF r] copy_fingerprint [OF r] copy_identified [OF r] show ?case by (simp add: fingerprint_ok_def)
qed

end
