(* ===== verification/CommitProps.thy ===== *)
theory CommitProps
  imports CommitEntry
begin

text \<open>
  The properties of a commit, over the entry points that the storage layer calls. The example of the
  witnesses is the first entity of an empty graph; its evaluation leaves digests symbolic.
\<close>

declare sha256_def [code del] hex_digest_def [code del] entityPartition_def [code del]

section \<open>An example commit\<close>

definition example_env :: go_env where "example_env = \<lparr>ge_ToLower = id, ge_Now = 5\<rparr>"

definition example_commit :: Commit where
  "example_commit =
     \<lparr>co_IdentityEncoding = 1, co_LayoutVersion = 1, co_ID = ''c'', co_TenantID = ''t'', co_Version = 1, co_CreatedAt = 7,
      co_Mutations = zero_Mutations\<lparr>mu_UpsertEntities :=
        [zero_Entity\<lparr>ent_ID := ''a'', ent_Kind := ''h'', ent_Fields := fmap_of_list [(''e'', VString ''p'')]\<rparr>]\<rparr>\<rparr>"

definition no_policy :: ApplyOptions where "no_policy = \<lparr>ao_SourcePolicy = None\<rparr>"

definition example_start :: Graph where
  "example_start = zero_Graph\<lparr>g_logicalHashCache := Some zero_cache\<rparr>"

definition succeeds :: "error + Graph \<times> ApplyReport \<Rightarrow> bool" where
  "succeeds r \<longleftrightarrow> (case r of Inl _ \<Rightarrow> False | Inr (g', report) \<Rightarrow> ar_Changed report)"

lemma succeedsE: "succeeds r \<Longrightarrow> (\<And>g' report. r = Inr (g', report) \<Longrightarrow> ar_Changed report \<Longrightarrow> thesis) \<Longrightarrow> thesis"
  by (auto simp: succeeds_def split: sum.splits)

lemma example_commit_runs: "succeeds (ApplyCommitCopyWithOptions example_env example_start example_commit no_policy)"
  by code_simp

lemma example_new_runs: "succeeds (ApplyCommitStorageCopyWithOptions example_env New example_commit no_policy)"
  by code_simp

lemma example_in_place_runs:
  "\<not> isl (ApplyCommitInPlaceForStorage example_env (zero_Graph\<lparr>g_entityPartitions := Some fmempty\<rparr>) example_commit)"
  by code_simp

lemma zero_cache_ok: "hash_cache_ok example_start zero_cache"
proof -
  have "hash_entry example_start category key = None" for category key
    by (simp add: hash_entry_def logicalHashValue_def ciTypeValue_def entityValue_def relationTypeValue_def edgeValue_def example_start_def zero_Graph_def)
  then have "graph_entries example_start = (\<lambda>_. None)" by (auto simp: graph_entries_def)
  then show ?thesis
    by (simp add: hash_cache_ok_def holds_entries_def clean_outside_def total_bytes_def zero_cache_def block_entries_def mget_or_def empty_block_def)
qed

lemma example_ok:
  "graph_ok example_start" "trimmed_splits (co_Mutations example_commit)" "fingerprint_ok example_start"
  "g_logicalHashCache example_start = Some zero_cache"
  "identity_index_ok example_start (g_Entities example_start)" "encoding_ok example_start example_commit"
  using zero_Graph_ok
  by (simp_all add: example_start_def) (simp_all add: example_commit_def trimmed_splits_def zero_Mutations_def fingerprint_ok_def zero_Graph_def
      identity_index_ok_def identities_def mget_or_def encoding_ok_def legacyCommitIdentity_def)

lemma example_version: "co_Version example_commit = 1"
  by (simp add: example_commit_def)

section \<open>Properties\<close>

text \<open>C1. 
  A commit that is applied to a copy of a graph whose indexes (the identity index included), ordered read caches and
  keys are exact gives such a graph again, whatever it deletes, upserts, marks stale, merges or splits, and under
  whatever source policy: the indexes kept step by step are those that \<open>rebuildIndexes\<close> computes from scratch, and every
  entity and edge is stored under its own (canonical) ID. Two conditions: replacements of a split come with trimmed,
  nonempty IDs, and a commit that changes the identity encoding finds the stored identities unique in the new one.
\<close>

theorem commit_keeps_indexes:
  assumes "ApplyCommitCopyWithOptions env g commit options = Inr (g', report)" and "graph_ok g" and "trimmed_splits (co_Mutations commit)"
    and "encoding_ok g commit" and "identity_index_ok g (g_Entities g)"
  shows "graph_ok g' \<and> identity_index_ok g' (g_Entities g') \<and> same_indexes g' (rebuildIndexes g')"
  using copy_graph_ok [OF assms(1-3)] copy_identified [OF assms] index_ok_same_as_rebuild [of g'] by (simp add: graph_ok_def)

theorem commit_keeps_indexes_witness:
  "\<exists>g' report. ApplyCommitCopyWithOptions example_env example_start example_commit no_policy = Inr (g', report) \<and>
     graph_ok g' \<and> identity_index_ok g' (g_Entities g') \<and> same_indexes g' (rebuildIndexes g')"
  by (rule succeedsE [OF example_commit_runs]) (use commit_keeps_indexes [OF _ example_ok(1,2,6,5)] in blast)

text \<open>C2. 
  The content fingerprint is maintained incrementally, from the entries a commit touches only. After a commit whose
  split replacements have trimmed, nonempty IDs it is the fingerprint that a recomputation over the whole graph gives,
  the report carries its hex form, and the report says \<open>Changed\<close> exactly when the digest of some CI type, entity,
  relation type or edge differs. (The tracker touches a split replacement under the ID as it was sent.)
\<close>

theorem commit_fingerprint_incremental:
  assumes "ApplyCommitCopyWithOptions env g commit options = Inr (g', report)" and "graph_ok g" and "trimmed_splits (co_Mutations commit)"
    and "fingerprint_ok g"
  shows "g_contentFingerprintReady g' \<and> computeFingerprint g' = Inr (g_contentFingerprint g') \<and>
     ar_ContentFingerprint report = hex_digest (g_contentFingerprint g') \<and> (ar_Changed report \<longleftrightarrow> content_changed g g')"
  by (rule copy_fingerprint [OF assms])

theorem commit_fingerprint_incremental_witness:
  "\<exists>g' report. ApplyCommitCopyWithOptions example_env example_start example_commit no_policy = Inr (g', report) \<and>
     computeFingerprint g' = Inr (g_contentFingerprint g') \<and> content_changed example_start g'"
  by (rule succeedsE [OF example_commit_runs]) (use commit_fingerprint_incremental example_ok in blast)

text \<open>C3. 
  A batch of commits applied to one copy gives a result exactly when the commits, applied one by one to copies, all
  succeed and all change the graph, and it is then the same graph with the same reports.
\<close>

theorem batch_equals_sequence:
  assumes "commits \<noteq> []" and "options \<noteq> [] \<longrightarrow> length options = length commits" and "graph_ok g"
    and "list_all (\<lambda>commit. trimmed_splits (co_Mutations commit)) commits"
  shows "ApplyCommitBatchStorageCopyWithOptions env g commits options = Inr r \<longleftrightarrow>
    foldM (one_by_one env) (g, []) (zip commits (if options = [] then replicate (length commits) \<lparr>ao_SourcePolicy = None\<rparr> else options)) = Inr r"
  using assms by (intro batch_one_by_one) simp_all

theorem batch_equals_sequence_witness:
  "\<exists>g' report. ApplyCommitBatchStorageCopyWithOptions example_env example_start [example_commit] [] = Inr (g', [report])"
proof (rule succeedsE [OF example_commit_runs])
  fix g' report
  assume "ApplyCommitCopyWithOptions example_env example_start example_commit no_policy = Inr (g', report)" "ar_Changed report"
  then have "foldM (one_by_one example_env) (example_start, []) (zip [example_commit] (if [] = [] then replicate (length [example_commit]) no_policy else [])) = Inr (g', [report])"
    by (simp add: one_by_one_def storage_copy_same)
  with batch_equals_sequence [of "[example_commit]" "[]" example_start example_env "(g', [report])"] example_ok show ?thesis
    by (auto simp: no_policy_def)
qed

text \<open>C4. 
  Identities stay exact and unique: if every identity signature is registered for exactly the entity that has it, the
  same holds after a commit, and no two entities of a kind share an identity. The commit keeps the identity encoding,
  or the stored identities are unique in the encoding it changes to; its split replacements have trimmed, nonempty IDs.
\<close>

theorem commit_keeps_identities:
  assumes "ApplyCommitCopyWithOptions env g commit options = Inr (g', report)" and "graph_ok g" and "trimmed_splits (co_Mutations commit)"
    and "encoding_ok g commit" and "identity_index_ok g (g_Entities g)"
  shows "identity_index_ok g' (g_Entities g') \<and>
    (\<forall>i j e e' s. mget (g_Entities g') i = Some e \<longrightarrow> mget (g_Entities g') j = Some e' \<longrightarrow> ent_Kind e = ent_Kind e' \<longrightarrow>
       s \<in> sig_Value ` set (graphIdentitySignatures g' e) \<longrightarrow> s \<in> sig_Value ` set (graphIdentitySignatures g' e') \<longrightarrow> i = j)"
  using copy_identified [OF assms] identity_index_ok_unique [of g'] unfolding unique_identities_def by blast

theorem commit_keeps_identities_witness:
  "\<exists>g' report. ApplyCommitCopyWithOptions example_env example_start example_commit no_policy = Inr (g', report) \<and>
     identity_index_ok g' (g_Entities g')"
  by (rule succeedsE [OF example_commit_runs]) (use commit_keeps_identities [OF _ example_ok(1,2,6,5)] in blast)

text \<open>C5. 
  The cache behind the logical content hash is refreshed by a commit that changes the graph from the touched entries
  alone, and is then the cache that a full rebuild gives: the same entries, block digests and logical size, with the
  final digest left to be computed. The split replacements of the commit have trimmed, nonempty IDs.
\<close>

theorem commit_refreshes_hash_cache:
  assumes "ApplyCommitCopyWithOptions env g commit options = Inr (g', report)" and "graph_ok g" and "trimmed_splits (co_Mutations commit)"
    and "g_logicalHashCache g = Some cache" and "hash_cache_ok g cache" and "ar_Changed report"
  shows "\<exists>cache'. g_logicalHashCache g' = Some cache' \<and> hash_cache_ok g' cache' \<and> \<not> lhc_finalReady cache'"
  by (rule copy_hash_cache [OF assms])

theorem commit_refreshes_hash_cache_witness:
  "\<exists>g' report cache'. ApplyCommitCopyWithOptions example_env example_start example_commit no_policy = Inr (g', report) \<and>
     g_logicalHashCache g' = Some cache' \<and> hash_cache_ok g' cache'"
  by (rule succeedsE [OF example_commit_runs]) (use commit_refreshes_hash_cache example_ok zero_cache_ok in blast)

text \<open>C8. 
  A commit applied in place, whose split replacements have trimmed, nonempty IDs, keeps the table that assigns entity
  IDs to partitions exact.
\<close>

theorem commit_keeps_partitions:
  assumes "ApplyCommitInPlaceForStorage env g commit = Inr g'" and "graph_ok g" and "trimmed_splits (co_Mutations commit)"
    and "partitions_ok env g"
  shows "partitions_ok env g'"
  by (rule in_place_partitions [OF assms])

theorem commit_keeps_partitions_witness:
  "\<exists>g'. ApplyCommitInPlaceForStorage example_env (zero_Graph\<lparr>g_entityPartitions := Some fmempty\<rparr>) example_commit = Inr g' \<and>
     partitions_ok example_env g'"
proof -
  obtain g' where r: "ApplyCommitInPlaceForStorage example_env (zero_Graph\<lparr>g_entityPartitions := Some fmempty\<rparr>) example_commit = Inr g'"
    using example_in_place_runs by (auto simp: isl_def) (metis sum.exhaust)
  have "partitions_ok example_env (zero_Graph\<lparr>g_entityPartitions := Some fmempty\<rparr>)"
    by (simp add: partitions_ok_def is_index_def zero_Graph_def)
  with r commit_keeps_partitions [OF r] zero_Graph_ok example_ok(2) show ?thesis by auto
qed

text \<open>C7. 
  A commit is refused exactly for its version only when it does not exceed the graph's, and a successful one leaves
  the graph at the commit's version; so the versions of a store strictly ascend.
\<close>

theorem commit_versions_ascend:
  assumes "graph_ok g" and "trimmed_splits (co_Mutations commit)"
  shows "(co_Version commit \<le> g_Version g \<longrightarrow>
      ApplyCommitCopyWithOptions env g commit options = Inl (VersionNotGreater (co_Version commit) (g_Version g))) \<and>
    (\<forall>g' report. ApplyCommitCopyWithOptions env g commit options = Inr (g', report) \<longrightarrow> g_Version g < g_Version g' \<and> g_Version g' = co_Version commit)"
  using copy_version [OF _ assms] by (auto intro: copy_version_refused)

theorem commit_versions_ascend_witness:
  "\<exists>g' report. ApplyCommitCopyWithOptions example_env example_start example_commit no_policy = Inr (g', report) \<and> g_Version g' = 1"
proof (rule succeedsE [OF example_commit_runs])
  fix g' report
  assume r: "ApplyCommitCopyWithOptions example_env example_start example_commit no_policy = Inr (g', report)"
  from commit_versions_ascend [OF example_ok(1,2), THEN conjunct2, rule_format, OF r] have "g_Version g' = 1"
    by (simp only: example_version)
  with r show ?thesis by blast
qed

text \<open>C6. 
  Every graph that commits make of the new graph has exact indexes, the identity index included, exact caches and keys,
  and a fingerprint that is the recomputed one as soon as it is marked ready. The commits are those whose split
  replacements have trimmed, nonempty IDs and that keep the identity encoding or change to one in which the stored
  identities are unique.
\<close>

theorem committed_graphs_exact:
  assumes "committed env g"
  shows "graph_ok g \<and> fingerprint_ok g \<and> identity_index_ok g (g_Entities g) \<and> same_indexes g (rebuildIndexes g)"
  using committed_ok [OF assms] index_ok_same_as_rebuild [of g] by (simp add: graph_ok_def)

theorem committed_graphs_exact_witness:
  "\<exists>g' report. ApplyCommitStorageCopyWithOptions example_env New example_commit no_policy = Inr (g', report) \<and>
     graph_ok g' \<and> fingerprint_ok g' \<and> identity_index_ok g' (g_Entities g') \<and> same_indexes g' (rebuildIndexes g')"
proof (rule succeedsE [OF example_new_runs])
  fix g' report
  assume r: "ApplyCommitStorageCopyWithOptions example_env New example_commit no_policy = Inr (g', report)"
  have "encoding_ok New example_commit" using New_ok(4) by (simp add: encoding_ok_def example_commit_def legacyCommitIdentity_def)
  from committed_graphs_exact [OF committed.commit [OF committed.new example_ok(2) this r]] r show ?thesis by blast
qed

end
