(* ===== verification/Snapshots.thy ===== *)
theory Snapshots
  imports CommitEntry
begin

text \<open>
  Snapshots of a graph: what \<open>Snapshot\<close> and \<open>SnapshotForStorage\<close> list, and \<open>FromSnapshot\<close>, which
  normalises the parts of a snapshot, merges the entities that share a source identity, redirects the
  edges, rebuilds every index and validates every edge. The lemmas show that a restored graph has exact
  indexes and valid edges, and that a graph in storage form is restored with its contents.
\<close>

section \<open>Taking a snapshot\<close>

record Snapshot =
  sn_Version :: int
  sn_CITypes :: "CIType list"
  sn_Entities :: "Entity list"
  sn_RelationTypes :: "RelationType list"
  sn_Edges :: "Edge list"

definition snapshotVersionTime :: "Snapshot \<Rightarrow> time" where
  "snapshotVersionTime snapshot =
     (case find (\<lambda>t. t \<noteq> 0) (map edge_UpdatedAt (sn_Edges snapshot)) of
        Some t \<Rightarrow> t
      | None \<Rightarrow>
          (case find (\<lambda>t. t \<noteq> 0) (map ent_UpdatedAt (sn_Entities snapshot)) of
             Some t \<Rightarrow> t
           | None \<Rightarrow> 0))"

definition take_snapshot :: "bool \<Rightarrow> Graph \<Rightarrow> Snapshot" where
  "take_snapshot copyValues g =
     \<lparr>sn_Version = g_Version g,
      sn_CITypes = sort_key ct_Name (map snd (entries (g_CITypes g))),
      sn_Entities = sort_key ent_ID (map snd (entries (g_Entities g))),
      sn_RelationTypes = sort_key rt_Name (map snd (entries (g_RelationTypes g))),
      sn_Edges = sort_key edge_ID (map snd (entries (g_Edges g)))\<rparr>"

definition SnapshotOf :: "Graph \<Rightarrow> Snapshot" where
  "SnapshotOf g = take_snapshot True g"

definition SnapshotForStorage :: "Graph \<Rightarrow> Snapshot" where
  "SnapshotForStorage g = take_snapshot False g"

definition ListCITypes :: "Graph \<Rightarrow> CIType list" where
  "ListCITypes g = sort_key ct_Name (map snd (entries (g_CITypes g)))"

definition ListRelationTypes :: "Graph \<Rightarrow> RelationType list" where
  "ListRelationTypes g = sort_key rt_Name (map snd (entries (g_RelationTypes g)))"

section \<open>Merging the entities of a snapshot\<close>

type_synonym owners = "(string, string) fmap"

definition owner_key :: "Entity \<Rightarrow> identitySignature \<Rightarrow> string" where
  "owner_key entity signature = ent_Kind entity @ [nul] @ sig_Value signature"

definition findCanonicalOwner :: "owners \<Rightarrow> Entity \<Rightarrow> string" where
  "findCanonicalOwner owners entity =
     (case find (\<lambda>signature. sig_Strategy signature \<noteq> ''reject'' \<and> mget_or [] owners (owner_key entity signature) \<noteq> [])
             (sourceIdentitySignatures False (ent_Sources entity)) of
        Some signature \<Rightarrow> mget_or [] owners (owner_key entity signature)
      | None \<Rightarrow> [])"

definition registerCanonicalOwners :: "string \<Rightarrow> Entity \<Rightarrow> owners \<Rightarrow> owners" where
  "registerCanonicalOwners entityID entity owners =
     fold (\<lambda>signature owners'.
             if sig_Strategy signature = ''reject'' then owners'
             else let key = owner_key entity signature in
                  if mget_or [] owners' key = [] then fmupd key entityID owners' else owners')
       (sourceIdentitySignatures False (ent_Sources entity)) owners"

definition effective_or_none :: "Graph \<Rightarrow> string \<Rightarrow> Specs" where
  "effective_or_none g kind = (case EffectiveFields (g_CITypes g) kind of Inl _ \<Rightarrow> fmempty | Inr specs \<Rightarrow> specs)"

record canonical_state =
  cs_graph :: Graph
  cs_aliases :: "(string, string) fmap"
  cs_owners :: owners

definition canonical_merge :: "int \<Rightarrow> time \<Rightarrow> Graph \<Rightarrow> string \<Rightarrow> Entity \<Rightarrow> Entity" where
  "canonical_merge version updatedAt g targetID entity =
     (let target = mget_or zero_Entity (g_Entities g) targetID;
          merged0 = mergeEntityWithSpecs target entity (effective_or_none g (ent_Kind target));
          merged1 = (if ent_CreatedAt target \<noteq> 0 then merged0\<lparr>ent_CreatedAt := ent_CreatedAt target\<rparr> else merged0)
      in merged1\<lparr>ent_ID := targetID, ent_Version := version, ent_UpdatedAt := updatedAt\<rparr>)"

definition canonicalize_step :: "int \<Rightarrow> time \<Rightarrow> string \<Rightarrow> canonical_state \<Rightarrow> canonical_state" where
  "canonicalize_step version updatedAt id' st =
     (let g = cs_graph st;
          entity = mget_or zero_Entity (g_Entities g) id';
          targetID = findCanonicalOwner (cs_owners st) entity in
      if targetID = [] \<or> targetID = id' then
        let entity' = backfillFieldSources entity in
        st\<lparr>cs_graph := g\<lparr>g_Entities := fmupd id' entity' (g_Entities g)\<rparr>,
           cs_owners := registerCanonicalOwners id' entity' (cs_owners st)\<rparr>
      else
        let merged = canonical_merge version updatedAt g targetID entity
        in st\<lparr>cs_graph := g\<lparr>g_Entities := fmdrop id' (fmupd targetID merged (g_Entities g))\<rparr>,
              cs_aliases := fold (\<lambda>oldID. fmupd oldID targetID) (ent_MergedFrom entity) (fmupd id' targetID (cs_aliases st)),
              cs_owners := registerCanonicalOwners targetID merged (cs_owners st)\<rparr>)"

definition canonicalizeEntitySet :: "int \<Rightarrow> time \<Rightarrow> Graph \<Rightarrow> Graph \<times> (string, string) fmap" where
  "canonicalizeEntitySet version updatedAt g =
     (let st = fold (canonicalize_step version updatedAt) (skeys (g_Entities g))
                 \<lparr>cs_graph = g, cs_aliases = fmempty, cs_owners = fmempty\<rparr>
      in (rebuildIndexes (cs_graph st), cs_aliases st))"

section \<open>Restoring a snapshot\<close>

definition restoreCIType_step :: "Graph \<Rightarrow> CIType \<Rightarrow> error + Graph" where
  "restoreCIType_step g ciType =
     rbind (map_sum SchemaError id (normalizeCIType ciType)) (\<lambda>normalized.
     Inr (g\<lparr>g_CITypes := fmupd (ct_Name normalized) normalized (g_CITypes g)\<rparr>))"

definition restoreRelationType_step :: "Graph \<Rightarrow> RelationType \<Rightarrow> error + Graph" where
  "restoreRelationType_step g relationType =
     rbind (map_sum RelationError id (normalizeRelationType relationType)) (\<lambda>normalized.
     Inr (g\<lparr>g_RelationTypes := fmupd (rt_Name normalized) normalized (g_RelationTypes g)\<rparr>))"

definition restoreEntity_step :: "Graph \<Rightarrow> Entity \<Rightarrow> error + Graph" where
  "restoreEntity_step g entity =
     rbind (map_sum EntityError id (normalizeEntity entity)) (\<lambda>normalized.
     Inr (g\<lparr>g_Entities := fmupd (ent_ID normalized) normalized (g_Entities g)\<rparr>))"

definition aliased :: "(string, string) fmap \<Rightarrow> string \<Rightarrow> string" where
  "aliased aliases id' = (let target = mget_or [] aliases id' in if target \<noteq> [] then target else id')"

definition restoreEdge_step :: "(string, string) fmap \<Rightarrow> Edge list \<Rightarrow> Edge \<Rightarrow> error + Edge list" where
  "restoreEdge_step aliases edges edge =
     rbind (map_sum EdgeError id (normalizeEdge edge)) (\<lambda>normalized.
     Inr (edges @ [normalized\<lparr>edge_From := aliased aliases (edge_From normalized),
                              edge_To := aliased aliases (edge_To normalized)\<rparr>]))"

definition FromSnapshot :: "Snapshot \<Rightarrow> error + Graph" where
  "FromSnapshot snapshot =
     rbind (foldM restoreCIType_step (New\<lparr>g_Version := sn_Version snapshot\<rparr>) (sn_CITypes snapshot)) (\<lambda>g1.
     rbind (foldM restoreRelationType_step g1 (sn_RelationTypes snapshot)) (\<lambda>g2.
     rbind (foldM restoreEntity_step g2 (sn_Entities snapshot)) (\<lambda>g3.
     let (g4, entityAliases) = canonicalizeEntitySet (sn_Version snapshot) (snapshotVersionTime snapshot) g3 in
     rbind (foldM (restoreEdge_step entityAliases) [] (sn_Edges snapshot)) (\<lambda>edges.
     let g5 = g4\<lparr>g_Edges := fst (mergeEdgeList edges (sn_Version snapshot) (snapshotVersionTime snapshot))\<rparr>;
         g6 = fold (\<lambda>(id', edge). addEdgeToIndexes id' edge) (entries (g_Edges g5)) g5
     in rbind (map_sum EdgeError id (validateAllEdges g6)) (\<lambda>_. Inr g6)))))"

section \<open>Rebuilt indexes\<close>

lemma rebuildEntity_orders [simp]:
  "g_fieldIndexOrder (rebuildEntity_step x g) = g_fieldIndexOrder g"
  "g_fieldValueOrder (rebuildEntity_step x g) = g_fieldValueOrder g"
proof -
  have "(g_fieldIndexOrder (rebuildField_step i k fv g), g_fieldValueOrder (rebuildField_step i k fv g)) =
      (g_fieldIndexOrder g, g_fieldValueOrder g)" for i k fv and g :: Graph
    by (cases fv) (simp add: rebuildField_step_def field_op_defs split: option.split)
  then have "(g_fieldIndexOrder (fold (rebuildField_step i k) fvs g), g_fieldValueOrder (fold (rebuildField_step i k) fvs g)) =
      (g_fieldIndexOrder g, g_fieldValueOrder g)" for i k fvs and g :: Graph
    by (rule fold_frame [where sel = "\<lambda>g. (g_fieldIndexOrder g, g_fieldValueOrder g)"])
  then show "g_fieldIndexOrder (rebuildEntity_step x g) = g_fieldIndexOrder g"
    "g_fieldValueOrder (rebuildEntity_step x g) = g_fieldValueOrder g"
    by (simp_all add: rebuildEntity_step_def Let_def addEntityAliasesToIndex_def split: prod.split)
qed

definition no_orders :: "Graph \<Rightarrow> bool" where
  "no_orders g \<longleftrightarrow> g_entityOrder g = fmempty \<and> g_fieldIndexOrder g = fmempty \<and> g_fieldValueOrder g = fmempty \<and>
     g_neighborOrder g = fmempty \<and> g_neighborOrderBytes g = 0"

lemma no_orders_caches_ok: "no_orders g \<Longrightarrow> caches_ok g E D"
  by (simp add: no_orders_def caches_ok_def entity_order_ok_def field_order_ok_def neighbor_order_ok_def neighbor_bytes_def)

lemma addEdge_no_orders: "no_orders g \<Longrightarrow> no_orders (addEdgeToIndexes i e g)"
  by (simp add: no_orders_def addEdgeToIndexes_def addEdgeAliasesToIndex_def invalidateNeighborOrder_def dropNeighborOrder_def mget_or_def Let_def)

lemma rebuildEntity_no_orders: "no_orders g \<Longrightarrow> no_orders (rebuildEntity_step x g)"
  using rebuildEntity_effect [of "fst x" "snd x" g] by (simp add: no_orders_def entity_frame_def)

lemma rebuild_no_orders: "no_orders (rebuildIndexes g)"
proof -
  have "no_orders (clearIndexes g)"
    by (simp add: no_orders_def clearIndexes_def invalidateFieldIndexOrder_def invalidateEntityOrder_def)
  moreover have "no_orders (fold rebuildEntity_step es h)" if "no_orders h" for es h
    using that by (induction es arbitrary: h) (auto intro: rebuildEntity_no_orders)
  moreover have "no_orders (fold (\<lambda>(i, e). addEdgeToIndexes i e) es h)" if "no_orders h" for es h
    using that by (induction es arbitrary: h) (auto intro: addEdge_no_orders)
  ultimately show ?thesis by (simp add: rebuildIndexes_def Let_def)
qed

lemma rebuild_graph_ok: "keyed g \<Longrightarrow> graph_ok (rebuildIndexes g)"
  by (simp add: graph_ok_def index_ok_rebuild no_orders_caches_ok [OF rebuild_no_orders] keyed_def)

section \<open>What merging entities keeps\<close>

lemma backfill_ID [simp]: "ent_ID (backfillFieldSources e) = ent_ID e"
  unfolding backfillFieldSources_def Let_def
  by (subst fold_frame [where sel = ent_ID]) (simp_all add: setFieldSource_def)

definition entity_keyed :: "(string, Entity) fmap \<Rightarrow> bool" where
  "entity_keyed E \<longleftrightarrow> (\<forall>i e. mget E i = Some e \<longrightarrow> ent_ID e = i) \<and> mget E [] = None"

definition owner_keys :: "Entity \<Rightarrow> string set" where
  "owner_keys e = owner_key e ` set (sourceIdentitySignatures False (ent_Sources e))"

lemma findCanonicalOwner_key:
  "findCanonicalOwner owners e \<noteq> [] \<Longrightarrow> \<exists>k \<in> owner_keys e. mget owners k = Some (findCanonicalOwner owners e)"
proof -
  let ?P = "\<lambda>signature. sig_Strategy signature \<noteq> ''reject'' \<and> mget_or [] owners (owner_key e signature) \<noteq> []"
  assume "findCanonicalOwner owners e \<noteq> []"
  then obtain s where s: "find ?P (sourceIdentitySignatures False (ent_Sources e)) = Some s"
    unfolding findCanonicalOwner_def by (cases "find ?P (sourceIdentitySignatures False (ent_Sources e))") auto
  then have "findCanonicalOwner owners e = mget_or [] owners (owner_key e s)" by (simp add: findCanonicalOwner_def)
  moreover from s have "s \<in> set (sourceIdentitySignatures False (ent_Sources e))" "?P s" by (auto simp: find_Some_iff)
  ultimately show ?thesis by (auto simp: owner_keys_def mget_or_def split: option.splits)
qed

lemma registered_owner_key:
  assumes "mget (registerCanonicalOwners i e owners) k = Some j"
  shows "j = i \<and> k \<in> owner_keys e \<or> mget owners k = Some j"
proof -
  define step where "step = (\<lambda>signature owners'. if sig_Strategy signature = ''reject'' then owners'
             else let key = owner_key e signature in
                  if mget_or [] owners' key = [] then fmupd key i owners' else owners')"
  have s: "mget (step x owners') k = Some j \<Longrightarrow> j = i \<and> k = owner_key e x \<or> mget owners' k = Some j" for x owners'
    by (auto simp: step_def Let_def split: if_splits)
  have "mget (fold step ss owners') k = Some j \<Longrightarrow> j = i \<and> k \<in> owner_key e ` set ss \<or> mget owners' k = Some j" for ss owners'
  proof (induction ss arbitrary: owners')
    case (Cons x ss)
    then have "j = i \<and> k \<in> owner_key e ` set ss \<or> mget (step x owners') k = Some j" by simp
    with s show ?case by auto
  qed simp
  with assms show ?thesis by (simp add: registerCanonicalOwners_def step_def owner_keys_def)
qed

text \<open>The owners are entities that the loop has passed and kept; every entity keeps its identifier.\<close>

definition canonical_inv :: "Graph \<Rightarrow> string set \<Rightarrow> canonical_state \<Rightarrow> bool" where
  "canonical_inv g0 seen st \<longleftrightarrow>
     (\<exists>E. cs_graph st = g0\<lparr>g_Entities := E\<rparr> \<and> entity_keyed E \<and> fmdom' E \<subseteq> fmdom' (g_Entities g0) \<and>
        fmdom' (g_Entities g0) - seen \<subseteq> fmdom' E) \<and>
     (\<forall>k j. mget (cs_owners st) k = Some j \<longrightarrow> j \<in> seen \<and> mget (g_Entities (cs_graph st)) j \<noteq> None)"

lemma canonical_invI:
  "cs_graph st = g0\<lparr>g_Entities := E\<rparr> \<Longrightarrow> entity_keyed E \<Longrightarrow> fmdom' E \<subseteq> fmdom' (g_Entities g0) \<Longrightarrow>
   fmdom' (g_Entities g0) - seen \<subseteq> fmdom' E \<Longrightarrow>
   (\<And>k j. mget (cs_owners st) k = Some j \<Longrightarrow> j \<in> seen \<and> mget E j \<noteq> None) \<Longrightarrow> canonical_inv g0 seen st"
  unfolding canonical_inv_def by auto

lemma canonicalize_step_inv:
  assumes inv: "canonical_inv g0 seen st" and i: "i \<in> fmdom' (g_Entities g0)" "i \<notin> seen"
  shows "canonical_inv g0 (insert i seen) (canonicalize_step version updatedAt i st)"
proof -
  from inv obtain E where E: "cs_graph st = g0\<lparr>g_Entities := E\<rparr>" "entity_keyed E" "fmdom' E \<subseteq> fmdom' (g_Entities g0)"
    "fmdom' (g_Entities g0) - seen \<subseteq> fmdom' E"
    and owners: "\<And>k j. mget (cs_owners st) k = Some j \<Longrightarrow> j \<in> seen \<and> mget E j \<noteq> None"
    by (auto simp: canonical_inv_def)
  from E(4) i have "i \<in> fmdom' E" by blast
  then obtain e where e: "mget E i = Some e" by (auto simp: fmlookup_dom'_iff)
  from E(2) e have idn: "ent_ID e = i" "i \<noteq> []" "mget E [] = None" by (auto simp: entity_keyed_def)
  let ?t = "findCanonicalOwner (cs_owners st) e"
  show ?thesis
  proof (cases "?t = [] \<or> ?t = i")
    case True
    with e E have s: "canonicalize_step version updatedAt i st =
        st\<lparr>cs_graph := g0\<lparr>g_Entities := fmupd i (backfillFieldSources e) E\<rparr>,
           cs_owners := registerCanonicalOwners i (backfillFieldSources e) (cs_owners st)\<rparr>"
      by (simp add: canonicalize_step_def Let_def mget_or_def)
    have "entity_keyed (fmupd i (backfillFieldSources e) E)" using E(2) idn by (simp add: entity_keyed_def)
    then show ?thesis
      unfolding s
    proof (rule canonical_invI [rotated])
      show "fmdom' (fmupd i (backfillFieldSources e) E) \<subseteq> fmdom' (g_Entities g0)" using E(3) i by auto
      show "fmdom' (g_Entities g0) - insert i seen \<subseteq> fmdom' (fmupd i (backfillFieldSources e) E)" using E(4) by auto
    qed (use owners in \<open>auto dest!: registered_owner_key\<close>)
  next
    case False
    with findCanonicalOwner_key [of "cs_owners st" e] owners have t: "?t \<in> seen" "mget E ?t \<noteq> None" by auto
    let ?m = "canonical_merge version updatedAt (g0\<lparr>g_Entities := E\<rparr>) ?t e"
    have m: "ent_ID ?m = ?t" by (simp add: canonical_merge_def Let_def)
    from False e E have s: "canonicalize_step version updatedAt i st =
        st\<lparr>cs_graph := g0\<lparr>g_Entities := fmdrop i (fmupd ?t ?m E)\<rparr>,
           cs_aliases := fold (\<lambda>oldID. fmupd oldID ?t) (ent_MergedFrom e) (fmupd i ?t (cs_aliases st)),
           cs_owners := registerCanonicalOwners ?t ?m (cs_owners st)\<rparr>"
      by (simp add: canonicalize_step_def Let_def mget_or_def)
    have "entity_keyed (fmdrop i (fmupd ?t ?m E))" using E(2) idn m False by (auto simp: entity_keyed_def)
    then show ?thesis
      unfolding s
    proof (rule canonical_invI [rotated])
      show "fmdom' (fmdrop i (fmupd ?t ?m E)) \<subseteq> fmdom' (g_Entities g0)" using E(3) fmdom'I [of E ?t] t(2) by auto
      show "fmdom' (g_Entities g0) - insert i seen \<subseteq> fmdom' (fmdrop i (fmupd ?t ?m E))" using E(4) by auto
    qed (use owners t False i in \<open>auto dest!: registered_owner_key\<close>)
  qed
qed


lemma fold_seen:
  assumes "\<And>x s seen. I seen s \<Longrightarrow> x \<in> A \<Longrightarrow> x \<notin> seen \<Longrightarrow> I (insert x seen) (f x s)"
  shows "distinct xs \<Longrightarrow> set xs \<subseteq> A \<Longrightarrow> set xs \<inter> seen = {} \<Longrightarrow> I seen s \<Longrightarrow> I (set xs \<union> seen) (fold f xs s)"
proof (induction xs arbitrary: s seen)
  case (Cons x xs)
  from Cons.prems have "I (insert x seen) (f x s)" by (intro assms) auto
  with Cons.prems have "I (set xs \<union> insert x seen) (fold f xs (f x s))" by (intro Cons.IH) auto
  then show ?case by simp
qed simp

lemma canonicalizeEntitySet_spec:
  assumes "canonicalizeEntitySet version updatedAt g = (g', aliases)" and "entity_keyed (g_Entities g)"
  obtains E where "g' = rebuildIndexes (g\<lparr>g_Entities := E\<rparr>)" "entity_keyed E" "fmdom' E \<subseteq> fmdom' (g_Entities g)"
proof -
  let ?st = "\<lparr>cs_graph = g, cs_aliases = fmempty, cs_owners = fmempty\<rparr>"
  let ?st' = "fold (canonicalize_step version updatedAt) (skeys (g_Entities g)) ?st"
  have "canonical_inv g {} ?st"
    by (rule canonical_invI [where E = "g_Entities g"]) (use assms(2) in simp_all)
  then have "canonical_inv g (set (skeys (g_Entities g)) \<union> {}) ?st'"
    by (intro fold_seen [where I = "canonical_inv g" and A = "fmdom' (g_Entities g)"] canonicalize_step_inv) auto
  then obtain E where E: "cs_graph ?st' = g\<lparr>g_Entities := E\<rparr>" "entity_keyed E" "fmdom' E \<subseteq> fmdom' (g_Entities g)"
    unfolding canonical_inv_def by blast
  with assms(1) show ?thesis by (intro that [of E]) (auto simp: canonicalizeEntitySet_def Let_def)
qed

section \<open>A restored graph is indexed and its edges are valid\<close>

lemma restoreCITypes_frame:
  assumes "foldM restoreCIType_step g xs = Inr g'"
  shows "\<exists>C. g' = g\<lparr>g_CITypes := C\<rparr>"
proof (rule foldM_invariant [OF assms, where I = "\<lambda>h. \<exists>C. h = g\<lparr>g_CITypes := C\<rparr>"])
  show "\<exists>C. g = g\<lparr>g_CITypes := C\<rparr>" by (intro exI [of _ "g_CITypes g"]) simp
qed (auto simp: restoreCIType_step_def)

lemma restoreRelationTypes_frame:
  assumes "foldM restoreRelationType_step g xs = Inr g'"
  shows "\<exists>R. g' = g\<lparr>g_RelationTypes := R\<rparr>"
proof (rule foldM_invariant [OF assms, where I = "\<lambda>h. \<exists>R. h = g\<lparr>g_RelationTypes := R\<rparr>"])
  show "\<exists>R. g = g\<lparr>g_RelationTypes := R\<rparr>" by (intro exI [of _ "g_RelationTypes g"]) simp
qed (auto simp: restoreRelationType_step_def)

lemma restoreEntities_frame:
  assumes "foldM restoreEntity_step g xs = Inr g'" and "g_Entities g = fmempty" and "\<And>e. e \<in> set xs \<Longrightarrow> TrimSpace (ent_ID e) \<noteq> []"
  shows "\<exists>E. g' = g\<lparr>g_Entities := E\<rparr> \<and> entity_keyed E"
proof (rule foldM_invariant [OF assms(1), where I = "\<lambda>h. \<exists>E. h = g\<lparr>g_Entities := E\<rparr> \<and> entity_keyed E"])
  show "\<exists>E. g = g\<lparr>g_Entities := E\<rparr> \<and> entity_keyed E"
    using assms(2) by (intro exI [of _ "g_Entities g"]) (simp add: entity_keyed_def)
next
  fix h x h' assume x: "x \<in> set xs" and "\<exists>E. h = g\<lparr>g_Entities := E\<rparr> \<and> entity_keyed E" and s: "restoreEntity_step h x = Inr h'"
  then obtain E where E: "h = g\<lparr>g_Entities := E\<rparr>" "entity_keyed E" by blast
  from s obtain n where n: "normalizeEntity x = Inr n" "h' = h\<lparr>g_Entities := fmupd (ent_ID n) n (g_Entities h)\<rparr>"
    by (auto simp: restoreEntity_step_def)
  with E assms(3) [OF x] normalizeEntity_frame(1) [OF n(1)] have "entity_keyed (fmupd (ent_ID n) n E)"
    by (simp add: entity_keyed_def)
  with E n show "\<exists>E. h' = g\<lparr>g_Entities := E\<rparr> \<and> entity_keyed E" by auto
qed

lemma addEdges_graph_ok:
  assumes ok: "graph_ok g" and none: "g_Edges g = fmempty" and no: "no_orders g"
    and D: "\<And>k e. mget D k = Some e \<Longrightarrow> edge_ID e = k \<and> CanonicalEdgeID e = k"
  shows "graph_ok (fold (\<lambda>(i, e). addEdgeToIndexes i e) (entries D) (g\<lparr>g_Edges := D\<rparr>))"
proof -
  let ?P = "\<lambda>h c. entity_index_ok h (g_Entities g) \<and> edge_index_ok h c \<and> no_orders h"
  let ?h = "fold (\<lambda>(i, e). addEdgeToIndexes i e) (entries D) (g\<lparr>g_Edges := D\<rparr>)"
  have "entity_index_ok (g\<lparr>g_Edges := D\<rparr>) E = entity_index_ok g E" "edge_index_ok (g\<lparr>g_Edges := D\<rparr>) C = edge_index_ok g C"
    "no_orders (g\<lparr>g_Edges := D\<rparr>) = no_orders g" for E C
    by (rule entity_index_ok_cong edge_index_ok_cong; simp) (rule edge_index_ok_cong, simp_all add: no_orders_def)
  with ok none no have "?P (g\<lparr>g_Edges := D\<rparr>) fmempty" by (simp add: graph_ok_def index_ok_def)
  then have "?P ?h D" by (rule fold_entries_collect) (auto intro: addEdge_index_ok addEdge_no_orders)
  moreover have "edge_frame ?h = edge_frame (g\<lparr>g_Edges := D\<rparr>)" by (rule addEdges_frame)
  then have "g_Entities ?h = g_Entities g" "g_Edges ?h = D" by (simp_all add: edge_frame_def)
  ultimately show ?thesis
    using ok D by (simp add: graph_ok_def index_ok_def no_orders_caches_ok keyed_def)
qed

section \<open>Cardinalities\<close>

definition out_limited :: "Graph \<Rightarrow> Edge \<Rightarrow> bool" where
  "out_limited g e \<longleftrightarrow> relationCardinality g (edge_Type e) \<in> {OneToOne, ManyToOne}"

definition in_limited :: "Graph \<Rightarrow> Edge \<Rightarrow> bool" where
  "in_limited g e \<longleftrightarrow> relationCardinality g (edge_Type e) \<in> {OneToOne, OneToMany}"

abbreviation out_key :: "Edge \<Rightarrow> cardinalityEndpoint" where "out_key e \<equiv> (edge_From e, edge_Type e)"
abbreviation in_key :: "Edge \<Rightarrow> cardinalityEndpoint" where "in_key e \<equiv> (edge_To e, edge_Type e)"

text \<open>
  No two stored edges of a relation type that limits its sources (one-to-one, many-to-one) leave the same
  entity, and no two of one that limits its targets (one-to-one, one-to-many) reach the same entity.
\<close>

definition cardinalities_ok :: "Graph \<Rightarrow> bool" where
  "cardinalities_ok g \<longleftrightarrow>
     (\<forall>i e j e'. mget (g_Edges g) i = Some e \<longrightarrow> mget (g_Edges g) j = Some e' \<longrightarrow> i \<noteq> j \<longrightarrow>
        (out_limited g e \<longrightarrow> out_key e \<noteq> out_key e') \<and> (in_limited g e \<longrightarrow> in_key e \<noteq> in_key e'))"

lemma cardinality_names [simp]:
  "OneToOne \<noteq> []" "OneToMany \<noteq> []" "ManyToOne \<noteq> []" "OneToOne \<noteq> ManyToMany" "OneToMany \<noteq> ManyToMany" "ManyToOne \<noteq> ManyToMany"
  "OneToMany \<noteq> OneToOne" "ManyToOne \<noteq> OneToOne" "ManyToOne \<noteq> OneToMany" "OneToOne \<noteq> OneToMany" "OneToOne \<noteq> ManyToOne" "OneToMany \<noteq> ManyToOne"
  by (simp_all add: OneToOne_def OneToMany_def ManyToOne_def ManyToMany_def)

lemma allCardinalities_step_eq:
  "allCardinalities_step g (outs, ins) e =
     (if out_limited g e \<and> out_key e \<in> outs \<or> in_limited g e \<and> in_key e \<in> ins
      then Inl (CardinalityViolated (edge_ID e) (relationCardinality g (edge_Type e)) (edge_Type e))
      else Inr (if out_limited g e then insert (out_key e) outs else outs, if in_limited g e then insert (in_key e) ins else ins))"
  by (auto simp: allCardinalities_step_def Let_def out_limited_def in_limited_def)

lemma allCardinalities_iff:
  "(\<exists>r. foldM (allCardinalities_step g) (outs, ins) es = Inr r) \<longleftrightarrow>
     distinct (map out_key (filter (out_limited g) es)) \<and> out_key ` set (filter (out_limited g) es) \<inter> outs = {} \<and>
     distinct (map in_key (filter (in_limited g) es)) \<and> in_key ` set (filter (in_limited g) es) \<inter> ins = {}"
proof (induction es arbitrary: outs ins)
  case (Cons e es)
  show ?case
  proof (cases "out_limited g e \<and> out_key e \<in> outs \<or> in_limited g e \<and> in_key e \<in> ins")
    case True
    then show ?thesis by (auto simp: allCardinalities_step_eq)
  next
    case False
    then have "allCardinalities_step g (outs, ins) e =
      Inr (if out_limited g e then insert (out_key e) outs else outs, if in_limited g e then insert (in_key e) ins else ins)"
      by (simp add: allCardinalities_step_eq)
    with Cons.IH False show ?thesis by auto
  qed
qed simp

lemma distinct_limited:
  fixes m :: "('k :: linorder, 'v) fmap"
  shows "distinct (map f (filter P (map snd (entries m)))) \<longleftrightarrow>
     (\<forall>i a j b. mget m i = Some a \<longrightarrow> mget m j = Some b \<longrightarrow> i \<noteq> j \<longrightarrow> P a \<longrightarrow> P b \<longrightarrow> f a \<noteq> f b)"
proof -
  have "distinct (map f (filter P (map snd (entries m)))) \<longleftrightarrow> distinct (map (f \<circ> snd) (filter (P \<circ> snd) (entries m)))"
    by (simp add: filter_map)
  also have "\<dots> \<longleftrightarrow> inj_on (f \<circ> snd) (set (filter (P \<circ> snd) (entries m)))"
    by (simp add: distinct_map)
  also have "\<dots> \<longleftrightarrow> (\<forall>x \<in> set (entries m). \<forall>y \<in> set (entries m). P (snd x) \<longrightarrow> P (snd y) \<longrightarrow> f (snd x) = f (snd y) \<longrightarrow> x = y)"
    unfolding inj_on_def by (simp only: set_filter mem_Collect_eq comp_apply) blast
  also have "\<dots> \<longleftrightarrow> (\<forall>i a j b. mget m i = Some a \<longrightarrow> mget m j = Some b \<longrightarrow> P a \<longrightarrow> P b \<longrightarrow> f a = f b \<longrightarrow> i = j \<and> a = b)"
    by (simp only: Ball_def split_paired_All set_entries snd_conv prod.inject) blast
  also have "\<dots> \<longleftrightarrow> (\<forall>i a j b. mget m i = Some a \<longrightarrow> mget m j = Some b \<longrightarrow> i \<noteq> j \<longrightarrow> P a \<longrightarrow> P b \<longrightarrow> f a \<noteq> f b)"
    by (auto, metis option.inject)
  finally show ?thesis .
qed

lemma validateAllCardinalities_iff: "validateAllCardinalities g = Inr () \<longleftrightarrow> cardinalities_ok g"
proof -
  let ?es = "map snd (entries (g_Edges g))"
  have lim: "out_limited g e = out_limited g e'" "in_limited g e = in_limited g e'" if "edge_Type e = edge_Type e'" for e e'
    using that by (simp_all add: out_limited_def in_limited_def)
  have "validateAllCardinalities g = Inr () \<longleftrightarrow> (\<exists>r. foldM (allCardinalities_step g) ({}, {}) ?es = Inr r)"
    by (cases "foldM (allCardinalities_step g) ({}, {}) ?es") (auto simp: validateAllCardinalities_def)
  also have "\<dots> \<longleftrightarrow> distinct (map out_key (filter (out_limited g) ?es)) \<and> distinct (map in_key (filter (in_limited g) ?es))"
    using allCardinalities_iff [of g "{}" "{}" ?es] by simp
  also have "\<dots> \<longleftrightarrow> cardinalities_ok g"
  proof
    assume "distinct (map out_key (filter (out_limited g) ?es)) \<and> distinct (map in_key (filter (in_limited g) ?es))"
    note this [unfolded distinct_limited]
    from this [THEN conjunct1] this [THEN conjunct2] have d: "\<forall>i a j b. mget (g_Edges g) i = Some a \<longrightarrow> mget (g_Edges g) j = Some b \<longrightarrow> i \<noteq> j \<longrightarrow>
        out_limited g a \<longrightarrow> out_limited g b \<longrightarrow> out_key a \<noteq> out_key b"
      "\<forall>i a j b. mget (g_Edges g) i = Some a \<longrightarrow> mget (g_Edges g) j = Some b \<longrightarrow> i \<noteq> j \<longrightarrow>
        in_limited g a \<longrightarrow> in_limited g b \<longrightarrow> in_key a \<noteq> in_key b" .
    show "cardinalities_ok g"
      unfolding cardinalities_ok_def
    proof (intro allI impI conjI notI)
      fix i e j e' assume e: "mget (g_Edges g) i = Some e" "mget (g_Edges g) j = Some e'" "i \<noteq> j"
      show False if o: "out_limited g e" and k: "out_key e = out_key e'"
      proof -
        from k have "edge_Type e = edge_Type e'" by simp
        with lim(1) o have "out_limited g e'" by blast
        with d(1) e o k show False by blast
      qed
      show False if o: "in_limited g e" and k: "in_key e = in_key e'"
      proof -
        from k have "edge_Type e = edge_Type e'" by simp
        with lim(2) o have "in_limited g e'" by blast
        with d(2) e o k show False by blast
      qed
    qed
  next
    assume "cardinalities_ok g"
    then show "distinct (map out_key (filter (out_limited g) ?es)) \<and> distinct (map in_key (filter (in_limited g) ?es))"
      unfolding distinct_limited cardinalities_ok_def by blast
  qed
  finally show ?thesis .
qed

definition edges_valid :: "Graph \<Rightarrow> bool" where
  "edges_valid g \<longleftrightarrow> (\<forall>i e. mget (g_Edges g) i = Some e \<longrightarrow> validateEdge g e = Inr ())"

lemma validateAllEdges_iff: "validateAllEdges g = Inr () \<longleftrightarrow> edges_valid g \<and> cardinalities_ok g"
proof -
  have "checkM (validateEdge g) (map snd (entries (g_Edges g))) = Inr () \<longleftrightarrow> edges_valid g"
    unfolding checkM_eq_Inr edges_valid_def set_map_snd_entries by blast
  then show ?thesis
    using validateAllCardinalities_iff [of g]
    by (cases "checkM (validateEdge g) (map snd (entries (g_Edges g)))") (simp_all add: validateAllEdges_def)
qed

lemma FromSnapshot_cases:
  assumes "FromSnapshot s = Inr g"
  obtains g1 g2 g3 g4 aliases edges D report where
    "foldM restoreCIType_step (New\<lparr>g_Version := sn_Version s\<rparr>) (sn_CITypes s) = Inr g1"
    "foldM restoreRelationType_step g1 (sn_RelationTypes s) = Inr g2" "foldM restoreEntity_step g2 (sn_Entities s) = Inr g3"
    "canonicalizeEntitySet (sn_Version s) (snapshotVersionTime s) g3 = (g4, aliases)"
    "foldM (restoreEdge_step aliases) [] (sn_Edges s) = Inr edges"
    "mergeEdgeList edges (sn_Version s) (snapshotVersionTime s) = (D, report)"
    "g = fold (\<lambda>(i, e). addEdgeToIndexes i e) (entries D) (g4\<lparr>g_Edges := D\<rparr>)" "validateAllEdges g = Inr ()"
proof -
  from assms obtain g1 g2 g3 where
    s: "foldM restoreCIType_step (New\<lparr>g_Version := sn_Version s\<rparr>) (sn_CITypes s) = Inr g1"
    "foldM restoreRelationType_step g1 (sn_RelationTypes s) = Inr g2" "foldM restoreEntity_step g2 (sn_Entities s) = Inr g3"
    by (auto simp: FromSnapshot_def Let_def)
  obtain g4 aliases where c: "canonicalizeEntitySet (sn_Version s) (snapshotVersionTime s) g3 = (g4, aliases)" by fastforce
  with s assms obtain edges where e: "foldM (restoreEdge_step aliases) [] (sn_Edges s) = Inr edges"
    by (auto simp: FromSnapshot_def Let_def)
  obtain D report where D: "mergeEdgeList edges (sn_Version s) (snapshotVersionTime s) = (D, report)" by fastforce
  from s c e D assms show ?thesis by (intro that [OF s c e D]) (auto simp: FromSnapshot_def Let_def)
qed

lemma restored_sound:
  assumes r: "FromSnapshot s = Inr g" and ids: "\<And>e. e \<in> set (sn_Entities s) \<Longrightarrow> TrimSpace (ent_ID e) \<noteq> []"
  shows "graph_ok g" "edges_valid g" "cardinalities_ok g" "g_Version g = sn_Version s"
    "identities_covered g (g_Entities g)" "\<not> g_legacyIdentity g"
proof -
  obtain g1 g2 g3 g4 aliases edges D report where
    s1: "foldM restoreCIType_step (New\<lparr>g_Version := sn_Version s\<rparr>) (sn_CITypes s) = Inr g1"
    and s2: "foldM restoreRelationType_step g1 (sn_RelationTypes s) = Inr g2"
    and s3: "foldM restoreEntity_step g2 (sn_Entities s) = Inr g3"
    and s4: "canonicalizeEntitySet (sn_Version s) (snapshotVersionTime s) g3 = (g4, aliases)"
    and D: "mergeEdgeList edges (sn_Version s) (snapshotVersionTime s) = (D, report)"
    and g: "g = fold (\<lambda>(i, e). addEdgeToIndexes i e) (entries D) (g4\<lparr>g_Edges := D\<rparr>)" and v: "validateAllEdges g = Inr ()"
    by (rule FromSnapshot_cases [OF r])
  from v show "edges_valid g" "cardinalities_ok g" by (simp_all add: validateAllEdges_iff)
  from restoreCITypes_frame [OF s1] restoreRelationTypes_frame [OF s2] obtain C R where
    g2: "g2 = New\<lparr>g_Version := sn_Version s, g_CITypes := C, g_RelationTypes := R\<rparr>" by auto
  have new: "g_Entities New = fmempty" "g_Edges New = fmempty" by (simp_all add: New_def zero_Graph_def)
  have "g_Entities g2 = fmempty" "g_Edges g2 = fmempty" by (simp_all add: g2 new)
  from restoreEntities_frame [OF s3 this(1) ids] obtain E where g3: "g3 = g2\<lparr>g_Entities := E\<rparr>" "entity_keyed E" by blast
  from g3 have "entity_keyed (g_Entities g3)" by simp
  from canonicalizeEntitySet_spec [OF s4 this] obtain E' where
    g4: "g4 = rebuildIndexes (g3\<lparr>g_Entities := E'\<rparr>)" "entity_keyed E'" by blast
  have none: "g_Edges g4 = fmempty" by (simp add: g4(1) g3(1) g2 new)
  have "keyed (g3\<lparr>g_Entities := E'\<rparr>)" using g4(2) by (simp add: g3(1) g2 new keyed_def entity_keyed_def)
  from rebuild_graph_ok [OF this] have "graph_ok g4" by (simp only: g4(1))
  then show "graph_ok g"
    unfolding g
  proof (rule addEdges_graph_ok [OF _ none])
    show "no_orders g4" unfolding g4(1) by (rule rebuild_no_orders)
    show "edge_ID e = k \<and> CanonicalEdgeID e = k" if "mget D k = Some e" for k e
      using mergeEdgeList_spec [OF D] that by blast
  qed
  have frame: "edge_frame g = edge_frame (g4\<lparr>g_Edges := D\<rparr>)" unfolding g by (rule addEdges_frame)
  then have "g_Version g = g_Version g4" by (simp add: edge_frame_def)
  then show "g_Version g = sn_Version s" by (simp add: g4(1) g3(1) g2)
  from frame have kept: "g_Entities g = g_Entities g4" "g_CITypes g = g_CITypes g4" "g_legacyIdentity g = g_legacyIdentity g4"
    "g_identityIndex g = g_identityIndex g4" by (simp_all add: edge_frame_def)
  have "identities_covered g4 (g_Entities g4)" using rebuildIndexes_covered [of "g3\<lparr>g_Entities := E'\<rparr>"] by (simp add: g4(1))
  then show "identities_covered g (g_Entities g)" unfolding kept(1) identities_covered_cong [OF kept(2-)] .
  show "\<not> g_legacyIdentity g" using New_ok(4) by (simp add: kept(3) g4(1) g3(1) g2)
qed

section \<open>Restoring what was listed\<close>

lemma fold_keyed_lookup:
  assumes "\<And>x. x \<in> set xs \<Longrightarrow> mget m (key x) = Some x"
  shows "mget (fold (\<lambda>x. fmupd (key x) x) xs M) k = (if k \<in> key ` set xs then mget m k else mget M k)"
  using assms
proof (induction xs arbitrary: M)
  case (Cons a xs)
  have x: "mget m (key x) = Some x" if "x = a \<or> x \<in> set xs" for x using Cons.prems [of x] that by auto
  from Cons.IH [of "fmupd (key a) a M"] x
  have "mget (fold (\<lambda>x. fmupd (key x) x) xs (fmupd (key a) a M)) k =
      (if k \<in> key ` set xs then mget m k else if k = key a then Some a else mget M k)" by auto
  with x [of a] show ?case by auto
qed simp

lemma fold_keyed_listing:
  assumes "\<And>k x. mget m k = Some x \<Longrightarrow> key x = k" and "set xs = set (map snd (entries m))" and "fmdom' M \<subseteq> fmdom' m"
  shows "fold (\<lambda>x. fmupd (key x) x) xs M = m"
proof (rule fmap_ext)
  fix k
  have x: "mget m (key x) = Some x" if "x \<in> set xs" for x
    using that assms(1) by (auto simp: assms(2) set_map_snd_entries simp del: set_map)
  have "k \<in> key ` set xs" if "mget m k \<noteq> None"
    using that assms(1) by (force simp: assms(2) set_map_snd_entries simp del: set_map)
  moreover have "mget M k = None" if "mget m k = None"
    using that assms(3) fmdom'I [of M k] fmdom'I [of m k] by (cases "mget M k") (auto simp: fmlookup_dom'_iff subset_iff)
  ultimately show "mget (fold (\<lambda>x. fmupd (key x) x) xs M) k = mget m k"
    using fold_keyed_lookup [of xs m key M k, OF x] by (cases "mget m k") auto
qed

lemma restoreCITypes_normal:
  "(\<And>c. c \<in> set cs \<Longrightarrow> normalizeCIType c = Inr c) \<Longrightarrow>
   foldM restoreCIType_step g cs = Inr (g\<lparr>g_CITypes := fold (\<lambda>c. fmupd (ct_Name c) c) cs (g_CITypes g)\<rparr>)"
  by (induction cs arbitrary: g) (simp_all add: restoreCIType_step_def)

lemma restoreRelationTypes_normal:
  "(\<And>r. r \<in> set rs \<Longrightarrow> normalizeRelationType r = Inr r) \<Longrightarrow>
   foldM restoreRelationType_step g rs = Inr (g\<lparr>g_RelationTypes := fold (\<lambda>r. fmupd (rt_Name r) r) rs (g_RelationTypes g)\<rparr>)"
  by (induction rs arbitrary: g) (simp_all add: restoreRelationType_step_def)

lemma restoreEntities_normal:
  "(\<And>e. e \<in> set es \<Longrightarrow> normalizeEntity e = Inr e) \<Longrightarrow>
   foldM restoreEntity_step g es = Inr (g\<lparr>g_Entities := fold (\<lambda>e. fmupd (ent_ID e) e) es (g_Entities g)\<rparr>)"
  by (induction es arbitrary: g) (simp_all add: restoreEntity_step_def)

lemma restoreEdges_normal:
  "(\<And>e. e \<in> set es \<Longrightarrow> normalizeEdge e = Inr e) \<Longrightarrow> foldM (restoreEdge_step fmempty) es0 es = Inr (es0 @ es)"
  by (induction es arbitrary: es0) (simp_all add: restoreEdge_step_def aliased_def mget_or_def)

text \<open>Edges in canonical form with distinct identifiers are listed as they are.\<close>

definition stamped :: "Edge \<Rightarrow> bool" where
  "stamped e \<longleftrightarrow> edge_Version e \<noteq> 0 \<and> edge_UpdatedAt e \<noteq> 0 \<and> canonicalizeEdge e (edge_Version e) (edge_UpdatedAt e) = e"

lemma mergeEdgeList_stamped_loop:
  "(\<And>e. e \<in> set es \<Longrightarrow> stamped e) \<Longrightarrow> distinct (map edge_ID es) \<Longrightarrow> fmdom' m \<inter> edge_ID ` set es = {} \<Longrightarrow>
   fold (mergeEdgeList_step v t) es (m, cs) = (fold (\<lambda>e. fmupd (edge_ID e) e) es m, cs)"
proof (induction es arbitrary: m)
  case (Cons e es)
  from Cons.prems have "stamped e" "mget m (edge_ID e) = None" by (auto simp: fmlookup_dom'_iff)
  then have "mergeEdgeList_step v t e (m, cs) = (fmupd (edge_ID e) e m, cs)"
    by (simp add: mergeEdgeList_step_def stamped_def firstNonZero_def firstNonZeroTime_def Let_def)
  with Cons.prems Cons.IH [of "fmupd (edge_ID e) e m"] show ?case by auto
qed simp

section \<open>Canonical identities\<close>

text \<open>No two entities share a key under which \<open>canonicalizeEntitySet\<close> would merge them.\<close>

definition distinct_owners :: "(string, Entity) fmap \<Rightarrow> bool" where
  "distinct_owners E \<longleftrightarrow>
     (\<forall>i e j e'. mget E i = Some e \<longrightarrow> mget E j = Some e' \<longrightarrow> i \<noteq> j \<longrightarrow> owner_keys e \<inter> owner_keys e' = {})"

lemma canonicalize_normal:
  assumes E: "distinct_owners (g_Entities g)" and b: "\<And>i e. mget (g_Entities g) i = Some e \<Longrightarrow> backfillFieldSources e = e"
  shows "canonicalizeEntitySet v t g = (rebuildIndexes g, fmempty)"
proof -
  let ?I = "\<lambda>st. cs_graph st = g \<and> cs_aliases st = fmempty \<and>
    (\<forall>k j. mget (cs_owners st) k = Some j \<longrightarrow> (\<exists>e. mget (g_Entities g) j = Some e \<and> k \<in> owner_keys e))"
  have step: "?I (canonicalize_step v t i st)" if I: "?I st" and i: "mget (g_Entities g) i = Some e" for i e st
  proof -
    let ?t = "findCanonicalOwner (cs_owners st) e"
    have "?t = [] \<or> ?t = i"
    proof (rule ccontr)
      assume n: "\<not> ?thesis"
      with findCanonicalOwner_key [of "cs_owners st" e] obtain k where k: "k \<in> owner_keys e" "mget (cs_owners st) k = Some ?t" by auto
      with I obtain e' where "mget (g_Entities g) ?t = Some e'" "k \<in> owner_keys e'" by blast
      with k n i E show False unfolding distinct_owners_def by blast
    qed
    moreover have "fmupd i e (g_Entities g) = g_Entities g" using i by (intro fmap_ext) auto
    ultimately have "canonicalize_step v t i st = st\<lparr>cs_owners := registerCanonicalOwners i e (cs_owners st)\<rparr>"
      using I i b [OF i] by (simp add: canonicalize_step_def Let_def mget_or_def)
    with I i show ?thesis by (auto dest!: registered_owner_key)
  qed
  have "?I (fold (canonicalize_step v t) xs st)" if "?I st" "set xs \<subseteq> fmdom' (g_Entities g)" for xs st
    using that
  proof (induction xs arbitrary: st)
    case (Cons x xs)
    from Cons.prems(2) obtain e where "mget (g_Entities g) x = Some e" by (auto simp: fmlookup_dom'_iff)
    from step [OF Cons.prems(1) this] Cons.prems(2) Cons.IH show ?case by auto
  qed simp
  from this [of "\<lparr>cs_graph = g, cs_aliases = fmempty, cs_owners = fmempty\<rparr>" "skeys (g_Entities g)"]
  show ?thesis by (simp add: canonicalizeEntitySet_def Let_def)
qed

section \<open>Round trip\<close>

text \<open>
  The form in which a graph survives storage: every item is filed under its own name and a fixed point
  of its normalisation, entities have owners for all their fields and share no source identity, edges are
  canonical and stamped, and the standard relation types, which \<open>FromSnapshot\<close> starts from, are there. The identity
  encoding is the current one, since a snapshot does not record the encoding and \<open>FromSnapshot\<close> uses the current one.
\<close>

definition storage_form :: "Graph \<Rightarrow> bool" where
  "storage_form g \<longleftrightarrow> keyed g \<and>
     (\<forall>k c. mget (g_CITypes g) k = Some c \<longrightarrow> ct_Name c = k \<and> normalizeCIType c = Inr c) \<and>
     (\<forall>k r. mget (g_RelationTypes g) k = Some r \<longrightarrow> rt_Name r = k \<and> normalizeRelationType r = Inr r) \<and>
     rt_Name ` set StandardRelationTypes \<subseteq> fmdom' (g_RelationTypes g) \<and>
     (\<forall>k e. mget (g_Entities g) k = Some e \<longrightarrow> normalizeEntity e = Inr e \<and> backfillFieldSources e = e) \<and>
     distinct_owners (g_Entities g) \<and>
     (\<forall>k e. mget (g_Edges g) k = Some e \<longrightarrow> normalizeEdge e = Inr e \<and> stamped e) \<and>
     edges_valid g \<and> cardinalities_ok g \<and> \<not> g_legacyIdentity g"

lemma fmdom'_fold_keyed: "fmdom' (fold (\<lambda>x. fmupd (key x) x) xs M) = fmdom' M \<union> key ` set xs"
  by (induction xs arbitrary: M) auto

lemma New_contents:
  "g_Version New = 0" "g_CITypes New = fmempty" "g_Entities New = fmempty" "g_Edges New = fmempty"
  "fmdom' (g_RelationTypes New) = rt_Name ` set StandardRelationTypes"
  by (simp_all add: New_def zero_Graph_def fmdom'_fold_keyed)

lemma sort_listing: "set (sort_key f (map snd (entries m))) = set (map snd (entries m))" by simp

lemma distinct_listing:
  assumes "\<And>k x. mget m k = Some x \<Longrightarrow> key x = k"
  shows "distinct (map key (sort_key key (map snd (entries m))))"
proof -
  have "map key (map snd (entries m)) = skeys m"
    using assms by (auto simp: entries_def comp_def fmlookup_dom'_iff intro!: map_idI)
  then have "distinct (map key (map snd (entries m)))" by simp
  moreover have "mset (map key (sort_key key (map snd (entries m)))) = mset (map key (map snd (entries m)))" by (simp add: multiset.map_comp)
  ultimately show ?thesis by (metis mset_eq_imp_distinct_iff)
qed

lemma valid_cong:
  assumes "g_RelationTypes g' = g_RelationTypes g" "g_Entities g' = g_Entities g" "g_Edges g' = g_Edges g"
  shows "edges_valid g' = edges_valid g" "cardinalities_ok g' = cardinalities_ok g"
proof -
  have "validateEdge g' = validateEdge g" by (intro ext) (simp only: validateEdge_def assms)
  then show "edges_valid g' = edges_valid g" by (simp add: edges_valid_def assms)
  show "cardinalities_ok g' = cardinalities_ok g"
    by (simp add: cardinalities_ok_def out_limited_def in_limited_def relationCardinality_def assms)
qed

definition contents where
  "contents g = (g_Version g, g_CITypes g, g_Entities g, g_RelationTypes g, g_Edges g)"

lemma restore_contents:
  assumes "storage_form g"
  obtains g' where "FromSnapshot (SnapshotOf g) = Inr g'" "contents g' = contents g"
proof -
  from assms have k: "keyed g"
    and c: "\<And>k c. mget (g_CITypes g) k = Some c \<Longrightarrow> ct_Name c = k \<and> normalizeCIType c = Inr c"
    and r: "\<And>k r. mget (g_RelationTypes g) k = Some r \<Longrightarrow> rt_Name r = k \<and> normalizeRelationType r = Inr r"
    and std: "fmdom' (g_RelationTypes New) \<subseteq> fmdom' (g_RelationTypes g)"
    and e: "\<And>k e. mget (g_Entities g) k = Some e \<Longrightarrow> normalizeEntity e = Inr e \<and> backfillFieldSources e = e"
    and ow: "distinct_owners (g_Entities g)"
    and d: "\<And>k e. mget (g_Edges g) k = Some e \<Longrightarrow> normalizeEdge e = Inr e \<and> stamped e"
    and v: "edges_valid g" "cardinalities_ok g"
    by (auto simp: storage_form_def New_contents)
  from k have ek: "\<And>i e. mget (g_Entities g) i = Some e \<Longrightarrow> ent_ID e = i" and dk: "\<And>i e. mget (g_Edges g) i = Some e \<Longrightarrow> edge_ID e = i"
    by (auto simp: keyed_def)
  let ?s = "SnapshotOf g" and ?v = "g_Version g"
  note lists = SnapshotOf_def take_snapshot_def
  note ms = set_map_snd_entries [unfolded set_map]
  let ?g1 = "New\<lparr>g_Version := ?v, g_CITypes := g_CITypes g\<rparr>"
  let ?g2 = "?g1\<lparr>g_RelationTypes := g_RelationTypes g\<rparr>"
  let ?g3 = "?g2\<lparr>g_Entities := g_Entities g\<rparr>"
  let ?g4 = "rebuildIndexes ?g3"
  let ?es = "sn_Edges ?s" and ?t = "snapshotVersionTime ?s"
  have "fold (\<lambda>c. fmupd (ct_Name c) c) (sn_CITypes ?s) fmempty = g_CITypes g"
    by (rule fold_keyed_listing) (use c in \<open>simp_all add: lists\<close>)
  then have s1: "foldM restoreCIType_step (New\<lparr>g_Version := ?v\<rparr>) (sn_CITypes ?s) = Inr ?g1"
    using c by (subst restoreCITypes_normal) (auto simp: lists New_contents ms)
  have "fold (\<lambda>r. fmupd (rt_Name r) r) (sn_RelationTypes ?s) (g_RelationTypes New) = g_RelationTypes g"
    by (rule fold_keyed_listing) (use r std in \<open>simp_all add: lists\<close>)
  then have s2: "foldM restoreRelationType_step ?g1 (sn_RelationTypes ?s) = Inr ?g2"
    using r by (subst restoreRelationTypes_normal) (auto simp: lists ms)
  have "fold (\<lambda>e. fmupd (ent_ID e) e) (sn_Entities ?s) fmempty = g_Entities g"
    by (rule fold_keyed_listing) (use ek in \<open>simp_all add: lists\<close>)
  then have s3: "foldM restoreEntity_step ?g2 (sn_Entities ?s) = Inr ?g3"
    using e by (subst restoreEntities_normal) (auto simp: lists New_contents ms)
  have s4: "canonicalizeEntitySet ?v ?t ?g3 = (?g4, fmempty)"
    by (rule canonicalize_normal) (use ow e in auto)
  have s5: "foldM (restoreEdge_step fmempty) [] ?es = Inr ?es"
    using d by (subst restoreEdges_normal) (auto simp: lists ms)
  have "fold (mergeEdgeList_step ?v ?t) ?es (fmempty, []) = (fold (\<lambda>e. fmupd (edge_ID e) e) ?es fmempty, [])"
    by (rule mergeEdgeList_stamped_loop) (use d dk distinct_listing [of "g_Edges g" edge_ID] in \<open>auto simp: lists ms\<close>)
  also have "fold (\<lambda>e. fmupd (edge_ID e) e) ?es fmempty = g_Edges g"
    by (rule fold_keyed_listing) (use dk in \<open>simp_all add: lists\<close>)
  finally have s6: "fst (mergeEdgeList ?es ?v ?t) = g_Edges g" by (simp add: mergeEdgeList_def)
  let ?g = "fold (\<lambda>(i, e). addEdgeToIndexes i e) (entries (g_Edges g)) (?g4\<lparr>g_Edges := g_Edges g\<rparr>)"
  have "edge_frame ?g = edge_frame (?g4\<lparr>g_Edges := g_Edges g\<rparr>)" by (rule addEdges_frame)
  then have fr: "g_Version ?g = ?v" "g_CITypes ?g = g_CITypes g" "g_Entities ?g = g_Entities g" "g_RelationTypes ?g = g_RelationTypes g"
    "g_Edges ?g = g_Edges g" by (simp_all add: edge_frame_def)
  then have "validateAllEdges ?g = Inr ()" using v valid_cong [of ?g g] by (simp add: validateAllEdges_iff)
  moreover have "sn_Version ?s = ?v" by (simp add: lists)
  ultimately have "FromSnapshot ?s = Inr ?g"
    by (simp add: FromSnapshot_def s1 s2 s3 s4 s5 s6 del: rbind_eq_Inr)
  with fr show ?thesis by (intro that [of ?g]) (simp_all add: contents_def)
qed

end
