(* ===== verification/GoSort.thy ===== *)
theory GoSort
  imports Prelude "HOL-Library.Multiset"
begin

text \<open>
  The parts of Go's \<open>sort\<close> and \<open>container/heap\<close> packages that the read paths use: the binary search
  \<open>sort.Search\<close>, and the array heap with \<open>Init\<close>, \<open>Push\<close> and \<open>Pop\<close>, as the library documents and implements
  them, with what their clients rely on: the search splits a list at a monotone predicate, and a heap gives
  its elements in ascending order.
\<close>

section \<open>Binary search\<close>

function Search_loop :: "(nat \<Rightarrow> bool) \<Rightarrow> nat \<Rightarrow> nat \<Rightarrow> nat" where
  "Search_loop f i j =
     (if i < j
      then let h = (i + j) div 2 in if \<not> f h then Search_loop f (h + 1) j else Search_loop f i h
      else i)"
  by pat_completeness auto
termination
  by (relation "measure (\<lambda>(f, i, j). j - i)") (auto simp: Let_def)

declare Search_loop.simps [simp del]

definition Search :: "nat \<Rightarrow> (nat \<Rightarrow> bool) \<Rightarrow> nat" where
  "Search n f = Search_loop f 0 n"

definition SearchStrings :: "string list \<Rightarrow> string \<Rightarrow> nat" where
  "SearchStrings a x = Search (length a) (\<lambda>i. x \<le> a ! i)"

lemma Search_loop_spec:
  assumes "i \<le> j" "j \<le> n" "\<forall>a b. a \<le> b \<longrightarrow> b < n \<longrightarrow> f a \<longrightarrow> f b" "\<forall>a < i. \<not> f a" "\<forall>a \<ge> j. a < n \<longrightarrow> f a"
  shows "Search_loop f i j \<le> n \<and> (\<forall>a < Search_loop f i j. \<not> f a) \<and> (\<forall>a \<ge> Search_loop f i j. a < n \<longrightarrow> f a)"
  using assms
proof (induction f i j rule: Search_loop.induct)
  case (1 f i j)
  show ?case
  proof (cases "i < j")
    case False
    with 1(3-7) show ?thesis unfolding Search_loop.simps [of f i j] by simp
  next
    case True
    define h where "h = (i + j) div 2"
    have h: "i \<le> h" "h < j" "h < n" using True 1(4) by (auto simp: h_def)
    show ?thesis
    proof (cases "f h")
      case False
      have "\<forall>a < h + 1. \<not> f a" using False 1(5) h(3) by (auto simp: less_Suc_eq_le)
      with 1(1) [OF True h_def] False 1(4,5,7) h show ?thesis
        unfolding Search_loop.simps [of f i j] by (simp add: True Let_def flip: h_def)
    next
      case True
      then have "\<forall>a \<ge> h. a < n \<longrightarrow> f a" using 1(5) by blast
      with 1(2) [OF \<open>i < j\<close> h_def] True 1(4-6) h show ?thesis
        unfolding Search_loop.simps [of f i j] by (simp add: \<open>i < j\<close> Let_def flip: h_def)
    qed
  qed
qed

lemma Search_spec:
  assumes "\<forall>a b. a \<le> b \<longrightarrow> b < n \<longrightarrow> f a \<longrightarrow> f b"
  shows "Search n f \<le> n" "a < Search n f \<Longrightarrow> \<not> f a" "Search n f \<le> a \<Longrightarrow> a < n \<Longrightarrow> f a"
  using Search_loop_spec [of 0 n n f] assms by (auto simp: Search_def)

text \<open>On a list along which a predicate stays true once it is, the search splits off the elements that satisfy it.\<close>

lemma Search_split:
  assumes "sorted_wrt (\<lambda>x y. p x \<longrightarrow> p y) xs"
  shows "take (Search (length xs) (\<lambda>i. p (xs ! i))) xs = filter (\<lambda>x. \<not> p x) xs"
    "drop (Search (length xs) (\<lambda>i. p (xs ! i))) xs = filter p xs"
proof -
  let ?k = "Search (length xs) (\<lambda>i. p (xs ! i))"
  have mono: "\<forall>a b. a \<le> b \<longrightarrow> b < length xs \<longrightarrow> p (xs ! a) \<longrightarrow> p (xs ! b)"
    using assms by (auto simp: sorted_wrt_iff_nth_less le_less)
  have t: "\<not> p x" if "x \<in> set (take ?k xs)" for x
    using that Search_spec(2) [OF mono] by (auto simp: in_set_conv_nth)
  have d: "p x" if x: "x \<in> set (drop ?k xs)" for x
  proof -
    from x obtain i where "i < length xs - ?k" "x = xs ! (?k + i)" by (auto simp: in_set_conv_nth)
    then show ?thesis using Search_spec(3) [OF mono, of "?k + i"] by simp
  qed
  have "filter p xs = filter p (take ?k xs) @ filter p (drop ?k xs)" by (simp flip: filter_append)
  moreover have "filter (\<lambda>x. \<not> p x) xs = filter (\<lambda>x. \<not> p x) (take ?k xs) @ filter (\<lambda>x. \<not> p x) (drop ?k xs)" by (simp flip: filter_append)
  moreover have "filter p (take ?k xs) = []" using t by (simp only: filter_empty_conv) blast
  moreover have "filter (\<lambda>x. \<not> p x) (drop ?k xs) = []" using d by (simp only: filter_empty_conv) blast
  moreover have "filter p (drop ?k xs) = drop ?k xs" by (rule filter_True) (use d in blast)
  moreover have "filter (\<lambda>x. \<not> p x) (take ?k xs) = take ?k xs" by (rule filter_True) (use t in blast)
  ultimately show "take ?k xs = filter (\<lambda>x. \<not> p x) xs" "drop ?k xs = filter p xs" by simp_all
qed

lemma SearchStrings_drop: "sorted ids \<Longrightarrow> drop (SearchStrings ids x) ids = filter (\<lambda>y. x \<le> y) ids"
  unfolding SearchStrings_def
  by (rule Search_split(2)) (erule sorted_wrt_mono_rel [rotated], auto)

section \<open>Heaps\<close>

definition swap :: "nat \<Rightarrow> nat \<Rightarrow> 'a list \<Rightarrow> 'a list" where
  "swap i j xs = xs[i := xs ! j, j := xs ! i]"

text \<open>The order \<open>Less\<close> of a heap compares the keys of its elements.\<close>

definition smaller_child :: "('a \<Rightarrow> 'k::linorder) \<Rightarrow> nat \<Rightarrow> 'a list \<Rightarrow> nat \<Rightarrow> nat" where
  "smaller_child key n xs i =
     (let j1 = 2 * i + 1 in if j1 + 1 < n \<and> key (xs ! (j1 + 1)) < key (xs ! j1) then j1 + 1 else j1)"

lemma smaller_child_less: "i < smaller_child key n xs i" "\<not> n \<le> 2 * i + 1 \<Longrightarrow> smaller_child key n xs i < n"
  by (auto simp: smaller_child_def Let_def)

function down :: "('a \<Rightarrow> 'k::linorder) \<Rightarrow> nat \<Rightarrow> 'a list \<Rightarrow> nat \<Rightarrow> 'a list" where
  "down key n xs i =
     (if n \<le> 2 * i + 1 then xs
      else
        let j = smaller_child key n xs i in
        if \<not> key (xs ! j) < key (xs ! i) then xs
        else down key n (swap i j xs) j)"
  by pat_completeness auto
termination
  by (relation "measure (\<lambda>(key, n, xs, i). n - i)") (auto simp: smaller_child_less intro!: diff_less_mono2)

declare down.simps [simp del]

function up :: "('a \<Rightarrow> 'k::linorder) \<Rightarrow> 'a list \<Rightarrow> nat \<Rightarrow> 'a list" where
  "up key xs j =
     (let i = (j - 1) div 2 in
      if i = j \<or> \<not> key (xs ! j) < key (xs ! i) then xs
      else up key (swap i j xs) i)"
  by pat_completeness auto
termination
  by (relation "measure (\<lambda>(key, xs, j). j)") (auto simp: Let_def)

declare up.simps [simp del]

definition Init :: "('a \<Rightarrow> 'k::linorder) \<Rightarrow> 'a list \<Rightarrow> 'a list" where
  "Init key xs = fold (\<lambda>i ys. down key (length xs) ys i) (rev [0..<length xs div 2]) xs"

definition Push :: "('a \<Rightarrow> 'k::linorder) \<Rightarrow> 'a \<Rightarrow> 'a list \<Rightarrow> 'a list" where
  "Push key x xs = up key (xs @ [x]) (length xs)"

text \<open>\<open>Pop\<close> swaps the root with the last element, restores the order of the others and cuts the last one off.\<close>

definition Pop :: "('a \<Rightarrow> 'k::linorder) \<Rightarrow> 'a list \<Rightarrow> 'a \<times> 'a list" where
  "Pop key xs =
     (let n = length xs - 1; ys = down key n (swap 0 n xs) 0
      in (last ys, butlast ys))"

subsection \<open>The heap order\<close>

definition parent :: "nat \<Rightarrow> nat" where
  "parent j = (j - 1) div 2"

lemma parent_iff: "0 < j \<Longrightarrow> parent j = i \<longleftrightarrow> j = 2 * i + 1 \<or> j = 2 * i + 2"
  by (auto simp: parent_def)

lemma parent_less: "0 < j \<Longrightarrow> parent j < j"
  by (auto simp: parent_def)

text \<open>Every element up to \<open>n\<close> whose parent is at or after \<open>lo\<close> has a key at least that of its parent.\<close>

definition heap_from :: "('a \<Rightarrow> 'k::linorder) \<Rightarrow> nat \<Rightarrow> nat \<Rightarrow> 'a list \<Rightarrow> bool" where
  "heap_from key lo n xs \<longleftrightarrow> (\<forall>j. 0 < j \<longrightarrow> j < n \<longrightarrow> lo \<le> parent j \<longrightarrow> key (xs ! parent j) \<le> key (xs ! j))"

lemma length_swap [simp]: "length (swap i j xs) = length xs"
  by (simp add: swap_def)

lemma nth_swap: "i < length xs \<Longrightarrow> j < length xs \<Longrightarrow> swap i j xs ! k = (if k = j then xs ! i else if k = i then xs ! j else xs ! k)"
  by (simp add: swap_def nth_list_update)

lemma mset_swap: "i < length xs \<Longrightarrow> j < length xs \<Longrightarrow> mset (swap i j xs) = mset xs"
  unfolding swap_def by (rule mset_swap)

lemma down_elements:
  "n \<le> length xs \<Longrightarrow> length (down key n xs i) = length xs \<and> mset (down key n xs i) = mset xs \<and> (\<forall>k \<ge> n. down key n xs i ! k = xs ! k)"
proof (induction key n xs i rule: down.induct)
  case (1 key n xs i)
  define j where "j = smaller_child key n xs i"
  show ?case
  proof (cases "n \<le> 2 * i + 1 \<or> \<not> key (xs ! j) < key (xs ! i)")
    case True
    then have "down key n xs i = xs" unfolding down.simps [of key n xs i] by (auto simp: j_def Let_def)
    then show ?thesis by simp
  next
    case False
    then have j: "i < j" "j < n" by (simp_all add: j_def smaller_child_less)
    have "down key n xs i = down key n (swap i j xs) j"
      unfolding down.simps [of key n xs i] using False by (simp add: j_def Let_def)
    with 1(1) [OF _ j_def] False j 1(2) show ?thesis by (simp add: mset_swap nth_swap)
  qed
qed

lemma down_heap:
  assumes "n \<le> length xs" "lo \<le> i"
    and "\<forall>c. 0 < c \<longrightarrow> c < n \<longrightarrow> lo \<le> parent c \<longrightarrow> parent c \<noteq> i \<longrightarrow> key (xs ! parent c) \<le> key (xs ! c)"
    and "\<forall>c. 0 < c \<longrightarrow> c < n \<longrightarrow> parent c = i \<longrightarrow> 0 < i \<longrightarrow> lo \<le> parent i \<longrightarrow> key (xs ! parent i) \<le> key (xs ! c)"
  shows "heap_from key lo n (down key n xs i)"
  using assms
proof (induction key n xs i rule: down.induct)
  case (1 key n xs i)
  define j where "j = smaller_child key n xs i"
  show ?case
  proof (cases "n \<le> 2 * i + 1 \<or> \<not> key (xs ! j) < key (xs ! i)")
    case True
    have "key (xs ! parent c) \<le> key (xs ! c)" if "0 < c" "c < n" "parent c = i" for c
    proof -
      have c: "c = 2 * i + 1 \<or> c = 2 * i + 2" using that parent_iff by blast
      then have "\<not> n \<le> 2 * i + 1" using that by auto
      with True have "key (xs ! i) \<le> key (xs ! j)" by auto
      also have "\<dots> \<le> key (xs ! c)" using c that(2) by (auto simp: j_def smaller_child_def Let_def)
      finally show ?thesis using that by simp
    qed
    moreover have "down key n xs i = xs" unfolding down.simps [of key n xs i] using True by (auto simp: j_def Let_def)
    ultimately show ?thesis using 1(4) by (auto simp: heap_from_def)
  next
    case False
    then have j: "i < j" "j < n" "0 < j" "parent j = i" and less: "key (xs ! j) < key (xs ! i)"
      using smaller_child_less [where i = i and key = key and n = n and xs = xs] by (auto simp: j_def smaller_child_def Let_def parent_def)
    have min: "key (xs ! j) \<le> key (xs ! c)" if "0 < c" "c < n" "parent c = i" for c
      using that parent_iff [of c i] by (auto simp: j_def smaller_child_def Let_def)
    let ?ys = "swap i j xs"
    have nth: "?ys ! k = (if k = j then xs ! i else if k = i then xs ! j else xs ! k)" for k using j 1(2) by (intro nth_swap) auto
    have A: "key (?ys ! parent c) \<le> key (?ys ! c)" if c: "0 < c" "c < n" "lo \<le> parent c" "parent c \<noteq> j" for c
    proof -
      consider "c = j" | "c = i" | "c \<noteq> j" "c \<noteq> i" "parent c = i" | "c \<noteq> j" "c \<noteq> i" "parent c \<noteq> i" by blast
      then show ?thesis
      proof cases
        case 1 then show ?thesis using j less by (simp add: nth)
      next
        case 2
        then have "parent i \<noteq> j" "parent i \<noteq> i" using c parent_less [of i] j(1) by auto
        with 2 c 1(5) j show ?thesis by (simp add: nth)
      next
        case 3 then show ?thesis using c min j(1) by (simp add: nth)
      next
        case 4 then show ?thesis using c 1(4) by (simp add: nth)
      qed
    qed
    have B: "key (?ys ! parent j) \<le> key (?ys ! c)" if c: "0 < c" "c < n" "parent c = j" for c
    proof -
      have "c \<noteq> i" "c \<noteq> j" using parent_less [OF c(1)] j c(3) by auto
      with c 1(4) [rule_format, of c] j 1(3) show ?thesis by (simp add: nth)
    qed
    have "down key n xs i = down key n ?ys j"
      unfolding down.simps [of key n xs i] using False by (simp add: j_def Let_def)
    with 1(1) [OF _ j_def] False j 1(2,3) A B show ?thesis by simp
  qed
qed

lemma Init_fold:
  "n = length xs \<Longrightarrow> k \<le> n \<Longrightarrow> heap_from key k n xs \<Longrightarrow>
   length (fold (\<lambda>i ys. down key n ys i) (rev [0..<k]) xs) = n \<and> mset (fold (\<lambda>i ys. down key n ys i) (rev [0..<k]) xs) = mset xs \<and>
   heap_from key 0 n (fold (\<lambda>i ys. down key n ys i) (rev [0..<k]) xs)"
proof (induction k arbitrary: xs)
  case (Suc k)
  have e: "length (down key n xs k) = n" "mset (down key n xs k) = mset xs" using down_elements [of n xs key k] Suc.prems(1) by simp_all
  have "heap_from key k n (down key n xs k)"
  proof (rule down_heap)
    show "\<forall>c. 0 < c \<longrightarrow> c < n \<longrightarrow> k \<le> parent c \<longrightarrow> parent c \<noteq> k \<longrightarrow> key (xs ! parent c) \<le> key (xs ! c)"
      using Suc.prems(3) by (simp add: heap_from_def)
    show "\<forall>c. 0 < c \<longrightarrow> c < n \<longrightarrow> parent c = k \<longrightarrow> 0 < k \<longrightarrow> k \<le> parent k \<longrightarrow> key (xs ! parent k) \<le> key (xs ! c)"
      using parent_less [of k] by auto
  qed (simp_all add: Suc.prems(1))
  with Suc.IH [of "down key n xs k"] e Suc.prems show ?case by simp
qed simp

lemma Init_heap: "heap_from key 0 (length (Init key xs)) (Init key xs)" "mset (Init key xs) = mset xs"
proof -
  have "heap_from key (length xs div 2) (length xs) xs" by (auto simp: heap_from_def parent_def)
  from Init_fold [OF refl _ this] show "heap_from key 0 (length (Init key xs)) (Init key xs)" "mset (Init key xs) = mset xs"
    by (simp_all add: Init_def)
qed

lemma up_heap:
  assumes "j < length xs"
    and "\<forall>c. 0 < c \<longrightarrow> c < length xs \<longrightarrow> c \<noteq> j \<longrightarrow> key (xs ! parent c) \<le> key (xs ! c)"
    and "\<forall>c. 0 < c \<longrightarrow> c < length xs \<longrightarrow> parent c = j \<longrightarrow> 0 < j \<longrightarrow> key (xs ! parent j) \<le> key (xs ! c)"
  shows "heap_from key 0 (length xs) (up key xs j) \<and> mset (up key xs j) = mset xs"
  using assms
proof (induction key xs j rule: up.induct)
  case (1 key xs j)
  let ?i = "parent j" and ?ys = "swap (parent j) j xs"
  show ?case
  proof (cases "?i = j \<or> \<not> key (xs ! j) < key (xs ! ?i)")
    case True
    then have "up key xs j = xs" unfolding up.simps [of key xs j] by (simp add: Let_def parent_def)
    moreover have "key (xs ! parent j) \<le> key (xs ! j)" using True by auto
    ultimately show ?thesis using 1(3) by (auto simp: heap_from_def)
  next
    case False
    then have less: "key (xs ! j) < key (xs ! ?i)" and j: "0 < j" "?i < j" using parent_less [of j] by (auto simp: parent_def)
    have nth: "?ys ! k = (if k = j then xs ! ?i else if k = ?i then xs ! j else xs ! k)" for k using j 1(2) by (intro nth_swap) auto
    have par: "parent c \<noteq> c" "parent c < c" if "0 < c" for c using parent_less [OF that] by auto
    have A: "key (?ys ! parent c) \<le> key (?ys ! c)" if c: "0 < c" "c < length xs" "c \<noteq> ?i" for c
    proof -
      consider "c = j" | "c \<noteq> j" "parent c = j" | "c \<noteq> j" "parent c = ?i" | "c \<noteq> j" "parent c \<noteq> j" "parent c \<noteq> ?i" by blast
      then show ?thesis
      proof cases
        case 1 then show ?thesis using less by (auto simp: nth)
      next
        case 2 then show ?thesis using c 1(4) j by (simp add: nth)
      next
        case 3
        with c 1(3) have "key (xs ! ?i) \<le> key (xs ! c)" by metis
        with 3 c less j show ?thesis by (simp add: nth)
      next
        case 4 then show ?thesis using c 1(3) by (simp add: nth)
      qed
    qed
    have B: "key (?ys ! parent ?i) \<le> key (?ys ! c)" if c: "0 < c" "c < length xs" "parent c = ?i" "0 < ?i" for c
    proof -
      have i: "key (xs ! parent ?i) \<le> key (xs ! ?i)" using 1(2,3) c(4) j by simp
      have "key (xs ! ?i) \<le> key (xs ! c)" if "c \<noteq> j" using 1(3) c that by metis
      with i c par(2) [OF c(4)] j show ?thesis using par(1) [OF c(1)] by (auto simp: nth)
    qed
    have "up key xs j = up key ?ys ?i" unfolding up.simps [of key xs j] using False by (simp add: Let_def parent_def)
    moreover have "heap_from key 0 (length ?ys) (up key ?ys ?i) \<and> mset (up key ?ys ?i) = mset ?ys"
      using False 1(2) j A B by (intro 1(1) [unfolded parent_def [symmetric]]) auto
    ultimately show ?thesis using j 1(2) by (simp add: mset_swap)
  qed
qed

lemma Push_heap:
  assumes "heap_from key 0 (length xs) xs"
  shows "heap_from key 0 (length (Push key x xs)) (Push key x xs)" "mset (Push key x xs) = add_mset x (mset xs)"
proof -
  have c: "parent c < length xs" if "0 < c" "c < length (xs @ [x])" for c using parent_less [OF that(1)] that(2) by simp
  have "heap_from key 0 (length (xs @ [x])) (up key (xs @ [x]) (length xs)) \<and> mset (up key (xs @ [x]) (length xs)) = mset (xs @ [x])"
    using assms c parent_less by (intro up_heap) (auto simp: heap_from_def nth_append dest: parent_less)
  moreover from this have "length (Push key x xs) = length (xs @ [x])" unfolding Push_def by (metis mset_eq_length)
  ultimately show "heap_from key 0 (length (Push key x xs)) (Push key x xs)" "mset (Push key x xs) = add_mset x (mset xs)"
    by (simp_all add: Push_def)
qed

lemma heap_root: "heap_from key 0 n xs \<Longrightarrow> j < n \<Longrightarrow> key (xs ! 0) \<le> key (xs ! j)"
proof (induction j rule: less_induct)
  case (less j)
  show ?case
  proof (cases "j = 0")
    case False
    with less parent_less [of j] have "key (xs ! 0) \<le> key (xs ! parent j)" by simp
    also have "\<dots> \<le> key (xs ! j)" using less.prems False by (simp add: heap_from_def)
    finally show ?thesis .
  qed simp
qed

lemma Pop_heap:
  assumes "heap_from key 0 (length xs) xs" "xs \<noteq> []" "Pop key xs = (x, rest)"
  shows "heap_from key 0 (length rest) rest" "mset xs = add_mset x (mset rest)" "\<forall>y \<in> set xs. key x \<le> key y"
proof -
  define n where "n = length xs - 1"
  have n: "n < length xs" "Suc n = length xs" using assms(2) by (auto simp: n_def)
  let ?zs = "swap 0 n xs" and ?ys = "down key n (swap 0 n xs) 0"
  have nth: "?zs ! k = (if k = n then xs ! 0 else if k = 0 then xs ! n else xs ! k)" for k using n by (intro nth_swap) auto
  have ys: "length ?ys = length xs" "mset ?ys = mset xs" "?ys ! n = xs ! 0"
    using down_elements [of n ?zs key 0] n mset_swap [of 0 xs n] assms(2) by (simp_all add: nth)
  have "heap_from key 0 n ?ys"
  proof (rule down_heap)
    show "\<forall>c. 0 < c \<longrightarrow> c < n \<longrightarrow> 0 \<le> parent c \<longrightarrow> parent c \<noteq> 0 \<longrightarrow> key (?zs ! parent c) \<le> key (?zs ! c)"
    proof (intro allI impI)
      fix c assume c: "0 < c" "c < n" "parent c \<noteq> 0"
      with parent_less [of c] have "?zs ! parent c = xs ! parent c" "?zs ! c = xs ! c" by (simp_all add: nth)
      with c n(1) assms(1) show "key (?zs ! parent c) \<le> key (?zs ! c)" by (simp add: heap_from_def)
    qed
  qed (use n in auto)
  moreover have r: "x = last ?ys" "rest = butlast ?ys" using assms(3) by (simp_all add: Pop_def n_def Let_def)
  moreover have ne: "?ys \<noteq> []" using ys(1) n by auto
  moreover have "rest ! c = ?ys ! c" if "c < n" for c using that ys(1) n by (simp add: r(2) nth_butlast)
  moreover have "length rest = n" using ys(1) n by (simp add: r(2))
  ultimately show "heap_from key 0 (length rest) rest"
    using parent_less by (simp add: heap_from_def) (metis less_trans)
  have x: "x = xs ! 0" using r(1) ne ys(1,3) by (simp add: last_conv_nth n_def)
  have "mset ?ys = add_mset x (mset rest)" using ne r by (metis append_butlast_last_id mset.simps(1) mset.simps(2) mset_append union_mset_add_mset_right add.right_neutral)
  with ys(2) show "mset xs = add_mset x (mset rest)" by simp
  show "\<forall>y \<in> set xs. key x \<le> key y" using heap_root [OF assms(1)] by (auto simp: in_set_conv_nth x)
qed

subsection \<open>Heaps as queues\<close>

text \<open>No element is lost or made up, whether the list is a heap or not.\<close>

lemma up_mset: "j < length xs \<Longrightarrow> mset (up key xs j) = mset xs"
proof (induction key xs j rule: up.induct)
  case (1 key xs j)
  have "(j - 1) div 2 < length xs" using 1(2) by linarith
  with 1(1) [OF refl] 1(2) show ?case
    unfolding up.simps [of key xs j] by (auto simp: Let_def mset_swap)
qed

lemma Push_mset: "mset (Push key x xs) = add_mset x (mset xs)"
  by (simp add: Push_def up_mset)

lemma Pop_mset:
  assumes "xs \<noteq> []" "Pop key xs = (x, rest)"
  shows "mset xs = add_mset x (mset rest)"
proof -
  let ?ys = "down key (length xs - 1) (swap 0 (length xs - 1) xs) 0"
  have "mset ?ys = mset xs" using assms(1) down_elements [of "length xs - 1" "swap 0 (length xs - 1) xs" key 0] mset_swap [of 0 xs "length xs - 1"] by simp
  moreover from this have "?ys \<noteq> []" using assms(1) by auto
  then have "mset ?ys = add_mset (last ?ys) (mset (butlast ?ys))"
    by (metis append_butlast_last_id mset.simps(1) mset.simps(2) mset_append union_mset_add_mset_right add.right_neutral)
  ultimately show ?thesis using assms(2) by (auto simp: Pop_def Let_def)
qed

text \<open>What a client of the heap relies on: a bag of elements of which \<open>pop\<close> gives one with the least key.\<close>

locale min_queue =
  fixes key :: "'a \<Rightarrow> 'k::linorder" and ok :: "'a list \<Rightarrow> bool"
    and init :: "'a list \<Rightarrow> 'a list" and push :: "'a \<Rightarrow> 'a list \<Rightarrow> 'a list" and pop :: "'a list \<Rightarrow> 'a \<times> 'a list"
  assumes init: "ok (init xs)" "mset (init xs) = mset xs"
    and push: "ok q \<Longrightarrow> ok (push x q)" "ok q \<Longrightarrow> mset (push x q) = add_mset x (mset q)"
    and pop: "ok q \<Longrightarrow> q \<noteq> [] \<Longrightarrow> pop q = (x, q') \<Longrightarrow> ok q'" "ok q \<Longrightarrow> q \<noteq> [] \<Longrightarrow> pop q = (x, q') \<Longrightarrow> mset q = add_mset x (mset q')"
      "ok q \<Longrightarrow> q \<noteq> [] \<Longrightarrow> pop q = (x, q') \<Longrightarrow> y \<in> set q \<Longrightarrow> key x \<le> key y"
begin

lemma pop_subset: "ok q \<Longrightarrow> q \<noteq> [] \<Longrightarrow> pop q = (x, q') \<Longrightarrow> set q = insert x (set q')"
  using pop(2) by (metis set_mset_add_mset_insert set_mset_mset)

lemma set_push: "ok q \<Longrightarrow> set (push x q) = insert x (set q)"
  using push(2) by (metis set_mset_add_mset_insert set_mset_mset)

text \<open>
  When every element stands for an ascending list that starts with its key, the least key of the queue starts the
  sorted union of the lists.
\<close>

lemma pop_head:
  assumes "ok q" "q \<noteq> []" "pop q = (x, q')" and "\<forall>y \<in> set q. rest y \<noteq> [] \<and> hd (rest y) = key y \<and> sorted (rest y)"
  shows "sorted_list_of_multiset (\<Sum>y \<in># mset q. mset (rest y)) =
    key x # sorted_list_of_multiset (mset (tl (rest x)) + (\<Sum>y \<in># mset q'. mset (rest y)))"
proof -
  let ?M = "mset (tl (rest x)) + (\<Sum>y \<in># mset q'. mset (rest y))"
  have x: "x \<in> set q" using pop_subset [OF assms(1-3)] by simp
  then have "mset (rest x) = add_mset (key x) (mset (tl (rest x)))" using assms(4) by (metis list.collapse mset.simps(2))
  then have sum: "(\<Sum>y \<in># mset q. mset (rest y)) = add_mset (key x) ?M" using pop(2) [OF assms(1-3)] by simp
  have "key x \<le> v" if "v \<in># ?M" for v
  proof -
    have "v \<in># (\<Sum>y \<in># mset q. mset (rest y))" using that sum by simp
    then obtain y where y: "y \<in> set q" "v \<in> set (rest y)" by auto
    then have "rest y = key y # tl (rest y)" "sorted (rest y)" using assms(4) by (metis list.collapse)+
    then have "key y \<le> v" using y(2) by (metis set_ConsD sorted_simps(2) order_refl)
    with pop(3) [OF assms(1-3) y(1)] show ?thesis by simp
  qed
  then have "insort (key x) (sorted_list_of_multiset ?M) = key x # sorted_list_of_multiset ?M"
    by (intro insort_is_Cons ballI) (simp only: set_sorted_list_of_multiset)
  then show ?thesis by (simp add: sum)
qed

end

interpretation goheap: min_queue key "\<lambda>xs. heap_from key 0 (length xs) xs" "Init key" "Push key" "Pop key" for key :: "'a \<Rightarrow> 'k::linorder"
  by unfold_locales ((rule Init_heap Push_heap Pop_heap, assumption+) | (rule Init_heap) | (rule Pop_heap(3) [rule_format], assumption+))+

end
