(* ===== verification/SortedVisits.thy ===== *)
theory SortedVisits
  imports GraphState GoSort
begin

text \<open>
  Visiting sorted lists of entity IDs (\<open>read_ids.go\<close>): callbacks with the state of their closure, the
  merges of posting lists over a heap of cursors, and that each visits the sorted union of its lists.
\<close>

section \<open>Visiting lists\<close>

text \<open>
  A callback of the read functions, with the state its closure keeps: it says whether to go on, or fails. The loop
  \<open>for _, x := range xs\<close> around it ends at the first failure or refusal.
\<close>

fun visit_each :: "('s \<Rightarrow> 'a \<Rightarrow> 's \<times> ('e + bool)) \<Rightarrow> 'a list \<Rightarrow> 's \<Rightarrow> 's \<times> 'e option" where
  "visit_each visit [] s = (s, None)"
| "visit_each visit (x # xs) s =
     (case visit s x of
        (s', Inl e) \<Rightarrow> (s', Some e)
      | (s', Inr keepGoing) \<Rightarrow> if keepGoing then visit_each visit xs s' else (s', None))"

section \<open>Merging sorted ID lists\<close>

record fieldIndexIDCursor =
  cur_ids :: "string list"
  cur_offset :: nat

definition cursor_key :: "fieldIndexIDCursor \<Rightarrow> string" where
  "cursor_key cursor = cur_ids cursor ! cur_offset cursor"

text \<open>A popped cursor moves on and is pushed back, unless it is at its end.\<close>

definition advance :: "fieldIndexIDCursor \<Rightarrow> fieldIndexIDCursor list \<Rightarrow> fieldIndexIDCursor list" where
  "advance cursor queue =
     (let cursor' = cursor\<lparr>cur_offset := cur_offset cursor + 1\<rparr>
      in if cur_offset cursor' < length (cur_ids cursor') then Push cursor_key cursor' queue else queue)"

definition queue_size :: "fieldIndexIDCursor list \<Rightarrow> nat" where
  "queue_size queue = (\<Sum>c \<in># mset queue. Suc (length (cur_ids c) - cur_offset c))"

lemma advance_smaller: "queue \<noteq> [] \<Longrightarrow> Pop cursor_key queue = (cursor, queue1) \<Longrightarrow> queue_size (advance cursor queue1) < queue_size queue"
  using Pop_mset [of queue cursor_key cursor queue1] by (simp add: queue_size_def advance_def Push_mset Let_def) arith

function visitSorted_loop ::
  "('s \<Rightarrow> string \<Rightarrow> 's \<times> ('e + bool)) \<Rightarrow> fieldIndexIDCursor list \<Rightarrow> string \<Rightarrow> 's \<Rightarrow> 's \<times> 'e option" where
  "visitSorted_loop visit queue last' s =
     (if queue = [] then (s, None)
      else
        case Pop cursor_key queue of (cursor, queue1) \<Rightarrow>
          if cursor_key cursor = last' then visitSorted_loop visit (advance cursor queue1) last' s
          else
            (case visit s (cursor_key cursor) of
               (s', Inl e) \<Rightarrow> (s', Some e)
             | (s', Inr keepGoing) \<Rightarrow>
                 if keepGoing then visitSorted_loop visit (advance cursor queue1) (cursor_key cursor) s' else (s', None)))"
  by pat_completeness auto
termination
  by (relation "measure (\<lambda>(visit, queue, last', s). queue_size queue)") (auto intro: advance_smaller)

declare visitSorted_loop.simps [simp del]

definition seek :: "string \<Rightarrow> string list \<Rightarrow> fieldIndexIDCursor list" where
  "seek startID ids =
     (let offset = SearchStrings ids startID
      in if offset < length ids then [\<lparr>cur_ids = ids, cur_offset = offset\<rparr>] else [])"

definition VisitSortedIDs ::
  "string list list \<Rightarrow> string \<Rightarrow> ('s \<Rightarrow> string \<Rightarrow> 's \<times> ('e + bool)) option \<Rightarrow> 's \<Rightarrow> 's \<times> 'e option" where
  "VisitSortedIDs buckets startID visit s =
     (case visit of
        None \<Rightarrow> (s, None)
      | Some visit' \<Rightarrow> visitSorted_loop visit' (Init cursor_key (concat (map (seek startID) buckets))) [] s)"

text \<open>The loops of \<open>VisitFieldIndexIDs\<close>, whose callback only fails, count the visits.\<close>

fun visit_count :: "('s \<Rightarrow> string \<Rightarrow> 's \<times> 'e option) \<Rightarrow> string list \<Rightarrow> int \<Rightarrow> 's \<Rightarrow> 's \<times> int \<times> 'e option" where
  "visit_count visit [] visited s = (s, visited, None)"
| "visit_count visit (x # xs) visited s =
     (case visit s x of
        (s', Some e) \<Rightarrow> (s', visited + 1, Some e)
      | (s', None) \<Rightarrow> visit_count visit xs (visited + 1) s')"

function visit_two ::
  "('s \<Rightarrow> string \<Rightarrow> 's \<times> 'e option) \<Rightarrow> string list \<Rightarrow> string list \<Rightarrow> nat \<Rightarrow> nat \<Rightarrow> int \<Rightarrow> 's \<Rightarrow> 's \<times> int \<times> 'e option" where
  "visit_two visit a b left right visited s =
     (if left < length a \<or> right < length b then
        let fromLeft = (right \<ge> length b \<or> left < length a \<and> a ! left < b ! right);
            id' = (if fromLeft then a ! left else b ! right);
            left' = (if fromLeft then left + 1 else left);
            right' = (if fromLeft then right else right + 1) in
        case visit s id' of
          (s', Some e) \<Rightarrow> (s', visited + 1, Some e)
        | (s', None) \<Rightarrow> visit_two visit a b left' right' (visited + 1) s'
      else (s, visited, None))"
  by pat_completeness auto
termination
  by (relation "measure (\<lambda>(visit, a, b, left, right, visited, s). (length a - left) + (length b - right))") auto

declare visit_two.simps [simp del]

function visitField_loop ::
  "('s \<Rightarrow> string \<Rightarrow> 's \<times> 'e option) \<Rightarrow> fieldIndexIDCursor list \<Rightarrow> int \<Rightarrow> 's \<Rightarrow> 's \<times> int \<times> 'e option" where
  "visitField_loop visit queue visited s =
     (if queue = [] then (s, visited, None)
      else
        case Pop cursor_key queue of (cursor, queue1) \<Rightarrow>
          (case visit s (cursor_key cursor) of
             (s', Some e) \<Rightarrow> (s', visited + 1, Some e)
           | (s', None) \<Rightarrow> visitField_loop visit (advance cursor queue1) (visited + 1) s'))"
  by pat_completeness auto
termination
  by (relation "measure (\<lambda>(visit, queue, visited, s). queue_size queue)") (auto intro: advance_smaller)

declare visitField_loop.simps [simp del]

definition visitBuckets ::
  "string list list \<Rightarrow> ('s \<Rightarrow> string \<Rightarrow> 's \<times> 'e option) \<Rightarrow> 's \<Rightarrow> 's \<times> int \<times> 'e option" where
  "visitBuckets buckets visit s =
     (case buckets of
        [] \<Rightarrow> (s, 0, None)
      | [ids] \<Rightarrow> visit_count visit ids 0 s
      | [a, b] \<Rightarrow> visit_two visit a b 0 0 0 s
      | _ \<Rightarrow> visitField_loop visit (Init cursor_key (map (\<lambda>ids. \<lparr>cur_ids = ids, cur_offset = 0\<rparr>) buckets)) 0 s)"

section \<open>The merges visit the sorted union\<close>

definition cursor_rest :: "fieldIndexIDCursor \<Rightarrow> string list" where
  "cursor_rest c = drop (cur_offset c) (cur_ids c)"

definition cursor_ok :: "fieldIndexIDCursor \<Rightarrow> bool" where
  "cursor_ok c \<longleftrightarrow> cur_offset c < length (cur_ids c) \<and> sorted (cur_ids c)"

definition queue_ids :: "fieldIndexIDCursor list \<Rightarrow> string list" where
  "queue_ids queue = sorted_list_of_multiset (\<Sum>c \<in># mset queue. mset (cursor_rest c))"

abbreviation cursor_heap :: "fieldIndexIDCursor list \<Rightarrow> bool" where
  "cursor_heap queue \<equiv> heap_from cursor_key 0 (length queue) queue"

lemma cursor_ok_rest: "cursor_ok c \<Longrightarrow> cursor_rest c \<noteq> [] \<and> hd (cursor_rest c) = cursor_key c \<and> sorted (cursor_rest c)"
  by (simp add: cursor_ok_def cursor_rest_def cursor_key_def hd_drop_conv_nth sorted_wrt_drop)

lemma pop_advance:
  assumes "cursor_heap queue" "queue \<noteq> []" "Pop cursor_key queue = (c, queue1)" "\<forall>c \<in> set queue. cursor_ok c"
  shows "cursor_heap (advance c queue1)" "\<forall>c \<in> set (advance c queue1). cursor_ok c"
    "queue_ids queue = cursor_key c # queue_ids (advance c queue1)"
proof -
  let ?c = "c\<lparr>cur_offset := cur_offset c + 1\<rparr>"
  have q1: "cursor_heap queue1" by (rule goheap.pop(1) [OF assms(1-3)])
  have s: "set queue = insert c (set queue1)" by (rule goheap.pop_subset [OF assms(1-3)])
  then have c: "cursor_ok c" using assms(4) by simp
  have ok: "cursor_ok ?c" if "cur_offset ?c < length (cur_ids ?c)" using c that by (simp add: cursor_ok_def)
  show "cursor_heap (advance c queue1)" using q1 goheap.push(1) [OF q1, of ?c] by (simp add: advance_def)
  show "\<forall>c \<in> set (advance c queue1). cursor_ok c"
    using s assms(4) ok goheap.set_push [OF q1, of ?c] by (auto simp: advance_def Let_def)
  have "queue_ids (advance c queue1) = sorted_list_of_multiset (mset (tl (cursor_rest c)) + (\<Sum>y \<in># mset queue1. mset (cursor_rest y)))"
  proof (cases "cur_offset ?c < length (cur_ids ?c)")
    case True
    then show ?thesis using goheap.push(2) [OF q1, of ?c] by (simp add: advance_def queue_ids_def cursor_rest_def drop_Suc tl_drop)
  next
    case False
    then have "drop (Suc (cur_offset c)) (cur_ids c) = []" by simp
    then have "tl (cursor_rest c) = []" by (simp add: cursor_rest_def tl_drop drop_Suc)
    with False show ?thesis by (simp add: advance_def queue_ids_def)
  qed
  with goheap.pop_head [OF assms(1-3), of cursor_rest] assms(4) cursor_ok_rest show "queue_ids queue = cursor_key c # queue_ids (advance c queue1)"
    by (simp add: queue_ids_def)
qed

text \<open>A visit that skips repetitions of the ID before.\<close>

fun visit_changes :: "('s \<Rightarrow> string \<Rightarrow> 's \<times> ('e + bool)) \<Rightarrow> string list \<Rightarrow> string \<Rightarrow> 's \<Rightarrow> 's \<times> 'e option" where
  "visit_changes visit [] last' s = (s, None)"
| "visit_changes visit (x # xs) last' s =
     (if x = last' then visit_changes visit xs last' s
      else
        (case visit s x of
           (s', Inl e) \<Rightarrow> (s', Some e)
         | (s', Inr keepGoing) \<Rightarrow> if keepGoing then visit_changes visit xs x s' else (s', None)))"

lemma queue_ids_empty [simp]: "queue_ids [] = []"
  by (simp add: queue_ids_def)

lemma visitSorted_loop_spec:
  "cursor_heap queue \<Longrightarrow> \<forall>c \<in> set queue. cursor_ok c \<Longrightarrow> visitSorted_loop visit queue last' s = visit_changes visit (queue_ids queue) last' s"
proof (induction visit queue last' s rule: visitSorted_loop.induct)
  case (1 visit queue last' s)
  show ?case
  proof (cases "queue = []")
    case True
    then show ?thesis by (simp add: visitSorted_loop.simps)
  next
    case False
    obtain c queue1 where p: "Pop cursor_key queue = (c, queue1)" by (rule prod.exhaust)
    note adv = pop_advance [OF 1(3) False p 1(4)]
    show ?thesis
      unfolding visitSorted_loop.simps [of visit queue last' s] adv(3)
      using 1(1) [OF False p [symmetric] _ adv(1,2)] 1(2) [OF False p [symmetric] _ _ _ _ adv(1,2)] False p
      by (auto split: sum.splits prod.splits)
  qed
qed

lemma visitField_loop_spec:
  "cursor_heap queue \<Longrightarrow> \<forall>c \<in> set queue. cursor_ok c \<Longrightarrow> visitField_loop visit queue visited s = visit_count visit (queue_ids queue) visited s"
proof (induction visit queue visited s rule: visitField_loop.induct)
  case (1 visit queue visited s)
  show ?case
  proof (cases "queue = []")
    case True
    then show ?thesis by (simp add: visitField_loop.simps)
  next
    case False
    obtain c queue1 where p: "Pop cursor_key queue = (c, queue1)" by (rule prod.exhaust)
    note adv = pop_advance [OF 1(2) False p 1(3)]
    show ?thesis
      unfolding visitField_loop.simps [of visit queue visited s] adv(3)
      using 1(1) [OF False p [symmetric] _ _ adv(1,2)] False p
      by (auto split: option.splits prod.splits)
  qed
qed

text \<open>On an ascending list, skipping repetitions is visiting the set in order.\<close>

lemma sortedKeys_insert_least: "finite A \<Longrightarrow> \<forall>y \<in> A. x \<le> y \<Longrightarrow> sortedKeys (insert x A) = x # sortedKeys (A - {x})"
  by (simp add: sortedKeys_def) (metis Diff_iff finite_Diff insort_is_Cons set_sorted_list_of_set sorted_list_of_set.sorted_key_list_of_set_insert_remove)

lemma visit_changes_sorted:
  "sorted xs \<Longrightarrow> \<forall>x \<in> set xs. last' \<le> x \<Longrightarrow> visit_changes visit xs last' s = visit_each visit (sortedKeys (set xs - {last'})) s"
proof (induction xs arbitrary: last' s)
  case (Cons x xs)
  show ?case
  proof (cases "x = last'")
    case True
    with Cons show ?thesis by simp
  next
    case False
    have "set (x # xs) - {last'} = insert x (set xs)" using False Cons.prems by (auto intro: antisym)
    then have k: "sortedKeys (set (x # xs) - {last'}) = x # sortedKeys (set xs - {x})"
      using Cons.prems by (simp add: sortedKeys_insert_least)
    show ?thesis unfolding k using False Cons.IH [of x] Cons.prems by (simp split: sum.split prod.split)
  qed
qed (simp add: sortedKeys_def)

lemma queue_ids_Init: "queue_ids (Init cursor_key queue) = sort (concat (map cursor_rest queue))"
proof -
  have "(\<Sum>c \<in># mset queue. mset (cursor_rest c)) = mset (concat (map cursor_rest queue))" by (induction queue) simp_all
  then show ?thesis by (simp add: queue_ids_def goheap.init sorted_list_of_multiset_mset)
qed

lemma Nil_least [simp]: "[] \<le> (x :: string)"
  by simp

lemma VisitSortedIDs_correct:
  assumes "\<forall>ids \<in> set buckets. sorted ids"
  shows "VisitSortedIDs buckets startID (Some visit) s =
    visit_each visit (sortedKeys {i. i \<noteq> [] \<and> startID \<le> i \<and> (\<exists>ids \<in> set buckets. i \<in> set ids)}) s"
proof -
  let ?queue = "concat (map (seek startID) buckets)"
  have rest: "concat (map cursor_rest (seek startID ids)) = filter (\<lambda>i. startID \<le> i) ids" if "sorted ids" for ids
    using SearchStrings_drop [OF that, of startID] by (auto simp: seek_def cursor_rest_def Let_def)
  have "\<forall>c \<in> set ?queue. cursor_ok c" using assms by (auto simp: seek_def cursor_ok_def Let_def split: if_splits)
  moreover have "set (Init cursor_key ?queue) = set ?queue" by (metis goheap.init(2) set_mset_mset)
  ultimately have "VisitSortedIDs buckets startID (Some visit) s = visit_changes visit (queue_ids (Init cursor_key ?queue)) [] s"
    by (simp add: VisitSortedIDs_def visitSorted_loop_spec goheap.init)
  also have "\<dots> = visit_each visit (sortedKeys (set (concat (map cursor_rest ?queue)) - {[]})) s"
    by (simp add: queue_ids_Init visit_changes_sorted)
  also have "set (concat (map cursor_rest ?queue)) - {[]} = {i. i \<noteq> [] \<and> startID \<le> i \<and> (\<exists>ids \<in> set buckets. i \<in> set ids)}"
    using assms by (induction buckets) (auto simp: rest [unfolded set_concat] simp flip: set_concat dest: rest [THEN arg_cong [of _ _ set]])
  finally show ?thesis .
qed

lemma sort_least:
  assumes "\<forall>y \<in> set xs. x \<le> y" "mset zs = add_mset x (mset xs)"
  shows "sort zs = (x :: string) # sort xs"
  using assms by (intro properties_for_sort) simp_all

lemma visit_two_spec:
  "sorted a \<Longrightarrow> sorted b \<Longrightarrow> visit_two visit a b left right visited s = visit_count visit (sort (drop left a @ drop right b)) visited s"
proof (induction visit a b left right visited s rule: visit_two.induct)
  case (1 visit a b left right visited s)
  have le: "x \<le> y" if "sorted xs" "i < length xs" "x = xs ! i" "y \<in> set (drop i xs)" for x y i and xs :: "string list"
    using that by (auto simp: in_set_conv_nth intro: sorted_nth_mono)
  have dr: "drop i xs = xs ! i # drop (i + 1) xs" if "i < length xs" for i and xs :: "string list"
    using that by (simp add: Cons_nth_drop_Suc)
  show ?case
  proof (cases "left < length a \<or> right < length b")
    case False
    then show ?thesis by (simp add: visit_two.simps [of visit a b left right visited s])
  next
    case True
    define fromLeft where "fromLeft = (right \<ge> length b \<or> left < length a \<and> a ! left < b ! right)"
    define x where "x = (if fromLeft then a ! left else b ! right)"
    define left' where "left' = (if fromLeft then left + 1 else left)"
    define right' where "right' = (if fromLeft then right else right + 1)"
    note IH = 1(1) [OF True fromLeft_def x_def left'_def right'_def _ _ 1(2,3)]
    have "mset (drop left a @ drop right b) = add_mset x (mset (drop left' a @ drop right' b))"
      using True dr [of left a] dr [of right b] by (auto simp: x_def left'_def right'_def fromLeft_def)
    moreover have "\<forall>y \<in> set (drop left' a @ drop right' b). x \<le> y"
    proof
      fix y assume y: "y \<in> set (drop left' a @ drop right' b)"
      then have ab: "y \<in> set (drop left a) \<or> y \<in> set (drop right b)"
        using set_drop_subset_set_drop [of left left' a] set_drop_subset_set_drop [of right right' b]
        by (cases fromLeft) (auto simp: left'_def right'_def)
      have a: "left < length a" if "y \<in> set (drop left a)" using that by (metis drop_all empty_iff list.set(1) not_le)
      have b: "right < length b" if "y \<in> set (drop right b)" using that by (metis drop_all empty_iff list.set(1) not_le)
      show "x \<le> y"
      proof (cases fromLeft)
        case True
        with \<open>left < length a \<or> right < length b\<close> have "left < length a" by (auto simp: fromLeft_def)
        with True ab a b le [OF 1(2), of left "a ! left" y] le [OF 1(3), of right "b ! right" y] show ?thesis
          by (auto simp: x_def fromLeft_def)
      next
        case False
        with \<open>left < length a \<or> right < length b\<close> have "right < length b" by (auto simp: fromLeft_def)
        with False ab a b le [OF 1(2), of left "a ! left" y] le [OF 1(3), of right "b ! right" y] show ?thesis
          by (auto simp: x_def fromLeft_def)
      qed
    qed
    ultimately have "sort (drop left a @ drop right b) = x # sort (drop left' a @ drop right' b)" by (intro sort_least)
    moreover have "visit_two visit a b left right visited s =
        (case visit s x of (s', Some e) \<Rightarrow> (s', visited + 1, Some e) | (s', None) \<Rightarrow> visit_two visit a b left' right' (visited + 1) s')"
      using True by (simp add: visit_two.simps [of visit a b left right visited s] Let_def x_def left'_def right'_def fromLeft_def)
    ultimately show ?thesis using IH by (simp split: prod.split option.split)
  qed
qed

lemma visitBuckets_correct:
  assumes "\<forall>ids \<in> set buckets. sorted ids \<and> ids \<noteq> []"
  shows "visitBuckets buckets visit s = visit_count visit (sort (concat buckets)) 0 s"
proof -
  let ?queue = "map (\<lambda>ids. \<lparr>cur_ids = ids, cur_offset = 0\<rparr>) buckets"
  have "\<forall>c \<in> set ?queue. cursor_ok c" using assms by (auto simp: cursor_ok_def)
  moreover have "set (Init cursor_key ?queue) = set ?queue" by (metis goheap.init(2) set_mset_mset)
  ultimately have "visitField_loop visit (Init cursor_key ?queue) 0 s = visit_count visit (queue_ids (Init cursor_key ?queue)) 0 s"
    by (intro visitField_loop_spec goheap.init) simp
  moreover have "map cursor_rest ?queue = buckets" by (simp add: cursor_rest_def comp_def)
  ultimately have loop: "visitField_loop visit (Init cursor_key ?queue) 0 s = visit_count visit (sort (concat buckets)) 0 s"
    by (simp add: queue_ids_Init)
  have "(case buckets of [] \<Rightarrow> (s, 0, None) | [ids] \<Rightarrow> visit_count visit ids 0 s | [a, b] \<Rightarrow> visit_two visit a b 0 0 0 s | _ \<Rightarrow> r)
      = visit_count visit (sort (concat buckets)) 0 s" if "r = visit_count visit (sort (concat buckets)) 0 s" for r
    using that assms by (auto simp: visit_two_spec sorted_sort_id split: list.splits)
  from this [OF loop] show ?thesis by (simp add: visitBuckets_def)
qed

end
