(* ===== verification/Reads.thy ===== *)
theory Reads
  imports CommitEntry SortedVisits
begin

text \<open>
  The read paths of a graph: matching entities and field values (\<open>read.go\<close>, \<open>read_ids.go\<close>), range scans
  (\<open>read_range.go\<close>), neighbours (\<open>read_neighbors_page.go\<close>, \<open>neighbor_count.go\<close>). A read may fill one of the
  ordered caches of the graph, so it returns the graph too. The model is of one reader at a time: the second
  lookup that a cold read makes under the lock finds what the first found.
\<close>

section \<open>Entities\<close>

definition fieldsMatch :: "Fields \<Rightarrow> Fields \<Rightarrow> bool" where
  "fieldsMatch flds filters \<longleftrightarrow>
     list_all (\<lambda>(key, expected). case mget flds key of None \<Rightarrow> False | Some actual \<Rightarrow> fieldValuesEqual actual expected) (entries filters)"

definition allEntities :: "Graph \<Rightarrow> Entity list" where
  "allEntities g = map snd (entries (g_Entities g))"

text \<open>
  The loop over the filters: \<open>None\<close> is its early \<open>return nil\<close>; otherwise the smallest bucket so far, if any
  filter has a scalar key.
\<close>

definition matchCandidates_step ::
  "Graph \<Rightarrow> string \<Rightarrow> string set option option \<Rightarrow> string \<times> any \<Rightarrow> string set option option" where
  "matchCandidates_step g kind st = (\<lambda>(field, value).
     case st of
       None \<Rightarrow> None
     | Some best \<Rightarrow>
         (case ScalarIndexKey value of
            None \<Rightarrow> Some best
          | Some key \<Rightarrow>
              let ids = bucket (fieldValues g kind field) key in
              if card ids = 0 then None
              else
                (case best of
                   None \<Rightarrow> Some (Some ids)
                 | Some best' \<Rightarrow> if card ids < card best' then Some (Some ids) else Some (Some best'))))"

definition matchCandidates :: "Graph \<Rightarrow> string \<Rightarrow> Fields \<Rightarrow> Entity list" where
  "matchCandidates g kind filters =
     (if kind = [] \<or> mempty filters then allEntities g
      else
        case foldl (matchCandidates_step g kind) (Some None) (entries filters) of
          None \<Rightarrow> []
        | Some None \<Rightarrow> allEntities g
        | Some (Some best) \<Rightarrow> List.map_filter (mget (g_Entities g)) (sortedKeys best))"

definition MatchEntities :: "Graph \<Rightarrow> string \<Rightarrow> Fields \<Rightarrow> Entity list" where
  "MatchEntities g kind filters =
     sort_key ent_ID
       (filter (\<lambda>entity. (kind = [] \<or> ent_Kind entity = kind) \<and> fieldsMatch (ent_Fields entity) filters)
          (matchCandidates g kind filters))"

definition KindCount :: "Graph \<Rightarrow> string \<Rightarrow> int" where
  "KindCount g kind = (if kind = [] then int (length (skeys (g_Entities g))) else mget_or 0 (g_kindCounts g) kind)"

text \<open>The third branch scans a graph that has entities and no indexes.\<close>

definition sortedEntityIDs :: "string \<Rightarrow> Graph \<Rightarrow> string list \<times> Graph" where
  "sortedEntityIDs kind g =
     (case mget (g_entityOrder g) kind of
        Some ids \<Rightarrow> (ids, g)
      | None \<Rightarrow>
          let ids =
            (if kind = [] then skeys (g_Entities g)
             else if mempty (g_kindEntityIDs g) \<and> \<not> mempty (g_Entities g)
             then map fst (filter (\<lambda>(id', entity). ent_Kind entity = kind) (entries (g_Entities g)))
             else sortedKeys (bucket (g_kindEntityIDs g) kind))
          in (ids, g\<lparr>g_entityOrder := fmupd kind ids (g_entityOrder g)\<rparr>))"

definition MatchEntityIDs :: "string \<Rightarrow> Graph \<Rightarrow> string list \<times> Graph" where
  "MatchEntityIDs kind g = sortedEntityIDs kind g"

definition HasEntityOrder :: "Graph \<Rightarrow> string \<Rightarrow> bool" where
  "HasEntityOrder g kind \<longleftrightarrow> mget (g_entityOrder g) kind \<noteq> None"

text \<open>IDs that are no longer stored are passed over.\<close>

definition visit_stored :: "Graph \<Rightarrow> ('s \<Rightarrow> Entity \<Rightarrow> 's \<times> ('e + bool)) \<Rightarrow> 's \<Rightarrow> string \<Rightarrow> 's \<times> ('e + bool)" where
  "visit_stored g visit s id' =
     (case mget (g_Entities g) id' of None \<Rightarrow> (s, Inr True) | Some entity \<Rightarrow> visit s entity)"

definition VisitEntitiesByID ::
  "string \<Rightarrow> string \<Rightarrow> ('s \<Rightarrow> Entity \<Rightarrow> 's \<times> ('e + bool)) option \<Rightarrow> Graph \<Rightarrow> 's \<Rightarrow> ('s \<times> 'e option) \<times> Graph" where
  "VisitEntitiesByID kind afterID visit g s =
     (case visit of
        None \<Rightarrow> ((s, None), g)
      | Some visit' \<Rightarrow>
          let (ids, g') = sortedEntityIDs kind g;
              rest = (if afterID \<noteq> [] then dropWhile (\<lambda>i. i \<le> afterID) (drop (SearchStrings ids afterID) ids) else ids)
          in (visit_each (visit_stored g' visit') rest s, g'))"

section \<open>Field indexes\<close>

definition minCachedFieldIndexOrder :: nat where
  "minCachedFieldIndexOrder = 32"

definition HasFieldIndex :: "Graph \<Rightarrow> string \<Rightarrow> string \<Rightarrow> bool" where
  "HasFieldIndex g kind field \<longleftrightarrow>
     kind \<noteq> [] \<and> field \<noteq> [] \<and> mget (mget_or fmempty (g_fieldIndex g) kind) field \<noteq> None"

definition distinctScalarKeys :: "any list \<Rightarrow> string list" where
  "distinctScalarKeys values =
     foldl (\<lambda>keys value. case ScalarIndexKey value of None \<Rightarrow> keys | Some key \<Rightarrow> if key \<in> set keys then keys else keys @ [key]) [] values"

definition FieldIndexCount :: "Graph \<Rightarrow> string \<Rightarrow> string \<Rightarrow> any list \<Rightarrow> int" where
  "FieldIndexCount g kind field values =
     (if kind = [] \<or> field = [] \<or> values = [] then 0
      else if length values = 1 then
        (case ScalarIndexKey (hd values) of None \<Rightarrow> 0 | Some key \<Rightarrow> int (card (bucket (fieldValues g kind field) key)))
      else foldl (\<lambda>count key. count + int (card (bucket (fieldValues g kind field) key))) 0 (distinctScalarKeys values))"

definition sortedFieldIDs :: "string set \<Rightarrow> string list" where
  "sortedFieldIDs values = sortedKeys values"

definition sortedFieldIndexIDs :: "string \<Rightarrow> string \<Rightarrow> string \<Rightarrow> Graph \<Rightarrow> string list \<times> Graph" where
  "sortedFieldIndexIDs kind field value g =
     (let valueIDs = bucket (fieldValues g kind field) value in
      if card valueIDs < minCachedFieldIndexOrder then (sortedFieldIDs valueIDs, g)
      else
        case mget (g_fieldIndexOrder g) (kind, field, value) of
          Some ids \<Rightarrow> (ids, g)
        | None \<Rightarrow>
            let ids = sortedFieldIDs valueIDs
            in (ids, g\<lparr>g_fieldIndexOrder := fmupd (kind, field, value) ids (g_fieldIndexOrder g)\<rparr>))"

text \<open>The lists of several keys, read one after the other.\<close>

fun sortedBuckets :: "string \<Rightarrow> string \<Rightarrow> string list \<Rightarrow> Graph \<Rightarrow> string list list \<times> Graph" where
  "sortedBuckets kind field [] g = ([], g)"
| "sortedBuckets kind field (key # keys) g =
     (let (ids, g1) = sortedFieldIndexIDs kind field key g; (rest, g2) = sortedBuckets kind field keys g1 in (ids # rest, g2))"

definition MatchFieldIndexIDs :: "string \<Rightarrow> string \<Rightarrow> any list \<Rightarrow> Graph \<Rightarrow> string list \<times> Graph" where
  "MatchFieldIndexIDs kind field values g =
     (let keys = distinctScalarKeys values in
      if keys = [] then ([], g)
      else if length keys = 1 then sortedFieldIndexIDs kind field (hd keys) g
      else let (buckets, g') = sortedBuckets kind field keys g in (sort (concat buckets), g'))"

definition MatchFieldIndex :: "string \<Rightarrow> string \<Rightarrow> any list \<Rightarrow> Graph \<Rightarrow> Entity list \<times> Graph" where
  "MatchFieldIndex kind field values g =
     (let (ids, g') = MatchFieldIndexIDs kind field values g in (List.map_filter (mget (g_Entities g')) ids, g'))"

definition VisitFieldIndexIDs ::
  "string \<Rightarrow> string \<Rightarrow> any list \<Rightarrow> ('s \<Rightarrow> string \<Rightarrow> 's \<times> 'e option) option \<Rightarrow> Graph \<Rightarrow> 's \<Rightarrow> ('s \<times> int \<times> 'e option) \<times> Graph" where
  "VisitFieldIndexIDs kind field values visit g s =
     (case visit of
        None \<Rightarrow> ((s, 0, None), g)
      | Some visit' \<Rightarrow>
          let (buckets, g') = sortedBuckets kind field (distinctScalarKeys values) g
          in (visitBuckets (filter (\<lambda>ids. ids \<noteq> []) buckets) visit' s, g'))"

definition VisitMatchingFieldIDs ::
  "string \<Rightarrow> string \<Rightarrow> any list \<Rightarrow> string \<Rightarrow> ('s \<Rightarrow> string \<Rightarrow> 's \<times> ('e + bool)) option \<Rightarrow> Graph \<Rightarrow> 's \<Rightarrow> ('s \<times> 'e option) \<times> Graph" where
  "VisitMatchingFieldIDs kind field values startID visit g s =
     (let (buckets, g') = sortedBuckets kind field (distinctScalarKeys values) g
      in (VisitSortedIDs buckets startID visit s, g'))"

text \<open>The loop of \<open>ScanFieldIndexIDs\<close> over the values of a field, whose callback may fail.\<close>

fun scan_values ::
  "('s \<Rightarrow> string \<Rightarrow> 's \<times> ('e + bool)) \<Rightarrow> (string \<Rightarrow> string set) \<Rightarrow> string list \<Rightarrow> string list \<Rightarrow> 's \<Rightarrow> 's \<times> ('e + string list)" where
  "scan_values match ids_of [] ids s = (s, Inr (sort ids))"
| "scan_values match ids_of (value # values) ids s =
     (case match s value of
        (s', Inl e) \<Rightarrow> (s', Inl e)
      | (s', Inr matched) \<Rightarrow> scan_values match ids_of values (if matched then ids @ sortedKeys (ids_of value) else ids) s')"

definition ScanFieldIndexIDs ::
  "Graph \<Rightarrow> string \<Rightarrow> string \<Rightarrow> ('s \<Rightarrow> string \<Rightarrow> 's \<times> ('e + bool)) option \<Rightarrow> 's \<Rightarrow> 's \<times> ('e + string list)" where
  "ScanFieldIndexIDs g kind field match s =
     (case match of
        None \<Rightarrow> (s, Inr [])
      | Some match' \<Rightarrow> scan_values match' (bucket (fieldValues g kind field)) (skeys (fieldValues g kind field)) [] s)"

section \<open>Ranges of field values\<close>

record FieldIndexRange =
  fir_Op :: string
  fir_Text :: string
  fir_Number :: float64
  fir_Numeric :: bool

definition sortedFieldValues :: "string \<Rightarrow> string \<Rightarrow> Graph \<Rightarrow> fieldValueOrder \<times> Graph" where
  "sortedFieldValues kind field g =
     (case mget (g_fieldValueOrder g) (kind, field) of
        Some order \<Rightarrow> (order, g)
      | None \<Rightarrow>
          let order = orderFieldValues (skeys (fieldValues g kind field))
          in (order, g\<lparr>g_fieldValueOrder := fmupd (kind, field) order (g_fieldValueOrder g)\<rparr>))"

text \<open>The predicate of the binary search: at or past the bound, strictly for \<open>gt\<close> and \<open>lte\<close>.\<close>

definition past :: "FieldIndexRange \<Rightarrow> bool \<Rightarrow> orderedFieldValue \<Rightarrow> bool" where
  "past bound numeric value =
     (let strict = fir_Op bound \<in> {''gt'', ''lte''} in
      if numeric then fless (fir_Number bound) (ofv_number value) \<or> \<not> strict \<and> feq (ofv_number value) (fir_Number bound)
      else fir_Text bound < ofv_text value \<or> \<not> strict \<and> ofv_text value = fir_Text bound)"

definition fieldValuesInRange :: "orderedFieldValue list \<Rightarrow> FieldIndexRange \<Rightarrow> bool \<Rightarrow> orderedFieldValue list" where
  "fieldValuesInRange values bound numeric =
     (if numeric \<and> fir_Number bound = NaN then []
      else
        let position = Search (length values) (\<lambda>i. past bound numeric (values ! i)) in
        if fir_Op bound \<in> {''gt'', ''gte''} then drop position values
        else if fir_Op bound \<in> {''lt'', ''lte''} then take position values
        else if fir_Op bound = ''prefix'' then
          take (Search (length values - position) (\<lambda>i. \<not> is_prefix (fir_Text bound) (ofv_text (values ! (position + i))))) (drop position values)
        else values)"

text \<open>The closure \<open>visit\<close> of \<open>VisitFilteredFieldIDs\<close>: the lists of the values that match.\<close>

fun matching_buckets ::
  "('s \<Rightarrow> string \<Rightarrow> 's \<times> ('e + bool)) \<Rightarrow> string \<Rightarrow> string \<Rightarrow> orderedFieldValue list \<Rightarrow> string list list \<Rightarrow> Graph \<Rightarrow> 's
     \<Rightarrow> ('s \<times> ('e + string list list)) \<times> Graph" where
  "matching_buckets match kind field [] buckets g s = ((s, Inr buckets), g)"
| "matching_buckets match kind field (value # values) buckets g s =
     (case match s (ofv_key value) of
        (s', Inl e) \<Rightarrow> ((s', Inl e), g)
      | (s', Inr matched) \<Rightarrow>
          if matched
          then let (ids, g') = sortedFieldIndexIDs kind field (ofv_key value) g
               in matching_buckets match kind field values (buckets @ [ids]) g' s'
          else matching_buckets match kind field values buckets g s')"

definition selectedValues :: "fieldValueOrder \<Rightarrow> FieldIndexRange list \<Rightarrow> orderedFieldValue list" where
  "selectedValues order bounds =
     (let numericBound = (\<lambda>bound. fir_Numeric bound \<and> fir_Op bound \<noteq> ''prefix'') in
      if list_ex numericBound bounds then
        foldl (\<lambda>values bound. if numericBound bound then fieldValuesInRange values bound True else values) (fvo_numeric order) bounds @
        foldl (\<lambda>values bound. fieldValuesInRange values bound False) (fvo_nonNumeric order) bounds
      else foldl (\<lambda>values bound. fieldValuesInRange values bound False) (fvo_text order) bounds)"

definition VisitFilteredFieldIDs ::
  "string \<Rightarrow> string \<Rightarrow> FieldIndexRange list \<Rightarrow> string \<Rightarrow> ('s \<Rightarrow> string \<Rightarrow> 's \<times> ('e + bool)) \<Rightarrow> ('s \<Rightarrow> string \<Rightarrow> 's \<times> ('e + bool)) option
     \<Rightarrow> Graph \<Rightarrow> 's \<Rightarrow> ('s \<times> 'e option) \<times> Graph" where
  "VisitFilteredFieldIDs kind field bounds startID match visitor g s =
     (let (order, g1) = sortedFieldValues kind field g in
      case matching_buckets match kind field (selectedValues order bounds) [] g1 s of
        ((s', Inl e), g2) \<Rightarrow> ((s', Some e), g2)
      | ((s', Inr buckets), g2) \<Rightarrow> (VisitSortedIDs buckets startID visitor s', g2))"

text \<open>The state of the closures is that of \<open>match\<close> and the list \<open>ids\<close>.\<close>

definition ScanFieldIndexRangeIDs ::
  "string \<Rightarrow> string \<Rightarrow> FieldIndexRange list \<Rightarrow> ('s \<Rightarrow> string \<Rightarrow> 's \<times> ('e + bool)) option \<Rightarrow> Graph \<Rightarrow> 's
     \<Rightarrow> ('s \<times> string list \<times> 'e option) \<times> Graph" where
  "ScanFieldIndexRangeIDs kind field bounds match g s =
     (case match of
        None \<Rightarrow> ((s, [], None), g)
      | Some match' \<Rightarrow>
          (case VisitFilteredFieldIDs kind field bounds []
                  (\<lambda>(s, ids) value. case match' s value of (s', r) \<Rightarrow> ((s', ids), r))
                  (Some (\<lambda>(s, ids) id'. ((s, ids @ [id']), Inr True))) g (s, []) of
             (((s', ids), err), g') \<Rightarrow> ((s', ids, err), g')))"

end
