(* ===== verification/ReadProps.thy ===== *)
theory ReadProps
  imports Reads
begin

text \<open>
  What the reads return: on a graph with exact indexes and caches every indexed, cached or merged read gives what
  a scan of the stored entities and edges gives, and leaves the graph as it is but for its caches.
\<close>

section \<open>Stored entities in the order of their IDs\<close>

definition stored_ids :: "Graph \<Rightarrow> (Entity \<Rightarrow> bool) \<Rightarrow> string list" where
  "stored_ids g p = sortedKeys {i. \<exists>e. mget (g_Entities g) i = Some e \<and> p e}"

definition stored_entities :: "Graph \<Rightarrow> (Entity \<Rightarrow> bool) \<Rightarrow> Entity list" where
  "stored_entities g p = map (\<lambda>i. the (mget (g_Entities g) i)) (stored_ids g p)"

lemma sort_key_inverse:
  assumes "distinct (map f xs)" "\<forall>x \<in> set xs. h (f x) = x"
  shows "sort_key f xs = map h (sorted_list_of_set (f ` set xs))"
proof -
  let ?zs = "sort_key f xs"
  have "distinct (map f ?zs)" using assms(1) by (metis mset_eq_imp_distinct_iff mset_map mset_sort)
  then have "map f ?zs = sorted_list_of_set (set (map f ?zs))"
    by (metis sorted_list_of_set.idem_if_sorted_distinct sorted_sort_key)
  moreover have "map h (map f ?zs) = ?zs" unfolding map_map by (rule map_idI) (use assms(2) in simp)
  ultimately show ?thesis by (metis set_map set_sort)
qed

lemma sorted_candidates:
  assumes "graph_ok g" "distinct ids" "set ids \<subseteq> fmdom' (g_Entities g)" "\<forall>i e. mget (g_Entities g) i = Some e \<longrightarrow> p e \<longrightarrow> i \<in> set ids"
  shows "sort_key ent_ID (filter p (map (\<lambda>i. the (mget (g_Entities g) i)) ids)) = stored_entities g p"
proof -
  let ?e = "\<lambda>i. the (mget (g_Entities g) i)" and ?ids = "filter (\<lambda>i. p (the (mget (g_Entities g) i))) ids"
  have key: "ent_ID (?e i) = i" if "i \<in> set ids" for i
    using that assms(1,3) by (auto simp: graph_ok_def keyed_def fmlookup_dom'_iff)
  then have ids: "map ent_ID (map ?e ?ids) = ?ids" unfolding map_map by (intro map_idI) simp
  have "set ?ids = {i. \<exists>e. mget (g_Entities g) i = Some e \<and> p e}" using assms(3,4) by (force simp: fmlookup_dom'_iff)
  moreover have "sort_key ent_ID (map ?e ?ids) = map ?e (sorted_list_of_set (ent_ID ` set (map ?e ?ids)))"
    using assms(2) by (intro sort_key_inverse) (simp only: ids distinct_filter, auto simp: key)
  moreover have "ent_ID ` set (map ?e ?ids) = set ?ids" by (metis ids set_map)
  ultimately show ?thesis by (simp add: filter_map comp_def stored_entities_def stored_ids_def sortedKeys_def)
qed

section \<open>Matching entities\<close>

lemma fieldsMatch_iff:
  "fieldsMatch flds filters \<longleftrightarrow> (\<forall>key w. mget filters key = Some w \<longrightarrow> (\<exists>v. mget flds key = Some v \<and> fieldValuesEqual v w))"
  by (simp add: fieldsMatch_def list_all_iff split_paired_Ball_Sigma Ball_def split_paired_All split: option.split) (metis option.distinct(1) option.exhaust option.inject)

lemma matchCandidates_fold:
  "foldl (matchCandidates_step g kind) st fs = r \<Longrightarrow>
   (r = None \<longrightarrow> st = None \<or> (\<exists>(f, v) \<in> set fs. \<exists>k. ScalarIndexKey v = Some k \<and> card (bucket (fieldValues g kind f) k) = 0)) \<and>
   (\<forall>best. r = Some (Some best) \<longrightarrow> st = Some (Some best) \<or> (\<exists>(f, v) \<in> set fs. \<exists>k. ScalarIndexKey v = Some k \<and> best = bucket (fieldValues g kind f) k))"
proof (induction fs arbitrary: st)
  case (Cons fv fs)
  obtain f v where fv: "fv = (f, v)" by (cases fv)
  from Cons.prems have r: "foldl (matchCandidates_step g kind) (matchCandidates_step g kind st fv) fs = r" by simp
  show ?case using Cons.IH [OF r]
    by (auto simp: fv matchCandidates_step_def Let_def split: option.splits if_splits)
qed simp

lemma field_bucket:
  assumes "graph_ok g"
  shows "bucket (fieldValues g kind field) key =
    {i. \<exists>e. mget (g_Entities g) i = Some e \<and> ent_Kind e = kind \<and> (\<exists>x. mget (ent_Fields e) field = Some x \<and> ScalarIndexKey x = Some key)}"
  using scalar_bucket [of g "g_Entities g"] assms by (auto simp: graph_ok_def index_ok_def)

lemma finite_field_bucket: "graph_ok g \<Longrightarrow> finite (bucket (fieldValues g kind field) key)"
  by (simp add: field_bucket finite_stored)

lemma matched_in_bucket:
  assumes "graph_ok g" "mget filters f = Some v" "ScalarIndexKey v = Some k" "mget (g_Entities g) i = Some e" "ent_Kind e = kind" "fieldsMatch (ent_Fields e) filters"
  shows "i \<in> bucket (fieldValues g kind f) k"
  using assms(3-5) fieldsMatch_iff [THEN iffD1, OF assms(6), rule_format, OF assms(2)]
  by (auto simp: field_bucket [OF assms(1)] fieldValuesEqual_scalar)

lemma MatchEntities_scan:
  assumes "graph_ok g"
  shows "MatchEntities g kind filters = stored_entities g (\<lambda>e. (kind = [] \<or> ent_Kind e = kind) \<and> fieldsMatch (ent_Fields e) filters)"
proof -
  let ?p = "\<lambda>e. (kind = [] \<or> ent_Kind e = kind) \<and> fieldsMatch (ent_Fields e) filters"
  have all: "allEntities g = map (\<lambda>i. the (mget (g_Entities g) i)) (skeys (g_Entities g))"
    by (simp add: allEntities_def entries_def comp_def)
  have scan: "sort_key ent_ID (filter ?p (allEntities g)) = stored_entities g ?p"
    unfolding all by (rule sorted_candidates [OF assms]) (auto simp: fmlookup_dom'_iff)
  define r where "r = foldl (matchCandidates_step g kind) (Some None) (entries filters)"
  have r: "(r = None \<longrightarrow> (\<exists>f v k. mget filters f = Some v \<and> ScalarIndexKey v = Some k \<and> card (bucket (fieldValues g kind f) k) = 0)) \<and>
      (\<forall>best. r = Some (Some best) \<longrightarrow> (\<exists>f v k. mget filters f = Some v \<and> ScalarIndexKey v = Some k \<and> best = bucket (fieldValues g kind f) k))"
    using matchCandidates_fold [of g kind "Some None" "entries filters" r] by (force simp: r_def)
  show ?thesis
  proof (cases "kind = [] \<or> mempty filters")
    case True
    with scan show ?thesis by (simp add: MatchEntities_def matchCandidates_def)
  next
    case False
    then consider "r = None" | "r = Some None" | best where "r = Some (Some best)" by (metis option.exhaust)
    then show ?thesis
    proof cases
      case 1
      with r obtain f v k where "mget filters f = Some v" "ScalarIndexKey v = Some k" "bucket (fieldValues g kind f) k = {}"
        using finite_field_bucket [OF assms] by (metis card_0_eq)
      then have none: "{i. \<exists>e. mget (g_Entities g) i = Some e \<and> ?p e} = {}" using matched_in_bucket [OF assms, of filters f v k _ _ kind] False by auto
      have "stored_entities g ?p = []" unfolding stored_entities_def stored_ids_def none by (simp add: sortedKeys_def)
      with 1 False show ?thesis by (simp add: MatchEntities_def matchCandidates_def flip: r_def)
    next
      case 2
      with False scan show ?thesis by (simp add: MatchEntities_def matchCandidates_def flip: r_def)
    next
      case 3
      with r obtain f v k where f: "mget filters f = Some v" "ScalarIndexKey v = Some k" "best = bucket (fieldValues g kind f) k" by blast
      have dom: "best \<subseteq> fmdom' (g_Entities g)" using field_bucket [OF assms] by (auto simp: f(3) fmlookup_dom'_iff)
      have fin: "finite best" using finite_field_bucket [OF assms] by (simp add: f(3))
      have "List.map_filter (mget (g_Entities g)) xs = map (\<lambda>i. the (mget (g_Entities g) i)) xs" if "set xs \<subseteq> fmdom' (g_Entities g)" for xs
        using that by (induction xs) (auto simp: List.map_filter_simps fmlookup_dom'_iff)
      from this [of "sortedKeys best"] dom fin
      have c: "matchCandidates g kind filters = map (\<lambda>i. the (mget (g_Entities g) i)) (sortedKeys best)"
        using False 3 by (simp add: matchCandidates_def sortedKeys_def flip: r_def)
      show ?thesis
        unfolding MatchEntities_def c
        by (rule sorted_candidates [OF assms])
           (use dom fin matched_in_bucket [OF assms f(1,2)] False in \<open>auto simp: sortedKeys_def f(3)\<close>)
    qed
  qed
qed

section \<open>Reads and caches\<close>

text \<open>The graph without its ordered caches: what a read must not change.\<close>

definition uncached :: "Graph \<Rightarrow> Graph" where
  "uncached g = g\<lparr>g_entityOrder := fmempty, g_fieldIndexOrder := fmempty, g_fieldValueOrder := fmempty, g_neighborOrder := fmempty, g_neighborOrderBytes := 0\<rparr>"

text \<open>A read of a graph gives a result, keeps the invariant and changes nothing but caches.\<close>

definition reads :: "Graph \<Rightarrow> 'a \<times> Graph \<Rightarrow> 'a \<Rightarrow> bool" where
  "reads g r x \<longleftrightarrow> (case r of (y, g') \<Rightarrow> y = x \<and> graph_ok g' \<and> uncached g' = uncached g)"

lemma readsI: "graph_ok g' \<Longrightarrow> uncached g' = uncached g \<Longrightarrow> reads g (x, g') x"
  by (simp add: reads_def)

lemma readsD: "reads g (y, g') x \<Longrightarrow> y = x \<and> graph_ok g' \<and> uncached g' = uncached g"
  by (simp add: reads_def)

lemma reads_same: "graph_ok g \<Longrightarrow> reads g (x, g) x"
  by (simp add: reads_def)

lemma uncached_simps:
  assumes "uncached g' = uncached g"
  shows "g_Entities g' = g_Entities g" "g_Edges g' = g_Edges g" "fieldValues g' = fieldValues g" "g_out g' = g_out g" "g_in g' = g_in g"
    "g_RelationTypes g' = g_RelationTypes g" "g_kindEntityIDs g' = g_kindEntityIDs g" "g_kindCounts g' = g_kindCounts g"
proof -
  have "g_fieldIndex g' = g_fieldIndex g" using arg_cong [OF assms, of g_fieldIndex] by (simp add: uncached_def)
  then show "fieldValues g' = fieldValues g" by (simp add: fieldValues_def [abs_def])
qed (use arg_cong [OF assms, of g_Entities] arg_cong [OF assms, of g_Edges] arg_cong [OF assms, of g_out] arg_cong [OF assms, of g_in]
      arg_cong [OF assms, of g_RelationTypes] arg_cong [OF assms, of g_kindEntityIDs] arg_cong [OF assms, of g_kindCounts] in \<open>simp_all add: uncached_def\<close>)

section \<open>Field values\<close>

definition value_ids :: "Graph \<Rightarrow> string \<Rightarrow> string \<Rightarrow> string set \<Rightarrow> string list" where
  "value_ids g kind field keys =
     stored_ids g (\<lambda>e. ent_Kind e = kind \<and> (\<exists>x k. mget (ent_Fields e) field = Some x \<and> ScalarIndexKey x = Some k \<and> k \<in> keys))"

lemma bucket_value_ids: "graph_ok g \<Longrightarrow> sortedKeys (bucket (fieldValues g kind field) key) = value_ids g kind field {key}"
  by (simp add: field_bucket value_ids_def stored_ids_def)

lemma value_ids_cong:
  assumes "uncached g' = uncached g"
  shows "value_ids g' = value_ids g" "stored_ids g' = stored_ids g"
proof -
  note u = assms
  show s: "stored_ids g' = stored_ids g" by (intro ext) (simp only: stored_ids_def uncached_simps(1) [OF u])
  show "value_ids g' = value_ids g" by (intro ext) (simp only: value_ids_def s)
qed

lemma sortedFieldIndexIDs_reads:
  assumes "graph_ok g"
  shows "reads g (sortedFieldIndexIDs kind field key g) (value_ids g kind field {key})"
proof -
  let ?ids = "value_ids g kind field {key}"
  have ids: "sortedFieldIDs (bucket (fieldValues g kind field) key) = ?ids" by (simp add: sortedFieldIDs_def bucket_value_ids [OF assms])
  have cached: "ids = ?ids" if "mget (g_fieldIndexOrder g) (kind, field, key) = Some ids" for ids
    using that assms bucket_value_ids [OF assms] by (simp add: graph_ok_def caches_ok_def field_order_ok_def)
  have fill: "graph_ok (g\<lparr>g_fieldIndexOrder := fmupd (kind, field, key) ?ids (g_fieldIndexOrder g)\<rparr>)"
    using assms ids unfolding graph_ok_def
    by (auto simp: index_ok_def entity_index_ok_def edge_index_ok_def caches_ok_def entity_order_ok_def field_order_ok_def
        neighbor_order_ok_def keyed_def fieldValues_def sortedFieldIDs_def)
  show ?thesis
    using fill cached ids assms
    by (auto simp: sortedFieldIndexIDs_def Let_def uncached_def intro!: readsI split: option.splits)
qed

lemma sortedBuckets_reads:
  "graph_ok g \<Longrightarrow> reads g (sortedBuckets kind field keys g) (map (\<lambda>key. value_ids g kind field {key}) keys)"
proof (induction keys arbitrary: g)
  case (Cons key keys)
  obtain ids g1 where 1: "sortedFieldIndexIDs kind field key g = (ids, g1)" by (rule prod.exhaust)
  obtain rest g2 where 2: "sortedBuckets kind field keys g1 = (rest, g2)" by (rule prod.exhaust)
  from readsD [OF sortedFieldIndexIDs_reads [OF Cons.prems, of kind field key, unfolded 1]]
  have r1: "ids = value_ids g kind field {key}" "graph_ok g1" "uncached g1 = uncached g" by auto
  from readsD [OF Cons.IH [OF r1(2), unfolded 2]] r1 value_ids_cong [OF r1(3)] show ?case
    by (simp add: 1 2 reads_def)
qed (simp add: reads_same)

lemma distinctScalarKeys: "distinct (distinctScalarKeys vs)" "set (distinctScalarKeys vs) = {k. \<exists>v \<in> set vs. ScalarIndexKey v = Some k}"
proof -
  let ?f = "\<lambda>keys value. case ScalarIndexKey value of None \<Rightarrow> keys | Some key \<Rightarrow> if key \<in> set keys then keys else keys @ [key]"
  have "distinct keys \<longrightarrow> distinct (foldl ?f keys vs) \<and> set (foldl ?f keys vs) = set keys \<union> {k. \<exists>v \<in> set vs. ScalarIndexKey v = Some k}" for keys
    by (induction vs arbitrary: keys) (auto split: option.splits)
  from this [of "[]"] show "distinct (distinctScalarKeys vs)" "set (distinctScalarKeys vs) = {k. \<exists>v \<in> set vs. ScalarIndexKey v = Some k}"
    by (simp_all add: distinctScalarKeys_def)
qed

lemma set_stored_ids: "set (stored_ids g p) = {i. \<exists>e. mget (g_Entities g) i = Some e \<and> p e}" "distinct (stored_ids g p)" "sorted (stored_ids g p)"
  by (simp_all add: stored_ids_def sortedKeys_def finite_stored)

text \<open>An entity has one scalar key per field, so the lists of different keys are disjoint.\<close>

lemma value_ids_union:
  assumes "distinct keys"
  shows "sort (concat (map (\<lambda>key. value_ids g kind field {key}) keys)) = value_ids g kind field (set keys)"
    "distinct (concat (map (\<lambda>key. value_ids g kind field {key}) keys))"
    "length (value_ids g kind field (set keys)) = sum_list (map (\<lambda>key. length (value_ids g kind field {key})) keys)"
proof -
  let ?xs = "concat (map (\<lambda>key. value_ids g kind field {key}) keys)"
  show d: "distinct ?xs" using assms by (induction keys) (auto simp: value_ids_def set_stored_ids)
  have s: "set ?xs = set (value_ids g kind field (set keys))" by (auto simp: value_ids_def set_stored_ids)
  have "sort ?xs = sorted_list_of_set (set ?xs)" using d by (simp only: sorted_list_of_set_sort_remdups distinct_remdups_id)
  also have "\<dots> = value_ids g kind field (set keys)"
    unfolding s using set_stored_ids(2,3) by (simp add: value_ids_def sorted_list_of_set.idem_if_sorted_distinct)
  finally show "sort ?xs = value_ids g kind field (set keys)" .
  then show "length (value_ids g kind field (set keys)) = sum_list (map (\<lambda>key. length (value_ids g kind field {key})) keys)"
    using length_sort [where f = "\<lambda>x. x" and xs = ?xs] by (simp only: length_concat map_map comp_def)
qed

abbreviation value_keys :: "any list \<Rightarrow> string set" where
  "value_keys vs \<equiv> {k. \<exists>v \<in> set vs. ScalarIndexKey v = Some k}"

lemma MatchFieldIndexIDs_reads:
  assumes "graph_ok g"
  shows "reads g (MatchFieldIndexIDs kind field vs g) (value_ids g kind field (value_keys vs))"
proof -
  let ?keys = "distinctScalarKeys vs"
  note keys = distinctScalarKeys [of vs]
  consider "?keys = []" | key where "?keys = [key]" | "?keys \<noteq> []" "length ?keys \<noteq> 1"
    by (metis length_0_conv length_Suc_conv One_nat_def)
  then show ?thesis
  proof cases
    case 1
    then have "value_ids g kind field (value_keys vs) = []" using keys(2) by (simp add: value_ids_def stored_ids_def sortedKeys_def)
    with 1 assms show ?thesis by (simp add: MatchFieldIndexIDs_def reads_same)
  next
    case (2 key)
    then have "value_keys vs = {key}" using keys(2) by simp
    with 2 sortedFieldIndexIDs_reads [OF assms, of kind field key] show ?thesis by (simp add: MatchFieldIndexIDs_def)
  next
    case 3
    obtain bs g' where b: "sortedBuckets kind field ?keys g = (bs, g')" by (rule prod.exhaust)
    from readsD [OF sortedBuckets_reads [OF assms, of kind field ?keys, unfolded b]] value_ids_union(1) [OF keys(1)] 3 show ?thesis
      by (simp add: MatchFieldIndexIDs_def b reads_def keys(2))
  qed
qed

lemma FieldIndexCount_length:
  assumes "graph_ok g" "kind \<noteq> []" "field \<noteq> []"
  shows "FieldIndexCount g kind field vs = int (length (value_ids g kind field (value_keys vs)))"
proof -
  have card: "card (bucket (fieldValues g kind field) key) = length (value_ids g kind field {key})" for key
    using finite_field_bucket [OF assms(1)] by (simp flip: bucket_value_ids [OF assms(1)] add: sortedKeys_def)
  have fold: "foldl (\<lambda>count key. count + int (f key)) c keys = c + int (sum_list (map f keys))" for f c and keys :: "string list"
    by (induction keys arbitrary: c) simp_all
  consider "vs = []" | v where "vs = [v]" | "vs \<noteq> []" "length vs \<noteq> 1" by (metis length_0_conv length_Suc_conv One_nat_def)
  then show ?thesis
  proof cases
    case 1 then show ?thesis by (simp add: FieldIndexCount_def value_ids_def stored_ids_def sortedKeys_def)
  next
    case 2 with assms(2,3) show ?thesis
      by (cases "ScalarIndexKey v") (simp_all add: FieldIndexCount_def card value_ids_def stored_ids_def sortedKeys_def)
  next
    case 3
    with assms(2,3) value_ids_union(3) [OF distinctScalarKeys(1), of g kind field vs] show ?thesis
      by (simp add: FieldIndexCount_def card fold distinctScalarKeys(2))
  qed
qed

lemma VisitFieldIndexIDs_reads:
  assumes "graph_ok g"
  shows "reads g (VisitFieldIndexIDs kind field vs (Some visit) g s) (visit_count visit (value_ids g kind field (value_keys vs)) 0 s)"
proof -
  let ?keys = "distinctScalarKeys vs"
  obtain bs g' where b: "sortedBuckets kind field ?keys g = (bs, g')" by (rule prod.exhaust)
  note r = readsD [OF sortedBuckets_reads [OF assms, of kind field ?keys, unfolded b]]
  let ?bs = "filter (\<lambda>ids. ids \<noteq> []) bs"
  have "\<forall>ids \<in> set ?bs. sorted ids \<and> ids \<noteq> []" using r by (auto simp: value_ids_def set_stored_ids)
  then have "visitBuckets ?bs visit s = visit_count visit (sort (concat ?bs)) 0 s" by (rule visitBuckets_correct)
  also have "concat ?bs = concat bs" by (induction bs) auto
  also have "sort (concat bs) = value_ids g kind field (set ?keys)" using r value_ids_union(1) [OF distinctScalarKeys(1), of g kind field vs] by metis
  finally have "visitBuckets ?bs visit s = visit_count visit (value_ids g kind field (value_keys vs)) 0 s" by (simp only: distinctScalarKeys(2))
  with r show ?thesis by (simp add: VisitFieldIndexIDs_def b reads_def)
qed

lemma VisitMatchingFieldIDs_reads:
  assumes "graph_ok g"
  shows "reads g (VisitMatchingFieldIDs kind field vs startID (Some visit) g s)
    (visit_each visit (filter (\<lambda>i. startID \<le> i) (value_ids g kind field (value_keys vs))) s)"
proof -
  let ?keys = "distinctScalarKeys vs"
  obtain bs g' where b: "sortedBuckets kind field ?keys g = (bs, g')" by (rule prod.exhaust)
  note r = readsD [OF sortedBuckets_reads [OF assms, of kind field ?keys, unfolded b]]
  have sorted: "\<forall>ids \<in> set bs. sorted ids" using r by (auto simp: value_ids_def set_stored_ids)
  have "mget (g_Entities g) [] = None" using assms by (simp add: graph_ok_def keyed_def)
  then have "{i. i \<noteq> [] \<and> startID \<le> i \<and> (\<exists>ids \<in> set bs. i \<in> set ids)} = set (filter (\<lambda>i. startID \<le> i) (value_ids g kind field (value_keys vs)))"
    using r by (auto simp: value_ids_def set_stored_ids distinctScalarKeys(2))
  moreover have "sorted (filter (\<lambda>i. startID \<le> i) (value_ids g kind field (value_keys vs)))" "distinct (filter (\<lambda>i. startID \<le> i) (value_ids g kind field (value_keys vs)))"
    by (simp_all add: value_ids_def set_stored_ids sorted_wrt_filter)
  ultimately have "sortedKeys {i. i \<noteq> [] \<and> startID \<le> i \<and> (\<exists>ids \<in> set bs. i \<in> set ids)} = filter (\<lambda>i. startID \<le> i) (value_ids g kind field (value_keys vs))"
    by (simp only: sortedKeys_def sorted_list_of_set.idem_if_sorted_distinct)
  from VisitSortedIDs_correct [OF sorted, of startID visit s, unfolded this] r show ?thesis by (simp add: VisitMatchingFieldIDs_def b reads_def)
qed

section \<open>Entity IDs of a kind\<close>

lemma sortedKeys_eqI: "sorted xs \<Longrightarrow> distinct xs \<Longrightarrow> set xs = A \<Longrightarrow> sortedKeys A = xs"
  by (auto simp: sortedKeys_def sorted_list_of_set.idem_if_sorted_distinct)

abbreviation of_kind :: "string \<Rightarrow> Entity \<Rightarrow> bool" where
  "of_kind kind e \<equiv> kind = [] \<or> ent_Kind e = kind"

lemma scan_kind: "map fst (filter (\<lambda>(id', entity). p entity) (entries (g_Entities g))) = stored_ids g p"
proof -
  let ?xs = "map fst (filter (\<lambda>(id', entity). p entity) (entries (g_Entities g)))"
  have "filter (\<lambda>i. p (the (mget (g_Entities g) i))) (skeys (g_Entities g)) = ?xs"
    by (simp add: entries_def filter_map comp_def)
  moreover have "set ?xs = {i. \<exists>e. mget (g_Entities g) i = Some e \<and> p e}" by force
  moreover have "sorted (filter (\<lambda>i. p (the (mget (g_Entities g) i))) (skeys (g_Entities g)))" by (simp add: sorted_wrt_filter)
  moreover have "distinct (filter (\<lambda>i. p (the (mget (g_Entities g) i))) (skeys (g_Entities g)))" by simp
  ultimately show ?thesis unfolding stored_ids_def by (intro sortedKeys_eqI [symmetric]) simp_all
qed

lemma sortedEntityIDs_reads:
  assumes "graph_ok g"
  shows "reads g (sortedEntityIDs kind g) (stored_ids g (of_kind kind))"
proof -
  have kinds: "bucket (g_kindEntityIDs g) kind = {i. \<exists>e. mget (g_Entities g) i = Some e \<and> ent_Kind e = kind}"
    using assms by (auto simp: graph_ok_def index_ok_def entity_index_ok_def is_index_bucket)
  have all: "skeys (g_Entities g) = stored_ids g (\<lambda>e. True)" using scan_kind [of "\<lambda>e. True" g] by simp
  have cached: "ids = stored_ids g (of_kind kind)" if "mget (g_entityOrder g) kind = Some ids" for ids
    using that assms by (simp add: graph_ok_def caches_ok_def entity_order_ok_def members_def stored_ids_def)
  let ?g = "g\<lparr>g_entityOrder := fmupd kind (stored_ids g (of_kind kind)) (g_entityOrder g)\<rparr>"
  have "graph_ok ?g" using assms unfolding graph_ok_def
    by (auto simp: index_ok_def entity_index_ok_def edge_index_ok_def caches_ok_def entity_order_ok_def field_order_ok_def
        neighbor_order_ok_def keyed_def fieldValues_def members_def stored_ids_def)
  then have fill: "reads g (stored_ids g (of_kind kind), ?g) (stored_ids g (of_kind kind))" by (intro readsI) (simp_all add: uncached_def)
  show ?thesis
  proof (cases "mget (g_entityOrder g) kind")
    case (Some ids)
    with cached assms show ?thesis by (simp add: sortedEntityIDs_def reads_same)
  next
    case None
    have "(if kind = [] then skeys (g_Entities g)
        else if mempty (g_kindEntityIDs g) \<and> \<not> mempty (g_Entities g)
        then map fst (filter (\<lambda>(id', entity). ent_Kind entity = kind) (entries (g_Entities g)))
        else sortedKeys (bucket (g_kindEntityIDs g) kind)) = stored_ids g (of_kind kind)"
      using scan_kind [of "\<lambda>e. ent_Kind e = kind" g] kinds all by (simp add: stored_ids_def)
    with None fill show ?thesis by (simp add: sortedEntityIDs_def Let_def)
  qed
qed

lemma visit_each_map: "visit_each (\<lambda>s x. visit s (f x)) xs s = visit_each visit (map f xs) s"
  by (induction xs arbitrary: s) (auto split: prod.split sum.split)

lemma visit_each_cong: "(\<And>x s. x \<in> set xs \<Longrightarrow> visit s x = visit' s x) \<Longrightarrow> visit_each visit xs s = visit_each visit' xs s"
  by (induction xs arbitrary: s) (auto split: prod.split sum.split)

lemma dropWhile_sorted: "sorted xs \<Longrightarrow> dropWhile (\<lambda>i. i \<le> a) xs = filter (\<lambda>i. a < i) (xs :: string list)"
proof (induction xs)
  case (Cons x xs)
  then have "filter (\<lambda>i. a < i) xs = xs" if "a < x" using that by (intro filter_True) (auto dest: less_le_trans)
  with Cons show ?case by (auto simp: not_le)
qed simp

lemma VisitEntitiesByID_reads:
  assumes "graph_ok g"
  shows "reads g (VisitEntitiesByID kind afterID (Some visit) g s)
    (visit_each visit (stored_entities g (\<lambda>e. of_kind kind e \<and> (afterID = [] \<or> afterID < ent_ID e))) s)"
proof -
  obtain ids g' where r: "sortedEntityIDs kind g = (ids, g')" by (rule prod.exhaust)
  note d = readsD [OF sortedEntityIDs_reads [OF assms, of kind, unfolded r]]
  have key: "ent_ID e = i" if "mget (g_Entities g) i = Some e" for i e using that assms by (simp add: graph_ok_def keyed_def)
  let ?p = "\<lambda>e. of_kind kind e \<and> (afterID = [] \<or> afterID < ent_ID e)"
  let ?rest = "if afterID \<noteq> [] then dropWhile (\<lambda>i. i \<le> afterID) (drop (SearchStrings ids afterID) ids) else ids"
  have sorted: "sorted ids" using d by (simp add: set_stored_ids)
  have rest: "?rest = filter (\<lambda>i. afterID = [] \<or> afterID < i) ids"
  proof (cases "afterID = []")
    case False
    have "filter (\<lambda>i. afterID < i) (filter (\<lambda>i. afterID \<le> i) ids) = filter (\<lambda>i. afterID < i) ids"
      unfolding filter_filter by (rule filter_cong) auto
    with False sorted show ?thesis by (simp add: SearchStrings_drop dropWhile_sorted sorted_wrt_filter)
  qed simp
  have ids: "?rest = stored_ids g ?p"
    unfolding rest stored_ids_def using d sorted set_stored_ids [of g "of_kind kind"] key
    by (intro sortedKeys_eqI [symmetric]) (auto simp: sorted_wrt_filter)
  have "visit_each (visit_stored g' visit) (stored_ids g ?p) s = visit_each (\<lambda>s i. visit s (the (mget (g_Entities g) i))) (stored_ids g ?p) s"
    using d set_stored_ids(1) [of g ?p] by (intro visit_each_cong) (auto simp: visit_stored_def uncached_simps(1) [of g' g])
  then have "visit_each (visit_stored g' visit) ?rest s = visit_each visit (stored_entities g ?p) s"
    unfolding ids stored_entities_def by (simp only: visit_each_map [of visit "\<lambda>i. the (mget (g_Entities g) i)"])
  moreover have "VisitEntitiesByID kind afterID (Some visit) g s = (visit_each (visit_stored g' visit) ?rest s, g')"
    by (simp add: VisitEntitiesByID_def r Let_def)
  ultimately show ?thesis using d by (simp only: reads_def prod.case)
qed

section \<open>Ranges of values\<close>

text \<open>What a bound asks for.\<close>

definition in_range :: "FieldIndexRange \<Rightarrow> bool \<Rightarrow> orderedFieldValue \<Rightarrow> bool" where
  "in_range bound numeric value \<longleftrightarrow>
     (let less = (if numeric then fless (fir_Number bound) (ofv_number value) else fir_Text bound < ofv_text value);
          same = (if numeric then feq (ofv_number value) (fir_Number bound) else ofv_text value = fir_Text bound) in
      \<not> (numeric \<and> fir_Number bound = NaN) \<and>
      (fir_Op bound = ''gt'' \<longrightarrow> less) \<and> (fir_Op bound = ''gte'' \<longrightarrow> less \<or> same) \<and>
      (fir_Op bound = ''lt'' \<longrightarrow> \<not> less \<and> \<not> same) \<and> (fir_Op bound = ''lte'' \<longrightarrow> \<not> less) \<and>
      (fir_Op bound = ''prefix'' \<longrightarrow> is_prefix (fir_Text bound) (ofv_text value)))"

lemma past_in_range:
  assumes "\<not> (numeric \<and> fir_Number bound = NaN)"
  shows "fir_Op bound \<in> {''gt'', ''gte''} \<Longrightarrow> past bound numeric v = in_range bound numeric v"
    "fir_Op bound \<in> {''lt'', ''lte''} \<Longrightarrow> (\<not> past bound numeric v) = in_range bound numeric v"
  using assms by (auto simp: past_def in_range_def Let_def)

definition ordered_by :: "bool \<Rightarrow> orderedFieldValue list \<Rightarrow> bool" where
  "ordered_by numeric values \<longleftrightarrow>
     (if numeric then sorted (map (\<lambda>value. plus_zero (ofv_number value)) values) \<and> (\<forall>v \<in> set values. ofv_number v \<noteq> NaN) else sorted (map ofv_text values))"

lemma past_mono:
  assumes "ordered_by numeric vs" "\<not> (numeric \<and> fir_Number bound = NaN)"
  shows "sorted_wrt (\<lambda>x y. past bound numeric x \<longrightarrow> past bound numeric y) vs"
proof (cases numeric)
  case True
  have "sorted_wrt (\<lambda>x y. plus_zero (ofv_number x) \<le> plus_zero (ofv_number y)) vs" and n: "\<forall>v \<in> set vs. ofv_number v \<noteq> NaN" and b: "fir_Number bound \<noteq> NaN"
    using assms True by (simp_all add: ordered_by_def sorted_map)
  from this(1) show ?thesis
    by (rule sorted_wrt_mono_rel [rotated])
       (use n b True in \<open>auto simp: past_def Let_def feq_def fless_iff_less\<close>)
next
  case False
  then have "sorted_wrt (\<lambda>x y. ofv_text x \<le> ofv_text y) vs" using assms by (simp add: ordered_by_def sorted_map)
  then show ?thesis by (rule sorted_wrt_mono_rel [rotated]) (use False in \<open>auto simp: past_def Let_def\<close>)
qed

lemma prefix_between:
  assumes "p \<le> x" "x \<le> y" "is_prefix p y"
  shows "is_prefix p (x :: string)"
  using assms
proof (induction p arbitrary: x y)
  case Nil
  then show ?case by (simp add: is_prefix_def)
next
  case (Cons c p)
  obtain y' where y: "y = c # y'" "is_prefix p y'" using Cons.prems(3) by (cases y) (auto simp: is_prefix_def)
  obtain d x' where x: "x = d # x'" using Cons.prems(1) by (cases x) auto
  have "d = c" "p \<le> x'" "x' \<le> y'" using Cons.prems(1,2) by (auto simp: x y(1))
  with Cons.IH [of x' y'] y(2) show ?case by (simp add: x is_prefix_def)
qed

lemma prefix_le: "is_prefix p (x :: string) \<Longrightarrow> p \<le> x"
proof (induction p arbitrary: x)
  case (Cons c p)
  then show ?case by (cases x) (auto simp: is_prefix_def)
qed simp


lemma fieldValuesInRange_filter:
  assumes "ordered_by numeric vs" "numeric \<longrightarrow> fir_Op bound \<noteq> ''prefix''"
  shows "fieldValuesInRange vs bound numeric = filter (in_range bound numeric) vs"
proof (cases "numeric \<and> fir_Number bound = NaN")
  case True
  then show ?thesis by (simp add: fieldValuesInRange_def in_range_def)
next
  case False
  note split = Search_split [OF past_mono [OF assms(1) False]]
  let ?k = "Search (length vs) (\<lambda>i. past bound numeric (vs ! i))"
  consider (up) "fir_Op bound \<in> {''gt'', ''gte''}" | (down) "fir_Op bound \<in> {''lt'', ''lte''}" | (pre) "fir_Op bound = ''prefix''"
    | (other) "fir_Op bound \<notin> {''gt'', ''gte'', ''lt'', ''lte'', ''prefix''}" by blast
  then show ?thesis
  proof cases
    case up
    then show ?thesis using False split(2) past_in_range(1) [OF False up] by (auto simp: fieldValuesInRange_def)
  next
    case down
    moreover have "fir_Op bound \<notin> {''gt'', ''gte''}" using down by auto
    ultimately show ?thesis using False split(1) past_in_range(2) [OF False down] by (auto simp: fieldValuesInRange_def)
  next
    case pre
    then have num: "\<not> numeric" using assms(2) by simp
    let ?p = "\<lambda>v. is_prefix (fir_Text bound) (ofv_text v)" and ?ds = "drop ?k vs"
    have ds: "?ds = filter (\<lambda>v. fir_Text bound \<le> ofv_text v) vs"
      using split(2) pre num by (simp add: past_def Let_def le_less eq_commute disj_commute)
    have "?k \<le> length vs" using Search_spec(1) [of "length vs"] past_mono [OF assms(1) False]
      by (auto simp: sorted_wrt_iff_nth_less le_less)
    then have shift: "(\<lambda>i. \<not> ?p (vs ! (?k + i))) = (\<lambda>i. \<not> ?p (?ds ! i))" by simp
    have "sorted_wrt (\<lambda>x y. ofv_text x \<le> ofv_text y) ?ds" using assms(1) num by (simp add: ordered_by_def sorted_map sorted_wrt_drop)
    then have "sorted_wrt (\<lambda>x y. \<not> ?p x \<longrightarrow> \<not> ?p y) ?ds"
      by (rule sorted_wrt_mono_rel [rotated]) (use prefix_between in \<open>auto simp: ds\<close>)
    from Search_split(1) [OF this] have "take (Search (length vs - ?k) (\<lambda>i. \<not> ?p (vs ! (?k + i)))) ?ds = filter ?p ?ds"
      unfolding shift by simp
    also have "\<dots> = filter (in_range bound numeric) vs"
      unfolding ds filter_filter using pre num prefix_le by (intro filter_cong) (auto simp: in_range_def)
    finally show ?thesis using pre num by (simp add: fieldValuesInRange_def)
  next
    case other
    then show ?thesis using False by (auto simp: fieldValuesInRange_def in_range_def intro: filter_True [symmetric])
  qed
qed

lemma ordered_by_filter: "ordered_by numeric vs \<Longrightarrow> ordered_by numeric (filter p vs)"
  by (auto simp: ordered_by_def sorted_map sorted_wrt_filter)

lemma ranges_filter:
  "ordered_by numeric vs \<Longrightarrow> \<forall>bound \<in> set bounds. numeric \<longrightarrow> use_bound bound \<longrightarrow> fir_Op bound \<noteq> ''prefix'' \<Longrightarrow>
   foldl (\<lambda>vs bound. if use_bound bound then fieldValuesInRange vs bound numeric else vs) vs bounds =
   filter (\<lambda>v. \<forall>bound \<in> set bounds. use_bound bound \<longrightarrow> in_range bound numeric v) vs"
proof (induction bounds arbitrary: vs)
  case (Cons bound bounds)
  have "(if use_bound bound then fieldValuesInRange vs bound numeric else vs) = filter (\<lambda>v. use_bound bound \<longrightarrow> in_range bound numeric v) vs"
    using Cons.prems by (simp add: fieldValuesInRange_filter)
  with Cons.IH [of "filter (\<lambda>v. use_bound bound \<longrightarrow> in_range bound numeric v) vs"] Cons.prems show ?case
    by (simp add: ordered_by_filter filter_filter conj_commute)
qed simp


text \<open>The ordered value that a scalar key stands for, and whether it is a number.\<close>

definition ordered_value :: "string \<Rightarrow> (orderedFieldValue \<times> bool) option" where
  "ordered_value key =
     (if key = ''null'' then Some (\<lparr>ofv_key = key, ofv_text = ''<nil>'', ofv_number = Fin 0\<rparr>, False)
      else if is_prefix ''s:'' key \<or> is_prefix ''b:'' key then Some (\<lparr>ofv_key = key, ofv_text = drop 2 key, ofv_number = Fin 0\<rparr>, False)
      else if is_prefix ''n:'' key then
        map_option (\<lambda>number. (\<lparr>ofv_key = key, ofv_text = drop 2 key, ofv_number = number\<rparr>, True)) (ParseFloat (drop 2 key))
      else None)"

lemma ordered_value_key: "ordered_value key = Some (v, n) \<Longrightarrow> ofv_key v = key"
  by (auto simp: ordered_value_def split: if_splits)

lemma orderValue_step_ordered:
  "orderValue_step key order =
     (case ordered_value key of
        None \<Rightarrow> order
      | Some (v, n) \<Rightarrow> order\<lparr>fvo_text := fvo_text order @ [v],
          fvo_numeric := fvo_numeric order @ (if n \<and> ofv_number v \<noteq> NaN then [v] else []),
          fvo_nonNumeric := fvo_nonNumeric order @ (if n then [] else [v])\<rparr>)"
  by (simp add: orderValue_step_def ordered_value_def Let_def split: option.split)

lemma orderFieldValues_set:
  "set (fvo_text (orderFieldValues keys)) = {v. \<exists>key \<in> set keys. \<exists>n. ordered_value key = Some (v, n)}"
  "set (fvo_numeric (orderFieldValues keys)) = {v. \<exists>key \<in> set keys. ordered_value key = Some (v, True) \<and> ofv_number v \<noteq> NaN}"
  "set (fvo_nonNumeric (orderFieldValues keys)) = {v. \<exists>key \<in> set keys. ordered_value key = Some (v, False)}"
proof -
  have "set (fvo_text (fold orderValue_step keys order)) = set (fvo_text order) \<union> {v. \<exists>key \<in> set keys. \<exists>n. ordered_value key = Some (v, n)} \<and>
    set (fvo_numeric (fold orderValue_step keys order)) = set (fvo_numeric order) \<union> {v. \<exists>key \<in> set keys. ordered_value key = Some (v, True) \<and> ofv_number v \<noteq> NaN} \<and>
    set (fvo_nonNumeric (fold orderValue_step keys order)) = set (fvo_nonNumeric order) \<union> {v. \<exists>key \<in> set keys. ordered_value key = Some (v, False)}" for order
  proof (induction keys arbitrary: order)
    case (Cons key keys)
    show ?case
    proof (cases "ordered_value key")
      case None
      with Cons [of order] show ?thesis by (simp add: orderValue_step_ordered)
    next
      case (Some vn)
      obtain v n where vn: "vn = (v, n)" by (rule prod.exhaust)
      from Cons [of "orderValue_step key order"] Some show ?thesis by (cases n) (auto simp: orderValue_step_ordered vn)
    qed
  qed simp
  from this [of "\<lparr>fvo_text = [], fvo_numeric = [], fvo_nonNumeric = []\<rparr>"]
  show "set (fvo_text (orderFieldValues keys)) = {v. \<exists>key \<in> set keys. \<exists>n. ordered_value key = Some (v, n)}"
    "set (fvo_numeric (orderFieldValues keys)) = {v. \<exists>key \<in> set keys. ordered_value key = Some (v, True) \<and> ofv_number v \<noteq> NaN}"
    "set (fvo_nonNumeric (orderFieldValues keys)) = {v. \<exists>key \<in> set keys. ordered_value key = Some (v, False)}"
    by (simp_all add: orderFieldValues_def Let_def)
qed

lemma orderFieldValues_ordered:
  "ordered_by False (fvo_text (orderFieldValues keys))" "ordered_by True (fvo_numeric (orderFieldValues keys))"
  "ordered_by False (fvo_nonNumeric (orderFieldValues keys))"
  using orderFieldValues_set(2) [of keys] by (auto simp: ordered_by_def) (simp_all add: orderFieldValues_def Let_def)

abbreviation numeric_bound :: "FieldIndexRange \<Rightarrow> bool" where
  "numeric_bound bound \<equiv> fir_Numeric bound \<and> fir_Op bound \<noteq> ''prefix''"

text \<open>
  A key is in the ranges if its value is: numbers are compared as numbers as soon as one bound is numeric, by the
  numeric bounds alone; everything else is compared as text, by all bounds.
\<close>

definition key_in_ranges :: "FieldIndexRange list \<Rightarrow> string \<Rightarrow> bool" where
  "key_in_ranges bounds key \<longleftrightarrow>
     (case ordered_value key of
        None \<Rightarrow> False
      | Some (v, number) \<Rightarrow>
          if number \<and> list_ex numeric_bound bounds
          then ofv_number v \<noteq> NaN \<and> (\<forall>bound \<in> set bounds. numeric_bound bound \<longrightarrow> in_range bound True v)
          else \<forall>bound \<in> set bounds. in_range bound False v)"

lemma selectedValues_keys:
  "ofv_key ` set (selectedValues (orderFieldValues keys) bounds) = {key \<in> set keys. key_in_ranges bounds key}"
proof -
  have txt1: "foldl (\<lambda>vs bound. fieldValuesInRange vs bound False) vs bounds = filter (\<lambda>v. \<forall>bound \<in> set bounds. in_range bound False v) vs"
    if "ordered_by False vs" for vs
    using ranges_filter [of False vs bounds "\<lambda>_. True"] that by simp
  have num: "foldl (\<lambda>vs bound. if numeric_bound bound then fieldValuesInRange vs bound True else vs) vs bounds =
      filter (\<lambda>v. \<forall>bound \<in> set bounds. numeric_bound bound \<longrightarrow> in_range bound True v) vs" if "ordered_by True vs" for vs
    using ranges_filter [of True vs bounds numeric_bound] that by simp
  let ?o = "orderFieldValues keys"
  have img: "ofv_key ` {v. \<exists>key \<in> set keys. Q key v} = {key \<in> set keys. \<exists>v. Q key v}" if "\<And>key v. Q key v \<Longrightarrow> ofv_key v = key" for Q
    using that by (auto simp: image_iff)
  have ov: "(\<exists>v n. ordered_value key = Some (v, n) \<and> R v n) \<longleftrightarrow> (case ordered_value key of None \<Rightarrow> False | Some (v, n) \<Rightarrow> R v n)" for key R
    by (auto split: option.split)
  show ?thesis
  proof (cases "list_ex numeric_bound bounds")
    case True
    then have S: "set (selectedValues ?o bounds) =
        {v. \<exists>key \<in> set keys. \<exists>n. ordered_value key = Some (v, n) \<and> (if n then ofv_number v \<noteq> NaN \<and> (\<forall>bound \<in> set bounds. numeric_bound bound \<longrightarrow> in_range bound True v)
           else \<forall>bound \<in> set bounds. in_range bound False v)}"
      by (auto simp: selectedValues_def num orderFieldValues_ordered txt1 orderFieldValues_set)
    show ?thesis unfolding S
      by (subst img) (use ordered_value_key in blast, simp only: ov key_in_ranges_def True simp_thms)
  next
    case False
    then have S: "set (selectedValues ?o bounds) = {v. \<exists>key \<in> set keys. \<exists>n. ordered_value key = Some (v, n) \<and> (\<forall>bound \<in> set bounds. in_range bound False v)}"
      by (auto simp: selectedValues_def orderFieldValues_ordered txt1 orderFieldValues_set)
    show ?thesis unfolding S
      by (subst img) (use ordered_value_key in blast, simp only: ov key_in_ranges_def False simp_thms if_False)
  qed
qed


lemma sortedFieldValues_reads:
  assumes "graph_ok g"
  shows "reads g (sortedFieldValues kind field g) (orderFieldValues (skeys (fieldValues g kind field)))"
proof -
  let ?o = "orderFieldValues (skeys (fieldValues g kind field))"
  have cached: "order = ?o" if "mget (g_fieldValueOrder g) (kind, field) = Some order" for order
    using that assms by (simp add: graph_ok_def caches_ok_def field_order_ok_def)
  have fill: "graph_ok (g\<lparr>g_fieldValueOrder := fmupd (kind, field) ?o (g_fieldValueOrder g)\<rparr>)"
    using assms unfolding graph_ok_def
    by (auto simp: index_ok_def entity_index_ok_def edge_index_ok_def caches_ok_def entity_order_ok_def field_order_ok_def
        neighbor_order_ok_def keyed_def fieldValues_def)
  show ?thesis
  proof (cases "mget (g_fieldValueOrder g) (kind, field)")
    case None
    with fill show ?thesis by (simp add: sortedFieldValues_def Let_def readsI uncached_def)
  next
    case (Some order)
    with cached assms show ?thesis by (simp add: sortedFieldValues_def reads_same)
  qed
qed

lemma matching_buckets_reads:
  "graph_ok g \<Longrightarrow> reads g (matching_buckets (\<lambda>s key. (s, Inr (p key))) kind field vs buckets g s)
     (s, Inr (buckets @ map (\<lambda>v. value_ids g kind field {ofv_key v}) (filter (\<lambda>v. p (ofv_key v)) vs)))"
proof (induction vs arbitrary: g buckets)
  case (Cons v vs)
  obtain ids g1 where r: "sortedFieldIndexIDs kind field (ofv_key v) g = (ids, g1)" by (rule prod.exhaust)
  from readsD [OF sortedFieldIndexIDs_reads [OF Cons.prems, of kind field "ofv_key v", unfolded r]]
  have d: "ids = value_ids g kind field {ofv_key v}" "graph_ok g1" "uncached g1 = uncached g" by auto
  from Cons.IH [OF d(2), of "buckets @ [ids]"] Cons.IH [OF Cons.prems, of buckets] d value_ids_cong [OF d(3)] show ?case
    by (simp add: r reads_def)
qed (simp add: reads_same)

lemma value_keys_stored:
  assumes "graph_ok g" "mget (g_Entities g) i = Some e" "ent_Kind e = kind" "mget (ent_Fields e) field = Some x" "ScalarIndexKey x = Some k"
  shows "k \<in> set (skeys (fieldValues g kind field))"
proof -
  have "i \<in> bucket (fieldValues g kind field) k" using assms by (auto simp: field_bucket)
  then show ?thesis by (auto simp: bucket_def mget_or_def fmlookup_dom'_iff split: option.splits)
qed

lemma VisitFilteredFieldIDs_reads:
  fixes visit :: "'s \<Rightarrow> string \<Rightarrow> 's \<times> ('e + bool)"
  assumes "graph_ok g"
  shows "reads g (VisitFilteredFieldIDs kind field bounds startID (\<lambda>s key. (s, Inr (p key))) (Some visit) g s)
    (visit_each visit (filter (\<lambda>i. startID \<le> i) (value_ids g kind field {key. key_in_ranges bounds key \<and> p key})) s)"
proof -
  let ?keys = "skeys (fieldValues g kind field)" and ?want = "filter (\<lambda>i. startID \<le> i) (value_ids g kind field {key. key_in_ranges bounds key \<and> p key})"
  obtain order g1 where o: "sortedFieldValues kind field g = (order, g1)" by (rule prod.exhaust)
  from readsD [OF sortedFieldValues_reads [OF assms, of kind field, unfolded o]]
  have d1: "order = orderFieldValues ?keys" "graph_ok g1" "uncached g1 = uncached g" by auto
  define vs where "vs = filter (\<lambda>v. p (ofv_key v)) (selectedValues order bounds)"
  obtain r g2 where m: "matching_buckets (\<lambda>s key. (s, Inr (p key))) kind field (selectedValues order bounds) [] g1 s = (r :: 's \<times> ('e + string list list), g2)" by (rule prod.exhaust)
  have "reads g1 (r, g2) (s, Inr ([] @ map (\<lambda>v. value_ids g1 kind field {ofv_key v}) vs))"
    unfolding m [symmetric] vs_def by (rule matching_buckets_reads [OF d1(2)])
  from readsD [OF this] value_ids_cong [OF d1(3)] d1(3)
  have d2: "r = (s, Inr (map (\<lambda>v. value_ids g kind field {ofv_key v}) vs))" "graph_ok g2" "uncached g2 = uncached g" by simp_all
  let ?bs = "map (\<lambda>v. value_ids g kind field {ofv_key v}) vs"
  have sorted: "\<forall>ids \<in> set ?bs. sorted ids" by (auto simp: value_ids_def set_stored_ids)
  have keys: "ofv_key ` set vs = {key \<in> set ?keys. key_in_ranges bounds key \<and> p key}"
    using selectedValues_keys [of ?keys bounds] by (auto simp: vs_def d1(1) image_iff)
  have "mget (g_Entities g) [] = None" using assms by (simp add: graph_ok_def keyed_def)
  then have "set (value_ids g kind field {key. key_in_ranges bounds key \<and> p key}) = {i. i \<noteq> [] \<and> (\<exists>key \<in> ofv_key ` set vs. i \<in> set (value_ids g kind field {key}))}"
    unfolding keys using value_keys_stored [OF assms] by (auto simp: value_ids_def set_stored_ids)
  then have "set ?want = {i. i \<noteq> [] \<and> startID \<le> i \<and> (\<exists>ids \<in> set ?bs. i \<in> set ids)}" by auto
  moreover have "sorted ?want" "distinct ?want" by (simp_all add: value_ids_def set_stored_ids sorted_wrt_filter)
  ultimately have "sortedKeys {i. i \<noteq> [] \<and> startID \<le> i \<and> (\<exists>ids \<in> set ?bs. i \<in> set ids)} = ?want" by (intro sortedKeys_eqI)
  from VisitSortedIDs_correct [OF sorted, of startID visit s, unfolded this] d2 show ?thesis
    by (simp add: VisitFilteredFieldIDs_def o m reads_def)
qed

end
