(* ===== verification/Neighbors.thy ===== *)
theory Neighbors
  imports ReadProps
begin

text \<open>
  Neighbours of an entity: the filtered list (\<open>read.go\<close>), the count (\<open>neighbor_count.go\<close>) and the paged visit over a
  bounded cache of adjacency orders (\<open>read_neighbors_page.go\<close>). All three agree, the cache stays within its bounds,
  and the loop that makes room in it ends.
\<close>

section \<open>Filters\<close>

record Neighbor =
  nb_Entity :: Entity
  nb_Edge :: Edge
  nb_Direction :: string

definition neighborRelationAllowed :: "string \<Rightarrow> string set \<Rightarrow> bool" where
  "neighborRelationAllowed relationType allowed \<longleftrightarrow> (if allowed = {} then True else relationType \<in> allowed)"

definition neighborKindAllowed :: "string \<Rightarrow> string list \<Rightarrow> bool" where
  "neighborKindAllowed kind allowed \<longleftrightarrow> (if allowed = [] then True else list_ex (\<lambda>value. kind = value) allowed)"

definition neighborImpactAllowed :: "Graph \<Rightarrow> string \<Rightarrow> string \<Rightarrow> bool \<Rightarrow> bool" where
  "neighborImpactAllowed g relationType direction impact \<longleftrightarrow>
     (if \<not> impact then True
      else
        case mget (g_RelationTypes g) relationType of
          None \<Rightarrow> False
        | Some relation \<Rightarrow>
            if rt_ImpactDirection relation = ''forward'' then direction = ''out''
            else if rt_ImpactDirection relation = ''reverse'' then direction = ''in''
            else rt_ImpactDirection relation = ''both'')"

definition endpoint :: "string \<Rightarrow> Edge \<Rightarrow> string" where
  "endpoint direction edge = (if direction = ''in'' then edge_From edge else edge_To edge)"

section \<open>The filtered list\<close>

text \<open>A charge is called before each edge and may refuse; then the loop ends with its error.\<close>

definition run_charge :: "('s \<Rightarrow> 's \<times> 'e option) option \<Rightarrow> 's \<Rightarrow> 's \<times> 'e option" where
  "run_charge charge s = (case charge of None \<Rightarrow> (s, None) | Some f \<Rightarrow> f s)"

fun charged :: "('s \<Rightarrow> 's \<times> 'e option) option \<Rightarrow> ('a \<Rightarrow> 'b list) \<Rightarrow> 'a list \<Rightarrow> 's \<Rightarrow> 's \<times> ('e + 'b list)" where
  "charged charge f [] s = (s, Inr [])"
| "charged charge f (x # xs) s =
     (case run_charge charge s of
        (s', Some e) \<Rightarrow> (s', Inl e)
      | (s', None) \<Rightarrow>
          (case charged charge f xs s' of
             (s'', Inl e) \<Rightarrow> (s'', Inl e)
           | (s'', Inr ys) \<Rightarrow> (s'', Inr (f x @ ys))))"

text \<open>The edges of the outgoing loop, then those of the incoming one, with the direction of the loop.\<close>

definition directedEdges :: "Graph \<Rightarrow> string \<Rightarrow> string \<Rightarrow> (string \<times> string) list" where
  "directedEdges g entityID direction =
     (if direction = ''out'' \<or> direction = ''both'' then map (Pair ''out'') (sortedKeys (bucket (g_out g) entityID)) else []) @
     (if direction = ''in'' \<or> direction = ''both'' then map (Pair ''in'') (sortedKeys (bucket (g_in g) entityID)) else [])"

definition filteredRef :: "Graph \<Rightarrow> string set \<Rightarrow> string list \<Rightarrow> bool \<Rightarrow> string \<times> string \<Rightarrow> neighborRef list" where
  "filteredRef g relationTypes nodeKinds impact = (\<lambda>(direction, edgeID).
     let edge = mget_or zero_Edge (g_Edges g) edgeID in
     if \<not> neighborRelationAllowed (edge_Type edge) relationTypes \<or> \<not> neighborImpactAllowed g (edge_Type edge) direction impact then []
     else
       case mget (g_Entities g) (endpoint direction edge) of
         None \<Rightarrow> []
       | Some neighbor \<Rightarrow>
           if \<not> neighborKindAllowed (ent_Kind neighbor) nodeKinds then []
           else [\<lparr>nr_edgeID = edge_ID edge, nr_entityID = ent_ID neighbor, nr_direction = direction\<rparr>])"

definition neighborAt :: "Graph \<Rightarrow> neighborRef \<Rightarrow> Neighbor" where
  "neighborAt g ref =
     \<lparr>nb_Entity = mget_or zero_Entity (g_Entities g) (nr_entityID ref), nb_Edge = mget_or zero_Edge (g_Edges g) (nr_edgeID ref),
      nb_Direction = nr_direction ref\<rparr>"

definition FilteredNeighbors ::
  "Graph \<Rightarrow> string \<Rightarrow> string \<Rightarrow> string set \<Rightarrow> string list \<Rightarrow> bool \<Rightarrow> ('s \<Rightarrow> 's \<times> 'e option) option \<Rightarrow> 's \<Rightarrow> 's \<times> ('e + Neighbor list)" where
  "FilteredNeighbors g entityID direction relationTypes nodeKinds impact charge s =
     (let direction' = (if direction = [] then ''both'' else direction) in
      case charged charge (filteredRef g relationTypes nodeKinds impact) (directedEdges g entityID direction') s of
        (s', Inl e) \<Rightarrow> (s', Inl e)
      | (s', Inr refs) \<Rightarrow> (s', Inr (map (neighborAt g) (sort_key ref_key refs))))"

definition Neighbors :: "Graph \<Rightarrow> string \<Rightarrow> string \<Rightarrow> string \<Rightarrow> Neighbor list" where
  "Neighbors g entityID direction relationType =
     (case snd (FilteredNeighbors g entityID direction (if relationType \<noteq> [] then {relationType} else {}) [] False (None :: (unit \<Rightarrow> unit \<times> unit option) option) ()) of
        Inl _ \<Rightarrow> []
      | Inr neighbors \<Rightarrow> neighbors)"

section \<open>The count\<close>

definition countNeighborEdges :: "Graph \<Rightarrow> string \<Rightarrow> string set \<Rightarrow> string list \<Rightarrow> bool \<Rightarrow> string list \<Rightarrow> int" where
  "countNeighborEdges g direction relationTypes nodeKinds impact edgeIDs =
     foldl (\<lambda>count edgeID.
       let edge = mget_or zero_Edge (g_Edges g) edgeID in
       if \<not> neighborRelationAllowed (edge_Type edge) relationTypes \<or> \<not> neighborImpactAllowed g (edge_Type edge) direction impact then count
       else
         case mget (g_Entities g) (endpoint direction edge) of
           None \<Rightarrow> count
         | Some neighbor \<Rightarrow> if \<not> neighborKindAllowed (ent_Kind neighbor) nodeKinds then count else count + 1) 0 edgeIDs"

definition NeighborCount :: "Graph \<Rightarrow> string \<Rightarrow> string \<Rightarrow> string set \<Rightarrow> string list \<Rightarrow> bool \<Rightarrow> int" where
  "NeighborCount g entityID direction relationTypes nodeKinds impact =
     (let direction' = (if direction = [] then ''both'' else direction) in
      (if direction' = ''out'' \<or> direction' = ''both''
       then countNeighborEdges g ''out'' relationTypes nodeKinds impact (sortedKeys (bucket (g_out g) entityID)) else 0) +
      (if direction' = ''in'' \<or> direction' = ''both''
       then countNeighborEdges g ''in'' relationTypes nodeKinds impact (sortedKeys (bucket (g_in g) entityID)) else 0))"

section \<open>The bounded cache of adjacency orders\<close>

definition maxNeighborOrders :: nat where
  "maxNeighborOrders = 256"

definition maxNeighborOrderBytes :: int where
  "maxNeighborOrderBytes = 32 * 2 ^ 20"

text \<open>
  The loop that makes room. Each round drops one entry, whichever the iteration over the map yields first; if there is
  none to drop while the byte count is still too high, it runs forever, which is the value \<open>None\<close>.
\<close>

partial_function (option) evictNeighborOrders :: "int \<Rightarrow> Graph \<Rightarrow> Graph option" where
  "evictNeighborOrders bytes g =
     (if maxNeighborOrders \<le> length (skeys (g_neighborOrder g)) \<or> maxNeighborOrderBytes < g_neighborOrderBytes g + bytes
      then
        (case skeys (g_neighborOrder g) of
           [] \<Rightarrow> evictNeighborOrders bytes g
         | key # _ \<Rightarrow> evictNeighborOrders bytes (dropNeighborOrder key g))
      else Some g)"

definition adjacentRef :: "Graph \<Rightarrow> string \<times> string \<Rightarrow> neighborRef list" where
  "adjacentRef g = (\<lambda>(direction, edgeID).
     [\<lparr>nr_edgeID = edgeID, nr_entityID = endpoint direction (mget_or zero_Edge (g_Edges g) edgeID), nr_direction = direction\<rparr>])"

definition sortedNeighborRefs ::
  "string \<Rightarrow> string \<Rightarrow> ('s \<Rightarrow> 's \<times> 'e option) option \<Rightarrow> Graph \<Rightarrow> 's \<Rightarrow> (('s \<times> ('e + neighborRef list)) \<times> Graph) option" where
  "sortedNeighborRefs id' selectedDirection charge g s =
     (let direction = (if selectedDirection = [] then ''both'' else selectedDirection); key = neighborKey id' direction in
      case mget (g_neighborOrder g) key of
        Some refs \<Rightarrow> Some ((s, Inr refs), g)
      | None \<Rightarrow>
          (case charged charge (adjacentRef g) (directedEdges g id' direction) s of
             (s', Inl e) \<Rightarrow> Some ((s', Inl e), g)
           | (s', Inr unsorted) \<Rightarrow>
               let refs = sort_key ref_key unsorted; bytes = int (length refs) * 48 in
               if maxNeighborOrderBytes < bytes then Some ((s', Inr refs), g)
               else
                 Option.bind (evictNeighborOrders bytes g) (\<lambda>g1.
                 Some ((s', Inr refs),
                       g1\<lparr>g_neighborOrderBytes := g_neighborOrderBytes g1 + bytes,
                          g_neighborOrder := fmupd key refs (g_neighborOrder g1)\<rparr>))))"

text \<open>One reference of a page, whose result tells whether to go on.\<close>

definition visitRef ::
  "Graph \<Rightarrow> string \<Rightarrow> string set \<Rightarrow> string list \<Rightarrow> bool \<Rightarrow> ('s \<Rightarrow> 's \<times> 'e option) option \<Rightarrow> ('s \<Rightarrow> Neighbor \<Rightarrow> 's \<times> ('e + bool))
     \<Rightarrow> 's \<Rightarrow> neighborRef \<Rightarrow> 's \<times> ('e + bool)" where
  "visitRef g direction types kinds impact charge visit s ref =
     (case run_charge charge s of
        (s', Some e) \<Rightarrow> (s', Inl e)
      | (s', None) \<Rightarrow>
          if direction \<noteq> [] \<and> direction \<noteq> ''both'' \<and> nr_direction ref \<noteq> direction then (s', Inr True)
          else
            case mget (g_Edges g) (nr_edgeID ref) of
              None \<Rightarrow> (s', Inr True)
            | Some edge \<Rightarrow>
                if \<not> neighborRelationAllowed (edge_Type edge) types \<or> \<not> neighborImpactAllowed g (edge_Type edge) (nr_direction ref) impact
                then (s', Inr True)
                else
                  case mget (g_Entities g) (nr_entityID ref) of
                    None \<Rightarrow> (s', Inr True)
                  | Some entity \<Rightarrow>
                      if \<not> neighborKindAllowed (ent_Kind entity) kinds then (s', Inr True)
                      else visit s' \<lparr>nb_Entity = entity, nb_Edge = edge, nb_Direction = nr_direction ref\<rparr>)"

definition VisitNeighborsByEdgeID ::
  "string \<Rightarrow> string \<Rightarrow> string set \<Rightarrow> string list \<Rightarrow> bool \<Rightarrow> string \<Rightarrow> ('s \<Rightarrow> 's \<times> 'e option) option
     \<Rightarrow> ('s \<Rightarrow> Neighbor \<Rightarrow> 's \<times> ('e + bool)) \<Rightarrow> Graph \<Rightarrow> 's \<Rightarrow> (('s \<times> 'e option) \<times> Graph) option" where
  "VisitNeighborsByEdgeID id' direction types kinds impact startEdgeID charge visit g s =
     Option.bind (sortedNeighborRefs id' direction charge g s) (\<lambda>((s', r), g').
       case r of
         Inl e \<Rightarrow> Some ((s', Some e), g')
       | Inr refs \<Rightarrow>
           let start = Search (length refs) (\<lambda>i. startEdgeID \<le> nr_edgeID (refs ! i))
           in Some (visit_each (visitRef g' direction types kinds impact charge visit) (drop start refs) s', g'))"

section \<open>The neighbours of an entity in order\<close>

definition neighbor_refs :: "Graph \<Rightarrow> string \<Rightarrow> string \<Rightarrow> neighborRef list" where
  "neighbor_refs g id' direction = sort_key ref_key (concat (map (adjacentRef g) (directedEdges g id' direction)))"

definition ref_allowed :: "Graph \<Rightarrow> string set \<Rightarrow> string list \<Rightarrow> bool \<Rightarrow> neighborRef \<Rightarrow> bool" where
  "ref_allowed g types kinds impact ref \<longleftrightarrow>
     (\<exists>edge entity. mget (g_Edges g) (nr_edgeID ref) = Some edge \<and> mget (g_Entities g) (nr_entityID ref) = Some entity \<and>
        neighborRelationAllowed (edge_Type edge) types \<and> neighborImpactAllowed g (edge_Type edge) (nr_direction ref) impact \<and>
        neighborKindAllowed (ent_Kind entity) kinds)"

lemma ref_key_inj: "ref_key r = ref_key r' \<longleftrightarrow> r = r'"
  by (cases r; cases r') (auto simp: ref_key_def)

lemma directedEdges_set:
  assumes "graph_ok g"
  shows "(d, k) \<in> set (directedEdges g id' direction) \<longleftrightarrow>
    (\<exists>e. mget (g_Edges g) k = Some e \<and> (direction \<in> {''out'', ''both''} \<and> d = ''out'' \<and> edge_From e = id' \<or> direction \<in> {''in'', ''both''} \<and> d = ''in'' \<and> edge_To e = id'))"
  using set_edge_buckets [of g "g_Edges g"] assms by (auto simp: directedEdges_def graph_ok_def index_ok_def)

lemma neighbor_refs_order:
  assumes "graph_ok g"
  shows "is_ref_order (neighbor_refs g id' direction) (neighborRefs (g_Edges g) id' direction)"
proof -
  let ?des = "directedEdges g id' direction" and ?f = "\<lambda>(d, k). \<lparr>nr_edgeID = k, nr_entityID = endpoint d (mget_or zero_Edge (g_Edges g) k), nr_direction = d\<rparr>"
  have refs: "concat (map (adjacentRef g) xs) = map ?f xs" for xs by (induction xs) (auto simp: adjacentRef_def)
  have "distinct ?des" by (auto simp: directedEdges_def distinct_map inj_on_def sortedKeys_def)
  moreover have "inj ?f" by (auto simp: inj_def)
  ultimately have "distinct (map ?f ?des)" using inj_on_subset [OF _ subset_UNIV] by (simp add: distinct_map)
  moreover have "set (map ?f ?des) = neighborRefs (g_Edges g) id' direction"
  proof (rule set_eqI)
    fix r
    have "r \<in> set (map ?f ?des) \<longleftrightarrow> (nr_direction r, nr_edgeID r) \<in> set ?des \<and> nr_entityID r = endpoint (nr_direction r) (mget_or zero_Edge (g_Edges g) (nr_edgeID r))"
      by (cases r) force
    also have "\<dots> \<longleftrightarrow> r \<in> neighborRefs (g_Edges g) id' direction"
      by (auto simp: directedEdges_set [OF assms] neighborRefs_def is_ref_def endpoint_def mget_or_def)
    finally show "r \<in> set (map ?f ?des) \<longleftrightarrow> r \<in> neighborRefs (g_Edges g) id' direction" .
  qed
  ultimately show ?thesis unfolding is_ref_order_def neighbor_refs_def refs by (simp only: set_sort distinct_sort sorted_sort_key simp_thms)
qed

lemma is_ref_order_unique:
  assumes "is_ref_order a S" "is_ref_order b S"
  shows "a = b"
proof -
  have "map ref_key a = map ref_key b"
    using assms by (intro sorted_distinct_set_unique) (auto simp: is_ref_order_def distinct_map inj_on_def ref_key_inj)
  then show ?thesis by (metis inj_map_eq_map inj_def ref_key_inj)
qed

lemma neighbor_refs_key: "graph_ok g \<Longrightarrow> r \<in> set (neighbor_refs g id' direction) \<Longrightarrow> \<exists>e. mget (g_Edges g) (nr_edgeID r) = Some e"
  using neighbor_refs_order [of g id' direction] by (auto simp: is_ref_order_def neighborRefs_def)

section \<open>The filtered list and the count\<close>

lemma charged_Inr: "charged charge f xs s = (s', Inr ys) \<Longrightarrow> ys = concat (map f xs)"
  by (induction xs arbitrary: s s' ys) (auto split: prod.splits option.splits sum.splits)

lemma charged_free: "charged None f xs s = (s, Inr (concat (map f xs)))"
  by (induction xs arbitrary: s) (simp_all add: run_charge_def)

lemma filteredRef_filter:
  assumes "graph_ok g" "(d, k) \<in> set (directedEdges g id' direction)"
  shows "filteredRef g types kinds impact (d, k) = filter (ref_allowed g types kinds impact) (adjacentRef g (d, k))"
proof -
  obtain e where e: "mget (g_Edges g) k = Some e" "edge_ID e = k" using assms by (auto simp: directedEdges_set graph_ok_def keyed_def)
  have n: "ent_ID n = i" if "mget (g_Entities g) i = Some n" for i n using that assms(1) by (simp add: graph_ok_def keyed_def)
  show ?thesis
    by (cases "mget (g_Entities g) (endpoint d e)")
       (auto simp: filteredRef_def adjacentRef_def ref_allowed_def e mget_or_def n)
qed

lemma filteredRefs:
  assumes "graph_ok g"
  shows "sort_key ref_key (concat (map (filteredRef g types kinds impact) (directedEdges g id' direction))) =
    filter (ref_allowed g types kinds impact) (neighbor_refs g id' direction)"
proof -
  have "map (filteredRef g types kinds impact) (directedEdges g id' direction) = map (\<lambda>x. filter (ref_allowed g types kinds impact) (adjacentRef g x)) (directedEdges g id' direction)"
    using filteredRef_filter [OF assms] by (intro map_cong) auto
  then have "concat (map (filteredRef g types kinds impact) (directedEdges g id' direction)) =
      filter (ref_allowed g types kinds impact) (concat (map (adjacentRef g) (directedEdges g id' direction)))"
    by (simp only: filter_concat map_map comp_def)
  then show ?thesis by (simp only: neighbor_refs_def filter_sort)
qed

lemma FilteredNeighbors_spec:
  assumes "graph_ok g"
  shows "FilteredNeighbors g id' direction types kinds impact None s =
    (s, Inr (map (neighborAt g) (filter (ref_allowed g types kinds impact) (neighbor_refs g id' (if direction = [] then ''both'' else direction)))))"
    "FilteredNeighbors g id' direction types kinds impact charge s = (s', Inr ns) \<Longrightarrow>
     ns = map (neighborAt g) (filter (ref_allowed g types kinds impact) (neighbor_refs g id' (if direction = [] then ''both'' else direction)))"
  using filteredRefs [OF assms, of types kinds impact id'] charged_Inr
  by (auto simp: FilteredNeighbors_def charged_free Let_def split: prod.splits sum.splits dest!: charged_Inr)

lemma countNeighborEdges_length:
  "countNeighborEdges g direction types kinds impact ids = int (length (concat (map (filteredRef g types kinds impact) (map (Pair direction) ids))))"
proof -
  have "foldl (\<lambda>count edgeID.
       let edge = mget_or zero_Edge (g_Edges g) edgeID in
       if \<not> neighborRelationAllowed (edge_Type edge) types \<or> \<not> neighborImpactAllowed g (edge_Type edge) direction impact then count
       else
         case mget (g_Entities g) (endpoint direction edge) of
           None \<Rightarrow> count
         | Some neighbor \<Rightarrow> if \<not> neighborKindAllowed (ent_Kind neighbor) kinds then count else count + 1) c ids =
      c + int (length (concat (map (filteredRef g types kinds impact) (map (Pair direction) ids))))" for c
    by (induction ids arbitrary: c) (simp_all add: filteredRef_def Let_def split: option.split)
  from this [of 0] show ?thesis by (simp add: countNeighborEdges_def)
qed

lemma NeighborCount_spec:
  assumes "graph_ok g"
  shows "NeighborCount g id' direction types kinds impact =
    int (length (filter (ref_allowed g types kinds impact) (neighbor_refs g id' (if direction = [] then ''both'' else direction))))"
proof -
  define d where "d = (if direction = [] then ''both'' else direction)"
  have "length (filter (ref_allowed g types kinds impact) (neighbor_refs g id' d)) =
      length (concat (map (filteredRef g types kinds impact) (directedEdges g id' d)))"
    unfolding filteredRefs [OF assms, symmetric] by simp
  then show ?thesis
    by (simp add: NeighborCount_def countNeighborEdges_length directedEdges_def Let_def flip: d_def)
qed

section \<open>The cache\<close>

definition neighbor_cache_bounded :: "Graph \<Rightarrow> bool" where
  "neighbor_cache_bounded g \<longleftrightarrow> length (skeys (g_neighborOrder g)) \<le> maxNeighborOrders \<and> g_neighborOrderBytes g \<le> maxNeighborOrderBytes"

lemma dropNeighborOrder_ok:
  assumes "graph_ok g"
  shows "graph_ok (dropNeighborOrder key g)" "uncached (dropNeighborOrder key g) = uncached g"
proof -
  have "neighbor_order_ok (dropNeighborOrder key g) (g_Edges g)"
    using assms by (auto simp: graph_ok_def caches_ok_def neighbor_order_ok_def dropNeighborOrder_def split: if_splits)
  moreover have "g_neighborOrderBytes (dropNeighborOrder key g) = neighbor_bytes (g_neighborOrder (dropNeighborOrder key g))"
    using assms by (simp add: graph_ok_def caches_ok_def dropNeighborOrder_def neighbor_bytes_drop)
  ultimately show "graph_ok (dropNeighborOrder key g)" using assms
    unfolding graph_ok_def
    by (simp add: index_ok_def entity_index_ok_def edge_index_ok_def caches_ok_def entity_order_ok_def field_order_ok_def keyed_def fieldValues_def)
       (simp add: dropNeighborOrder_def)
  show "uncached (dropNeighborOrder key g) = uncached g" by (simp add: uncached_def dropNeighborOrder_def)
qed

lemma length_skeys_drop: "key \<in> fmdom' m \<Longrightarrow> length (skeys (fmdrop key m)) < length (skeys m)"
proof -
  assume k: "key \<in> fmdom' m"
  have "length (skeys n) = card (fmdom' n)" for n :: "('a, 'b) fmap" by (metis distinct_card distinct_skeys set_skeys)
  moreover have "0 < card (fmdom' m)" using k by (auto simp: card_gt_0_iff)
  ultimately show ?thesis using k by simp
qed

text \<open>The loop ends, because the bytes accounted are those of the entries it drops.\<close>

lemma evictNeighborOrders_returns:
  assumes "graph_ok g" "bytes \<le> maxNeighborOrderBytes"
  shows "\<exists>g1. evictNeighborOrders bytes g = Some g1 \<and> graph_ok g1 \<and> uncached g1 = uncached g \<and>
    length (skeys (g_neighborOrder g1)) < maxNeighborOrders \<and> g_neighborOrderBytes g1 + bytes \<le> maxNeighborOrderBytes \<and>
    (\<forall>key. mget (g_neighborOrder g) key = None \<longrightarrow> mget (g_neighborOrder g1) key = None)"
  using assms(1)
proof (induction "length (skeys (g_neighborOrder g))" arbitrary: g rule: less_induct)
  case less
  show ?case
  proof (cases "maxNeighborOrders \<le> length (skeys (g_neighborOrder g)) \<or> maxNeighborOrderBytes < g_neighborOrderBytes g + bytes")
    case False
    then show ?thesis using less.prems by (subst evictNeighborOrders.simps) auto
  next
    case True
    show ?thesis
    proof (cases "skeys (g_neighborOrder g)")
      case Nil
      then have "fmdom' (g_neighborOrder g) = {}" by (metis list.set(1) set_skeys)
      then have "g_neighborOrderBytes g = 0" using less.prems by (simp add: graph_ok_def caches_ok_def neighbor_bytes_def)
      with True Nil assms(2) show ?thesis by (simp add: maxNeighborOrders_def)
    next
      case (Cons key keys)
      then have "key \<in> fmdom' (g_neighborOrder g)" by (metis list.set_intros(1) set_skeys)
      then have "length (skeys (g_neighborOrder (dropNeighborOrder key g))) < length (skeys (g_neighborOrder g))"
        by (simp add: dropNeighborOrder_def length_skeys_drop)
      from less.hyps [OF this dropNeighborOrder_ok(1) [OF less.prems]] dropNeighborOrder_ok(2) [OF less.prems] True Cons show ?thesis
        by (subst evictNeighborOrders.simps) (auto simp: dropNeighborOrder_def)
    qed
  qed
qed


lemma neighborKey_inj:
  assumes "nul \<notin> set direction" "nul \<notin> set direction'" "neighborKey i direction = neighborKey i' direction'"
  shows "i = i' \<and> direction = direction'"
proof -
  have t: "takeWhile (\<lambda>c. c \<noteq> nul) (rev (neighborKey j d)) = rev d" if "nul \<notin> set d" for j d
    using that by (simp add: neighborKey_def takeWhile_append takeWhile_eq_all_conv [THEN iffD2])
  have "rev direction = rev direction'" using t [OF assms(1), of i] t [OF assms(2), of i'] assms(3) by simp
  then show ?thesis using assms(3) by (simp add: neighborKey_def)
qed

lemma neighbor_bytes_insert:
  assumes "mget m key = None"
  shows "neighbor_bytes (fmupd key refs m) = neighbor_bytes m + int (length refs) * 48"
proof -
  have "fmdrop key (fmupd key refs m) = m" using assms by (intro fmap_ext) auto
  with neighbor_bytes_drop [of key "fmupd key refs m"] show ?thesis by (simp add: mget_or_def)
qed

lemma fill_neighbor_order:
  assumes "graph_ok g" "mget (g_neighborOrder g) (neighborKey id' direction) = None" "nul \<notin> set direction"
  shows "graph_ok (g\<lparr>g_neighborOrderBytes := g_neighborOrderBytes g + int (length (neighbor_refs g id' direction)) * 48,
      g_neighborOrder := fmupd (neighborKey id' direction) (neighbor_refs g id' direction) (g_neighborOrder g)\<rparr>)"
proof -
  let ?g = "g\<lparr>g_neighborOrderBytes := g_neighborOrderBytes g + int (length (neighbor_refs g id' direction)) * 48,
      g_neighborOrder := fmupd (neighborKey id' direction) (neighbor_refs g id' direction) (g_neighborOrder g)\<rparr>"
  have old: "neighbor_order_ok g (g_Edges g)" using assms(1) by (simp add: graph_ok_def caches_ok_def)
  have "neighbor_order_ok ?g (g_Edges g)"
    unfolding neighbor_order_ok_def
  proof (intro allI impI)
    fix i d refs
    assume d: "d \<in> {''out'', ''in'', ''both''}" and get: "mget (g_neighborOrder ?g) (neighborKey i d) = Some refs"
    have nul: "nul \<notin> set d" using d by auto
    show "is_ref_order refs (neighborRefs (g_Edges g) i d)"
    proof (cases "neighborKey id' direction = neighborKey i d")
      case True
      with neighborKey_inj [OF assms(3) nul] have "i = id'" "d = direction" by auto
      with get neighbor_refs_order [OF assms(1), of id' direction] show ?thesis by simp
    next
      case False
      with get have "mget (g_neighborOrder g) (neighborKey i d) = Some refs" by simp
      with old d show ?thesis unfolding neighbor_order_ok_def by blast
    qed
  qed
  moreover have "g_neighborOrderBytes ?g = neighbor_bytes (g_neighborOrder ?g)"
    using assms by (simp add: graph_ok_def caches_ok_def neighbor_bytes_insert)
  ultimately show ?thesis using assms(1) unfolding graph_ok_def
    by (simp add: index_ok_def entity_index_ok_def edge_index_ok_def caches_ok_def entity_order_ok_def field_order_ok_def keyed_def fieldValues_def)
qed

lemma neighbor_refs_cong:
  assumes "uncached g' = uncached g"
  shows "neighbor_refs g' = neighbor_refs g"
  by (intro ext) (simp only: neighbor_refs_def directedEdges_def adjacentRef_def uncached_simps [OF assms])

lemma sortedNeighborRefs_spec:
  assumes "graph_ok g" "neighbor_cache_bounded g" "nul \<notin> set direction"
  obtains r g' where "sortedNeighborRefs id' direction charge g s = Some (r, g')" "graph_ok g'" "neighbor_cache_bounded g'" "uncached g' = uncached g"
    "\<And>s' refs. r = (s', Inr refs) \<Longrightarrow> direction \<in> {[], ''out'', ''in'', ''both''} \<Longrightarrow> refs = neighbor_refs g id' (if direction = [] then ''both'' else direction)"
    "charge = None \<Longrightarrow> \<exists>refs. r = (s, Inr refs)"
proof -
  define d where "d = (if direction = [] then ''both'' else direction)"
  have nul: "nul \<notin> set d" using assms(3) by (auto simp: d_def)
  show thesis
  proof (cases "mget (g_neighborOrder g) (neighborKey id' d)")
    case (Some refs)
    have "refs = neighbor_refs g id' d" if "d \<in> {''out'', ''in'', ''both''}"
    proof (rule is_ref_order_unique)
      have "neighbor_order_ok g (g_Edges g)" using assms(1) by (simp add: graph_ok_def caches_ok_def)
      then show "is_ref_order refs (neighborRefs (g_Edges g) id' d)" using Some that unfolding neighbor_order_ok_def by blast
    qed (rule neighbor_refs_order [OF assms(1)])
    with Some show thesis
      by (intro that [of "(s, Inr refs)" g]) (use assms in \<open>auto simp: sortedNeighborRefs_def Let_def d_def\<close>)
  next
    case None
    obtain s' r' where c: "charged charge (adjacentRef g) (directedEdges g id' d) s = (s', r')" by (rule prod.exhaust)
    show thesis
    proof (cases r')
      case (Inl e)
      then have "charge \<noteq> None" using c by (cases charge) (simp_all add: charged_free)
      with None c Inl show thesis
        by (intro that [of "(s', Inl e)" g]) (use assms in \<open>auto simp: sortedNeighborRefs_def Let_def d_def\<close>)
    next
      case (Inr unsorted)
      have refs: "sort_key ref_key unsorted = neighbor_refs g id' d" using charged_Inr [OF c [unfolded Inr]] by (simp add: neighbor_refs_def)
      have len: "length unsorted = length (neighbor_refs g id' d)" using arg_cong [OF refs, of length] by simp
      let ?bytes = "int (length (neighbor_refs g id' d)) * 48"
      have free: "charge = None \<Longrightarrow> s' = s" using c by (auto simp: charged_free)
      show thesis
      proof (cases "maxNeighborOrderBytes < ?bytes")
        case True
        then have "sortedNeighborRefs id' direction charge g s = Some ((s', Inr (neighbor_refs g id' d)), g)"
          using None c Inr refs len by (simp add: sortedNeighborRefs_def Let_def flip: d_def)
        then show thesis using free by (intro that [of "(s', Inr (neighbor_refs g id' d))" g]) (use assms in \<open>auto simp: d_def\<close>)
      next
        case False
        then obtain g1 where g1: "evictNeighborOrders ?bytes g = Some g1" "graph_ok g1" "uncached g1 = uncached g"
          "length (skeys (g_neighborOrder g1)) < maxNeighborOrders" "g_neighborOrderBytes g1 + ?bytes \<le> maxNeighborOrderBytes"
          "\<forall>key. mget (g_neighborOrder g) key = None \<longrightarrow> mget (g_neighborOrder g1) key = None"
          using evictNeighborOrders_returns [OF assms(1), of ?bytes] by auto
        let ?g = "g1\<lparr>g_neighborOrderBytes := g_neighborOrderBytes g1 + ?bytes, g_neighborOrder := fmupd (neighborKey id' d) (neighbor_refs g id' d) (g_neighborOrder g1)\<rparr>"
        have n: "neighbor_refs g1 = neighbor_refs g" by (rule neighbor_refs_cong [OF g1(3)])
        have "graph_ok ?g" using fill_neighbor_order [OF g1(2) g1(6) [rule_format, OF None] nul] by (simp add: n)
        moreover have "length (skeys (fmupd (neighborKey id' d) x (g_neighborOrder g1))) \<le> Suc (length (skeys (g_neighborOrder g1)))" for x
        proof -
          have "length (skeys m) = card (fmdom' m)" for m :: "(string, neighborRef list) fmap" by (metis distinct_card distinct_skeys set_skeys)
          then show ?thesis by (simp add: card_insert_le_m1 card_insert_if)
        qed
        then have "neighbor_cache_bounded ?g" using g1(4,5) by (simp add: neighbor_cache_bounded_def) (meson Suc_leI le_trans)
        moreover have "uncached ?g = uncached g" using g1(3) by (simp add: uncached_def)
        moreover have "sortedNeighborRefs id' direction charge g s = Some ((s', Inr (neighbor_refs g id' d)), ?g)"
          using None c Inr refs len False g1(1) by (simp add: sortedNeighborRefs_def Let_def flip: d_def)
        ultimately show thesis using free by (intro that [of "(s', Inr (neighbor_refs g id' d))" ?g]) (auto simp: d_def)
      qed
    qed
  qed
qed


section \<open>Pages\<close>

lemma visit_each_filtered: "visit_each (\<lambda>s x. if p x then visit s (f x) else (s, Inr True)) xs s = visit_each visit (map f (filter p xs)) s"
  by (induction xs arbitrary: s) (auto split: prod.split sum.split)

lemma visitRef_filtered:
  assumes "graph_ok g" "r \<in> set (neighbor_refs g id' d)" "direction = [] \<or> direction = ''both'' \<or> direction = d"
  shows "visitRef g direction types kinds impact None visit s r = (if ref_allowed g types kinds impact r then visit s (neighborAt g r) else (s, Inr True))"
proof -
  have r: "r \<in> neighborRefs (g_Edges g) id' d" using neighbor_refs_order [OF assms(1)] assms(2) by (auto simp: is_ref_order_def)
  then obtain e where e: "mget (g_Edges g) (nr_edgeID r) = Some e" by (auto simp: neighborRefs_def)
  have "\<not> (direction \<noteq> [] \<and> direction \<noteq> ''both'' \<and> nr_direction r \<noteq> direction)"
    using r assms(3) by (auto simp: neighborRefs_def is_ref_def)
  then show ?thesis
    by (cases "mget (g_Entities g) (nr_entityID r)")
       (auto simp: visitRef_def run_charge_def e ref_allowed_def neighborAt_def mget_or_def)
qed

lemma neighbor_refs_seek:
  assumes "graph_ok g"
  shows "drop (Search (length (neighbor_refs g id' d)) (\<lambda>i. start \<le> nr_edgeID (neighbor_refs g id' d ! i))) (neighbor_refs g id' d) =
    filter (\<lambda>r. start \<le> nr_edgeID r) (neighbor_refs g id' d)"
proof (rule Search_split(2))
  have "sorted_wrt (\<lambda>x y. ref_key x \<le> ref_key y) (neighbor_refs g id' d)"
    using neighbor_refs_order [OF assms, of id' d] by (simp add: is_ref_order_def sorted_map)
  then show "sorted_wrt (\<lambda>x y. start \<le> nr_edgeID x \<longrightarrow> start \<le> nr_edgeID y) (neighbor_refs g id' d)"
    by (rule sorted_wrt_mono_rel [rotated]) (auto simp: ref_key_def less_eq_prod_def)
qed

lemma VisitNeighborsByEdgeID_spec:
  fixes visit :: "'s \<Rightarrow> Neighbor \<Rightarrow> 's \<times> ('e + bool)"
  assumes "graph_ok g" "neighbor_cache_bounded g" "direction \<in> {[], ''out'', ''in'', ''both''}"
    and "FilteredNeighbors g id' direction types kinds impact None s = (s, Inr ns)"
  obtains g' where
    "VisitNeighborsByEdgeID id' direction types kinds impact startEdgeID None visit g s =
       Some (visit_each visit (filter (\<lambda>n. startEdgeID \<le> edge_ID (nb_Edge n)) ns) s, g')"
    "graph_ok g'" "neighbor_cache_bounded g'" "uncached g' = uncached g"
proof -
  define d where "d = (if direction = [] then ''both'' else direction)"
  have nul: "nul \<notin> set direction" using assms(3) by auto
  obtain r :: "'s \<times> ('e + neighborRef list)" and g' where g': "sortedNeighborRefs id' direction None g s = Some (r, g')" "graph_ok g'" "neighbor_cache_bounded g'" "uncached g' = uncached g"
    and r: "\<And>s' refs. r = (s', Inr refs) \<Longrightarrow> direction \<in> {[], ''out'', ''in'', ''both''} \<Longrightarrow> refs = neighbor_refs g id' (if direction = [] then ''both'' else direction)"
    and free: "\<exists>refs. r = (s, Inr refs)"
    by (rule sortedNeighborRefs_spec [OF assms(1,2) nul, of id' None s]) blast
  let ?refs = "neighbor_refs g id' d" and ?ok = "ref_allowed g types kinds impact"
  have r': "r = (s, Inr ?refs)" using r free assms(3) by (auto simp: d_def)
  have same: "neighbor_refs g' = neighbor_refs g" "ref_allowed g' = ref_allowed g" "neighborAt g' = neighborAt g"
    using neighbor_refs_cong [OF g'(4)]
    by (simp_all only: ref_allowed_def [abs_def] neighborAt_def [abs_def] neighborImpactAllowed_def uncached_simps [OF g'(4)])
  let ?page = "filter (\<lambda>r. startEdgeID \<le> nr_edgeID r) ?refs"
  have "visit_each (visitRef g' direction types kinds impact None visit) ?page s =
      visit_each (\<lambda>s r. if ?ok r then visit s (neighborAt g r) else (s, Inr True)) ?page s"
  proof (rule visit_each_cong)
    fix x s assume "x \<in> set ?page"
    then show "visitRef g' direction types kinds impact None visit s x = (if ?ok x then visit s (neighborAt g x) else (s, Inr True))"
      using visitRef_filtered [OF g'(2), of x id' d direction types kinds impact visit s] by (auto simp: same d_def)
  qed
  also have "\<dots> = visit_each visit (map (neighborAt g) (filter ?ok ?page)) s" by (rule visit_each_filtered)
  also have "map (neighborAt g) (filter ?ok ?page) = filter (\<lambda>n. startEdgeID \<le> edge_ID (nb_Edge n)) ns"
  proof -
    have "edge_ID (nb_Edge (neighborAt g x)) = nr_edgeID x" if "x \<in> set ?refs" for x
      using neighbor_refs_key [OF assms(1) that] assms(1) by (auto simp: neighborAt_def mget_or_def graph_ok_def keyed_def)
    then have "filter ((\<lambda>n. startEdgeID \<le> edge_ID (nb_Edge n)) \<circ> neighborAt g) (filter ?ok ?refs) = filter ?ok ?page"
      unfolding filter_filter by (intro filter_cong) auto
    moreover have "ns = map (neighborAt g) (filter ?ok ?refs)" using trans [OF assms(4) [symmetric] FilteredNeighbors_spec(1) [OF assms(1)]] by (simp only: d_def prod.inject sum.inject)
    ultimately show ?thesis by (simp add: filter_map)
  qed
  finally have v: "visit_each (visitRef g' direction types kinds impact None visit) ?page s = visit_each visit (filter (\<lambda>n. startEdgeID \<le> edge_ID (nb_Edge n)) ns) s" .
  have "VisitNeighborsByEdgeID id' direction types kinds impact startEdgeID None visit g s = Some (visit_each (visitRef g' direction types kinds impact None visit) ?page s, g')"
    using neighbor_refs_seek [OF assms(1), of id' d startEdgeID] by (simp add: VisitNeighborsByEdgeID_def g'(1) r')
  with v g' show thesis by (intro that [of g']) simp_all
qed

end
