(* ===== verification/GraphProps.thy ===== *)
theory GraphProps
  imports Snapshots Neighbors
begin

text \<open>
  The properties of snapshots and reads. The example of the witnesses is a graph of two hosts, one running on
  the other; its edge is stored under the digest of its endpoints, which stays symbolic.
\<close>

section \<open>An example graph\<close>

definition demo_owner :: FieldSource where
  "demo_owner = \<lparr>src_Source = ''scan'', src_Priority = 1, src_Confidence = Fin 1, src_Version = 1, src_UpdatedAt = 5\<rparr>"

definition demo_entity :: "string \<Rightarrow> string \<Rightarrow> Entity" where
  "demo_entity i ip = zero_Entity\<lparr>ent_ID := i, ent_Kind := ''host'', ent_Fields := fmap_of_list [(''ip'', VString ip)],
     ent_FieldSources := fmap_of_list [(''ip'', demo_owner)], ent_ExistenceSource := Some demo_owner,
     ent_Sources := [zero_EntitySource\<lparr>es_Source := ''scan'', es_ExternalID := i, es_Confidence := Fin 1, es_Priority := 1\<rparr>]\<rparr>"

definition demo_edge :: Edge where
  "demo_edge = zero_Edge\<lparr>edge_ID := CanonicalEdgeIDParts ''runs_on'' ''a'' ''b'', edge_Type := ''runs_on'', edge_From := ''a'',
     edge_To := ''b'', edge_ExistenceSource := Some demo_owner, edge_Version := 1, edge_UpdatedAt := 5\<rparr>"

definition demo_graph :: Graph where
  "demo_graph = rebuildIndexes (New\<lparr>g_Version := 1,
     g_Entities := fmap_of_list [(''a'', demo_entity ''a'' ''10.0.0.1''), (''b'', demo_entity ''b'' ''10.0.0.2'')],
     g_Edges := fmap_of_list [(edge_ID demo_edge, demo_edge)]\<rparr>)"

lemma demo_canonical: "CanonicalEdgeID demo_edge = edge_ID demo_edge"
  by (simp add: demo_edge_def CanonicalEdgeID_def)

lemma demo_contents:
  "mget (g_Entities demo_graph) i = (if i = ''a'' then Some (demo_entity ''a'' ''10.0.0.1'') else if i = ''b'' then Some (demo_entity ''b'' ''10.0.0.2'') else None)"
  "mget (g_Edges demo_graph) k = (if k = edge_ID demo_edge then Some demo_edge else None)"
  "g_CITypes demo_graph = fmempty" "g_RelationTypes demo_graph = g_RelationTypes New"
  by (simp_all add: demo_graph_def fmlookup_of_list New_contents)

lemma demo_graph_ok: "graph_ok demo_graph"
proof -
  have "keyed (rebuildIndexes g) = keyed g" for g by (simp add: keyed_def)
  moreover have "keyed demo_graph" using demo_canonical by (auto simp: keyed_def demo_contents demo_entity_def split: if_splits)
  ultimately show ?thesis unfolding demo_graph_def by (metis rebuild_graph_ok)
qed

lemma demo_identities: "identity_index_ok demo_graph (g_Entities demo_graph)"
proof -
  have covered: "identities_covered demo_graph (g_Entities demo_graph)"
    unfolding demo_graph_def rebuildIndexes_frame by (rule rebuildIndexes_covered)
  have "g_legacyIdentity demo_graph = False" using New_ok(4) by (simp add: demo_graph_def)
  moreover have "sig_Value ` set (identitySignatures fmempty False (demo_entity ''a'' ''10.0.0.1'')) \<inter>
      sig_Value ` set (identitySignatures fmempty False (demo_entity ''b'' ''10.0.0.2'')) = {}" by code_simp
  ultimately have "unique_identities demo_graph" unfolding unique_identities_def demo_contents by (auto split: if_splits)
  with covered show ?thesis by (rule identities_covered_unique)
qed

lemma demo_cache: "neighbor_cache_bounded demo_graph"
  using rebuild_no_orders unfolding demo_graph_def
  by (simp add: neighbor_cache_bounded_def no_orders_def maxNeighborOrderBytes_def)

lemma demo_entity_normal:
  "normalizeEntity (demo_entity ''a'' ''10.0.0.1'') = Inr (demo_entity ''a'' ''10.0.0.1'')"
  "normalizeEntity (demo_entity ''b'' ''10.0.0.2'') = Inr (demo_entity ''b'' ''10.0.0.2'')"
  "backfillFieldSources (demo_entity ''a'' ''10.0.0.1'') = demo_entity ''a'' ''10.0.0.1''"
  "backfillFieldSources (demo_entity ''b'' ''10.0.0.2'') = demo_entity ''b'' ''10.0.0.2''"
  by code_simp+

lemma standard_normal: "\<forall>r \<in> set StandardRelationTypes. normalizeRelationType r = Inr r"
  by code_simp

lemma demo_edge_normal: "normalizeEdge demo_edge = Inr demo_edge" "stamped demo_edge"
proof -
  have id: "edge_ID demo_edge = CanonicalEdgeID demo_edge" by (simp add: demo_canonical)
  then have "TrimSpace (edge_ID demo_edge) = edge_ID demo_edge" by simp
  moreover have "TrimSpace ''runs_on'' = ''runs_on''" "TrimSpace ''a'' = ''a''" "TrimSpace ''b'' = ''b''"
    "normalizeFields fmempty = Inr fmempty" "normalizeFieldSources fmempty = fmempty" "normalizeEdgeSourceList [] 5 = []" by code_simp+
  moreover note demo_nil = this(6)
  ultimately show "normalizeEdge demo_edge = Inr demo_edge"
    by (simp add: normalizeEdge_def demo_edge_def zero_Edge_def Let_def)
  show "stamped demo_edge" 
    using id [symmetric] demo_nil
    by (simp add: stamped_def canonicalizeEdge_def normalizeEdgeSources_def backfillEdgeSources_def Let_def demo_edge_def zero_Edge_def)
qed

lemma New_relations: "mget (g_RelationTypes New) k = Some r \<Longrightarrow> r \<in> set StandardRelationTypes \<and> rt_Name r = k"
proof -
  have "mget (fold (\<lambda>x. fmupd (key x) x) xs M) k = Some r \<Longrightarrow> r \<in> set xs \<and> key r = k \<or> mget M k = Some r"
    for key :: "RelationType \<Rightarrow> string" and xs M
  proof (induction xs arbitrary: M)
    case (Cons x xs)
    then have "mget (fold (\<lambda>x. fmupd (key x) x) xs (fmupd (key x) x M)) k = Some r" by simp
    then have "r \<in> set xs \<and> key r = k \<or> mget (fmupd (key x) x M) k = Some r" by (rule Cons.IH)
    then show ?case by (auto split: if_splits)
  qed simp
  from this [of rt_Name StandardRelationTypes fmempty]
  show "mget (g_RelationTypes New) k = Some r \<Longrightarrow> ?thesis" by (simp add: New_def)
qed

lemma demo_edges_valid: "edges_valid demo_graph" "cardinalities_ok demo_graph"
proof -
  have "mget (g_RelationTypes New) ''runs_on'' = Some (standardRelation ''runs_on'' ''runs on'' ''runs'' ''forward'')"
    by (simp add: New_def StandardRelationTypes_def standardRelation_def)
  then show "edges_valid demo_graph"
    by (auto simp: edges_valid_def validateEdge_def demo_contents demo_edge_def demo_entity_def kindAllowed_def standardRelation_def zero_RelationType_def
        split: if_splits)
  show "cardinalities_ok demo_graph" by (auto simp: cardinalities_ok_def demo_contents split: if_splits)
qed

lemma demo_owners: "distinct_owners (g_Entities demo_graph)"
proof -
  have "owner_keys (demo_entity ''a'' ''10.0.0.1'') \<inter> owner_keys (demo_entity ''b'' ''10.0.0.2'') = {}" by code_simp
  then show ?thesis unfolding distinct_owners_def demo_contents by (auto split: if_splits)
qed

lemma demo_storage_form: "storage_form demo_graph"
proof -
  have "keyed demo_graph" using demo_graph_ok by (simp add: graph_ok_def)
  moreover have "ct_Name c = k \<and> normalizeCIType c = Inr c" if "mget (g_CITypes demo_graph) k = Some c" for k c using that by (simp add: demo_contents)
  moreover have "rt_Name r = k \<and> normalizeRelationType r = Inr r" if "mget (g_RelationTypes demo_graph) k = Some r" for k r
    using New_relations [of k r] that standard_normal by (simp add: demo_contents)
  moreover have "normalizeEntity e = Inr e \<and> backfillFieldSources e = e" if "mget (g_Entities demo_graph) k = Some e" for k e
    using that demo_entity_normal by (auto simp: demo_contents split: if_splits)
  moreover have "normalizeEdge e = Inr e \<and> stamped e" if "mget (g_Edges demo_graph) k = Some e" for k e
    using that demo_edge_normal by (auto simp: demo_contents split: if_splits)
  ultimately show ?thesis
    unfolding storage_form_def using demo_owners demo_edges_valid New_contents(5) New_ok(4) by (simp add: demo_contents(4)) (simp add: demo_graph_def)
qed

section \<open>Snapshots\<close>

text \<open>C39.
  A graph that is restored from a snapshot whose entities all carry an ID that is not blank has exact indexes (of
  aliases, kinds, counts, fields and edges) and caches, and every item under its own (canonical) ID. Its identity index
  registers every signature of every entity, each for an entity that has it; if no two entities of a kind share a
  signature it is exact, and all indexes are those of a rebuild. Every edge has a known relation type and existing
  endpoints of allowed kinds, the cardinalities of the relation types hold, and the version is the snapshot's.
\<close>

theorem restored_graph_sound:
  assumes "FromSnapshot snapshot = Inr g" and "\<forall>e \<in> set (sn_Entities snapshot). TrimSpace (ent_ID e) \<noteq> []"
  shows "graph_ok g \<and> identities_covered g (g_Entities g) \<and>
    (unique_identities g \<longrightarrow> identity_index_ok g (g_Entities g) \<and> same_indexes g (rebuildIndexes g)) \<and>
    edges_valid g \<and> cardinalities_ok g \<and> g_Version g = sn_Version snapshot"
proof -
  have ids: "TrimSpace (ent_ID e) \<noteq> []" if "e \<in> set (sn_Entities snapshot)" for e using that assms(2) by blast
  note sound = restored_sound [OF assms(1) ids]
  have "identity_index_ok g (g_Entities g) \<and> same_indexes g (rebuildIndexes g)" if "unique_identities g"
    using identities_covered_unique [OF sound(5) that] sound(1) by (simp add: graph_ok_def index_ok_same_as_rebuild)
  with sound show ?thesis by blast
qed

text \<open>C40.
  A graph in storage form (all items normalised, the current identity encoding) with exact indexes, the identity index
  included, is restored from its snapshot with the same version, types, entities and edges and with the same indexes,
  the identity index included, and its snapshot is the same again.
\<close>

theorem snapshot_roundtrip:
  assumes "storage_form g" and "graph_ok g" and "identity_index_ok g (g_Entities g)"
  shows "\<exists>g'. FromSnapshot (SnapshotOf g) = Inr g' \<and> contents g' = contents g \<and> same_indexes g' g \<and> SnapshotOf g' = SnapshotOf g"
proof -
  obtain g' where g': "FromSnapshot (SnapshotOf g) = Inr g'" "contents g' = contents g" by (rule restore_contents [OF assms(1)])
  have "TrimSpace (ent_ID e) \<noteq> []" if "e \<in> set (sn_Entities (SnapshotOf g))" for e
    using that assms(1) normalizeEntity_frame(1) [of e e]
    by (force simp: SnapshotOf_def take_snapshot_def storage_form_def keyed_def)
  note sound = restored_sound [OF g'(1) this]
  have "identities g = identities g'"
    using sound(5,6) assms(1) g'(2) by (intro identities_determined [OF assms(3)]) (simp_all add: contents_def storage_form_def)
  with sound(1) have "same_indexes g' g"
    using assms(2) g'(2) index_ok_unique [of g' "g_Entities g" "g_Edges g" g] by (simp add: graph_ok_def index_ok_def contents_def)
  moreover have "SnapshotOf g' = SnapshotOf g" using g'(2) by (simp add: SnapshotOf_def take_snapshot_def contents_def)
  ultimately show ?thesis using g' by blast
qed

theorem snapshot_roundtrip_witness:
  "storage_form demo_graph \<and> (\<exists>g'. FromSnapshot (SnapshotOf demo_graph) = Inr g' \<and> contents g' = contents demo_graph)"
  using snapshot_roundtrip [OF demo_storage_form demo_graph_ok demo_identities] demo_storage_form by blast

theorem restored_graph_sound_witness:
  "\<exists>g. FromSnapshot (SnapshotOf demo_graph) = Inr g \<and> graph_ok g \<and> edges_valid g \<and> cardinalities_ok g"
proof -
  obtain g where g: "FromSnapshot (SnapshotOf demo_graph) = Inr g" by (rule restore_contents [OF demo_storage_form])
  moreover have "TrimSpace ''a'' \<noteq> []" "TrimSpace ''b'' \<noteq> []" by code_simp+
  then have "\<forall>e \<in> set (sn_Entities (SnapshotOf demo_graph)). TrimSpace (ent_ID e) \<noteq> []"
    by (auto simp: SnapshotOf_def take_snapshot_def demo_contents demo_entity_def split: if_splits)
  ultimately show ?thesis using restored_graph_sound [of "SnapshotOf demo_graph" g] by blast
qed

section \<open>Reads\<close>

text \<open>C31.
  Filtering entities through the field index, by the smallest bucket of the filters that have one, gives what a scan
  of all entities gives: exactly the stored entities of the kind that match every filter, in the order of their IDs.
\<close>

theorem MatchEntities_equals_scan:
  assumes "graph_ok g"
  shows "MatchEntities g kind filters =
    stored_entities g (\<lambda>e. (kind = [] \<or> ent_Kind e = kind) \<and> fieldsMatch (ent_Fields e) filters)"
  by (rule MatchEntities_scan [OF assms])

definition demo_filter :: Fields where "demo_filter = fmap_of_list [(''ip'', VString ''10.0.0.1'')]"

theorem MatchEntities_equals_scan_witness:
  "graph_ok demo_graph \<and> MatchEntities demo_graph ''host'' demo_filter = [demo_entity ''a'' ''10.0.0.1'']"
proof -
  have "fieldsMatch (ent_Fields (demo_entity ''a'' ''10.0.0.1'')) demo_filter" "\<not> fieldsMatch (ent_Fields (demo_entity ''b'' ''10.0.0.2'')) demo_filter"
    by code_simp+
  moreover have "ent_Kind (demo_entity i ip) = ''host''" for i ip by (simp add: demo_entity_def)
  ultimately have "{i. \<exists>e. mget (g_Entities demo_graph) i = Some e \<and> ((''host'' :: string) = [] \<or> ent_Kind e = ''host'') \<and> fieldsMatch (ent_Fields e) demo_filter} = {''a''}"
    by (auto simp: demo_contents split: if_splits)
  then show ?thesis
    using MatchEntities_equals_scan [OF demo_graph_ok, of "''host''" demo_filter] demo_graph_ok
    by (simp add: stored_entities_def stored_ids_def sortedKeys_def demo_contents)
qed

text \<open>C32.
  Looking values up in the index of a field gives exactly the IDs of the entities of the kind whose field has one of
  them, ascending and without duplicates; \<open>FieldIndexCount\<close> is their number, and \<open>VisitFieldIndexIDs\<close>, which merges the
  lists of the values through a heap, visits the same IDs in the same order and counts the visits. None of these
  changes more than a cache.
\<close>

theorem field_index_reads_exact:
  assumes "graph_ok g" and "kind \<noteq> []" and "field \<noteq> []"
  shows "reads g (MatchFieldIndexIDs kind field vals g) (value_ids g kind field (value_keys vals)) \<and>
    FieldIndexCount g kind field vals = int (length (value_ids g kind field (value_keys vals))) \<and>
    reads g (VisitFieldIndexIDs kind field vals (Some visit) g s) (visit_count visit (value_ids g kind field (value_keys vals)) 0 s)"
  by (intro conjI MatchFieldIndexIDs_reads FieldIndexCount_length VisitFieldIndexIDs_reads assms)

lemma reads_fst: "reads g r x \<Longrightarrow> fst r = x"
  by (cases r) (simp add: reads_def)

lemma demo_value_ids: "value_ids demo_graph ''host'' ''ip'' (value_keys [VString ''10.0.0.2'', VString ''x'']) = [''b'']"
proof -
  have "{i. \<exists>e. mget (g_Entities demo_graph) i = Some e \<and> ent_Kind e = ''host'' \<and>
      (\<exists>x k. mget (ent_Fields e) ''ip'' = Some x \<and> ScalarIndexKey x = Some k \<and> k \<in> value_keys [VString ''10.0.0.2'', VString ''x''])} = {''b''}"
    by (auto simp: demo_contents demo_entity_def fmlookup_of_list split: if_splits)
  then show ?thesis by (simp add: value_ids_def stored_ids_def sortedKeys_def)
qed

theorem field_index_reads_exact_witness:
  "fst (MatchFieldIndexIDs ''host'' ''ip'' [VString ''10.0.0.2'', VString ''x''] demo_graph) = [''b''] \<and>
   FieldIndexCount demo_graph ''host'' ''ip'' [VString ''10.0.0.2'', VString ''x''] = 1"
  using field_index_reads_exact [OF demo_graph_ok, of "''host''" "''ip''" "[VString ''10.0.0.2'', VString ''x'']" "\<lambda>s i. (s @ [i], None :: unit option)" "[]"]
  by (simp only: demo_value_ids) (auto dest: reads_fst)

text \<open>C33.
  Visiting several ascending lists of IDs, with a heap of cursors that seek the start, is visiting the ascending list
  of the distinct nonempty IDs from the start on that are in any of them, and ends at the same point and with the same
  error if the visitor ends it.
\<close>

theorem VisitSortedIDs_visits_union:
  assumes "\<forall>ids \<in> set buckets. sorted ids"
  shows "VisitSortedIDs buckets startID (Some visit) s =
    visit_each visit (sortedKeys {i. i \<noteq> [] \<and> startID \<le> i \<and> (\<exists>ids \<in> set buckets. i \<in> set ids)}) s"
  by (rule VisitSortedIDs_correct [OF assms])

theorem VisitSortedIDs_visits_union_witness:
  "VisitSortedIDs [[''a'', ''c''], [''b'', ''c'', ''d'']] ''b'' (Some (\<lambda>s i. (s @ [i], Inr (i \<noteq> ''c'') :: unit + bool))) [] = ([''b'', ''c''], None)"
proof -
  have "{i. i \<noteq> [] \<and> ''b'' \<le> i \<and> (\<exists>ids \<in> set [[''a'', ''c''], [''b'', ''c'', ''d'']]. i \<in> set ids)} = {''b'', ''c'', ''d''}"
    by (auto simp: less_eq_char_def)
  moreover have "sortedKeys {''b'', ''c'', ''d''} = [''b'', ''c'', ''d'']"
    by (rule sortedKeys_eqI) (auto simp: less_eq_char_def)
  moreover have "\<forall>ids \<in> set [[''a'', ''c''], [''b'', ''c'', ''d'']]. sorted ids" by (auto simp: less_eq_char_def)
  ultimately show ?thesis
    using VisitSortedIDs_visits_union [of "[[''a'', ''c''], [''b'', ''c'', ''d'']]" "''b''" "\<lambda>s i. (s @ [i], Inr (i \<noteq> ''c'') :: unit + bool)" "[]"]
    by simp
qed

text \<open>C34.
  A range scan over the sorted values of a field, narrowed by binary search for each bound, visits exactly the IDs from
  the start on of the entities of the kind whose value is within all bounds and matches the caller's predicate, in
  ascending order: numbers are compared as numbers as soon as a bound is numeric, all other values as text, and a
  \<open>NaN\<close> is in no numeric range.
\<close>

theorem range_scan_exact:
  fixes visit :: "'s \<Rightarrow> string \<Rightarrow> 's \<times> ('e + bool)"
  assumes "graph_ok g"
  shows "reads g (VisitFilteredFieldIDs kind field bounds startID (\<lambda>s key. (s, Inr (p key))) (Some visit) g s)
    (visit_each visit (filter (\<lambda>i. startID \<le> i) (value_ids g kind field {key. key_in_ranges bounds key \<and> p key})) s)"
  by (rule VisitFilteredFieldIDs_reads [OF assms])

definition demo_bound :: FieldIndexRange where
  "demo_bound = \<lparr>fir_Op = ''gt'', fir_Text = ''10.0.0.1'', fir_Number = Fin 0, fir_Numeric = False\<rparr>"

definition collect :: "string list \<Rightarrow> string \<Rightarrow> string list \<times> (unit + bool)" where
  "collect s i = (s @ [i], Inr True)"

lemma demo_range: "value_ids demo_graph ''host'' ''ip'' {key. key_in_ranges [demo_bound] key \<and> True} = [''b'']"
proof -
  have "\<not> key_in_ranges [demo_bound] ''s:10.0.0.1''" "key_in_ranges [demo_bound] ''s:10.0.0.2''" by code_simp+
  then have "{i. \<exists>e. mget (g_Entities demo_graph) i = Some e \<and> ent_Kind e = ''host'' \<and>
      (\<exists>x k. mget (ent_Fields e) ''ip'' = Some x \<and> ScalarIndexKey x = Some k \<and> k \<in> {key. key_in_ranges [demo_bound] key \<and> True})} = {''b''}"
    by (auto simp: demo_contents demo_entity_def fmlookup_of_list split: if_splits)
  then show ?thesis by (simp add: value_ids_def stored_ids_def sortedKeys_def)
qed

theorem range_scan_exact_witness:
  "fst (VisitFilteredFieldIDs ''host'' ''ip'' [demo_bound] [] (\<lambda>s key. (s, Inr True)) (Some collect) demo_graph []) = ([''b''], None)"
  using range_scan_exact [OF demo_graph_ok, of "''host''" "''ip''" "[demo_bound]" "[]" "\<lambda>_. True" collect "[]"]
  by (simp only: demo_range) (auto dest!: reads_fst simp: collect_def)

text \<open>C35.
  A page of entities after a given ID visits exactly the stored entities of the kind with greater IDs, in ascending
  order of their IDs, whether the order is cached or not; an empty kind means all kinds.
\<close>

theorem entity_pages_exact:
  assumes "graph_ok g"
  shows "reads g (VisitEntitiesByID kind afterID (Some visit) g s)
    (visit_each visit (stored_entities g (\<lambda>e. (kind = [] \<or> ent_Kind e = kind) \<and> (afterID = [] \<or> afterID < ent_ID e))) s)"
  by (rule VisitEntitiesByID_reads [OF assms])

theorem entity_pages_exact_witness:
  "fst (VisitEntitiesByID ''host'' ''a'' (Some (\<lambda>s e. collect s (ent_ID e))) demo_graph []) = ([''b''], None)"
proof -
  have "{i. \<exists>e. mget (g_Entities demo_graph) i = Some e \<and> ((''host'' :: string) = [] \<or> ent_Kind e = ''host'') \<and> ((''a'' :: string) = [] \<or> ''a'' < ent_ID e)} = {''b''}"
    by (auto simp: demo_contents demo_entity_def less_char_def split: if_splits)
  then have "stored_entities demo_graph (\<lambda>e. ((''host'' :: string) = [] \<or> ent_Kind e = ''host'') \<and> ((''a'' :: string) = [] \<or> ''a'' < ent_ID e)) = [demo_entity ''b'' ''10.0.0.2'']"
    by (simp only: stored_entities_def stored_ids_def sortedKeys_def) (simp add: demo_contents)
  with entity_pages_exact [OF demo_graph_ok, of "''host''" "''a''" "\<lambda>s e. collect s (ent_ID e)" "[]"] show ?thesis
    by (simp only:) (auto dest!: reads_fst simp: collect_def demo_entity_def)
qed

section \<open>Neighbours\<close>

text \<open>C36.
  The three ways to read the neighbours of an entity agree: \<open>FilteredNeighbors\<close> lists a neighbour for exactly the edges
  at the entity that the filters allow, in the order of their edge IDs; \<open>NeighborCount\<close> is the length of that list; and
  a page of \<open>VisitNeighborsByEdgeID\<close> returns and visits the same neighbours from its start edge on.
\<close>

theorem neighbor_reads_agree:
  fixes visit :: "'s \<Rightarrow> Neighbor \<Rightarrow> 's \<times> ('e + bool)"
  assumes "graph_ok g" and "neighbor_cache_bounded g" and "direction \<in> {[], ''out'', ''in'', ''both''}"
  shows "\<exists>ns g'. FilteredNeighbors g id' direction types kinds impact None s = (s, Inr ns :: 'e + Neighbor list) \<and>
    ns = map (neighborAt g) (filter (ref_allowed g types kinds impact) (neighbor_refs g id' (if direction = [] then ''both'' else direction))) \<and>
    is_ref_order (neighbor_refs g id' (if direction = [] then ''both'' else direction)) (neighborRefs (g_Edges g) id' (if direction = [] then ''both'' else direction)) \<and>
    NeighborCount g id' direction types kinds impact = int (length ns) \<and>
    VisitNeighborsByEdgeID id' direction types kinds impact startEdgeID None visit g s =
      Some (visit_each visit (filter (\<lambda>n. startEdgeID \<le> edge_ID (nb_Edge n)) ns) s, g')"
proof -
  let ?d = "if direction = [] then ''both'' else direction"
  let ?ns = "map (neighborAt g) (filter (ref_allowed g types kinds impact) (neighbor_refs g id' ?d))"
  have f: "FilteredNeighbors g id' direction types kinds impact None s = (s, Inr ?ns :: 'e + Neighbor list)" by (rule FilteredNeighbors_spec(1) [OF assms(1)])
  obtain g' where v: "VisitNeighborsByEdgeID id' direction types kinds impact startEdgeID None visit g s =
      Some (visit_each visit (filter (\<lambda>n. startEdgeID \<le> edge_ID (nb_Edge n)) ?ns) s, g')"
    by (rule VisitNeighborsByEdgeID_spec [OF assms f])
  show ?thesis
    by (intro exI conjI, rule f, rule refl, rule neighbor_refs_order [OF assms(1)]) (use NeighborCount_spec [OF assms(1)] v in \<open>simp_all\<close>)
qed

theorem neighbor_reads_agree_witness:
  "\<exists>ns g'. FilteredNeighbors demo_graph ''a'' ''out'' {''runs_on''} [''host''] True None ([] :: string list) = ([], Inr ns :: unit + Neighbor list) \<and>
     NeighborCount demo_graph ''a'' ''out'' {''runs_on''} [''host''] True = int (length ns) \<and>
     VisitNeighborsByEdgeID ''a'' ''out'' {''runs_on''} [''host''] True [] None (\<lambda>s n. collect s (edge_ID (nb_Edge n))) demo_graph [] =
       Some (visit_each (\<lambda>s n. collect s (edge_ID (nb_Edge n))) (filter (\<lambda>n. [] \<le> edge_ID (nb_Edge n)) ns) [], g')"
proof -
  have "(''out'' :: string) \<in> {[], ''out'', ''in'', ''both''}" by simp
  from neighbor_reads_agree [OF demo_graph_ok demo_cache this, of "''a''" "{''runs_on''}" "[''host'']" True "[]" "[]" "\<lambda>s n. collect s (edge_ID (nb_Edge n))"]
  show ?thesis by blast
qed

text \<open>C37.
  Reading the sorted adjacency of an entity always returns, whatever is charged for it and whatever is cached, and
  keeps the cache of adjacency orders within 256 entries and 32 MiB, with the byte count exact.
\<close>

theorem neighbor_cache_stays_bounded:
  assumes "graph_ok g" and "neighbor_cache_bounded g" and "nul \<notin> set direction"
  shows "\<exists>r g'. sortedNeighborRefs id' direction charge g s = Some (r, g') \<and> graph_ok g' \<and>
    length (skeys (g_neighborOrder g')) \<le> 256 \<and> g_neighborOrderBytes g' = neighbor_bytes (g_neighborOrder g') \<and>
    neighbor_bytes (g_neighborOrder g') \<le> 32 * 2 ^ 20 \<and> uncached g' = uncached g"
proof -
  obtain r g' where r: "sortedNeighborRefs id' direction charge g s = Some (r, g')" "graph_ok g'" "neighbor_cache_bounded g'" "uncached g' = uncached g"
    by (rule sortedNeighborRefs_spec [OF assms, of id' charge s])
  then show ?thesis
    by (intro exI [of _ r] exI [of _ g'])
       (simp add: graph_ok_def caches_ok_def neighbor_cache_bounded_def maxNeighborOrders_def maxNeighborOrderBytes_def)
qed

theorem neighbor_cache_stays_bounded_witness:
  "\<exists>r g'. sortedNeighborRefs ''a'' ''out'' (Some (\<lambda>n. (n + 1, if n > (5 :: nat) then Some () else None))) demo_graph 0 = Some (r, g') \<and>
     length (skeys (g_neighborOrder g')) \<le> 256"
  using neighbor_cache_stays_bounded [OF demo_graph_ok demo_cache, of "''out''" "''a''" "Some (\<lambda>n. (n + 1, if n > (5 :: nat) then Some () else None))" 0]
  by auto

text \<open>C38.
  The loop that evicts cached adjacency orders ends for every order that fits the cache at all, with room for one
  more entry and for its bytes, and evicts nothing but cached orders.
\<close>

theorem eviction_ends:
  assumes "graph_ok g" and "bytes \<le> maxNeighborOrderBytes"
  shows "\<exists>g1. evictNeighborOrders bytes g = Some g1 \<and> graph_ok g1 \<and> uncached g1 = uncached g \<and>
    length (skeys (g_neighborOrder g1)) < maxNeighborOrders \<and> g_neighborOrderBytes g1 + bytes \<le> maxNeighborOrderBytes"
  using evictNeighborOrders_returns [OF assms] by blast

theorem eviction_ends_witness:
  "(0 :: int) \<le> maxNeighborOrderBytes \<and> (\<exists>g1. evictNeighborOrders 0 demo_graph = Some g1)"
proof -
  have "(0 :: int) \<le> maxNeighborOrderBytes" by (simp add: maxNeighborOrderBytes_def)
  with eviction_ends [OF demo_graph_ok this] show ?thesis by blast
qed

end
