(* ===== verification/ShardedMaps.thy ===== *)
theory ShardedMaps
  imports ContentHash
begin

text \<open>
  The maps behind entities, edges and indexes (\<open>sharded_map.go\<close>): a small map in one bucket, or 256 buckets by a hash
  of the key, shared between a map and its clones until one of them writes. Buckets live in an explicit heap, a list
  that allocation extends, so that sharing is sharing of addresses. A store of maps refines a list of independent
  finite maps: a write through one map is never seen through another.
\<close>

section \<open>Buckets and maps\<close>

record 'v graphMapBucket =
  bk_values :: "(string, 'v) fmap"
  bk_shared :: bool

type_synonym 'v heap = "'v graphMapBucket list"

text \<open>The directory of buckets holds the addresses of those that are allocated.\<close>

record ShardedMap =
  sm_small :: "nat option"
  sm_buckets :: "(8 word, nat) fmap option"
  sm_size :: int

definition NewShardedMap :: ShardedMap where
  "NewShardedMap = \<lparr>sm_small = None, sm_buckets = None, sm_size = 0\<rparr>"

definition bucket_at :: "ShardedMap \<Rightarrow> string \<Rightarrow> nat option" where
  "bucket_at m key = (case sm_buckets m of None \<Rightarrow> sm_small m | Some bs \<Rightarrow> mget bs (logicalHashShard key))"

definition ShardedMap_Get :: "'v heap \<Rightarrow> ShardedMap \<Rightarrow> string \<Rightarrow> 'v option" where
  "ShardedMap_Get h m key = (case bucket_at m key of None \<Rightarrow> None | Some a \<Rightarrow> mget (bk_values (h ! a)) key)"

definition ShardedMap_At :: "'v \<Rightarrow> 'v heap \<Rightarrow> ShardedMap \<Rightarrow> string \<Rightarrow> 'v" where
  "ShardedMap_At zero h m key = (case ShardedMap_Get h m key of None \<Rightarrow> zero | Some v \<Rightarrow> v)"

definition ShardedMap_Len :: "ShardedMap \<Rightarrow> int" where
  "ShardedMap_Len m = sm_size m"

text \<open>A bucket that may be written: the own one, or a new one with the values of a shared or missing one.\<close>

definition own_bucket :: "'v heap \<Rightarrow> nat option \<Rightarrow> 'v heap \<times> nat" where
  "own_bucket h slot =
     (case slot of
        None \<Rightarrow> (h @ [\<lparr>bk_values = fmempty, bk_shared = False\<rparr>], length h)
      | Some a \<Rightarrow> if bk_shared (h ! a) then (h @ [\<lparr>bk_values = bk_values (h ! a), bk_shared = False\<rparr>], length h) else (h, a))"

definition writable :: "string \<Rightarrow> 'v heap \<Rightarrow> ShardedMap \<Rightarrow> 'v heap \<times> ShardedMap \<times> nat" where
  "writable key h m =
     (case sm_buckets m of
        None \<Rightarrow> let (h', a) = own_bucket h (sm_small m) in (h', m\<lparr>sm_small := Some a\<rparr>, a)
      | Some bs \<Rightarrow>
          let index = logicalHashShard key; (h', a) = own_bucket h (mget bs index)
          in (h', m\<lparr>sm_buckets := Some (fmupd index a bs)\<rparr>, a))"

text \<open>An assignment or a deletion in the writable bucket of a key.\<close>

definition bucket_write :: "string \<Rightarrow> ((string, 'v) fmap \<Rightarrow> (string, 'v) fmap) \<Rightarrow> 'v heap \<times> ShardedMap \<Rightarrow> 'v heap \<times> ShardedMap" where
  "bucket_write key f = (\<lambda>(h, m).
     let (h', m', a) = writable key h m in (h'[a := (h' ! a)\<lparr>bk_values := f (bk_values (h' ! a))\<rparr>], m'))"

definition grow :: "'v heap \<times> ShardedMap \<Rightarrow> 'v heap \<times> ShardedMap" where
  "grow = (\<lambda>(h, m).
     case sm_small m of
       None \<Rightarrow> (h, m)
     | Some a \<Rightarrow>
         if sm_size m > 32
         then fold (\<lambda>(key, value). bucket_write key (fmupd key value)) (entries (bk_values (h ! a)))
                (h, m\<lparr>sm_buckets := Some fmempty, sm_small := None\<rparr>)
         else (h, m))"

definition ShardedMap_Set :: "string \<Rightarrow> 'v \<Rightarrow> 'v heap \<times> ShardedMap \<Rightarrow> 'v heap \<times> ShardedMap" where
  "ShardedMap_Set key value hm =
     (let (h, m) = hm; (h1, m1, a) = writable key h m;
          size = (if mget (bk_values (h1 ! a)) key = None then sm_size m1 + 1 else sm_size m1)
      in grow (h1[a := (h1 ! a)\<lparr>bk_values := fmupd key value (bk_values (h1 ! a))\<rparr>], m1\<lparr>sm_size := size\<rparr>))"

definition ShardedMap_Delete :: "string \<Rightarrow> 'v heap \<times> ShardedMap \<Rightarrow> 'v heap \<times> ShardedMap" where
  "ShardedMap_Delete key hm =
     (let (h, m) = hm in
      if ShardedMap_Get h m key = None then (h, m)
      else let (h', m') = bucket_write key (fmdrop key) (h, m) in (h', m'\<lparr>sm_size := sm_size m' - 1\<rparr>))"

definition share :: "nat \<Rightarrow> 'v heap \<Rightarrow> 'v heap" where
  "share a h = h[a := (h ! a)\<lparr>bk_shared := True\<rparr>]"

definition ShardedMap_Clone :: "'v heap \<Rightarrow> ShardedMap \<Rightarrow> 'v heap \<times> ShardedMap" where
  "ShardedMap_Clone h m =
     (case sm_small m of
        Some a \<Rightarrow> (share a h, NewShardedMap\<lparr>sm_small := Some a, sm_size := sm_size m\<rparr>)
      | None \<Rightarrow>
          (case sm_buckets m of
             None \<Rightarrow> (h, NewShardedMap)
           | Some bs \<Rightarrow> (fold (\<lambda>(index, a). share a) (entries bs) h, NewShardedMap\<lparr>sm_buckets := Some bs, sm_size := sm_size m\<rparr>)))"

definition ShardedMap_All :: "'v heap \<Rightarrow> ShardedMap \<Rightarrow> (string \<times> 'v) list" where
  "ShardedMap_All h m =
     (case sm_small m of
        Some a \<Rightarrow> entries (bk_values (h ! a))
      | None \<Rightarrow>
          (case sm_buckets m of
             None \<Rightarrow> []
           | Some bs \<Rightarrow> concat (map (\<lambda>(index, a). entries (bk_values (h ! a))) (entries bs))))"

definition ShardedMap_Keys :: "'v heap \<Rightarrow> ShardedMap \<Rightarrow> string list" where
  "ShardedMap_Keys h m = map fst (ShardedMap_All h m)"

definition ShardedMapFrom :: "(string, 'v) fmap \<Rightarrow> 'v heap \<Rightarrow> 'v heap \<times> ShardedMap" where
  "ShardedMapFrom values h = fold (\<lambda>(key, value). ShardedMap_Set key value) (entries values) (h, NewShardedMap)"

section \<open>Shape and frame\<close>

definition addrs :: "ShardedMap \<Rightarrow> nat set" where
  "addrs m = set_option (sm_small m) \<union> (case sm_buckets m of None \<Rightarrow> {} | Some bs \<Rightarrow> {a. \<exists>i. mget bs i = Some a})"

text \<open>A sharded map keeps a key in the bucket of its hash, and no bucket twice.\<close>

definition shape :: "'v heap \<Rightarrow> ShardedMap \<Rightarrow> bool" where
  "shape h m \<longleftrightarrow> (\<forall>a \<in> addrs m. a < length h) \<and>
     (\<forall>bs. sm_buckets m = Some bs \<longrightarrow> sm_small m = None \<and>
        (\<forall>i j a. mget bs i = Some a \<longrightarrow> mget bs j = Some a \<longrightarrow> i = j) \<and>
        (\<forall>i a k v. mget bs i = Some a \<longrightarrow> mget (bk_values (h ! a)) k = Some v \<longrightarrow> logicalHashShard k = i))"

text \<open>
  What a write through a map may do to the heap: extend it and change buckets that the map has for itself. The
  addresses it ends with are its own or new ones.
\<close>

definition owns :: "'v heap \<Rightarrow> ShardedMap \<Rightarrow> nat \<Rightarrow> bool" where
  "owns h m a \<longleftrightarrow> a \<in> addrs m \<and> \<not> bk_shared (h ! a)"

definition writes :: "'v heap \<times> ShardedMap \<Rightarrow> 'v heap \<times> ShardedMap \<Rightarrow> bool" where
  "writes = (\<lambda>(h, m) (h', m'). length h \<le> length h' \<and>
     (\<forall>a < length h. bk_shared (h' ! a) = bk_shared (h ! a) \<and> (\<not> owns h m a \<longrightarrow> h' ! a = h ! a)) \<and>
     (\<forall>a \<in> addrs m'. a \<in> addrs m \<or> length h \<le> a))"

lemma writes_refl: "writes (h, m) (h, m)"
  by (simp add: writes_def)

lemma writes_trans:
  assumes "writes (h, m) (h1, m1)" "writes (h1, m1) (h2, m2)"
  shows "writes (h, m) (h2, m2)"
proof -
  have "owns h m a" if "owns h1 m1 a" "a < length h" for a
    using that assms(1) by (auto simp: writes_def owns_def)
  with assms show ?thesis unfolding writes_def prod.case by (metis le_trans less_le_trans not_le)
qed

lemma own_bucket_cases:
  assumes "own_bucket h slot = (h', a)" and "\<And>x. slot = Some x \<Longrightarrow> x < length h"
  shows "\<not> bk_shared (h' ! a) \<and> a < length h' \<and> bk_values (h' ! a) = (case slot of None \<Rightarrow> fmempty | Some x \<Rightarrow> bk_values (h ! x)) \<and>
    (h' = h \<and> slot = Some a \<or> a = length h \<and> (\<exists>b. h' = h @ [b]))"
  using assms by (auto simp: own_bucket_def split: option.splits if_splits)

definition key_local :: "string \<Rightarrow> 'v option \<Rightarrow> ((string, 'v) fmap \<Rightarrow> (string, 'v) fmap) \<Rightarrow> bool" where
  "key_local key r f \<longleftrightarrow> (\<forall>x k. mget (f x) k = (if k = key then r else mget x k))"

lemma key_local_simps [simp]: "key_local key (Some v) (fmupd key v)" "key_local key None (fmdrop key)"
  by (auto simp: key_local_def)

lemma shape_addr: "shape h m \<Longrightarrow> bucket_at m k = Some a \<Longrightarrow> a \<in> addrs m \<and> a < length h"
  by (auto simp: shape_def bucket_at_def addrs_def split: option.splits)

lemma own_bucket_frame:
  assumes "own_bucket h slot = (h', a)" "\<And>x. slot = Some x \<Longrightarrow> x < length h"
  shows "length h \<le> length h'" "x < length h \<Longrightarrow> h' ! x = h ! x"
  using own_bucket_cases [OF assms] by (auto simp: nth_append)

lemma writable_small:
  assumes sh: "shape h m" and w: "writable key h m = (h', m', a)" and b: "sm_buckets m = None"
  shows "shape h' m'" "bucket_at m' key = Some a" "owns h' m' a" "writes (h, m) (h', m')" "sm_size m' = sm_size m"
    "ShardedMap_Get h' m' = ShardedMap_Get h m" "sm_buckets m' = None"
proof -
  obtain o: "own_bucket h (sm_small m) = (h', a)" and m': "m' = m\<lparr>sm_small := Some a\<rparr>"
    using w b by (auto simp: writable_def split: prod.splits)
  have sl: "\<And>x. sm_small m = Some x \<Longrightarrow> x < length h" using sh by (auto simp: shape_def addrs_def)
  note c = own_bucket_cases [OF o sl] and f = own_bucket_frame [OF o sl]
  have ad: "addrs m' = {a}" "addrs m = set_option (sm_small m)" using b by (auto simp: addrs_def m')
  show "shape h' m'" using c b by (simp add: shape_def ad) (simp add: m')
  show "bucket_at m' key = Some a" "sm_size m' = sm_size m" "sm_buckets m' = None" using b by (simp_all add: bucket_at_def m')
  show "owns h' m' a" using c by (simp add: owns_def ad)
  show "writes (h, m) (h', m')" using f c by (auto simp: writes_def ad)
  show "ShardedMap_Get h' m' = ShardedMap_Get h m"
    using c b by (intro ext) (auto simp: ShardedMap_Get_def bucket_at_def m' split: option.splits)
qed

lemma writable_sharded:
  assumes sh: "shape h m" and w: "writable key h m = (h', m', a)" and b: "sm_buckets m = Some bs"
  shows "shape h' m'" "bucket_at m' key = Some a" "owns h' m' a" "writes (h, m) (h', m')" "sm_size m' = sm_size m"
    "ShardedMap_Get h' m' = ShardedMap_Get h m" "sm_buckets m' \<noteq> None"
proof -
  let ?i = "logicalHashShard key"
  obtain o: "own_bucket h (mget bs ?i) = (h', a)" and m': "m' = m\<lparr>sm_buckets := Some (fmupd ?i a bs)\<rparr>"
    using w b by (auto simp: writable_def Let_def split: prod.splits)
  have lt: "\<And>x i. mget bs i = Some x \<Longrightarrow> x < length h" and small: "sm_small m = None"
    and inj: "\<And>i j x. mget bs i = Some x \<Longrightarrow> mget bs j = Some x \<Longrightarrow> i = j"
    and shard: "\<And>i x k v. mget bs i = Some x \<Longrightarrow> mget (bk_values (h ! x)) k = Some v \<Longrightarrow> logicalHashShard k = i"
    using sh b by (auto simp: shape_def addrs_def)
  have lt': "\<And>x. mget bs ?i = Some x \<Longrightarrow> x < length h" by (rule lt)
  note c = own_bucket_cases [OF o lt'] and f = own_bucket_frame [OF o lt']
  have other: "x \<noteq> a" if "mget bs i = Some x" "i \<noteq> ?i" for i x
    using c lt [OF that(1)] inj [OF that(1)] that(2) by auto
  have ad: "addrs m' = insert a {x. \<exists>i. i \<noteq> ?i \<and> mget bs i = Some x}" "addrs m = {x. \<exists>i. mget bs i = Some x}"
    using b small by (auto simp: addrs_def m') metis+
  have vals: "logicalHashShard k = ?i" if "mget (bk_values (h' ! a)) k = Some v" for k v
    using c that shard [of ?i] by (auto split: option.splits)
  show "shape h' m'"
    unfolding shape_def
  proof (intro conjI ballI allI impI)
    fix x assume "x \<in> addrs m'"
    then show "x < length h'" using c less_le_trans [OF lt f(1)] by (auto simp: ad)
  next
    fix bs' assume bs': "sm_buckets m' = Some bs'"
    then have e: "bs' = fmupd ?i a bs" by (simp add: m')
    show "sm_small m' = None" by (simp add: m' small)
    show "i = j" if "mget bs' i = Some x" "mget bs' j = Some x" for i j x
      using that inj [of i x j] other [of i x] other [of j x] by (auto simp: e split: if_splits)
    show "logicalHashShard k = i" if "mget bs' i = Some x" "mget (bk_values (h' ! x)) k = Some v" for i x k v
      using that vals shard f(2) lt by (auto simp: e split: if_splits)
  qed
  show "bucket_at m' key = Some a" "sm_size m' = sm_size m" "sm_buckets m' \<noteq> None" by (simp_all add: bucket_at_def m')
  show "owns h' m' a" using c by (simp add: owns_def ad)
  show "writes (h, m) (h', m')" using f c by (auto simp: writes_def ad)
  show "ShardedMap_Get h' m' = ShardedMap_Get h m"
  proof
    fix k
    show "ShardedMap_Get h' m' k = ShardedMap_Get h m k"
    proof (cases "logicalHashShard k = ?i")
      case True
      then show ?thesis using c b by (auto simp: ShardedMap_Get_def bucket_at_def m' split: option.splits)
    next
      case False
      then show ?thesis using f(2) lt b by (auto simp: ShardedMap_Get_def bucket_at_def m' split: option.splits)
    qed
  qed
qed

text \<open>The bucket that \<open>writable\<close> returns is the map's own one for the key, and the map holds what it held.\<close>

lemma writable_spec:
  assumes sh: "shape h m" and w: "writable key h m = (h', m', a)"
  shows "shape h' m'" "bucket_at m' key = Some a" "owns h' m' a" "writes (h, m) (h', m')" "sm_size m' = sm_size m"
    "ShardedMap_Get h' m' = ShardedMap_Get h m" "sm_buckets m' = None \<longleftrightarrow> sm_buckets m = None"
  using writable_small [OF sh w] writable_sharded [OF sh w] by (cases "sm_buckets m"; simp)+

section \<open>Writing a key\<close>

lemma update_bucket:
  assumes sh: "shape h m" and at: "bucket_at m key = Some a" and own: "owns h m a" and f: "key_local key r f"
  defines "h' \<equiv> h[a := (h ! a)\<lparr>bk_values := f (bk_values (h ! a))\<rparr>]"
  shows "shape h' m" "writes (h, m) (h', m)" "ShardedMap_Get h' m = (ShardedMap_Get h m)(key := r)"
proof -
  from shape_addr [OF sh at] have a: "a < length h" "a \<in> addrs m" by auto
  have at_a: "h' ! a = (h ! a)\<lparr>bk_values := f (bk_values (h ! a))\<rparr>" and other: "x \<noteq> a \<Longrightarrow> h' ! x = h ! x" for x
    using a by (simp_all add: h'_def)
  have len: "length h' = length h" by (simp add: h'_def)
  show "writes (h, m) (h', m)" using own at_a other by (auto simp: writes_def len owns_def) (metis graphMapBucket.select_convs(2) graphMapBucket.surjective graphMapBucket.update_convs(1))+
  show "shape h' m"
    unfolding shape_def
  proof (intro conjI ballI allI impI)
    show "x < length h'" if "x \<in> addrs m" for x using that sh by (simp add: shape_def len)
    fix bs assume bs: "sm_buckets m = Some bs"
    show "sm_small m = None" using sh bs by (simp add: shape_def)
    show "i = j" if "mget bs i = Some x" "mget bs j = Some x" for i j x using sh bs that by (auto simp: shape_def)
    show "logicalHashShard k = i" if i: "mget bs i = Some x" and v: "mget (bk_values (h' ! x)) k = Some v" for i x k v
    proof (cases "x = a \<and> k = key")
      case True
      then have "mget bs (logicalHashShard k) = Some x" using at bs by (simp add: bucket_at_def)
      with i sh bs show ?thesis unfolding shape_def by blast
    next
      case False
      then have "mget (bk_values (h ! x)) k = Some v"
        using v f by (cases "x = a") (auto simp: at_a other key_local_def)
      with i sh bs show ?thesis unfolding shape_def by blast
    qed
  qed
  show "ShardedMap_Get h' m = (ShardedMap_Get h m)(key := r)"
  proof
    fix k
    show "ShardedMap_Get h' m k = ((ShardedMap_Get h m)(key := r)) k"
      using f at by (cases "bucket_at m k = Some a") (auto simp: ShardedMap_Get_def at_a other key_local_def split: option.splits)
  qed
qed

lemma bucket_write_spec:
  assumes sh: "shape h m" and f: "key_local key r f" and w: "bucket_write key f (h, m) = (h', m')"
  shows "shape h' m'" "writes (h, m) (h', m')" "ShardedMap_Get h' m' = (ShardedMap_Get h m)(key := r)"
    "sm_size m' = sm_size m" "sm_buckets m' = None \<longleftrightarrow> sm_buckets m = None"
proof -
  obtain h1 m1 a where o: "writable key h m = (h1, m1, a)" by (metis prod_cases3)
  note s = writable_spec [OF sh o]
  note u = update_bucket [OF s(1,2,3) f]
  have e: "h' = h1[a := (h1 ! a)\<lparr>bk_values := f (bk_values (h1 ! a))\<rparr>]" "m' = m1" using w by (simp_all add: bucket_write_def o)
  show "shape h' m'" "ShardedMap_Get h' m' = (ShardedMap_Get h m)(key := r)" "sm_size m' = sm_size m" "sm_buckets m' = None \<longleftrightarrow> sm_buckets m = None"
    using s u by (simp_all add: e)
  show "writes (h, m) (h', m')" using writes_trans [OF s(4) u(2)] by (simp add: e)
qed

text \<open>Moving the values of a small map into buckets keeps what the map holds.\<close>

lemma spread_spec:
  assumes "shape h m" "fold (\<lambda>(k, v). bucket_write k (fmupd k v)) kvs (h, m) = (h', m')"
  shows "shape h' m' \<and> writes (h, m) (h', m') \<and> sm_size m' = sm_size m \<and>
    ShardedMap_Get h' m' = fold (\<lambda>(k, v) g. g(k := Some v)) kvs (ShardedMap_Get h m)"
  using assms
proof (induction kvs arbitrary: h m)
  case Nil
  then show ?case by (simp add: writes_refl)
next
  case (Cons kv kvs)
  obtain k v where kv: "kv = (k, v)" by (cases kv)
  obtain h1 m1 where o: "bucket_write k (fmupd k v) (h, m) = (h1, m1)" by (cases "bucket_write k (fmupd k v) (h, m)")
  note s = bucket_write_spec [OF Cons.prems(1) key_local_simps(1) o]
  from Cons.prems(2) have "fold (\<lambda>(k, v). bucket_write k (fmupd k v)) kvs (h1, m1) = (h', m')" by (simp add: kv o)
  from Cons.IH [OF s(1) this] s writes_trans [OF s(2)] show ?case by (simp add: kv)
qed

lemma fold_fun_upd_entries:
  fixes x :: "('k :: linorder, 'v) fmap"
  shows "fold (\<lambda>(k, v) g. g(k := Some v)) (entries x) (\<lambda>_. None) = mget x"
proof -
  have "fold (\<lambda>(k, v) g. g(k := Some v)) kvs g = (\<lambda>k. case map_of (rev kvs) k of None \<Rightarrow> g k | Some v \<Rightarrow> Some v)" for kvs :: "('k \<times> 'v) list" and g
    by (induction kvs arbitrary: g) (auto simp: map_add_def fun_eq_iff split: option.splits)
  moreover have "map_of (rev (entries x)) = map_of (entries x)" by (rule map_of_inject_set [THEN iffD2]) (simp_all add: rev_map [symmetric])
  ultimately show ?thesis by (intro ext) (simp split: option.split)
qed

lemma grow_spec:
  assumes sh: "shape h m" and g: "grow (h, m) = (h', m')"
  shows "shape h' m' \<and> writes (h, m) (h', m') \<and> sm_size m' = sm_size m \<and> ShardedMap_Get h' m' = ShardedMap_Get h m"
proof (cases "\<exists>a. sm_small m = Some a \<and> sm_size m > 32")
  case False
  then show ?thesis using g sh by (auto simp: grow_def writes_refl split: option.splits if_splits)
next
  case True
  then obtain a where a: "sm_small m = Some a" "sm_size m > 32" by blast
  have b: "sm_buckets m = None" using sh a by (cases "sm_buckets m") (auto simp: shape_def)
  let ?m = "m\<lparr>sm_buckets := Some fmempty, sm_small := None\<rparr>"
  have e: "addrs ?m = {}" "shape h ?m" "ShardedMap_Get h ?m = (\<lambda>_. None)"
    by (auto simp: addrs_def shape_def ShardedMap_Get_def bucket_at_def)
  have f: "fold (\<lambda>(k, v). bucket_write k (fmupd k v)) (entries (bk_values (h ! a))) (h, ?m) = (h', m')" using g a by (simp add: grow_def)
  note s = spread_spec [OF e(2) f]
  have "ShardedMap_Get h m = mget (bk_values (h ! a))" using a b by (auto simp: ShardedMap_Get_def bucket_at_def)
  moreover have "writes (h, m) (h, ?m)" by (simp add: writes_def e(1))
  ultimately show ?thesis using s writes_trans [of h m h ?m h' m'] by (simp add: e(3) fold_fun_upd_entries)
qed

section \<open>Operations on one map\<close>

text \<open>The stored size is the number of keys.\<close>

definition map_ok :: "'v heap \<Rightarrow> ShardedMap \<Rightarrow> bool" where
  "map_ok h m \<longleftrightarrow> shape h m \<and> finite (dom (ShardedMap_Get h m)) \<and> sm_size m = int (card (dom (ShardedMap_Get h m)))"

lemma size_update [simp]:
  "addrs (m\<lparr>sm_size := n\<rparr>) = addrs m" "ShardedMap_Get h (m\<lparr>sm_size := n\<rparr>) = ShardedMap_Get h m" "shape h (m\<lparr>sm_size := n\<rparr>) = shape h m"
  "writes hm (h, m\<lparr>sm_size := n\<rparr>) = writes hm (h, m)"
proof -
  show a: "addrs (m\<lparr>sm_size := n\<rparr>) = addrs m" by (simp add: addrs_def)
  have "bucket_at (m\<lparr>sm_size := n\<rparr>) = bucket_at m" by (intro ext) (simp add: bucket_at_def split: option.split)
  then show "ShardedMap_Get h (m\<lparr>sm_size := n\<rparr>) = ShardedMap_Get h m" by (intro ext) (simp add: ShardedMap_Get_def)
  show "shape h (m\<lparr>sm_size := n\<rparr>) = shape h m" by (simp add: shape_def a)
  show "writes hm (h, m\<lparr>sm_size := n\<rparr>) = writes hm (h, m)" by (cases hm) (simp add: writes_def a)
qed

lemma New_map_ok: "map_ok h NewShardedMap" "ShardedMap_Get h NewShardedMap = (\<lambda>_. None)" "addrs NewShardedMap = {}"
  by (auto simp: map_ok_def NewShardedMap_def shape_def addrs_def ShardedMap_Get_def bucket_at_def fun_eq_iff dom_def)

lemma Set_spec:
  assumes ok: "map_ok h m" and s: "ShardedMap_Set key v (h, m) = (h', m')"
  shows "map_ok h' m'" "writes (h, m) (h', m')" "ShardedMap_Get h' m' = (ShardedMap_Get h m)(key \<mapsto> v)"
proof -
  obtain h1 m1 a where o: "writable key h m = (h1, m1, a)" by (metis prod_cases3)
  let ?size = "if mget (bk_values (h1 ! a)) key = None then sm_size m1 + 1 else sm_size m1"
  let ?h2 = "h1[a := (h1 ! a)\<lparr>bk_values := fmupd key v (bk_values (h1 ! a))\<rparr>]"
  from ok have sh: "shape h m" by (simp add: map_ok_def)
  note w = writable_spec [OF sh o]
  note u = update_bucket [OF w(1,2,3) key_local_simps(1) [of key v]]
  have g: "grow (?h2, m1\<lparr>sm_size := ?size\<rparr>) = (h', m')" using s by (simp add: ShardedMap_Set_def o Let_def)
  have "shape ?h2 (m1\<lparr>sm_size := ?size\<rparr>)" using u(1) by simp
  note r = grow_spec [OF this g]
  show get: "ShardedMap_Get h' m' = (ShardedMap_Get h m)(key \<mapsto> v)" using r u(3) w(6) by simp
  have "writes (h, m) (?h2, m1\<lparr>sm_size := ?size\<rparr>)" using writes_trans [OF w(4) u(2)] by simp
  with r show "writes (h, m) (h', m')" by (metis writes_trans)
  have "mget (bk_values (h1 ! a)) key = ShardedMap_Get h m key" using w(2,6) by (metis ShardedMap_Get_def option.simps(5))
  then have "sm_size m' = (if ShardedMap_Get h m key = None then sm_size m + 1 else sm_size m)" using r w(5) by simp
  moreover have "shape h' m'" using r by simp
  ultimately show "map_ok h' m'" using ok unfolding map_ok_def get by (auto simp: insert_absorb domIff)
qed

lemma Delete_spec:
  assumes ok: "map_ok h m" and s: "ShardedMap_Delete key (h, m) = (h', m')"
  shows "map_ok h' m'" "writes (h, m) (h', m')" "ShardedMap_Get h' m' = (ShardedMap_Get h m)(key := None)"
proof -
  have "map_ok h' m' \<and> writes (h, m) (h', m') \<and> ShardedMap_Get h' m' = (ShardedMap_Get h m)(key := None)"
  proof (cases "ShardedMap_Get h m key")
    case None
    then show ?thesis using ok s by (auto simp: ShardedMap_Delete_def writes_refl fun_eq_iff)
  next
    case (Some v)
    from ok have sh: "shape h m" by (simp add: map_ok_def)
    obtain h1 m1 where o: "bucket_write key (fmdrop key) (h, m) = (h1, m1)" by (cases "bucket_write key (fmdrop key) (h, m)")
    note w = bucket_write_spec [OF sh key_local_simps(2) o]
    have e: "h' = h1" "m' = m1\<lparr>sm_size := sm_size m1 - 1\<rparr>" using s Some by (simp_all add: ShardedMap_Delete_def o)
    have "key \<in> dom (ShardedMap_Get h m)" using Some by auto
    then have "Suc (card (dom (ShardedMap_Get h m) - {key})) = card (dom (ShardedMap_Get h m))"
      using ok by (intro card_Suc_Diff1) (simp_all add: map_ok_def)
    then have "int (card (dom (ShardedMap_Get h m) - {key})) = int (card (dom (ShardedMap_Get h m))) - 1" by linarith
    moreover have "dom (ShardedMap_Get h1 m1) = dom (ShardedMap_Get h m) - {key}" by (simp add: w(3))
    ultimately have "map_ok h' m'" using w(1,4) ok by (simp add: e map_ok_def)
    with w(2,3) show ?thesis by (simp add: e)
  qed
  then show "map_ok h' m'" "writes (h, m) (h', m')" "ShardedMap_Get h' m' = (ShardedMap_Get h m)(key := None)" by auto
qed

lemma map_ok_cong:
  assumes "length h \<le> length h'" "\<And>a. a \<in> addrs m \<Longrightarrow> bk_values (h' ! a) = bk_values (h ! a)" "map_ok h m"
  shows "map_ok h' m" "ShardedMap_Get h' m = ShardedMap_Get h m"
proof -
  have sh: "shape h m" using assms(3) by (simp add: map_ok_def)
  show g: "ShardedMap_Get h' m = ShardedMap_Get h m"
    using shape_addr [OF sh] assms(2) by (intro ext) (auto simp: ShardedMap_Get_def split: option.splits)
  have "shape h' m"
    unfolding shape_def
  proof (intro conjI ballI allI impI)
    show "a < length h'" if "a \<in> addrs m" for a using that sh assms(1) by (auto simp: shape_def)
    fix bs assume bs: "sm_buckets m = Some bs"
    show "sm_small m = None" using sh bs by (simp add: shape_def)
    show "i = j" if "mget bs i = Some x" "mget bs j = Some x" for i j x using sh bs that by (auto simp: shape_def)
    show "logicalHashShard k = i" if i: "mget bs i = Some x" and v: "mget (bk_values (h' ! x)) k = Some v" for i x k v
    proof -
      have "x \<in> addrs m" using bs i by (auto simp: addrs_def)
      with v assms(2) have "mget (bk_values (h ! x)) k = Some v" by simp
      with i sh bs show ?thesis unfolding shape_def by blast
    qed
  qed
  with assms(3) show "map_ok h' m" by (simp add: map_ok_def g)
qed

lemma share_one:
  "length (share b h) = length h" "bk_values (share b h ! a) = bk_values (h ! a)"
  "a < length h \<Longrightarrow> bk_shared (share b h ! a) = (bk_shared (h ! a) \<or> a = b)"
  by (cases "b < length h"; simp add: share_def nth_list_update list_update_beyond)+

lemma share_all:
  "length (fold (\<lambda>(i, a). share a) xs h) = length h \<and> bk_values (fold (\<lambda>(i, a). share a) xs h ! a) = bk_values (h ! a) \<and>
   (a < length h \<longrightarrow> bk_shared (fold (\<lambda>(i, a). share a) xs h ! a) = (bk_shared (h ! a) \<or> a \<in> snd ` set xs))"
proof (induction xs arbitrary: h)
  case (Cons x xs)
  have f: "fold (\<lambda>(i, a). share a) (x # xs) h = fold (\<lambda>(i, a). share a) xs (share (snd x) h)" by (simp add: split_beta)
  show ?case
    using Cons.IH [of "share (snd x) h"] unfolding f by (auto simp: share_one)
qed simp

lemma Clone_spec:
  assumes ok: "map_ok h m" and s: "ShardedMap_Clone h m = (h', c)"
  shows "length h' = length h" "bk_values (h' ! a) = bk_values (h ! a)" "a < length h \<Longrightarrow> bk_shared (h' ! a) = (bk_shared (h ! a) \<or> a \<in> addrs m)"
    "addrs c = addrs m" "map_ok h' c" "ShardedMap_Get h' c = ShardedMap_Get h m"
proof -
  have sh: "shape h m" using ok by (simp add: map_ok_def)
  have "\<exists>xs :: (8 word \<times> nat) list. h' = fold (\<lambda>(i, a). share a) xs h \<and> snd ` set xs = addrs m \<and> c = m"
  proof (cases "sm_small m")
    case (Some x)
    then have b: "sm_buckets m = None" using sh by (cases "sm_buckets m") (auto simp: shape_def)
    then have "c = m" using s Some by (cases m) (auto simp: ShardedMap_Clone_def NewShardedMap_def)
    with s Some b show ?thesis by (intro exI [of _ "[(undefined :: 8 word, x)]"]) (auto simp: ShardedMap_Clone_def addrs_def)
  next
    case None
    show ?thesis
    proof (cases "sm_buckets m")
      case b: None
      then have g: "ShardedMap_Get h m = (\<lambda>_. None)" using None by (auto simp: ShardedMap_Get_def bucket_at_def)
      have "sm_size m = 0" using ok unfolding map_ok_def g by simp
      then have "c = m" using s None b by (cases m) (auto simp: ShardedMap_Clone_def NewShardedMap_def)
      with s None b show ?thesis by (intro exI [of _ "[]"]) (auto simp: ShardedMap_Clone_def addrs_def)
    next
      case b: (Some bs)
      have "c = m" using s None b by (cases m) (auto simp: ShardedMap_Clone_def NewShardedMap_def)
      moreover have "snd ` set (entries bs) = addrs m" 
        using b None set_map_snd_entries [of bs] by (simp add: addrs_def)
      ultimately show ?thesis using s None b by (intro exI [of _ "entries bs"]) (auto simp: ShardedMap_Clone_def)
    qed
  qed
  then obtain xs :: "(8 word \<times> nat) list" where xs: "h' = fold (\<lambda>(i, a). share a) xs h" "snd ` set xs = addrs m" "c = m" by blast
  show len: "length h' = length h" and vals: "bk_values (h' ! a) = bk_values (h ! a)"
    and "a < length h \<Longrightarrow> bk_shared (h' ! a) = (bk_shared (h ! a) \<or> a \<in> addrs m)" for a
    using share_all [of xs h a] by (auto simp: xs)
  from len vals ok show "addrs c = addrs m" "map_ok h' c" "ShardedMap_Get h' c = ShardedMap_Get h m"
    using map_ok_cong [of h h' m] by (auto simp: xs(3))
qed

section \<open>Listing a map\<close>

lemma set_All:
  assumes "map_ok h m"
  shows "(k, v) \<in> set (ShardedMap_All h m) \<longleftrightarrow> ShardedMap_Get h m k = Some v"
proof (cases "sm_buckets m")
  case None
  then show ?thesis by (auto simp: ShardedMap_All_def ShardedMap_Get_def bucket_at_def split: option.splits)
next
  case (Some bs)
  then have sh: "sm_small m = None" "\<And>i a k v. mget bs i = Some a \<Longrightarrow> mget (bk_values (h ! a)) k = Some v \<Longrightarrow> logicalHashShard k = i"
    using assms by (auto simp: map_ok_def shape_def)
  have "(k, v) \<in> set (ShardedMap_All h m) \<longleftrightarrow> (\<exists>i a. mget bs i = Some a \<and> mget (bk_values (h ! a)) k = Some v)"
    using Some sh(1) by (auto simp: ShardedMap_All_def) (force+)?
  also have "\<dots> \<longleftrightarrow> ShardedMap_Get h m k = Some v"
    using Some sh(2) by (auto simp: ShardedMap_Get_def bucket_at_def split: option.splits)
  finally show ?thesis .
qed

lemma distinct_All:
  assumes "map_ok h m"
  shows "distinct (map fst (ShardedMap_All h m))"
proof (cases "sm_small m")
  case (Some a)
  then show ?thesis by (simp add: ShardedMap_All_def)
next
  case small: None
  show ?thesis
  proof (cases "sm_buckets m")
    case None
    then show ?thesis using small by (simp add: ShardedMap_All_def)
  next
    case (Some bs)
    then have sh: "\<And>i a k. mget bs i = Some a \<Longrightarrow> k \<in> fmdom' (bk_values (h ! a)) \<Longrightarrow> logicalHashShard k = i"
      using assms by (auto simp: map_ok_def shape_def fmlookup_dom'_iff)
    have "distinct (map fst (concat (map (\<lambda>(i, a). entries (bk_values (h ! a))) xs)))"
      if "distinct (map fst xs)" "set xs \<subseteq> set (entries bs)" for xs
      using that
    proof (induction xs)
      case (Cons x xs)
      obtain i a where x: "x = (i, a)" by (cases x)
      have i: "mget bs i = Some a" using Cons.prems(2) by (simp add: x)
      have "k \<notin> fst ` set (concat (map (\<lambda>(i, a). entries (bk_values (h ! a))) xs))" if "k \<in> fmdom' (bk_values (h ! a))" for k
      proof
        assume "k \<in> fst ` set (concat (map (\<lambda>(i, a). entries (bk_values (h ! a))) xs))"
        then obtain j b where j: "(j, b) \<in> set xs" "k \<in> fst ` set (entries (bk_values (h ! b)))"
          by (force simp: fmlookup_dom'_iff)
        then have "mget bs j = Some b" using Cons.prems(2) by auto
        with j(2) sh have "logicalHashShard k = j" by simp
        with sh [OF i that] j(1) Cons.prems(1) show False by (force simp: x)
      qed
      then have disj: "set (skeys (bk_values (h ! a))) \<inter> set (map fst (concat (map (\<lambda>(i, a). entries (bk_values (h ! a))) xs))) = {}"
        unfolding set_map set_skeys by blast
      have "map fst (concat (map (\<lambda>(i, a). entries (bk_values (h ! a))) (x # xs))) =
          skeys (bk_values (h ! a)) @ map fst (concat (map (\<lambda>(i, a). entries (bk_values (h ! a))) xs))" by (simp add: x)
      then show ?case using disj Cons by (simp only: distinct_append distinct_skeys) simp
    qed simp
    from this [of "entries bs"] show ?thesis using small Some by (simp add: ShardedMap_All_def)
  qed
qed

lemma length_All:
  assumes "map_ok h m"
  shows "int (length (ShardedMap_All h m)) = sm_size m"
proof -
  have "set (map fst (ShardedMap_All h m)) = dom (ShardedMap_Get h m)"
    using set_All [OF assms] by (force simp: dom_def)
  then have "length (map fst (ShardedMap_All h m)) = card (dom (ShardedMap_Get h m))"
    using distinct_card [OF distinct_All [OF assms]] by simp
  then show ?thesis using assms by (simp add: map_ok_def)
qed

lemma From_spec:
  assumes "ShardedMapFrom x h = (h', m')"
  shows "map_ok h' m' \<and> ShardedMap_Get h' m' = mget x"
proof -
  have "fold (\<lambda>(k, v). ShardedMap_Set k v) kvs (h, m) = (h', m') \<Longrightarrow> map_ok h m \<Longrightarrow>
      map_ok h' m' \<and> ShardedMap_Get h' m' = fold (\<lambda>(k, v) g. g(k := Some v)) kvs (ShardedMap_Get h m)" for kvs h m
  proof (induction kvs arbitrary: h m)
    case (Cons kv kvs)
    obtain k v where kv: "kv = (k, v)" by (cases kv)
    obtain h1 m1 where s: "ShardedMap_Set k v (h, m) = (h1, m1)" by (cases "ShardedMap_Set k v (h, m)")
    note sp = Set_spec [OF Cons.prems(2) s]
    from Cons.prems(1) have "fold (\<lambda>(k, v). ShardedMap_Set k v) kvs (h1, m1) = (h', m')" by (simp add: kv s)
    from Cons.IH [OF this sp(1)] show ?case by (simp add: kv sp(3))
  qed simp
  from this [of "entries x" h NewShardedMap] assms New_map_ok(1,2) [of h] show ?thesis
    by (simp add: ShardedMapFrom_def fold_fun_upd_entries)
qed

section \<open>Stores of maps\<close>

text \<open>
  The contract of a store of maps under the operations that the graph performs on them: each handle behaves like a map
  of its own. The last handle is the newest.
\<close>

datatype 'v map_op = OpNew | OpSet nat string 'v | OpDelete nat string | OpClone nat

fun op_ok :: "nat \<Rightarrow> 'v map_op \<Rightarrow> bool" where
  "op_ok n OpNew = True"
| "op_ok n (OpSet i k v) = (i < n)"
| "op_ok n (OpDelete i k) = (i < n)"
| "op_ok n (OpClone i) = (i < n)"

fun spec_step :: "'v map_op \<Rightarrow> (string, 'v) fmap list \<Rightarrow> (string, 'v) fmap list" where
  "spec_step OpNew ms = ms @ [fmempty]"
| "spec_step (OpSet i k v) ms = ms[i := fmupd k v (ms ! i)]"
| "spec_step (OpDelete i k) ms = ms[i := fmdrop k (ms ! i)]"
| "spec_step (OpClone i) ms = ms @ [ms ! i]"

fun ops_ok :: "nat \<Rightarrow> 'v map_op list \<Rightarrow> bool" where
  "ops_ok n [] = True"
| "ops_ok n (op # ops) = (op_ok n op \<and> ops_ok (case op of OpNew \<Rightarrow> Suc n | OpClone i \<Rightarrow> Suc n | _ \<Rightarrow> n) ops)"

locale map_store =
  fixes ok :: "'s \<Rightarrow> bool" and handles :: "'s \<Rightarrow> nat" and get :: "'s \<Rightarrow> nat \<Rightarrow> string \<Rightarrow> 'v option"
    and step :: "'v map_op \<Rightarrow> 's \<Rightarrow> 's"
  assumes ok_step: "ok s \<Longrightarrow> op_ok (handles s) op \<Longrightarrow> ok (step op s)"
    and new_step: "ok s \<Longrightarrow> handles (step OpNew s) = Suc (handles s) \<and> get (step OpNew s) (handles s) = (\<lambda>_. None) \<and>
      (\<forall>j < handles s. get (step OpNew s) j = get s j)"
    and set_step: "ok s \<Longrightarrow> i < handles s \<Longrightarrow> handles (step (OpSet i k v) s) = handles s \<and>
      (\<forall>j < handles s. get (step (OpSet i k v) s) j = (if j = i then (get s i)(k \<mapsto> v) else get s j))"
    and delete_step: "ok s \<Longrightarrow> i < handles s \<Longrightarrow> handles (step (OpDelete i k) s) = handles s \<and>
      (\<forall>j < handles s. get (step (OpDelete i k) s) j = (if j = i then (get s i)(k := None) else get s j))"
    and clone_step: "ok s \<Longrightarrow> i < handles s \<Longrightarrow> handles (step (OpClone i) s) = Suc (handles s) \<and>
      get (step (OpClone i) s) (handles s) = get s i \<and> (\<forall>j < handles s. get (step (OpClone i) s) j = get s j)"
begin

definition represents :: "'s \<Rightarrow> (string, 'v) fmap list \<Rightarrow> bool" where
  "represents s ms \<longleftrightarrow> ok s \<and> handles s = length ms \<and> (\<forall>i < length ms. get s i = mget (ms ! i))"

lemma step_represents:
  assumes "represents s ms" "op_ok (length ms) op"
  shows "represents (step op s) (spec_step op ms)"
proof -
  from assms have s: "ok s" "handles s = length ms" "\<And>i. i < length ms \<Longrightarrow> get s i = mget (ms ! i)" by (auto simp: represents_def)
  have "ok (step op s)" using ok_step s(1,2) assms(2) by simp
  moreover have "handles (step op s) = length (spec_step op ms) \<and> (\<forall>i < length (spec_step op ms). get (step op s) i = mget (spec_step op ms ! i))"
  proof (cases op)
    case OpNew
    then show ?thesis using new_step [OF s(1)] s(2,3) by (auto simp: nth_append less_Suc_eq)
  next
    case (OpSet i k v)
    then show ?thesis using set_step [OF s(1), of i k v] s(2,3) assms(2) by (auto simp: nth_list_update fun_eq_iff)
  next
    case (OpDelete i k)
    then show ?thesis using delete_step [OF s(1), of i k] s(2,3) assms(2) by (auto simp: nth_list_update fun_eq_iff)
  next
    case (OpClone i)
    then show ?thesis using clone_step [OF s(1), of i] s(2,3) assms(2) by (auto simp: nth_append less_Suc_eq)
  qed
  ultimately show ?thesis by (simp add: represents_def)
qed

lemma run_represents: "represents s ms \<Longrightarrow> ops_ok (length ms) ops \<Longrightarrow> represents (fold step ops s) (fold spec_step ops ms)"
proof (induction ops arbitrary: s ms)
  case (Cons op ops)
  have "length (spec_step op ms) = (case op of OpNew \<Rightarrow> Suc (length ms) | OpClone i \<Rightarrow> Suc (length ms) | _ \<Rightarrow> length ms)"
    by (cases op) simp_all
  with Cons step_represents [of s ms op] show ?case by simp
qed simp

end

section \<open>Sharded maps refine independent maps\<close>

type_synonym 'v store = "'v heap \<times> ShardedMap list"

fun store_step :: "'v map_op \<Rightarrow> 'v store \<Rightarrow> 'v store" where
  "store_step OpNew (h, ms) = (h, ms @ [NewShardedMap])"
| "store_step (OpSet i k v) (h, ms) = (case ShardedMap_Set k v (h, ms ! i) of (h', m') \<Rightarrow> (h', ms[i := m']))"
| "store_step (OpDelete i k) (h, ms) = (case ShardedMap_Delete k (h, ms ! i) of (h', m') \<Rightarrow> (h', ms[i := m']))"
| "store_step (OpClone i) (h, ms) = (case ShardedMap_Clone h (ms ! i) of (h', c) \<Rightarrow> (h', ms @ [c]))"

text \<open>A bucket that two maps have is marked as shared.\<close>

definition store_ok :: "'v store \<Rightarrow> bool" where
  "store_ok = (\<lambda>(h, ms). (\<forall>m \<in> set ms. map_ok h m) \<and>
     (\<forall>i j a. i < length ms \<longrightarrow> j < length ms \<longrightarrow> i \<noteq> j \<longrightarrow> a \<in> addrs (ms ! i) \<longrightarrow> a \<in> addrs (ms ! j) \<longrightarrow> bk_shared (h ! a)))"

definition store_handles :: "'v store \<Rightarrow> nat" where
  "store_handles s = length (snd s)"

definition store_get :: "'v store \<Rightarrow> nat \<Rightarrow> string \<Rightarrow> 'v option" where
  "store_get = (\<lambda>(h, ms) i. ShardedMap_Get h (ms ! i))"

lemma write_isolated:
  assumes ok: "store_ok (h, ms)" and i: "i < length ms" and w: "writes (h, ms ! i) (h', m')" and m': "map_ok h' m'"
  shows "store_ok (h', ms[i := m'])" "j < length ms \<Longrightarrow> j \<noteq> i \<Longrightarrow> ShardedMap_Get h' (ms ! j) = ShardedMap_Get h (ms ! j)"
proof -
  have maps: "map_ok h (ms ! j)" if "j < length ms" for j using ok that by (simp add: store_ok_def)
  have lt: "a < length h" if "j < length ms" "a \<in> addrs (ms ! j)" for j a
    using maps [OF that(1)] that(2) by (simp add: map_ok_def shape_def)
  have sep: "bk_shared (h ! a)" if "j < length ms" "k < length ms" "j \<noteq> k" "a \<in> addrs (ms ! j)" "a \<in> addrs (ms ! k)" for j k a
    using ok that by (auto simp: store_ok_def)
  have same: "h' ! a = h ! a" if "j < length ms" "j \<noteq> i" "a \<in> addrs (ms ! j)" for j a
    using w lt [OF that(1,3)] sep [OF that(1) i that(2,3)] by (auto simp: writes_def owns_def)
  have len: "length h \<le> length h'" and sh: "\<And>a. a < length h \<Longrightarrow> bk_shared (h' ! a) = bk_shared (h ! a)"
    and ad: "\<And>a. a \<in> addrs m' \<Longrightarrow> a \<in> addrs (ms ! i) \<or> length h \<le> a" using w by (auto simp: writes_def)
  have keep: "map_ok h' (ms ! j)" "ShardedMap_Get h' (ms ! j) = ShardedMap_Get h (ms ! j)" if "j < length ms" "j \<noteq> i" for j
    using map_ok_cong [OF len _ maps [OF that(1)]] same [OF that] by auto
  then show "j < length ms \<Longrightarrow> j \<noteq> i \<Longrightarrow> ShardedMap_Get h' (ms ! j) = ShardedMap_Get h (ms ! j)" by simp
  have own: "bk_shared (h' ! a)" if "j < length ms" "j \<noteq> i" "a \<in> addrs m'" "a \<in> addrs (ms ! j)" for j a
    using ad [OF that(3)] lt [OF that(1,4)] sep [OF that(1) i that(2,4)] sh by auto
  show "store_ok (h', ms[i := m'])"
    unfolding store_ok_def prod.case
  proof (intro conjI ballI allI impI)
    fix m assume "m \<in> set (ms[i := m'])"
    then obtain j where "j < length ms" "m = ms[i := m'] ! j" by (auto simp: in_set_conv_nth)
    then show "map_ok h' m" using keep(1) m' by (cases "j = i") auto
  next
    fix j k a assume "j < length (ms[i := m'])" "k < length (ms[i := m'])" "j \<noteq> k" "a \<in> addrs (ms[i := m'] ! j)" "a \<in> addrs (ms[i := m'] ! k)"
    then show "bk_shared (h' ! a)"
      using own sep sh lt by (cases "j = i"; cases "k = i") (auto simp: nth_list_update)
  qed
qed

lemma clone_isolated:
  assumes ok: "store_ok (h, ms)" and i: "i < length ms" and c: "ShardedMap_Clone h (ms ! i) = (h', c)"
  shows "store_ok (h', ms @ [c])" "ShardedMap_Get h' c = ShardedMap_Get h (ms ! i)" "j < length ms \<Longrightarrow> ShardedMap_Get h' (ms ! j) = ShardedMap_Get h (ms ! j)"
proof -
  have maps: "map_ok h (ms ! j)" if "j < length ms" for j using ok that by (simp add: store_ok_def)
  note s = Clone_spec [OF maps [OF i] c]
  have keep: "map_ok h' (ms ! j)" "ShardedMap_Get h' (ms ! j) = ShardedMap_Get h (ms ! j)" if "j < length ms" for j
    using map_ok_cong [OF _ _ maps [OF that], of h'] s(1,2) by auto
  then show "j < length ms \<Longrightarrow> ShardedMap_Get h' (ms ! j) = ShardedMap_Get h (ms ! j)" by simp
  show "ShardedMap_Get h' c = ShardedMap_Get h (ms ! i)" by (rule s(6))
  have lt: "a < length h" if "j < length ms" "a \<in> addrs (ms ! j)" for j a
    using maps [OF that(1)] that(2) by (simp add: map_ok_def shape_def)
  have sep: "bk_shared (h ! a)" if "j < length ms" "k < length ms" "j \<noteq> k" "a \<in> addrs (ms ! j)" "a \<in> addrs (ms ! k)" for j k a
    using ok that by (auto simp: store_ok_def)
  show "store_ok (h', ms @ [c])"
    unfolding store_ok_def prod.case
  proof (intro conjI ballI allI impI)
    fix m assume "m \<in> set (ms @ [c])"
    then show "map_ok h' m" using keep(1) s(5) by (auto simp: in_set_conv_nth)
  next
    fix j k a assume jk: "j < length (ms @ [c])" "k < length (ms @ [c])" "j \<noteq> k" "a \<in> addrs ((ms @ [c]) ! j)" "a \<in> addrs ((ms @ [c]) ! k)"
    have "a < length h \<and> (bk_shared (h ! a) \<or> a \<in> addrs (ms ! i))"
      using jk sep lt [OF i] lt s(4) by (cases "j = length ms"; cases "k = length ms") (auto simp: nth_append less_Suc_eq)
    then show "bk_shared (h' ! a)" using s(3) by simp
  qed
qed

interpretation sharded: map_store store_ok store_handles store_get store_step
proof (unfold_locales, goal_cases)
  case (1 s op)
  obtain h ms where s: "s = (h, ms)" by (cases s)
  show ?case
  proof (cases op)
    case OpNew
    have "a \<notin> addrs NewShardedMap" for a by (simp add: New_map_ok)
    then show ?thesis using 1 OpNew by (auto simp: s store_ok_def store_handles_def New_map_ok nth_append less_Suc_eq)
  next
    case (OpSet i k v)
    obtain h' m' where r: "ShardedMap_Set k v (h, ms ! i) = (h', m')" by (cases "ShardedMap_Set k v (h, ms ! i)")
    have "map_ok h (ms ! i)" using 1 OpSet by (simp add: s store_ok_def store_handles_def)
    from Set_spec [OF this r] show ?thesis using 1 OpSet write_isolated(1) [of h ms i h' m'] by (simp add: s r store_handles_def)
  next
    case (OpDelete i k)
    obtain h' m' where r: "ShardedMap_Delete k (h, ms ! i) = (h', m')" by (cases "ShardedMap_Delete k (h, ms ! i)")
    have "map_ok h (ms ! i)" using 1 OpDelete by (simp add: s store_ok_def store_handles_def)
    from Delete_spec [OF this r] show ?thesis using 1 OpDelete write_isolated(1) [of h ms i h' m'] by (simp add: s r store_handles_def)
  next
    case (OpClone i)
    obtain h' c where r: "ShardedMap_Clone h (ms ! i) = (h', c)" by (cases "ShardedMap_Clone h (ms ! i)")
    then show ?thesis using 1 OpClone clone_isolated(1) [of h ms i h' c] by (simp add: s r store_handles_def)
  qed
next
  case (2 s)
  then show ?case by (cases s) (simp add: store_get_def store_handles_def New_map_ok nth_append)
next
  case (3 s i k v)
  obtain h ms where s: "s = (h, ms)" by (cases s)
  obtain h' m' where r: "ShardedMap_Set k v (h, ms ! i) = (h', m')" by (cases "ShardedMap_Set k v (h, ms ! i)")
  have "map_ok h (ms ! i)" using 3 by (simp add: s store_ok_def store_handles_def)
  note sp = Set_spec [OF this r]
  from 3 show ?case using write_isolated(2) [of h ms i h' m', OF _ _ sp(2,1)] sp(3) by (auto simp: s r store_get_def store_handles_def)
next
  case (4 s i k)
  obtain h ms where s: "s = (h, ms)" by (cases s)
  obtain h' m' where r: "ShardedMap_Delete k (h, ms ! i) = (h', m')" by (cases "ShardedMap_Delete k (h, ms ! i)")
  have "map_ok h (ms ! i)" using 4 by (simp add: s store_ok_def store_handles_def)
  note sp = Delete_spec [OF this r]
  from 4 show ?case using write_isolated(2) [of h ms i h' m', OF _ _ sp(2,1)] sp(3) by (auto simp: s r store_get_def store_handles_def)
next
  case (5 s i)
  obtain h ms where s: "s = (h, ms)" by (cases s)
  obtain h' c where r: "ShardedMap_Clone h (ms ! i) = (h', c)" by (cases "ShardedMap_Clone h (ms ! i)")
  show ?case using 5 clone_isolated(2,3) [of h ms i h' c, OF _ _ r] by (simp add: s r store_get_def store_handles_def nth_append)
qed

section \<open>Refinement\<close>

lemma empty_store_represents: "sharded.represents ([], []) []"
  unfolding sharded.represents_def by (simp add: store_ok_def store_handles_def)

text \<open>C30.
  After any sequence of creating, writing, deleting from and cloning sharded maps, each map holds exactly what an
  independent finite map would hold after the same operations on it, although clones share their buckets until they
  are written and a map is split into 256 buckets when it grows beyond 32 keys: no write through one map shows in
  another. Its length is the number of its keys, and iterating over it yields each entry once.
\<close>

theorem sharded_maps_refine:
  assumes "ops_ok 0 ops" and "fold store_step ops ([], []) = (h, ms)"
  shows "length ms = length (fold spec_step ops []) \<and>
    (\<forall>i < length ms. let m = ms ! i; spec = fold spec_step ops [] ! i in
       ShardedMap_Get h m = mget spec \<and> ShardedMap_Len m = int (card (fmdom' spec)) \<and>
       distinct (ShardedMap_Keys h m) \<and> set (ShardedMap_All h m) = set (entries spec))"
proof -
  have "sharded.represents (h, ms) (fold spec_step ops [])"
    using sharded.run_represents [OF empty_store_represents, of ops] assms by simp
  then have r: "store_ok (h, ms)" "length ms = length (fold spec_step ops [])"
    "\<And>i. i < length ms \<Longrightarrow> ShardedMap_Get h (ms ! i) = mget (fold spec_step ops [] ! i)"
    unfolding sharded.represents_def by (auto simp: store_get_def store_handles_def)
  have "ShardedMap_Get h (ms ! i) = mget (fold spec_step ops [] ! i) \<and> ShardedMap_Len (ms ! i) = int (card (fmdom' (fold spec_step ops [] ! i))) \<and>
      distinct (ShardedMap_Keys h (ms ! i)) \<and> set (ShardedMap_All h (ms ! i)) = set (entries (fold spec_step ops [] ! i))"
    if i: "i < length ms" for i
  proof -
    have ok: "map_ok h (ms ! i)" using r(1) i by (simp add: store_ok_def)
    have "dom (mget x) = fmdom' x" for x :: "(string, 'a) fmap" by (auto simp: fmlookup_dom'_iff)
    then have "ShardedMap_Len (ms ! i) = int (card (fmdom' (fold spec_step ops [] ! i)))"
      using ok r(3) [OF i] by (simp add: map_ok_def ShardedMap_Len_def)
    then show ?thesis using r(3) [OF i] distinct_All [OF ok] set_All [OF ok] by (auto simp: ShardedMap_Keys_def)
  qed
  with r(2) show ?thesis by (simp add: Let_def)
qed

definition example_ops :: "nat map_op list" where
  "example_ops = [OpNew, OpSet 0 ''a'' 1, OpClone 0, OpSet 1 ''a'' 2, OpSet 1 ''b'' 3, OpDelete 1 ''a'']"

theorem sharded_maps_refine_witness:
  "\<exists>h ms. fold store_step example_ops ([], []) = (h, ms) \<and> ShardedMap_Get h (ms ! 0) ''a'' = Some 1 \<and>
     ShardedMap_Get h (ms ! 1) ''a'' = None \<and> ShardedMap_Get h (ms ! 1) ''b'' = Some 3"
proof -
  obtain h ms where r: "fold store_step example_ops ([], []) = (h, ms)" by fastforce
  have s: "fold spec_step example_ops [] = [fmupd ''a'' 1 fmempty, fmdrop ''a'' (fmupd ''b'' 3 (fmupd ''a'' 2 (fmupd ''a'' 1 fmempty)))]"
    by (simp add: example_ops_def)
  have "ops_ok 0 example_ops" by (simp add: example_ops_def)
  from sharded_maps_refine [OF this r] have len: "length ms = 2" and "\<And>i. i < 2 \<Longrightarrow> ShardedMap_Get h (ms ! i) = mget (fold spec_step example_ops [] ! i)"
    by (simp_all add: s Let_def)
  from this(2) [of 0] this(2) [of 1] r show ?thesis by (simp add: s)
qed

end
