(* ===== verification/Sharing.thy ===== *)
theory Sharing
  imports CommitEntry
begin

text \<open>
  A storage copy shares with its source the maps that the impact of the commit declares unchanged
  (\<open>storageMutationImpactFor\<close>, \<open>storageMutationMap\<close> in \<open>copy_on_write.go\<close>). The lemmas follow each part of the graph
  through the phases of a commit and show that the impact is sound: a part outside it is the source's part afterwards.
\<close>

section \<open>Parts of a graph\<close>

definition types_part where "types_part g = (g_CITypes g, g_RelationTypes g)"

definition entity_part where
  "entity_part g = (g_Entities g, g_kindCounts g, g_kindEntityIDs g, g_nonScalarFields g, g_fieldIndex g, g_entityAliasIndex g)"

definition edge_part where
  "edge_part g = (g_Edges g, g_out g, g_in g, g_edgeAliasIndex g, g_edgeTypeIndex g)"

lemma types_part_eqs:
  "entity_frame g' = entity_frame g \<Longrightarrow> types_part g' = types_part g" "edge_frame g' = edge_frame g \<Longrightarrow> types_part g' = types_part g"
  by (simp_all add: types_part_def entity_frame_def edge_frame_def)

lemma parts_eqs:
  "entity_frame g' = entity_frame g \<Longrightarrow> edge_part g' = edge_part g"
  "edge_frame g' = edge_frame g \<Longrightarrow> entity_part g' = entity_part g \<and> g_identityIndex g' = g_identityIndex g"
  by (simp_all add: edge_part_def entity_part_def entity_frame_def edge_frame_def)

lemma types_part_ops [simp]:
  "types_part (addEntityToIndexes i e g) = types_part g" "types_part (removeEntityFromIndexes i e g) = types_part g"
  "types_part (updateEntityIndexes i b a g) = types_part g" "types_part (addEdgeToIndexes i x g) = types_part g"
  "types_part (removeEdgeFromIndexes i x g) = types_part g" "types_part (g\<lparr>g_Entities := E\<rparr>) = types_part g" "types_part (g\<lparr>g_Edges := D\<rparr>) = types_part g"
  by (simp_all add: types_part_def)

lemma dropEdge_parts [simp]:
  "types_part (dropEdge k g) = types_part g" "entity_part (dropEdge k g) = entity_part g" "g_identityIndex (dropEdge k g) = g_identityIndex g"
  by (simp_all add: dropEdge_def types_part_def entity_part_def split: option.split)

lemma fold_dropEdge_types [simp]: "types_part (fold dropEdge ks g) = types_part g"
  by (rule fold_frame) simp

lemma deleteEntityForce_types [simp]: "types_part (deleteEntityForce i g) = types_part g"
  by (simp add: deleteEntityForce_def Let_def split: option.split)

lemmas state_ops = on_graph_def touch_def affect_def affectEdges_def suppress_def

lemma deleteEntityStep_types: "types_part (as_graph (deleteEntityStep i st)) = types_part (as_graph st)"
  by (simp add: deleteEntityStep_def state_ops Let_def)

definition keeps :: "(Graph \<Rightarrow> 'a) \<Rightarrow> (apply_state \<Rightarrow> error + apply_state) \<Rightarrow> bool" where
  "keeps part f \<longleftrightarrow> (\<forall>st st'. f st = Inr st' \<longrightarrow> part (as_graph st') = part (as_graph st))"

lemma keepsI: "(\<And>st st'. f st = Inr st' \<Longrightarrow> part (as_graph st') = part (as_graph st)) \<Longrightarrow> keeps part f"
  by (simp add: keeps_def)

lemma keepsD: "keeps part f \<Longrightarrow> f st = Inr st' \<Longrightarrow> part (as_graph st') = part (as_graph st)"
  by (simp add: keeps_def)

lemma keeps_foldM: "(\<And>x. keeps part (\<lambda>st. f st x)) \<Longrightarrow> keeps part (\<lambda>st. foldM f st xs)"
proof (rule keepsI)
  fix st st' assume k: "\<And>x. keeps part (\<lambda>st. f st x)" and r: "foldM f st xs = Inr st'"
  show "part (as_graph st') = part (as_graph st)"
    by (rule foldM_invariant [OF r, where I = "\<lambda>s. part (as_graph s) = part (as_graph st)"]) (auto dest: keepsD [OF k])
qed

section \<open>Entity operations keep the types\<close>

lemma upsertEntity_types: "keeps types_part (\<lambda>st. upsertEntity version now st e)"
  by (rule keepsI) (auto simp: upsertEntity_def state_ops Let_def split: if_splits)

lemma staleEntity_types: "keeps types_part (\<lambda>st. staleEntity_step request version now st i)"
  by (rule keepsI) (auto simp: staleEntity_step_def Let_def deleteEntityStep_types split: if_splits; simp add: state_ops)

lemma markStale_types: "keeps types_part (\<lambda>st. markStale version now st request)"
proof (rule keepsI)
  fix st st' assume "markStale version now st request = Inr st'"
  then obtain st1 where "foldM (staleEntity_step (trimStaleRequest request) version now) (st\<lparr>as_report := zero_ApplyReport\<rparr>) (skeys (g_Entities (as_graph st))) = Inr st1"
    and "as_graph st' = as_graph st1" by (auto simp: markStale_def applySourceStale_def state_ops Let_def split: if_splits)
  with keepsD [OF keeps_foldM [OF staleEntity_types], OF this(1)] show "types_part (as_graph st') = types_part (as_graph st)" by simp
qed

lemma redirectEdge_types:
  "redirectEdge_step s t version now (st, E) k = Inr (st', E') \<Longrightarrow> types_part (as_graph st') = types_part (as_graph st)"
  by (auto simp: redirectEdge_step_def state_ops Let_def split: option.splits)

lemma mergeEntity_types:
  assumes "mergeEntity_step request flds version now (st, target, E) i = Inr (st', target', E')"
  shows "types_part (as_graph st') = types_part (as_graph st)"
proof -
  have "types_part (as_graph st1) = types_part (as_graph st)" if "redirectMergeEdges s t version now (st, E) = Inr (st1, E1)" for s t st1 E1
  proof -
    from that have "foldM (redirectEdge_step s t version now) (st, E) (incidentEdgeIDs (as_graph st) s) = Inr (st1, E1)" by (simp add: redirectMergeEdges_def)
    from this have "types_part (as_graph (fst (st1, E1))) = types_part (as_graph st)"
      by (rule foldM_invariant [where I = "\<lambda>s. types_part (as_graph (fst s)) = types_part (as_graph st)"]) (auto dest!: redirectEdge_types)
    then show ?thesis by simp
  qed
  with assms show ?thesis by (auto simp: mergeEntity_step_def state_ops Let_def split: if_splits option.splits)
qed

lemma mergeEntities_types: "keeps types_part (\<lambda>st. mergeEntities version now st request)"
proof (rule keepsI)
  fix st st' assume "mergeEntities version now st request = Inr st'"
  then obtain target0 flds cache st3 target1 E v where
    f: "foldM (mergeEntity_step request flds version now) (on_graph (removeEntityFromIndexes (ent_ID target0) target0)
         ((affect [mr_TargetID request] (touch (\<lambda>g. touchMerge g request) st))\<lparr>as_specs := cache\<rparr>), target0, {}) (mr_SourceIDs request) = Inr (st3, target1, E)"
    and st': "types_part (as_graph st') = types_part (as_graph st3)"
    by (auto simp: mergeEntities_def applyMerge_def Let_def split: option.splits)
  have "types_part (as_graph (fst (st3, target1, E))) = types_part (as_graph st)"
    by (rule foldM_invariant [OF f, where I = "\<lambda>s. types_part (as_graph (fst s)) = types_part (as_graph st)"])
       (auto simp: state_ops dest!: mergeEntity_types)
  with st' show "types_part (as_graph st') = types_part (as_graph st)" by simp
qed

lemma splitEntity_types: "keeps types_part (\<lambda>st. splitEntity_step s version now st e)"
  by (rule keepsI) (auto simp: splitEntity_step_def state_ops Let_def split: if_splits)

lemma splitEntities_types: "keeps types_part (\<lambda>st. splitEntities version now st request)"
proof (rule keepsI)
  fix st st' assume r: "splitEntities version now st request = Inr st'"
  have e: "types_part (as_graph (fold splitEdge_step ks s)) = types_part (as_graph s)" for ks s
    by (rule fold_frame [where sel = "\<lambda>s. types_part (as_graph s)"]) (simp add: splitEdge_step_def state_ops)
  from r show "types_part (as_graph st') = types_part (as_graph st)"
    by (auto simp: splitEntities_def applySplit_def Let_def e state_ops split: if_splits option.splits dest!: keepsD [OF keeps_foldM [OF splitEntity_types]])
qed

section \<open>Edge operations keep everything else\<close>

definition nonedge_part where "nonedge_part g = (types_part g, entity_part g, g_identityIndex g)"

lemma nonedge_part_ops [simp]:
  "nonedge_part (addEdgeToIndexes i x g) = nonedge_part g" "nonedge_part (removeEdgeFromIndexes i x g) = nonedge_part g"
  "nonedge_part (g\<lparr>g_Edges := D\<rparr>) = nonedge_part g" "nonedge_part (dropEdge k g) = nonedge_part g"
  by (simp_all add: nonedge_part_def types_part_def entity_part_def) (simp_all add: dropEdge_def split: option.split)

lemma deleteEdge_nonedge: "keeps nonedge_part (\<lambda>st. deleteEdge_step st k)"
  by (rule keepsI) (auto simp: deleteEdge_step_def state_ops split: if_splits)

lemma deleteEdgeRequest_nonedge: "keeps nonedge_part (\<lambda>st. deleteEdgeRequest_step version now st request)"
  by (rule keepsI) (auto simp: deleteEdgeRequest_step_def state_ops Let_def split: if_splits option.splits)

lemma upsertEdge_nonedge: "keeps nonedge_part (\<lambda>st. upsertEdge version now st e)"
  by (rule keepsI) (auto simp: upsertEdge_def state_ops Let_def split: if_splits option.splits prod.splits)

lemma upsertEntity_edges: "keeps edge_part (\<lambda>st. upsertEntity version now st e)"
  by (rule keepsI) (auto simp: upsertEntity_def state_ops edge_part_def Let_def split: if_splits)

section \<open>Schema operations\<close>

definition ci_rest where "ci_rest g = (g_RelationTypes g, entity_part g, edge_part g)"
definition relation_rest where "relation_rest g = (g_CITypes g, entity_part g, g_identityIndex g)"

lemma deleteTypedEdge_rest: "relation_rest (as_graph (deleteTypedEdge k st)) = relation_rest (as_graph st)"
  using nonedge_part_ops(4) [of k "as_graph st"]
  by (simp add: deleteTypedEdge_def state_ops relation_rest_def nonedge_part_def types_part_def)

lemma relationTypeDeletes_rest: "keeps relation_rest (applyRelationTypeDeletes names)"
proof (rule keepsI)
  fix st st' assume r: "applyRelationTypeDeletes names st = Inr st'"
  show "relation_rest (as_graph st') = relation_rest (as_graph st)"
  proof (cases "names = []")
    case False
    with r obtain st1 deleted where f: "foldM deleteRelationType_step (st, {}) names = Inr (st1, deleted)"
      and st': "st' = fold (\<lambda>name st2. fold deleteTypedEdge (sortedKeys (bucket (g_edgeTypeIndex (as_graph st2)) name)) st2) (sortedKeys deleted) st1"
      by (auto simp: applyRelationTypeDeletes_def)
    have "relation_rest (as_graph (fst (st1, deleted))) = relation_rest (as_graph st)"
      by (rule foldM_invariant [OF f, where I = "\<lambda>s. relation_rest (as_graph (fst s)) = relation_rest (as_graph st)"])
         (auto simp: deleteRelationType_step_def state_ops relation_rest_def entity_part_def split: if_splits)
    moreover have "relation_rest (as_graph (fold deleteTypedEdge ks s)) = relation_rest (as_graph s)" for ks s
      by (rule fold_frame [where sel = "\<lambda>s. relation_rest (as_graph s)"]) (rule deleteTypedEdge_rest)
    then have "relation_rest (as_graph st') = relation_rest (as_graph st1)"
      unfolding st' by - (rule fold_frame [where sel = "\<lambda>s. relation_rest (as_graph s)"], assumption)
    ultimately show ?thesis by simp
  qed (use r in \<open>simp add: applyRelationTypeDeletes_def\<close>)
qed

lemma relationTypeUpserts_rest: "keeps (\<lambda>g. (relation_rest g, edge_part g)) (applyRelationTypeUpserts rts)"
proof (rule keepsI)
  fix st st' assume r: "applyRelationTypeUpserts rts st = Inr st'"
  show "(relation_rest (as_graph st'), edge_part (as_graph st')) = (relation_rest (as_graph st), edge_part (as_graph st))"
  proof (cases "rts = []")
    case False
    with r obtain affected where f: "foldM upsertRelationType_step (st, {}) rts = Inr (st', affected)"
      by (auto simp: applyRelationTypeUpserts_def)
    have "(relation_rest (as_graph (fst (st', affected))), edge_part (as_graph (fst (st', affected)))) = (relation_rest (as_graph st), edge_part (as_graph st))"
      by (rule foldM_invariant [OF f, where I = "\<lambda>s. (relation_rest (as_graph (fst s)), edge_part (as_graph (fst s))) = (relation_rest (as_graph st), edge_part (as_graph st))"])
         (auto simp: upsertRelationType_step_def state_ops relation_rest_def entity_part_def edge_part_def)
    then show ?thesis by simp
  qed (use r in \<open>simp add: applyRelationTypeUpserts_def\<close>)
qed

lemma rebuildIdentity_rest: "ci_rest (rebuildIdentityIndexesForKinds kinds g) = ci_rest g"
  by (simp add: rebuildIdentityIndexesForKinds_def ci_rest_def entity_part_def edge_part_def Let_def)

lemma ciTypeMutations_rest: "keeps ci_rest (applyCITypeMutations deletes upserts)"
proof (rule keepsI)
  fix st st' assume r: "applyCITypeMutations deletes upserts st = Inr st'"
  show "ci_rest (as_graph st') = ci_rest (as_graph st)"
  proof (cases "deletes = [] \<and> upserts = []")
    case False
    with r obtain used s1 st2 changed kinds where d: "foldM (deleteCIType_step used) (st, {}) deletes = Inr s1"
      and u: "foldM upsertCIType_step s1 upserts = Inr (st2, changed)" and st': "as_graph st' = rebuildIdentityIndexesForKinds kinds (as_graph st2)"
      by (auto simp: applyCITypeMutations_def Let_def)
    have "ci_rest (as_graph (fst s1)) = ci_rest (as_graph st)"
      by (rule foldM_invariant [OF d, where I = "\<lambda>s. ci_rest (as_graph (fst s)) = ci_rest (as_graph st)"])
         (auto simp: deleteCIType_step_def state_ops ci_rest_def entity_part_def edge_part_def split: if_splits)
    moreover have "ci_rest (as_graph (fst (st2, changed))) = ci_rest (as_graph (fst s1))"
      by (rule foldM_invariant [OF u, where I = "\<lambda>s. ci_rest (as_graph (fst s)) = ci_rest (as_graph (fst s1))"])
         (auto simp: upsertCIType_step_def state_ops ci_rest_def entity_part_def edge_part_def)
    ultimately show ?thesis by (simp add: st' rebuildIdentity_rest)
  qed (use r in \<open>simp add: applyCITypeMutations_def\<close>)
qed

section \<open>The impact of a commit is sound\<close>

lemma mapM_empty: "mapM f xs = Inr ys \<Longrightarrow> ys = [] \<longleftrightarrow> xs = []"
  by (cases xs) auto

lemma policy_impact:
  assumes "ApplySourcePolicy m policy = Inr (m', report)"
  shows "storageMutationImpactFor m' = storageMutationImpactFor m"
proof (rule if_InrE [OF assms [unfolded ApplySourcePolicy_def]], goal_cases)
  case 1
  then show ?case by simp
next
  case 2
  then obtain prepared where p: "PrepareEntityFieldWrites m = Inr prepared"
    and m': "storageMutationImpactFor m' = storageMutationImpactFor prepared"
    by (auto simp: Let_def storageMutationImpactFor_def)
  from p have "storageMutationImpactFor prepared = storageMutationImpactFor m"
    by (auto simp: PrepareEntityFieldWrites_def storageMutationImpactFor_def Let_def dest!: mapM_empty)
  with m' show ?case by simp
qed

lemma deletePhase_types:
  assumes "deletePhase version now m st = Inr st'"
  shows "types_part (as_graph st') = types_part (as_graph st)"
proof -
  have n: "keeps types_part f" if "keeps nonedge_part f" for f using that by (auto simp: keeps_def nonedge_part_def)
  have "keeps types_part (\<lambda>st. deleteEntityRequest_step version now st r)" "keeps types_part (\<lambda>st. deleteEntity_step st i)" for r i
    by (rule keepsI; auto simp: deleteEntityRequest_step_def deleteEntity_step_def deleteEntityStep_types suppress_def Let_def split: if_splits option.splits)+
  note k = n [OF deleteEdge_nonedge] n [OF deleteEdgeRequest_nonedge] this
  from assms obtain s1 s2 s3 where f1: "foldM deleteEdge_step st (mu_DeleteEdges m) = Inr s1"
    and f2: "foldM (deleteEdgeRequest_step version now) s1 (mu_DeleteEdgeRequests m) = Inr s2"
    and f3: "foldM (deleteEntityRequest_step version now) s2 (mu_DeleteEntityRequests m) = Inr s3"
    and f4: "foldM deleteEntity_step s3 (mu_DeleteEntities m) = Inr st'"
    by (auto simp: deletePhase_def)
  from keepsD [OF keeps_foldM [OF k(1)] f1] keepsD [OF keeps_foldM [OF k(2)] f2] keepsD [OF keeps_foldM [OF k(3)] f3]
    keepsD [OF keeps_foldM [OF k(4)] f4]
  show ?thesis by simp
qed

lemma deletePhase_nonedge:
  assumes "deletePhase version now m st = Inr st'" and "mu_DeleteEntityRequests m = []" and "mu_DeleteEntities m = []"
  shows "nonedge_part (as_graph st') = nonedge_part (as_graph st)"
proof -
  from assms obtain s1 where f1: "foldM deleteEdge_step st (mu_DeleteEdges m) = Inr s1"
    and f2: "foldM (deleteEdgeRequest_step version now) s1 (mu_DeleteEdgeRequests m) = Inr st'"
    by (auto simp: deletePhase_def)
  from keepsD [OF keeps_foldM [OF deleteEdge_nonedge] f1] keepsD [OF keeps_foldM [OF deleteEdgeRequest_nonedge] f2]
  show ?thesis by simp
qed

lemma entityPhase_types:
  assumes "entityPhase version now m st = Inr st'"
  shows "types_part (as_graph st') = types_part (as_graph st)"
proof -
  from assms obtain v s1 s2 s3
    where f1: "foldM (upsertEntity version now) (st\<lparr>as_validator := v, as_specs := fmempty\<rparr>) (mu_UpsertEntities m) = Inr s1"
    and f2: "foldM (markStale version now) s1 (mu_MarkSourceStale m) = Inr s2"
    and f3: "foldM (mergeEntities version now) s2 (mu_MergeEntities m) = Inr s3"
    and f4: "foldM (splitEntities version now) s3 (mu_SplitEntities m) = Inr st'"
    by (auto simp: entityPhase_def)
  from keepsD [OF keeps_foldM [OF upsertEntity_types] f1] keepsD [OF keeps_foldM [OF markStale_types] f2]
    keepsD [OF keeps_foldM [OF mergeEntities_types] f3] keepsD [OF keeps_foldM [OF splitEntities_types] f4]
  show ?thesis by simp
qed

lemma entityPhase_edges:
  assumes "entityPhase version now m st = Inr st'" and "mu_MarkSourceStale m = []" "mu_MergeEntities m = []" "mu_SplitEntities m = []"
  shows "edge_part (as_graph st') = edge_part (as_graph st)"
proof -
  from assms obtain v where "foldM (upsertEntity version now) (st\<lparr>as_validator := v, as_specs := fmempty\<rparr>) (mu_UpsertEntities m) = Inr st'"
    by (auto simp: entityPhase_def)
  from keepsD [OF keeps_foldM [OF upsertEntity_edges] this] show ?thesis by simp
qed

text \<open>The phases of a commit, each with the parts of the graph it leaves alone.\<close>

lemma deletePhase_impact:
  assumes "deletePhase version now m st = Inr st'"
  shows "types_part (as_graph st') = types_part (as_graph st)"
    and "\<not> im_entities (storageMutationImpactFor m) \<Longrightarrow> nonedge_part (as_graph st') = nonedge_part (as_graph st)"
    and "\<not> im_edges (storageMutationImpactFor m) \<Longrightarrow> as_graph st' = as_graph st"
proof -
  show "\<not> im_entities (storageMutationImpactFor m) \<Longrightarrow> nonedge_part (as_graph st') = nonedge_part (as_graph st)"
    using deletePhase_nonedge [OF assms] by (simp add: storageMutationImpactFor_def Let_def)
  show "\<not> im_edges (storageMutationImpactFor m) \<Longrightarrow> as_graph st' = as_graph st"
    using assms by (simp add: storageMutationImpactFor_def deletePhase_def Let_def)
qed (rule deletePhase_types [OF assms])

lemma schemaPhase_impact:
  assumes "schemaPhase m st = Inr st'"
  shows "entity_part (as_graph st') = entity_part (as_graph st)"
    and "\<not> im_ciTypes (storageMutationImpactFor m) \<Longrightarrow>
           g_CITypes (as_graph st') = g_CITypes (as_graph st) \<and> g_identityIndex (as_graph st') = g_identityIndex (as_graph st)"
    and "\<not> im_relationTypes (storageMutationImpactFor m) \<Longrightarrow> g_RelationTypes (as_graph st') = g_RelationTypes (as_graph st)"
    and "\<not> im_edges (storageMutationImpactFor m) \<Longrightarrow> edge_part (as_graph st') = edge_part (as_graph st)"
proof -
  from assms obtain s1 s2 where f1: "applyRelationTypeDeletes (mu_DeleteRelationTypes m) st = Inr s1"
    and f2: "applyCITypeMutations (mu_DeleteCITypes m) (mu_UpsertCITypes m) s1 = Inr s2"
    and f3: "applyRelationTypeUpserts (mu_UpsertRelationTypes m) s2 = Inr st'"
    by (auto simp: schemaPhase_def)
  note rests = keepsD [OF relationTypeDeletes_rest f1] keepsD [OF ciTypeMutations_rest f2] keepsD [OF relationTypeUpserts_rest f3]
  note imp = storageMutationImpactFor_def Let_def relation_rest_def ci_rest_def
  show "entity_part (as_graph st') = entity_part (as_graph st)" using rests by (simp add: imp)
  show "g_CITypes (as_graph st') = g_CITypes (as_graph st) \<and> g_identityIndex (as_graph st') = g_identityIndex (as_graph st)"
    if "\<not> im_ciTypes (storageMutationImpactFor m)"
    using that rests f2 by (simp add: imp applyCITypeMutations_def)
  show "g_RelationTypes (as_graph st') = g_RelationTypes (as_graph st)" if "\<not> im_relationTypes (storageMutationImpactFor m)"
    using that rests f1 f3 by (simp add: imp applyRelationTypeDeletes_def applyRelationTypeUpserts_def)
  show "edge_part (as_graph st') = edge_part (as_graph st)" if "\<not> im_edges (storageMutationImpactFor m)"
    using that rests f1 by (simp add: imp applyRelationTypeDeletes_def)
qed

lemma entityPhase_impact:
  assumes "entityPhase version now m st = Inr st'"
  shows "types_part (as_graph st') = types_part (as_graph st)"
    and "\<not> im_entities (storageMutationImpactFor m) \<Longrightarrow> as_graph st' = as_graph st"
    and "\<not> im_edges (storageMutationImpactFor m) \<Longrightarrow> edge_part (as_graph st') = edge_part (as_graph st)"
proof -
  show "\<not> im_entities (storageMutationImpactFor m) \<Longrightarrow> as_graph st' = as_graph st"
    using assms by (auto simp: storageMutationImpactFor_def entityPhase_def Let_def)
  show "\<not> im_edges (storageMutationImpactFor m) \<Longrightarrow> edge_part (as_graph st') = edge_part (as_graph st)"
    using entityPhase_edges [OF assms] by (simp add: storageMutationImpactFor_def Let_def)
qed (rule entityPhase_types [OF assms])

lemma applyMutations_impact:
  assumes "applyMutations env commit g = Inr (g', report)" and im: "im = storageMutationImpactFor (co_Mutations commit)"
  shows "\<not> im_ciTypes im \<Longrightarrow> g_CITypes g' = g_CITypes g"
    and "\<not> im_relationTypes im \<Longrightarrow> g_RelationTypes g' = g_RelationTypes g"
    and "\<not> im_entities im \<Longrightarrow> entity_part g' = entity_part g"
    and "\<not> im_edges im \<Longrightarrow> edge_part g' = edge_part g"
    and "\<not> im_entities im \<Longrightarrow> \<not> im_ciTypes im \<Longrightarrow> g_legacyIdentity g = legacyCommitIdentity commit \<Longrightarrow> g_identityIndex g' = g_identityIndex g"
proof -
  let ?m = "co_Mutations commit"
  obtain g1 st1 st2 st3 st4 where u: "useCommitIdentity commit g = Inr g1"
    and d: "deletePhase (co_Version commit) (commitTime env commit) ?m (initial_state g1) = Inr st1" and s: "schemaPhase ?m st1 = Inr st2"
    and e: "entityPhase (co_Version commit) (commitTime env commit) ?m st2 = Inr st3"
    and x: "foldM (upsertEdge (co_Version commit) (commitTime env commit)) st3 (mu_UpsertEdges ?m) = Inr st4"
    and f: "finish (as_tracker st4) (refreshEntityPartitions env (as_tracker st4) (as_graph st4)) (as_report st4) = Inr (g', report)"
    by (rule applyMutationsE [OF assms(1)])
  obtain parts where p: "refreshEntityPartitions env (as_tracker st4) (as_graph st4) = (as_graph st4)\<lparr>g_entityPartitions := parts\<rparr>"
    using refreshEntityPartitions_frame by blast
  obtain fp cache where g': "g' = (as_graph st4)\<lparr>g_entityPartitions := parts, g_contentFingerprint := fp, g_logicalHashCache := cache\<rparr>"
    using finish_frame [OF f, unfolded p] by blast
  obtain index where g1: "g1 = g\<lparr>g_legacyIdentity := legacyCommitIdentity commit, g_identityIndex := index\<rparr>"
    by (rule useCommitIdentity_frame [OF u])
  have i: "g_identityIndex g1 = g_identityIndex g" if "g_legacyIdentity g = legacyCommitIdentity commit"
    using u that by (auto simp: useCommitIdentity_def Let_def split: if_splits)
  note dp = deletePhase_impact [OF d] and sp = schemaPhase_impact [OF s] and ep = entityPhase_impact [OF e]
  have xp: "nonedge_part (as_graph st4) = nonedge_part (as_graph st3)" by (rule keepsD [OF keeps_foldM [OF upsertEdge_nonedge] x])
  have xe: "as_graph st4 = as_graph st3" if "\<not> im_edges im"
    using that x by (simp add: im storageMutationImpactFor_def Let_def)
  note parts = nonedge_part_def types_part_def initial_state_def
  show "g_CITypes g' = g_CITypes g" if "\<not> im_ciTypes im"
    using that dp(1) sp(2) ep(1) xp by (simp add: parts im g' g1)
  show "g_RelationTypes g' = g_RelationTypes g" if "\<not> im_relationTypes im"
    using that dp(1) sp(3) ep(1) xp by (simp add: parts im g' g1)
  show "entity_part g' = entity_part g" if "\<not> im_entities im"
    using that dp(2) sp(1) ep(2) xp by (simp add: parts im g' g1) (simp add: entity_part_def)
  show "edge_part g' = edge_part g" if "\<not> im_edges im"
    using that dp(3) sp(4) ep(3) xe by (simp add: parts im g' g1) (simp add: edge_part_def)
  show "g_identityIndex g' = g_identityIndex g" if "\<not> im_entities im" "\<not> im_ciTypes im" "g_legacyIdentity g = legacyCommitIdentity commit"
    using that dp(2) sp(2) ep(2) xp i by (simp add: parts im g')
qed

end
