(* ===== verification/QueryFilter.thy ===== *)
theory QueryFilter
  imports Neighbors
begin

text \<open>
  The request of a query and its filters (package \<open>query\<close>: \<open>types.go\<close>, \<open>filter.go\<close>). A filter compares a field of
  an entity or an edge with a value; an expression combines filters with \<open>and\<close>, \<open>or\<close> and \<open>not\<close>. The value of a
  filter is decoded from JSON or query text, so it is never a \<open>time.Time\<close>; the timestamps of an entity or edge are,
  which the datatype \<open>filter_value\<close> keeps apart. Parsing and printing of timestamps (package \<open>time\<close>) are fields of
  the environment.
\<close>

section \<open>Requests\<close>

record Filter =
  fi_Field :: string
  fi_Op :: string
  fi_Value :: any

datatype FilterExpr =
  FilterExpr (fx_Op: string) (fx_Field: string) (fx_Value: any) (fx_Children: "FilterExpr list")

record PathStep =
  ps_Direction :: string
  ps_RelationTypes :: "string list"
  ps_NodeKinds :: "string list"
  ps_Where :: "Filter list"
  ps_WhereExpr :: "FilterExpr option"
  ps_EdgeWhere :: "Filter list"
  ps_EdgeWhereExpr :: "FilterExpr option"

record PathFilter =
  pf_NodeKinds :: "string list"
  pf_EndKind :: string
  pf_EndWhere :: "Filter list"
  pf_EndWhereExpr :: "FilterExpr option"
  pf_RelationTypes :: "string list"
  pf_Steps :: "PathStep list"
  pf_MaxPaths :: int

record SortSpec =
  so_Field :: string
  so_Desc :: bool

record Aggregation =
  ag_Name :: string
  ag_Op :: string
  ag_Field :: string

record Request =
  rq_Op :: string
  rq_TargetOp :: string
  rq_Kind :: string
  rq_Filters :: Fields
  rq_Where :: "Filter list"
  rq_WhereExpr :: "FilterExpr option"
  rq_EdgeWhere :: "Filter list"
  rq_EdgeWhereExpr :: "FilterExpr option"
  rq_ID :: string
  rq_TargetID :: string
  rq_Direction :: string
  rq_DirectionStrategy :: string
  rq_RelationType :: string
  rq_RelationTypes :: "string list"
  rq_Depth :: int
  rq_Path :: PathFilter
  rq_Sort :: "SortSpec list"
  rq_Project :: "string list"
  rq_Aggregate :: "Aggregation list"
  rq_GroupBy :: "string list"
  rq_Having :: "Filter list"
  rq_HavingExpr :: "FilterExpr option"
  rq_Limit :: int
  rq_Cursor :: string
  rq_TimeoutMS :: int
  rq_CostLimit :: int
  rq_Profile :: bool
  rq_MinVersion :: int
  rq_AllowStale :: bool

section \<open>Values\<close>

datatype filter_value = FV any | FTime time

record query_env = go_env +
  qe_ParseRFC3339Nano :: "string \<Rightarrow> time option"
  qe_ParseDate :: "string \<Rightarrow> time option"
  qe_FormatSortLayout :: "time \<Rightarrow> string"

text \<open>\<open>fmt.Sprint\<close> of one operand.\<close>

definition sprint_map :: "(string \<times> string) list \<Rightarrow> string" where
  "sprint_map kvs = ''map['' @ join '' '' (map (\<lambda>(k, v). k @ '':'' @ v) kvs) @ '']''"

definition sprint_slice :: "string list \<Rightarrow> string" where
  "sprint_slice vs = ''['' @ join '' '' vs @ '']''"

definition sprint_bool :: "bool \<Rightarrow> string" where
  "sprint_bool b = (if b then ''true'' else ''false'')"

primrec Sprint :: "any \<Rightarrow> string" where
  "Sprint VNil = ''<nil>''"
| "Sprint (VBool b) = sprint_bool b"
| "Sprint (VString s) = s"
| "Sprint (VFloat f) = fmt_g f"
| "Sprint (VInt k n) = Itoa n"
| "Sprint (VFields m) = (case map_option (fmmap Sprint) m of None \<Rightarrow> sprint_map [] | Some ts \<Rightarrow> sprint_map (entries ts))"
| "Sprint (VMap m) = (case map_option (fmmap Sprint) m of None \<Rightarrow> sprint_map [] | Some ts \<Rightarrow> sprint_map (entries ts))"
| "Sprint (VSlice xs) = (case map_option (map Sprint) xs of None \<Rightarrow> sprint_slice [] | Some ts \<Rightarrow> sprint_slice ts)"
| "Sprint (VStrings xs) = sprint_slice (case xs of None \<Rightarrow> [] | Some ss \<Rightarrow> ss)"
| "Sprint (VInts xs) = sprint_slice (case xs of None \<Rightarrow> [] | Some ns \<Rightarrow> map Itoa ns)"
| "Sprint (VInt64s xs) = sprint_slice (case xs of None \<Rightarrow> [] | Some ns \<Rightarrow> map Itoa ns)"
| "Sprint (VFloats xs) = sprint_slice (case xs of None \<Rightarrow> [] | Some fs \<Rightarrow> map fmt_g fs)"
| "Sprint (VBools xs) = sprint_slice (case xs of None \<Rightarrow> [] | Some bs \<Rightarrow> map sprint_bool bs)"

fun asFloat :: "any \<Rightarrow> float64 option" where
  "asFloat (VFloat f) = Some f"
| "asFloat (VInt k n) = (if k \<in> {KInt, KInt64, KInt32} then Some (float64_of_int n) else None)"
| "asFloat _ = None"

fun reflectSlice :: "any \<Rightarrow> any list option" where
  "reflectSlice (VSlice xs) = Some (case xs of None \<Rightarrow> [] | Some vs \<Rightarrow> vs)"
| "reflectSlice (VStrings xs) = Some (case xs of None \<Rightarrow> [] | Some ss \<Rightarrow> map VString ss)"
| "reflectSlice (VInts xs) = Some (case xs of None \<Rightarrow> [] | Some ns \<Rightarrow> map (VInt KInt) ns)"
| "reflectSlice (VInt64s xs) = Some (case xs of None \<Rightarrow> [] | Some ns \<Rightarrow> map (VInt KInt64) ns)"
| "reflectSlice (VFloats xs) = Some (case xs of None \<Rightarrow> [] | Some fs \<Rightarrow> map VFloat fs)"
| "reflectSlice (VBools xs) = Some (case xs of None \<Rightarrow> [] | Some bs \<Rightarrow> map VBool bs)"
| "reflectSlice _ = None"

definition anySlice :: "any \<Rightarrow> any list" where
  "anySlice v = (case reflectSlice v of Some vs \<Rightarrow> vs | None \<Rightarrow> [v])"

definition filterText :: "any \<Rightarrow> string" where
  "filterText v = (case v of VString s \<Rightarrow> s | _ \<Rightarrow> Sprint v)"

text \<open>The runes of a string, each as its encoding; a byte that starts no rune reads as U+FFFD.\<close>

function runes_of :: "string \<Rightarrow> string list" where
  "runes_of s =
     (if s = [] then []
      else if utf8_len s = 0 then [CHR 0xEF, CHR 0xBF, CHR 0xBD] # runes_of (drop 1 s)
      else take (utf8_len s) s # runes_of (drop (utf8_len s) s))"
  by pat_completeness auto
termination
  by (relation "measure length") auto

declare runes_of.simps [simp del]

fun fuzzy_runes :: "string list \<Rightarrow> string list \<Rightarrow> bool" where
  "fuzzy_runes text [] \<longleftrightarrow> True"
| "fuzzy_runes [] (w # ws) \<longleftrightarrow> False"
| "fuzzy_runes (c # cs) (w # ws) \<longleftrightarrow> (if c \<noteq> w then fuzzy_runes cs (w # ws) else fuzzy_runes cs ws)"

definition fuzzyMatch :: "query_env \<Rightarrow> string \<Rightarrow> string \<Rightarrow> bool" where
  "fuzzyMatch env t pattern \<longleftrightarrow> fuzzy_runes (map (ge_ToLower env) (runes_of t)) (map (ge_ToLower env) (runes_of pattern))"

definition contains_text :: "string \<Rightarrow> string \<Rightarrow> bool" where
  "contains_text s sub \<longleftrightarrow> list_ex (\<lambda>i. is_prefix sub (drop i s)) [0..<Suc (length s)]"

section \<open>Timestamps\<close>

text \<open>Nanoseconds from the zero time to the Unix epoch are 62135596800 seconds.\<close>

definition UnixMilli :: "int \<Rightarrow> time" where
  "UnixMilli ms = (ms + 62135596800000) * 1000000"

definition parseTimestampFilterValue :: "query_env \<Rightarrow> any \<Rightarrow> time option" where
  "parseTimestampFilterValue env v =
     (case asFloat v of
        Some number \<Rightarrow>
          (case plus_zero number of
             Fin q \<Rightarrow> if q < -62135596800000 \<or> 253402300800000 \<le> q \<or> of_int \<lfloor>q\<rfloor> \<noteq> q then None else Some (UnixMilli \<lfloor>q\<rfloor>)
           | _ \<Rightarrow> None)
      | None \<Rightarrow>
          (case v of
             VString s \<Rightarrow> (case qe_ParseRFC3339Nano env s of Some t \<Rightarrow> Some t | None \<Rightarrow> qe_ParseDate env s)
           | _ \<Rightarrow> None))"

definition timestampCompare :: "time \<Rightarrow> time \<Rightarrow> string \<Rightarrow> bool" where
  "timestampCompare actual right op \<longleftrightarrow>
     (if op = ''eq'' then actual = right
      else if op = ''neq'' then actual \<noteq> right
      else if op = ''gt'' then actual > right
      else if op = ''gte'' then actual \<ge> right
      else if op = ''lt'' then actual < right
      else if op = ''lte'' then actual \<le> right
      else False)"

definition timestampFilterMatches :: "query_env \<Rightarrow> time \<Rightarrow> any \<Rightarrow> string \<Rightarrow> bool" where
  "timestampFilterMatches env actual expected op \<longleftrightarrow>
     (let matches = (\<lambda>v op'. case parseTimestampFilterValue env v of None \<Rightarrow> False | Some right \<Rightarrow> timestampCompare actual right op') in
      if op = ''in'' then list_ex (\<lambda>v. matches v ''eq'') (anySlice expected) else matches expected op)"

section \<open>Comparison\<close>

definition compareFloat :: "float64 \<Rightarrow> float64 \<Rightarrow> string \<Rightarrow> bool" where
  "compareFloat left right op \<longleftrightarrow>
     (if op = ''gt'' then fless right left
      else if op = ''gte'' then fle right left
      else if op = ''lt'' then fless left right
      else if op = ''lte'' then fle left right
      else False)"

definition compareFilter :: "any \<Rightarrow> any \<Rightarrow> string \<Rightarrow> bool" where
  "compareFilter actual expected op \<longleftrightarrow>
     (case (asFloat actual, asFloat expected) of
        (Some left, Some right) \<Rightarrow> compareFloat left right op
      | _ \<Rightarrow>
          let leftText = Sprint actual; rightText = Sprint expected in
          if op = ''gt'' then leftText > rightText
          else if op = ''gte'' then leftText \<ge> rightText
          else if op = ''lt'' then leftText < rightText
          else if op = ''lte'' then leftText \<le> rightText
          else False)"

definition anyEqual :: "any \<Rightarrow> any \<Rightarrow> bool" where
  "anyEqual left right \<longleftrightarrow>
     (case left of
        VString t \<Rightarrow> (case right of VString other \<Rightarrow> t = other | _ \<Rightarrow> False)
      | _ \<Rightarrow>
          (case (asFloat left, asFloat right) of
             (Some l, Some r) \<Rightarrow> feq l r
           | _ \<Rightarrow> DeepEqual left right))"

definition valuesEqual :: "query_env \<Rightarrow> filter_value \<Rightarrow> any \<Rightarrow> bool" where
  "valuesEqual env left right \<longleftrightarrow>
     (case left of FTime timestamp \<Rightarrow> timestampFilterMatches env timestamp right ''eq'' | FV v \<Rightarrow> anyEqual v right)"

text \<open>The operators other than \<open>exists\<close> on a value that is no timestamp.\<close>

definition valueFilterMatches :: "query_env \<Rightarrow> any \<Rightarrow> any \<Rightarrow> string \<Rightarrow> bool" where
  "valueFilterMatches env actual expected op \<longleftrightarrow>
     (if op = ''eq'' then anyEqual actual expected
      else if op = ''neq'' then \<not> anyEqual actual expected
      else if op = ''in'' then list_ex (anyEqual actual) (anySlice expected)
      else if op \<in> {''gt'', ''gte'', ''lt'', ''lte''} then compareFilter actual expected op
      else if op = ''prefix'' then is_prefix (Sprint expected) (Sprint actual)
      else if op = ''contains'' then
        (case reflectSlice actual of
           Some vs \<Rightarrow> list_ex (\<lambda>v. anyEqual v expected) vs
         | None \<Rightarrow> contains_text (ge_ToLower env (Sprint actual)) (ge_ToLower env (Sprint expected)))
      else if op = ''fuzzy'' then fuzzyMatch env (filterText actual) (filterText expected)
      else False)"

text \<open>A missing value is \<open>None\<close>.\<close>

definition filterMatches :: "query_env \<Rightarrow> filter_value option \<Rightarrow> Filter \<Rightarrow> bool" where
  "filterMatches env actual filter' \<longleftrightarrow>
     (let op = (if fi_Op filter' = [] then ''eq'' else fi_Op filter') in
      if op = ''exists'' then (actual \<noteq> None) = (case fi_Value filter' of VBool want \<Rightarrow> want | _ \<Rightarrow> True)
      else
        case actual of
          None \<Rightarrow> False
        | Some (FTime timestamp) \<Rightarrow>
            if op \<in> {''eq'', ''neq'', ''in'', ''gt'', ''gte'', ''lt'', ''lte''}
            then timestampFilterMatches env timestamp (fi_Value filter') op
            else valueFilterMatches env (VString (qe_FormatSortLayout env timestamp)) (fi_Value filter') op
        | Some (FV v) \<Rightarrow> valueFilterMatches env v (fi_Value filter') op)"

section \<open>Fields of entities and edges\<close>

definition prefixedField :: "string \<Rightarrow> string \<Rightarrow> string option" where
  "prefixedField prefix' field = (if is_prefix prefix' field then Some (drop (length prefix') field) else None)"

definition namedField :: "Fields \<Rightarrow> string \<Rightarrow> filter_value option" where
  "namedField m name = (if name = [] then None else map_option FV (mget m name))"

definition edgeFilterValue :: "Edge \<Rightarrow> string \<Rightarrow> filter_value option" where
  "edgeFilterValue edge field =
     (if field = [] \<or> field = ''id'' then Some (FV (VString (edge_ID edge)))
      else if field = ''type'' \<or> field = ''relation_type'' then Some (FV (VString (edge_Type edge)))
      else if field = ''from'' then Some (FV (VString (edge_From edge)))
      else if field = ''to'' then Some (FV (VString (edge_To edge)))
      else if field = ''source'' then Some (FV (VString (edge_Source edge)))
      else if field = ''external_id'' then Some (FV (VString (edge_ExternalID edge)))
      else if field = ''confidence'' then Some (FV (VFloat (edge_Confidence edge)))
      else if field = ''source_priority'' then Some (FV (VInt KInt (edge_SourceRank edge)))
      else if field = ''created_at'' then Some (FTime (edge_CreatedAt edge))
      else if field = ''updated_at'' then Some (FTime (edge_UpdatedAt edge))
      else
        case prefixedField ''fields.'' field of
          Some name \<Rightarrow> namedField (edge_Fields edge) name
        | None \<Rightarrow> map_option FV (mget (edge_Fields edge) field))"

definition entityFilterValue :: "Entity \<Rightarrow> string \<Rightarrow> filter_value option" where
  "entityFilterValue entity field =
     (if field = ''labels'' \<and> mget (ent_Fields entity) ReservedLabelsField \<noteq> None
      then map_option FV (mget (ent_Fields entity) ReservedLabelsField)
      else if field = [] \<or> field = ''id'' then Some (FV (VString (ent_ID entity)))
      else if field = ''kind'' then Some (FV (VString (ent_Kind entity)))
      else if field = ''source'' then Some (FV (VString (ent_Source entity)))
      else if field = ''external_id'' then Some (FV (VString (ent_ExternalID entity)))
      else if field = ''confidence'' then Some (FV (VFloat (ent_Confidence entity)))
      else if field = ''source_priority'' then Some (FV (VInt KInt (ent_SourceRank entity)))
      else if field = ''created_at'' then Some (FTime (ent_CreatedAt entity))
      else if field = ''updated_at'' then Some (FTime (ent_UpdatedAt entity))
      else
        case prefixedField ''identity.'' field of
          Some name \<Rightarrow> namedField (ent_Identity entity) name
        | None \<Rightarrow>
            (case prefixedField ''fields.'' field of
               Some name \<Rightarrow> namedField (ent_Fields entity) name
             | None \<Rightarrow> map_option FV (mget (ent_Fields entity) field)))"

section \<open>Matching\<close>

fun filterExprMatches :: "query_env \<Rightarrow> (Filter \<Rightarrow> bool) \<Rightarrow> FilterExpr \<Rightarrow> bool" where
  "filterExprMatches env leaf (FilterExpr exprOp field v children) \<longleftrightarrow>
     (let lowered = ge_ToLower env exprOp; op = (if lowered = [] \<and> field \<noteq> [] then ''eq'' else lowered) in
      if op = ''and'' then list_all (filterExprMatches env leaf) children
      else if op = ''or'' then list_ex (filterExprMatches env leaf) children
      else if op = ''not'' then (case children of [] \<Rightarrow> True | child # _ \<Rightarrow> \<not> filterExprMatches env leaf child)
      else leaf \<lparr>fi_Field = field, fi_Op = op, fi_Value = v\<rparr>)"

definition entityMatches :: "query_env \<Rightarrow> Entity \<Rightarrow> Filter list \<Rightarrow> bool" where
  "entityMatches env entity filters \<longleftrightarrow> list_all (\<lambda>f. filterMatches env (entityFilterValue entity (fi_Field f)) f) filters"

definition edgeMatches :: "query_env \<Rightarrow> Edge \<Rightarrow> Filter list \<Rightarrow> bool" where
  "edgeMatches env edge filters \<longleftrightarrow> list_all (\<lambda>f. filterMatches env (edgeFilterValue edge (fi_Field f)) f) filters"

definition entityExprMatches :: "query_env \<Rightarrow> Entity \<Rightarrow> FilterExpr option \<Rightarrow> bool" where
  "entityExprMatches env entity expr \<longleftrightarrow>
     (case expr of
        None \<Rightarrow> True
      | Some e \<Rightarrow> filterExprMatches env (\<lambda>f. filterMatches env (entityFilterValue entity (fi_Field f)) f) e)"

definition edgeExprMatches :: "query_env \<Rightarrow> Edge \<Rightarrow> FilterExpr option \<Rightarrow> bool" where
  "edgeExprMatches env edge expr \<longleftrightarrow>
     (case expr of
        None \<Rightarrow> True
      | Some e \<Rightarrow> filterExprMatches env (\<lambda>f. filterMatches env (edgeFilterValue edge (fi_Field f)) f) e)"

definition requestEdgeMatches :: "query_env \<Rightarrow> Request \<Rightarrow> Edge \<Rightarrow> bool" where
  "requestEdgeMatches env request edge \<longleftrightarrow>
     edgeMatches env edge (rq_EdgeWhere request) \<and> edgeExprMatches env edge (rq_EdgeWhereExpr request)"

definition requestFilters :: "Request \<Rightarrow> Filter list" where
  "requestFilters request =
     rq_Where request @ map (\<lambda>(field, v). \<lparr>fi_Field = field, fi_Op = ''eq'', fi_Value = v\<rparr>) (entries (rq_Filters request))"

definition requestEntityMatches :: "query_env \<Rightarrow> Request \<Rightarrow> Entity \<Rightarrow> bool" where
  "requestEntityMatches env request entity \<longleftrightarrow>
     (if rq_Kind request \<noteq> [] \<and> ent_Kind entity \<noteq> rq_Kind request then False
      else if \<not> entityMatches env entity (rq_Where request) then False
      else if \<not> list_all (\<lambda>(field, expected).
                 case entityFilterValue entity field of None \<Rightarrow> False | Some actual \<Rightarrow> valuesEqual env actual expected)
               (entries (rq_Filters request)) then False
      else entityExprMatches env entity (rq_WhereExpr request))"

definition indexedField :: "string \<Rightarrow> string option" where
  "indexedField field =
     (if field = ''labels'' then Some ReservedLabelsField
      else if field \<in> {[], ''id'', ''kind'', ''source'', ''external_id'', ''confidence'', ''source_priority'', ''created_at'', ''updated_at''} then None
      else if is_prefix ''identity.'' field then None
      else
        case prefixedField ''fields.'' field of
          Some name \<Rightarrow> if name = [] then None else Some name
        | None \<Rightarrow> Some field)"

text \<open>The two ways to read the filters of a request agree.\<close>

lemma requestEntityMatches_filters:
  "requestEntityMatches env request entity \<longleftrightarrow>
     (rq_Kind request = [] \<or> ent_Kind entity = rq_Kind request) \<and> entityMatches env entity (requestFilters request) \<and>
     entityExprMatches env entity (rq_WhereExpr request)"
proof -
  have "filterMatches env v \<lparr>fi_Field = field, fi_Op = ''eq'', fi_Value = expected\<rparr> =
      (case v of None \<Rightarrow> False | Some actual \<Rightarrow> valuesEqual env actual expected)" for v field expected
    by (cases v) (auto simp: filterMatches_def valuesEqual_def valueFilterMatches_def split: filter_value.split)
  then show ?thesis
    by (simp add: requestEntityMatches_def requestFilters_def entityMatches_def list.pred_map comp_def split_def)
qed

end
