(* ===== verification/QueryPaths.thy ===== *)
theory QueryPaths
  imports QueryFilter
begin

text \<open>
  Path queries of package \<open>query\<close> over a graph in memory: the cost budget (\<open>budget.go\<close>), the filters of a path
  (\<open>path_helpers.go\<close>), the neighbours of a level (\<open>path_neighbors.go\<close>), breadth-first and depth-first traversal
  (\<open>traverse.go\<close>, \<open>path_ordered_visit.go\<close>). The lookups into persisted indexes are nil, as in \<open>Execute\<close>; their
  implementations are in the storage layer.
\<close>

section \<open>Budget\<close>

datatype query_error =
    ErrLimitExceeded int int
  | ContextDone

text \<open>
  A context is what the queries see of it: how many more checks it answers before it is done, \<open>None\<close> if it never is.
\<close>

record budget =
  bu_ctx :: "nat option"
  bu_limit :: int
  bu_cost :: int
  bu_scanned :: int
  bu_visited :: int
  bu_timedOut :: bool

definition defaultQueryCostLimit :: int where
  "defaultQueryCostLimit = 100000"

definition normalizedCostLimit :: "int \<Rightarrow> int" where
  "normalizedCostLimit limit = (if limit \<le> 0 then defaultQueryCostLimit else limit)"

definition newBudget :: "nat option \<Rightarrow> Request \<Rightarrow> budget" where
  "newBudget ctx request =
     \<lparr>bu_ctx = ctx, bu_limit = normalizedCostLimit (rq_CostLimit request), bu_cost = 0, bu_scanned = 0, bu_visited = 0, bu_timedOut = False\<rparr>"

definition budget_check :: "budget \<Rightarrow> budget \<times> query_error option" where
  "budget_check b =
     (case bu_ctx b of
        None \<Rightarrow> (b, None)
      | Some 0 \<Rightarrow> (b\<lparr>bu_timedOut := True\<rparr>, Some ContextDone)
      | Some (Suc n) \<Rightarrow> (b\<lparr>bu_ctx := Some n\<rparr>, None))"

definition budget_add :: "int \<Rightarrow> budget \<Rightarrow> budget \<times> query_error option" where
  "budget_add cost b =
     (case budget_check b of
        (b', Some e) \<Rightarrow> (b', Some e)
      | (b', None) \<Rightarrow>
          let b'' = b'\<lparr>bu_cost := bu_cost b' + cost\<rparr> in
          (b'', if bu_cost b'' > bu_limit b'' then Some (ErrLimitExceeded (bu_cost b'') (bu_limit b'')) else None))"

definition count_visit :: "budget \<Rightarrow> budget" where
  "count_visit b = b\<lparr>bu_visited := bu_visited b + 1\<rparr>"

section \<open>Paths and their filters\<close>

record Path =
  pa_Entities :: "Entity list"
  pa_Edges :: "Edge list"

definition pathEnd :: "Path \<Rightarrow> Entity" where
  "pathEnd path = (if pa_Entities path = [] then zero_Entity else last (pa_Entities path))"

definition stringSliceAllows :: "string \<Rightarrow> string list \<Rightarrow> bool" where
  "stringSliceAllows v allowed \<longleftrightarrow> (if allowed = [] then True else list_ex (\<lambda>candidate. v = candidate) allowed)"

definition pathAllowsKind :: "string \<Rightarrow> PathFilter \<Rightarrow> bool" where
  "pathAllowsKind kind filter' \<longleftrightarrow> (if pf_NodeKinds filter' = [] then True else list_ex (\<lambda>allowed. kind = allowed) (pf_NodeKinds filter'))"

text \<open>
  The loop over the edges of a path, which ends early once the steps are used up: \<open>entities\<close> are those from the index \<open>i + 1\<close> on, the target of each edge first.
\<close>

fun stepLoop :: "query_env \<Rightarrow> PathStep list \<Rightarrow> Edge list \<Rightarrow> Entity list \<Rightarrow> bool \<Rightarrow> bool" where
  "stepLoop env steps [] entities final \<longleftrightarrow> True"
| "stepLoop env [] (edge # edges) entities final \<longleftrightarrow> \<not> final"
| "stepLoop env (step # steps) (edge # edges) entities final \<longleftrightarrow>
     (if \<not> stringSliceAllows (edge_Type edge) (ps_RelationTypes step) then False
      else if \<not> edgeMatches env edge (ps_EdgeWhere step) \<or> \<not> edgeExprMatches env edge (ps_EdgeWhereExpr step) then False
      else
        case entities of
          [] \<Rightarrow> False
        | entity # rest \<Rightarrow>
            if \<not> stringSliceAllows (ent_Kind entity) (ps_NodeKinds step) then False
            else if ps_Where step \<noteq> [] \<and> \<not> entityMatches env entity (ps_Where step) then False
            else if \<not> entityExprMatches env entity (ps_WhereExpr step) then False
            else stepLoop env steps edges rest final)"

definition pathStepsMatch :: "query_env \<Rightarrow> Path \<Rightarrow> PathFilter \<Rightarrow> bool \<Rightarrow> bool" where
  "pathStepsMatch env path filter' final \<longleftrightarrow>
     (if pf_Steps filter' = [] then True
      else
        stepLoop env (pf_Steps filter') (pa_Edges path) (drop 1 (pa_Entities path)) final \<and>
        \<not> (final \<and> length (pa_Edges path) < length (pf_Steps filter')))"

definition pathEndMatches :: "query_env \<Rightarrow> Entity \<Rightarrow> PathFilter \<Rightarrow> bool" where
  "pathEndMatches env end' filter' \<longleftrightarrow>
     (if pf_EndKind filter' \<noteq> [] \<and> ent_Kind end' \<noteq> pf_EndKind filter' then False
      else if pf_EndWhere filter' \<noteq> [] \<and> \<not> entityMatches env end' (pf_EndWhere filter') then False
      else entityExprMatches env end' (pf_EndWhereExpr filter'))"

definition pathMatches :: "query_env \<Rightarrow> Path \<Rightarrow> PathFilter \<Rightarrow> bool" where
  "pathMatches env path filter' \<longleftrightarrow>
     (if \<not> pathStepsMatch env path filter' True then False
      else if \<not> pathEndMatches env (pathEnd path) filter' then False
      else if pf_NodeKinds filter' \<noteq> [] then
        list_all (\<lambda>entity. ent_Kind entity \<in> set (pf_NodeKinds filter')) (pa_Entities path)
      else True)"

definition pathPrefixMatches :: "query_env \<Rightarrow> Path \<Rightarrow> PathFilter \<Rightarrow> bool \<Rightarrow> bool" where
  "pathPrefixMatches env path filter' final \<longleftrightarrow>
     (if pf_NodeKinds filter' \<noteq> [] \<and> \<not> list_all (\<lambda>entity. pathAllowsKind (ent_Kind entity) filter') (pa_Entities path) then False
      else if \<not> pathStepsMatch env path filter' final then False
      else if \<not> final then True
      else pathEndMatches env (pathEnd path) filter')"

definition pathContainsEntity :: "Path \<Rightarrow> string \<Rightarrow> bool" where
  "pathContainsEntity path id' \<longleftrightarrow> list_ex (\<lambda>entity. ent_ID entity = id') (pa_Entities path)"

definition normalizedDepth :: "int \<Rightarrow> int" where
  "normalizedDepth depth = (if depth \<le> 0 then 1 else if depth > 16 then 16 else depth)"

record pendingPath =
  pp_entityID :: string
  pp_path :: Path

section \<open>Neighbours of a level\<close>

definition relationTypeSet :: "Request \<Rightarrow> string set" where
  "relationTypeSet request =
     {v \<in> set (rq_RelationTypes request @ (if rq_RelationType request \<noteq> [] then [rq_RelationType request] else []) @
        pf_RelationTypes (rq_Path request)). v \<noteq> []}"

definition requestForPathLevel :: "Request \<Rightarrow> nat \<Rightarrow> Request" where
  "requestForPathLevel request level =
     (if length (pf_Steps (rq_Path request)) \<le> level then request
      else
        let step = pf_Steps (rq_Path request) ! level;
            request1 = (if ps_Direction step \<noteq> [] then request\<lparr>rq_Direction := ps_Direction step\<rparr> else request) in
        if ps_RelationTypes step = [] then request1
        else
          let allowed = relationTypeSet request1;
              relations = filter (\<lambda>relation. allowed = {} \<or> relation \<in> allowed) (ps_RelationTypes step) in
          request1\<lparr>rq_RelationType := [], rq_RelationTypes := (if relations = [] then [[nul]] else relations),
            rq_Path := (rq_Path request1)\<lparr>pf_RelationTypes := []\<rparr>\<rparr>)"

definition filterRequestEdges :: "query_env \<Rightarrow> Request \<Rightarrow> Neighbor list \<Rightarrow> Neighbor list" where
  "filterRequestEdges env request neighbors =
     (if rq_EdgeWhere request = [] \<and> rq_EdgeWhereExpr request = None then neighbors
      else filter (\<lambda>neighbor. requestEdgeMatches env request (nb_Edge neighbor)) neighbors)"

definition neighborsForBudget :: "query_env \<Rightarrow> Graph \<Rightarrow> string \<Rightarrow> Request \<Rightarrow> budget \<Rightarrow> budget \<times> (query_error + Neighbor list)" where
  "neighborsForBudget env g entityID request b =
     (let impact = (rq_DirectionStrategy request = ''impact'') in
      case FilteredNeighbors g entityID (if impact then ''both'' else rq_Direction request) (relationTypeSet request)
             (pf_NodeKinds (rq_Path request)) impact (Some (budget_add 1)) b of
        (b', Inl e) \<Rightarrow> (b', Inl e)
      | (b', Inr neighbors) \<Rightarrow> (b', Inr (filterRequestEdges env request neighbors)))"

section \<open>Traversal\<close>

text \<open>A loop around a callback that says whether to go on; \<open>False\<close> when it ended the loop.\<close>

fun visit_while :: "('s \<Rightarrow> 'a \<Rightarrow> 's \<times> ('e + bool)) \<Rightarrow> 'a list \<Rightarrow> 's \<Rightarrow> 's \<times> ('e + bool)" where
  "visit_while f [] s = (s, Inr True)"
| "visit_while f (x # xs) s =
     (case f s x of
        (s', Inl e) \<Rightarrow> (s', Inl e)
      | (s', Inr False) \<Rightarrow> (s', Inr False)
      | (s', Inr True) \<Rightarrow> visit_while f xs s')"

record 's path_walk =
  pw_budget :: budget
  pw_matched :: int
  pw_next :: "pendingPath list"
  pw_state :: 's

type_synonym 's path_visit = "'s \<Rightarrow> Path \<Rightarrow> 's \<times> query_error option"

definition root_path :: "Entity \<Rightarrow> pendingPath" where
  "root_path start = \<lparr>pp_entityID = ent_ID start, pp_path = \<lparr>pa_Entities = [start], pa_Edges = []\<rparr>\<rparr>"

definition extendPath :: "Path \<Rightarrow> Neighbor \<Rightarrow> Path" where
  "extendPath path neighbor = \<lparr>pa_Entities = pa_Entities path @ [nb_Entity neighbor], pa_Edges = pa_Edges path @ [nb_Edge neighbor]\<rparr>"

text \<open>A path that matches is handed to the visitor and counted; the traversal ends when enough are.\<close>

definition offerPath :: "query_env \<Rightarrow> PathFilter \<Rightarrow> int \<Rightarrow> 's path_visit \<Rightarrow> Path \<Rightarrow> 's path_walk \<Rightarrow> 's path_walk \<times> (query_error + bool)" where
  "offerPath env filter' maxResults visit path w =
     (if pathMatches env path filter' then
        (case visit (pw_state w) path of
           (s', Some e) \<Rightarrow> (w\<lparr>pw_state := s'\<rparr>, Inl e)
         | (s', None) \<Rightarrow>
             let w' = w\<lparr>pw_state := s', pw_matched := pw_matched w + 1\<rparr> in
             (w', Inr (\<not> (maxResults > 0 \<and> pw_matched w' \<ge> maxResults))))
      else (w, Inr True))"

text \<open>The closure \<open>processNeighbor\<close> of both traversals; \<open>proceed\<close> is what it does with a path that may go on.\<close>

definition processNeighbor ::
  "query_env \<Rightarrow> Request \<Rightarrow> int \<Rightarrow> 's path_visit \<Rightarrow> bool \<Rightarrow> (pendingPath \<Rightarrow> 's path_walk \<Rightarrow> 's path_walk \<times> (query_error + bool))
     \<Rightarrow> pendingPath \<Rightarrow> 's path_walk \<Rightarrow> Neighbor \<Rightarrow> 's path_walk \<times> (query_error + bool)" where
  "processNeighbor env request maxResults visit finalLevel proceed cur w0 neighbor =
     (let w = w0\<lparr>pw_budget := count_visit (pw_budget w0)\<rparr> in
      if pathContainsEntity (pp_path cur) (ent_ID (nb_Entity neighbor)) then (w, Inr True)
      else
        let newPath = extendPath (pp_path cur) neighbor in
        if \<not> pathPrefixMatches env newPath (rq_Path request) finalLevel then (w, Inr True)
        else
          case offerPath env (rq_Path request) maxResults visit newPath w of
            (w', Inr True) \<Rightarrow>
              if finalLevel then (w', Inr True)
              else proceed \<lparr>pp_entityID = ent_ID (nb_Entity neighbor), pp_path = newPath\<rparr> w'
          | (w', r) \<Rightarrow> (w', r))"

definition appendNext :: "pendingPath \<Rightarrow> 's path_walk \<Rightarrow> 's path_walk \<times> (query_error + bool)" where
  "appendNext path w = (w\<lparr>pw_next := pw_next w @ [path]\<rparr>, Inr True)"

text \<open>The neighbours of one pending path. In the breadth-first traversal the loop ends early exactly when \<open>limitReached\<close> is set.\<close>

definition expandPath ::
  "query_env \<Rightarrow> Graph \<Rightarrow> Request \<Rightarrow> int \<Rightarrow> 's path_visit \<Rightarrow> nat \<Rightarrow> bool
     \<Rightarrow> (pendingPath \<Rightarrow> 's path_walk \<Rightarrow> 's path_walk \<times> (query_error + bool)) \<Rightarrow> 's path_walk \<Rightarrow> pendingPath \<Rightarrow> 's path_walk \<times> (query_error + bool)" where
  "expandPath env g request maxResults visit level finalLevel proceed w cur =
     (case neighborsForBudget env g (pp_entityID cur) (requestForPathLevel request level) (pw_budget w) of
        (b, Inl e) \<Rightarrow> (w\<lparr>pw_budget := b\<rparr>, Inl e)
      | (b, Inr neighbors) \<Rightarrow>
          visit_while (processNeighbor env request maxResults visit finalLevel proceed cur) neighbors (w\<lparr>pw_budget := b\<rparr>))"

fun pathLevels ::
  "query_env \<Rightarrow> Graph \<Rightarrow> Request \<Rightarrow> int \<Rightarrow> 's path_visit \<Rightarrow> nat \<Rightarrow> nat \<Rightarrow> pendingPath list \<Rightarrow> 's path_walk \<Rightarrow> 's path_walk \<times> query_error option" where
  "pathLevels env g request maxResults visit level 0 queue w = (w, None)"
| "pathLevels env g request maxResults visit level (Suc remaining) queue w =
     (if queue = [] then (w, None)
      else
        case budget_check (pw_budget w) of
          (b, Some e) \<Rightarrow> (w\<lparr>pw_budget := b\<rparr>, Some e)
        | (b, None) \<Rightarrow>
            (case visit_while (expandPath env g request maxResults visit level (remaining = 0) appendNext) queue (w\<lparr>pw_budget := b, pw_next := []\<rparr>) of
               (w', Inl e) \<Rightarrow> (w', Some e)
             | (w', Inr False) \<Rightarrow> (w', None)
             | (w', Inr True) \<Rightarrow> pathLevels env g request maxResults visit (Suc level) remaining (pw_next w') w'))"

definition new_walk :: "budget \<Rightarrow> 's \<Rightarrow> 's path_walk" where
  "new_walk b s = \<lparr>pw_budget = b, pw_matched = 0, pw_next = [], pw_state = s\<rparr>"

definition visitPaths ::
  "query_env \<Rightarrow> Graph \<Rightarrow> Entity \<Rightarrow> Request \<Rightarrow> int \<Rightarrow> 's path_visit \<Rightarrow> budget \<Rightarrow> 's \<Rightarrow> 's path_walk \<times> query_error option" where
  "visitPaths env g start request maxResults visit b s =
     (if \<not> pathPrefixMatches env (pp_path (root_path start)) (rq_Path request) False then (new_walk b s, None)
      else pathLevels env g request maxResults visit 0 (nat (normalizedDepth (rq_Depth request))) [root_path start] (new_walk b s))"

text \<open>The recursive closure \<open>walk\<close>; \<open>n\<close> levels remain below the current one.\<close>

definition walkWith where
  "walkWith env g request maxResults visit level finalLevel proceed cur w =
     (case budget_check (pw_budget w) of
        (b, Some e) \<Rightarrow> (w\<lparr>pw_budget := b\<rparr>, Inl e)
      | (b, None) \<Rightarrow> expandPath env g request maxResults visit level finalLevel proceed (w\<lparr>pw_budget := b\<rparr>) cur)"

fun walkPaths ::
  "query_env \<Rightarrow> Graph \<Rightarrow> Request \<Rightarrow> int \<Rightarrow> 's path_visit \<Rightarrow> nat \<Rightarrow> nat \<Rightarrow> pendingPath \<Rightarrow> 's path_walk \<Rightarrow> 's path_walk \<times> (query_error + bool)" where
  "walkPaths env g request maxResults visit level 0 cur w =
     walkWith env g request maxResults visit level True (\<lambda>path w'. (w', Inr True)) cur w"
| "walkPaths env g request maxResults visit level (Suc n) cur w =
     walkWith env g request maxResults visit level False (walkPaths env g request maxResults visit (Suc level) n) cur w"

definition visitPathsInIdentityOrder ::
  "query_env \<Rightarrow> Graph \<Rightarrow> Entity \<Rightarrow> Request \<Rightarrow> int \<Rightarrow> 's path_visit \<Rightarrow> budget \<Rightarrow> 's \<Rightarrow> 's path_walk \<times> query_error option" where
  "visitPathsInIdentityOrder env g start request maxResults visit b s =
     (if \<not> pathPrefixMatches env (pp_path (root_path start)) (rq_Path request) False then (new_walk b s, None)
      else
        case walkPaths env g request maxResults visit 0 (nat (normalizedDepth (rq_Depth request)) - 1) (root_path start) (new_walk b s) of
          (w, Inl e) \<Rightarrow> (w, Some e)
        | (w, Inr _) \<Rightarrow> (w, None))"

text \<open>The limit of \<open>collectPaths\<close> is the capacity of its result, so callers pass a limit that is not negative.\<close>

definition collect_path :: "Path list path_visit" where
  "collect_path paths path = (paths @ [path], None)"

definition collectPaths :: "query_env \<Rightarrow> Graph \<Rightarrow> Entity \<Rightarrow> Request \<Rightarrow> int \<Rightarrow> budget \<Rightarrow> budget \<times> (query_error + Path list)" where
  "collectPaths env g start request maxResults b =
     (case visitPathsInIdentityOrder env g start request maxResults collect_path b [] of
        (w, Some e) \<Rightarrow> (pw_budget w, Inl e)
      | (w, None) \<Rightarrow> (pw_budget w, Inr (pw_state w)))"

end
