(* ===== verification/PathTraversal.thy ===== *)
theory PathTraversal
  imports QueryPaths "HOL-Library.Multiset"
begin

text \<open>
  What the traversals visit. A query path is a simple path from the start entity along the neighbours of its levels;
  the specification of a traversal is the set of query paths that match the path filter. Both traversals visit exactly
  these, in breadth-first and in depth-first order, as many as the limit asks for, or fail because the budget is used up.
\<close>

section \<open>Query paths\<close>

definition levelNeighbors :: "query_env \<Rightarrow> Graph \<Rightarrow> Request \<Rightarrow> string \<Rightarrow> Neighbor list" where
  "levelNeighbors env g request id' =
     (let impact = (rq_DirectionStrategy request = ''impact'') in
      case snd (FilteredNeighbors g id' (if impact then ''both'' else rq_Direction request) (relationTypeSet request)
             (pf_NodeKinds (rq_Path request)) impact (None :: (unit \<Rightarrow> unit \<times> unit option) option) ()) of
        Inl _ \<Rightarrow> []
      | Inr neighbors \<Rightarrow> filterRequestEdges env request neighbors)"

inductive query_path :: "query_env \<Rightarrow> Graph \<Rightarrow> Request \<Rightarrow> Entity \<Rightarrow> nat \<Rightarrow> Path \<Rightarrow> bool" for env g request start where
  root: "query_path env g request start 0 (pp_path (root_path start))"
| extend_path: "query_path env g request start n p \<Longrightarrow>
    neighbor \<in> set (levelNeighbors env g (requestForPathLevel request n) (ent_ID (pathEnd p))) \<Longrightarrow>
    \<not> pathContainsEntity p (ent_ID (nb_Entity neighbor)) \<Longrightarrow> query_path env g request start (Suc n) (extendPath p neighbor)"

inductive_cases query_path_SucE: "query_path env g request start (Suc n) p"
inductive_cases query_path_0E: "query_path env g request start 0 p"

definition matching_paths :: "query_env \<Rightarrow> Graph \<Rightarrow> Entity \<Rightarrow> Request \<Rightarrow> Path set" where
  "matching_paths env g start request =
     {p. \<exists>n. int n \<le> normalizedDepth (rq_Depth request) \<and> query_path env g request start n p \<and> pathMatches env p (rq_Path request)}"

lemma pathEnd_root [simp]: "pathEnd (pp_path (root_path start)) = start"
  by (simp add: pathEnd_def root_path_def)

lemma pathEnd_extend [simp]: "pathEnd (extendPath p neighbor) = nb_Entity neighbor"
  by (simp add: pathEnd_def extendPath_def)

lemma query_path_length:
  "query_path env g request start n p \<Longrightarrow> length (pa_Edges p) = n \<and> length (pa_Entities p) = Suc n \<and> hd (pa_Entities p) = start"
  by (induction rule: query_path.induct) (auto simp: root_path_def extendPath_def hd_append)

lemma query_path_simple: "query_path env g request start n p \<Longrightarrow> distinct (map ent_ID (pa_Entities p))"
  by (induction rule: query_path.induct) (auto simp: root_path_def extendPath_def pathContainsEntity_def list_ex_iff)

section \<open>Budgets\<close>

definition exhausted :: "budget \<Rightarrow> bool" where
  "exhausted b \<longleftrightarrow> bu_timedOut b \<or> bu_limit b < bu_cost b"

lemma check_exhausted: "budget_check b = (b', Some e) \<Longrightarrow> exhausted b'"
  by (auto simp: budget_check_def exhausted_def split: option.splits nat.splits)

lemma add_exhausted: "budget_add cost b = (b', Some e) \<Longrightarrow> exhausted b'"
  by (auto simp: budget_add_def exhausted_def Let_def split: prod.splits option.splits if_splits dest!: check_exhausted)

lemma charged_exhausted: "charged (Some (budget_add cost)) f xs b = (b', Inl e) \<Longrightarrow> exhausted b'"
  by (induction xs arbitrary: b) (auto simp: run_charge_def split: prod.splits option.splits sum.splits dest: add_exhausted)

lemma neighborsForBudget_cases:
  obtains b' e where "neighborsForBudget env g id' request b = (b', Inl e)" "exhausted b'"
  | b' where "neighborsForBudget env g id' request b = (b', Inr (levelNeighbors env g request id'))"
proof -
  let ?impact = "rq_DirectionStrategy request = ''impact''"
  let ?dir = "if ?impact then ''both'' else rq_Direction request"
  let ?d = "if ?dir = [] then ''both'' else ?dir"
  let ?f = "filteredRef g (relationTypeSet request) (pf_NodeKinds (rq_Path request)) ?impact"
  obtain b' r where c: "charged (Some (budget_add 1)) ?f (directedEdges g id' ?d) b = (b', r)" by (rule prod.exhaust)
  show thesis
  proof (cases r)
    case (Inl e)
    with c have "neighborsForBudget env g id' request b = (b', Inl e)" by (simp add: neighborsForBudget_def FilteredNeighbors_def Let_def)
    with charged_exhausted [OF c [unfolded Inl]] that(1) show thesis by blast
  next
    case (Inr refs)
    have "neighborsForBudget env g id' request b = (b', Inr (levelNeighbors env g request id'))"
      using c charged_Inr [OF c [unfolded Inr]]
      by (simp add: Inr neighborsForBudget_def levelNeighbors_def FilteredNeighbors_def charged_free Let_def)
    with that(2) show thesis by blast
  qed
qed

section \<open>Filters of paths\<close>

lemma stepLoop_not_final: "stepLoop env steps edges entities True \<Longrightarrow> stepLoop env steps edges entities False"
  by (induction env steps edges entities True rule: stepLoop.induct) (auto split: list.splits if_splits)

lemma stepLoop_prefix:
  "stepLoop env steps (edges @ [edge]) (entities @ [entity]) final \<Longrightarrow> length entities = length edges \<Longrightarrow> stepLoop env steps edges entities False"
proof (induction edges arbitrary: steps entities)
  case (Cons e es)
  then obtain n ns where "entities = n # ns" by (cases entities) auto
  with Cons show ?case by (cases steps) (auto split: if_splits)
qed simp

lemma pathAllowsKind_iff: "pathAllowsKind kind f \<longleftrightarrow> pf_NodeKinds f = [] \<or> kind \<in> set (pf_NodeKinds f)"
  by (auto simp: pathAllowsKind_def list_ex_iff)

lemma pathMatches_prefix: "pathMatches env p f \<Longrightarrow> pathPrefixMatches env p f final"
  by (cases final) (auto simp: pathMatches_def pathPrefixMatches_def pathStepsMatch_def pathAllowsKind_iff list_all_iff
      dest: stepLoop_not_final split: if_splits)

lemma pathPrefixMatches_shorter:
  assumes "pathPrefixMatches env (extendPath p neighbor) f final" and "length (pa_Entities p) = Suc (length (pa_Edges p))"
  shows "pathPrefixMatches env p f False"
proof -
  obtain start rest where "pa_Entities p = start # rest" using assms(2) by (cases "pa_Entities p") auto
  with assms show ?thesis
    by (auto simp: pathPrefixMatches_def pathStepsMatch_def extendPath_def split: if_splits dest!: stepLoop_prefix)
qed

section \<open>Runs\<close>

text \<open>
  The outcome of a part of a traversal that offers the matching paths \<open>ps\<close>: the visitor has seen as many of them as the
  limit leaves room for, and the traversal goes on if there is room for more; or the budget is used up.
\<close>

definition ready :: "int \<Rightarrow> 's path_walk \<Rightarrow> bool" where
  "ready k w \<longleftrightarrow> k \<le> 0 \<or> pw_matched w < k"

definition offered :: "int \<Rightarrow> 's path_walk \<Rightarrow> Path list \<Rightarrow> Path list" where
  "offered k w ps = (if k \<le> 0 then ps else take (nat (k - pw_matched w)) ps)"

fun outcome :: "int \<Rightarrow> ('s \<Rightarrow> Path \<Rightarrow> 's) \<Rightarrow> 's path_walk \<Rightarrow> Path list \<Rightarrow> 's path_walk \<times> (query_error + bool) \<Rightarrow> bool" where
  "outcome k f w ps (w', Inl e) \<longleftrightarrow> exhausted (pw_budget w')"
| "outcome k f w ps (w', Inr go) \<longleftrightarrow>
     pw_state w' = foldl f (pw_state w) (offered k w ps) \<and> pw_matched w' = pw_matched w + int (length (offered k w ps)) \<and>
     (go \<longleftrightarrow> ready k w')"

lemma outcome_ignored [simp]:
  "outcome k f (w\<lparr>pw_budget := b\<rparr>) ps r \<longleftrightarrow> outcome k f w ps r" "outcome k f (w\<lparr>pw_next := q\<rparr>) ps r \<longleftrightarrow> outcome k f w ps r"
  "ready k (w\<lparr>pw_budget := b\<rparr>) = ready k w" "ready k (w\<lparr>pw_next := q\<rparr>) = ready k w"
  by (cases r; cases "snd r"; simp add: offered_def ready_def)+

lemma outcome_Nil: "ready k w \<Longrightarrow> outcome k f w [] (w, Inr True)"
  by (simp add: offered_def)

lemma outcome_append_stop: "outcome k f w ps (w', Inr False) \<Longrightarrow> ready k w \<Longrightarrow> outcome k f w (ps @ qs) (w', Inr False)"
  by (auto simp: offered_def ready_def split: if_splits)

lemma outcome_append: "outcome k f w ps (w', Inr True) \<Longrightarrow> outcome k f w' qs r \<Longrightarrow> outcome k f w (ps @ qs) r"
proof (cases r)
  case (Pair w'' go)
  assume a: "outcome k f w ps (w', Inr True)" "outcome k f w' qs r"
  show ?thesis
  proof (cases "k \<le> 0")
    case True
    with a Pair show ?thesis by (cases go) (simp_all add: offered_def)
  next
    case False
    with a(1) have "pw_matched w + int (length (take (nat (k - pw_matched w)) ps)) < k" by (simp add: offered_def ready_def)
    then have "length ps < nat (k - pw_matched w)" by (simp split: if_splits)
    moreover have "nat (k - (pw_matched w + int (length ps))) = nat (k - pw_matched w) - length ps" by simp
    ultimately show ?thesis using a Pair False
      by (cases go) (simp_all add: offered_def)
  qed
qed

lemma visit_while_outcome:
  assumes "\<And>x w. x \<in> set xs \<Longrightarrow> ready k w \<Longrightarrow> outcome k f w (ps x) (F w x)" and "ready k w"
  shows "outcome k f w (concat (map ps xs)) (visit_while F xs w)"
  using assms
proof (induction xs arbitrary: w)
  case Nil
  then show ?case by (simp add: offered_def)
next
  case (Cons x xs)
  obtain w' r where F: "F w x = (w', r)" by (rule prod.exhaust)
  have o: "outcome k f w (ps x) (w', r)" using Cons.prems F [symmetric] by simp
  show ?case
  proof (cases r)
    case (Inl e)
    with o F show ?thesis by simp
  next
    case (Inr go)
    show ?thesis
    proof (cases go)
      case True
      with o Inr have o': "outcome k f w (ps x) (w', Inr True)" by simp
      then have "outcome k f w' (concat (map ps xs)) (visit_while F xs w')"
        by (intro Cons.IH) (auto intro: Cons.prems)
      with outcome_append [OF o'] F Inr True show ?thesis by simp
    next
      case False
      with outcome_append_stop [OF _ Cons.prems(2)] o F Inr show ?thesis by simp
    qed
  qed
qed

section \<open>The tree of paths\<close>

definition child :: "pendingPath \<Rightarrow> Neighbor \<Rightarrow> pendingPath" where
  "child cur neighbor = \<lparr>pp_entityID = ent_ID (nb_Entity neighbor), pp_path = extendPath (pp_path cur) neighbor\<rparr>"

lemma pp_path_child [simp]: "pp_path (child cur neighbor) = extendPath (pp_path cur) neighbor"
  by (simp add: child_def)

definition goes_on :: "query_env \<Rightarrow> Request \<Rightarrow> bool \<Rightarrow> pendingPath \<Rightarrow> Neighbor \<Rightarrow> bool" where
  "goes_on env request final cur neighbor \<longleftrightarrow>
     \<not> pathContainsEntity (pp_path cur) (ent_ID (nb_Entity neighbor)) \<and>
     pathPrefixMatches env (extendPath (pp_path cur) neighbor) (rq_Path request) final"

definition children :: "query_env \<Rightarrow> Graph \<Rightarrow> Request \<Rightarrow> nat \<Rightarrow> bool \<Rightarrow> pendingPath \<Rightarrow> pendingPath list" where
  "children env g request level final cur =
     map (child cur) (filter (goes_on env request final cur) (levelNeighbors env g (requestForPathLevel request level) (pp_entityID cur)))"

definition matched :: "query_env \<Rightarrow> Request \<Rightarrow> pendingPath \<Rightarrow> Path list" where
  "matched env request p = (if pathMatches env (pp_path p) (rq_Path request) then [pp_path p] else [])"

fun depth_first :: "query_env \<Rightarrow> Graph \<Rightarrow> Request \<Rightarrow> nat \<Rightarrow> nat \<Rightarrow> pendingPath \<Rightarrow> Path list" where
  "depth_first env g request level 0 cur = concat (map (matched env request) (children env g request level True cur))"
| "depth_first env g request level (Suc n) cur =
     concat (map (\<lambda>p. matched env request p @ depth_first env g request (Suc level) n p) (children env g request level False cur))"

fun breadth_first :: "query_env \<Rightarrow> Graph \<Rightarrow> Request \<Rightarrow> nat \<Rightarrow> nat \<Rightarrow> pendingPath list \<Rightarrow> Path list" where
  "breadth_first env g request level 0 queue = concat (map (matched env request) (concat (map (children env g request level True) queue)))"
| "breadth_first env g request level (Suc n) queue =
     (let queue' = concat (map (children env g request level False) queue) in
      concat (map (matched env request) queue') @ breadth_first env g request (Suc level) n queue')"

lemma same_paths: "mset (concat (map (depth_first env g request level n) queue)) = mset (breadth_first env g request level n queue)"
proof (induction n arbitrary: level queue)
  case 0
  then show ?case by (induction queue) simp_all
next
  case (Suc n)
  have "mset (concat (map (\<lambda>p. m p @ d p) xs)) = mset (concat (map m xs)) + mset (concat (map d xs))" for m d :: "pendingPath \<Rightarrow> Path list" and xs
    by (induction xs) simp_all
  note split = this
  have "concat (map (depth_first env g request level (Suc n)) queue) =
      concat (map (\<lambda>p. matched env request p @ depth_first env g request (Suc level) n p) (concat (map (children env g request level False) queue)))"
    by (induction queue) simp_all
  then show ?case unfolding breadth_first.simps Let_def mset_append by (simp only: split Suc.IH)
qed

text \<open>A queue of a level holds every query path of that length that the filter lets go on.\<close>

definition level_queue :: "query_env \<Rightarrow> Graph \<Rightarrow> Request \<Rightarrow> Entity \<Rightarrow> nat \<Rightarrow> pendingPath list \<Rightarrow> bool" where
  "level_queue env g request start n queue \<longleftrightarrow>
     (\<forall>p\<in>set queue. pp_entityID p = ent_ID (pathEnd (pp_path p))) \<and>
     pp_path ` set queue = {p. query_path env g request start n p \<and> pathPrefixMatches env p (rq_Path request) False}"

lemma child_paths:
  assumes "level_queue env g request start level queue"
  shows "pp_path ` set (concat (map (children env g request level final) queue)) =
     {p. query_path env g request start (Suc level) p \<and> pathPrefixMatches env p (rq_Path request) final}" (is "?l = ?r")
proof
  show "?l \<subseteq> ?r"
  proof
    fix p assume "p \<in> ?l"
    then obtain cur nb where cur: "cur \<in> set queue" and nb: "nb \<in> set (levelNeighbors env g (requestForPathLevel request level) (pp_entityID cur))"
      and on: "goes_on env request final cur nb" and p: "p = extendPath (pp_path cur) nb"
      by (auto simp: children_def child_def)
    from cur assms have "query_path env g request start level (pp_path cur)" "pp_entityID cur = ent_ID (pathEnd (pp_path cur))"
      unfolding level_queue_def by auto
    with nb on show "p \<in> ?r" by (auto simp: p goes_on_def intro: query_path.extend_path)
  qed
next
  show "?r \<subseteq> ?l"
  proof
    fix p assume "p \<in> ?r"
    then obtain q nb where p: "p = extendPath q nb" and q: "query_path env g request start level q"
      and nb: "nb \<in> set (levelNeighbors env g (requestForPathLevel request level) (ent_ID (pathEnd q)))"
      and new: "\<not> pathContainsEntity q (ent_ID (nb_Entity nb))" and m: "pathPrefixMatches env p (rq_Path request) final"
      by (auto elim: query_path_SucE)
    have "pathPrefixMatches env q (rq_Path request) False"
      using pathPrefixMatches_shorter [OF m [unfolded p]] query_path_length [OF q] by simp
    with q assms obtain cur where cur: "cur \<in> set queue" "pp_path cur = q" "pp_entityID cur = ent_ID (pathEnd q)"
      unfolding level_queue_def by force
    with nb new m show "p \<in> ?l"
      by (auto simp: p children_def child_def goes_on_def image_iff intro!: bexI [of _ cur] bexI [of _ nb])
  qed
qed

lemma level_queue_Suc:
  "level_queue env g request start level queue \<Longrightarrow> level_queue env g request start (Suc level) (concat (map (children env g request level False) queue))"
  using child_paths [of env g request start level queue False]
  by (auto simp: level_queue_def children_def child_def)

lemma set_matched: "set (concat (map (matched env request) queue)) = {p \<in> pp_path ` set queue. pathMatches env p (rq_Path request)}"
  by (auto simp: matched_def split: if_splits)

lemma levels_split:
  "(\<exists>k. l < k \<and> k \<le> Suc (l + Suc n) \<and> P k) \<longleftrightarrow> P (Suc l) \<or> (\<exists>k. Suc l < k \<and> k \<le> Suc (Suc l + n) \<and> P k)"
proof -
  have "l < k \<and> k \<le> Suc (l + Suc n) \<and> P k \<longleftrightarrow> k = Suc l \<and> P k \<or> Suc l < k \<and> k \<le> Suc (Suc l + n) \<and> P k" for k by auto
  then show ?thesis by (simp only: ex_disj_distrib) simp
qed

lemma set_breadth_first:
  assumes "level_queue env g request start level queue"
  shows "set (breadth_first env g request level n queue) =
    {p. \<exists>k. level < k \<and> k \<le> Suc (level + n) \<and> query_path env g request start k p \<and> pathMatches env p (rq_Path request)}"
  using assms
proof (induction n arbitrary: level queue)
  case 0
  have "set (breadth_first env g request level 0 queue) =
      {p. query_path env g request start (Suc level) p \<and> pathPrefixMatches env p (rq_Path request) True \<and> pathMatches env p (rq_Path request)}"
    using child_paths [OF 0, of True] unfolding breadth_first.simps set_matched by auto
  moreover have "(\<exists>k>level. k \<le> Suc (level + 0) \<and> P k) \<longleftrightarrow> P (Suc level)" for P by (metis Suc_leI add.right_neutral le_antisym lessI order_refl)
  ultimately show ?case by (auto dest: pathMatches_prefix)
next
  case (Suc n)
  let ?queue = "concat (map (children env g request level False) queue)"
  have "set (concat (map (matched env request) ?queue)) =
      {p. query_path env g request start (Suc level) p \<and> pathMatches env p (rq_Path request)}"
    using child_paths [OF Suc.prems, of False] unfolding set_matched by (auto dest: pathMatches_prefix)
  then show ?case
    unfolding breadth_first.simps Let_def set_append Suc.IH [OF level_queue_Suc [OF Suc.prems]] levels_split by blast
qed

section \<open>The traversals\<close>

definition plain_visit :: "('s \<Rightarrow> Path \<Rightarrow> 's) \<Rightarrow> 's path_visit" where
  "plain_visit f s p = (f s p, None)"

lemma offerPath_outcome:
  assumes "ready k w"
  shows "outcome k f w (if pathMatches env p filter' then [p] else []) (offerPath env filter' k (plain_visit f) p w)"
  using assms by (auto simp: offerPath_def plain_visit_def offered_def ready_def Let_def)

lemma processNeighbor_outcome:
  assumes "\<And>p w. ready k w \<Longrightarrow> \<not> final \<Longrightarrow> outcome k f w (below p) (proceed p w)" and r: "ready k w"
  shows "outcome k f w (if goes_on env request final cur nb then matched env request (child cur nb) @ (if final then [] else below (child cur nb)) else [])
    (processNeighbor env request k (plain_visit f) final proceed cur w nb)"
proof (cases "goes_on env request final cur nb")
  case False
  then show ?thesis using r
    by (auto simp: processNeighbor_def goes_on_def Let_def offered_def)
next
  case True
  let ?w = "w\<lparr>pw_budget := count_visit (pw_budget w)\<rparr>"
  obtain w' res where o: "offerPath env (rq_Path request) k (plain_visit f) (extendPath (pp_path cur) nb) ?w = (w', res)" by (rule prod.exhaust)
  have m: "outcome k f w (matched env request (child cur nb)) (w', res)"
    using offerPath_outcome [of k ?w f env "extendPath (pp_path cur) nb" "rq_Path request"] r o by (simp only: matched_def pp_path_child outcome_ignored)
  have p: "processNeighbor env request k (plain_visit f) final proceed cur w nb =
      (case res of Inr True \<Rightarrow> if final then (w', Inr True) else proceed (child cur nb) w' | _ \<Rightarrow> (w', res))"
    using True o by (auto simp: processNeighbor_def goes_on_def Let_def child_def split: sum.splits bool.splits)
  show ?thesis
  proof (cases "res = Inr True")
    case go: True
    with m have "ready k w'" by simp
    with go assms(1) m outcome_append [OF m [unfolded go]] show ?thesis by (simp add: p True)
  next
    case stop: False
    then show ?thesis using m outcome_append_stop [OF _ r] by (cases res) (auto simp: p True)
  qed
qed

lemma concat_map_if: "concat (map (\<lambda>x. if P x then F x else []) xs) = concat (map F (filter P xs))"
  by (induction xs) simp_all

lemma expandPath_outcome:
  assumes "\<And>p w. ready k w \<Longrightarrow> \<not> final \<Longrightarrow> outcome k f w (below p) (proceed p w)" and r: "ready k w"
  shows "outcome k f w (concat (map (\<lambda>p. matched env request p @ (if final then [] else below p)) (children env g request level final cur)))
    (expandPath env g request k (plain_visit f) level final proceed w cur)"
proof (cases rule: neighborsForBudget_cases [of env g "pp_entityID cur" "requestForPathLevel request level" "pw_budget w"])
  case (1 b' e)
  then show ?thesis by (simp add: expandPath_def)
next
  case (2 b')
  let ?nbs = "levelNeighbors env g (requestForPathLevel request level) (pp_entityID cur)"
  let ?F = "\<lambda>nb. matched env request (child cur nb) @ (if final then [] else below (child cur nb))"
  have "outcome k f (w\<lparr>pw_budget := b'\<rparr>) (concat (map (\<lambda>nb. if goes_on env request final cur nb then ?F nb else []) ?nbs))
      (visit_while (processNeighbor env request k (plain_visit f) final proceed cur) ?nbs (w\<lparr>pw_budget := b'\<rparr>))"
    by (rule visit_while_outcome) (rule processNeighbor_outcome [OF assms(1)], assumption+, simp add: r)
  then show ?thesis using 2 by (simp add: expandPath_def concat_map_if children_def comp_def)
qed

lemma walkWith_outcome:
  assumes "\<And>p w. ready k w \<Longrightarrow> \<not> final \<Longrightarrow> outcome k f w (below p) (proceed p w)" and r: "ready k w"
  shows "outcome k f w (concat (map (\<lambda>p. matched env request p @ (if final then [] else below p)) (children env g request level final cur)))
    (walkWith env g request k (plain_visit f) level final proceed cur w)"
proof -
  obtain b' e where c: "budget_check (pw_budget w) = (b', e)" by (rule prod.exhaust)
  show ?thesis
  proof (cases e)
    case None
    with c r expandPath_outcome [OF assms(1), where w = "w\<lparr>pw_budget := b'\<rparr>"] show ?thesis unfolding walkWith_def by simp
  qed (use c in \<open>simp add: walkWith_def check_exhausted\<close>)
qed

lemma walkPaths_outcome:
  "ready k w \<Longrightarrow> outcome k f w (depth_first env g request level n cur) (walkPaths env g request k (plain_visit f) level n cur w)"
proof (induction n arbitrary: level cur w)
  case 0
  have "outcome k f w (concat (map (\<lambda>p. matched env request p @ (if True then [] else [])) (children env g request level True cur)))
      (walkWith env g request k (plain_visit f) level True (\<lambda>path w'. (w', Inr True)) cur w)"
    by (rule walkWith_outcome [OF _ 0]) simp
  then show ?case by simp
next
  case (Suc n)
  have "outcome k f w (concat (map (\<lambda>p. matched env request p @ (if False then [] else depth_first env g request (Suc level) n p)) (children env g request level False cur)))
      (walkWith env g request k (plain_visit f) level False (walkPaths env g request k (plain_visit f) (Suc level) n) cur w)"
    by (rule walkWith_outcome [OF Suc.IH Suc.prems])
  then show ?case by simp
qed

lemma visit_while_appends:
  assumes "\<And>x w w'. F w x = (w', Inr True) \<Longrightarrow> pw_next w' = pw_next w @ N x" and "visit_while F xs w = (w', Inr True)"
  shows "pw_next w' = pw_next w @ concat (map N xs)"
  using assms(2)
proof (induction xs arbitrary: w)
  case (Cons x xs)
  then obtain w1 where "F w x = (w1, Inr True)" "visit_while F xs w1 = (w', Inr True)"
    by (auto split: prod.splits sum.splits bool.splits)
  with Cons.IH assms(1) show ?case by simp
qed simp

lemma offerPath_next: "offerPath env filter' k visit p w = (w', r) \<Longrightarrow> pw_next w' = pw_next w"
  by (auto simp: offerPath_def Let_def split: if_splits prod.splits option.splits)

lemma expandPath_next:
  assumes "expandPath env g request k visit level final appendNext w cur = (w', Inr True)"
  shows "pw_next w' = pw_next w @ (if final then [] else children env g request level final cur)"
proof (cases rule: neighborsForBudget_cases [of env g "pp_entityID cur" "requestForPathLevel request level" "pw_budget w"])
  case (1 b' e)
  with assms show ?thesis by (simp add: expandPath_def)
next
  case (2 b')
  let ?nbs = "levelNeighbors env g (requestForPathLevel request level) (pp_entityID cur)"
  have v: "visit_while (processNeighbor env request k visit final appendNext cur) ?nbs (w\<lparr>pw_budget := b'\<rparr>) = (w', Inr True)"
    using assms 2 by (simp add: expandPath_def)
  have "pw_next w' = pw_next (w\<lparr>pw_budget := b'\<rparr>) @ concat (map (\<lambda>nb. if goes_on env request final cur nb then (if final then [] else [child cur nb]) else []) ?nbs)"
    by (rule visit_while_appends [OF _ v])
       (auto simp: processNeighbor_def goes_on_def child_def appendNext_def Let_def split: if_splits prod.splits sum.splits bool.splits dest!: offerPath_next)
  moreover have "concat (map (\<lambda>nb. [child cur nb]) xs) = map (child cur) xs" for xs by (induction xs) simp_all
  moreover have "concat (map (\<lambda>nb. []) xs) = []" for xs by simp
  ultimately show ?thesis by (cases final) (simp_all add: concat_map_if children_def)
qed

lemma breadth_first_Nil [simp]: "breadth_first env g request level n [] = []"
  by (induction n arbitrary: level) simp_all

lemma level_outcome:
  assumes r: "ready k w"
  shows "outcome k f w (concat (map (matched env request) (concat (map (children env g request level final) queue))))
    (visit_while (expandPath env g request k (plain_visit f) level final appendNext) queue (w\<lparr>pw_budget := b, pw_next := []\<rparr>))"
proof -
  have e: "outcome k f w (concat (map (matched env request) (children env g request level final cur)))
      (expandPath env g request k (plain_visit f) level final appendNext w cur)" if "ready k w" for w cur
    using expandPath_outcome [where below = "\<lambda>_. []" and proceed = appendNext and k = k and f = f and final = final and w = w] that
    by (simp add: appendNext_def offered_def)
  have "concat (map M (concat (map C xs))) = concat (map (\<lambda>x. concat (map M (C x))) xs)" for M :: "pendingPath \<Rightarrow> Path list" and C :: "pendingPath \<Rightarrow> pendingPath list" and xs
    by (induction xs) simp_all
  then show ?thesis
    using visit_while_outcome [OF e, where xs = queue and w = "w\<lparr>pw_budget := b, pw_next := []\<rparr>"] r by simp
qed

lemma level_next:
  assumes "visit_while (expandPath env g request k visit level final appendNext) queue (w\<lparr>pw_budget := b, pw_next := []\<rparr>) = (w', Inr True)"
  shows "pw_next w' = (if final then [] else concat (map (children env g request level final) queue))"
  using visit_while_appends [OF expandPath_next assms] by (cases final) simp_all

lemma pathLevels_outcome:
  assumes "ready k w" and "pathLevels env g request k (plain_visit f) level (Suc n) queue w = (w', res)"
  shows "outcome k f w (breadth_first env g request level n queue) (w', case res of None \<Rightarrow> Inr (ready k w') | Some e \<Rightarrow> Inl e)"
  using assms
proof (induction n arbitrary: level queue w)
  case (0 level queue w)
  obtain b e where c: "budget_check (pw_budget w) = (b, e)" by (rule prod.exhaust)
  show ?case
    using level_outcome [OF 0(1), of f env request g level True queue b] 0(2) c
    by (cases e) (auto simp: check_exhausted offered_def simp del: concat.simps map_concat split: if_splits prod.splits sum.splits bool.splits)
next
  case (Suc n level queue w)
  obtain b e where c: "budget_check (pw_budget w) = (b, e)" by (rule prod.exhaust)
  obtain w1 r where v: "visit_while (expandPath env g request k (plain_visit f) level False appendNext) queue (w\<lparr>pw_budget := b, pw_next := []\<rparr>) = (w1, r)"
    by (rule prod.exhaust)
  let ?queue = "concat (map (children env g request level False) queue)"
  have o: "outcome k f w (concat (map (matched env request) ?queue)) (w1, r)"
    using level_outcome [OF Suc.prems(1), of f env request g level False queue b] v by simp
  show ?case
  proof (cases "queue = [] \<or> e \<noteq> None \<or> r \<noteq> Inr True")
    case True
    then consider "queue = []" | "queue \<noteq> []" "e \<noteq> None" | "queue \<noteq> []" "e = None" "r \<noteq> Inr True" by blast
    then show ?thesis
    proof cases
      case 3
      then show ?thesis using Suc.prems c v o outcome_append_stop [OF _ Suc.prems(1)] by (cases r) (auto simp: Let_def)
    qed (use Suc.prems c in \<open>auto simp: offered_def check_exhausted\<close>)
  next
    case False
    then have r: "r = Inr True" by blast
    then have n: "pw_next w1 = ?queue" using level_next [OF v [unfolded r]] by simp
    from o r have "ready k w1" by simp
    moreover have "pathLevels env g request k (plain_visit f) (Suc level) (Suc n) ?queue w1 = (w', res)"
      using Suc.prems(2) c v False n r
      by (simp only: pathLevels.simps(2) [of env g request k "plain_visit f" level "Suc n" queue w]) (simp del: pathLevels.simps)
    ultimately have "outcome k f w1 (breadth_first env g request (Suc level) n ?queue) (w', case res of None \<Rightarrow> Inr (ready k w') | Some e \<Rightarrow> Inl e)"
      by (rule Suc.IH)
    with outcome_append [OF o [unfolded r]] show ?thesis unfolding breadth_first.simps Let_def by blast
  qed
qed

section \<open>What is visited\<close>

definition limited :: "int \<Rightarrow> 'a list \<Rightarrow> 'a list" where
  "limited k xs = (if k \<le> 0 then xs else take (nat k) xs)"

definition traversal_paths :: "query_env \<Rightarrow> Graph \<Rightarrow> Entity \<Rightarrow> Request \<Rightarrow> Path set" where
  "traversal_paths env g start request = {p \<in> matching_paths env g start request. pa_Edges p \<noteq> []}"

definition in_depth_order :: "query_env \<Rightarrow> Graph \<Rightarrow> Entity \<Rightarrow> Request \<Rightarrow> Path list" where
  "in_depth_order env g start request =
     (if pathPrefixMatches env (pp_path (root_path start)) (rq_Path request) False
      then depth_first env g request 0 (nat (normalizedDepth (rq_Depth request)) - 1) (root_path start) else [])"

definition in_breadth_order :: "query_env \<Rightarrow> Graph \<Rightarrow> Entity \<Rightarrow> Request \<Rightarrow> Path list" where
  "in_breadth_order env g start request =
     (if pathPrefixMatches env (pp_path (root_path start)) (rq_Path request) False
      then breadth_first env g request 0 (nat (normalizedDepth (rq_Depth request)) - 1) [root_path start] else [])"

lemma depth_bounds: "1 \<le> normalizedDepth d" "normalizedDepth d \<le> 16"
  by (auto simp: normalizedDepth_def)

lemma depth_Suc: "nat (normalizedDepth d) = Suc (nat (normalizedDepth d) - 1)"
  using depth_bounds(1) [of d] by simp

lemma orders_agree: "mset (in_depth_order env g start request) = mset (in_breadth_order env g start request)"
  using same_paths [of env g request 0 _ "[root_path start]"] by (simp add: in_depth_order_def in_breadth_order_def)

lemma matching_path_prefixes:
  assumes "query_path env g request start n p" and "pathPrefixMatches env p (rq_Path request) final"
  shows "n = 0 \<or> pathPrefixMatches env (pp_path (root_path start)) (rq_Path request) False"
  using assms
proof (induction arbitrary: final rule: query_path.induct)
  case (extend_path n p neighbor)
  have "pathPrefixMatches env p (rq_Path request) False"
    using pathPrefixMatches_shorter [OF extend_path.prems] query_path_length [OF extend_path.hyps(1)] by simp
  moreover from this extend_path.IH have "n = 0 \<or> pathPrefixMatches env (pp_path (root_path start)) (rq_Path request) False" by blast
  ultimately show ?case using extend_path.hyps(1) by (auto elim: query_path_0E)
qed simp

lemma traversal_paths_iff:
  "p \<in> traversal_paths env g start request \<longleftrightarrow>
     (\<exists>n. 0 < n \<and> n \<le> nat (normalizedDepth (rq_Depth request)) \<and> query_path env g request start n p \<and> pathMatches env p (rq_Path request))"
proof -
  have "pa_Edges p \<noteq> [] \<longleftrightarrow> 0 < n" if "query_path env g request start n p" for n
    using query_path_length [OF that] by auto
  then show ?thesis
    using depth_bounds(1) [of "rq_Depth request"] by (auto simp: traversal_paths_def matching_paths_def nat_le_iff le_nat_iff)
qed

lemma set_in_breadth_order: "set (in_breadth_order env g start request) = traversal_paths env g start request"
proof (cases "pathPrefixMatches env (pp_path (root_path start)) (rq_Path request) False")
  case True
  then have "level_queue env g request start 0 [root_path start]"
    by (auto simp: level_queue_def intro: query_path.root elim: query_path_0E) (simp add: root_path_def)
  from set_breadth_first [OF this, of "nat (normalizedDepth (rq_Depth request)) - 1"] depth_Suc [of "rq_Depth request"] True
  show ?thesis by (auto simp: in_breadth_order_def traversal_paths_iff)
next
  case False
  then show ?thesis
    by (auto simp: in_breadth_order_def traversal_paths_iff dest!: matching_path_prefixes pathMatches_prefix)
qed

lemma new_walk_simps [simp]: "pw_matched (new_walk b s) = 0" "pw_state (new_walk b s) = s" "ready k (new_walk b s)"
  by (auto simp: new_walk_def ready_def)

lemma visitPaths_visits:
  "case visitPaths env g start request k (plain_visit f) b s of
     (w, None) \<Rightarrow> pw_state w = foldl f s (limited k (in_breadth_order env g start request))
   | (w, Some e) \<Rightarrow> exhausted (pw_budget w)"
proof (cases "pathPrefixMatches env (pp_path (root_path start)) (rq_Path request) False")
  case True
  let ?d = "nat (normalizedDepth (rq_Depth request))"
  obtain w res where r: "pathLevels env g request k (plain_visit f) 0 ?d [root_path start] (new_walk b s) = (w, res)" by (rule prod.exhaust)
  then have "pathLevels env g request k (plain_visit f) 0 (Suc (?d - 1)) [root_path start] (new_walk b s) = (w, res)"
    by (subst depth_Suc [symmetric])
  from pathLevels_outcome [OF new_walk_simps(3) this] True r show ?thesis
    by (cases res) (simp_all add: visitPaths_def in_breadth_order_def offered_def limited_def)
qed (simp add: visitPaths_def in_breadth_order_def limited_def)

lemma visitPathsInIdentityOrder_visits:
  "case visitPathsInIdentityOrder env g start request k (plain_visit f) b s of
     (w, None) \<Rightarrow> pw_state w = foldl f s (limited k (in_depth_order env g start request))
   | (w, Some e) \<Rightarrow> exhausted (pw_budget w)"
proof (cases "pathPrefixMatches env (pp_path (root_path start)) (rq_Path request) False")
  case True
  let ?n = "nat (normalizedDepth (rq_Depth request)) - 1"
  obtain w res where r: "walkPaths env g request k (plain_visit f) 0 ?n (root_path start) (new_walk b s) = (w, res)" by (rule prod.exhaust)
  from walkPaths_outcome [OF new_walk_simps(3) [of k b s], of f env g request 0 ?n "root_path start"] r True show ?thesis
    by (cases res) (simp_all add: visitPathsInIdentityOrder_def in_depth_order_def offered_def limited_def)
qed (simp add: visitPathsInIdentityOrder_def in_depth_order_def limited_def)

section \<open>Each path once\<close>

text \<open>In a graph with exact indexes the neighbours of an entity are stored entities at stored edges.\<close>

lemma levelNeighbors_refs:
  assumes "graph_ok g"
  obtains refs where "levelNeighbors env g request id' = map (neighborAt g) refs" "distinct refs"
    "\<And>r. r \<in> set refs \<Longrightarrow> \<exists>e n. mget (g_Edges g) (nr_edgeID r) = Some e \<and> edge_ID e = nr_edgeID r \<and> mget (g_Entities g) (nr_entityID r) = Some n \<and>
       ent_ID n = nr_entityID r \<and> (nr_direction r = ''out'' \<and> edge_From e = id' \<and> edge_To e = nr_entityID r \<or> nr_direction r = ''in'' \<and> edge_To e = id' \<and> edge_From e = nr_entityID r)"
proof -
  let ?impact = "rq_DirectionStrategy request = ''impact''"
  let ?dir = "if ?impact then ''both'' else rq_Direction request"
  let ?d = "if ?dir = [] then ''both'' else ?dir"
  define free where "free \<longleftrightarrow> rq_EdgeWhere request = [] \<and> rq_EdgeWhereExpr request = None"
  let ?refs = "filter (\<lambda>r. ref_allowed g (relationTypeSet request) (pf_NodeKinds (rq_Path request)) ?impact r \<and>
      (free \<or> requestEdgeMatches env request (nb_Edge (neighborAt g r)))) (neighbor_refs g id' ?d)"
  have "levelNeighbors env g request id' = map (neighborAt g) ?refs"
    unfolding levelNeighbors_def FilteredNeighbors_spec(1) [OF assms] filterRequestEdges_def Let_def free_def [symmetric]
    by (cases free) (simp_all add: filter_map comp_def)
  moreover have o: "is_ref_order (neighbor_refs g id' ?d) (neighborRefs (g_Edges g) id' ?d)" by (rule neighbor_refs_order [OF assms])
  then have "distinct ?refs" by (simp add: is_ref_order_def)
  moreover have "\<exists>e n. mget (g_Edges g) (nr_edgeID r) = Some e \<and> edge_ID e = nr_edgeID r \<and> mget (g_Entities g) (nr_entityID r) = Some n \<and>
       ent_ID n = nr_entityID r \<and> (nr_direction r = ''out'' \<and> edge_From e = id' \<and> edge_To e = nr_entityID r \<or> nr_direction r = ''in'' \<and> edge_To e = id' \<and> edge_From e = nr_entityID r)"
    if "r \<in> set ?refs" for r
    using that o assms by (auto simp: is_ref_order_def neighborRefs_def is_ref_def ref_allowed_def graph_ok_def keyed_def)
  ultimately show thesis by (rule that)
qed

lemma extendPath_inj: "extendPath p n = extendPath p' n' \<longleftrightarrow> p = p' \<and> nb_Entity n = nb_Entity n' \<and> nb_Edge n = nb_Edge n'"
  by (cases p; cases p') (auto simp: extendPath_def)

lemma children_distinct:
  assumes g: "graph_ok g" and cur: "pp_entityID cur = ent_ID (pathEnd (pp_path cur))" "pa_Entities (pp_path cur) \<noteq> []"
  shows "distinct (map pp_path (children env g request level final cur))"
proof -
  let ?id = "pp_entityID cur"
  obtain refs where refs: "levelNeighbors env g (requestForPathLevel request level) ?id = map (neighborAt g) refs" "distinct refs"
    and stored: "\<And>r. r \<in> set refs \<Longrightarrow> \<exists>e n. mget (g_Edges g) (nr_edgeID r) = Some e \<and> edge_ID e = nr_edgeID r \<and> mget (g_Entities g) (nr_entityID r) = Some n \<and>
       ent_ID n = nr_entityID r \<and> (nr_direction r = ''out'' \<and> edge_From e = ?id \<and> edge_To e = nr_entityID r \<or> nr_direction r = ''in'' \<and> edge_To e = ?id \<and> edge_From e = nr_entityID r)"
    by (rule levelNeighbors_refs [OF g]) blast
  have own: "pathContainsEntity (pp_path cur) ?id" using cur by (auto simp: pathContainsEntity_def list_ex_iff pathEnd_def)
  have "inj_on (extendPath (pp_path cur) \<circ> neighborAt g) {r \<in> set refs. goes_on env request final cur (neighborAt g r)}"
  proof (rule inj_onI)
    fix r r' assume r: "r \<in> {r \<in> set refs. goes_on env request final cur (neighborAt g r)}" and r': "r' \<in> {r \<in> set refs. goes_on env request final cur (neighborAt g r)}"
      and eq: "(extendPath (pp_path cur) \<circ> neighborAt g) r = (extendPath (pp_path cur) \<circ> neighborAt g) r'"
    from r obtain e n where e: "mget (g_Edges g) (nr_edgeID r) = Some e" "edge_ID e = nr_edgeID r" "mget (g_Entities g) (nr_entityID r) = Some n" "ent_ID n = nr_entityID r"
      and d: "nr_direction r = ''out'' \<and> edge_From e = ?id \<and> edge_To e = nr_entityID r \<or> nr_direction r = ''in'' \<and> edge_To e = ?id \<and> edge_From e = nr_entityID r"
      using stored by blast
    from r' obtain e' n' where e': "mget (g_Edges g) (nr_edgeID r') = Some e'" "edge_ID e' = nr_edgeID r'" "mget (g_Entities g) (nr_entityID r') = Some n'" "ent_ID n' = nr_entityID r'"
      and d': "nr_direction r' = ''out'' \<and> edge_From e' = ?id \<and> edge_To e' = nr_entityID r' \<or> nr_direction r' = ''in'' \<and> edge_To e' = ?id \<and> edge_From e' = nr_entityID r'"
      using stored by blast
    from eq e e' have same: "nr_edgeID r = nr_edgeID r'" "nr_entityID r = nr_entityID r'" "e = e'" by (auto simp: extendPath_inj neighborAt_def mget_or_def)
    have "nr_entityID r \<noteq> ?id" using r own e by (auto simp: goes_on_def neighborAt_def mget_or_def)
    with d d' same have "nr_direction r = nr_direction r'" by auto
    with same show "r = r'" by (cases r; cases r') simp
  qed
  moreover have "map pp_path (children env g request level final cur) =
      map (extendPath (pp_path cur) \<circ> neighborAt g) (filter (\<lambda>r. goes_on env request final cur (neighborAt g r)) refs)"
    by (simp add: children_def refs filter_map comp_def)
  ultimately show ?thesis using refs(2) by (simp add: distinct_map)
qed

lemma queue_distinct:
  assumes g: "graph_ok g" and "distinct (map pp_path queue)"
    and "\<And>p. p \<in> set queue \<Longrightarrow> pp_entityID p = ent_ID (pathEnd (pp_path p)) \<and> pa_Entities (pp_path p) \<noteq> []"
  shows "distinct (map pp_path (concat (map (children env g request level final) queue)))"
  using assms(2,3)
proof (induction queue)
  case (Cons cur queue)
  have "pp_path c \<noteq> pp_path c'" if "c \<in> set (children env g request level final cur)" "c' \<in> set (children env g request level final cur')" "cur' \<in> set queue" for c c' cur'
    using that Cons.prems(1) by (auto simp: children_def extendPath_inj)
  then have "set (map pp_path (children env g request level final cur)) \<inter> set (map pp_path (concat (map (children env g request level final) queue))) = {}"
    by fastforce
  with Cons children_distinct [OF g, of cur] show ?case by (simp del: set_map)
qed simp

lemma matched_distinct: "distinct (map pp_path queue) \<Longrightarrow> distinct (concat (map (matched env request) queue))"
proof -
  have "concat (map (matched env request) queue) = filter (\<lambda>p. pathMatches env p (rq_Path request)) (map pp_path queue)"
    by (induction queue) (simp_all add: matched_def)
  then show "distinct (map pp_path queue) \<Longrightarrow> ?thesis" by simp
qed

lemma breadth_first_distinct:
  assumes g: "graph_ok g" and "level_queue env g request start level queue" and "distinct (map pp_path queue)"
  shows "distinct (breadth_first env g request level n queue)"
  using assms(2,3)
proof (induction n arbitrary: level queue)
  case (0 level queue)
  then have "pp_entityID p = ent_ID (pathEnd (pp_path p)) \<and> pa_Entities (pp_path p) \<noteq> []" if "p \<in> set queue" for p
    using that query_path_length unfolding level_queue_def by fastforce
  from matched_distinct [OF queue_distinct [OF g 0(2) this]] show ?case by simp
next
  case (Suc n level queue)
  let ?queue = "concat (map (children env g request level False) queue)"
  have "pp_entityID p = ent_ID (pathEnd (pp_path p)) \<and> pa_Entities (pp_path p) \<noteq> []" if "p \<in> set queue" for p
    using that Suc.prems(1) query_path_length unfolding level_queue_def by fastforce
  from queue_distinct [OF g Suc.prems(2) this] have d: "distinct (map pp_path ?queue)" .
  have q: "level_queue env g request start (Suc level) ?queue" by (rule level_queue_Suc [OF Suc.prems(1)])
  have "length (pa_Edges p) = Suc level" if "p \<in> set (concat (map (matched env request) ?queue))" for p
    using that q query_path_length unfolding set_matched level_queue_def by blast
  moreover have "Suc level < length (pa_Edges p)" if "p \<in> set (breadth_first env g request (Suc level) n ?queue)" for p
    using that query_path_length unfolding set_breadth_first [OF q] by fastforce
  ultimately have "set (concat (map (matched env request) ?queue)) \<inter> set (breadth_first env g request (Suc level) n ?queue) = {}"
    by fastforce
  with matched_distinct [OF d] Suc.IH [OF q d] show ?case unfolding breadth_first.simps Let_def distinct_append by blast
qed

lemma orders_distinct:
  assumes "graph_ok g"
  shows "distinct (in_breadth_order env g start request)" "distinct (in_depth_order env g start request)"
proof -
  show "distinct (in_breadth_order env g start request)"
  proof (cases "pathPrefixMatches env (pp_path (root_path start)) (rq_Path request) False")
    case True
    then have "level_queue env g request start 0 [root_path start]"
      by (auto simp: level_queue_def intro: query_path.root elim: query_path_0E) (simp add: root_path_def)
    from breadth_first_distinct [OF assms this] True show ?thesis by (simp add: in_breadth_order_def)
  qed (simp add: in_breadth_order_def)
  with orders_agree [of env g start request] show "distinct (in_depth_order env g start request)"
    by (metis mset_eq_imp_distinct_iff)
qed

end
