(* ===== verification/ShortestPath.thy ===== *)
theory ShortestPath
  imports PathTraversal
begin

text \<open>
  The shortest path query (\<open>shortest.go\<close>): a breadth-first search over states, one per discovered path, with a chain of
  predecessors. Without path steps a state is dropped when its entity has been seen; with steps, when another state of
  the same entity and depth has visited no more entities, and it replaces those that have visited more.
\<close>

section \<open>States\<close>

record shortestState =
  ss_id :: string
  ss_depth :: nat
  ss_serial :: nat

record shortestPredecessor =
  sp_state :: shortestState
  sp_edge :: Edge

record shortestLevel =
  sl_id :: string
  sl_depth :: nat

type_synonym predecessors = "(shortestState, shortestPredecessor) fmap"

text \<open>
  The states from one back to the start, which has no predecessor. A state of depth \<open>n\<close> has \<open>n\<close> states before it, so
  its depth is enough fuel; \<open>chain_unfold\<close> in \<open>ShortestProof\<close> says that the chain is never cut.
\<close>

fun chain :: "predecessors \<Rightarrow> nat \<Rightarrow> shortestState \<Rightarrow> shortestState list" where
  "chain previous 0 state = [state]"
| "chain previous (Suc n) state =
     state # (case mget previous state of None \<Rightarrow> [] | Some item \<Rightarrow> chain previous n (sp_state item))"

abbreviation chain_of :: "predecessors \<Rightarrow> shortestState \<Rightarrow> shortestState list" where
  "chain_of previous state \<equiv> chain previous (ss_depth state) state"

definition shortestPathContains :: "shortestState \<Rightarrow> string \<Rightarrow> predecessors \<Rightarrow> bool" where
  "shortestPathContains state id' previous \<longleftrightarrow> list_ex (\<lambda>s. ss_id s = id') (chain_of previous state)"

definition shortestCandidateContains :: "shortestState \<Rightarrow> string \<Rightarrow> string \<Rightarrow> predecessors \<Rightarrow> bool" where
  "shortestCandidateContains pred candidateID id' previous \<longleftrightarrow> candidateID = id' \<or> shortestPathContains pred id' previous"

definition shortestStateSubsetOfCandidate :: "shortestState \<Rightarrow> shortestState \<Rightarrow> string \<Rightarrow> predecessors \<Rightarrow> bool" where
  "shortestStateSubsetOfCandidate state pred candidateID previous \<longleftrightarrow>
     list_all (\<lambda>s. shortestCandidateContains pred candidateID (ss_id s) previous) (chain_of previous state)"

definition shortestCandidateSubsetOfState :: "shortestState \<Rightarrow> string \<Rightarrow> shortestState \<Rightarrow> predecessors \<Rightarrow> bool" where
  "shortestCandidateSubsetOfState pred candidateID state previous \<longleftrightarrow>
     (if \<not> shortestPathContains state candidateID previous then False
      else list_all (\<lambda>p. shortestPathContains state (ss_id p) previous) (chain_of previous pred))"

definition shortestStepAllows :: "query_env \<Rightarrow> nat \<Rightarrow> Neighbor \<Rightarrow> PathFilter \<Rightarrow> bool" where
  "shortestStepAllows env stepIndex neighbor filter' \<longleftrightarrow>
     (if \<not> pathAllowsKind (ent_Kind (nb_Entity neighbor)) filter' then False
      else if pf_Steps filter' = [] then True
      else if length (pf_Steps filter') \<le> stepIndex then False
      else
        let step = pf_Steps filter' ! stepIndex in
        stringSliceAllows (edge_Type (nb_Edge neighbor)) (ps_RelationTypes step) \<and>
        edgeMatches env (nb_Edge neighbor) (ps_EdgeWhere step) \<and> edgeExprMatches env (nb_Edge neighbor) (ps_EdgeWhereExpr step) \<and>
        stringSliceAllows (ent_Kind (nb_Entity neighbor)) (ps_NodeKinds step) \<and>
        entityMatches env (nb_Entity neighbor) (ps_Where step) \<and> entityExprMatches env (nb_Entity neighbor) (ps_WhereExpr step))"

definition shortestTargetAllows :: "query_env \<Rightarrow> Entity \<Rightarrow> nat \<Rightarrow> PathFilter \<Rightarrow> bool" where
  "shortestTargetAllows env target depth filter' \<longleftrightarrow>
     (if pf_Steps filter' \<noteq> [] \<and> depth \<noteq> length (pf_Steps filter') then False
      else if pf_EndKind filter' \<noteq> [] \<and> ent_Kind target \<noteq> pf_EndKind filter' then False
      else entityMatches env target (pf_EndWhere filter') \<and> entityExprMatches env target (pf_EndWhereExpr filter'))"

section \<open>Search\<close>

text \<open>The variables of \<open>shortestPath\<close>; the queue holds the states from \<open>head\<close> on, those before it are not read again.\<close>

record shortest_search =
  sh_budget :: budget
  sh_queue :: "shortestState list"
  sh_seen :: "string set"
  sh_frontiers :: "(shortestLevel, shortestState list) fmap"
  sh_active :: "nat set"
  sh_nextSerial :: nat
  sh_previous :: predecessors
  sh_entities :: "(shortestState, Entity) fmap"
  sh_result :: "Path option"

definition zero_shortestPredecessor :: shortestPredecessor where
  "zero_shortestPredecessor = \<lparr>sp_state = \<lparr>ss_id = [], ss_depth = 0, ss_serial = 0\<rparr>, sp_edge = zero_Edge\<rparr>"

text \<open>The loop of \<open>rebuildShortestPath\<close>, from the target back to the start; the depth of the target is its fuel.\<close>

fun rebuild_loop ::
  "shortestState \<Rightarrow> predecessors \<Rightarrow> (shortestState, Entity) fmap \<Rightarrow> nat \<Rightarrow> shortestState \<Rightarrow> Entity list \<times> Edge list" where
  "rebuild_loop start previous entities 0 cur = ([mget_or zero_Entity entities cur], [])"
| "rebuild_loop start previous entities (Suc n) cur =
     (if cur = start then ([mget_or zero_Entity entities cur], [])
      else
        let item = mget_or zero_shortestPredecessor previous cur; (es, ds) = rebuild_loop start previous entities n (sp_state item)
        in (mget_or zero_Entity entities cur # es, sp_edge item # ds))"

definition rebuildShortestPath :: "shortestState \<Rightarrow> shortestState \<Rightarrow> predecessors \<Rightarrow> (shortestState, Entity) fmap \<Rightarrow> Path" where
  "rebuildShortestPath start target previous entities =
     (let (es, ds) = rebuild_loop start previous entities (ss_depth target) target in \<lparr>pa_Entities = rev es, pa_Edges = rev ds\<rparr>)"

definition retainSteppedShortestState :: "shortestState \<Rightarrow> shortestState \<Rightarrow> shortest_search \<Rightarrow> shortest_search \<times> bool" where
  "retainSteppedShortestState candidate pred s =
     (let level = \<lparr>sl_id = ss_id candidate, sl_depth = ss_depth candidate\<rparr>;
          existing = mget_or [] (sh_frontiers s) level;
          live = filter (\<lambda>state. ss_serial state \<in> sh_active s) existing;
          dominated = (\<lambda>state. shortestCandidateSubsetOfState pred (ss_id candidate) state (sh_previous s)) in
      if list_ex (\<lambda>state. shortestStateSubsetOfCandidate state pred (ss_id candidate) (sh_previous s)) live then (s, False)
      else
        (s\<lparr>sh_frontiers := fmupd level (filter (\<lambda>state. \<not> dominated state) live @ [candidate]) (sh_frontiers s),
           sh_active := insert (ss_serial candidate) (sh_active s - ss_serial ` set (filter dominated live))\<rparr>, True))"

definition forget_state :: "shortestState \<Rightarrow> shortest_search \<Rightarrow> shortest_search" where
  "forget_state state s = s\<lparr>sh_previous := fmdrop state (sh_previous s), sh_entities := fmdrop state (sh_entities s)\<rparr>"

definition enqueue_state :: "shortestState \<Rightarrow> shortest_search \<Rightarrow> shortest_search" where
  "enqueue_state state s = s\<lparr>sh_queue := sh_queue s @ [state]\<rparr>"

text \<open>The closure \<open>processNeighbor\<close>.\<close>

definition shortest_neighbor ::
  "query_env \<Rightarrow> Request \<Rightarrow> shortestState \<Rightarrow> string \<Rightarrow> shortestState \<Rightarrow> shortest_search \<Rightarrow> Neighbor \<Rightarrow> shortest_search \<times> (query_error + bool)" where
  "shortest_neighbor env request startState targetID cur s0 neighbor =
     (let s = s0\<lparr>sh_budget := count_visit (sh_budget s0)\<rparr>; id' = ent_ID (nb_Entity neighbor); filter' = rq_Path request in
      if shortestPathContains cur id' (sh_previous s) \<or> \<not> shortestStepAllows env (ss_depth cur) neighbor filter' then (s, Inr True)
      else
        let next' = \<lparr>ss_id = id', ss_depth = ss_depth cur + 1, ss_serial = sh_nextSerial s\<rparr>;
            s1 = s\<lparr>sh_nextSerial := sh_nextSerial s + 1\<rparr> in
        if id' = targetID \<and> \<not> shortestTargetAllows env (nb_Entity neighbor) (ss_depth next') filter' then (s1, Inr True)
        else
          let s2 = s1\<lparr>sh_previous := fmupd next' \<lparr>sp_state = cur, sp_edge = nb_Edge neighbor\<rparr> (sh_previous s1),
                      sh_entities := fmupd next' (nb_Entity neighbor) (sh_entities s1)\<rparr> in
          if id' = targetID then
            (s2\<lparr>sh_result := Some (rebuildShortestPath startState next' (sh_previous s2) (sh_entities s2))\<rparr>, Inr False)
          else if pf_Steps filter' \<noteq> [] then
            (case retainSteppedShortestState next' cur s2 of
               (s3, False) \<Rightarrow> (forget_state next' s3, Inr True)
             | (s3, True) \<Rightarrow> (enqueue_state next' s3, Inr True))
          else if id' \<in> sh_seen s2 then (forget_state next' s2, Inr True)
          else (enqueue_state next' (s2\<lparr>sh_seen := insert id' (sh_seen s2)\<rparr>), Inr True))"

text \<open>Every neighbour adds at most one state, one level deeper; so the loop over the queue ends.\<close>

definition adds_deeper :: "shortestState \<Rightarrow> shortest_search \<Rightarrow> shortest_search \<Rightarrow> bool" where
  "adds_deeper cur s s' \<longleftrightarrow> (\<exists>new. sh_queue s' = sh_queue s @ new \<and> (\<forall>state\<in>set new. ss_depth state = ss_depth cur + 1))"

lemma adds_deeper_refl: "sh_queue s' = sh_queue s \<Longrightarrow> adds_deeper cur s s'"
  by (simp add: adds_deeper_def)

lemma adds_deeper_trans: "adds_deeper cur s s' \<Longrightarrow> adds_deeper cur s' s'' \<Longrightarrow> adds_deeper cur s s''"
  by (auto simp: adds_deeper_def)

lemma retain_queue: "retainSteppedShortestState candidate pred s = (s', kept) \<Longrightarrow> sh_queue s' = sh_queue s"
  by (auto simp: retainSteppedShortestState_def Let_def split: if_splits)

lemma shortest_neighbor_deeper: "shortest_neighbor env request startState targetID cur s neighbor = (s', r) \<Longrightarrow> adds_deeper cur s s'"
  by (auto simp: shortest_neighbor_def adds_deeper_def Let_def forget_state_def enqueue_state_def
      split: if_splits prod.splits bool.splits dest!: retain_queue)

lemma visit_while_deeper:
  "visit_while (shortest_neighbor env request startState targetID cur) neighbors s = (s', r) \<Longrightarrow> adds_deeper cur s s'"
proof (induction neighbors arbitrary: s)
  case (Cons neighbor neighbors)
  then show ?case
    by (auto split: prod.splits sum.splits bool.splits dest: shortest_neighbor_deeper intro: adds_deeper_trans)
qed (simp add: adds_deeper_def)

function shortest_loop ::
  "query_env \<Rightarrow> Graph \<Rightarrow> Request \<Rightarrow> shortestState \<Rightarrow> string \<Rightarrow> shortest_search \<Rightarrow> shortest_search \<times> (query_error + Path option)" where
  "shortest_loop env g request startState targetID s =
     (case sh_queue s of
        [] \<Rightarrow> (s, Inr None)
      | cur # rest \<Rightarrow>
          (case budget_check (sh_budget s) of
             (b, Some e) \<Rightarrow> (s\<lparr>sh_budget := b\<rparr>, Inl e)
           | (b, None) \<Rightarrow>
               let s1 = s\<lparr>sh_budget := b, sh_queue := rest\<rparr> in
               if pf_Steps (rq_Path request) \<noteq> [] \<and> ss_serial cur \<notin> sh_active s1 then shortest_loop env g request startState targetID s1
               else if normalizedDepth (rq_Depth request) \<le> int (ss_depth cur) then shortest_loop env g request startState targetID s1
               else
                 case neighborsForBudget env g (ss_id cur) (requestForPathLevel request (ss_depth cur)) (sh_budget s1) of
                   (b', Inl e) \<Rightarrow> (s1\<lparr>sh_budget := b'\<rparr>, Inl e)
                 | (b', Inr neighbors) \<Rightarrow>
                     (case visit_while (shortest_neighbor env request startState targetID cur) neighbors (s1\<lparr>sh_budget := b'\<rparr>) of
                        (s2, Inl e) \<Rightarrow> (s2, Inl e)
                      | (s2, Inr _) \<Rightarrow>
                          (case sh_result s2 of
                             Some path \<Rightarrow> (s2, Inr (Some path))
                           | None \<Rightarrow> shortest_loop env g request startState targetID s2))))"
  by pat_completeness auto

definition queue_weight :: "Request \<Rightarrow> shortest_search \<Rightarrow> nat multiset" where
  "queue_weight request s = image_mset (\<lambda>state. nat (normalizedDepth (rq_Depth request)) - ss_depth state) (mset (sh_queue s))"

lemma queue_weight_pop:
  assumes "sh_queue s = cur # rest"
  shows "(queue_weight request (s\<lparr>sh_budget := b, sh_queue := rest\<rparr>), queue_weight request s) \<in> mult less_than"
  using one_step_implies_mult [of "{#nat (normalizedDepth (rq_Depth request)) - ss_depth cur#}" "{#}" less_than
      "queue_weight request (s\<lparr>sh_queue := rest\<rparr>)"] assms
  by (simp add: queue_weight_def)

lemma queue_weight_expand:
  assumes "sh_queue s = cur # rest" "adds_deeper cur (s\<lparr>sh_queue := rest\<rparr>) s'" "int (ss_depth cur) < normalizedDepth (rq_Depth request)"
  shows "(queue_weight request s', queue_weight request s) \<in> mult less_than"
proof -
  obtain new where new: "sh_queue s' = rest @ new" "\<forall>state\<in>set new. ss_depth state = ss_depth cur + 1"
    using assms(2) by (auto simp: adds_deeper_def)
  let ?w = "\<lambda>state. nat (normalizedDepth (rq_Depth request)) - ss_depth state"
  have "(image_mset ?w (mset rest) + image_mset ?w (mset new), image_mset ?w (mset rest) + {#?w cur#}) \<in> mult less_than"
    using new(2) assms(3) by (intro one_step_implies_mult) auto
  with new(1) assms(1) show ?thesis by (simp add: queue_weight_def)
qed

termination shortest_loop
proof (relation "inv_image (mult less_than) (\<lambda>(env, g, request, startState, targetID, s). queue_weight request s)", goal_cases)
  case 1
  show ?case by (simp add: wf_mult)
next
  case (2 env g request startState targetID s cur rest b y s1)
  then show ?case using queue_weight_pop by simp
next
  case (3 env g request startState targetID s cur rest b y s1)
  then show ?case using queue_weight_pop by simp
next
  case (4 env g request startState targetID s cur rest b y s1 b' y' neighbors s2 y'' go)
  have "adds_deeper cur (s1\<lparr>sh_budget := b'\<rparr>) s2" by (rule visit_while_deeper) (rule 4(9) [symmetric])
  then have "adds_deeper cur (s\<lparr>sh_queue := rest\<rparr>) s2" using 4(4) by (simp add: adds_deeper_def)
  with queue_weight_expand [of s cur rest s2 request] 4(1,6) show ?case by simp
qed

declare shortest_loop.simps [simp del]

definition initial_search :: "Entity \<Rightarrow> budget \<Rightarrow> shortest_search" where
  "initial_search start b =
     (let startState = \<lparr>ss_id = ent_ID start, ss_depth = 0, ss_serial = 0\<rparr> in
      \<lparr>sh_budget = b, sh_queue = [startState], sh_seen = {ent_ID start}, sh_frontiers = fmempty, sh_active = {0},
       sh_nextSerial = 1, sh_previous = fmempty, sh_entities = fmupd startState start fmempty, sh_result = None\<rparr>)"

definition shortestPath :: "query_env \<Rightarrow> Graph \<Rightarrow> Entity \<Rightarrow> Entity \<Rightarrow> Request \<Rightarrow> budget \<Rightarrow> budget \<times> (query_error + Path option)" where
  "shortestPath env g start target request b =
     (if \<not> pathAllowsKind (ent_Kind start) (rq_Path request) then (b, Inr None)
      else if ent_ID start = ent_ID target \<and> shortestTargetAllows env start 0 (rq_Path request) then
        (b, Inr (Some \<lparr>pa_Entities = [start], pa_Edges = []\<rparr>))
      else
        case shortest_loop env g request \<lparr>ss_id = ent_ID start, ss_depth = 0, ss_serial = 0\<rparr> (ent_ID target) (initial_search start b) of
          (s, r) \<Rightarrow> (sh_budget s, r))"

end
