(* ===== verification/ShortestProof.thy ===== *)
theory ShortestProof
  imports ShortestPath
begin

text \<open>
  The shortest path query returns a shortest matching path, or none if there is none. The invariant of its loop says
  that every known state stands for a query path, and that every state that has been expanded is closed: each neighbour
  it may go on to has a live state that is at least as good, reached no later and, with path steps, over no further entities.
\<close>

section \<open>Traces\<close>

inductive trace :: "shortestState \<Rightarrow> Entity \<Rightarrow> predecessors \<Rightarrow> (shortestState, Entity) fmap \<Rightarrow> shortestState \<Rightarrow> Path \<Rightarrow> bool"
  for s0 start previous entities where
  first: "mget entities s0 = Some start \<Longrightarrow> trace s0 start previous entities s0 (pp_path (root_path start))"
| further: "s \<noteq> s0 \<Longrightarrow> mget previous s = Some item \<Longrightarrow> mget entities s = Some (nb_Entity neighbor) \<Longrightarrow> sp_edge item = nb_Edge neighbor \<Longrightarrow>
    ent_ID (nb_Entity neighbor) = ss_id s \<Longrightarrow> ss_depth s = Suc (ss_depth (sp_state item)) \<Longrightarrow>
    trace s0 start previous entities (sp_state item) p \<Longrightarrow> trace s0 start previous entities s (extendPath p neighbor)"

definition extends_map :: "('a, 'b) fmap \<Rightarrow> ('a, 'b) fmap \<Rightarrow> bool" where
  "extends_map m m' \<longleftrightarrow> (\<forall>k v. mget m k = Some v \<longrightarrow> mget m' k = Some v)"

lemma extends_map_upd: "mget m k = None \<Longrightarrow> extends_map m (fmupd k v m)"
  by (auto simp: extends_map_def)

lemma trace_mono:
  assumes "trace s0 start previous entities s p" and "extends_map previous previous'" and "extends_map entities entities'"
  shows "trace s0 start previous' entities' s p"
  using assms(1)
proof (induction rule: trace.induct)
  case first
  then show ?case using assms(3) by (intro trace.first) (simp add: extends_map_def)
next
  case (further s item neighbor p)
  then show ?case using assms(2,3) by (intro trace.further [of s s0 _ item]) (simp_all add: extends_map_def)
qed

lemma trace_chain:
  assumes "trace s0 start previous entities s p" and "ss_depth s0 = 0" and "ss_id s0 = ent_ID start"
  shows "map ss_id (chain_of previous s) = rev (map ent_ID (pa_Entities p))"
  using assms(1) by (induction rule: trace.induct) (simp_all add: assms(2,3) root_path_def extendPath_def)

lemma trace_rebuild:
  assumes "trace s0 start previous entities s p" and "ss_depth s0 = 0"
  shows "rebuildShortestPath s0 s previous entities = p"
proof -
  have "rebuild_loop s0 previous entities (ss_depth s) s = (rev (pa_Entities p), rev (pa_Edges p))"
    using assms(1) by (induction rule: trace.induct) (simp_all add: assms(2) root_path_def extendPath_def mget_or_def)
  then show ?thesis by (simp add: rebuildShortestPath_def)
qed

lemma trace_known:
  "trace s0 start previous entities s p \<Longrightarrow> e \<in> set (pa_Entities p) \<Longrightarrow> ss_id s0 = ent_ID start \<Longrightarrow>
   \<exists>s'. s' \<in> fmdom' entities \<and> ss_id s' = ent_ID e \<and> ss_depth s' \<le> ss_depth s"
proof (induction rule: trace.induct)
  case first
  then show ?case by (auto simp: root_path_def fmlookup_dom'_iff)
next
  case (further s item neighbor p)
  then show ?case by (fastforce simp: extendPath_def fmlookup_dom'_iff)
qed

text \<open>The chain of a known state is never cut short: the loops over predecessors end at the start.\<close>

lemma chain_unfold:
  assumes "trace s0 start previous entities s p" and "ss_depth s0 = 0" and "mget previous s0 = None"
  shows "chain_of previous s = s # (case mget previous s of None \<Rightarrow> [] | Some item \<Rightarrow> chain_of previous (sp_state item))"
  using assms(1) by (cases rule: trace.cases) (simp_all add: assms(2,3))

section \<open>Filters, step by step\<close>

definition path_ok :: "query_env \<Rightarrow> Path \<Rightarrow> PathFilter \<Rightarrow> bool" where
  "path_ok env p f \<longleftrightarrow> pathPrefixMatches env p f False \<and> (pf_Steps f \<noteq> [] \<longrightarrow> length (pa_Edges p) \<le> length (pf_Steps f))"

lemma stepLoop_snoc:
  "length entities = length edges \<Longrightarrow> length edges < length steps \<Longrightarrow>
   stepLoop env steps (edges @ [edge]) (entities @ [entity]) final \<longleftrightarrow> stepLoop env steps edges entities final \<and>
     (let step = steps ! length edges in
      stringSliceAllows (edge_Type edge) (ps_RelationTypes step) \<and> edgeMatches env edge (ps_EdgeWhere step) \<and> edgeExprMatches env edge (ps_EdgeWhereExpr step) \<and>
      stringSliceAllows (ent_Kind entity) (ps_NodeKinds step) \<and> entityMatches env entity (ps_Where step) \<and> entityExprMatches env entity (ps_WhereExpr step))"
proof (induction edges arbitrary: steps entities)
  case Nil
  then show ?case by (cases steps) (auto simp: Let_def entityMatches_def)
next
  case (Cons e es)
  then obtain n ns step rest where "entities = n # ns" "steps = step # rest" by (cases entities; cases steps) auto
  with Cons show ?case by (auto simp: Let_def)
qed

lemma stepLoop_final: "length edges \<le> length steps \<Longrightarrow> stepLoop env steps edges entities True = stepLoop env steps edges entities False"
  by (induction env steps edges entities True rule: stepLoop.induct) (auto split: list.splits)

lemma stepLoop_bound: "stepLoop env steps edges entities True \<Longrightarrow> length edges \<le> length steps"
  by (induction env steps edges entities True rule: stepLoop.induct) (auto split: list.splits if_splits)

lemma path_ok_extend:
  assumes "length (pa_Entities p) = Suc (length (pa_Edges p))"
  shows "path_ok env (extendPath p nb) f \<longleftrightarrow> path_ok env p f \<and> shortestStepAllows env (length (pa_Edges p)) nb f"
proof -
  obtain e es where e: "pa_Entities p = e # es" "length es = length (pa_Edges p)" using assms by (cases "pa_Entities p") auto
  have kinds: "(pf_NodeKinds f \<noteq> [] \<longrightarrow> list_all (\<lambda>e. pathAllowsKind (ent_Kind e) f) xs) \<longleftrightarrow> list_all (\<lambda>e. pathAllowsKind (ent_Kind e) f) xs" for xs
    by (auto simp: pathAllowsKind_iff list_all_iff)
  have ok: "path_ok env q f \<longleftrightarrow> list_all (\<lambda>e. pathAllowsKind (ent_Kind e) f) (pa_Entities q) \<and>
      (pf_Steps f \<noteq> [] \<longrightarrow> length (pa_Edges q) \<le> length (pf_Steps f) \<and> stepLoop env (pf_Steps f) (pa_Edges q) (drop 1 (pa_Entities q)) False)" for q
    using kinds [of "pa_Entities q"] by (auto simp: path_ok_def pathPrefixMatches_def pathStepsMatch_def)
  show ?thesis
    unfolding ok using e
    by (cases "pf_Steps f = []"; cases "length (pa_Edges p) < length (pf_Steps f)")
       (auto simp: extendPath_def shortestStepAllows_def Let_def stepLoop_snoc)
qed

lemma pathMatches_iff:
  "pathMatches env p f \<longleftrightarrow> path_ok env p f \<and> shortestTargetAllows env (pathEnd p) (length (pa_Edges p)) f"
proof (cases "pf_Steps f = []")
  case True
  then show ?thesis
    by (auto simp: pathMatches_def path_ok_def pathPrefixMatches_def pathStepsMatch_def pathEndMatches_def shortestTargetAllows_def
        pathAllowsKind_iff list_all_iff entityMatches_def)
next
  case False
  let ?loop = "stepLoop env (pf_Steps f) (pa_Edges p) (drop 1 (pa_Entities p))"
  have "?loop True \<and> \<not> length (pa_Edges p) < length (pf_Steps f) \<longleftrightarrow> ?loop False \<and> length (pa_Edges p) = length (pf_Steps f)"
    using stepLoop_final [of "pa_Edges p" "pf_Steps f" env "drop 1 (pa_Entities p)"] stepLoop_bound [of env "pf_Steps f" "pa_Edges p" "drop 1 (pa_Entities p)"]
    by auto
  then show ?thesis using False
    by (auto simp: pathMatches_def path_ok_def pathPrefixMatches_def pathStepsMatch_def pathEndMatches_def shortestTargetAllows_def
        pathAllowsKind_iff list_all_iff entityMatches_def)
qed

section \<open>The invariant\<close>

record search_task =
  ta_env :: query_env
  ta_graph :: Graph
  ta_request :: Request
  ta_start :: Entity
  ta_target :: string

abbreviation ta_filter :: "search_task \<Rightarrow> PathFilter" where
  "ta_filter t \<equiv> rq_Path (ta_request t)"

abbreviation task_path :: "search_task \<Rightarrow> nat \<Rightarrow> Path \<Rightarrow> bool" where
  "task_path t \<equiv> query_path (ta_env t) (ta_graph t) (ta_request t) (ta_start t)"

definition first_state :: "search_task \<Rightarrow> shortestState" where
  "first_state t = \<lparr>ss_id = ent_ID (ta_start t), ss_depth = 0, ss_serial = 0\<rparr>"

lemma first_state_simps [simp]: "ss_id (first_state t) = ent_ID (ta_start t)" "ss_depth (first_state t) = 0" "ss_serial (first_state t) = 0"
  by (simp_all add: first_state_def)

definition known :: "shortest_search \<Rightarrow> shortestState set" where
  "known st = fmdom' (sh_entities st)"

definition traces :: "search_task \<Rightarrow> shortest_search \<Rightarrow> shortestState \<Rightarrow> Path \<Rightarrow> bool" where
  "traces t st = trace (first_state t) (ta_start t) (sh_previous st) (sh_entities st)"

definition visited :: "shortest_search \<Rightarrow> shortestState \<Rightarrow> string set" where
  "visited st s = ss_id ` set (chain_of (sh_previous st) s)"

definition task_neighbors :: "search_task \<Rightarrow> shortestState \<Rightarrow> Neighbor list" where
  "task_neighbors t s = levelNeighbors (ta_env t) (ta_graph t) (requestForPathLevel (ta_request t) (ss_depth s)) (ss_id s)"

definition stepped :: "search_task \<Rightarrow> bool" where
  "stepped t \<longleftrightarrow> pf_Steps (ta_filter t) \<noteq> []"

definition live :: "search_task \<Rightarrow> shortest_search \<Rightarrow> shortestState \<Rightarrow> bool" where
  "live t st s \<longleftrightarrow> (stepped t \<longrightarrow> ss_serial s \<in> sh_active st)"

text \<open>An entity is covered at a depth if a live state reaches it in time, over no more than the given entities.\<close>

definition covered :: "search_task \<Rightarrow> shortest_search \<Rightarrow> string \<Rightarrow> nat \<Rightarrow> string set \<Rightarrow> bool" where
  "covered t st i d I \<longleftrightarrow>
     (\<exists>s\<in>known st. live t st s \<and> ss_id s = i \<and> (if stepped t then ss_depth s = d \<and> visited st s \<subseteq> I else ss_depth s \<le> d))"

definition handled :: "search_task \<Rightarrow> shortest_search \<Rightarrow> shortestState \<Rightarrow> Neighbor \<Rightarrow> bool" where
  "handled t st s n \<longleftrightarrow>
     (let i = ent_ID (nb_Entity n) in
      shortestStepAllows (ta_env t) (ss_depth s) n (ta_filter t) \<longrightarrow> i \<notin> visited st s \<longrightarrow>
      (if i = ta_target t then \<not> shortestTargetAllows (ta_env t) (nb_Entity n) (Suc (ss_depth s)) (ta_filter t)
       else covered t st i (Suc (ss_depth s)) (insert i (visited st s))))"

definition sound_state :: "search_task \<Rightarrow> shortest_search \<Rightarrow> shortestState \<Rightarrow> bool" where
  "sound_state t st s \<longleftrightarrow>
     (\<exists>p. traces t st s p \<and> task_path t (ss_depth s) p \<and> path_ok (ta_env t) p (ta_filter t) \<and>
        (ent_ID (ta_start t) \<noteq> ta_target t \<longrightarrow> ta_target t \<notin> ent_ID ` set (pa_Entities p)))"

definition book_ok :: "search_task \<Rightarrow> shortest_search \<Rightarrow> bool" where
  "book_ok t st \<longleftrightarrow>
     (\<forall>s\<in>known st \<union> fmdom' (sh_previous st). ss_serial s < sh_nextSerial st) \<and> inj_on ss_serial (known st) \<and>
     (\<not> stepped t \<longrightarrow> sh_seen st = ss_id ` known st) \<and>
     (\<forall>l. \<forall>s\<in>set (mget_or [] (sh_frontiers st) l). s \<in> known st \<and> ss_id s = sl_id l \<and> ss_depth s = sl_depth l)"

definition search_ok :: "search_task \<Rightarrow> shortest_search \<Rightarrow> bool" where
  "search_ok t st \<longleftrightarrow>
     (\<forall>s\<in>known st. sound_state t st s) \<and> book_ok t st \<and> covered t st (ent_ID (ta_start t)) 0 {ent_ID (ta_start t)} \<and>
     set (sh_queue st) \<subseteq> known st \<and> sorted (map ss_depth (sh_queue st)) \<and> sh_result st = None"

definition settled :: "search_task \<Rightarrow> shortest_search \<Rightarrow> shortestState set \<Rightarrow> bool" where
  "settled t st open' \<longleftrightarrow>
     (\<forall>s\<in>known st. s \<notin> set (sh_queue st) \<longrightarrow> s \<notin> open' \<longrightarrow> live t st s \<longrightarrow> int (ss_depth s) < normalizedDepth (rq_Depth (ta_request t)) \<longrightarrow>
        (\<forall>n\<in>set (task_neighbors t s). handled t st s n))"

definition between :: "search_task \<Rightarrow> shortest_search \<Rightarrow> bool" where
  "between t st \<longleftrightarrow> search_ok t st \<and> settled t st {} \<and> (\<forall>y\<in>known st. \<forall>s\<in>set (sh_queue st). ss_depth y \<le> Suc (ss_depth s))"

definition expanding :: "search_task \<Rightarrow> shortestState \<Rightarrow> Neighbor set \<Rightarrow> shortest_search \<Rightarrow> bool" where
  "expanding t cur passed st \<longleftrightarrow>
     search_ok t st \<and> settled t st {cur} \<and> cur \<in> known st \<and> (\<forall>s\<in>set (sh_queue st). ss_depth cur \<le> ss_depth s) \<and>
     (\<forall>y\<in>known st. ss_depth y \<le> Suc (ss_depth cur)) \<and> (\<forall>n\<in>passed. handled t st cur n)"

section \<open>Completeness\<close>

lemma visited_trace: "traces t st s p \<Longrightarrow> visited st s = ent_ID ` set (pa_Entities p)"
  using trace_chain [of "first_state t" "ta_start t" "sh_previous st" "sh_entities st" s p]
  by (metis first_state_simps(1,2) traces_def visited_def list.set_map set_rev)

lemma contains_visited: "shortestPathContains s i (sh_previous st) \<longleftrightarrow> i \<in> visited st s"
  by (auto simp: shortestPathContains_def visited_def list_ex_iff)

lemma known_path:
  assumes "search_ok t st" "s \<in> known st"
  obtains p where "traces t st s p" "task_path t (ss_depth s) p" "path_ok (ta_env t) p (ta_filter t)"
    "ent_ID (ta_start t) \<noteq> ta_target t \<longrightarrow> ta_target t \<notin> ent_ID ` set (pa_Entities p)"
  using assms unfolding search_ok_def sound_state_def by blast

lemma unstepped_level: "\<not> stepped t \<Longrightarrow> requestForPathLevel (ta_request t) level = ta_request t"
  by (simp add: stepped_def requestForPathLevel_def)

lemma unstepped_allows:
  "\<not> stepped t \<Longrightarrow> shortestStepAllows env i n (ta_filter t) = shortestStepAllows env j n (ta_filter t)"
  "\<not> stepped t \<Longrightarrow> shortestTargetAllows env e i (ta_filter t) = shortestTargetAllows env e j (ta_filter t)"
  by (simp_all add: stepped_def shortestStepAllows_def shortestTargetAllows_def)

text \<open>
  If every live state above a depth is settled, each query path down to that depth that avoids the target is covered,
  and none of them ends in a matching path.
\<close>

lemma covered_path:
  assumes ok: "search_ok t st" and all: "\<And>s n. s \<in> known st \<Longrightarrow> live t st s \<Longrightarrow> ss_depth s < bound \<Longrightarrow> n \<in> set (task_neighbors t s) \<Longrightarrow> handled t st s n"
    and "task_path t k p" "path_ok (ta_env t) p (ta_filter t)" "k \<le> bound" "ta_target t \<notin> ent_ID ` set (pa_Entities p)"
  shows "covered t st (ent_ID (pathEnd p)) k (ent_ID ` set (pa_Entities p))"
  using assms(3-6)
proof (induction rule: query_path.induct)
  case root
  then show ?case using ok by (simp add: search_ok_def root_path_def pathEnd_def)
next
  case (extend_path k p n)
  let ?i = "ent_ID (nb_Entity n)"
  have len: "length (pa_Edges p) = k" "length (pa_Entities p) = Suc k" using query_path_length [OF extend_path.hyps(1)] by auto
  then have "path_ok (ta_env t) p (ta_filter t)" and step: "shortestStepAllows (ta_env t) k n (ta_filter t)"
    using extend_path.prems(1) path_ok_extend [of p "ta_env t" n "ta_filter t"] by simp_all
  with extend_path obtain s where s: "s \<in> known st" "live t st s" "ss_id s = ent_ID (pathEnd p)"
    and d: "if stepped t then ss_depth s = k \<and> visited st s \<subseteq> ent_ID ` set (pa_Entities p) else ss_depth s \<le> k"
    by (auto simp: covered_def extendPath_def)
  have "ss_depth s < bound" using d extend_path.prems(2) by (auto split: if_splits)
  moreover have "n \<in> set (task_neighbors t s)"
    using extend_path.hyps(2) s d unstepped_level [of t] by (cases "stepped t") (simp_all add: task_neighbors_def)
  ultimately have h: "handled t st s n" using all s by blast
  have allows: "shortestStepAllows (ta_env t) (ss_depth s) n (ta_filter t)"
    using step d unstepped_allows(1) [of t "ta_env t" "ss_depth s" n k] by (cases "stepped t") simp_all
  have target: "?i \<noteq> ta_target t" using extend_path.prems(3) by (auto simp: extendPath_def)
  show ?case
  proof (cases "?i \<in> visited st s")
    case False
    with h allows target have "covered t st ?i (Suc (ss_depth s)) (insert ?i (visited st s))" by (simp add: handled_def Let_def)
    with d show ?thesis by (cases "stepped t") (auto simp: covered_def extendPath_def pathEnd_def)
  next
    case True
    moreover have "?i \<notin> ent_ID ` set (pa_Entities p)" using extend_path.hyps(3) by (fastforce simp: pathContainsEntity_def list_ex_iff)
    ultimately have unstepped: "\<not> stepped t" using d by auto
    obtain q where q: "traces t st s q" by (rule known_path [OF ok s(1)])
    then obtain e where e: "e \<in> set (pa_Entities q)" "ent_ID e = ?i" using True visited_trace [OF q] by auto
    obtain s' where "s' \<in> known st" "ss_id s' = ?i" "ss_depth s' \<le> ss_depth s"
      using trace_known [OF q [unfolded traces_def] e(1)] e(2) by (auto simp: known_def)
    with d unstepped show ?thesis by (auto simp: covered_def live_def pathEnd_def extendPath_def)
  qed
qed

lemma no_path_within:
  assumes ok: "search_ok t st" and all: "\<And>s n. s \<in> known st \<Longrightarrow> live t st s \<Longrightarrow> ss_depth s < bound \<Longrightarrow> n \<in> set (task_neighbors t s) \<Longrightarrow> handled t st s n"
    and "task_path t (Suc k) p" "pathMatches (ta_env t) p (ta_filter t)" "ent_ID (pathEnd p) = ta_target t" "Suc k \<le> bound"
  shows False
proof -
  from assms(3) obtain q n where q: "task_path t k q" and p: "p = extendPath q n" and new: "\<not> pathContainsEntity q (ent_ID (nb_Entity n))"
    and n: "n \<in> set (levelNeighbors (ta_env t) (ta_graph t) (requestForPathLevel (ta_request t) k) (ent_ID (pathEnd q)))"
    by (rule query_path_SucE) blast
  have i: "ent_ID (nb_Entity n) = ta_target t" using assms(5) p by simp
  have len: "length (pa_Edges q) = k" "length (pa_Entities q) = Suc k" "hd (pa_Entities q) = ta_start t" using query_path_length [OF q] by auto
  have "path_ok (ta_env t) p (ta_filter t)" and target: "shortestTargetAllows (ta_env t) (nb_Entity n) (Suc k) (ta_filter t)"
    using assms(4) len p by (simp_all add: pathMatches_iff extendPath_def pathEnd_def)
  then have "path_ok (ta_env t) q (ta_filter t)" and step: "shortestStepAllows (ta_env t) k n (ta_filter t)"
    using path_ok_extend [of q "ta_env t" n "ta_filter t"] len p by simp_all
  have avoids: "ta_target t \<notin> ent_ID ` set (pa_Entities q)" using new i by (auto simp: pathContainsEntity_def list_ex_iff)
  have start: "ent_ID (ta_start t) \<noteq> ta_target t" using avoids len by (cases "pa_Entities q") auto
  have "covered t st (ent_ID (pathEnd q)) k (ent_ID ` set (pa_Entities q))"
    by (rule covered_path [where bound = bound, OF ok all q \<open>path_ok (ta_env t) q (ta_filter t)\<close> _ avoids]) (use assms(6) in auto)
  then obtain s where s: "s \<in> known st" "live t st s" "ss_id s = ent_ID (pathEnd q)"
    and d: "if stepped t then ss_depth s = k \<and> visited st s \<subseteq> ent_ID ` set (pa_Entities q) else ss_depth s \<le> k"
    by (auto simp: covered_def)
  have "ss_depth s < bound" using d assms(6) by (auto split: if_splits)
  moreover have "n \<in> set (task_neighbors t s)"
    using n s d unstepped_level [of t] by (cases "stepped t") (simp_all add: task_neighbors_def)
  ultimately have h: "handled t st s n" using all s by blast
  have allows: "shortestStepAllows (ta_env t) (ss_depth s) n (ta_filter t)" "shortestTargetAllows (ta_env t) (nb_Entity n) (Suc (ss_depth s)) (ta_filter t)"
    using step target d unstepped_allows [of t "ta_env t"] by (cases "stepped t"; simp; metis)+
  have "ta_target t \<notin> visited st s" by (rule known_path [OF ok s(1)]) (use start in \<open>simp add: visited_trace\<close>)
  with h allows i show False by (simp add: handled_def Let_def)
qed

section \<open>One neighbour\<close>

lemma subset_tests:
  "shortestStateSubsetOfCandidate s pred i (sh_previous st) \<longleftrightarrow> visited st s \<subseteq> insert i (visited st pred)"
  "shortestCandidateSubsetOfState pred i s (sh_previous st) \<longleftrightarrow> insert i (visited st pred) \<subseteq> visited st s"
  unfolding shortestStateSubsetOfCandidate_def shortestCandidateSubsetOfState_def shortestCandidateContains_def contains_visited
  by (auto simp: visited_def list_all_iff)

text \<open>What depends on the predecessors and entities alone does not change with the counters of a search.\<close>

lemma search_ok_counters:
  assumes "expanding t cur passed st" and "sh_nextSerial st \<le> k"
  shows "expanding t cur passed (st\<lparr>sh_budget := b, sh_nextSerial := k\<rparr>)"
proof -
  let ?st = "st\<lparr>sh_budget := b, sh_nextSerial := k\<rparr>"
  have [simp]: "known ?st = known st" "visited ?st s = visited st s" "live t ?st s = live t st s" "sound_state t ?st s = sound_state t st s" for s
    by (simp_all add: known_def visited_def live_def sound_state_def traces_def)
  have [simp]: "covered t ?st = covered t st" by (intro ext) (simp add: covered_def)
  have [simp]: "handled t ?st s n = handled t st s n" for s n by (simp add: handled_def)
  have "\<forall>s\<in>A. ss_serial s < sh_nextSerial st \<Longrightarrow> \<forall>s\<in>A. ss_serial s < k" for A using assms(2) by auto
  then have "book_ok t st \<Longrightarrow> book_ok t ?st" by (simp add: book_ok_def) blast
  with assms(1) show ?thesis by (simp add: expanding_def search_ok_def settled_def)
qed

text \<open>A new state: the path of the current one and the neighbour.\<close>

definition new_state :: "shortestState \<Rightarrow> Neighbor \<Rightarrow> shortest_search \<Rightarrow> shortestState" where
  "new_state cur n st = \<lparr>ss_id = ent_ID (nb_Entity n), ss_depth = Suc (ss_depth cur), ss_serial = sh_nextSerial st\<rparr>"

definition with_state :: "shortestState \<Rightarrow> Neighbor \<Rightarrow> budget \<Rightarrow> shortest_search \<Rightarrow> shortest_search" where
  "with_state cur n b st = st\<lparr>sh_budget := b, sh_nextSerial := Suc (sh_nextSerial st),
     sh_previous := fmupd (new_state cur n st) \<lparr>sp_state = cur, sp_edge = nb_Edge n\<rparr> (sh_previous st),
     sh_entities := fmupd (new_state cur n st) (nb_Entity n) (sh_entities st)\<rparr>"

lemma new_state_simps [simp]:
  "ss_id (new_state cur n st) = ent_ID (nb_Entity n)" "ss_depth (new_state cur n st) = Suc (ss_depth cur)" "ss_serial (new_state cur n st) = sh_nextSerial st"
  by (simp_all add: new_state_def)

lemma with_state_simps [simp]:
  "sh_queue (with_state cur n b st) = sh_queue st" "sh_seen (with_state cur n b st) = sh_seen st" "sh_frontiers (with_state cur n b st) = sh_frontiers st"
  "sh_active (with_state cur n b st) = sh_active st" "sh_result (with_state cur n b st) = sh_result st"
  "sh_nextSerial (with_state cur n b st) = Suc (sh_nextSerial st)"
  "known (with_state cur n b st) = insert (new_state cur n st) (known st)"
  "fmdom' (sh_previous (with_state cur n b st)) = insert (new_state cur n st) (fmdom' (sh_previous st))"
  by (simp_all add: with_state_def known_def)

lemma new_state_fresh:
  assumes "search_ok t st"
  shows "new_state cur n st \<notin> known st" "mget (sh_previous st) (new_state cur n st) = None" "mget (sh_entities st) (new_state cur n st) = None"
proof -
  have "\<forall>s\<in>known st \<union> fmdom' (sh_previous st). ss_serial s < sh_nextSerial st" using assms by (simp add: search_ok_def book_ok_def)
  moreover have "\<not> ss_serial (new_state cur n st) < sh_nextSerial st" by simp
  ultimately have "new_state cur n st \<notin> known st \<union> fmdom' (sh_previous st)" by blast
  then show "new_state cur n st \<notin> known st" "mget (sh_previous st) (new_state cur n st) = None" "mget (sh_entities st) (new_state cur n st) = None"
    by (auto simp: known_def fmdom'_notD)
qed

lemma with_state_traces:
  assumes "search_ok t st" "traces t st s p"
  shows "traces t (with_state cur n b st) s p"
  unfolding traces_def
  by (rule trace_mono [OF assms(2) [unfolded traces_def]])
     (simp_all add: with_state_def extends_map_upd new_state_fresh [OF assms(1)])

lemma with_state_visited:
  assumes "search_ok t st" "s \<in> known st"
  shows "visited (with_state cur n b st) s = visited st s"
proof -
  obtain p where p: "traces t st s p" by (rule known_path [OF assms])
  from visited_trace [OF p] visited_trace [OF with_state_traces [OF assms(1) p]] show ?thesis by simp
qed

lemma new_state_traces:
  assumes ok: "search_ok t st" and p: "traces t st cur p"
  shows "traces t (with_state cur n b st) (new_state cur n st) (extendPath p n)"
  unfolding traces_def
proof (rule trace.further)
  show "new_state cur n st \<noteq> first_state t" by (metis Zero_not_Suc first_state_simps(2) new_state_simps(2))
  show "mget (sh_previous (with_state cur n b st)) (new_state cur n st) = Some \<lparr>sp_state = cur, sp_edge = nb_Edge n\<rparr>"
    "mget (sh_entities (with_state cur n b st)) (new_state cur n st) = Some (nb_Entity n)" by (simp_all add: with_state_def)
  show "trace (first_state t) (ta_start t) (sh_previous (with_state cur n b st)) (sh_entities (with_state cur n b st)) (sp_state \<lparr>sp_state = cur, sp_edge = nb_Edge n\<rparr>) p"
    using with_state_traces [OF ok p] by (simp add: traces_def)
qed simp_all

lemma new_state_visited:
  assumes "search_ok t st" "cur \<in> known st"
  shows "visited (with_state cur n b st) (new_state cur n st) = insert (ent_ID (nb_Entity n)) (visited st cur)"
proof -
  obtain p where p: "traces t st cur p" by (rule known_path [OF assms])
  from visited_trace [OF new_state_traces [OF assms(1) p]] visited_trace [OF p] show ?thesis by (simp add: extendPath_def)
qed

lemma fmdrop_fresh: "mget m k = None \<Longrightarrow> fmdrop k (fmupd k v m) = m"
  by (intro fmap_ext) (simp add: fmlookup_drop)

lemma forget_with_state:
  assumes "search_ok t st"
  shows "forget_state (new_state cur n st) (with_state cur n b st) = st\<lparr>sh_budget := b, sh_nextSerial := Suc (sh_nextSerial st)\<rparr>"
  using new_state_fresh [OF assms] by (simp add: forget_state_def with_state_def fmdrop_fresh)

lemma handled_mono:
  assumes "handled t st s n" and "visited st' s = visited st s" and "\<And>i d I. covered t st i d I \<Longrightarrow> covered t st' i d I"
  shows "handled t st' s n"
  using assms unfolding handled_def Let_def by (auto split: if_splits)

lemma expanding_add:
  assumes ex: "expanding t cur passed st" and n: "n \<in> set (task_neighbors t cur)" "ent_ID (nb_Entity n) \<notin> visited st cur" "ent_ID (nb_Entity n) \<noteq> ta_target t"
      "shortestStepAllows (ta_env t) (ss_depth cur) n (ta_filter t)"
    and st': "st' = (with_state cur n b st)\<lparr>sh_queue := sh_queue st @ [new_state cur n st], sh_seen := seen, sh_frontiers := frontiers, sh_active := active\<rparr>"
    and book: "book_ok t st'" and keep: "\<And>i d I. covered t st i d I \<Longrightarrow> covered t st' i d I"
    and old: "\<And>s. s \<in> known st \<Longrightarrow> live t st' s \<Longrightarrow> live t st s" and new: "live t st' (new_state cur n st)"
  shows "expanding t cur (insert n passed) st'"
proof -
  let ?new = "new_state cur n st"
  have ok: "search_ok t st" and cur: "cur \<in> known st" using ex by (simp_all add: expanding_def)
  have same: "visited st' = visited (with_state cur n b st)" "traces t st' = traces t (with_state cur n b st)" "known st' = insert ?new (known st)"
    "sh_queue st' = sh_queue st @ [?new]" "sh_result st' = sh_result st"
    by (simp_all add: st' visited_def traces_def known_def fun_eq_iff) (simp add: with_state_def)
  have vis: "visited st' s = visited st s" if "s \<in> known st" for s using with_state_visited [OF ok that] same by simp
  obtain p where p: "traces t st cur p" "task_path t (ss_depth cur) p" "path_ok (ta_env t) p (ta_filter t)"
    "ent_ID (ta_start t) \<noteq> ta_target t \<longrightarrow> ta_target t \<notin> ent_ID ` set (pa_Entities p)" by (rule known_path [OF ok cur])
  have len: "length (pa_Edges p) = ss_depth cur" "length (pa_Entities p) = Suc (ss_depth cur)" using query_path_length [OF p(2)] by auto
  have visp: "visited st cur = ent_ID ` set (pa_Entities p)" by (rule visited_trace [OF p(1)])
  have "ss_id cur = ent_ID (pathEnd p)" using p(1)[unfolded traces_def] by (cases rule: trace.cases) simp_all
  with p(2) n have "task_path t (Suc (ss_depth cur)) (extendPath p n)"
    by (intro query_path.extend_path) (auto simp: task_neighbors_def pathContainsEntity_def list_ex_iff visp image_iff)
  moreover have "path_ok (ta_env t) (extendPath p n) (ta_filter t)" using path_ok_extend [of p] len p(3) n(4) by simp
  ultimately have "sound_state t st' ?new"
    using new_state_traces [OF ok p(1), of n b] p(4) n(3) unfolding sound_state_def same
    by (intro exI [of _ "extendPath p n"]) (auto simp: extendPath_def)
  moreover have "sound_state t st' s" if "s \<in> known st" for s
    by (rule known_path [OF ok that]) (auto simp: sound_state_def same intro: with_state_traces [OF ok])
  ultimately have sound: "\<forall>s\<in>known st'. sound_state t st' s" unfolding same by blast
  have q: "\<forall>s\<in>set (sh_queue st). ss_depth s \<le> Suc (ss_depth cur)" using ex by (auto simp: expanding_def search_ok_def)
  have "search_ok t st'" using ok sound book keep q by (auto simp: search_ok_def same sorted_append)
  moreover have "settled t st' {cur}"
    unfolding settled_def
  proof (intro ballI impI)
    fix s m assume s: "s \<in> known st'" "s \<notin> set (sh_queue st')" "s \<notin> {cur}" "live t st' s" "int (ss_depth s) < normalizedDepth (rq_Depth (ta_request t))"
      and m: "m \<in> set (task_neighbors t s)"
    then have "s \<in> known st" "s \<notin> set (sh_queue st)" by (auto simp: same)
    with s m old ex have "handled t st s m" by (auto simp: expanding_def settled_def)
    with vis keep \<open>s \<in> known st\<close> show "handled t st' s m" using handled_mono by blast
  qed
  moreover have "handled t st' cur m" if "m \<in> passed" for m
    using that ex handled_mono [OF _ vis [OF cur] keep] by (auto simp: expanding_def)
  moreover have "handled t st' cur n"
    using new n(3) new_state_visited [OF ok cur, of n b]
    unfolding handled_def Let_def covered_def same vis [OF cur] by (auto simp: vis [OF cur, unfolded same])
  ultimately show ?thesis using ex by (auto simp: expanding_def same)
qed

lemma expanding_pass:
  "expanding t cur passed st \<Longrightarrow> handled t st cur n \<Longrightarrow> sh_nextSerial st \<le> k \<Longrightarrow> expanding t cur (insert n passed) (st\<lparr>sh_budget := b, sh_nextSerial := k\<rparr>)"
  by (rule search_ok_counters) (auto simp: expanding_def)

lemma book_ok_new:
  assumes "book_ok t st" "new_state cur n st \<notin> known st"
    and "\<not> stepped t \<Longrightarrow> seen = insert (ent_ID (nb_Entity n)) (sh_seen st)"
    and "\<And>l s. s \<in> set (mget_or [] frontiers l) \<Longrightarrow> s \<in> insert (new_state cur n st) (known st) \<and> ss_id s = sl_id l \<and> ss_depth s = sl_depth l"
  shows "book_ok t ((with_state cur n b st)\<lparr>sh_queue := queue, sh_seen := seen, sh_frontiers := frontiers, sh_active := active\<rparr>)" (is "book_ok t ?st")
proof -
  have serials: "\<forall>s\<in>known st \<union> fmdom' (sh_previous st). ss_serial s < sh_nextSerial st" and inj: "inj_on ss_serial (known st)"
    using assms(1) by (simp_all add: book_ok_def)
  have k: "known ?st = insert (new_state cur n st) (known st)" "fmdom' (sh_previous ?st) = insert (new_state cur n st) (fmdom' (sh_previous st))"
    "sh_nextSerial ?st = Suc (sh_nextSerial st)" using with_state_simps [of cur n b st] by (simp_all add: known_def)
  have "inj_on ss_serial (insert (new_state cur n st) (known st))" using inj serials by (fastforce simp: inj_on_insert)
  moreover have "\<forall>s\<in>insert (new_state cur n st) (known st) \<union> insert (new_state cur n st) (fmdom' (sh_previous st)). ss_serial s < Suc (sh_nextSerial st)"
    using serials by (auto simp: less_Suc_eq)
  moreover have "\<not> stepped t \<Longrightarrow> sh_seen ?st = ss_id ` insert (new_state cur n st) (known st)" using assms(1,3) by (simp add: book_ok_def)
  moreover have "\<forall>l. \<forall>s\<in>set (mget_or [] (sh_frontiers ?st) l). s \<in> insert (new_state cur n st) (known st) \<and> ss_id s = sl_id l \<and> ss_depth s = sl_depth l"
    using assms(4) by simp
  ultimately show ?thesis unfolding book_ok_def k by blast
qed

lemma add_unstepped:
  assumes ex: "expanding t cur passed st" and n: "n \<in> set (task_neighbors t cur)" "ent_ID (nb_Entity n) \<notin> visited st cur" "ent_ID (nb_Entity n) \<noteq> ta_target t"
      "shortestStepAllows (ta_env t) (ss_depth cur) n (ta_filter t)" and u: "\<not> stepped t"
  shows "expanding t cur (insert n passed) (enqueue_state (new_state cur n st) ((with_state cur n b st)\<lparr>sh_seen := insert (ent_ID (nb_Entity n)) (sh_seen st)\<rparr>))"
    (is "expanding _ _ _ ?st")
proof (rule expanding_add [OF ex n, where b = b and seen = "insert (ent_ID (nb_Entity n)) (sh_seen st)" and frontiers = "sh_frontiers st" and active = "sh_active st"])
  have ok: "search_ok t st" using ex by (simp add: expanding_def)
  have book: "book_ok t st" using ok by (simp add: search_ok_def)
  show st: "?st = (with_state cur n b st)\<lparr>sh_queue := sh_queue st @ [new_state cur n st], sh_seen := insert (ent_ID (nb_Entity n)) (sh_seen st),
      sh_frontiers := sh_frontiers st, sh_active := sh_active st\<rparr>"
    by (simp add: enqueue_state_def with_state_def)
  show "book_ok t ?st" unfolding st
    by (rule book_ok_new [OF book new_state_fresh(1) [OF ok]]) (use book in \<open>auto simp: book_ok_def\<close>)
  have k: "known ?st = insert (new_state cur n st) (known st)" using with_state_simps(7) [of cur n b st] by (simp add: known_def enqueue_state_def)
  show "covered t ?st i d I" if "covered t st i d I" for i d I using that u by (auto simp: covered_def k live_def)
qed (simp_all add: live_def u)

lemma add_stepped:
  assumes ex: "expanding t cur passed st" and n: "n \<in> set (task_neighbors t cur)" "ent_ID (nb_Entity n) \<notin> visited st cur" "ent_ID (nb_Entity n) \<noteq> ta_target t"
      "shortestStepAllows (ta_env t) (ss_depth cur) n (ta_filter t)" and u: "stepped t"
    and r: "retainSteppedShortestState (new_state cur n st) cur (with_state cur n b st) = (st3, True)"
  shows "expanding t cur (insert n passed) (enqueue_state (new_state cur n st) st3)" (is "expanding _ _ _ ?st")
proof -
  let ?new = "new_state cur n st" and ?w = "with_state cur n b st" and ?i = "ent_ID (nb_Entity n)"
  have ok: "search_ok t st" and cur: "cur \<in> known st" using ex by (simp_all add: expanding_def)
  have book: "book_ok t st" using ok by (simp add: search_ok_def)
  let ?level = "\<lparr>sl_id = ?i, sl_depth = Suc (ss_depth cur)\<rparr>"
  define alive where "alive = filter (\<lambda>s. ss_serial s \<in> sh_active st) (mget_or [] (sh_frontiers st) ?level)"
  let ?dom = "\<lambda>s. shortestCandidateSubsetOfState cur ?i s (sh_previous ?w)"
  let ?frontiers = "fmupd ?level (filter (\<lambda>s. \<not> ?dom s) alive @ [?new]) (sh_frontiers st)"
  let ?active = "insert (sh_nextSerial st) (sh_active st - ss_serial ` set (filter ?dom alive))"
  have st3: "st3 = ?w\<lparr>sh_frontiers := ?frontiers, sh_active := ?active\<rparr>"
    using r by (auto simp: retainSteppedShortestState_def Let_def alive_def split: if_splits)
  have st: "?st = ?w\<lparr>sh_queue := sh_queue st @ [?new], sh_seen := sh_seen st, sh_frontiers := ?frontiers, sh_active := ?active\<rparr>"
    by (simp add: st3 enqueue_state_def with_state_def)
  have k: "known ?st = insert ?new (known st)" "visited ?st = visited ?w" "sh_active ?st = ?active"
    using with_state_simps(7) [of cur n b st] by (simp_all add: st known_def visited_def fun_eq_iff)
  have front: "s \<in> known st \<and> ss_id s = sl_id l \<and> ss_depth s = sl_depth l" if "s \<in> set (mget_or [] (sh_frontiers st) l)" for s l
    using book that by (auto simp: book_ok_def)
  have alive: "s \<in> known st" "ss_id s = ?i" "ss_depth s = Suc (ss_depth cur)" if "s \<in> set alive" for s
    using that front [of s ?level] by (auto simp: alive_def)
  have fresh: "ss_serial s < sh_nextSerial st" if "s \<in> known st" for s using book that by (auto simp: book_ok_def)
  have keep: "covered t ?st i d I" if "covered t st i d I" for i d I
  proof -
    from that u obtain s where s: "s \<in> known st" "ss_serial s \<in> sh_active st" "ss_id s = i" "ss_depth s = d" "visited st s \<subseteq> I"
      by (auto simp: covered_def live_def)
    show ?thesis
    proof (cases "ss_serial s \<in> ss_serial ` set (filter ?dom alive)")
      case False
      with s u show ?thesis by (auto simp: covered_def live_def k with_state_visited [OF ok])
    next
      case True
      then obtain x where x: "x \<in> set alive" "?dom x" "ss_serial s = ss_serial x" by auto
      then have "s = x" using book s(1) alive(1) by (auto simp: book_ok_def dest: inj_onD)
      moreover have "insert ?i (visited st cur) \<subseteq> visited st x"
        using x(2) alive(1) [OF x(1)] cur by (simp add: subset_tests(2) with_state_visited [OF ok])
      ultimately have "visited ?w ?new \<subseteq> I" using s(5) unfolding new_state_visited [OF ok cur] by blast
      with \<open>s = x\<close> alive [OF x(1)] s u show ?thesis unfolding covered_def k by (auto simp: live_def k)
    qed
  qed
  show ?thesis
  proof (rule expanding_add [OF ex n st _ keep])
    show "book_ok t ?st" unfolding st
      by (rule book_ok_new [OF book new_state_fresh(1) [OF ok]])
         (use u front alive in \<open>auto simp: mget_or_def split: if_splits\<close>)
    show "live t st s" if "s \<in> known st" "live t ?st s" for s using that fresh [OF that(1)] u by (auto simp: live_def k)
    show "live t ?st ?new" by (simp add: live_def k)
  qed
qed

definition found :: "search_task \<Rightarrow> nat \<Rightarrow> shortest_search \<Rightarrow> bool" where
  "found t k st \<longleftrightarrow>
     (\<exists>p. sh_result st = Some p \<and> task_path t k p \<and> pathMatches (ta_env t) p (ta_filter t) \<and> ent_ID (pathEnd p) = ta_target t)"

lemma found_target:
  assumes ex: "expanding t cur passed st" and n: "n \<in> set (task_neighbors t cur)" "ent_ID (nb_Entity n) \<notin> visited st cur" "ent_ID (nb_Entity n) = ta_target t"
      "shortestStepAllows (ta_env t) (ss_depth cur) n (ta_filter t)" "shortestTargetAllows (ta_env t) (nb_Entity n) (Suc (ss_depth cur)) (ta_filter t)"
    and w: "w = with_state cur n b st"
  shows "found t (Suc (ss_depth cur)) (w\<lparr>sh_result := Some (rebuildShortestPath (first_state t) (new_state cur n st) (sh_previous w) (sh_entities w))\<rparr>)"
proof -
  have ok: "search_ok t st" and cur: "cur \<in> known st" using ex by (simp_all add: expanding_def)
  obtain p where p: "traces t st cur p" "task_path t (ss_depth cur) p" "path_ok (ta_env t) p (ta_filter t)" by (rule known_path [OF ok cur])
  have len: "length (pa_Edges p) = ss_depth cur" "length (pa_Entities p) = Suc (ss_depth cur)" using query_path_length [OF p(2)] by auto
  have "ss_id cur = ent_ID (pathEnd p)" using p(1)[unfolded traces_def] by (cases rule: trace.cases) simp_all
  with p(2) n have "task_path t (Suc (ss_depth cur)) (extendPath p n)"
    by (intro query_path.extend_path) (auto simp: task_neighbors_def pathContainsEntity_def list_ex_iff visited_trace [OF p(1)] image_iff)
  moreover have "pathMatches (ta_env t) (extendPath p n) (ta_filter t)"
    using path_ok_extend [of p "ta_env t" n "ta_filter t"] len p(3) n(4,5) by (simp add: pathMatches_iff) (simp add: extendPath_def)
  moreover have "rebuildShortestPath (first_state t) (new_state cur n st) (sh_previous w) (sh_entities w) = extendPath p n"
    using trace_rebuild [OF new_state_traces [OF ok p(1), of n b, unfolded traces_def]] by (simp add: w)
  ultimately show ?thesis using n(3) by (simp add: found_def)
qed

lemma shortest_neighbor_cases:
  "shortest_neighbor (ta_env t) (ta_request t) (first_state t) (ta_target t) cur st n =
     (let i = ent_ID (nb_Entity n); b = count_visit (sh_budget st); w = with_state cur n b st; new = new_state cur n st in
      if i \<in> visited st cur \<or> \<not> shortestStepAllows (ta_env t) (ss_depth cur) n (ta_filter t) then (st\<lparr>sh_budget := b, sh_nextSerial := sh_nextSerial st\<rparr>, Inr True)
      else if i = ta_target t \<and> \<not> shortestTargetAllows (ta_env t) (nb_Entity n) (Suc (ss_depth cur)) (ta_filter t)
      then (st\<lparr>sh_budget := b, sh_nextSerial := Suc (sh_nextSerial st)\<rparr>, Inr True)
      else if i = ta_target t then (w\<lparr>sh_result := Some (rebuildShortestPath (first_state t) new (sh_previous w) (sh_entities w))\<rparr>, Inr False)
      else if stepped t then
        (case retainSteppedShortestState new cur w of
           (s3, False) \<Rightarrow> (forget_state new s3, Inr True)
         | (s3, True) \<Rightarrow> (enqueue_state new s3, Inr True))
      else if i \<in> sh_seen st then (forget_state new w, Inr True)
      else (enqueue_state new (w\<lparr>sh_seen := insert i (sh_seen st)\<rparr>), Inr True))"
proof -
  have "shortestPathContains cur i (sh_previous (st\<lparr>sh_budget := b\<rparr>)) \<longleftrightarrow> i \<in> visited st cur" for i b
    using contains_visited [of cur i st] by simp
  then show ?thesis
    by (simp add: shortest_neighbor_def Let_def stepped_def with_state_def new_state_def)
qed

lemma shortest_neighbor_step:
  assumes ex: "expanding t cur passed st" and n: "n \<in> set (task_neighbors t cur)"
    and r: "shortest_neighbor (ta_env t) (ta_request t) (first_state t) (ta_target t) cur st n = (st', res)"
  shows "res = Inr True \<and> expanding t cur (insert n passed) st' \<or> res = Inr False \<and> found t (Suc (ss_depth cur)) st'"
proof -
  let ?i = "ent_ID (nb_Entity n)" and ?b = "count_visit (sh_budget st)"
  let ?w = "with_state cur n ?b st" and ?new = "new_state cur n st" and ?allows = "shortestStepAllows (ta_env t) (ss_depth cur) n (ta_filter t)"
  have ok: "search_ok t st" and cur: "cur \<in> known st" using ex by (simp_all add: expanding_def)
  have book: "book_ok t st" using ok by (simp add: search_ok_def)
  consider (skip) "?i \<in> visited st cur \<or> \<not> ?allows"
    | (refused) "?i \<notin> visited st cur" ?allows "?i = ta_target t" "\<not> shortestTargetAllows (ta_env t) (nb_Entity n) (Suc (ss_depth cur)) (ta_filter t)"
    | (target) "?i \<notin> visited st cur" ?allows "?i = ta_target t" "shortestTargetAllows (ta_env t) (nb_Entity n) (Suc (ss_depth cur)) (ta_filter t)"
    | (stepped) "?i \<notin> visited st cur" ?allows "?i \<noteq> ta_target t" "stepped t"
    | (plain) "?i \<notin> visited st cur" ?allows "?i \<noteq> ta_target t" "\<not> stepped t"
    by blast
  then show ?thesis
  proof cases
    case skip
    then have "handled t st cur n" by (auto simp: handled_def Let_def)
    from expanding_pass [OF ex this, of "sh_nextSerial st" ?b] skip r show ?thesis by (simp add: shortest_neighbor_cases)
  next
    case refused
    then have "handled t st cur n" by (auto simp: handled_def Let_def)
    from expanding_pass [OF ex this, of "Suc (sh_nextSerial st)" ?b] refused r show ?thesis by (simp add: shortest_neighbor_cases)
  next
    case target
    from found_target [OF ex n target(1,3,2,4) refl] target r show ?thesis by (auto simp: shortest_neighbor_cases Let_def)
  next
    case plain
    show ?thesis
    proof (cases "?i \<in> sh_seen st")
      case True
      with plain book obtain s where "s \<in> known st" "ss_id s = ?i" by (auto simp: book_ok_def)
      with plain ex have "handled t st cur n" by (auto simp: handled_def covered_def expanding_def live_def Let_def)
      from expanding_pass [OF ex this, of "Suc (sh_nextSerial st)" ?b] plain True r forget_with_state [OF ok, of cur n ?b]
      show ?thesis by (simp add: shortest_neighbor_cases)
    next
      case False
      with add_unstepped [OF ex n plain(1,3,2,4)] plain r show ?thesis by (auto simp: shortest_neighbor_cases Let_def)
    qed
  next
    case stepped
    obtain s3 kept where k: "retainSteppedShortestState ?new cur ?w = (s3, kept)" by (rule prod.exhaust)
    show ?thesis
    proof (cases kept)
      case True
      with add_stepped [OF ex n stepped(1,3,2,4)] stepped k r show ?thesis by (auto simp: shortest_neighbor_cases Let_def)
    next
      case False
      then have s3: "s3 = ?w" and "\<exists>s\<in>set (mget_or [] (sh_frontiers st) \<lparr>sl_id = ?i, sl_depth = Suc (ss_depth cur)\<rparr>).
          ss_serial s \<in> sh_active st \<and> visited ?w s \<subseteq> insert ?i (visited ?w cur)"
        using k by (auto simp: retainSteppedShortestState_def Let_def list_ex_iff subset_tests split: if_splits)
      then obtain s where "s \<in> known st" "ss_id s = ?i" "ss_depth s = Suc (ss_depth cur)" "ss_serial s \<in> sh_active st" "visited ?w s \<subseteq> insert ?i (visited ?w cur)"
        using book by (fastforce simp: book_ok_def)
      then have "handled t st cur n"
        using stepped with_state_visited [OF ok cur] with_state_visited [OF ok] by (auto simp: handled_def covered_def live_def Let_def)
      from expanding_pass [OF ex this, of "Suc (sh_nextSerial st)" ?b] stepped False k s3 r forget_with_state [OF ok, of cur n ?b]
      show ?thesis by (simp add: shortest_neighbor_cases Let_def)
    qed
  qed
qed

lemma shortest_neighbors:
  assumes "expanding t cur passed st" and "set ns \<subseteq> set (task_neighbors t cur)"
    and "visit_while (shortest_neighbor (ta_env t) (ta_request t) (first_state t) (ta_target t) cur) ns st = (st', res)"
  shows "res = Inr True \<and> expanding t cur (passed \<union> set ns) st' \<or> res = Inr False \<and> found t (Suc (ss_depth cur)) st' \<and>
    (\<exists>passed' st0. expanding t cur passed' st0)"
  using assms
proof (induction ns arbitrary: st passed)
  case Nil
  then show ?case by auto
next
  case (Cons n ns)
  obtain st1 r where r: "shortest_neighbor (ta_env t) (ta_request t) (first_state t) (ta_target t) cur st n = (st1, r)" by (rule prod.exhaust)
  from shortest_neighbor_step [OF Cons.prems(1) _ r] Cons.prems(2)
  consider "r = Inr True" "expanding t cur (insert n passed) st1" | "r = Inr False" "found t (Suc (ss_depth cur)) st1" by auto
  then show ?case
  proof cases
    case 1
    have "passed \<union> set (n # ns) = insert n passed \<union> set ns" by auto
    moreover have "visit_while (shortest_neighbor (ta_env t) (ta_request t) (first_state t) (ta_target t) cur) ns st1 = (st', res)"
      using Cons.prems(3) r 1(1) by simp
    moreover have "set ns \<subseteq> set (task_neighbors t cur)" using Cons.prems(2) by simp
    ultimately show ?thesis using Cons.IH [OF 1(2)] by metis
  next
    case 2
    with Cons.prems r show ?thesis by auto
  qed
qed

section \<open>The loop\<close>

text \<open>The answer of a search: no path, or a path of the task that is no longer than any other.\<close>

definition task_match :: "search_task \<Rightarrow> nat \<Rightarrow> Path \<Rightarrow> bool" where
  "task_match t k p \<longleftrightarrow> int k \<le> normalizedDepth (rq_Depth (ta_request t)) \<and> task_path t k p \<and> pathMatches (ta_env t) p (ta_filter t) \<and>
     ent_ID (pathEnd p) = ta_target t"

definition answers :: "search_task \<Rightarrow> Path option \<Rightarrow> bool" where
  "answers t r \<longleftrightarrow>
     (case r of
        None \<Rightarrow> \<not> (\<exists>k p. task_match t k p)
      | Some p \<Rightarrow> task_match t (length (pa_Edges p)) p \<and> (\<forall>k q. task_match t k q \<longrightarrow> length (pa_Edges p) \<le> k))"

definition needs_search :: "search_task \<Rightarrow> bool" where
  "needs_search t \<longleftrightarrow> \<not> (\<exists>p. task_match t 0 p)"

lemma between_pop:
  assumes b: "between t st" and q: "sh_queue st = cur # rest"
    and skip: "\<not> live t st cur \<or> normalizedDepth (rq_Depth (ta_request t)) \<le> int (ss_depth cur)"
  shows "between t (st\<lparr>sh_budget := b', sh_queue := rest\<rparr>)"
proof -
  let ?st = "st\<lparr>sh_budget := b', sh_queue := rest\<rparr>"
  have [simp]: "known ?st = known st" "visited ?st s = visited st s" "live t ?st s = live t st s" "sound_state t ?st s = sound_state t st s" "book_ok t ?st = book_ok t st" for s
    by (simp_all add: known_def visited_def live_def sound_state_def traces_def book_ok_def)
  have [simp]: "covered t ?st = covered t st" by (intro ext) (simp add: covered_def)
  have [simp]: "handled t ?st s n = handled t st s n" for s n by (simp add: handled_def)
  show ?thesis using b q skip by (auto simp: between_def search_ok_def settled_def)
qed

lemma between_expand:
  assumes b: "between t st" and q: "sh_queue st = cur # rest"
  shows "expanding t cur {} (st\<lparr>sh_budget := b', sh_queue := rest\<rparr>)"
proof -
  let ?st = "st\<lparr>sh_budget := b', sh_queue := rest\<rparr>"
  have [simp]: "known ?st = known st" "visited ?st s = visited st s" "live t ?st s = live t st s" "sound_state t ?st s = sound_state t st s" "book_ok t ?st = book_ok t st" for s
    by (simp_all add: known_def visited_def live_def sound_state_def traces_def book_ok_def)
  have [simp]: "covered t ?st = covered t st" by (intro ext) (simp add: covered_def)
  have [simp]: "handled t ?st s n = handled t st s n" for s n by (simp add: handled_def)
  show ?thesis using b q by (auto simp: between_def expanding_def search_ok_def settled_def)
qed

lemma expanding_between: "expanding t cur (set (task_neighbors t cur)) st \<Longrightarrow> between t st"
  by (fastforce simp: expanding_def between_def settled_def)

lemma none_shorter:
  assumes ex: "expanding t cur passed st" and d: "int (ss_depth cur) < normalizedDepth (rq_Depth (ta_request t))" and "needs_search t" and "task_match t k q"
  shows "Suc (ss_depth cur) \<le> k"
proof (rule ccontr)
  assume "\<not> Suc (ss_depth cur) \<le> k"
  then have k: "k \<le> ss_depth cur" by simp
  with assms(3,4) obtain j where j: "k = Suc j" by (cases k) (auto simp: needs_search_def)
  have "handled t st s n" if "s \<in> known st" "live t st s" "ss_depth s < ss_depth cur" "n \<in> set (task_neighbors t s)" for s n
    using ex that d by (fastforce simp: expanding_def settled_def)
  then show False
    using no_path_within [of t st "ss_depth cur" j q] ex assms(4) j k by (auto simp: expanding_def task_match_def)
qed

lemma none_at_all:
  assumes "between t st" and "sh_queue st = []" and "needs_search t" and "task_match t k q"
  shows False
proof -
  let ?d = "nat (normalizedDepth (rq_Depth (ta_request t)))"
  obtain j where j: "k = Suc j" using assms(3,4) by (cases k) (auto simp: needs_search_def)
  have "handled t st s n" if "s \<in> known st" "live t st s" "ss_depth s < ?d" "n \<in> set (task_neighbors t s)" for s n
    using assms(1,2) that by (auto simp: between_def settled_def zless_nat_eq_int_zless)
  moreover have "Suc j \<le> ?d" using assms(4) j by (auto simp: task_match_def)
  ultimately show False
    using no_path_within [of t st ?d j q] assms(1,4) j by (auto simp: between_def task_match_def)
qed

abbreviation task_loop :: "search_task \<Rightarrow> shortest_search \<Rightarrow> shortest_search \<times> (query_error + Path option)" where
  "task_loop t \<equiv> shortest_loop (ta_env t) (ta_graph t) (ta_request t) (first_state t) (ta_target t)"

lemma loop_skip:
  assumes "sh_queue st = cur # rest" and "budget_check (sh_budget st) = (b, None)"
    and "\<not> live t st cur \<or> normalizedDepth (rq_Depth (ta_request t)) \<le> int (ss_depth cur)"
  shows "task_loop t st = task_loop t (st\<lparr>sh_budget := b, sh_queue := rest\<rparr>)"
proof (cases "live t st cur")
  case True
  with assms have "normalizedDepth (rq_Depth (ta_request t)) \<le> int (ss_depth cur)" by blast
  with assms(1,2) show ?thesis by (subst shortest_loop.simps) (simp only: list.case prod.case option.case Let_def if_True if_cancel)
next
  case False
  then have "pf_Steps (ta_filter t) \<noteq> [] \<and> ss_serial cur \<notin> sh_active (st\<lparr>sh_budget := b, sh_queue := rest\<rparr>)" by (simp add: live_def stepped_def)
  with assms(1,2) show ?thesis by (subst shortest_loop.simps) (simp only: list.case prod.case option.case Let_def if_True simp_thms)
qed

lemma loop_expand:
  assumes "sh_queue st = cur # rest" and "budget_check (sh_budget st) = (b, None)"
    and "live t st cur" and "int (ss_depth cur) < normalizedDepth (rq_Depth (ta_request t))"
    and "neighborsForBudget (ta_env t) (ta_graph t) (ss_id cur) (requestForPathLevel (ta_request t) (ss_depth cur)) b = (b', r)"
  shows "task_loop t st =
    (case r of
       Inl e \<Rightarrow> (st\<lparr>sh_budget := b', sh_queue := rest\<rparr>, Inl e)
     | Inr neighbors \<Rightarrow>
         (case visit_while (shortest_neighbor (ta_env t) (ta_request t) (first_state t) (ta_target t) cur) neighbors (st\<lparr>sh_budget := b', sh_queue := rest\<rparr>) of
            (s2, Inl e) \<Rightarrow> (s2, Inl e)
          | (s2, Inr _) \<Rightarrow> (case sh_result s2 of Some path \<Rightarrow> (s2, Inr (Some path)) | None \<Rightarrow> task_loop t s2)))"
proof -
  have "\<not> (pf_Steps (ta_filter t) \<noteq> [] \<and> ss_serial cur \<notin> sh_active (st\<lparr>sh_budget := b, sh_queue := rest\<rparr>))"
    "\<not> normalizedDepth (rq_Depth (ta_request t)) \<le> int (ss_depth cur)" "sh_budget (st\<lparr>sh_budget := b, sh_queue := rest\<rparr>) = b"
    "st\<lparr>sh_budget := b, sh_queue := rest, sh_budget := b'\<rparr> = st\<lparr>sh_budget := b', sh_queue := rest\<rparr>"
    using assms(3,4) by (auto simp: live_def stepped_def)
  note facts = this
  show ?thesis
    by (subst shortest_loop.simps) (simp only: assms(1,2,5) facts list.case prod.case option.case Let_def if_False)
qed

lemma shortest_loop_answers:
  assumes "shortest_loop (ta_env t) (ta_graph t) (ta_request t) (first_state t) (ta_target t) st = (st', res)" and "between t st" and "needs_search t"
  shows "case res of Inl e \<Rightarrow> exhausted (sh_budget st') | Inr r \<Rightarrow> answers t r"
  using assms(1,2)
proof (induction st rule: wf_induct_rule [OF wf_inv_image [OF wf_mult [OF wf_less_than], of "queue_weight (ta_request t)"]])
  case (1 st)
  note run = 1(2) and b = 1(3)
  have IH: "case res of Inl e \<Rightarrow> exhausted (sh_budget st') | Inr r \<Rightarrow> answers t r"
    if "(queue_weight (ta_request t) s, queue_weight (ta_request t) st) \<in> mult less_than"
      "shortest_loop (ta_env t) (ta_graph t) (ta_request t) (first_state t) (ta_target t) s = (st', res)" "between t s" for s
    using 1(1) [of s] that by simp
  show ?case
  proof (cases "sh_queue st")
    case Nil
    then have "res = Inr None" using run by (simp add: shortest_loop.simps [of _ _ _ _ _ st])
    with none_at_all [OF b Nil assms(3)] show ?thesis by (auto simp: answers_def)
  next
    case (Cons cur rest)
    obtain b1 e where c: "budget_check (sh_budget st) = (b1, e)" by (rule prod.exhaust)
    let ?s1 = "st\<lparr>sh_budget := b1, sh_queue := rest\<rparr>"
    consider (fail) e' where "e = Some e'" | (skip) "e = None" "\<not> live t st cur \<or> normalizedDepth (rq_Depth (ta_request t)) \<le> int (ss_depth cur)"
      | (expand) "e = None" "live t st cur" "int (ss_depth cur) < normalizedDepth (rq_Depth (ta_request t))" by fastforce
    then show ?thesis
    proof cases
      case fail
      with run Cons c show ?thesis by (auto simp: shortest_loop.simps [of _ _ _ _ _ st] check_exhausted)
    next
      case skip
      then have "task_loop t ?s1 = (st', res)" using run loop_skip [OF Cons _ skip(2)] c by simp
      then show ?thesis by (rule IH [OF queue_weight_pop [OF Cons] _ between_pop [OF b Cons skip(2)]])
    next
      case expand
      have c': "budget_check (sh_budget st) = (b1, None)" using c expand(1) by simp
      note step = loop_expand [OF Cons c' expand(2,3)]
      show ?thesis
      proof (cases rule: neighborsForBudget_cases [of "ta_env t" "ta_graph t" "ss_id cur" "requestForPathLevel (ta_request t) (ss_depth cur)" b1])
        case (1 b' e')
        with step [OF 1(1)] run show ?thesis by auto
      next
        case (2 b')
        obtain s2 r where v: "visit_while (shortest_neighbor (ta_env t) (ta_request t) (first_state t) (ta_target t) cur) (task_neighbors t cur) (st\<lparr>sh_budget := b', sh_queue := rest\<rparr>) = (s2, r)"
          by (rule prod.exhaust)
        from shortest_neighbors [OF between_expand [OF b Cons] subset_refl v]
        consider (all) "r = Inr True" "expanding t cur (set (task_neighbors t cur)) s2"
          | (hit) passed s0 where "r = Inr False" "found t (Suc (ss_depth cur)) s2" "expanding t cur passed s0" by auto
        then show ?thesis
        proof cases
          case all
          then have next': "between t s2" by (intro expanding_between)
          then have "sh_result s2 = None" by (simp add: between_def search_ok_def)
          then have loop: "shortest_loop (ta_env t) (ta_graph t) (ta_request t) (first_state t) (ta_target t) s2 = (st', res)"
            using step [OF 2] run v all by (simp add: task_neighbors_def)
          have "adds_deeper cur (st\<lparr>sh_queue := rest\<rparr>) s2" using visit_while_deeper [OF v] by (simp add: adds_deeper_def)
          from IH [OF queue_weight_expand [OF Cons this expand(3)] loop next'] show ?thesis .
        next
          case hit
          then obtain p where p: "sh_result s2 = Some p" "task_path t (Suc (ss_depth cur)) p" "pathMatches (ta_env t) p (ta_filter t)" "ent_ID (pathEnd p) = ta_target t"
            by (auto simp: found_def)
          then have "res = Inr (Some p)" using step [OF 2] run v hit by (simp add: task_neighbors_def)
          moreover have "length (pa_Edges p) = Suc (ss_depth cur)" using query_path_length [OF p(2)] by simp
          ultimately show ?thesis using p expand(3) none_shorter [OF hit(3) expand(3) assms(3)] by (auto simp: answers_def task_match_def)
        qed
      qed
    qed
  qed
qed

lemma initial_between:
  assumes "pathAllowsKind (ent_Kind (ta_start t)) (ta_filter t)"
  shows "between t (initial_search (ta_start t) b)"
proof -
  let ?st = "initial_search (ta_start t) b"
  have st: "?st = \<lparr>sh_budget = b, sh_queue = [first_state t], sh_seen = {ent_ID (ta_start t)}, sh_frontiers = fmempty, sh_active = {0},
       sh_nextSerial = 1, sh_previous = fmempty, sh_entities = fmupd (first_state t) (ta_start t) fmempty, sh_result = None\<rparr>"
    by (simp add: initial_search_def first_state_def Let_def)
  have k: "known ?st = {first_state t}" by (simp add: st known_def)
  have tr: "traces t ?st (first_state t) (pp_path (root_path (ta_start t)))"
    unfolding traces_def by (rule trace.first) (simp add: st)
  have "path_ok (ta_env t) (pp_path (root_path (ta_start t))) (ta_filter t)"
    using assms by (simp add: path_ok_def pathPrefixMatches_def pathStepsMatch_def root_path_def)
  with tr have "sound_state t ?st (first_state t)"
    using query_path.root [of "ta_env t" "ta_graph t" "ta_request t" "ta_start t"] unfolding sound_state_def
    by (intro exI conjI) (auto simp: root_path_def)
  moreover have "visited ?st (first_state t) = {ent_ID (ta_start t)}" using visited_trace [OF tr] by (simp add: root_path_def)
  then have "covered t ?st (ent_ID (ta_start t)) 0 {ent_ID (ta_start t)}" by (simp add: covered_def k live_def) (simp add: st)
  moreover have "book_ok t ?st" unfolding book_ok_def k by (simp add: st mget_or_def)
  moreover have "sh_queue ?st = [first_state t]" "sh_result ?st = None" by (simp_all add: st)
  ultimately show ?thesis by (simp add: between_def search_ok_def settled_def k)
qed

lemma shortestPath_answers:
  assumes "shortestPath env g start target request b = (b', res)"
  shows "case res of Inl e \<Rightarrow> exhausted b'
    | Inr r \<Rightarrow> answers \<lparr>ta_env = env, ta_graph = g, ta_request = request, ta_start = start, ta_target = ent_ID target\<rparr> r"
proof -
  let ?t = "\<lparr>ta_env = env, ta_graph = g, ta_request = request, ta_start = start, ta_target = ent_ID target\<rparr>"
  have zero: "task_match ?t 0 p \<longleftrightarrow> p = pp_path (root_path start) \<and> pathAllowsKind (ent_Kind start) (rq_Path request) \<and>
      ent_ID start = ent_ID target \<and> shortestTargetAllows env start 0 (rq_Path request)" for p
  proof -
    have "path_ok env (pp_path (root_path start)) (rq_Path request) \<longleftrightarrow> pathAllowsKind (ent_Kind start) (rq_Path request)"
      by (auto simp: path_ok_def pathPrefixMatches_def pathStepsMatch_def root_path_def pathAllowsKind_iff)
    then show ?thesis
      using depth_bounds(1) [of "rq_Depth request"]
      by (auto simp: task_match_def pathMatches_iff intro: query_path.root elim!: query_path_0E) (auto simp: root_path_def)
  qed
  have kind: "pathAllowsKind (ent_Kind start) (rq_Path request)" if "task_match ?t k p" for k p
  proof -
    from that have "pathMatches env p (rq_Path request)" "hd (pa_Entities p) \<in> set (pa_Entities p)" "hd (pa_Entities p) = start"
      using query_path_length [of env g request start k p] by (auto simp: task_match_def intro: hd_in_set)
    then show ?thesis by (auto simp: pathMatches_def pathAllowsKind_iff list_all_iff split: if_splits)
  qed
  show ?thesis
  proof (cases "pathAllowsKind (ent_Kind start) (rq_Path request)")
    case False
    with assms kind show ?thesis by (auto simp: shortestPath_def answers_def)
  next
    case True
    show ?thesis
    proof (cases "ent_ID start = ent_ID target \<and> shortestTargetAllows env start 0 (rq_Path request)")
      case here: True
      with True assms zero [of "pp_path (root_path start)"] show ?thesis by (auto simp: shortestPath_def answers_def root_path_def)
    next
      case False
      with zero have n: "needs_search ?t" by (auto simp: needs_search_def)
      from initial_between [of ?t b] True have b: "between ?t (initial_search start b)" by simp
      obtain s r where l: "shortest_loop env g request (first_state ?t) (ent_ID target) (initial_search start b) = (s, r)" by (rule prod.exhaust)
      with True False assms have "b' = sh_budget s" "res = r" by (auto simp: shortestPath_def first_state_def)
      moreover have "case r of Inl e \<Rightarrow> exhausted (sh_budget s) | Inr r \<Rightarrow> answers ?t r"
        by (rule shortest_loop_answers [OF _ b n]) (use l in simp)
      ultimately show ?thesis by blast
    qed
  qed
qed

end
