(* ===== verification/QueryProps.thy ===== *)
theory QueryProps
  imports ShortestProof GraphProps
begin

text \<open>
  The properties of path queries: the two traversals visit the paths of one specification, and the shortest path query
  returns a shortest of them.
\<close>

section \<open>Stored paths\<close>

text \<open>Consecutive entities of a path are joined by its edges, all as the graph stores them.\<close>

definition stored_path :: "Graph \<Rightarrow> Path \<Rightarrow> bool" where
  "stored_path g p \<longleftrightarrow> length (pa_Entities p) = Suc (length (pa_Edges p)) \<and>
     (\<forall>i<length (pa_Edges p). let edge = pa_Edges p ! i; from' = pa_Entities p ! i; to' = pa_Entities p ! Suc i in
        mget (g_Edges g) (edge_ID edge) = Some edge \<and> mget (g_Entities g) (ent_ID to') = Some to' \<and>
        (edge_From edge = ent_ID from' \<and> edge_To edge = ent_ID to' \<or> edge_To edge = ent_ID from' \<and> edge_From edge = ent_ID to'))"

lemma stored_path_extend:
  assumes p: "stored_path g p" and "mget (g_Edges g) (edge_ID (nb_Edge n)) = Some (nb_Edge n)" "mget (g_Entities g) (ent_ID (nb_Entity n)) = Some (nb_Entity n)"
    and "edge_From (nb_Edge n) = ent_ID (pathEnd p) \<and> edge_To (nb_Edge n) = ent_ID (nb_Entity n) \<or> edge_To (nb_Edge n) = ent_ID (pathEnd p) \<and> edge_From (nb_Edge n) = ent_ID (nb_Entity n)"
  shows "stored_path g (extendPath p n)"
proof -
  have len: "length (pa_Entities p) = Suc (length (pa_Edges p))" using p by (simp add: stored_path_def)
  then have "pathEnd p = pa_Entities p ! length (pa_Edges p)" by (auto simp: pathEnd_def last_conv_nth)
  with assms len show ?thesis by (auto simp: stored_path_def extendPath_def nth_append less_Suc_eq Let_def)
qed

lemma query_path_stored:
  assumes "graph_ok g" and "query_path env g request start n p"
  shows "stored_path g p"
  using assms(2)
proof (induction rule: query_path.induct)
  case root
  then show ?case by (simp add: stored_path_def root_path_def)
next
  case (extend_path n p nb)
  obtain refs where refs: "levelNeighbors env g (requestForPathLevel request n) (ent_ID (pathEnd p)) = map (neighborAt g) refs"
    and stored: "\<And>r. r \<in> set refs \<Longrightarrow> \<exists>e n. mget (g_Edges g) (nr_edgeID r) = Some e \<and> edge_ID e = nr_edgeID r \<and> mget (g_Entities g) (nr_entityID r) = Some n \<and>
       ent_ID n = nr_entityID r \<and> (nr_direction r = ''out'' \<and> edge_From e = ent_ID (pathEnd p) \<and> edge_To e = nr_entityID r \<or> nr_direction r = ''in'' \<and> edge_To e = ent_ID (pathEnd p) \<and> edge_From e = nr_entityID r)"
    by (rule levelNeighbors_refs [OF assms(1)]) blast
  from extend_path.hyps(2) refs obtain r where r: "r \<in> set refs" "nb = neighborAt g r" by auto
  from stored [OF r(1)] show ?case by (intro stored_path_extend [OF extend_path.IH]) (auto simp: r(2) neighborAt_def mget_or_def)
qed

section \<open>Examples\<close>

definition zero_PathFilter :: PathFilter where
  "zero_PathFilter = \<lparr>pf_NodeKinds = [], pf_EndKind = [], pf_EndWhere = [], pf_EndWhereExpr = None, pf_RelationTypes = [], pf_Steps = [], pf_MaxPaths = 0\<rparr>"

definition zero_Request :: Request where
  "zero_Request = \<lparr>rq_Op = [], rq_TargetOp = [], rq_Kind = [], rq_Filters = fmempty, rq_Where = [], rq_WhereExpr = None, rq_EdgeWhere = [],
     rq_EdgeWhereExpr = None, rq_ID = [], rq_TargetID = [], rq_Direction = [], rq_DirectionStrategy = [], rq_RelationType = [],
     rq_RelationTypes = [], rq_Depth = 0, rq_Path = zero_PathFilter, rq_Sort = [], rq_Project = [], rq_Aggregate = [], rq_GroupBy = [],
     rq_Having = [], rq_HavingExpr = None, rq_Limit = 0, rq_Cursor = [], rq_TimeoutMS = 0, rq_CostLimit = 0, rq_Profile = False,
     rq_MinVersion = 0, rq_AllowStale = False\<rparr>"

definition query_request :: Request where
  "query_request = zero_Request\<lparr>rq_Direction := ''out'', rq_Depth := 3\<rparr>"

definition query_example_env :: query_env where
  "query_example_env = \<lparr>ge_ToLower = id, ge_Now = 0, qe_ParseRFC3339Nano = \<lambda>_. None, qe_ParseDate = \<lambda>_. None, qe_FormatSortLayout = \<lambda>_. []\<rparr>"

text \<open>Three entities, with an edge from each to the next and one from the first to the last.\<close>

definition triangle_entity :: "string \<Rightarrow> Entity" where
  "triangle_entity i = zero_Entity\<lparr>ent_ID := i, ent_Kind := ''host''\<rparr>"

definition triangle_edge :: "string \<Rightarrow> string \<Rightarrow> string \<Rightarrow> Edge" where
  "triangle_edge k from' to' = zero_Edge\<lparr>edge_ID := k, edge_Type := ''link'', edge_From := from', edge_To := to'\<rparr>"

definition triangle :: Graph where
  "triangle = zero_Graph\<lparr>
     g_Entities := fmap_of_list [(''a'', triangle_entity ''a''), (''b'', triangle_entity ''b''), (''c'', triangle_entity ''c'')],
     g_Edges := fmap_of_list [(''1'', triangle_edge ''1'' ''a'' ''b''), (''2'', triangle_edge ''2'' ''b'' ''c''), (''3'', triangle_edge ''3'' ''a'' ''c'')],
     g_out := fmap_of_list [(''a'', {''1'', ''3''}), (''b'', {''2''})], g_in := fmap_of_list [(''b'', {''1''}), (''c'', {''2'', ''3''})]\<rparr>"

lemma triangle_search:
  "map_sum id (map_option (\<lambda>p. map edge_ID (pa_Edges p)))
     (snd (shortestPath query_example_env triangle (triangle_entity ''a'') (triangle_entity ''c'') query_request (newBudget None query_request))) = Inr (Some [''3''])"
  by code_simp

section \<open>Properties\<close>

text \<open>C16.
  In a graph with exact indexes both traversals visit, for every visitor that does not fail, the paths of one
  specification: the simple paths from the start entity along the neighbours of their levels, with at least one edge and
  no more than the depth, that match the path filter. Each path is visited once, as many as a positive limit allows, and
  every visited path is stored: its edges join its entities in the graph. The breadth-first traversal has one order of
  them, the depth-first one a permutation of it, and \<open>collectPaths\<close> returns the depth-first order up to the limit. A
  traversal that fails has used up its budget.
\<close>

theorem traversals_exact:
  assumes "graph_ok g"
  shows "\<exists>bs ds. set bs = traversal_paths env g start request \<and> distinct bs \<and> mset ds = mset bs \<and> list_all (stored_path g) bs \<and>
    (case visitPaths env g start request k (plain_visit f) b s of
       (w, None) \<Rightarrow> pw_state w = foldl f s (limited k bs)
     | (w, Some e) \<Rightarrow> exhausted (pw_budget w)) \<and>
    (case visitPathsInIdentityOrder env g start request k (plain_visit f) b s of
       (w, None) \<Rightarrow> pw_state w = foldl f s (limited k ds)
     | (w, Some e) \<Rightarrow> exhausted (pw_budget w)) \<and>
    (case collectPaths env g start request k b of
       (b', Inr paths) \<Rightarrow> paths = limited k ds
     | (b', Inl e) \<Rightarrow> exhausted b')"
proof (intro exI conjI)
  show "set (in_breadth_order env g start request) = traversal_paths env g start request" by (rule set_in_breadth_order)
  show "distinct (in_breadth_order env g start request)" by (rule orders_distinct [OF assms])
  show "mset (in_depth_order env g start request) = mset (in_breadth_order env g start request)" by (rule orders_agree)
  show "list_all (stored_path g) (in_breadth_order env g start request)"
    unfolding list_all_iff set_in_breadth_order by (auto simp: traversal_paths_iff intro: query_path_stored [OF assms])
  have "foldl (\<lambda>ps p. ps @ [p]) qs ps = qs @ ps" for qs ps :: "Path list" by (induction ps arbitrary: qs) simp_all
  moreover have "collect_path = plain_visit (\<lambda>ps p. ps @ [p])" by (intro ext) (simp add: collect_path_def plain_visit_def)
  ultimately show "case collectPaths env g start request k b of
      (b', Inr paths) \<Rightarrow> paths = limited k (in_depth_order env g start request) | (b', Inl e) \<Rightarrow> exhausted b'"
    using visitPathsInIdentityOrder_visits [where f = "\<lambda>ps p. ps @ [p]" and s = "[]" and env = env and g = g and start = start and request = request and k = k and b = b]
    by (auto simp: collectPaths_def split: prod.splits option.splits)
qed (rule visitPaths_visits visitPathsInIdentityOrder_visits)+

theorem traversals_exact_witness:
  "\<exists>ds. set ds = traversal_paths query_example_env demo_graph (demo_entity ''a'' ''10.0.0.1'') query_request \<and> distinct ds \<and>
     (case collectPaths query_example_env demo_graph (demo_entity ''a'' ''10.0.0.1'') query_request 0 (newBudget None query_request) of
        (b', Inr paths) \<Rightarrow> paths = ds
      | (b', Inl e) \<Rightarrow> exhausted b')"
proof -
  obtain bs ds where "set bs = traversal_paths query_example_env demo_graph (demo_entity ''a'' ''10.0.0.1'') query_request" "distinct bs" "mset ds = mset bs"
    and c: "case collectPaths query_example_env demo_graph (demo_entity ''a'' ''10.0.0.1'') query_request 0 (newBudget None query_request) of
        (b', Inr paths) \<Rightarrow> paths = limited 0 ds | (b', Inl e) \<Rightarrow> exhausted b'"
    using traversals_exact [OF demo_graph_ok, where env = query_example_env and start = "demo_entity ''a'' ''10.0.0.1''" and request = query_request
        and k = 0 and f = "\<lambda>s p. s" and b = "newBudget None query_request" and s = "()"]
    by (elim exE conjE) (rule that)
  then have "set ds = traversal_paths query_example_env demo_graph (demo_entity ''a'' ''10.0.0.1'') query_request" "distinct ds"
    by (metis mset_eq_setD, metis mset_eq_imp_distinct_iff)
  moreover have "limited 0 ds = ds" by (simp add: limited_def)
  ultimately show ?thesis using c by metis
qed

text \<open>C15.
  The shortest path query returns a shortest one of the matching paths that end at the target, and no path exactly if
  there is none; it does so with the pruning of seen entities and, for a path of steps, with the pruning of states that
  another state of the same level dominates. A search that fails has used up its budget.
\<close>

theorem shortestPath_shortest:
  assumes "shortestPath env g start target request b = (b', res)"
  shows "case res of
      Inl e \<Rightarrow> exhausted b'
    | Inr None \<Rightarrow> \<not> (\<exists>q\<in>matching_paths env g start request. ent_ID (pathEnd q) = ent_ID target)
    | Inr (Some p) \<Rightarrow> p \<in> matching_paths env g start request \<and> ent_ID (pathEnd p) = ent_ID target \<and>
        (\<forall>q\<in>matching_paths env g start request. ent_ID (pathEnd q) = ent_ID target \<longrightarrow> length (pa_Edges p) \<le> length (pa_Edges q))"
proof -
  let ?t = "\<lparr>ta_env = env, ta_graph = g, ta_request = request, ta_start = start, ta_target = ent_ID target\<rparr>"
  have m: "q \<in> matching_paths env g start request \<and> ent_ID (pathEnd q) = ent_ID target \<longleftrightarrow> task_match ?t (length (pa_Edges q)) q" for q
    using query_path_length [of env g request start _ q] by (auto simp: matching_paths_def task_match_def)
  have l: "length (pa_Edges q) = k" if "task_match ?t k q" for k q
    using that query_path_length [of env g request start k q] by (simp add: task_match_def)
  show ?thesis
  proof (cases res)
    case (Inr r)
    with shortestPath_answers [OF assms] have a: "answers ?t r" by simp
    show ?thesis
    proof (cases r)
      case None
      with a m Inr show ?thesis by (auto simp: answers_def)
    next
      case (Some p)
      with a have "task_match ?t (length (pa_Edges p)) p" "\<And>k q. task_match ?t k q \<Longrightarrow> length (pa_Edges p) \<le> k" by (auto simp: answers_def)
      with m show ?thesis by (auto simp: Inr Some)
    qed
  qed (use shortestPath_answers [OF assms] in simp)
qed

theorem shortestPath_shortest_witness:
  "\<exists>p\<in>matching_paths query_example_env triangle (triangle_entity ''a'') query_request.
     map edge_ID (pa_Edges p) = [''3''] \<and> ent_ID (pathEnd p) = ''c'' \<and>
     (\<forall>q\<in>matching_paths query_example_env triangle (triangle_entity ''a'') query_request. ent_ID (pathEnd q) = ''c'' \<longrightarrow> 1 \<le> length (pa_Edges q))"
proof -
  obtain b' res where r: "shortestPath query_example_env triangle (triangle_entity ''a'') (triangle_entity ''c'') query_request (newBudget None query_request) = (b', res)"
    by (rule prod.exhaust)
  with triangle_search obtain p where p: "res = Inr (Some p)" "map edge_ID (pa_Edges p) = [''3'']" by (cases res) auto
  then have "length (pa_Edges p) = 1" by (metis length_map One_nat_def list.size(3,4) Suc_eq_plus1 add_0)
  with shortestPath_shortest [OF r] p show ?thesis by (auto simp: triangle_entity_def intro!: bexI [of _ p])
qed

end
