(* ===== verification/Spec2Isabelle.thy ===== *)
theory Spec2Isabelle
  imports CommitProps GraphProps ShardedMaps Sharing QueryProps
begin

text \<open>
  GGraphDB (Go, \<open>src/\<close>) is a multi-tenant graph database for configuration items. Its engine, the package
  \<open>src/internal/graph\<close>, holds one tenant's graph in memory: typed entities and edges with the sources that reported
  them, a type system, secondary indexes, and a content fingerprint. Changes arrive as commits, batches of mutations
  with a version; the storage layer applies a commit to a copy of the current graph, persists it, and publishes the
  copy, so that readers always see one complete version. Queries (\<open>src/internal/query\<close>) read through the indexes. This
  development models the engine operation by operation, and of the queries the filters and the path queries, and proves
  them correct.

  \<^bold>\<open>The path of a write.\<close> A batch of mutations is prepared (override markers, labels), filtered by the tenant's
  source policy (aliases, priorities), and applied in a fixed order: deletions, schema changes, entity upserts, stale
  marks, merges, splits, edge upserts. Each entity is normalised, resolved to a stored one by its identity signatures,
  merged field by field by source priority, checked against its type and the unique fields, and indexed. A tracker
  remembers the digests of what is touched; at the end it updates fingerprint, logical hash cache and report.

  \<^bold>\<open>The theories\<close>, in the order of their imports, with the files of \<open>src/internal/graph\<close> they model:
  \<^item> \<open>Prelude\<close>: errors as sums (\<open>rbind\<close>, \<open>foldM\<close>, \<open>mapM\<close>), finite maps iterated in key order (\<open>entries\<close>,
    \<open>skeys\<close>), list and map lemmas. \<open>GoStd\<close>: the parts of Go's library in use (trimming, UTF-8, integer and float
    printing). \<open>GoSort\<close>: \<open>sort.Search\<close> and \<open>container/heap\<close>. \<open>Sha256\<close>: FIPS 180-4 on 32-bit words.
  \<^item> \<open>Types\<close> (\<open>types.go\<close>), \<open>Values\<close> (\<open>fields.go\<close>, \<open>fields_normalize.go\<close>), \<open>FieldWrite\<close>
    (\<open>entity_field_write.go\<close>, \<open>entity_labels.go\<close>), \<open>SourcePolicy\<close> (\<open>source_policy*.go\<close>). \<open>Json\<close>: the text that
    \<open>json.Marshal\<close> writes of a value.
  \<^item> \<open>Identity\<close> (\<open>identity.go\<close>), \<open>EntityMerge\<close> (\<open>validate.go\<close>, \<open>field_sources.go\<close>, \<open>merge.go\<close>), \<open>Schema\<close>
    (\<open>schema.go\<close>, \<open>ci_type.go\<close>, \<open>property_schema.go\<close>), \<open>EdgeModel\<close> (\<open>edge_identity.go\<close>, \<open>edge_merge.go\<close>).
  \<^item> \<open>ContentHash\<close>, \<open>Fingerprint\<close> (\<open>content_*.go\<close>): canonical JSON, XOR fingerprint, change tracker, blocked hash
    cache.
  \<^item> \<open>GraphState\<close> (\<open>graph.go\<close>, \<open>index*.go\<close>: the record \<open>Graph\<close> and every index operation), \<open>GraphIndex\<close> and
    \<open>ReadOrders\<close> (what the indexes and cached orders mean), \<open>ShardedMaps\<close> (\<open>sharded_map.go\<close> over a heap of buckets).
  \<^item> \<open>UniqueValidation\<close> (\<open>unique_validation.go\<close>), \<open>Mutation\<close> (\<open>apply.go\<close>, \<open>entity_*.go\<close>, \<open>merge_edges.go\<close>,
    \<open>split.go\<close>, \<open>relation_*.go\<close>), \<open>Commit\<close> (\<open>copy_on_write.go\<close>, the commits of \<open>apply.go\<close>, the copies of \<open>graph.go\<close>).
  \<^item> \<open>Steps\<close>, \<open>Phases\<close>, \<open>CommitSteps\<close>, \<open>CommitEntry\<close>: a commit as a state machine of atomic steps, its invariants by
    rule induction, the contract of a phase as a locale. \<open>Sharing\<close>: what each phase leaves alone.
  \<^item> \<open>SortedVisits\<close>, \<open>Reads\<close>, \<open>ReadProps\<close>, \<open>Neighbors\<close> (\<open>read*.go\<close>, \<open>neighbor_count.go\<close>), \<open>Snapshots\<close>
    (\<open>FromSnapshot\<close>, \<open>entity_canonical.go\<close>).
  \<^item> Of \<open>src/internal/query\<close>: \<open>QueryFilter\<close> (\<open>types.go\<close>, \<open>filter.go\<close>), \<open>QueryPaths\<close> (\<open>budget.go\<close>, \<open>path_helpers.go\<close>,
    \<open>path_neighbors.go\<close>, \<open>traverse.go\<close>, \<open>path_ordered_visit.go\<close>), \<open>PathTraversal\<close> (the paths a request asks for, and
    that both traversals visit them), \<open>ShortestPath\<close> (\<open>shortest.go\<close>), \<open>ShortestProof\<close> (the invariant of its search).
  \<^item> \<open>CommitProps\<close>, \<open>GraphProps\<close>, \<open>QueryProps\<close> and this theory hold the properties that span components; the others stand in the
    theory of their component.

  \<^bold>\<open>What the lemmas show.\<close> Values, fields and policies: normal forms, idempotence, who wins and what is reported.
  Identity: signatures are injective. Types: the hierarchy check accepts exactly the well-founded hierarchies and
  inheritance is the unique solution of its equations. Indexes: every incremental update equals a rebuild, of the identity index too;
  caches hold what a scan gives and stay within their bounds. Commits: indexes (the identity index included), keys,
  fingerprint, hash cache and partition table are exact after every commit whose split replacements have trimmed,
  nonempty IDs (\<open>trimmed_splits\<close>: the change tracker touches a replacement under the ID as it was sent, the graph stores
  it under the trimmed one); for the identity index a commit that changes the identity encoding must find the stored
  identities unique in the new one (\<open>encoding_ok\<close>). A batch equals its commits one by one; what the impact of a commit
  does not declare is unchanged. Reads equal scans. Snapshots of graphs in storage form restore the graph; any snapshot
  whose entities have nonblank IDs restores to sound indexes, in which the identity index registers every signature and
  is exact if no two entities of a kind share one. The sharded maps refine finite maps.
  Path queries: the traversals visit exactly the matching simple paths, each once, and the shortest path search finds a
  shortest one or none exactly if there is none.

  \<^bold>\<open>Conventions.\<close> A Go map is a finite map; where the code ranges over one, the model iterates in ascending key
  order, and sorted or order-independent results are proved where the code relies on it. A nil map or slice is the empty
  one where the code does not tell them apart, and an option where it does. Errors are values of the datatype \<open>error\<close>,
  one constructor per message. A string is a list of bytes. A \<open>float64\<close> is NaN, an infinity, the negative zero or a
  rational: the two zeros are equal numbers (\<open>feq\<close>) and deeply equal (\<open>DeepEqual\<close>, for \<open>reflect.DeepEqual\<close>), but they
  have different JSON texts, which the lookups by text of \<open>appendUniqueArrayField\<close> and \<open>validate\<close> notice
  (\<open>appendUnique_negative_zero\<close>, \<open>validate_negative_zero\<close>). Time is an integer of nanoseconds, zero for the zero time.
  \<open>unicode.ToLower\<close> and the clock are the fields of \<open>go_env\<close>. A copy of a value is the value: deep copies
  (\<open>copy.go\<close>) and copy-on-write of nested index maps are the identity here, while the map container itself is modelled
  with addresses in \<open>ShardedMaps\<close> and its independence of clones proved there. One goroutine at a time: the mutexes
  guard caches only. Loops are structural recursion or carry a termination proof; the eviction loop of the adjacency
  cache is a partial function, proved to return. The walks along the predecessors of the shortest path search take the
  depth of their state as fuel, which is enough: every step goes up one level (\<open>chain_unfold\<close>). A context is the number
  of checks it answers before it is done; the lookups of a query into persisted indexes are nil; parsing and formatting
  of timestamps are fields of \<open>query_env\<close>.

  \<^bold>\<open>Not modelled.\<close> \<open>src/internal/storage\<close> (files, object stores, write-ahead log, parquet), \<open>replication\<close>, \<open>ha\<close>,
  \<open>sharding\<close>, \<open>httpapi\<close> and the rest: I/O, network protocols and third-party formats around the engine. Of the queries:
  the query languages, the planner, cursors, aggregation, execution over persisted indexes and the building of responses.
\<close>

section \<open>What a storage copy shares\<close>

text \<open>C14.
  The impact that \<open>storageMutationImpactFor\<close> reads off the mutation lists of a commit is sound: after a successful
  commit, under any source policy, the CI types, the relation types, the entities with all their indexes, and the
  edges with all their indexes are the source's own unless the impact declares them; so is the identity index, unless
  the commit switches the identity encoding. A storage copy may share these maps with its source.
\<close>

theorem commit_respects_impact:
  assumes "ApplyCommitStorageCopyWithOptions env g commit options = Inr (g', report)"
    and "impact = storageMutationImpactFor (co_Mutations commit)"
  shows "(im_ciTypes impact \<or> g_CITypes g' = g_CITypes g) \<and>
    (im_relationTypes impact \<or> g_RelationTypes g' = g_RelationTypes g) \<and>
    (im_entities impact \<or> entity_part g' = entity_part g) \<and>
    (im_edges impact \<or> edge_part g' = edge_part g) \<and>
    (im_entities impact \<or> im_ciTypes impact \<or> g_legacyIdentity g \<noteq> legacyCommitIdentity commit \<or> g_identityIndex g' = g_identityIndex g)"
proof -
  obtain m suppressed fp report0 where m: "admitted commit options = Inr (m, suppressed)"
    and a: "applyMutations env (commit\<lparr>co_Mutations := m\<rparr>)
       (g\<lparr>g_contentFingerprint := fp, g_contentFingerprintReady := True, g_entityPartitions := None, g_Version := co_Version commit\<rparr>) = Inr (g', report0)"
    using applyCommitCopyE [OF assms(1) [unfolded storage_copy_same]] by metis
  have im: "impact = storageMutationImpactFor (co_Mutations (commit\<lparr>co_Mutations := m\<rparr>))"
    using m policy_impact by (auto simp: assms(2) admitted_def split: option.splits)
  note parts = applyMutations_impact [OF a im, unfolded Graph.simps]
  have [simp]: "legacyCommitIdentity (commit\<lparr>co_Mutations := m\<rparr>) = legacyCommitIdentity commit"
    by (simp add: legacyCommitIdentity_def)
  from parts show ?thesis by (auto simp: entity_part_def edge_part_def)
qed

theorem commit_respects_impact_witness:
  "\<exists>g' report. ApplyCommitStorageCopyWithOptions example_env example_start example_commit no_policy = Inr (g', report) \<and>
     g_CITypes g' = g_CITypes example_start \<and> g_RelationTypes g' = g_RelationTypes example_start \<and> edge_part g' = edge_part example_start"
proof -
  obtain g' report where r: "ApplyCommitStorageCopyWithOptions example_env example_start example_commit no_policy = Inr (g', report)"
    by (rule succeedsE [OF example_commit_runs]) (simp add: storage_copy_same)
  from commit_respects_impact [OF r refl] r show ?thesis
    by (simp add: example_commit_def storageMutationImpactFor_def zero_Mutations_def)
qed

end
